(* ===== verification/Prelude.thy ===== *)
theory Prelude
  imports Complex_Main "HOL-Library.Product_Lexorder" "HOL-Library.List_Lexorder"
    "HOL-Library.Char_ord" "HOL-Library.AList"
begin

text \<open>
  Shared vocabulary of the development.

  \<^item> Types: UUIDs are naturals (PostgreSQL orders a uuid as a 128-bit number), datetimes are
    microseconds as \<open>int\<close>, Python floats are \<open>real\<close> (arithmetic without rounding), JSON values
    are the datatype \<open>json\<close> and a Python dict with string keys is an association list in
    insertion order.
  \<^item> Python helpers: slices, \<open>strip\<close>, \<open>lower\<close> on ASCII, dict reads and writes.
  \<^item> Tables: a database table is a list of row records with distinct ids; \<open>update_where\<close> is
    \<open>UPDATE .. WHERE\<close>, \<open>filter\<close> is \<open>SELECT .. WHERE\<close>, \<open>sort_key\<close> is \<open>ORDER BY\<close>.
  The collections \<open>slice_simps\<close> and \<open>table_simps\<close> hold the rewrite rules the component proofs use.
\<close>

named_theorems slice_simps "rewrite rules for Python slices"
named_theorems table_simps "rewrite rules for tables of rows"

type_synonym uuid = nat
type_synonym datetime = int
type_synonym worker_id = string

section \<open>JSON values and dicts\<close>

datatype json =
    JNull
  | JBool bool
  | JInt int
  | JFloat real
  | JStr string
  | JList "json list"
  | JObj "(string \<times> json) list"

type_synonym dict = "(string \<times> json) list"

abbreviation dict_get :: "dict \<Rightarrow> string \<Rightarrow> json option" where
  "dict_get d k \<equiv> map_of d k"

abbreviation dict_set :: "dict \<Rightarrow> string \<Rightarrow> json \<Rightarrow> dict" where
  "dict_set d k v \<equiv> AList.update k v d"

text \<open>Truth value of a JSON value, as Python's \<open>or\<close> and \<open>if\<close> see it.\<close>

fun truthy :: "json \<Rightarrow> bool" where
  "truthy JNull = False"
| "truthy (JBool b) = b"
| "truthy (JInt i) = (i \<noteq> 0)"
| "truthy (JFloat r) = (r \<noteq> 0)"
| "truthy (JStr s) = (s \<noteq> [])"
| "truthy (JList xs) = (xs \<noteq> [])"
| "truthy (JObj d) = (d \<noteq> [])"

lemma dict_get_set [simp]:
  "dict_get (dict_set d k v) k' = (if k' = k then Some v else dict_get d k')"
  by (simp add: update_conv')

section \<open>Strings\<close>

text \<open>\<open>str.isspace\<close> and \<open>str.lower\<close> on the ASCII range, where every label the code compares with lives.\<close>

definition is_space :: "char \<Rightarrow> bool" where
  "is_space c \<longleftrightarrow> (let n = of_char c :: nat in n = 32 \<or> (9 \<le> n \<and> n \<le> 13) \<or> (28 \<le> n \<and> n \<le> 31))"

definition lower_char :: "char \<Rightarrow> char" where
  "lower_char c = (let n = of_char c :: nat in if 65 \<le> n \<and> n \<le> 90 then char_of (n + 32) else c)"

definition upper_char :: "char \<Rightarrow> char" where
  "upper_char c = (let n = of_char c :: nat in if 97 \<le> n \<and> n \<le> 122 then char_of (n - 32) else c)"

definition lower :: "string \<Rightarrow> string" where
  "lower s = map lower_char s"

definition upper :: "string \<Rightarrow> string" where
  "upper s = map upper_char s"

definition rstrip_by :: "('a \<Rightarrow> bool) \<Rightarrow> 'a list \<Rightarrow> 'a list" where
  "rstrip_by p xs = rev (dropWhile p (rev xs))"

definition strip_by :: "('a \<Rightarrow> bool) \<Rightarrow> 'a list \<Rightarrow> 'a list" where
  "strip_by p xs = rstrip_by p (dropWhile p xs)"

definition strip :: "string \<Rightarrow> string" where
  "strip s = strip_by is_space s"

text \<open>
  \<open>str(raw).strip().lower()\<close> where the code compares the result with fixed lower-case labels.
  The text of a number, list or object starts with a digit, a sign or a bracket (or is
  \<open>inf\<close>, \<open>nan\<close>), so it is none of those labels: \<open>None\<close>.
\<close>

fun str_label :: "json \<Rightarrow> string option" where
  "str_label (JStr s) = Some (lower (strip s))"
| "str_label JNull = Some ''none''"
| "str_label (JBool b) = Some (if b then ''true'' else ''false'')"
| "str_label _ = None"

lemma rstrip_by_eq_Nil [simp]: "rstrip_by p xs = [] \<longleftrightarrow> (\<forall>x\<in>set xs. p x)"
  by (auto simp: rstrip_by_def dropWhile_eq_Nil_conv)

lemma strip_by_eq_Nil [simp]: "strip_by p xs = [] \<longleftrightarrow> (\<forall>x\<in>set xs. p x)"
proof -
  have "(\<forall>x\<in>set (dropWhile p xs). p x) \<longleftrightarrow> (\<forall>x\<in>set xs. p x)"
    by (metis dropWhile_eq_Nil_conv hd_dropWhile hd_in_set set_dropWhileD)
  then show ?thesis by (simp add: strip_by_def)
qed

lemma rstrip_by_Nil [simp]: "rstrip_by p [] = []"
  by (simp add: rstrip_by_def)

lemma rstrip_by_snoc [simp]: "rstrip_by p (xs @ [x]) = (if p x then rstrip_by p xs else xs @ [x])"
  by (simp add: rstrip_by_def)

lemma rstrip_by_last: "rstrip_by p xs \<noteq> [] \<Longrightarrow> \<not> p (last (rstrip_by p xs))"
  by (induction xs rule: rev_induct) (auto split: if_splits)

lemma rstrip_by_id: "xs = [] \<or> \<not> p (last xs) \<Longrightarrow> rstrip_by p xs = xs"
  by (induction xs rule: rev_induct) auto

lemma set_rstrip_by: "set (rstrip_by p xs) \<subseteq> set xs"
  unfolding rstrip_by_def using set_dropWhileD by fastforce

text \<open>\<open>str.startswith\<close>, \<open>str.endswith\<close> and substring containment \<open>p in s\<close>.\<close>

definition starts_with :: "'a list \<Rightarrow> 'a list \<Rightarrow> bool" where
  "starts_with p s \<longleftrightarrow> take (length p) s = p"

definition ends_with :: "'a list \<Rightarrow> 'a list \<Rightarrow> bool" where
  "ends_with p s \<longleftrightarrow> starts_with (rev p) (rev s)"

fun contains :: "'a list \<Rightarrow> 'a list \<Rightarrow> bool" where
  "contains p [] = (p = [])"
| "contains p (x # xs) = (starts_with p (x # xs) \<or> contains p xs)"

section \<open>Text of numbers, UUIDs and JSON\<close>

definition hex_digit :: "nat \<Rightarrow> char" where
  "hex_digit n = ''0123456789abcdef'' ! (n mod 16)"

text \<open>\<open>hex_of k n\<close> is the last \<open>k\<close> hexadecimal digits of \<open>n\<close>.\<close>

fun hex_of :: "nat \<Rightarrow> nat \<Rightarrow> string" where
  "hex_of 0 n = []"
| "hex_of (Suc k) n = hex_of k (n div 16) @ [hex_digit n]"

fun dec_nat :: "nat \<Rightarrow> string" where
  "dec_nat n = (if n < 10 then [hex_digit n] else dec_nat (n div 10) @ [hex_digit (n mod 10)])"

declare dec_nat.simps [simp del]

definition dec_int :: "int \<Rightarrow> string" where
  "dec_int i = (if i < 0 then ''-'' @ dec_nat (nat (- i)) else dec_nat (nat i))"

definition uuid_str :: "uuid \<Rightarrow> string" where
  "uuid_str u =
     (let h = hex_of 32 u
      in take 8 h @ ''-'' @ take 4 (drop 8 h) @ ''-'' @ take 4 (drop 12 h) @ ''-'' @
         take 4 (drop 16 h) @ ''-'' @ drop 20 h)"

text \<open>
  \<open>json.dumps(v, sort_keys=True, separators=(",", ":"), ensure_ascii=False)\<close>: characters are
  code points below 256. The shortest decimal text of a float, \<open>repr\<close>, is an argument.
\<close>

definition json_escape :: "bool \<Rightarrow> char \<Rightarrow> string" where
  "json_escape ascii c =
     (let n = of_char c :: nat; bs = char_of (92 :: nat)
      in if n = 34 then [bs, char_of (34 :: nat)]
         else if n = 92 then [bs, bs]
         else if n = 10 then bs # ''n''
         else if n = 13 then bs # ''r''
         else if n = 9 then bs # ''t''
         else if n = 8 then bs # ''b''
         else if n = 12 then bs # ''f''
         else if n < 32 \<or> (ascii \<and> 126 < n) then (bs # ''u'') @ hex_of 4 n
         else [c])"

definition json_string :: "bool \<Rightarrow> string \<Rightarrow> string" where
  "json_string ascii s =
     [char_of (34 :: nat)] @ concat (map (json_escape ascii) s) @ [char_of (34 :: nat)]"

fun join :: "'a list \<Rightarrow> 'a list list \<Rightarrow> 'a list" where
  "join sep [] = []"
| "join sep [x] = x"
| "join sep (x # y # xs) = x @ sep @ join sep (y # xs)"

text \<open>The two flags are \<open>ensure_ascii\<close> and \<open>sort_keys\<close>.\<close>

fun json_dumps :: "(real \<Rightarrow> string) \<Rightarrow> bool \<Rightarrow> bool \<Rightarrow> json \<Rightarrow> string" where
  "json_dumps rp ascii srt JNull = ''null''"
| "json_dumps rp ascii srt (JBool b) = (if b then ''true'' else ''false'')"
| "json_dumps rp ascii srt (JInt i) = dec_int i"
| "json_dumps rp ascii srt (JFloat r) = rp r"
| "json_dumps rp ascii srt (JStr s) = json_string ascii s"
| "json_dumps rp ascii srt (JList xs) = ''['' @ join '','' (map (json_dumps rp ascii srt) xs) @ '']''"
| "json_dumps rp ascii srt (JObj d) =
     (let parts = map (\<lambda>kv. (fst kv, json_string ascii (fst kv) @ '':'' @ json_dumps rp ascii srt (snd kv))) d
      in ''{'' @ join '','' (map snd (if srt then sort_key fst parts else parts)) @ ''}'')"

text \<open>\<open>str.encode("utf-8")\<close> on code points below 256.\<close>

definition utf8 :: "string \<Rightarrow> string" where
  "utf8 s = concat (map (\<lambda>c. let n = of_char c :: nat
     in if n < 128 then [c] else [char_of (192 + n div 64), char_of (128 + n mod 64)]) s)"

section \<open>Rounding\<close>

text \<open>Python's \<open>round(x, n)\<close>: to the nearest multiple of \<open>10 ^ -n\<close>, ties to the even one.\<close>

definition round_half_even :: "real \<Rightarrow> int" where
  "round_half_even x =
     (let f = \<lfloor>x\<rfloor>; d = x - of_int f
      in if d < 1/2 then f else if d > 1/2 then f + 1 else if even f then f else f + 1)"

definition py_round :: "nat \<Rightarrow> real \<Rightarrow> real" where
  "py_round n x = of_int (round_half_even (x * 10 ^ n)) / 10 ^ n"

lemma round_half_even_int: "round_half_even (of_int n) = n"
  by (simp add: round_half_even_def)

section \<open>Slices\<close>

definition slice :: "'a list \<Rightarrow> nat \<Rightarrow> nat \<Rightarrow> 'a list" where
  "slice xs i j = take (j - i) (drop i xs)"

lemma length_slice [slice_simps]: "length (slice xs i j) = min (j - i) (length xs - i)"
  by (simp add: slice_def min.commute)

lemma slice_empty [simp]: "j \<le> i \<Longrightarrow> slice xs i j = []"
  by (simp add: slice_def)

lemma slice_append [slice_simps]:
  assumes "i \<le> j" and "j \<le> k"
  shows "slice xs i j @ slice xs j k = slice xs i k"
proof -
  have "drop j xs = drop (j - i) (drop i xs)" using assms(1) by (simp add: add.commute)
  then have "slice xs i j @ slice xs j k = take ((j - i) + (k - j)) (drop i xs)"
    by (simp add: slice_def take_add)
  then show ?thesis using assms by (simp add: slice_def)
qed

lemma slice_slice:
  assumes "i + b \<le> j"
  shows "slice (slice xs i j) a b = slice xs (i + a) (i + b)"
  using assms by (simp add: slice_def drop_take add.commute)

lemma slice_all [simp]: "slice xs 0 (length xs) = xs"
  by (simp add: slice_def)

lemma nth_slice: "k < length (slice xs i j) \<Longrightarrow> slice xs i j ! k = xs ! (i + k)"
  by (cases "i \<le> length xs") (simp_all add: slice_def)

section \<open>Tables\<close>

definition update_where :: "('r \<Rightarrow> bool) \<Rightarrow> ('r \<Rightarrow> 'r) \<Rightarrow> 'r list \<Rightarrow> 'r list" where
  "update_where p f rows = map (\<lambda>r. if p r then f r else r) rows"

lemma map_update_where [table_simps]:
  assumes "\<And>r. p r \<Longrightarrow> g (f r) = g r"
  shows "map g (update_where p f rows) = map g rows"
  using assms by (simp add: update_where_def)

lemma set_update_where [table_simps]:
  "set (update_where p f rows) = (\<lambda>r. if p r then f r else r) ` set rows"
  by (simp add: update_where_def)

lemma length_update_where [simp]: "length (update_where p f rows) = length rows"
  by (simp add: update_where_def)

lemma update_where_none: "(\<And>r. r \<in> set rows \<Longrightarrow> \<not> p r) \<Longrightarrow> update_where p f rows = rows"
  by (induction rows) (auto simp: update_where_def)

lemma distinct_key_eq:
  "distinct (map key rows) \<Longrightarrow> r \<in> set rows \<Longrightarrow> s \<in> set rows \<Longrightarrow> key r = key s \<Longrightarrow> r = s"
  by (induction rows) (auto simp: rev_image_eqI)

lemma find_SomeD: "find p xs = Some x \<Longrightarrow> x \<in> set xs \<and> p x"
  by (auto simp: find_Some_iff in_set_conv_nth)

lemma find_distinct_key:
  assumes "distinct (map key rows)" and "r \<in> set rows"
  shows "find (\<lambda>s. key s = key r) rows = Some r"
proof -
  obtain s where s: "find (\<lambda>s. key s = key r) rows = Some s"
    using assms(2) by (cases "find (\<lambda>s. key s = key r) rows") (auto simp: find_None_iff)
  with find_SomeD [OF s] assms have "s = r" by (auto intro: distinct_key_eq)
  with s show ?thesis by simp
qed

text \<open>
  Counting under an update of one row: the row \<open>r\<close> with a unique key is replaced by \<open>f r\<close>.
\<close>

lemma count_update_key:
  assumes "distinct (map key rows)" and "r \<in> set rows"
  shows "length (filter q (update_where (\<lambda>s. key s = key r) f rows)) + (if q r then 1 else 0)
       = length (filter q rows) + (if q (f r) then 1 else 0)"
  using assms
proof (induction rows)
  case Nil
  then show ?case by simp
next
  case (Cons a rows)
  show ?case
  proof (cases "a = r")
    case True
    have "s \<in> set rows \<Longrightarrow> key s \<noteq> key r" for s
      using Cons.prems(1) True by (metis distinct.simps(2) image_eqI list.set_map list.simps(9))
    then have "update_where (\<lambda>s. key s = key r) f rows = rows"
      by (intro update_where_none) auto
    then show ?thesis using True by (simp add: update_where_def)
  next
    case False
    with Cons.prems have "r \<in> set rows" by simp
    with Cons.prems have ne: "key a \<noteq> key r" by force
    with Cons.prems \<open>r \<in> set rows\<close> Cons.IH show ?thesis
      by (auto simp: update_where_def)
  qed
qed

section \<open>Runs\<close>

text \<open>A run of labelled steps.\<close>

inductive labelled_run :: "('e \<Rightarrow> 's \<Rightarrow> 's \<Rightarrow> bool) \<Rightarrow> 'e list \<Rightarrow> 's \<Rightarrow> 's \<Rightarrow> bool" for R where
  run_nil: "labelled_run R [] s s"
| run_cons: "R ev s m \<Longrightarrow> labelled_run R evs m t \<Longrightarrow> labelled_run R (ev # evs) s t"

end
