(* ===== verification/Domain.thy ===== *)
theory Domain
  imports Prelude
begin

text \<open>
  The domain layer, \<^verbatim>\<open>src/src/challengeforge/domain/\<close>: the enumerations (one constructor per member,
  with the string values of the \<open>StrEnum\<close>s), the exceptions with their HTTP status, the frozen
  dataclasses as records, and the three transition tables \<open>ALLOWED_TRANSITIONS\<close> with the
  functions that check them. The locale \<open>transition_table\<close> is the contract the three tables
  share; each is interpreted on its own table.
\<close>

section \<open>Enumerations\<close>

datatype user_role = ORGANIZER | PARTICIPANT

datatype hackathon_status = HDraft | HPublished | HClosed

datatype challenge_status = CDraft | CPublished | CClosed

datatype submission_status = SCreated | SSubmitted | SCancelled | SFailed

datatype evaluation_status = EQueued | ERunning | ESucceeded | EFailed

datatype ingestion_status = IQueued | IRunning | ISucceeded | IFailed

datatype workload_class = Light | Medium | Heavy

fun submission_status_value :: "submission_status \<Rightarrow> string" where
  "submission_status_value SCreated = ''created''"
| "submission_status_value SSubmitted = ''submitted''"
| "submission_status_value SCancelled = ''cancelled''"
| "submission_status_value SFailed = ''failed''"

fun evaluation_status_value :: "evaluation_status \<Rightarrow> string" where
  "evaluation_status_value EQueued = ''queued''"
| "evaluation_status_value ERunning = ''running''"
| "evaluation_status_value ESucceeded = ''succeeded''"
| "evaluation_status_value EFailed = ''failed''"

fun ingestion_status_value :: "ingestion_status \<Rightarrow> string" where
  "ingestion_status_value IQueued = ''queued''"
| "ingestion_status_value IRunning = ''running''"
| "ingestion_status_value ISucceeded = ''succeeded''"
| "ingestion_status_value IFailed = ''failed''"

fun workload_class_value :: "workload_class \<Rightarrow> string" where
  "workload_class_value Light = ''light''"
| "workload_class_value Medium = ''medium''"
| "workload_class_value Heavy = ''heavy''"

text \<open>Calling the enumeration on a string, \<open>WorkloadClass(text)\<close>: \<open>None\<close> is the \<open>ValueError\<close>.\<close>

definition workload_class_of :: "string \<Rightarrow> workload_class option" where
  "workload_class_of s =
     (if s = ''light'' then Some Light
      else if s = ''medium'' then Some Medium
      else if s = ''heavy'' then Some Heavy
      else None)"

lemma workload_class_of_value [simp]: "workload_class_of (workload_class_value c) = Some c"
  by (cases c) (simp_all add: workload_class_of_def)

lemma workload_class_ofD: "workload_class_of s = Some c \<Longrightarrow> s = workload_class_value c"
  by (auto simp: workload_class_of_def split: if_splits)

section \<open>Exceptions\<close>

text \<open>
  The exceptions of \<^verbatim>\<open>domain/exceptions.py\<close> with their message, and the Python exceptions the services let
  through. \<open>http_status\<close> is the class attribute, and 500 for anything else (the handler of
  \<^verbatim>\<open>api/errors.py\<close>).
\<close>

datatype exn =
    DomainError string
  | NotFoundError string
  | PermissionDenied string
  | ValidationFailed string
  | InvalidStateTransition string
  | ConflictError string
  | Unauthenticated string
  | ValueError string
  | FileNotFoundError
  | OSError
  | IntegrityError
  | EvaluationFailed string
  | AssertionError
  | CommitFailed
  | OverflowError

fun http_status :: "exn \<Rightarrow> nat" where
  "http_status (DomainError m) = 400"
| "http_status (NotFoundError m) = 404"
| "http_status (PermissionDenied m) = 403"
| "http_status (ValidationFailed m) = 422"
| "http_status (InvalidStateTransition m) = 409"
| "http_status (ConflictError m) = 409"
| "http_status (Unauthenticated m) = 401"
| "http_status _ = 500"

section \<open>Domain records\<close>

record user =
  u_id :: uuid
  u_name :: string
  u_role :: user_role
  u_created_at :: datetime

record hackathon =
  h_id :: uuid
  h_title :: string
  h_description :: string
  h_status :: hackathon_status
  h_organizer_id :: uuid
  h_created_at :: datetime
  h_updated_at :: datetime

record criterion =
  cr_id :: uuid
  cr_name :: string
  cr_description :: string
  cr_weight :: int

record challenge =
  c_id :: uuid
  c_hackathon_id :: uuid
  c_title :: string
  c_description :: string
  c_constraints :: string
  c_status :: challenge_status
  c_spec_body :: string
  c_criteria :: "criterion list"
  c_created_at :: datetime
  c_updated_at :: datetime

record submission =
  s_id :: uuid
  s_challenge_id :: uuid
  s_participant_id :: uuid
  s_status :: submission_status
  s_metadata :: dict
  s_artifact_key :: "string option"
  s_idempotency_key :: "string option"
  s_request_fingerprint :: "string option"
  s_created_at :: datetime
  s_updated_at :: datetime
  s_failure_reason :: "string option"

record evaluation =
  e_id :: uuid
  e_submission_id :: uuid
  e_status :: evaluation_status
  e_created_at :: datetime
  e_started_at :: "datetime option"
  e_completed_at :: "datetime option"
  e_attempt_count :: int
  e_failure_reason :: "string option"
  e_score :: "int option"
  e_result_metadata :: dict
  e_worker_id :: "worker_id option"
  e_workload_class :: workload_class
  e_current_stage :: int
  e_mode :: string
  e_deadline_at :: "datetime option"

record ingestion_job =
  j_id :: uuid
  j_submission_id :: uuid
  j_artifact_key :: string
  j_status :: ingestion_status
  j_attempt_count :: int
  j_available_at :: datetime
  j_created_at :: datetime
  j_updated_at :: datetime
  j_worker_id :: "worker_id option"
  j_started_at :: "datetime option"
  j_completed_at :: "datetime option"
  j_error_code :: "string option"
  j_error_message :: "string option"
  j_result_key :: "string option"

text \<open>\<open>Challenge.is_publishable\<close>.\<close>

definition is_publishable :: "challenge \<Rightarrow> bool" where
  "is_publishable c \<longleftrightarrow> strip (c_spec_body c) \<noteq> [] \<and> length (c_criteria c) > 0"

section \<open>The transition tables\<close>

fun allowed_submission :: "submission_status \<Rightarrow> submission_status list" where
  "allowed_submission SCreated = [SSubmitted, SCancelled, SFailed]"
| "allowed_submission SSubmitted = []"
| "allowed_submission SCancelled = []"
| "allowed_submission SFailed = []"

fun allowed_evaluation :: "evaluation_status \<Rightarrow> evaluation_status list" where
  "allowed_evaluation EQueued = [ERunning]"
| "allowed_evaluation ERunning = [ESucceeded, EFailed, EQueued]"
| "allowed_evaluation ESucceeded = []"
| "allowed_evaluation EFailed = []"

fun allowed_ingestion :: "ingestion_status \<Rightarrow> ingestion_status list" where
  "allowed_ingestion IQueued = [IRunning]"
| "allowed_ingestion IRunning = [ISucceeded, IFailed, IQueued]"
| "allowed_ingestion ISucceeded = []"
| "allowed_ingestion IFailed = []"

definition transition_submission :: "submission_status \<Rightarrow> submission_status \<Rightarrow> exn + submission_status" where
  "transition_submission current target =
     (if target \<notin> set (allowed_submission current)
      then Inl (InvalidStateTransition
        (''Cannot transition submission from '' @ submission_status_value current @ '' to '' @
         submission_status_value target @ ''.''))
      else Inr target)"

definition transition_evaluation :: "evaluation_status \<Rightarrow> evaluation_status \<Rightarrow> exn + evaluation_status" where
  "transition_evaluation current target =
     (if target \<notin> set (allowed_evaluation current)
      then Inl (InvalidStateTransition
        (''Cannot transition evaluation from '' @ evaluation_status_value current @ '' to '' @
         evaluation_status_value target @ ''.''))
      else Inr target)"

text \<open>The message of \<open>assert_transition\<close> has an arrow character; it is written \<open>->\<close> here.\<close>

definition assert_transition :: "ingestion_status \<Rightarrow> ingestion_status \<Rightarrow> exn + ingestion_status" where
  "assert_transition current target =
     (if target \<notin> set (allowed_ingestion current)
      then Inl (ValueError
        (''Illegal ingestion transition '' @ ingestion_status_value current @ '' -> '' @
         ingestion_status_value target))
      else Inr target)"

text \<open>
  The contract of a transition table: the check accepts exactly the listed targets and
  returns the target unchanged. Its consequences are proved once.
\<close>

locale transition_table =
  fixes allowed :: "'s \<Rightarrow> 's list"
    and transition :: "'s \<Rightarrow> 's \<Rightarrow> exn + 's"
  assumes accepts: "t \<in> set (allowed s) \<Longrightarrow> transition s t = Inr t"
    and rejects: "t \<notin> set (allowed s) \<Longrightarrow> \<exists>e. transition s t = Inl e"
begin

definition step :: "'s \<Rightarrow> 's \<Rightarrow> bool" where
  "step s t \<longleftrightarrow> transition s t = Inr t"

definition terminal :: "'s \<Rightarrow> bool" where
  "terminal s \<longleftrightarrow> allowed s = []"

lemma step_iff: "step s t \<longleftrightarrow> t \<in> set (allowed s)"
  using accepts rejects by (metis step_def sum.distinct(1))

lemma transition_Inr_iff: "transition s t = Inr u \<longleftrightarrow> u = t \<and> t \<in> set (allowed s)"
  using accepts rejects by (metis Inr_inject sum.distinct(1))

lemma terminal_stuck: "terminal s \<Longrightarrow> step\<^sup>*\<^sup>* s t \<Longrightarrow> t = s"
  by (erule converse_rtranclpE) (auto simp: step_iff terminal_def)

end

interpretation submission_table: transition_table allowed_submission transition_submission
  by unfold_locales (auto simp: transition_submission_def)

interpretation evaluation_table: transition_table allowed_evaluation transition_evaluation
  by unfold_locales (auto simp: transition_evaluation_def)

interpretation ingestion_table: transition_table allowed_ingestion assert_transition
  by unfold_locales (auto simp: assert_transition_def)

text \<open>The three tables as closed conditions, for the proofs about the repositories.\<close>

lemma submission_step_iff: "submission_table.step s t \<longleftrightarrow> s = SCreated \<and> t \<noteq> SCreated"
  by (cases s; cases t) (simp_all add: submission_table.step_iff)

lemma evaluation_step_iff:
  "evaluation_table.step a b \<longleftrightarrow> (a = EQueued \<and> b = ERunning) \<or> (a = ERunning \<and> b \<noteq> ERunning)"
  by (cases a; cases b) (simp_all add: evaluation_table.step_iff)

lemma ingestion_step_iff:
  "ingestion_table.step a b \<longleftrightarrow> (a = IQueued \<and> b = IRunning) \<or> (a = IRunning \<and> b \<noteq> IRunning)"
  by (cases a; cases b) (simp_all add: ingestion_table.step_iff)

end
