(* ===== verification/Job_Table.thy ===== *)
theory Job_Table
  imports Domain
begin

text \<open>
  What the evaluation queue and the ingestion queue share. \<open>update_returning\<close> is
  \<open>UPDATE .. WHERE .. RETURNING\<close> read with \<open>scalar_one_or_none\<close>. The locale \<open>job_table\<close> is
  the contract of a table of jobs: every row has an id and a status, and a table evolves when each
  row either stays as it is or is not in a terminal status and moves by a step of the transition
  table (or keeps its status), ids and their order never change, and new rows are appended.
\<close>

definition update_returning :: "('r \<Rightarrow> bool) \<Rightarrow> ('r \<Rightarrow> 'r) \<Rightarrow> 'r list \<Rightarrow> 'r option \<times> 'r list" where
  "update_returning p f rows =
     (case find p rows of None \<Rightarrow> (None, rows) | Some r \<Rightarrow> (Some (f r), update_where p f rows))"

lemma update_returning_None: "fst (update_returning p f rows) = None \<Longrightarrow> snd (update_returning p f rows) = rows"
  by (simp add: update_returning_def split: option.splits)

lemma update_returning_rows: "snd (update_returning p f rows) = update_where p f rows"
  by (auto simp: update_returning_def find_None_iff update_where_none split: option.splits)

lemma update_returning_Some:
  assumes "fst (update_returning p f rows) = Some r"
  obtains r0 where "r0 \<in> set rows" and "p r0" and "r = f r0"
  using assms find_SomeD by (fastforce simp: update_returning_def split: option.splits)

lemma update_returning_None_iff:
  "fst (update_returning p f rows) = None \<longleftrightarrow> (\<forall>r\<in>set rows. \<not> p r)"
  by (auto simp: update_returning_def find_None_iff dest: find_SomeD split: option.splits)

locale job_table =
  fixes jid :: "'r \<Rightarrow> uuid"
    and jstatus :: "'r \<Rightarrow> 's"
    and step :: "'s \<Rightarrow> 's \<Rightarrow> bool"
    and terminal :: "'s \<Rightarrow> bool"
  assumes terminal_no_step: "terminal s \<Longrightarrow> \<not> step s t"
begin

definition row_evolves :: "'r \<Rightarrow> 'r \<Rightarrow> bool" where
  "row_evolves r r' \<longleftrightarrow> jid r' = jid r \<and>
     (r' = r \<or> (\<not> terminal (jstatus r) \<and> (jstatus r' = jstatus r \<or> step (jstatus r) (jstatus r'))))"

definition evolves :: "'r list \<Rightarrow> 'r list \<Rightarrow> bool" where
  "evolves rows rows' \<longleftrightarrow> length rows \<le> length rows' \<and>
     list_all2 row_evolves rows (take (length rows) rows')"

lemma row_evolves_refl [simp]: "row_evolves r r"
  by (simp add: row_evolves_def)

lemma evolves_map:
  assumes "\<And>r. r \<in> set rows \<Longrightarrow> row_evolves r (f r)"
  shows "evolves rows (map f rows)"
  using assms by (auto simp: evolves_def list_all2_map2 list_all2_same)

lemma evolves_update_where:
  assumes "\<And>r. r \<in> set rows \<Longrightarrow> p r \<Longrightarrow> row_evolves r (f r)"
  shows "evolves rows (update_where p f rows)"
  unfolding update_where_def by (rule evolves_map) (use assms in auto)

lemma evolves_update_returning:
  assumes "\<And>r. r \<in> set rows \<Longrightarrow> p r \<Longrightarrow> row_evolves r (f r)"
  shows "evolves rows (snd (update_returning p f rows))"
  using evolves_update_where [OF assms] by (simp add: update_returning_rows)

lemma evolves_refl [simp]: "evolves rows rows"
  using evolves_map [of rows id] by simp

lemma evolves_append: "evolves rows (rows @ new)"
  by (auto simp: evolves_def list_all2_same)

lemma evolves_rowD:
  assumes "evolves rows rows'" and "r \<in> set rows"
  shows "\<exists>r'\<in>set rows'. row_evolves r r'"
proof -
  obtain i where i: "i < length rows" "rows ! i = r" using assms(2) by (auto simp: in_set_conv_nth)
  have "list_all2 row_evolves rows (take (length rows) rows')"
    and len: "length rows \<le> length rows'"
    using assms(1) by (auto simp: evolves_def)
  then have "row_evolves r (rows' ! i)" using i list_all2_nthD by fastforce
  with i len show ?thesis by (auto intro!: bexI [of _ "rows' ! i"])
qed

lemma evolves_ids:
  assumes "evolves rows rows'"
  shows "map jid rows = take (length rows) (map jid rows')"
proof -
  have "list_all2 row_evolves rows (take (length rows) rows')" using assms by (simp add: evolves_def)
  then have "map jid rows = map jid (take (length rows) rows')"
    by (intro nth_equalityI) (auto simp: list_all2_conv_all_nth row_evolves_def)
  then show ?thesis by (simp add: take_map)
qed

lemma row_evolves_path:
  assumes "row_evolves r r'"
  shows "step\<^sup>*\<^sup>* (jstatus r) (jstatus r')"
  using assms by (auto simp: row_evolves_def)

text \<open>A history of the table: what every row of the first version has become in the last.\<close>

lemma history_row:
  assumes "evolves\<^sup>*\<^sup>* rows rows'" and "r \<in> set rows"
  shows "\<exists>r'\<in>set rows'. jid r' = jid r \<and> step\<^sup>*\<^sup>* (jstatus r) (jstatus r') \<and>
    (terminal (jstatus r) \<longrightarrow> r' = r)"
  using assms
proof (induction rule: rtranclp_induct)
  case base
  then show ?case by blast
next
  case (step mid rows')
  then obtain m where m: "m \<in> set mid" "jid m = jid r" "step\<^sup>*\<^sup>* (jstatus r) (jstatus m)"
      "terminal (jstatus r) \<longrightarrow> m = r" by blast
  obtain r' where r': "r' \<in> set rows'" "row_evolves m r'"
    using evolves_rowD [OF step.hyps(2) m(1)] by blast
  have "step\<^sup>*\<^sup>* (jstatus r) (jstatus r')"
    using m(3) row_evolves_path [OF r'(2)] by (rule rtranclp_trans)
  moreover have "terminal (jstatus r) \<longrightarrow> r' = r"
    using m(4) r'(2) by (auto simp: row_evolves_def)
  ultimately show ?case using r' m(2) by (auto simp: row_evolves_def)
qed

end

interpretation eval_jobs: job_table e_id e_status evaluation_table.step "\<lambda>s. s = ESucceeded \<or> s = EFailed"
  by unfold_locales (auto simp: evaluation_step_iff)

interpretation ingest_jobs: job_table j_id j_status ingestion_table.step "\<lambda>s. s = ISucceeded \<or> s = IFailed"
  by unfold_locales (auto simp: ingestion_step_iff)

end
