(* ===== verification/Catalog.thy ===== *)
theory Catalog
  imports Job_Table
begin

text \<open>
  Identity, hackathons and challenges (\<^verbatim>\<open>identity/__init__.py\<close>, \<^verbatim>\<open>application/__init__.py\<close>,
  \<^verbatim>\<open>application/hackathons.py\<close>, \<^verbatim>\<open>application/challenges.py\<close> and their repositories). A service call
  takes the actor, and returns an error or a result and the catalog after its transaction. The
  contract of the hackathon and challenge tables is an interpretation of \<open>job_table\<close>. The
  ids of criteria are drawn like all uuids and taken to be fresh.
\<close>

section \<open>Identity\<close>

record current_user =
  cu_id :: uuid
  cu_name :: string
  cu_role :: user_role

definition from_user :: "user \<Rightarrow> current_user" where
  "from_user u = \<lparr>cu_id = u_id u, cu_name = u_name u, cu_role = u_role u\<rparr>"

definition is_organizer :: "current_user \<Rightarrow> bool" where
  "is_organizer a \<longleftrightarrow> cu_role a = ORGANIZER"

definition is_participant :: "current_user \<Rightarrow> bool" where
  "is_participant a \<longleftrightarrow> cu_role a = PARTICIPANT"

definition require_organizer :: "current_user \<Rightarrow> exn + unit" where
  "require_organizer a =
     (if is_organizer a then Inr () else Inl (PermissionDenied ''Only organizers may perform this action.''))"

definition require_participant :: "current_user \<Rightarrow> exn + unit" where
  "require_participant a =
     (if is_participant a then Inr () else Inl (PermissionDenied ''Only participants may perform this action.''))"

definition require_non_empty :: "string \<Rightarrow> string \<Rightarrow> exn + string" where
  "require_non_empty val field =
     (let cleaned = strip val
      in if cleaned = [] then Inl (ValidationFailed (field @ '' must not be empty.'')) else Inr cleaned)"

text \<open>Sequencing of checks that may fail.\<close>

definition try_in :: "'e + 'a \<Rightarrow> ('a \<Rightarrow> 'e + 'b) \<Rightarrow> 'e + 'b" where
  "try_in r f = (case r of Inl e \<Rightarrow> Inl e | Inr x \<Rightarrow> f x)"

lemma try_in_simps [simp]: "try_in (Inl e) f = Inl e" "try_in (Inr x) f = f x"
  by (simp_all add: try_in_def)

lemma try_in_Inr: "try_in r f = Inr y \<longleftrightarrow> (\<exists>x. r = Inr x \<and> f x = Inr y)"
  by (cases r) simp_all

text \<open>A service call: what it answers, and the table or state it commits; nothing is committed on an error.\<close>

definition commit_or_keep :: "exn + 'r \<times> 's \<Rightarrow> 's \<Rightarrow> (exn + 'r) \<times> 's" where
  "commit_or_keep r s = (case r of Inl e \<Rightarrow> (Inl e, s) | Inr (x, s') \<Rightarrow> (Inr x, s'))"

lemma commit_or_keep_simps [simp]:
  "commit_or_keep (Inl e) s = (Inl e, s)" "commit_or_keep (Inr (x, s')) s = (Inr x, s')"
  by (simp_all add: commit_or_keep_def)

lemma commit_or_keep_Inr: "commit_or_keep r s = (Inr x, s') \<longleftrightarrow> r = Inr (x, s')"
  by (auto simp: commit_or_keep_def split: sum.splits)

lemma commit_or_keep_Inl: "commit_or_keep r s = (Inl e, s') \<Longrightarrow> s' = s"
  by (auto simp: commit_or_keep_def split: sum.splits)

section \<open>Tables\<close>

record catalog =
  ct_users :: "user list"
  ct_hackathons :: "hackathon list"
  ct_challenges :: "challenge list"

definition user_get :: "uuid \<Rightarrow> catalog \<Rightarrow> user option" where
  "user_get i c = find (\<lambda>u. u_id u = i) (ct_users c)"

definition hackathon_get :: "uuid \<Rightarrow> catalog \<Rightarrow> hackathon option" where
  "hackathon_get i c = find (\<lambda>h. h_id h = i) (ct_hackathons c)"

definition list_visible :: "bool \<Rightarrow> catalog \<Rightarrow> hackathon list" where
  "list_visible include_unpublished c =
     sort_key (\<lambda>h. - h_created_at h) (filter (\<lambda>h. include_unpublished \<or> h_status h = HPublished) (ct_hackathons c))"

text \<open>An insert fails on a duplicate id and on a missing organizer (the foreign key).\<close>

definition hackathon_add ::
  "datetime \<Rightarrow> uuid \<Rightarrow> string \<Rightarrow> string \<Rightarrow> uuid \<Rightarrow> catalog \<Rightarrow> exn + hackathon \<times> catalog" where
  "hackathon_add now fresh title description organizer_id c =
     (let row = \<lparr>h_id = fresh, h_title = title, h_description = description, h_status = HDraft,
            h_organizer_id = organizer_id, h_created_at = now, h_updated_at = now\<rparr>
      in if (\<exists>h\<in>set (ct_hackathons c). h_id h = fresh) \<or> user_get organizer_id c = None then Inl IntegrityError
         else Inr (row, c\<lparr>ct_hackathons := ct_hackathons c @ [row]\<rparr>))"

definition hackathon_save_status ::
  "datetime \<Rightarrow> uuid \<Rightarrow> hackathon_status \<Rightarrow> catalog \<Rightarrow> exn + hackathon \<times> catalog" where
  "hackathon_save_status now i status c =
     (case hackathon_get i c of
        None \<Rightarrow> Inl AssertionError
      | Some h \<Rightarrow>
          let f = (\<lambda>h. h\<lparr>h_status := status, h_updated_at := now\<rparr>)
          in Inr (f h, c\<lparr>ct_hackathons := update_where (\<lambda>r. h_id r = i) f (ct_hackathons c)\<rparr>))"

text \<open>\<open>challenge_to_domain\<close>: the criteria sorted by name.\<close>

definition challenge_to_domain :: "challenge \<Rightarrow> challenge" where
  "challenge_to_domain c = c\<lparr>c_criteria := sort_key cr_name (c_criteria c)\<rparr>"

definition challenge_row :: "uuid \<Rightarrow> catalog \<Rightarrow> challenge option" where
  "challenge_row i c = find (\<lambda>r. c_id r = i) (ct_challenges c)"

definition challenge_get :: "uuid \<Rightarrow> catalog \<Rightarrow> challenge option" where
  "challenge_get i c = map_option challenge_to_domain (challenge_row i c)"

definition challenges_of :: "uuid \<Rightarrow> bool \<Rightarrow> catalog \<Rightarrow> challenge list" where
  "challenges_of hackathon_id include_unpublished c =
     map challenge_to_domain (sort_key (\<lambda>r. - c_created_at r)
       (filter (\<lambda>r. c_hackathon_id r = hackathon_id \<and> (include_unpublished \<or> c_status r = CPublished))
         (ct_challenges c)))"

definition challenge_add ::
  "datetime \<Rightarrow> uuid \<Rightarrow> (nat \<Rightarrow> uuid) \<Rightarrow> uuid \<Rightarrow> string \<Rightarrow> string \<Rightarrow> string \<Rightarrow> string
     \<Rightarrow> (string \<times> string \<times> int) list \<Rightarrow> catalog \<Rightarrow> exn + challenge \<times> catalog" where
  "challenge_add now fresh fresh_criterion hackathon_id title description constraints body criteria c =
     (let row = \<lparr>c_id = fresh, c_hackathon_id = hackathon_id, c_title = title, c_description = description,
            c_constraints = constraints, c_status = CDraft, c_spec_body = body,
            c_criteria = map (\<lambda>(k, nm, d, w). \<lparr>cr_id = fresh_criterion k, cr_name = nm,
              cr_description = d, cr_weight = w\<rparr>) (List.enumerate 0 criteria),
            c_created_at = now, c_updated_at = now\<rparr>
      in if (\<exists>r\<in>set (ct_challenges c). c_id r = fresh) \<or> hackathon_get hackathon_id c = None \<or>
            (\<exists>x\<in>set criteria. snd (snd x) < 1)
         then Inl IntegrityError
         else Inr (challenge_to_domain row, c\<lparr>ct_challenges := ct_challenges c @ [row]\<rparr>))"

definition challenge_save_status ::
  "datetime \<Rightarrow> uuid \<Rightarrow> challenge_status \<Rightarrow> catalog \<Rightarrow> exn + challenge \<times> catalog" where
  "challenge_save_status now i status c =
     (case challenge_row i c of
        None \<Rightarrow> Inl AssertionError
      | Some r \<Rightarrow>
          let f = (\<lambda>r. r\<lparr>c_status := status, c_updated_at := now\<rparr>)
          in Inr (challenge_to_domain (f r),
               c\<lparr>ct_challenges := update_where (\<lambda>r. c_id r = i) f (ct_challenges c)\<rparr>))"

section \<open>Hackathon service\<close>

definition list_hackathons :: "current_user \<Rightarrow> catalog \<Rightarrow> hackathon list" where
  "list_hackathons actor c = list_visible (is_organizer actor) c"

definition get_hackathon :: "current_user \<Rightarrow> uuid \<Rightarrow> catalog \<Rightarrow> exn + hackathon" where
  "get_hackathon actor i c =
     (case hackathon_get i c of
        None \<Rightarrow> Inl (NotFoundError ''Hackathon not found.'')
      | Some h \<Rightarrow>
          if h_status h \<noteq> HPublished \<and> \<not> is_organizer actor then Inl (NotFoundError ''Hackathon not found.'')
          else Inr h)"

definition create_hackathon ::
  "datetime \<Rightarrow> uuid \<Rightarrow> current_user \<Rightarrow> string \<Rightarrow> string \<Rightarrow> catalog \<Rightarrow> (exn + hackathon) \<times> catalog" where
  "create_hackathon now fresh actor title description c = commit_or_keep
     (try_in (require_organizer actor) (\<lambda>_.
      try_in (require_non_empty title ''title'') (\<lambda>title.
      try_in (require_non_empty description ''description'') (\<lambda>description.
        hackathon_add now fresh title description (cu_id actor) c)))) c"

definition publish_hackathon ::
  "datetime \<Rightarrow> current_user \<Rightarrow> uuid \<Rightarrow> catalog \<Rightarrow> (exn + hackathon) \<times> catalog" where
  "publish_hackathon now actor i c = commit_or_keep
     (try_in (require_organizer actor) (\<lambda>_.
      case hackathon_get i c of
        None \<Rightarrow> Inl (NotFoundError ''Hackathon not found.'')
      | Some h \<Rightarrow>
          if h_organizer_id h \<noteq> cu_id actor
          then Inl (PermissionDenied ''Only the creating organizer may publish this hackathon.'')
          else if h_status h = HPublished then Inr (h, c)
          else if h_status h \<noteq> HDraft then Inl (ValidationFailed ''Only draft hackathons can be published.'')
          else hackathon_save_status now i HPublished c)) c"

section \<open>Challenge service\<close>

definition list_for_hackathon :: "current_user \<Rightarrow> uuid \<Rightarrow> catalog \<Rightarrow> exn + challenge list" where
  "list_for_hackathon actor i c =
     (case hackathon_get i c of
        None \<Rightarrow> Inl (NotFoundError ''Hackathon not found.'')
      | Some h \<Rightarrow>
          if h_status h \<noteq> HPublished \<and> \<not> is_organizer actor then Inl (NotFoundError ''Hackathon not found.'')
          else Inr (challenges_of i (is_organizer actor) c))"

definition visible_to_participant :: "challenge \<Rightarrow> catalog \<Rightarrow> bool" where
  "visible_to_participant r c \<longleftrightarrow>
     (case hackathon_get (c_hackathon_id r) c of
        None \<Rightarrow> False
      | Some h \<Rightarrow> h_status h = HPublished \<and> c_status r = CPublished)"

definition get_challenge :: "current_user \<Rightarrow> uuid \<Rightarrow> catalog \<Rightarrow> exn + challenge" where
  "get_challenge actor i c =
     (case challenge_get i c of
        None \<Rightarrow> Inl (NotFoundError ''Challenge not found.'')
      | Some r \<Rightarrow>
          if \<not> visible_to_participant r c \<and> \<not> is_organizer actor
          then Inl (NotFoundError ''Challenge not found.'') else Inr r)"

fun parse_criteria :: "(string \<times> string \<times> int) list \<Rightarrow> exn + (string \<times> string \<times> int) list" where
  "parse_criteria [] = Inr []"
| "parse_criteria ((nm, d, w) # rest) =
     (if w < 1 then Inl (ValidationFailed ''Evaluation criterion weight must be >= 1.'')
      else try_in (require_non_empty nm ''criterion name'') (\<lambda>nm.
           try_in (require_non_empty d ''criterion description'') (\<lambda>d.
           try_in (parse_criteria rest) (\<lambda>rest. Inr ((nm, d, w) # rest)))))"

definition create_challenge ::
  "datetime \<Rightarrow> uuid \<Rightarrow> (nat \<Rightarrow> uuid) \<Rightarrow> current_user \<Rightarrow> uuid \<Rightarrow> string \<Rightarrow> string \<Rightarrow> string \<Rightarrow> string
     \<Rightarrow> (string \<times> string \<times> int) list \<Rightarrow> catalog \<Rightarrow> (exn + challenge) \<times> catalog" where
  "create_challenge now fresh fresh_criterion actor hackathon_id title description constraints body criteria c =
     commit_or_keep
     (try_in (require_organizer actor) (\<lambda>_.
      case hackathon_get hackathon_id c of
        None \<Rightarrow> Inl (NotFoundError ''Hackathon not found.'')
      | Some h \<Rightarrow>
          if h_organizer_id h \<noteq> cu_id actor
          then Inl (PermissionDenied ''Only the creating organizer may add challenges.'')
          else try_in (require_non_empty title ''title'') (\<lambda>title.
               try_in (require_non_empty description ''description'') (\<lambda>description.
               try_in (require_non_empty body ''specification'') (\<lambda>body.
               try_in (parse_criteria criteria) (\<lambda>parsed.
                 challenge_add now fresh fresh_criterion hackathon_id title description constraints body parsed c)))))) c"

text \<open>The owner check of publish, close and list: the challenge, if it exists and its hackathon is the actor's.\<close>

definition owned_challenge :: "string \<Rightarrow> current_user \<Rightarrow> uuid \<Rightarrow> catalog \<Rightarrow> exn + challenge" where
  "owned_challenge msg actor i c =
     try_in (require_organizer actor) (\<lambda>_.
       case challenge_get i c of
         None \<Rightarrow> Inl (NotFoundError ''Challenge not found.'')
       | Some r \<Rightarrow>
           (case hackathon_get (c_hackathon_id r) c of
              None \<Rightarrow> Inl (PermissionDenied msg)
            | Some h \<Rightarrow> if h_organizer_id h \<noteq> cu_id actor then Inl (PermissionDenied msg) else Inr r))"

definition publish_challenge ::
  "datetime \<Rightarrow> current_user \<Rightarrow> uuid \<Rightarrow> catalog \<Rightarrow> (exn + challenge) \<times> catalog" where
  "publish_challenge now actor i c = commit_or_keep
     (try_in (owned_challenge ''Only the creating organizer may publish this challenge.'' actor i c) (\<lambda>r.
        if c_status r = CPublished then Inr (r, c)
        else if c_status r \<noteq> CDraft then Inl (ValidationFailed ''Only draft challenges can be published.'')
        else if \<not> is_publishable r
          then Inl (ValidationFailed ''A challenge needs a specification and at least one evaluation criterion before publish.'')
        else challenge_save_status now i CPublished c)) c"

definition close_challenge ::
  "datetime \<Rightarrow> current_user \<Rightarrow> uuid \<Rightarrow> catalog \<Rightarrow> (exn + challenge) \<times> catalog" where
  "close_challenge now actor i c = commit_or_keep
     (try_in (owned_challenge ''Only the creating organizer may close this challenge.'' actor i c) (\<lambda>r.
        if c_status r = CClosed then Inr (r, c)
        else if c_status r \<noteq> CPublished then Inl (ValidationFailed ''Only published challenges can be closed.'')
        else challenge_save_status now i CClosed c)) c"

section \<open>What service calls do to the catalog\<close>

text \<open>Any service call of the actor, with any arguments.\<close>

inductive catalog_call :: "current_user \<Rightarrow> catalog \<Rightarrow> catalog \<Rightarrow> bool" for actor where
  call_create_hackathon: "create_hackathon now fresh actor t d c = (r, c') \<Longrightarrow> catalog_call actor c c'"
| call_publish_hackathon: "publish_hackathon now actor i c = (r, c') \<Longrightarrow> catalog_call actor c c'"
| call_create_challenge: "create_challenge now fresh fc actor i t d k b cr c = (r, c') \<Longrightarrow> catalog_call actor c c'"
| call_publish_challenge: "publish_challenge now actor i c = (r, c') \<Longrightarrow> catalog_call actor c c'"
| call_close_challenge: "close_challenge now actor i c = (r, c') \<Longrightarrow> catalog_call actor c c'"

definition challenge_step :: "challenge_status \<Rightarrow> challenge_status \<Rightarrow> bool" where
  "challenge_step s t \<longleftrightarrow> (s = CDraft \<and> t = CPublished) \<or> (s = CPublished \<and> t = CClosed)"

definition hackathon_step :: "hackathon_status \<Rightarrow> hackathon_status \<Rightarrow> bool" where
  "hackathon_step s t \<longleftrightarrow> s = HDraft \<and> t = HPublished"

interpretation challenge_table: job_table c_id c_status challenge_step "\<lambda>s. s = CClosed"
  by unfold_locales (simp add: challenge_step_def)

interpretation hackathon_table: job_table h_id h_status hackathon_step "\<lambda>s. s \<noteq> HDraft"
  by unfold_locales (simp add: hackathon_step_def)

text \<open>
  The invariant of the catalog: ids are unique, every challenge belongs to a hackathon and has a
  title, a specification and criteria of positive weight, and a challenge that is or was
  published has what publication asks for.
\<close>

definition challenge_ok :: "challenge \<Rightarrow> bool" where
  "challenge_ok r \<longleftrightarrow> strip (c_title r) \<noteq> [] \<and> strip (c_spec_body r) \<noteq> [] \<and>
     list_all (\<lambda>k. 1 \<le> cr_weight k \<and> strip (cr_name k) \<noteq> []) (c_criteria r) \<and>
     (c_status r \<noteq> CDraft \<longrightarrow> is_publishable r)"

definition catalog_ok :: "catalog \<Rightarrow> bool" where
  "catalog_ok c \<longleftrightarrow> distinct (map h_id (ct_hackathons c)) \<and> distinct (map c_id (ct_challenges c)) \<and>
     list_all (\<lambda>r. c_hackathon_id r \<in> h_id ` set (ct_hackathons c) \<and> challenge_ok r) (ct_challenges c)"

text \<open>The actor is the organizer who created the hackathon.\<close>

definition organizes :: "current_user \<Rightarrow> uuid \<Rightarrow> catalog \<Rightarrow> bool" where
  "organizes a i c \<longleftrightarrow> is_organizer a \<and> (\<exists>h\<in>set (ct_hackathons c). h_id h = i \<and> h_organizer_id h = cu_id a)"

lemma strip_by_idem: "strip_by p (strip_by p xs) = strip_by p xs"
proof -
  let ?y = "rstrip_by p (dropWhile p xs)"
  obtain zs where zs: "dropWhile p xs = ?y @ zs"
    unfolding rstrip_by_def by (metis rev_append rev_rev_ident takeWhile_dropWhile_id)
  have "dropWhile p ?y = ?y"
  proof (cases "?y")
    case Nil
    show ?thesis unfolding Nil by simp
  next
    case (Cons a ys)
    then have "hd (dropWhile p xs) = a" "dropWhile p xs \<noteq> []" using zs by auto
    then have "\<not> p a" using hd_dropWhile by blast
    then show ?thesis using Cons by simp
  qed
  moreover have "rstrip_by p ?y = ?y" using rstrip_by_id rstrip_by_last by blast
  ultimately show ?thesis by (simp add: strip_by_def)
qed

lemma strip_strip [simp]: "strip (strip s) = strip s"
  by (simp add: strip_def strip_by_idem)

lemma require_non_empty_Inr: "require_non_empty s field = Inr t \<longleftrightarrow> t = strip s \<and> strip s \<noteq> []"
  by (auto simp: require_non_empty_def Let_def)

lemma require_organizer_Inr: "require_organizer a = Inr u \<longleftrightarrow> is_organizer a"
  by (simp add: require_organizer_def)

lemma parse_criteria_ok:
  "parse_criteria cs = Inr ps \<Longrightarrow>
     list_all (\<lambda>x. 1 \<le> snd (snd x) \<and> strip (fst x) \<noteq> []) ps \<and> length ps = length cs"
  by (induction cs arbitrary: ps rule: parse_criteria.induct)
    (auto simp: try_in_Inr require_non_empty_Inr split: if_splits)

lemma to_domain_sel [simp]:
  "c_id (challenge_to_domain r) = c_id r" "c_status (challenge_to_domain r) = c_status r"
  "c_hackathon_id (challenge_to_domain r) = c_hackathon_id r" "is_publishable (challenge_to_domain r) = is_publishable r"
  by (simp_all add: challenge_to_domain_def is_publishable_def)

lemma owned_challengeD:
  assumes "owned_challenge msg actor i c = Inr d"
  shows "\<exists>r\<in>set (ct_challenges c). c_id r = i \<and> d = challenge_to_domain r \<and> challenge_row i c = Some r \<and>
    organizes actor (c_hackathon_id r) c"
  using assms by (auto simp: owned_challenge_def try_in_Inr require_organizer_Inr challenge_get_def challenge_row_def
      hackathon_get_def organizes_def dest!: find_SomeD split: option.splits if_splits)

text \<open>The effects a service call can have.\<close>

lemma catalog_call_effect:
  assumes "catalog_call actor c c'"
  obtains (same) "c' = c"
  | (new_hackathon) h where "c' = c\<lparr>ct_hackathons := ct_hackathons c @ [h]\<rparr>" and "h_id h \<notin> h_id ` set (ct_hackathons c)"
      and "h_status h = HDraft" and "is_organizer actor" and "h_organizer_id h = cu_id actor"
  | (hackathon_published) h now where "h \<in> set (ct_hackathons c)" and "h_status h = HDraft"
      and "is_organizer actor" and "h_organizer_id h = cu_id actor"
      and "c' = c\<lparr>ct_hackathons := update_where (\<lambda>r. h_id r = h_id h)
        (\<lambda>h. h\<lparr>h_status := HPublished, h_updated_at := now\<rparr>) (ct_hackathons c)\<rparr>"
  | (new_challenge) r where "c' = c\<lparr>ct_challenges := ct_challenges c @ [r]\<rparr>"
      and "c_id r \<notin> c_id ` set (ct_challenges c)" and "c_status r = CDraft" and "challenge_ok r"
      and "organizes actor (c_hackathon_id r) c"
  | (challenge_moved) r t now where "r \<in> set (ct_challenges c)" and "organizes actor (c_hackathon_id r) c"
      and "challenge_step (c_status r) t" and "is_publishable r \<or> c_status r \<noteq> CDraft"
      and "c' = c\<lparr>ct_challenges := update_where (\<lambda>x. c_id x = c_id r)
        (\<lambda>x. x\<lparr>c_status := t, c_updated_at := now\<rparr>) (ct_challenges c)\<rparr>"
  using assms
proof cases
  case (call_create_hackathon now fresh t d r)
  show thesis
  proof (cases r)
    case (Inl e)
    then show thesis using same call_create_hackathon by (auto simp: create_hackathon_def dest!: commit_or_keep_Inl)
  next
    case (Inr h)
    then show thesis using call_create_hackathon
      by (intro new_hackathon [of h]) (auto simp: create_hackathon_def commit_or_keep_Inr try_in_Inr
          require_organizer_Inr hackathon_add_def Let_def split: if_splits)
  qed
next
  case (call_publish_hackathon now i r)
  show thesis
  proof (cases r)
    case (Inl e)
    then show thesis using same call_publish_hackathon by (auto simp: publish_hackathon_def dest!: commit_or_keep_Inl)
  next
    case (Inr x)
    then obtain h where h: "is_organizer actor" "hackathon_get i c = Some h" "h_organizer_id h = cu_id actor"
        "c' = c \<or> h_status h = HDraft \<and> hackathon_save_status now i HPublished c = Inr (x, c')"
      using call_publish_hackathon
      by (auto simp: publish_hackathon_def commit_or_keep_Inr try_in_Inr require_organizer_Inr
          split: option.splits if_splits)
    have "h \<in> set (ct_hackathons c)" "h_id h = i" using h(2) by (auto simp: hackathon_get_def dest: find_SomeD)
    then show thesis
      using same hackathon_published [of h now] h by (auto simp: hackathon_save_status_def Let_def)
  qed
next
  case (call_publish_challenge now i r)
  show thesis
  proof (cases r)
    case (Inl e)
    then show thesis using same call_publish_challenge by (auto simp: publish_challenge_def dest!: commit_or_keep_Inl)
  next
    case (Inr x)
    then obtain y where y: "owned_challenge ''Only the creating organizer may publish this challenge.'' actor i c = Inr y"
        "c' = c \<or> c_status y = CDraft \<and> is_publishable y \<and> challenge_save_status now i CPublished c = Inr (x, c')"
      using call_publish_challenge by (auto simp: publish_challenge_def commit_or_keep_Inr try_in_Inr split: if_splits)
    obtain z where z: "z \<in> set (ct_challenges c)" "c_id z = i" "y = challenge_to_domain z"
        "challenge_row i c = Some z" "organizes actor (c_hackathon_id z) c"
      using owned_challengeD [OF y(1)] by blast
    show thesis
    proof (cases "c' = c")
      case False
      then have "c_status z = CDraft" "is_publishable z" "challenge_save_status now i CPublished c = Inr (x, c')"
        using y(2) z(3) by auto
      then show thesis
        using challenge_moved [of z CPublished now] z by (simp add: challenge_save_status_def challenge_step_def Let_def)
    qed (rule same)
  qed
next
  case (call_close_challenge now i r)
  show thesis
  proof (cases r)
    case (Inl e)
    then show thesis using same call_close_challenge by (auto simp: close_challenge_def dest!: commit_or_keep_Inl)
  next
    case (Inr x)
    then obtain y where y: "owned_challenge ''Only the creating organizer may close this challenge.'' actor i c = Inr y"
        "c' = c \<or> c_status y = CPublished \<and> challenge_save_status now i CClosed c = Inr (x, c')"
      using call_close_challenge by (auto simp: close_challenge_def commit_or_keep_Inr try_in_Inr split: if_splits)
    obtain z where z: "z \<in> set (ct_challenges c)" "c_id z = i" "y = challenge_to_domain z"
        "challenge_row i c = Some z" "organizes actor (c_hackathon_id z) c"
      using owned_challengeD [OF y(1)] by blast
    show thesis
    proof (cases "c' = c")
      case False
      then have "c_status z = CPublished" "challenge_save_status now i CClosed c = Inr (x, c')"
        using y(2) z(3) by auto
      then show thesis
        using challenge_moved [of z CClosed now] z by (simp add: challenge_save_status_def challenge_step_def Let_def)
    qed (rule same)
  qed
next
  case (call_create_challenge now fresh fc i t d k b cr r)
  show thesis
  proof (cases r)
    case (Inl e)
    then show thesis using same call_create_challenge by (auto simp: create_challenge_def dest!: commit_or_keep_Inl)
  next
    case (Inr x)
    then obtain h ps where h: "is_organizer actor" "hackathon_get i c = Some h" "h_organizer_id h = cu_id actor"
        "strip t \<noteq> []" "strip b \<noteq> []" "parse_criteria cr = Inr ps"
        "challenge_add now fresh fc i (strip t) (strip d) k (strip b) ps c = Inr (x, c')"
      using call_create_challenge
      by (auto simp: create_challenge_def commit_or_keep_Inr try_in_Inr require_organizer_Inr require_non_empty_Inr
          split: option.splits if_splits)
    have enumerated: "snd p \<in> set ps" if "p \<in> set (List.enumerate 0 ps)" for p
      using that nth_mem [of "fst p" ps] by (auto simp: in_set_enumerate_eq)
    have "organizes actor i c" using h(1-3) by (auto simp: organizes_def hackathon_get_def dest: find_SomeD)
    moreover have "list_all (\<lambda>k. 1 \<le> cr_weight k \<and> strip (cr_name k) \<noteq> [])
        (map (\<lambda>(k, nm, d, w). \<lparr>cr_id = fc k, cr_name = nm, cr_description = d, cr_weight = w\<rparr>) (List.enumerate 0 ps))"
      using parse_criteria_ok [OF h(6)] enumerated by (fastforce simp: list_all_iff)
    moreover define row where "row = \<lparr>c_id = fresh, c_hackathon_id = i, c_title = strip t, c_description = strip d,
        c_constraints = k, c_status = CDraft, c_spec_body = strip b, c_criteria = map (\<lambda>(k, nm, d, w).
          \<lparr>cr_id = fc k, cr_name = nm, cr_description = d, cr_weight = w\<rparr>) (List.enumerate 0 ps),
        c_created_at = now, c_updated_at = now\<rparr>"
    moreover have "c' = c\<lparr>ct_challenges := ct_challenges c @ [row]\<rparr>" "\<forall>r\<in>set (ct_challenges c). c_id r \<noteq> fresh"
      using h(7) by (auto simp: challenge_add_def Let_def row_def split: if_splits)
    ultimately show thesis
      using h(4,5) by (intro new_challenge [of row]) (auto simp: challenge_ok_def)
  qed
qed

lemma fresh_key: "distinct (map k rows) \<Longrightarrow> r \<in> set rows \<Longrightarrow> x \<in> set rows \<Longrightarrow> k x = k r \<longleftrightarrow> x = r"
  by (auto intro: distinct_key_eq)

lemma catalog_call_keeps:
  assumes "catalog_call actor c c'" and "catalog_ok c"
  shows "catalog_ok c' \<and> hackathon_table.evolves (ct_hackathons c) (ct_hackathons c') \<and>
    challenge_table.evolves (ct_challenges c) (ct_challenges c')"
proof -
  have d: "distinct (map h_id (ct_hackathons c))" "distinct (map c_id (ct_challenges c))"
    using assms(2) by (simp_all add: catalog_ok_def)
  show ?thesis
    using assms(1)
  proof (cases rule: catalog_call_effect)
    case same
    then show ?thesis using assms(2) by simp
  next
    case (new_hackathon h)
    then show ?thesis
      using assms(2) by (auto simp: catalog_ok_def list_all_iff hackathon_table.evolves_append)
  next
    case (hackathon_published h now)
    have "hackathon_table.evolves (ct_hackathons c) (ct_hackathons c')"
      unfolding hackathon_published(5) using hackathon_published(1,2) fresh_key [OF d(1)]
      by (auto simp: hackathon_table.row_evolves_def hackathon_step_def intro!: hackathon_table.evolves_update_where)
    moreover have "map h_id (ct_hackathons c') = map h_id (ct_hackathons c)"
      unfolding hackathon_published(5) by (simp add: map_update_where)
    ultimately show ?thesis
      using assms(2) hackathon_published(5) by (simp add: catalog_ok_def flip: set_map)
  next
    case (new_challenge r)
    moreover have "c_hackathon_id r \<in> h_id ` set (ct_hackathons c)"
      using new_challenge(5) by (force simp: organizes_def)
    ultimately show ?thesis
      using assms(2) by (auto simp: catalog_ok_def list_all_iff organizes_def challenge_table.evolves_append)
  next
    case (challenge_moved r t now)
    let ?f = "\<lambda>x. x\<lparr>c_status := t, c_updated_at := now\<rparr>"
    have "challenge_table.evolves (ct_challenges c) (ct_challenges c')"
      unfolding challenge_moved(5) using challenge_moved(1,3) fresh_key [OF d(2)]
      by (auto simp: challenge_table.row_evolves_def challenge_step_def intro!: challenge_table.evolves_update_where)
    moreover have "map c_id (ct_challenges c') = map c_id (ct_challenges c)"
      unfolding challenge_moved(5) by (simp add: map_update_where)
    moreover have "challenge_ok (?f x)" if "challenge_ok x" "x = r" for x
      using that challenge_moved(4) by (auto simp: challenge_ok_def is_publishable_def)
    ultimately show ?thesis
      using assms(2) challenge_moved(1,5) fresh_key [OF d(2)]
      by (auto simp: catalog_ok_def list_all_iff set_update_where)
  qed
qed

text \<open>
  What becomes of one challenge: only its status (along the table) and its time stamp change, and only
  when an organizer of its hackathon is among the actors.
\<close>

definition challenge_becomes :: "current_user list \<Rightarrow> catalog \<Rightarrow> challenge \<Rightarrow> challenge \<Rightarrow> bool" where
  "challenge_becomes actors c r r' \<longleftrightarrow>
     r' = r\<lparr>c_status := c_status r', c_updated_at := c_updated_at r'\<rparr> \<and>
     challenge_step\<^sup>*\<^sup>* (c_status r) (c_status r') \<and>
     (r' = r \<or> list_ex (\<lambda>a. organizes a (c_hackathon_id r) c) actors)"

lemma catalog_call_challenge:
  assumes "catalog_call actor c c'" and "catalog_ok c" and "r \<in> set (ct_challenges c)"
  shows "\<exists>r'\<in>set (ct_challenges c'). challenge_becomes [actor] c r r'"
  using assms(1)
proof (cases rule: catalog_call_effect)
  case (challenge_moved x t now)
  have "distinct (map c_id (ct_challenges c))" using assms(2) by (simp add: catalog_ok_def)
  then have "c_id r = c_id x \<longleftrightarrow> r = x" using fresh_key challenge_moved(1) assms(3) by metis
  then show ?thesis
    using challenge_moved assms(3)
    by (intro bexI [of _ "if r = x then r\<lparr>c_status := t, c_updated_at := now\<rparr> else r"])
      (auto simp: challenge_becomes_def set_update_where)
qed (use assms(3) in \<open>auto simp: challenge_becomes_def intro!: bexI [of _ r]\<close>)

lemma catalog_call_organizer:
  assumes "catalog_call actor c c'" and "i \<in> h_id ` set (ct_hackathons c)" and "organizes a i c'"
  shows "organizes a i c"
  using assms(1)
  by (cases rule: catalog_call_effect) (use assms(2,3) in \<open>auto simp: organizes_def set_update_where split: if_splits\<close>)

lemma catalog_history:
  assumes "labelled_run catalog_call actors c c'" and "catalog_ok c"
  shows "catalog_ok c' \<and> (\<forall>r\<in>set (ct_challenges c). \<exists>r'\<in>set (ct_challenges c'). challenge_becomes actors c r r')"
  using assms
proof (induction rule: labelled_run.induct)
  case (run_nil s)
  then show ?case by (auto simp: challenge_becomes_def intro!: bexI)
next
  case (run_cons actor c m actors c')
  note k = catalog_call_keeps [OF run_cons.hyps(1) run_cons.prems]
  have "\<exists>z\<in>set (ct_challenges c'). challenge_becomes (actor # actors) c r z" if r: "r \<in> set (ct_challenges c)" for r
  proof -
    obtain y where y: "y \<in> set (ct_challenges m)" "challenge_becomes [actor] c r y"
      using catalog_call_challenge [OF run_cons.hyps(1) run_cons.prems r] by blast
    obtain z where z: "z \<in> set (ct_challenges c')" "challenge_becomes actors m y z"
      using run_cons.IH k y(1) by blast
    have h: "c_hackathon_id y = c_hackathon_id r" using y(2) by (metis challenge.select_convs(2) challenge.surjective
          challenge.update_convs(6,10) challenge_becomes_def)
    have "c_hackathon_id r \<in> h_id ` set (ct_hackathons c)"
      using run_cons.prems r by (auto simp: catalog_ok_def list_all_iff)
    then have "organizes a (c_hackathon_id r) c" if "organizes a (c_hackathon_id r) m" for a
      using catalog_call_organizer [OF run_cons.hyps(1)] that by blast
    then have "z = r \<or> list_ex (\<lambda>a. organizes a (c_hackathon_id r) c) (actor # actors)"
      using y(2) z(2) h by (auto simp: challenge_becomes_def list_ex_iff)
    moreover have "z = r\<lparr>c_status := c_status z, c_updated_at := c_updated_at z\<rparr>"
      using y(2) z(2) by (cases r; cases y; cases z) (simp add: challenge_becomes_def)
    ultimately have "challenge_becomes (actor # actors) c r z"
      using y(2) z(2) by (auto simp: challenge_becomes_def)
    then show ?thesis using z(1) by blast
  qed
  then show ?case using run_cons.IH k by blast
qed


definition organizer_one :: current_user where
  "organizer_one = \<lparr>cu_id = 1, cu_name = ''Ada'', cu_role = ORGANIZER\<rparr>"

definition draft_challenge :: challenge where
  "draft_challenge = \<lparr>c_id = 5, c_hackathon_id = 3, c_title = ''t'', c_description = ''d'', c_constraints = [],
     c_status = CDraft, c_spec_body = ''s'',
     c_criteria = [\<lparr>cr_id = 8, cr_name = ''n'', cr_description = ''d'', cr_weight = 1\<rparr>],
     c_created_at = 0, c_updated_at = 0\<rparr>"

definition example_catalog :: "hackathon_status \<Rightarrow> challenge list \<Rightarrow> catalog" where
  "example_catalog hs rs = \<lparr>ct_users = [\<lparr>u_id = 1, u_name = ''Ada'', u_role = ORGANIZER, u_created_at = 0\<rparr>],
     ct_hackathons = [\<lparr>h_id = 3, h_title = ''t'', h_description = ''d'', h_status = hs, h_organizer_id = 1,
       h_created_at = 0, h_updated_at = 0\<rparr>],
     ct_challenges = rs\<rparr>"


end
