(* ===== verification/Config.thy ===== *)
theory Config
  imports Domain
begin

text \<open>
  The settings the modelled code reads (\<^verbatim>\<open>src/src/challengeforge/config.py\<close>) as a record, with the
  defaults the class declares. \<open>settings_ok\<close> is the validation pydantic does on the bounded fields
  (\<open>ge\<close>, \<open>le\<close>). Connection strings, paths and pool sizes are left out: only I/O code reads them.
\<close>

record settings =
  metadata_max_bytes :: int
  artifact_max_bytes :: int
  evaluation_stale_after_seconds :: int
  evaluation_max_attempts :: int
  ingestion_enabled :: bool
  ingestion_stale_after_seconds :: int
  ingestion_max_attempts :: int
  ingestion_retry_delay_seconds :: real
  ingestion_chunk_max_chars :: int
  evaluation_max_workers :: int
  evaluation_min_workers :: int
  evaluation_max_concurrent_heavy :: int
  evaluation_light_bypass_limit :: int
  evaluation_scheduling_policy :: string
  evaluation_progressive_mode :: string
  execution_wall_timeout_seconds :: real
  execution_max_stdout_bytes :: int
  execution_max_stderr_bytes :: int
  evaluation_busy_queue_depth :: int
  evaluation_busy_oldest_age_seconds :: real
  evaluation_saturated_queue_depth :: int
  evaluation_saturated_oldest_age_seconds :: real
  evaluation_critical_queue_depth :: int
  evaluation_service_rate_window_seconds :: real
  resource_aware_runtime_enabled :: bool
  resource_cpu_low_percent :: real
  resource_cpu_high_percent :: real
  resource_memory_soft_mb :: real
  resource_memory_hard_mb :: real
  resource_adjust_cooldown_seconds :: real
  resource_interactive_p95_warn_ms :: real
  resource_interactive_p95_critical_ms :: real
  resource_interactive_p95_recovery_ms :: real
  resource_interactive_min_samples :: int
  resource_interactive_sustain_seconds :: real
  resource_interactive_critical_hold_all :: bool
  resource_interactive_window_seconds :: real
  resource_interactive_persist_every_samples :: int
  resource_interactive_publish_mode :: string
  resource_interactive_publish_interval_ms :: real
  resource_interactive_publish_min_delta_ms :: real
  request_profiling_enabled :: bool
  retrieval_default_version :: string
  retrieval_default_top_k :: int

definition default_settings :: settings where
  "default_settings = \<lparr>
     metadata_max_bytes = 32 * 1024,
     artifact_max_bytes = 5 * 1024 * 1024,
     evaluation_stale_after_seconds = 30,
     evaluation_max_attempts = 3,
     ingestion_enabled = True,
     ingestion_stale_after_seconds = 30,
     ingestion_max_attempts = 3,
     ingestion_retry_delay_seconds = 0,
     ingestion_chunk_max_chars = 1200,
     evaluation_max_workers = 1,
     evaluation_min_workers = 1,
     evaluation_max_concurrent_heavy = 1,
     evaluation_light_bypass_limit = 2,
     evaluation_scheduling_policy = ''bounded_light_bypass'',
     evaluation_progressive_mode = ''legacy'',
     execution_wall_timeout_seconds = 5,
     execution_max_stdout_bytes = 256 * 1024,
     execution_max_stderr_bytes = 256 * 1024,
     evaluation_busy_queue_depth = 20,
     evaluation_busy_oldest_age_seconds = 5,
     evaluation_saturated_queue_depth = 100,
     evaluation_saturated_oldest_age_seconds = 30,
     evaluation_critical_queue_depth = 500,
     evaluation_service_rate_window_seconds = 30,
     resource_aware_runtime_enabled = True,
     resource_cpu_low_percent = 35,
     resource_cpu_high_percent = 75,
     resource_memory_soft_mb = 256,
     resource_memory_hard_mb = 400,
     resource_adjust_cooldown_seconds = 2,
     resource_interactive_p95_warn_ms = 0,
     resource_interactive_p95_critical_ms = 0,
     resource_interactive_p95_recovery_ms = 0,
     resource_interactive_min_samples = 8,
     resource_interactive_sustain_seconds = 1,
     resource_interactive_critical_hold_all = False,
     resource_interactive_window_seconds = 5,
     resource_interactive_persist_every_samples = 5,
     resource_interactive_publish_mode = ''async'',
     resource_interactive_publish_interval_ms = 250,
     resource_interactive_publish_min_delta_ms = 25,
     request_profiling_enabled = False,
     retrieval_default_version = ''cf-lex-fts-1'',
     retrieval_default_top_k = 10 \<rparr>"

definition settings_ok :: "settings \<Rightarrow> bool" where
  "settings_ok s \<longleftrightarrow>
     64 \<le> ingestion_chunk_max_chars s \<and> ingestion_chunk_max_chars s \<le> 100000 \<and>
     1 \<le> evaluation_max_workers s \<and> 1 \<le> evaluation_min_workers s \<and>
     1 \<le> evaluation_max_concurrent_heavy s \<and> 0 \<le> evaluation_light_bypass_limit s \<and>
     evaluation_scheduling_policy s \<in> {''fifo'', ''bounded_light_bypass'', ''resource_aware''} \<and>
     evaluation_progressive_mode s \<in>
       {''legacy'', ''always_expensive'', ''fixed_progressive'', ''resource_aware_adaptive'',
        ''synthetic_execution''} \<and>
     1024 \<le> execution_max_stdout_bytes s \<and> 1024 \<le> execution_max_stderr_bytes s \<and>
     1 \<le> resource_interactive_min_samples s \<and> 1 \<le> resource_interactive_persist_every_samples s \<and>
     resource_interactive_publish_mode s \<in> {''sync'', ''async''} \<and>
     1 \<le> retrieval_default_top_k s \<and> retrieval_default_top_k s \<le> 100"

lemma default_settings_ok: "settings_ok default_settings"
  by (simp add: settings_ok_def default_settings_def)

end
