(* ===== verification/Storage.thy ===== *)
theory Storage
  imports Config "HOL-Library.Sublist"
begin

text \<open>
  The artifact store: \<^verbatim>\<open>storage/filesystem.py\<close>, the staging of uploads in \<^verbatim>\<open>application/uploads.py\<close>
  and the reconciliation of \<^verbatim>\<open>application/artifacts.py\<close>.

  A key is resolved to a path below the root (the list of its parts). The directory tree is the
  association list of its files; a directory is a proper prefix of a file's path, so empty
  directories do not exist. A publication is a list of file-system steps, each of which may fail
  (\<open>None\<close>, an \<open>OSError\<close>); \<open>crashes\<close> relates the tree to what a crash between or within the
  steps may leave. Bytes are characters, SHA-256 is an argument.

  The locale \<open>blob_store\<close> is what the services rely on: publishing and removing a blob affects
  the paths that are not apart from it only. It is interpreted on the file-system steps.
\<close>

section \<open>Keys and paths\<close>

type_synonym path = "string list"

fun split_on :: "'a \<Rightarrow> 'a list \<Rightarrow> 'a list list" where
  "split_on c [] = [[]]"
| "split_on c (x # xs) =
     (if x = c then [] # split_on c xs
      else case split_on c xs of [] \<Rightarrow> [[x]] | w # ws \<Rightarrow> (x # w) # ws)"

text \<open>\<open>Path(key).parts\<close> of a relative key: empty and dot components disappear.\<close>

definition path_parts :: "string \<Rightarrow> path" where
  "path_parts key = filter (\<lambda>s. s \<noteq> [] \<and> s \<noteq> ''.'') (split_on (CHR ''/'') key)"

definition as_posix :: "path \<Rightarrow> string" where
  "as_posix p = join ''/'' p"

definition resolve :: "string \<Rightarrow> exn + path" where
  "resolve key =
     (if key = [] \<or> starts_with ''/'' key \<or> ''..'' \<in> set (path_parts key)
      then Inl (ValueError ''Invalid artifact key.'') else Inr (path_parts key))"

definition add_suffix :: "string \<Rightarrow> path \<Rightarrow> path" where
  "add_suffix s p = butlast p @ [last p @ s]"

definition sidecar :: "path \<Rightarrow> path" where
  "sidecar p = add_suffix ''.content_type'' p"

definition tmp_of :: "path \<Rightarrow> path" where
  "tmp_of p = add_suffix ''.tmp'' p"

lemma split_on_not_Nil [simp]: "split_on c xs \<noteq> []"
  by (induction xs) (auto split: list.splits)

lemma split_on_single: "c \<notin> set xs \<Longrightarrow> split_on c xs = [xs]"
  by (induction xs) auto

lemma split_on_append: "c \<notin> set xs \<Longrightarrow> split_on c (xs @ c # ys) = xs # split_on c ys"
  by (induction xs) auto

lemma split_on_join:
  assumes "\<forall>p\<in>set ps. c \<notin> set p" and "ps \<noteq> []"
  shows "split_on c (join [c] ps) = ps"
  using assms by (induction "[c]" ps rule: join.induct) (auto simp: split_on_single split_on_append)

definition plain_path :: "path \<Rightarrow> bool" where
  "plain_path p \<longleftrightarrow> p \<noteq> [] \<and> (\<forall>s\<in>set p. s \<noteq> [] \<and> s \<noteq> ''.'' \<and> s \<noteq> ''..'' \<and> CHR ''/'' \<notin> set s)"

lemma parts_as_posix: "plain_path p \<Longrightarrow> path_parts (as_posix p) = p"
  by (auto simp: plain_path_def path_parts_def as_posix_def split_on_join filter_id_conv)

lemma add_suffix_inj: "p \<noteq> [] \<Longrightarrow> q \<noteq> [] \<Longrightarrow> add_suffix s p = add_suffix s q \<longleftrightarrow> p = q"
  by (metis add_suffix_def append_butlast_last_id append_same_eq butlast_snoc last_snoc)

lemma add_suffix_neq [simp]: "s \<noteq> [] \<Longrightarrow> add_suffix s p \<noteq> p" "s \<noteq> [] \<Longrightarrow> p \<noteq> add_suffix s p"
  by (metis add_suffix_def append_self_conv last_snoc)+

lemma tmp_neq [simp]: "tmp_of p \<noteq> p" "p \<noteq> tmp_of p"
  by (simp_all add: tmp_of_def)

lemma sidecar_neq [simp]: "sidecar p \<noteq> p" "p \<noteq> sidecar p"
  by (simp_all add: sidecar_def)

section \<open>The tree and its steps\<close>

record blob =
  f_bytes :: string
  f_mtime :: real

type_synonym files = "(path \<times> blob) list"

definition is_file :: "files \<Rightarrow> path \<Rightarrow> bool" where
  "is_file fs p \<longleftrightarrow> map_of fs p \<noteq> None"

definition is_dir :: "files \<Rightarrow> path \<Rightarrow> bool" where
  "is_dir fs p \<longleftrightarrow> p = [] \<or> (\<exists>q\<in>set (map fst fs). strict_prefix p q)"

text \<open>A file can be created at \<open>p\<close>: it is no directory and no parent of it is a file.\<close>

definition creatable :: "files \<Rightarrow> path \<Rightarrow> bool" where
  "creatable fs p \<longleftrightarrow> \<not> is_dir fs p \<and> (\<forall>q\<in>set (map fst fs). \<not> strict_prefix q p)"

definition read_file :: "files \<Rightarrow> path \<Rightarrow> string option" where
  "read_file fs p = map_option f_bytes (map_of fs p)"

datatype fs_step = WriteFile path string | Rename path path | Unlink path

fun exec_step :: "real \<Rightarrow> fs_step \<Rightarrow> files \<Rightarrow> files option" where
  "exec_step now (WriteFile p d) fs =
     (if creatable fs p then Some (AList.update p \<lparr>f_bytes = d, f_mtime = now\<rparr> fs) else None)"
| "exec_step now (Rename p q) fs =
     (case map_of fs p of None \<Rightarrow> None
      | Some f \<Rightarrow> if creatable fs q then Some (AList.update q f (AList.delete p fs)) else None)"
| "exec_step now (Unlink p) fs = (if is_file fs p then Some (AList.delete p fs) else None)"

fun run_steps :: "real \<Rightarrow> fs_step list \<Rightarrow> files \<Rightarrow> bool \<times> files" where
  "run_steps now [] fs = (True, fs)"
| "run_steps now (s # ss) fs =
     (case exec_step now s fs of None \<Rightarrow> (False, fs) | Some fs' \<Rightarrow> run_steps now ss fs')"

text \<open>
  What a crash may leave: the effect of some of the first steps, the next one possibly cut
  (a write is cut after any number of bytes).
\<close>

fun torn :: "real \<Rightarrow> fs_step \<Rightarrow> files \<Rightarrow> files \<Rightarrow> bool" where
  "torn now (WriteFile p d) fs fs' \<longleftrightarrow> (\<exists>n\<in>{..length d}. exec_step now (WriteFile p (take n d)) fs = Some fs')"
| "torn now _ fs fs' \<longleftrightarrow> False"

fun crashes :: "real \<Rightarrow> fs_step list \<Rightarrow> files \<Rightarrow> files \<Rightarrow> bool" where
  "crashes now [] fs fs' \<longleftrightarrow> fs' = fs"
| "crashes now (s # ss) fs fs' \<longleftrightarrow> fs' = fs \<or> torn now s fs fs' \<or>
     (case exec_step now s fs of None \<Rightarrow> False | Some m \<Rightarrow> crashes now ss m fs')"

definition put_steps :: "path \<Rightarrow> string \<Rightarrow> string \<Rightarrow> fs_step list" where
  "put_steps p data content_type =
     [WriteFile (tmp_of p) data, Rename (tmp_of p) p,
      WriteFile (sidecar p) (if content_type = [] then ''application/octet-stream'' else content_type)]"

definition move_steps :: "files \<Rightarrow> path \<Rightarrow> path \<Rightarrow> string \<Rightarrow> fs_step list" where
  "move_steps fs src p content_type =
     (if is_file fs (tmp_of p) then [Unlink (tmp_of p)] else []) @
     [Rename src (tmp_of p), Rename (tmp_of p) p,
      WriteFile (sidecar p) (if content_type = [] then ''application/octet-stream'' else content_type)]"

definition remove_file :: "path \<Rightarrow> files \<Rightarrow> files" where
  "remove_file p fs = AList.delete (sidecar p) (AList.delete p fs)"

section \<open>The storage operations\<close>

text \<open>
  A key like \<open>.\<close> resolves to the root itself: its temporary and its sidecar are siblings of the
  root, outside the tree, and replacing the root directory fails.
\<close>

definition finish_put :: "string \<Rightarrow> bool \<times> files \<Rightarrow> (exn + string) \<times> files" where
  "finish_put key r = (if fst r then Inr key else Inl OSError, snd r)"

definition put :: "real \<Rightarrow> string \<Rightarrow> string \<Rightarrow> string \<Rightarrow> files \<Rightarrow> (exn + string) \<times> files" where
  "put now key data content_type fs =
     (case resolve key of Inl e \<Rightarrow> (Inl e, fs)
      | Inr p \<Rightarrow>
          if p = [] then (Inl OSError, fs)
          else finish_put key (run_steps now (put_steps p data content_type) fs))"

definition put_from_path :: "real \<Rightarrow> string \<Rightarrow> path \<Rightarrow> string \<Rightarrow> files \<Rightarrow> (exn + string) \<times> files" where
  "put_from_path now key src content_type fs =
     (case resolve key of Inl e \<Rightarrow> (Inl e, fs)
      | Inr p \<Rightarrow>
          if \<not> is_file fs src then (Inl FileNotFoundError, fs)
          else if p = [] then (Inl OSError, AList.delete src fs)
          else finish_put key (run_steps now (move_steps fs src p content_type) fs))"

definition incoming_root :: path where
  "incoming_root = [''.incoming'']"

definition get_blob :: "string \<Rightarrow> files \<Rightarrow> exn + string" where
  "get_blob key fs =
     (case resolve key of Inl e \<Rightarrow> Inl e
      | Inr p \<Rightarrow> (case read_file fs p of None \<Rightarrow> Inl FileNotFoundError | Some d \<Rightarrow> Inr d))"

definition blob_exists :: "string \<Rightarrow> files \<Rightarrow> exn + bool" where
  "blob_exists key fs = (case resolve key of Inl e \<Rightarrow> Inl e | Inr p \<Rightarrow> Inr (is_file fs p))"

definition delete_blob :: "string \<Rightarrow> files \<Rightarrow> (exn + bool) \<times> files" where
  "delete_blob key fs =
     (case resolve key of Inl e \<Rightarrow> (Inl e, fs)
      | Inr p \<Rightarrow>
          if p = [] then (Inr False, fs)
          else (Inr (is_file fs p \<or> is_file fs (sidecar p)), remove_file p fs))"

definition hidden_name :: "path \<Rightarrow> bool" where
  "hidden_name p \<longleftrightarrow> ends_with ''.content_type'' (last p) \<or> ends_with ''.tmp'' (last p)"

definition iter_keys :: "string \<Rightarrow> files \<Rightarrow> exn + string list" where
  "iter_keys prefx fs =
     (if prefx \<noteq> [] \<and> (starts_with ''/'' prefx \<or> ''..'' \<in> set (path_parts prefx))
      then Inl (ValueError ''Invalid prefix.'')
      else Inr (map as_posix (filter (\<lambda>p. strict_prefix (path_parts prefx) p \<and> \<not> hidden_name p)
                  (map fst fs))))"

definition mtime :: "string \<Rightarrow> files \<Rightarrow> exn + real option" where
  "mtime key fs = (case resolve key of Inl e \<Rightarrow> Inl e | Inr p \<Rightarrow> Inr (map_option f_mtime (map_of fs p)))"


section \<open>Staged uploads\<close>

record incoming_upload =
  in_path :: path
  in_size :: int
  in_sha256 :: string
  in_content_type :: string
  in_finalized :: bool

definition too_large :: exn where
  "too_large = ValidationFailed ''Artifact exceeds the size limit.''"

text \<open>
  The loop over the chunks: the result (\<open>None\<close>: all chunks written) and the bytes in the
  staging file.
\<close>

fun stream_loop :: "int \<Rightarrow> string list \<Rightarrow> int \<Rightarrow> string \<Rightarrow> exn option \<times> string" where
  "stream_loop max_bytes [] nbytes buf = (None, buf)"
| "stream_loop max_bytes (chunk # chunks) nbytes buf =
     (if chunk = [] then stream_loop max_bytes chunks nbytes buf
      else let nbytes = nbytes + int (length chunk)
           in if nbytes > max_bytes then (Some too_large, buf)
              else stream_loop max_bytes chunks nbytes (buf @ chunk))"

text \<open>What follows the loop: checksum, result, and removal of the staging file on any error.\<close>

definition finish_stream ::
  "(string \<Rightarrow> string) \<Rightarrow> real \<Rightarrow> string \<Rightarrow> string option \<Rightarrow> path \<Rightarrow> exn option \<times> string \<Rightarrow> files
     \<Rightarrow> (exn + incoming_upload) \<times> files" where
  "finish_stream sha now content_type expected_sha256 staging r fs =
     (let (err, buf) = r;
          written = AList.update staging \<lparr>f_bytes = buf, f_mtime = now\<rparr> fs;
          digest = sha buf
      in case err of
           Some e \<Rightarrow> (Inl e, AList.delete staging written)
         | None \<Rightarrow>
             if (case expected_sha256 of None \<Rightarrow> False | Some x \<Rightarrow> x \<noteq> [] \<and> lower x \<noteq> digest)
             then (Inl (ValidationFailed ''Artifact checksum mismatch.''), AList.delete staging written)
             else (Inr \<lparr>in_path = staging, in_size = int (length buf), in_sha256 = digest,
                     in_content_type = (if content_type = [] then ''application/octet-stream''
                                        else content_type),
                     in_finalized = False\<rparr>, written))"

definition stream_to_incoming ::
  "(string \<Rightarrow> string) \<Rightarrow> real \<Rightarrow> uuid \<Rightarrow> string list \<Rightarrow> int \<Rightarrow> string \<Rightarrow> string option \<Rightarrow> files
     \<Rightarrow> (exn + incoming_upload) \<times> files" where
  "stream_to_incoming sha now fresh chunks max_bytes content_type expected_sha256 fs =
     finish_stream sha now content_type expected_sha256 (incoming_root @ [uuid_str fresh])
       (stream_loop max_bytes chunks 0 []) fs"

text \<open>The synchronous variant reads \<open>chunk_size\<close> bytes at a time until a read returns nothing.\<close>

fun sync_loop :: "int \<Rightarrow> nat \<Rightarrow> string \<Rightarrow> int \<Rightarrow> string \<Rightarrow> exn option \<times> string" where
  "sync_loop max_bytes n reader nbytes buf =
     (let chunk = take n reader
      in if chunk = [] then (None, buf)
         else let nbytes = nbytes + int (length chunk)
              in if nbytes > max_bytes then (Some too_large, buf)
                 else sync_loop max_bytes n (drop n reader) nbytes (buf @ chunk))"

declare sync_loop.simps [simp del]

definition sync_stream_to_incoming ::
  "(string \<Rightarrow> string) \<Rightarrow> real \<Rightarrow> uuid \<Rightarrow> string \<Rightarrow> nat \<Rightarrow> int \<Rightarrow> string \<Rightarrow> string option \<Rightarrow> files
     \<Rightarrow> (exn + incoming_upload) \<times> files" where
  "sync_stream_to_incoming sha now fresh reader chunk_size max_bytes content_type expected_sha256 fs =
     finish_stream sha now content_type expected_sha256 (incoming_root @ [uuid_str fresh])
       (sync_loop max_bytes chunk_size reader 0 []) fs"

text \<open>\<open>iter_upload_file\<close>: the successive reads of an uploaded file, until the first empty one.\<close>

fun iter_upload_file :: "nat \<Rightarrow> string \<Rightarrow> string list" where
  "iter_upload_file n reader =
     (let chunk = take n reader in if chunk = [] then [] else chunk # iter_upload_file n (drop n reader))"

declare iter_upload_file.simps [simp del]

definition mark_finalized :: "incoming_upload \<Rightarrow> incoming_upload" where
  "mark_finalized i = i\<lparr>in_finalized := True\<rparr>"

definition abort_upload :: "incoming_upload \<Rightarrow> files \<Rightarrow> files" where
  "abort_upload i fs =
     (if in_finalized i then fs
      else AList.delete (add_suffix ''.meta'' (in_path i)) (AList.delete (in_path i) fs))"

text \<open>One staging file: too young or a \<open>.meta\<close> file is skipped, otherwise it goes with its \<open>.meta\<close>.\<close>

definition incoming_names :: "files \<Rightarrow> string list" where
  "incoming_names fs =
     map last (filter (\<lambda>p. length p = 2 \<and> hd p = ''.incoming'') (map fst fs))"

definition cleanup_one :: "real \<Rightarrow> real \<Rightarrow> string \<Rightarrow> string list \<times> files \<Rightarrow> string list \<times> files" where
  "cleanup_one clock grace_seconds nm acc =
     (let (deleted, fs) = acc; p = incoming_root @ [nm]
      in if ends_with ''.meta'' nm then acc
         else case map_of fs p of
           None \<Rightarrow> acc
         | Some f \<Rightarrow>
             if clock - f_mtime f < grace_seconds then acc
             else (deleted @ [nm], AList.delete (add_suffix ''.meta'' p) (AList.delete p fs)))"

definition cleanup_incoming :: "real \<Rightarrow> real \<Rightarrow> files \<Rightarrow> string list \<times> files" where
  "cleanup_incoming clock grace_seconds fs =
     fold (cleanup_one clock grace_seconds) (incoming_names fs) ([], fs)"

section \<open>Reconciliation\<close>

record reconcile_report =
  rr_scanned :: int
  rr_referenced :: int
  rr_orphan_candidates :: int
  rr_deleted :: "string list"
  rr_missing_referenced :: "string list"
  rr_skipped_young :: "string list"
  rr_errors :: "string list"

fun exn_text :: "exn \<Rightarrow> string" where
  "exn_text (ValueError m) = m"
| "exn_text _ = []"

text \<open>A best-effort delete: every exception is swallowed.\<close>

definition compensate_delete :: "string option \<Rightarrow> files \<Rightarrow> bool \<times> files" where
  "compensate_delete key fs =
     (case key of None \<Rightarrow> (False, fs)
      | Some k \<Rightarrow> if k = [] then (False, fs)
          else (case delete_blob k fs of (Inl e, fs') \<Rightarrow> (False, fs') | (Inr b, fs') \<Rightarrow> (b, fs')))"

definition check_referenced :: "files \<Rightarrow> string \<Rightarrow> reconcile_report \<Rightarrow> reconcile_report" where
  "check_referenced fs key r =
     (case blob_exists key fs of
        Inl e \<Rightarrow> r\<lparr>rr_errors := rr_errors r @ [''exists('' @ key @ ''): '' @ exn_text e]\<rparr>
      | Inr b \<Rightarrow> if b then r else r\<lparr>rr_missing_referenced := rr_missing_referenced r @ [key]\<rparr>)"

definition scan_key ::
  "string list \<Rightarrow> real \<Rightarrow> real \<Rightarrow> bool \<Rightarrow> string \<Rightarrow> (exn + reconcile_report) \<times> files
     \<Rightarrow> (exn + reconcile_report) \<times> files" where
  "scan_key refs grace_seconds clock del key acc =
     (case acc of
        (Inl e, fs) \<Rightarrow> (Inl e, fs)
      | (Inr r, fs) \<Rightarrow>
          (let r = r\<lparr>rr_scanned := rr_scanned r + 1\<rparr>
           in if key \<in> set refs then (Inr r, fs)
              else
                let r = r\<lparr>rr_orphan_candidates := rr_orphan_candidates r + 1\<rparr>
                in case mtime key fs of
                     Inl e \<Rightarrow> (Inl e, fs)
                   | Inr t \<Rightarrow>
                       if (case t of None \<Rightarrow> False | Some t \<Rightarrow> clock - t < grace_seconds)
                       then (Inr (r\<lparr>rr_skipped_young := rr_skipped_young r @ [key]\<rparr>), fs)
                       else if \<not> del then (Inr r, fs)
                       else case delete_blob key fs of
                           (Inl e, fs') \<Rightarrow>
                             (Inr (r\<lparr>rr_errors := rr_errors r @ [''delete('' @ key @ ''): '' @ exn_text e]\<rparr>), fs')
                         | (Inr b, fs') \<Rightarrow>
                             (Inr (if b then r\<lparr>rr_deleted := rr_deleted r @ [key]\<rparr> else r), fs')))"

definition reconcile_orphans ::
  "string option list \<Rightarrow> string \<Rightarrow> real \<Rightarrow> real \<Rightarrow> bool \<Rightarrow> files \<Rightarrow> (exn + reconcile_report) \<times> files" where
  "reconcile_orphans referenced_keys prefx grace_seconds clock del fs =
     (let refs = remdups (filter (\<lambda>k. k \<noteq> []) (List.map_filter id referenced_keys));
          r = \<lparr>rr_scanned = 0, rr_referenced = int (length refs), rr_orphan_candidates = 0,
               rr_deleted = [], rr_missing_referenced = [], rr_skipped_young = [], rr_errors = []\<rparr>;
          r = fold (check_referenced fs) refs r
      in case iter_keys prefx fs of
           Inl e \<Rightarrow> (Inl e, fs)
         | Inr keys \<Rightarrow>
             (case fold (scan_key refs grace_seconds clock del) keys (Inr r, fs) of
                (Inl e, fs') \<Rightarrow> (Inl e, fs')
              | (Inr r, fs') \<Rightarrow>
                  if \<not> del then (Inr r, fs')
                  else let (names, fs'') = cleanup_incoming clock grace_seconds fs'
                       in (Inr (r\<lparr>rr_deleted := rr_deleted r @ map (\<lambda>n. ''.incoming/'' @ n) names\<rparr>), fs'')))"


section \<open>The contract of a publication\<close>

lemma read_update [simp]:
  "read_file (AList.update p f fs) q = (if q = p then Some (f_bytes f) else read_file fs q)"
  by (simp add: read_file_def update_conv')

lemma read_delete [simp]: "read_file (AList.delete p fs) q = (if q = p then None else read_file fs q)"
  by (simp add: read_file_def delete_conv')

lemma is_file_update [simp]: "is_file (AList.update p f fs) q \<longleftrightarrow> q = p \<or> is_file fs q"
  by (auto simp: is_file_def update_conv')

lemma is_file_delete [simp]: "is_file (AList.delete p fs) q \<longleftrightarrow> q \<noteq> p \<and> is_file fs q"
  by (auto simp: is_file_def delete_conv')

lemma is_file_iff_read: "is_file fs p \<longleftrightarrow> read_file fs p \<noteq> None"
  by (simp add: is_file_def read_file_def)

text \<open>\<open>q\<close> is apart from \<open>p\<close>: it is neither \<open>p\<close> nor its temporary nor its sidecar.\<close>

definition apart :: "path \<Rightarrow> path \<Rightarrow> bool" where
  "apart q p \<longleftrightarrow> q \<noteq> p \<and> q \<noteq> tmp_of p \<and> q \<noteq> sidecar p"

locale blob_store =
  fixes rd :: "'s \<Rightarrow> path \<Rightarrow> string option"
    and publish :: "path \<Rightarrow> string \<Rightarrow> 's \<Rightarrow> bool \<times> 's"
    and remove :: "path \<Rightarrow> 's \<Rightarrow> 's"
  assumes publish_same: "fst (publish p d s) \<Longrightarrow> rd (snd (publish p d s)) p = Some d"
    and publish_apart: "apart q p \<Longrightarrow> rd (snd (publish p d s)) q = rd s q"
    and remove_same: "rd (remove p s) p = None"
    and remove_apart: "apart q p \<Longrightarrow> rd (remove p s) q = rd s q"
begin

text \<open>Taking a publication back (the compensating delete) restores every other blob.\<close>

lemma compensation_restores: "apart q p \<Longrightarrow> rd (remove p (snd (publish p d s))) q = rd s q"
  by (simp add: remove_apart publish_apart)

text \<open>Replacing a blob (publish the new key, then remove the old one) leaves the new one.\<close>

lemma replacement_readable:
  assumes "fst (publish new d s)" and "apart new old"
  shows "rd (remove old (snd (publish new d s))) new = Some d"
  using assms by (simp add: publish_same remove_apart)

lemma replacement_apart:
  "apart q new \<Longrightarrow> apart q old \<Longrightarrow> rd (remove old (snd (publish new d s))) q = rd s q"
  by (simp add: publish_apart remove_apart)

text \<open>Removing any number of blobs keeps a path apart from all of them.\<close>

lemma removals_apart: "\<forall>p\<in>set ps. apart q p \<Longrightarrow> rd (fold remove ps s) q = rd s q"
  by (induction ps arbitrary: s) (auto simp: remove_apart)

end

lemma put_steps_read:
  "run_steps now (put_steps p d ct) fs = (ok, fs') \<Longrightarrow>
     (ok \<longrightarrow> read_file fs' p = Some d) \<and> (apart q p \<longrightarrow> read_file fs' q = read_file fs q)"
  by (auto simp: put_steps_def apart_def update_conv' split: if_splits option.splits)

lemma move_steps_read:
  assumes "run_steps now (move_steps fs src p ct) fs = (ok, fs')" and "src \<noteq> tmp_of p"
  shows "(ok \<longrightarrow> read_file fs' p = read_file fs src) \<and>
    (apart q p \<and> q \<noteq> src \<longrightarrow> read_file fs' q = read_file fs q)"
  using assms
  by (auto simp: move_steps_def apart_def update_conv' delete_conv' read_file_def is_file_def
      split: if_splits option.splits)

interpretation fs_put: blob_store read_file "\<lambda>p d. run_steps now (put_steps p d ct)" remove_file
  for now ct
proof
  fix p q :: path and d :: string and s :: files
  obtain ok s' where r: "run_steps now (put_steps p d ct) s = (ok, s')" by force
  show "fst (run_steps now (put_steps p d ct) s) \<Longrightarrow>
      read_file (snd (run_steps now (put_steps p d ct) s)) p = Some d"
    using put_steps_read [OF r] r by simp
  show "apart q p \<Longrightarrow> read_file (snd (run_steps now (put_steps p d ct) s)) q = read_file s q"
    using put_steps_read [OF r] r by simp
  show "read_file (remove_file p s) p = None" by (simp add: remove_file_def)
  show "apart q p \<Longrightarrow> read_file (remove_file p s) q = read_file s q"
    by (simp add: remove_file_def apart_def)
qed

section \<open>Crash safety\<close>

lemma put_crash:
  assumes "crashes now (put_steps p d ct) fs fs'" and "q \<noteq> tmp_of p" and "q \<noteq> sidecar p"
  shows "read_file fs' q = read_file fs q \<or> (q = p \<and> read_file fs' q = Some d)"
  using assms
  by (auto simp: put_steps_def update_conv' split: if_splits option.splits)

text \<open>
  Crash safety of publishing bytes: wherever a crash interrupts \<open>put\<close>, between its steps or
  within a write, every path other than the temporary and the sidecar holds what it held before,
  or (the published path only) the complete new bytes. A partial blob is never visible.
\<close>

theorem put_crash_safe:
  assumes "resolve key = Inr p" and "crashes now (put_steps p data content_type) fs fs'"
    and "q \<noteq> tmp_of p" and "q \<noteq> sidecar p"
  shows "read_file fs' q = read_file fs q \<or> (q = p \<and> read_file fs' q = Some data)"
  by (rule put_crash [OF assms(2-4)])

theorem put_crash_safe_witness:
  "read_file [([''a'', ''b''], \<lparr>f_bytes = ''old'', f_mtime = 0\<rparr>),
      ([''a'', ''b.tmp''], \<lparr>f_bytes = ''ne'', f_mtime = 1\<rparr>)] [''a'', ''b''] = Some ''old''"
proof -
  let ?fs = "[([''a'', ''b''], \<lparr>f_bytes = ''old'', f_mtime = 0\<rparr>)] :: files"
  let ?cut = "?fs @ [([''a'', ''b.tmp''], \<lparr>f_bytes = ''ne'', f_mtime = 1\<rparr>)]"
  have "exec_step 1 (WriteFile [''a'', ''b.tmp''] ''ne'') ?fs = Some ?cut"
    by (simp add: creatable_def is_dir_def)
  then have "torn 1 (WriteFile [''a'', ''b.tmp''] ''new'') ?fs ?cut"
    unfolding torn.simps by (intro bexI [of _ 2]) simp_all
  then have "crashes 1 (put_steps [''a'', ''b''] ''new'' ''text'') ?fs ?cut"
    by (simp add: put_steps_def tmp_of_def add_suffix_def del: torn.simps)
  moreover have "resolve ''a/b'' = Inr [''a'', ''b'']"
    by (simp add: resolve_def path_parts_def starts_with_def)
  ultimately have "read_file ?cut [''a'', ''b''] = read_file ?fs [''a'', ''b''] \<or>
      ([''a'', ''b''] = [''a'', ''b''] \<and> read_file ?cut [''a'', ''b''] = Some ''new'')"
    by (intro put_crash_safe) (simp_all add: tmp_of_def sidecar_def add_suffix_def)
  then show ?thesis by (simp add: read_file_def)
qed


section \<open>Staging\<close>

lemma stream_loop_spec:
  assumes "nbytes = int (length buf)" and "nbytes \<le> mx"
  shows "fst (stream_loop mx cs nbytes buf) =
      (if int (length (buf @ concat cs)) > mx then Some too_large else None) \<and>
    (fst (stream_loop mx cs nbytes buf) = None \<longrightarrow> snd (stream_loop mx cs nbytes buf) = buf @ concat cs) \<and>
    int (length (snd (stream_loop mx cs nbytes buf))) \<le> mx"
  using assms by (induction mx cs nbytes buf rule: stream_loop.induct) (auto simp: Let_def)

lemma sync_loop_blocks: "sync_loop mx n reader nbytes buf = stream_loop mx (iter_upload_file n reader) nbytes buf"
proof (induction mx n reader nbytes buf rule: sync_loop.induct)
  case (1 mx n reader nbytes buf)
  show ?case
    using 1 by (subst sync_loop.simps, subst iter_upload_file.simps) (auto simp: Let_def)
qed

lemma concat_blocks: "0 < n \<Longrightarrow> concat (iter_upload_file n reader) = reader"
proof (induction n reader rule: iter_upload_file.induct)
  case (1 n reader)
  then show ?case by (subst iter_upload_file.simps) (auto simp: Let_def)
qed

lemma finish_stream_cases:
  "finish_stream sha now ct ex staging (err, buf) fs =
     (case err of Some e \<Rightarrow> (Inl e, AList.delete staging fs)
      | None \<Rightarrow>
          if (case ex of None \<Rightarrow> False | Some x \<Rightarrow> x \<noteq> [] \<and> lower x \<noteq> sha buf)
          then (Inl (ValidationFailed ''Artifact checksum mismatch.''), AList.delete staging fs)
          else (Inr \<lparr>in_path = staging, in_size = int (length buf), in_sha256 = sha buf,
                  in_content_type = (if ct = [] then ''application/octet-stream'' else ct),
                  in_finalized = False\<rparr>,
                AList.update staging \<lparr>f_bytes = buf, f_mtime = now\<rparr> fs))"
  by (auto simp: finish_stream_def Let_def delete_update_same split: option.splits)

definition staged ::
  "(string \<Rightarrow> string) \<Rightarrow> real \<Rightarrow> uuid \<Rightarrow> string \<Rightarrow> int \<Rightarrow> string \<Rightarrow> string option \<Rightarrow> files
     \<Rightarrow> (exn + incoming_upload) \<times> files" where
  "staged sha now fresh body mx ct ex fs =
     finish_stream sha now ct ex (incoming_root @ [uuid_str fresh])
       (if int (length body) > mx then (Some too_large, []) else (None, body)) fs"

lemma finish_stream_loop:
  assumes "0 \<le> mx"
  shows "finish_stream sha now ct ex p (stream_loop mx cs 0 []) fs =
    finish_stream sha now ct ex p
      (if int (length (concat cs)) > mx then (Some too_large, []) else (None, concat cs)) fs"
proof -
  obtain err buf where r: "stream_loop mx cs 0 [] = (err, buf)" by force
  have "err = (if int (length (concat cs)) > mx then Some too_large else None)"
    and "err = None \<longrightarrow> buf = concat cs"
    using stream_loop_spec [of 0 "[]" mx cs] assms r by simp_all
  then show ?thesis by (cases "int (length (concat cs)) > mx") (simp_all add: r finish_stream_cases)
qed

lemma staged_Inr_iff:
  "fst (staged sha now fresh body mx ct ex fs) = Inr up \<longleftrightarrow>
     int (length body) \<le> mx \<and> (ex = None \<or> ex = Some [] \<or> map_option lower ex = Some (sha body)) \<and>
     up = \<lparr>in_path = incoming_root @ [uuid_str fresh], in_size = int (length body), in_sha256 = sha body,
           in_content_type = (if ct = [] then ''application/octet-stream'' else ct), in_finalized = False\<rparr>"
  by (auto simp: staged_def finish_stream_cases split: option.splits)

lemma staged_tree:
  "snd (staged sha now fresh body mx ct ex fs) =
     (case fst (staged sha now fresh body mx ct ex fs) of
        Inl e \<Rightarrow> AList.delete (incoming_root @ [uuid_str fresh]) fs
      | Inr up \<Rightarrow> AList.update (in_path up) \<lparr>f_bytes = body, f_mtime = now\<rparr> fs)"
  by (auto simp: staged_def finish_stream_cases split: option.splits)

text \<open>
  Uploads in chunks. Whatever way the body is cut into chunks, and for every positive
  chunk size of the synchronous variant, staging gives the same result and the same tree as the
  body taken at once: the size limit and the checksum decide, the staged file holds exactly the
  body, an error leaves no staging file, and at no time are more than \<open>max_bytes\<close> bytes staged.
\<close>

theorem staging_exact:
  assumes "0 \<le> max_bytes" and "0 < chunk_size" and "concat chunks = body"
  shows "stream_to_incoming sha now fresh chunks max_bytes ct ex fs = staged sha now fresh body max_bytes ct ex fs \<and>
    sync_stream_to_incoming sha now fresh body chunk_size max_bytes ct ex fs =
      staged sha now fresh body max_bytes ct ex fs \<and>
    int (length (snd (stream_loop max_bytes chunks 0 []))) \<le> max_bytes \<and>
    (fst (staged sha now fresh body max_bytes ct ex fs) = Inr up \<longleftrightarrow>
      int (length body) \<le> max_bytes \<and> (ex = None \<or> ex = Some [] \<or> map_option lower ex = Some (sha body)) \<and>
      up = \<lparr>in_path = incoming_root @ [uuid_str fresh], in_size = int (length body), in_sha256 = sha body,
            in_content_type = (if ct = [] then ''application/octet-stream'' else ct), in_finalized = False\<rparr>) \<and>
    snd (staged sha now fresh body max_bytes ct ex fs) =
      (case fst (staged sha now fresh body max_bytes ct ex fs) of
         Inl e \<Rightarrow> AList.delete (incoming_root @ [uuid_str fresh]) fs
       | Inr up \<Rightarrow> AList.update (in_path up) \<lparr>f_bytes = body, f_mtime = now\<rparr> fs)"
  using finish_stream_loop [OF assms(1)] assms stream_loop_spec [of 0 "[]" max_bytes chunks]
  by (intro conjI staged_Inr_iff staged_tree)
    (simp_all add: stream_to_incoming_def sync_stream_to_incoming_def staged_def sync_loop_blocks concat_blocks)

theorem staging_exact_witness:
  "stream_to_incoming id 5 7 [''ab'', [], ''c''] 3 [] None [] = staged id 5 7 ''abc'' 3 [] None [] \<and>
   sync_stream_to_incoming id 5 7 ''abc'' 2 3 [] None [] = staged id 5 7 ''abc'' 3 [] None []"
  using staging_exact [of 3 2 "[''ab'', [], ''c'']" "''abc''" id 5 7 "[]" None "[]"] by simp


section \<open>Reconciliation\<close>

lemma resolve_as_posix: "plain_path p \<Longrightarrow> resolve (as_posix p) = Inr p"
proof -
  assume p: "plain_path p"
  then obtain a b t ps where "p = (a # b) # t \<or> False" "a \<noteq> CHR ''/''"
    by (cases p; cases "hd p") (auto simp: plain_path_def)
  then have "as_posix p \<noteq> []" and "\<not> starts_with ''/'' (as_posix p)"
    by (cases t; simp add: as_posix_def starts_with_def)+
  moreover have "''..'' \<notin> set p" using p by (auto simp: plain_path_def)
  ultimately show ?thesis using parts_as_posix [OF p] by (simp add: resolve_def)
qed

definition old_file :: "real \<Rightarrow> real \<Rightarrow> files \<Rightarrow> path \<Rightarrow> bool" where
  "old_file clock grace fs p \<longleftrightarrow>
     (case map_of fs p of None \<Rightarrow> True | Some f \<Rightarrow> \<not> clock - f_mtime f < grace)"

lemma map_of_remove_file: "map_of (remove_file p fs) q = (if q = p \<or> q = sidecar p then None else map_of fs q)"
  by (simp add: remove_file_def delete_conv')

text \<open>What scanning one key does to the tree, on keys the storage itself lists.\<close>

lemma delete_plain:
  "plain_path p \<Longrightarrow> delete_blob (as_posix p) fs = (Inr (is_file fs p \<or> is_file fs (sidecar p)), remove_file p fs)"
  by (auto simp: delete_blob_def resolve_as_posix plain_path_def)

lemma scan_key_tree:
  assumes "plain_path p"
  shows "\<exists>r'. scan_key refs g clock del (as_posix p) (Inr r, fs) =
      (Inr r', if del \<and> as_posix p \<notin> set refs \<and> old_file clock g fs p then remove_file p fs else fs) \<and>
    rr_missing_referenced r' = rr_missing_referenced r"
proof (cases "as_posix p \<in> set refs \<or> \<not> old_file clock g fs p")
  case True
  then show ?thesis
    by (auto simp: scan_key_def Let_def mtime_def resolve_as_posix [OF assms] old_file_def split: option.splits)
next
  case False
  then have "\<not> (case map_option f_mtime (map_of fs p) of None \<Rightarrow> False | Some t \<Rightarrow> clock - t < g)"
    by (simp add: old_file_def split: option.splits)
  with False show ?thesis
    by (cases del) (simp_all add: scan_key_def Let_def mtime_def resolve_as_posix [OF assms] delete_plain [OF assms])
qed

definition scannable :: "path \<Rightarrow> bool" where
  "scannable p \<longleftrightarrow> plain_path p \<and> \<not> hidden_name p"

lemma sidecar_hidden: "hidden_name (sidecar p)"
  by (simp add: hidden_name_def sidecar_def add_suffix_def ends_with_def starts_with_def)

lemma scan_fold:
  assumes "\<forall>p\<in>set ps. scannable p"
  shows "\<exists>r' fs'. fold (scan_key refs g clock del) (map as_posix ps) (Inr r, fs) = (Inr r', fs') \<and>
    rr_missing_referenced r' = rr_missing_referenced r \<and>
    (\<forall>q. map_of fs' q = map_of fs q \<or> map_of fs' q = None \<and> del \<and>
      (\<exists>p\<in>set ps. (q = p \<or> q = sidecar p) \<and> as_posix p \<notin> set refs \<and> old_file clock g fs p)) \<and>
    (del \<longrightarrow> (\<forall>p\<in>set ps. as_posix p \<notin> set refs \<and> map_of fs' p \<noteq> None \<longrightarrow> \<not> old_file clock g fs p))"
  using assms
proof (induction ps arbitrary: r fs)
  case Nil
  then show ?case by simp
next
  case (Cons p ps)
  define hit where "hit \<longleftrightarrow> del \<and> as_posix p \<notin> set refs \<and> old_file clock g fs p"
  define fs1 where "fs1 = (if hit then remove_file p fs else fs)"
  from Cons.prems have sp: "scannable p" and sps: "\<forall>p\<in>set ps. scannable p" by simp_all
  obtain r1 where s1: "scan_key refs g clock del (as_posix p) (Inr r, fs) = (Inr r1, fs1)"
      "rr_missing_referenced r1 = rr_missing_referenced r"
    using scan_key_tree [of p refs g clock del r fs] sp
    unfolding scannable_def fs1_def hit_def by blast
  obtain r' fs' where ih: "fold (scan_key refs g clock del) (map as_posix ps) (Inr r1, fs1) = (Inr r', fs')"
      "rr_missing_referenced r' = rr_missing_referenced r1"
      "\<And>q. map_of fs' q = map_of fs1 q \<or> map_of fs' q = None \<and> del \<and>
        (\<exists>p\<in>set ps. (q = p \<or> q = sidecar p) \<and> as_posix p \<notin> set refs \<and> old_file clock g fs1 p)"
      "del \<longrightarrow> (\<forall>p\<in>set ps. as_posix p \<notin> set refs \<and> map_of fs' p \<noteq> None \<longrightarrow> \<not> old_file clock g fs1 p)"
    using Cons.IH [OF sps, of r1 fs1] by blast
  have same: "old_file clock g fs1 x \<longleftrightarrow> old_file clock g fs x" if "x \<in> set ps" for x
  proof (cases "hit \<and> x = p")
    case True
    then show ?thesis by (simp add: fs1_def hit_def old_file_def map_of_remove_file)
  next
    case False
    have "x \<noteq> sidecar p" using sps that sidecar_hidden by (auto simp: scannable_def)
    with False show ?thesis by (auto simp: fs1_def old_file_def map_of_remove_file)
  qed
  have sound: "map_of fs' q = map_of fs q \<or> map_of fs' q = None \<and> del \<and>
      (\<exists>x\<in>set (p # ps). (q = x \<or> q = sidecar x) \<and> as_posix x \<notin> set refs \<and> old_file clock g fs x)" for q
  proof (cases "hit \<and> (q = p \<or> q = sidecar p)")
    case True
    then have "map_of fs1 q = None" by (auto simp: fs1_def map_of_remove_file)
    with ih(3) [of q] True show ?thesis by (auto simp: hit_def)
  next
    case False
    then have "map_of fs1 q = map_of fs q" by (auto simp: fs1_def map_of_remove_file)
    with ih(3) [of q] same show ?thesis by (metis list.set_intros(2))
  qed
  have compl: "\<not> old_file clock g fs x"
    if "del" "x \<in> set (p # ps)" "as_posix x \<notin> set refs" "map_of fs' x \<noteq> None" for x
  proof (cases "x \<in> set ps")
    case True
    with ih(4) same that show ?thesis by blast
  next
    case False
    with that have x: "x = p" by simp
    show ?thesis
    proof
      assume "old_file clock g fs x"
      with that x have "map_of fs1 x = None" by (simp add: fs1_def hit_def map_of_remove_file)
      with ih(3) [of x] that(4) show False by auto
    qed
  qed
  have "fold (scan_key refs g clock del) (map as_posix (p # ps)) (Inr r, fs) = (Inr r', fs')"
    using s1(1) ih(1) by simp
  moreover have "rr_missing_referenced r' = rr_missing_referenced r" using ih(2) s1(2) by simp
  ultimately show ?case using sound compl by blast
qed

lemma cleanup_fold:
  assumes "hd q \<noteq> ''.incoming''"
  shows "map_of (snd (fold (cleanup_one clock g) names acc)) q = map_of (snd acc) q"
  using assms
proof (induction names arbitrary: acc)
  case (Cons n names)
  have "map_of (snd (cleanup_one clock g n acc)) q = map_of (snd acc) q"
    using Cons.prems
    by (auto simp: cleanup_one_def Let_def incoming_root_def add_suffix_def delete_conv' split: prod.splits option.splits)
  with Cons.IH [OF Cons.prems] show ?case by simp
qed simp

lemma check_referenced_fold:
  "set (rr_missing_referenced (fold (check_referenced fs) refs r)) =
     set (rr_missing_referenced r) \<union> {k \<in> set refs. blob_exists k fs = Inr False}"
  by (induction refs arbitrary: r) (auto simp: check_referenced_def split: sum.splits)


text \<open>A key the storage lists in the form it was stored: normal, and not named like a sidecar.\<close>

definition stable_key :: "string \<Rightarrow> bool" where
  "stable_key k \<longleftrightarrow> (case resolve k of Inl e \<Rightarrow> False
     | Inr q \<Rightarrow> q \<noteq> [] \<and> as_posix q = k \<and> hd q = ''submissions'' \<and>
         \<not> ends_with ''.content_type'' (last q))"

definition plain_tree :: "files \<Rightarrow> bool" where
  "plain_tree fs \<longleftrightarrow> (\<forall>p\<in>set (map fst fs). plain_path p)"

definition refs_of :: "string option list \<Rightarrow> string list" where
  "refs_of ks = remdups (filter (\<lambda>k. k \<noteq> []) (List.map_filter id ks))"

lemma set_refs_of [simp]: "set (refs_of ks) = {k. Some k \<in> set ks \<and> k \<noteq> []}"
  by (force simp: refs_of_def List.map_filter_def)

definition scanned_paths :: "files \<Rightarrow> path list" where
  "scanned_paths fs = filter (\<lambda>p. strict_prefix [''submissions''] p \<and> \<not> hidden_name p) (map fst fs)"

lemma iter_submissions: "iter_keys ''submissions/'' fs = Inr (map as_posix (scanned_paths fs))"
proof -
  have "path_parts ''submissions/'' = [''submissions'']" by (simp add: path_parts_def)
  then show ?thesis by (simp add: iter_keys_def scanned_paths_def starts_with_def)
qed

lemma sidecar_ends: "ends_with ''.content_type'' (last (sidecar p))"
  by (simp add: sidecar_def add_suffix_def ends_with_def starts_with_def)

lemma reconcile_effect:
  assumes "plain_tree fs"
  shows "\<exists>r fs'. reconcile_orphans ks ''submissions/'' g clock del fs = (Inr r, fs') \<and>
    set (rr_missing_referenced r) = {k. Some k \<in> set ks \<and> k \<noteq> [] \<and> blob_exists k fs = Inr False} \<and>
    (\<forall>q. hd q \<noteq> ''.incoming'' \<longrightarrow> map_of fs' q = map_of fs q \<or> map_of fs' q = None \<and> del \<and>
      (\<exists>p. p \<in> set (scanned_paths fs) \<and> (q = p \<or> q = sidecar p) \<and> Some (as_posix p) \<notin> set ks \<and>
        old_file clock g fs p)) \<and>
    (del \<longrightarrow> (\<forall>p\<in>set (scanned_paths fs). Some (as_posix p) \<notin> set ks \<and> map_of fs' p \<noteq> None \<longrightarrow>
      \<not> old_file clock g fs p))"
proof -
  let ?refs = "refs_of ks"
  define r0 where "r0 = fold (check_referenced fs) ?refs \<lparr>rr_scanned = 0, rr_referenced = int (length ?refs),
      rr_orphan_candidates = 0, rr_deleted = [], rr_missing_referenced = [], rr_skipped_young = [],
      rr_errors = []\<rparr>"
  have sc: "\<forall>p\<in>set (scanned_paths fs). scannable p"
    using assms by (auto simp: scanned_paths_def scannable_def plain_tree_def)
  have posix: "as_posix p \<noteq> []" if "p \<in> set (scanned_paths fs)" for p
    using sc that resolve_as_posix [of p] by (auto simp: scannable_def resolve_def split: if_splits)
  have in_refs: "as_posix p \<in> set ?refs \<longleftrightarrow> Some (as_posix p) \<in> set ks"
    if "p \<in> set (scanned_paths fs)" for p
    using posix that by simp
  obtain r1 fs1 where f: "fold (scan_key ?refs g clock del) (map as_posix (scanned_paths fs)) (Inr r0, fs) = (Inr r1, fs1)"
      "rr_missing_referenced r1 = rr_missing_referenced r0"
      "\<And>q. map_of fs1 q = map_of fs q \<or> map_of fs1 q = None \<and> del \<and>
        (\<exists>p\<in>set (scanned_paths fs). (q = p \<or> q = sidecar p) \<and> as_posix p \<notin> set ?refs \<and> old_file clock g fs p)"
      "del \<longrightarrow> (\<forall>p\<in>set (scanned_paths fs). as_posix p \<notin> set ?refs \<and> map_of fs1 p \<noteq> None \<longrightarrow> \<not> old_file clock g fs p)"
    using scan_fold [OF sc, of ?refs g clock del r0 fs] by blast
  obtain nms fs2 where c: "cleanup_incoming clock g fs1 = (nms, fs2)" by force
  define fs' where "fs' = (if del then fs2 else fs1)"
  have keep: "map_of fs' q = map_of fs1 q" if "hd q \<noteq> ''.incoming''" for q
    using cleanup_fold [OF that, of clock g "incoming_names fs1" "([], fs1)"] c
    by (simp add: fs'_def cleanup_incoming_def)
  have sub: "hd p \<noteq> ''.incoming''" if "p \<in> set (scanned_paths fs)" for p
    using that by (auto simp: scanned_paths_def strict_prefix_def prefix_def)
  have miss: "set (rr_missing_referenced r0) = {k. Some k \<in> set ks \<and> k \<noteq> [] \<and> blob_exists k fs = Inr False}"
    unfolding r0_def check_referenced_fold by auto
  have run: "reconcile_orphans ks ''submissions/'' g clock del fs =
      (Inr (if del then r1\<lparr>rr_deleted := rr_deleted r1 @ map (\<lambda>n. ''.incoming/'' @ n) nms\<rparr> else r1), fs')"
    unfolding reconcile_orphans_def refs_of_def [symmetric] Let_def r0_def [symmetric] iter_submissions
    by (simp add: f(1) c fs'_def)
  have sound: "map_of fs' q = map_of fs q \<or> map_of fs' q = None \<and> del \<and>
      (\<exists>p. p \<in> set (scanned_paths fs) \<and> (q = p \<or> q = sidecar p) \<and> Some (as_posix p) \<notin> set ks \<and> old_file clock g fs p)"
    if "hd q \<noteq> ''.incoming''" for q
    using f(3) [of q] keep [OF that] in_refs by auto
  have compl: "\<not> old_file clock g fs p"
    if "del" "p \<in> set (scanned_paths fs)" "Some (as_posix p) \<notin> set ks" "map_of fs' p \<noteq> None" for p
    using f(4) that keep [OF sub [OF that(2)]] in_refs [OF that(2)] by auto
  show ?thesis
    by (intro exI conjI, rule run) (use miss f(2) sound compl in auto)
qed



text \<open>
  A referenced blob can be deleted when its key is not normal. The file name extension a
  client sends is copied into the key; with \<open>x.pdf/\<close> the key ends in a slash, the blob is stored
  and read under it, but the storage lists it without the slash, so the reconciliation takes it
  for an orphan and deletes it once the grace period is over.
\<close>

theorem reconcile_deletes_referenced:
  "let key = ''submissions/c/p/u.pdf/'';
       (stored, fs) = put 0 key ''body'' ''application/pdf'' [];
       (report, fs') = reconcile_orphans [Some key] ''submissions/'' 60 100 True fs
   in stored = Inr key \<and> get_blob key fs = Inr ''body'' \<and>
      get_blob key fs' = Inl FileNotFoundError \<and>
      map_sum id rr_deleted report = Inr [''submissions/c/p/u.pdf'']"
  by code_simp

end
