(* ===== verification/Keys.thy ===== *)
theory Keys
  imports Storage
begin

text \<open>
  The text of identifiers inside storage keys: \<open>str(uuid)\<close> is injective on 128-bit numbers and has
  only hexadecimal digits and dashes, so keys built from different identifiers are different
  paths, apart from each other in the store.
\<close>

definition uuid_ok :: "uuid \<Rightarrow> bool" where
  "uuid_ok i \<longleftrightarrow> i < 2 ^ 128"

lemma length_hex_of [simp]: "length (hex_of k n) = k"
  by (induction k arbitrary: n) simp_all

lemma hex_digit_inj: "hex_digit a = hex_digit b \<Longrightarrow> a mod 16 = b mod 16"
proof -
  assume "hex_digit a = hex_digit b"
  moreover have "distinct ''0123456789abcdef''" "length ''0123456789abcdef'' = 16" by simp_all
  moreover have "a mod 16 < 16" "b mod 16 < 16" by simp_all
  ultimately show ?thesis unfolding hex_digit_def using nth_eq_iff_index_eq by metis
qed

lemma hex_digit_in: "hex_digit a \<in> set ''0123456789abcdef''"
  unfolding hex_digit_def by (rule nth_mem) simp

lemma hex_of_set: "set (hex_of k n) \<subseteq> set ''0123456789abcdef''"
proof -
  have "set (hex_of k n) \<subseteq> D" if "\<And>a. hex_digit a \<in> D" for D
    using that by (induction k arbitrary: n) auto
  then show ?thesis using hex_digit_in by blast
qed

lemma hex_of_inj: "n < 16 ^ k \<Longrightarrow> m < 16 ^ k \<Longrightarrow> hex_of k n = hex_of k m \<Longrightarrow> n = m"
proof (induction k arbitrary: n m)
  case (Suc k)
  then have "hex_of k (n div 16) = hex_of k (m div 16)" "n mod 16 = m mod 16"
    by (auto dest: hex_digit_inj)
  moreover have "n div 16 < 16 ^ k" "m div 16 < 16 ^ k" using Suc.prems by (auto simp: less_mult_imp_div_less mult.commute)
  ultimately have "n div 16 = m div 16" "n mod 16 = m mod 16" using Suc.IH by blast+
  then show ?case by (metis div_mult_mod_eq)
qed simp

lemma uuid_str_pieces:
  assumes "length h = 32" and "length g = 32"
    and "take 8 h @ ''-'' @ take 4 (drop 8 h) @ ''-'' @ take 4 (drop 12 h) @ ''-'' @ take 4 (drop 16 h) @ ''-'' @ drop 20 h =
      take 8 g @ ''-'' @ take 4 (drop 8 g) @ ''-'' @ take 4 (drop 12 g) @ ''-'' @ take 4 (drop 16 g) @ ''-'' @ drop 20 g"
  shows "h = g"
proof -
  have e: "take 8 h = take 8 g" "take 4 (drop 8 h) = take 4 (drop 8 g)" "take 4 (drop 12 h) = take 4 (drop 12 g)"
      "take 4 (drop 16 h) = take 4 (drop 16 g)" "drop 20 h = drop 20 g"
    using assms by simp_all
  have split: "x = take 8 x @ take 4 (drop 8 x) @ take 4 (drop 12 x) @ take 4 (drop 16 x) @ drop 20 x"
    for x :: string
  proof -
    have "drop 8 x = take 4 (drop 8 x) @ drop 12 x" "drop 12 x = take 4 (drop 12 x) @ drop 16 x"
      "drop 16 x = take 4 (drop 16 x) @ drop 20 x"
      using append_take_drop_id [of 4 "drop 8 x"] append_take_drop_id [of 4 "drop 12 x"]
        append_take_drop_id [of 4 "drop 16 x"] by simp_all
    then show ?thesis by (metis append_take_drop_id)
  qed
  have "h = take 8 h @ take 4 (drop 8 h) @ take 4 (drop 12 h) @ take 4 (drop 16 h) @ drop 20 h" by (rule split)
  also have "\<dots> = take 8 g @ take 4 (drop 8 g) @ take 4 (drop 12 g) @ take 4 (drop 16 g) @ drop 20 g"
    by (simp only: e)
  also have "\<dots> = g" by (rule split [symmetric])
  finally show ?thesis .
qed

lemma uuid_str_inj: "uuid_ok i \<Longrightarrow> uuid_ok k \<Longrightarrow> uuid_str i = uuid_str k \<longleftrightarrow> i = k"
proof
  assume ok: "uuid_ok i" "uuid_ok k" and e: "uuid_str i = uuid_str k"
  have "hex_of 32 i = hex_of 32 k"
    by (rule uuid_str_pieces [OF length_hex_of length_hex_of e [unfolded uuid_str_def Let_def]])
  then show "i = k" using ok hex_of_inj [of i 32 k] by (simp only: uuid_ok_def) simp
qed simp

lemma uuid_str_set: "set (uuid_str i) \<subseteq> set ''-0123456789abcdef''"
proof -
  have "set (take a (drop b (hex_of 32 i))) \<subseteq> set ''-0123456789abcdef''" for a b
    using hex_of_set [of 32 i] by (auto dest!: in_set_takeD in_set_dropD subsetD)
  note t = this this [of _ 0, simplified]
  have "set (drop 20 (hex_of 32 i)) \<subseteq> set ''-0123456789abcdef''"
    using hex_of_set [of 32 i] by (auto dest!: in_set_dropD subsetD)
  with t show ?thesis unfolding uuid_str_def Let_def by simp
qed

lemma uuid_str_length [simp]: "length (uuid_str i) = 36"
  by (simp add: uuid_str_def Let_def)

lemma uuid_str_plain: "CHR ''/'' \<notin> set (uuid_str i) \<and> uuid_str i \<noteq> [] \<and> uuid_str i \<noteq> ''.'' \<and> uuid_str i \<noteq> ''..''"
proof -
  have "CHR ''/'' \<notin> set (uuid_str i)" using uuid_str_set [of i] by auto
  moreover have "uuid_str i \<noteq> s" if "length s < 36" for s using that by auto
  ultimately show ?thesis by simp
qed

end
