(* ===== verification/Request_Identity.thy ===== *)
theory Request_Identity
  imports Catalog Keys
begin

text \<open>
  Who makes a request, and how a request fails: \<open>get_current_user\<close> of \<open>api/deps.py\<close>, the development users of
  \<open>identity/__init__.py\<close> and \<open>persistence/seed.py\<close>, and the error bodies of \<open>api/errors.py\<close>. Header values
  are Latin-1 text, so a character is 8 bits wide.
\<close>

section \<open>Reading a UUID\<close>

text \<open>The standard library: \<open>str.replace\<close> with nothing, \<open>int(s, 16)\<close> and \<open>uuid.UUID(s)\<close>.\<close>

function remove_sub :: "string \<Rightarrow> string \<Rightarrow> string" where
  "remove_sub w [] = []"
| "remove_sub w (c # s) =
     (if starts_with w (c # s) then remove_sub w (drop (length w - 1) s) else c # remove_sub w s)"
  by pat_completeness auto
termination by (relation "measure (\<lambda>(w, s). length s)") auto

definition hex_value :: "char \<Rightarrow> nat option" where
  "hex_value c =
     (let n = of_char c
      in if 48 \<le> n \<and> n \<le> 57 then Some (n - 48)
         else if 97 \<le> n \<and> n \<le> 102 then Some (n - 87)
         else if 65 \<le> n \<and> n \<le> 70 then Some (n - 55) else None)"

text \<open>Digits with single underscores between them; the flag says that a digit came last.\<close>

fun read_hex :: "bool \<Rightarrow> nat \<Rightarrow> string \<Rightarrow> nat option" where
  "read_hex digit n [] = (if digit then Some n else None)"
| "read_hex digit n (c # s) =
     (if c = CHR ''_'' then (if digit then read_hex False n s else None)
      else (case hex_value c of None \<Rightarrow> None | Some v \<Rightarrow> read_hex True (16 * n + v) s))"

definition latin1_space :: "char \<Rightarrow> bool" where
  "latin1_space c \<longleftrightarrow> is_space c \<or> of_char c \<in> {133, 160 :: nat}"

definition hex_int :: "string \<Rightarrow> nat option" where
  "hex_int s =
     (let s = strip_by latin1_space s;
          s = (case s of c # t \<Rightarrow> if c = CHR ''+'' then t else s | [] \<Rightarrow> s)
      in if starts_with ''0x'' s \<or> starts_with ''0X'' s
         then (case drop 2 s of c # t \<Rightarrow> if c = CHR ''_'' then read_hex False 0 t else read_hex False 0 (c # t)
               | [] \<Rightarrow> None)
         else read_hex False 0 s)"

text \<open>A dash is removed before the number is read, so there is no sign but \<open>+\<close>.\<close>

definition parse_uuid :: "string \<Rightarrow> uuid option" where
  "parse_uuid s =
     (let h = filter (\<lambda>c. c \<noteq> CHR ''-'')
            (strip_by (\<lambda>c. c = CHR ''{'' \<or> c = CHR ''}'') (remove_sub ''uuid:'' (remove_sub ''urn:'' s)))
      in if length h \<noteq> 32 then None else hex_int h)"

section \<open>The current user\<close>

definition get_current_user :: "string option \<Rightarrow> string option \<Rightarrow> catalog \<Rightarrow> exn + current_user" where
  "get_current_user x_user_id cookie c =
     (case (if x_user_id = None \<or> x_user_id = Some [] then cookie else x_user_id) of
        None \<Rightarrow> Inl (Unauthenticated ''Missing development identity. Send X-User-Id.'')
      | Some raw \<Rightarrow>
          if raw = [] then Inl (Unauthenticated ''Missing development identity. Send X-User-Id.'')
          else (case parse_uuid raw of
                  None \<Rightarrow> Inl (Unauthenticated ''Invalid X-User-Id.'')
                | Some i \<Rightarrow>
                    (case user_get i c of
                       None \<Rightarrow> Inl (Unauthenticated ''Unknown development user.'')
                     | Some u \<Rightarrow> Inr (from_user u))))"

definition ORGANIZER_ID :: uuid where "ORGANIZER_ID = 0x11111111111141118111111111111111"
definition PARTICIPANT_ID :: uuid where "PARTICIPANT_ID = 0x22222222222242228222222222222222"
definition PARTICIPANT_2_ID :: uuid where "PARTICIPANT_2_ID = 0x33333333333343338333333333333333"

definition SEEDED_USERS :: "(uuid \<times> string \<times> user_role) list" where
  "SEEDED_USERS = [(ORGANIZER_ID, ''Ada Organizer'', ORGANIZER), (PARTICIPANT_ID, ''Pat Participant'', PARTICIPANT),
     (PARTICIPANT_2_ID, ''Riley Participant'', PARTICIPANT)]"

definition new_user_row :: "datetime \<Rightarrow> uuid \<Rightarrow> string \<Rightarrow> user_role \<Rightarrow> user" where
  "new_user_row now i nm role = \<lparr>u_id = i, u_name = nm, u_role = role, u_created_at = now\<rparr>"

definition seed_user :: "datetime \<Rightarrow> uuid \<times> string \<times> user_role \<Rightarrow> catalog \<Rightarrow> catalog" where
  "seed_user now x c =
     (case x of (i, nm, role) \<Rightarrow>
        if user_get i c = None then c\<lparr>ct_users := ct_users c @ [new_user_row now i nm role]\<rparr> else c)"

definition seed_dev_users :: "datetime \<Rightarrow> catalog \<Rightarrow> catalog" where
  "seed_dev_users now c = fold (seed_user now) SEEDED_USERS c"

definition list_all_users :: "catalog \<Rightarrow> user list" where
  "list_all_users c = sort_key u_name (ct_users c)"

section \<open>Error bodies\<close>

record error_report =
  ep_code :: string
  ep_message :: string
  ep_request_id :: string

text \<open>
  The code and the message of an exception: those of a \<open>DomainError\<close> for the client, and nothing of any other.
\<close>

fun error_code :: "exn \<Rightarrow> string" where
  "error_code (DomainError m) = ''domain_error''"
| "error_code (NotFoundError m) = ''not_found''"
| "error_code (PermissionDenied m) = ''permission_denied''"
| "error_code (ValidationFailed m) = ''validation_failed''"
| "error_code (InvalidStateTransition m) = ''invalid_state_transition''"
| "error_code (ConflictError m) = ''conflict''"
| "error_code (Unauthenticated m) = ''unauthenticated''"
| "error_code _ = ''internal_error''"

fun error_message :: "exn \<Rightarrow> string" where
  "error_message (DomainError m) = m"
| "error_message (NotFoundError m) = m"
| "error_message (PermissionDenied m) = m"
| "error_message (ValidationFailed m) = m"
| "error_message (InvalidStateTransition m) = m"
| "error_message (ConflictError m) = m"
| "error_message (Unauthenticated m) = m"
| "error_message _ = ''An unexpected error occurred.''"

definition error_body :: "string \<Rightarrow> string \<Rightarrow> string \<Rightarrow> error_report" where
  "error_body request_id code message = \<lparr>ep_code = code, ep_message = message, ep_request_id = request_id\<rparr>"

section \<open>Identities are read back\<close>

lemma remove_sub_absent:
  assumes "w \<noteq> []" and "hd w \<notin> set s"
  shows "remove_sub w s = s"
  using assms
proof (induction s)
  case (Cons c s)
  have "\<not> starts_with w (c # s)"
    using Cons.prems by (cases w) (auto simp: starts_with_def)
  then show ?case using Cons by simp
qed simp

lemma strip_by_none:
  assumes "\<forall>c\<in>set s. \<not> p c"
  shows "strip_by p s = s"
proof -
  have "dropWhile p xs = xs" if "\<forall>c\<in>set xs. \<not> p c" for xs using that by (cases xs) auto
  note d = this
  have "dropWhile p s = s" "dropWhile p (rev s) = rev s" using assms by (auto intro!: d)
  then show ?thesis by (simp add: strip_by_def rstrip_by_def)
qed

lemma hex_digit_value: "hex_value (hex_digit n) = Some (n mod 16) \<and> hex_digit n \<noteq> CHR ''_''"
proof -
  have "\<forall>k\<in>set [0..<16]. hex_value (''0123456789abcdef'' ! k) = Some k \<and> ''0123456789abcdef'' ! k \<noteq> CHR ''_''"
    by code_simp
  then show ?thesis by (simp add: hex_digit_def)
qed

lemma read_hex_snoc:
  "set s \<subseteq> range hex_digit \<Longrightarrow> read_hex d n (s @ [hex_digit x]) = map_option (\<lambda>m. 16 * m + x mod 16) (read_hex True n s)"
  by (induction s arbitrary: d n) (auto simp: hex_digit_value)

lemma hex_of_range: "set (hex_of k m) \<subseteq> range hex_digit"
  by (induction k arbitrary: m) auto

lemma read_hex_of: "m < 16 ^ k \<Longrightarrow> read_hex True n (hex_of k m) = Some (n * 16 ^ k + m)"
proof (induction k arbitrary: m)
  case (Suc k)
  then have "m div 16 < 16 ^ k" by (simp add: less_mult_imp_div_less mult.commute)
  then show ?case using Suc.IH [of "m div 16"] by (simp add: read_hex_snoc hex_of_range algebra_simps)
qed simp

lemma read_uuid_digits:
  assumes "uuid_ok u"
  shows "read_hex False 0 (hex_of 32 u) = Some u"
proof -
  have "u div 16 < 16 ^ 31" using assms by (simp add: uuid_ok_def)
  then have "read_hex True 0 (hex_of 31 (u div 16)) = Some (u div 16)" using read_hex_of [of "u div 16" 31 0] by simp
  moreover have "hex_of 32 u = hex_of 31 (u div 16) @ [hex_digit u]"
    using hex_of.simps(2) [of 31 u] by (simp del: hex_of.simps)
  ultimately show ?thesis by (simp only: read_hex_snoc hex_of_range) simp
qed

lemma uuid_digits_joined:
  "take 8 h @ take 4 (drop 8 h) @ take 4 (drop 12 h) @ take 4 (drop 16 h) @ drop 20 h = (h :: string)"
proof -
  have "take 4 (drop 8 h) @ drop 12 h = drop 8 h" "take 4 (drop 12 h) @ drop 16 h = drop 12 h"
      "take 4 (drop 16 h) @ drop 20 h = drop 16 h"
    using append_take_drop_id [of 4 "drop 8 h"] append_take_drop_id [of 4 "drop 12 h"]
      append_take_drop_id [of 4 "drop 16 h"] by simp_all
  then show ?thesis by simp
qed

lemma parse_uuid_str:
  assumes "uuid_ok u"
  shows "parse_uuid (uuid_str u) = Some u"
proof -
  let ?h = "hex_of 32 u"
  have hex: "c \<in> set ''0123456789abcdef''" if "c \<in> set ?h" for c using that hex_of_set [of 32 u] by blast
  have plain: "c \<in> set ''-0123456789abcdef''" if "c \<in> set (uuid_str u)" for c using that uuid_str_set by blast
  have "remove_sub ''uuid:'' (remove_sub ''urn:'' (uuid_str u)) = uuid_str u"
  proof -
    have "CHR ''u'' \<notin> set (uuid_str u)" using plain [of "CHR ''u''"] by auto
    then show ?thesis by (simp add: remove_sub_absent)
  qed
  moreover have "strip_by (\<lambda>c. c = CHR ''{'' \<or> c = CHR ''}'') (uuid_str u) = uuid_str u"
    using plain by (intro strip_by_none) fastforce
  moreover have "filter (\<lambda>c. c \<noteq> CHR ''-'') (uuid_str u) = ?h"
  proof -
    have d: "filter (\<lambda>c. c \<noteq> CHR ''-'') s = s" if "set s \<subseteq> set ?h" for s
      using that hex by (fastforce simp: filter_id_conv)
    have "set (take a (drop b ?h)) \<subseteq> set ?h" "set (take a ?h) \<subseteq> set ?h" "set (drop b ?h) \<subseteq> set ?h" for a b
      by (auto dest: in_set_takeD in_set_dropD)
    note t = this [THEN d]
    show ?thesis unfolding uuid_str_def Let_def filter_append t using uuid_digits_joined [of ?h] by simp
  qed
  moreover have "hex_int ?h = Some u"
  proof -
    have "strip_by latin1_space ?h = ?h"
      using hex by (intro strip_by_none) (fastforce simp: latin1_space_def is_space_def)
    moreover have "CHR ''+'' \<notin> set ?h" "CHR ''x'' \<notin> set ?h" "CHR ''X'' \<notin> set ?h" using hex by fastforce+
    moreover have "\<not> starts_with ''0x'' ?h" "\<not> starts_with ''0X'' ?h"
    proof -
      have "set (take (Suc (Suc 0)) ?h) \<subseteq> set ?h" by (rule set_take_subset)
      then show "\<not> starts_with ''0x'' ?h" "\<not> starts_with ''0X'' ?h"
        using calculation(3,4) by (auto simp: starts_with_def)
    qed
    ultimately show ?thesis
      unfolding hex_int_def Let_def using read_uuid_digits [OF assms] by (cases ?h) auto
  qed
  ultimately show ?thesis by (simp add: parse_uuid_def)
qed

lemma get_current_user_Inr:
  assumes "get_current_user x_user_id cookie c = Inr actor"
  shows "\<exists>u\<in>set (ct_users c). actor = from_user u \<and>
    (\<exists>raw. Some raw \<in> {x_user_id, cookie} \<and> parse_uuid raw = Some (u_id u))"
  using assms by (fastforce simp: get_current_user_def user_get_def dest!: find_SomeD split: option.splits if_splits)

text \<open>
  The identifier of a user, as the API writes it, identifies that user again, in the header and in the
  cookie; and whoever is identified is a row of the table whose identifier was sent.
\<close>

theorem identity_roundtrip:
  assumes "uuid_ok (u_id u)" and "user_get (u_id u) c = Some u"
  shows "parse_uuid (uuid_str (u_id u)) = Some (u_id u) \<and>
    get_current_user (Some (uuid_str (u_id u))) cookie c = Inr (from_user u) \<and>
    get_current_user None (Some (uuid_str (u_id u))) c = Inr (from_user u) \<and>
    (get_current_user x_user_id cookie c = Inr actor \<longrightarrow> (\<exists>v\<in>set (ct_users c). actor = from_user v \<and>
       (\<exists>raw. Some raw \<in> {x_user_id, cookie} \<and> parse_uuid raw = Some (u_id v))))"
proof -
  have "uuid_str (u_id u) \<noteq> []" using uuid_str_plain by blast
  then show ?thesis
    using get_current_user_Inr [of x_user_id cookie c actor] parse_uuid_str [OF assms(1)] assms(2)
    by (auto simp: get_current_user_def)
qed

section \<open>Seeding\<close>

lemma user_get_seed:
  "user_get j (seed_user now (i, nm, role) c) =
     (if user_get j c = None \<and> j = i then Some (new_user_row now i nm role) else user_get j c)"
proof -
  have "find P (xs @ ys) = (case find P xs of Some u \<Rightarrow> Some u | None \<Rightarrow> find P ys)" for P and xs ys :: "user list"
    by (induction xs) auto
  then show ?thesis by (auto simp: seed_user_def user_get_def new_user_row_def split: option.splits)
qed

lemma seed_user_extends: "\<exists>us. seed_user now x c = c\<lparr>ct_users := ct_users c @ us\<rparr>"
  by (cases x) (auto simp: seed_user_def intro: exI [of _ "[]"])

lemma seeds_extend: "\<exists>us. fold (seed_user now) xs c = c\<lparr>ct_users := ct_users c @ us\<rparr>"
proof (induction xs arbitrary: c)
  case Nil
  then show ?case by (auto intro: exI [of _ "[]"])
next
  case (Cons x xs)
  obtain us where us: "seed_user now x c = c\<lparr>ct_users := ct_users c @ us\<rparr>" using seed_user_extends by blast
  obtain vs where "fold (seed_user now) xs (seed_user now x c) = (seed_user now x c)\<lparr>ct_users := ct_users (seed_user now x c) @ vs\<rparr>"
    using Cons.IH by blast
  then show ?case using us by auto
qed

lemma seeds_present: "\<forall>(i, nm, role)\<in>set xs. user_get i c \<noteq> None \<Longrightarrow> fold (seed_user now) xs c = c"
  by (induction xs) (auto simp: seed_user_def)

text \<open>
  Seeding adds the development users that are missing, keeps every user it finds as it is, and
  changes nothing the second time the application starts.
\<close>

theorem seeding_idempotent:
  "seed_dev_users later (seed_dev_users now c) = seed_dev_users now c \<and>
   (\<exists>us. seed_dev_users now c = c\<lparr>ct_users := ct_users c @ us\<rparr>) \<and>
   (\<forall>(i, nm, role)\<in>set SEEDED_USERS. user_get i (seed_dev_users now c) =
      (case user_get i c of Some u \<Rightarrow> Some u | None \<Rightarrow> Some (new_user_row now i nm role)))"
proof -
  have got: "\<forall>(i, nm, role)\<in>set SEEDED_USERS. user_get i (seed_dev_users now c) =
      (case user_get i c of Some u \<Rightarrow> Some u | None \<Rightarrow> Some (new_user_row now i nm role))"
    by (simp add: seed_dev_users_def SEEDED_USERS_def user_get_seed ORGANIZER_ID_def PARTICIPANT_ID_def
        PARTICIPANT_2_ID_def split: option.splits)
  then have "\<forall>(i, nm, role)\<in>set SEEDED_USERS. user_get i (seed_dev_users now c) \<noteq> None"
    by (auto split: option.splits)
  then have "seed_dev_users later (seed_dev_users now c) = seed_dev_users now c"
    unfolding seed_dev_users_def by (rule seeds_present)
  moreover have "\<exists>us. seed_dev_users now c = c\<lparr>ct_users := ct_users c @ us\<rparr>"
    unfolding seed_dev_users_def by (rule seeds_extend)
  ultimately show ?thesis using got by blast
qed

theorem identity_roundtrip_witness:
  "get_current_user (Some (uuid_str ORGANIZER_ID)) None (seed_dev_users 0 \<lparr>ct_users = [], ct_hackathons = [], ct_challenges = []\<rparr>) =
    Inr \<lparr>cu_id = ORGANIZER_ID, cu_name = ''Ada Organizer'', cu_role = ORGANIZER\<rparr>"
proof -
  let ?c = "seed_dev_users 0 \<lparr>ct_users = [], ct_hackathons = [], ct_challenges = []\<rparr>"
  let ?u = "new_user_row 0 ORGANIZER_ID ''Ada Organizer'' ORGANIZER"
  have "uuid_ok (u_id ?u)" by (simp add: new_user_row_def uuid_ok_def ORGANIZER_ID_def)
  moreover have "user_get (u_id ?u) ?c = Some ?u"
    by (simp add: seed_dev_users_def SEEDED_USERS_def seed_user_def user_get_def new_user_row_def ORGANIZER_ID_def
        PARTICIPANT_ID_def PARTICIPANT_2_ID_def)
  ultimately have "get_current_user (Some (uuid_str (u_id ?u))) None ?c = Inr (from_user ?u)"
    using identity_roundtrip [of ?u ?c None None undefined] by blast
  then show ?thesis by (simp add: new_user_row_def from_user_def)
qed

end
