(* ===== verification/Resource_Control.thy ===== *)
theory Resource_Control
  imports Config
begin

text \<open>
  The resource side of \<^verbatim>\<open>src/src/challengeforge/runtime/\<close>: budgets (\<^verbatim>\<open>budgets.py\<close>), the process
  observer (\<^verbatim>\<open>observer.py\<close>), the pressure classifier (\<^verbatim>\<open>pressure.py\<close>) and the adaptive
  concurrency controller (\<^verbatim>\<open>controller.py\<close>). Clock readings and psutil readings are arguments.

  The locale \<open>paced_controller\<close> is the contract of a controller that logs its changes and keeps
  a cooldown between them; the concurrency controller is interpreted here, the interactive
  feedback controller in \<open>Interactive_Signal\<close>.
\<close>

section \<open>Budgets\<close>

record budget =
  min_evaluation_concurrency :: int
  max_evaluation_concurrency :: int
  max_concurrent_heavy :: int
  max_queued_evaluations_soft :: int
  max_queued_evaluations_hard :: int
  cpu_low_percent :: real
  cpu_high_percent :: real
  memory_soft_mb :: real
  memory_hard_mb :: real
  adjust_cooldown_seconds :: real
  interactive_p95_warn_ms :: real
  interactive_p95_critical_ms :: real
  interactive_p95_recovery_ms :: real
  interactive_min_samples :: int
  interactive_sustain_seconds :: real
  interactive_critical_hold_all :: bool

definition from_settings :: "settings \<Rightarrow> budget" where
  "from_settings s =
     (let max_conc = max 1 (evaluation_max_workers s);
          min_conc = max 1 (min (evaluation_min_workers s) max_conc)
      in \<lparr> min_evaluation_concurrency = min_conc,
           max_evaluation_concurrency = max_conc,
           max_concurrent_heavy = max 0 (min (evaluation_max_concurrent_heavy s) max_conc),
           max_queued_evaluations_soft = evaluation_busy_queue_depth s,
           max_queued_evaluations_hard = evaluation_saturated_queue_depth s,
           cpu_low_percent = resource_cpu_low_percent s,
           cpu_high_percent = resource_cpu_high_percent s,
           memory_soft_mb = resource_memory_soft_mb s,
           memory_hard_mb = resource_memory_hard_mb s,
           adjust_cooldown_seconds = resource_adjust_cooldown_seconds s,
           interactive_p95_warn_ms = resource_interactive_p95_warn_ms s,
           interactive_p95_critical_ms = resource_interactive_p95_critical_ms s,
           interactive_p95_recovery_ms = resource_interactive_p95_recovery_ms s,
           interactive_min_samples = resource_interactive_min_samples s,
           interactive_sustain_seconds = resource_interactive_sustain_seconds s,
           interactive_critical_hold_all = resource_interactive_critical_hold_all s \<rparr>)"

definition clamp_concurrency :: "budget \<Rightarrow> int \<Rightarrow> int" where
  "clamp_concurrency b value =
     max (min_evaluation_concurrency b) (min (max_evaluation_concurrency b) value)"

definition budget_ok :: "budget \<Rightarrow> bool" where
  "budget_ok b \<longleftrightarrow> 1 \<le> min_evaluation_concurrency b \<and>
     min_evaluation_concurrency b \<le> max_evaluation_concurrency b \<and>
     0 \<le> max_concurrent_heavy b \<and> max_concurrent_heavy b \<le> max_evaluation_concurrency b"

lemma budget_ok_from_settings [simp]: "budget_ok (from_settings s)"
  by (auto simp: budget_ok_def from_settings_def Let_def)

lemma clamp_concurrency_bounds:
  "budget_ok b \<Longrightarrow> min_evaluation_concurrency b \<le> clamp_concurrency b v \<and>
     clamp_concurrency b v \<le> max_evaluation_concurrency b"
  by (auto simp: clamp_concurrency_def budget_ok_def)

lemma clamp_concurrency_id:
  "min_evaluation_concurrency b \<le> v \<Longrightarrow> v \<le> max_evaluation_concurrency b \<Longrightarrow> clamp_concurrency b v = v"
  by (auto simp: clamp_concurrency_def)

section \<open>Observation\<close>

record snapshot =
  cpu_percent :: "real option"
  rss_mb :: "real option"
  queued_evaluations :: int
  running_evaluations :: int
  interactive_p95 :: "real option"

text \<open>
  \<open>ResourceObserver.sample\<close>. The psutil readings are arguments: the CPU percentage (\<open>None\<close> when
  the import, the process handle or the reading raises) and the resident set in bytes (\<open>None\<close>
  when that reading raises). The state is the \<open>_primed\<close> flag. The \<open>sampled_at\<close> stamp is not
  read by any code and is left out.
\<close>

definition observer_sample ::
  "bool \<Rightarrow> real option \<Rightarrow> real option \<Rightarrow> int \<Rightarrow> int \<Rightarrow> real option \<Rightarrow> bool \<times> snapshot" where
  "observer_sample primed measured rss_bytes queued running p95 =
     (let primed' = (primed \<or> measured \<noteq> None);
          readings = (case (measured, rss_bytes) of
             (Some m, Some r) \<Rightarrow>
               (Some (if primed then m else 0), Some (py_round 2 (r / (1024 * 1024))))
           | _ \<Rightarrow> (None, None))
      in (primed', \<lparr> cpu_percent = fst readings, rss_mb = snd readings,
            queued_evaluations = max 0 queued, running_evaluations = max 0 running,
            interactive_p95 = p95 \<rparr>))"

section \<open>Pressure\<close>

datatype pressure_state = NORMAL | PRESSURED | DEGRADED

fun pressure_value :: "pressure_state \<Rightarrow> string" where
  "pressure_value NORMAL = ''normal''"
| "pressure_value PRESSURED = ''pressured''"
| "pressure_value DEGRADED = ''degraded''"

definition pressure_state_of :: "string \<Rightarrow> pressure_state option" where
  "pressure_state_of s =
     (if s = ''normal'' then Some NORMAL
      else if s = ''pressured'' then Some PRESSURED
      else if s = ''degraded'' then Some DEGRADED
      else None)"

lemma pressure_state_of_value [simp]: "pressure_state_of (pressure_value p) = Some p"
  by (cases p) (simp_all add: pressure_state_of_def)

text \<open>The severity order (the dict \<open>order\<close> of \<open>merge_pressure\<close>) as the type's linear order.\<close>

fun pressure_rank :: "pressure_state \<Rightarrow> nat" where
  "pressure_rank NORMAL = 0"
| "pressure_rank PRESSURED = 1"
| "pressure_rank DEGRADED = 2"

lemma pressure_rank_inject: "pressure_rank p = pressure_rank q \<longleftrightarrow> p = q"
  by (cases p; cases q) simp_all

instantiation pressure_state :: linorder
begin

definition less_eq_pressure_state :: "pressure_state \<Rightarrow> pressure_state \<Rightarrow> bool" where
  "less_eq_pressure_state p q \<longleftrightarrow> pressure_rank p \<le> pressure_rank q"

definition less_pressure_state :: "pressure_state \<Rightarrow> pressure_state \<Rightarrow> bool" where
  "less_pressure_state p q \<longleftrightarrow> pressure_rank p < pressure_rank q"

instance
  by standard
    (auto simp: less_eq_pressure_state_def less_pressure_state_def pressure_rank_inject)

end

lemma pressure_le_simps [simp]:
  "NORMAL \<le> p" "p \<le> DEGRADED" "PRESSURED \<le> NORMAL \<longleftrightarrow> False" "DEGRADED \<le> NORMAL \<longleftrightarrow> False"
  "DEGRADED \<le> PRESSURED \<longleftrightarrow> False"
  by (cases p; simp add: less_eq_pressure_state_def)+

definition at_least :: "real option \<Rightarrow> real \<Rightarrow> bool" where
  "at_least v limit = (case v of None \<Rightarrow> False | Some x \<Rightarrow> x \<ge> limit)"

definition classify :: "snapshot \<Rightarrow> budget \<Rightarrow> pressure_state" where
  "classify sn b =
     (let cpu = cpu_percent sn; rss = rss_mb sn; queued = queued_evaluations sn;
          interactive = interactive_p95 sn;
          hard_cpu = at_least cpu (cpu_high_percent b);
          hard_mem = at_least rss (memory_hard_mb b);
          hard_queue = (queued \<ge> max_queued_evaluations_hard b);
          hard_interactive = (interactive_p95_critical_ms b > 0 \<and>
            at_least interactive (interactive_p95_critical_ms b))
      in if hard_cpu \<or> hard_mem \<or> hard_queue \<or> hard_interactive then DEGRADED
         else let soft_cpu = at_least cpu ((cpu_low_percent b + cpu_high_percent b) / 2);
                  soft_mem = at_least rss (memory_soft_mb b);
                  soft_queue = (queued \<ge> max_queued_evaluations_soft b);
                  soft_interactive = (interactive_p95_warn_ms b > 0 \<and>
                    at_least interactive (interactive_p95_warn_ms b))
              in if soft_cpu \<or> soft_mem \<or> soft_queue \<or> soft_interactive then PRESSURED
                 else NORMAL)"

text \<open>One observation is no better than another: every reading is at least as high.\<close>

fun opt_le :: "real option \<Rightarrow> real option \<Rightarrow> bool" where
  "opt_le None _ = True"
| "opt_le (Some x) None = False"
| "opt_le (Some x) (Some y) = (x \<le> y)"

definition snapshot_le :: "snapshot \<Rightarrow> snapshot \<Rightarrow> bool" where
  "snapshot_le s t \<longleftrightarrow> opt_le (cpu_percent s) (cpu_percent t) \<and> opt_le (rss_mb s) (rss_mb t) \<and>
     queued_evaluations s \<le> queued_evaluations t \<and> opt_le (interactive_p95 s) (interactive_p95 t)"

lemma at_least_mono: "opt_le v w \<Longrightarrow> at_least v x \<Longrightarrow> at_least w x"
  by (cases v; cases w) (auto simp: at_least_def)

text \<open>
  The pressure classifier is monotone: if every reading of one snapshot (CPU, resident
  memory, queue depth, interactive p95) is at least as high as in another, the classified
  pressure is at least as severe, whatever the thresholds of the budget are.
\<close>

theorem classify_monotone:
  assumes "snapshot_le s t"
  shows "classify s b \<le> classify t b"
proof -
  note mono = at_least_mono [of "cpu_percent s" "cpu_percent t"]
    at_least_mono [of "rss_mb s" "rss_mb t"] at_least_mono [of "interactive_p95 s" "interactive_p95 t"]
  show ?thesis
    using assms mono unfolding snapshot_le_def classify_def Let_def
    by (auto split: if_splits)
qed

theorem classify_monotone_witness:
  "classify \<lparr>cpu_percent = Some 20, rss_mb = None, queued_evaluations = 0,
             running_evaluations = 0, interactive_p95 = None\<rparr> (from_settings default_settings)
   \<le> classify \<lparr>cpu_percent = Some 60, rss_mb = Some 300, queued_evaluations = 5,
             running_evaluations = 1, interactive_p95 = None\<rparr> (from_settings default_settings) \<and>
   classify \<lparr>cpu_percent = Some 60, rss_mb = Some 300, queued_evaluations = 5,
             running_evaluations = 1, interactive_p95 = None\<rparr> (from_settings default_settings)
   = PRESSURED"
proof
  show "classify \<lparr>cpu_percent = Some 20, rss_mb = None, queued_evaluations = 0,
             running_evaluations = 0, interactive_p95 = None\<rparr> (from_settings default_settings)
   \<le> classify \<lparr>cpu_percent = Some 60, rss_mb = Some 300, queued_evaluations = 5,
             running_evaluations = 1, interactive_p95 = None\<rparr> (from_settings default_settings)"
    by (rule classify_monotone) (simp add: snapshot_le_def)
qed (simp add: classify_def from_settings_def default_settings_def Let_def at_least_def)

section \<open>Controllers that pace their changes\<close>

text \<open>
  \<open>step i now s\<close> is one control decision at clock reading \<open>now\<close>; \<open>changes\<close> is the log of the
  times of its changes, \<open>last_change\<close> the time of the last one and \<open>gap\<close> the cooldown. A step
  changes nothing, or logs one change no sooner than a cooldown after the last one.
\<close>

locale paced_controller =
  fixes step :: "'i \<Rightarrow> real \<Rightarrow> 's \<Rightarrow> 's"
    and changes :: "'s \<Rightarrow> real list"
    and last_change :: "'s \<Rightarrow> real option"
    and gap :: "'s \<Rightarrow> real"
  assumes gap_step: "gap (step i now s) = gap s"
    and step_paced:
      "(changes (step i now s) = changes s \<and> last_change (step i now s) = last_change s) \<or>
       (changes (step i now s) = changes s @ [now] \<and> last_change (step i now s) = Some now \<and>
        (\<forall>t. last_change s = Some t \<longrightarrow> gap s \<le> now - t))"
begin

fun run :: "('i \<times> real) list \<Rightarrow> 's \<Rightarrow> 's" where
  "run [] s = s"
| "run ((i, now) # is) s = run is (step i now s)"

definition paced :: "'s \<Rightarrow> bool" where
  "paced s \<longleftrightarrow> successively (\<lambda>a b. gap s \<le> b - a) (changes s) \<and>
     last_change s = (if changes s = [] then None else Some (last (changes s)))"

lemma paced_step: "paced s \<Longrightarrow> paced (step i now s)"
  using step_paced [of i now s]
  by (auto simp: paced_def gap_step successively_append_iff split: if_splits)

lemma run_append: "run (is @ js) s = run js (run is s)"
  by (induction "is" s rule: run.induct) simp_all

lemma gap_run: "gap (run is s) = gap s"
  by (induction "is" s rule: run.induct) (simp_all add: gap_step)

lemma paced_run: "paced s \<Longrightarrow> paced (run is s)"
  by (induction "is" s rule: run.induct) (simp_all add: paced_step)

lemma changes_spaced: "paced s \<Longrightarrow> successively (\<lambda>a b. gap s \<le> b - a) (changes (run is s))"
  using paced_run [of s "is"] by (simp add: paced_def gap_run)

end

section \<open>The adaptive concurrency controller\<close>

record change =
  ch_at :: real
  ch_from :: int
  ch_to :: int
  ch_reason :: string
  ch_pressure :: pressure_state
  ch_queued :: int
  ch_cpu :: "real option"
  ch_rss :: "real option"

record controller =
  ct_budget :: budget
  ct_effective :: "int option"
  ct_last_adjust :: "real option"
  ct_history :: "change list"

text \<open>The constructor with \<open>__post_init__\<close>.\<close>

definition new_controller :: "budget \<Rightarrow> int option \<Rightarrow> controller" where
  "new_controller b eff =
     \<lparr> ct_budget = b,
       ct_effective = (case eff of
          None \<Rightarrow> Some (min_evaluation_concurrency b)
        | Some e \<Rightarrow> Some (clamp_concurrency b e)),
       ct_last_adjust = None, ct_history = [] \<rparr>"

text \<open>Python's \<open>x or d\<close> on an optional integer: \<open>None\<close> and 0 are false.\<close>

definition int_or :: "int option \<Rightarrow> int \<Rightarrow> int" where
  "int_or x d = (case x of None \<Rightarrow> d | Some v \<Rightarrow> if v = 0 then d else v)"

definition in_cooldown :: "real option \<Rightarrow> real \<Rightarrow> real \<Rightarrow> bool" where
  "in_cooldown prev now cooldown = (case prev of None \<Rightarrow> False | Some t \<Rightarrow> now - t < cooldown)"

definition at_most :: "real option \<Rightarrow> real \<Rightarrow> bool" where
  "at_most v limit = (case v of None \<Rightarrow> True | Some x \<Rightarrow> x \<le> limit)"

definition adjust_target :: "budget \<Rightarrow> pressure_state \<Rightarrow> snapshot \<Rightarrow> int \<Rightarrow> int \<times> string" where
  "adjust_target b pressure sn current =
     (case pressure of
        DEGRADED \<Rightarrow>
          (if current > min_evaluation_concurrency b
           then (current - 1, ''degraded_decrease'') else (current, ''hold''))
      | PRESSURED \<Rightarrow>
          (if current > min_evaluation_concurrency b + 1
           then (current - 1, ''pressured_decrease'') else (current, ''pressured_hold''))
      | NORMAL \<Rightarrow>
          (if queued_evaluations sn > 0 \<and> at_most (cpu_percent sn) (cpu_low_percent b) \<and>
              at_most (rss_mb sn) (memory_soft_mb b) \<and> current < max_evaluation_concurrency b
           then (current + 1, ''normal_backlog_increase'') else (current, ''normal_hold'')))"

definition adjust :: "pressure_state \<Rightarrow> snapshot \<Rightarrow> real \<Rightarrow> controller \<Rightarrow> int \<times> controller" where
  "adjust pressure sn now c =
     (let b = ct_budget c;
          current = clamp_concurrency b (int_or (ct_effective c) 1)
      in if in_cooldown (ct_last_adjust c) now (adjust_cooldown_seconds b) then (current, c)
         else let (target0, reason) = adjust_target b pressure sn current;
                  target = clamp_concurrency b target0;
                  c' = (if target \<noteq> current
                        then c\<lparr> ct_last_adjust := Some now, ct_effective := Some target,
                                ct_history := ct_history c @
                                  [\<lparr> ch_at = now, ch_from = current, ch_to = target,
                                     ch_reason = reason, ch_pressure = pressure,
                                     ch_queued = queued_evaluations sn,
                                     ch_cpu = cpu_percent sn, ch_rss = rss_mb sn \<rparr>] \<rparr>
                        else c)
              in (int_or (ct_effective c') target, c'))"

definition controller_ok :: "controller \<Rightarrow> bool" where
  "controller_ok c \<longleftrightarrow> budget_ok (ct_budget c) \<and>
     (\<exists>e. ct_effective c = Some e \<and> min_evaluation_concurrency (ct_budget c) \<le> e \<and>
        e \<le> max_evaluation_concurrency (ct_budget c))"

lemma controller_okE:
  assumes "controller_ok c"
  obtains e where "ct_effective c = Some e" "1 \<le> e" "clamp_concurrency (ct_budget c) e = e"
    "min_evaluation_concurrency (ct_budget c) \<le> e" "e \<le> max_evaluation_concurrency (ct_budget c)"
  using assms by (auto simp: controller_ok_def budget_ok_def clamp_concurrency_id)

lemma new_controller_ok: "budget_ok b \<Longrightarrow> controller_ok (new_controller b eff)"
  by (auto simp: controller_ok_def new_controller_def budget_ok_def clamp_concurrency_def
      split: option.splits)

lemma adjust_target_cases:
  assumes "adjust_target b p sn cur = (tgt, why)"
  shows "tgt = cur \<or> (tgt = cur + 1 \<and> p = NORMAL \<and> 0 < queued_evaluations sn \<and>
           cur < max_evaluation_concurrency b) \<or>
         (tgt = cur - 1 \<and> p \<noteq> NORMAL \<and> min_evaluation_concurrency b < cur)"
  using assms by (auto simp: adjust_target_def split: pressure_state.splits if_splits)

text \<open>What one call to \<open>adjust\<close> does, branch by branch, on a controller in its envelope.\<close>

lemma adjust_cases:
  assumes ok: "controller_ok c" and adj: "adjust p sn now c = (r, c')"
    and eff: "ct_effective c = Some e"
  shows "(c' = c \<and> r = e) \<or>
    (\<exists>ch. ct_effective c' = Some r \<and> r = ch_to ch \<and> ch_at ch = now \<and> ch_from ch = e \<and>
       ct_budget c' = ct_budget c \<and> ct_last_adjust c' = Some now \<and>
       ct_history c' = ct_history c @ [ch] \<and>
       \<not> in_cooldown (ct_last_adjust c) now (adjust_cooldown_seconds (ct_budget c)) \<and>
       ((r = e + 1 \<and> p = NORMAL \<and> 0 < queued_evaluations sn \<and>
           e < max_evaluation_concurrency (ct_budget c)) \<or>
        (r = e - 1 \<and> p \<noteq> NORMAL \<and> min_evaluation_concurrency (ct_budget c) < e)))"
proof -
  from ok eff have e: "1 \<le> e" "clamp_concurrency (ct_budget c) e = e"
    "min_evaluation_concurrency (ct_budget c) \<le> e" "e \<le> max_evaluation_concurrency (ct_budget c)"
    by (auto elim!: controller_okE)
  obtain tgt why where t: "adjust_target (ct_budget c) p sn e = (tgt, why)" by fastforce
  from adjust_target_cases [OF t] e have tgt: "clamp_concurrency (ct_budget c) tgt = tgt" "1 \<le> tgt"
    using ok by (auto intro!: clamp_concurrency_id simp: controller_ok_def budget_ok_def)
  show ?thesis
    using adj e tgt t eff adjust_target_cases [OF t]
    by (auto simp: adjust_def Let_def int_or_def split: if_splits)
qed

lemma adjust_ok:
  assumes "controller_ok c" and "adjust p sn now c = (r, c')"
  shows "controller_ok c'"
proof -
  obtain e where e: "ct_effective c = Some e" using assms(1) by (auto simp: controller_ok_def)
  show ?thesis
    using adjust_cases [OF assms e] assms(1) e by (auto simp: controller_ok_def)
qed

lemma adjust_effect:
  assumes "controller_ok c" and "ct_effective c = Some e" and "adjust p sn now c = (r, c')"
  shows "controller_ok c' \<and> ct_effective c' = Some r \<and>
    min_evaluation_concurrency (ct_budget c) \<le> r \<and> r \<le> max_evaluation_concurrency (ct_budget c) \<and>
    1 \<le> r \<and> \<bar>r - e\<bar> \<le> 1 \<and> (e < r \<longrightarrow> p = NORMAL \<and> 0 < queued_evaluations sn) \<and>
    (r < e \<longrightarrow> NORMAL < p)"
proof -
  have "NORMAL < p" if "p \<noteq> NORMAL"
    using that by (cases p) (simp_all add: less_pressure_state_def)
  moreover have "controller_ok c'" by (rule adjust_ok [OF assms(1,3)])
  moreover note adjust_cases [OF assms(1,3,2)] assms(1,2)
  ultimately show ?thesis
    by (auto simp: controller_ok_def budget_ok_def)
qed

text \<open>
  The concurrency controller never leaves its envelope and moves one step at a time: from
  a controller built by the constructor's rules, \<open>adjust\<close> returns the worker count it stores,
  the count stays between the budget's minimum (at least 1) and maximum, it changes by at most
  one, it grows only without pressure and with a backlog, and it shrinks only under pressure.
\<close>

theorem adjust_envelope:
  assumes "controller_ok c" and "ct_effective c = Some e" and "adjust p sn now c = (r, c')"
  shows "controller_ok c' \<and> ct_effective c' = Some r \<and>
    min_evaluation_concurrency (ct_budget c) \<le> r \<and> r \<le> max_evaluation_concurrency (ct_budget c) \<and>
    1 \<le> r \<and> \<bar>r - e\<bar> \<le> 1 \<and> (e < r \<longrightarrow> p = NORMAL \<and> 0 < queued_evaluations sn) \<and>
    (r < e \<longrightarrow> NORMAL < p)"
  by (rule adjust_effect [OF assms])

definition two_worker_settings :: settings where
  "two_worker_settings = default_settings\<lparr>evaluation_max_workers := 2\<rparr>"

definition busy_snapshot :: snapshot where
  "busy_snapshot = \<lparr>cpu_percent = Some 10, rss_mb = Some 100, queued_evaluations = 4,
     running_evaluations = 1, interactive_p95 = None\<rparr>"

definition two_worker_controller :: controller where
  "two_worker_controller = new_controller (from_settings two_worker_settings) None"

lemmas controller_example_defs = two_worker_controller_def two_worker_settings_def
  busy_snapshot_def new_controller_def from_settings_def default_settings_def

lemma two_worker_controller_ok: "controller_ok two_worker_controller"
  by (simp add: two_worker_controller_def new_controller_ok)

lemma two_worker_adjust:
  "fst (adjust NORMAL busy_snapshot 7 two_worker_controller) = 2"
  by (simp add: adjust_def adjust_target_def controller_example_defs Let_def in_cooldown_def
      int_or_def clamp_concurrency_def at_most_def)

theorem adjust_envelope_witness:
  "\<exists>c'. adjust NORMAL busy_snapshot 7 two_worker_controller = (2, c') \<and> controller_ok c'"
proof -
  obtain r c' where a: "adjust NORMAL busy_snapshot 7 two_worker_controller = (r, c')"
    by fastforce
  have "ct_effective two_worker_controller = Some 1"
    by (simp add: controller_example_defs Let_def)
  from adjust_envelope [OF two_worker_controller_ok this a] a two_worker_adjust
  show ?thesis by auto
qed

text \<open>The controller as a paced controller: one step is \<open>adjust\<close>, its log is \<open>history\<close>.\<close>

definition controller_step :: "pressure_state \<times> snapshot \<Rightarrow> real \<Rightarrow> controller \<Rightarrow> controller" where
  "controller_step i now c = snd (adjust (fst i) (snd i) now c)"

interpretation adaptive: paced_controller controller_step "\<lambda>c. map ch_at (ct_history c)"
  ct_last_adjust "\<lambda>c. adjust_cooldown_seconds (ct_budget c)"
proof unfold_locales
  fix i now c
  show "adjust_cooldown_seconds (ct_budget (controller_step i now c)) =
      adjust_cooldown_seconds (ct_budget c)"
    by (auto simp: controller_step_def adjust_def Let_def split: prod.splits)
  show "(map ch_at (ct_history (controller_step i now c)) = map ch_at (ct_history c) \<and>
       ct_last_adjust (controller_step i now c) = ct_last_adjust c) \<or>
      (map ch_at (ct_history (controller_step i now c)) = map ch_at (ct_history c) @ [now] \<and>
       ct_last_adjust (controller_step i now c) = Some now \<and>
       (\<forall>t. ct_last_adjust c = Some t \<longrightarrow> adjust_cooldown_seconds (ct_budget c) \<le> now - t))"
    by (auto simp: controller_step_def adjust_def Let_def in_cooldown_def
        split: prod.splits option.splits)
qed

text \<open>
  Rate limit of the adaptive controller: over any sequence of \<open>adjust\<close> calls with any
  pressures, observations and clock readings, a fresh controller's logged changes are pairwise
  a cooldown apart (consecutive times differ by at least \<open>adjust_cooldown_seconds\<close>).
\<close>

theorem controller_changes_spaced:
  "successively (\<lambda>a b. adjust_cooldown_seconds b0 \<le> b - a)
     (map ch_at (ct_history (adaptive.run inputs (new_controller b0 eff))))"
  using adaptive.changes_spaced [of "new_controller b0 eff" inputs]
  by (simp add: adaptive.paced_def new_controller_def)

end
