(* ===== verification/Interactive_Signal.thy ===== *)
theory Interactive_Signal
  imports Resource_Control
begin

text \<open>
  The interactive latency signal, \<^verbatim>\<open>src/src/challengeforge/runtime/interactive_signal.py\<close>: the paths that
  feed it, the nearest-rank percentile, the rolling window, the hysteresis controller and the
  merge with the resource pressure. Clock readings are arguments (\<open>time.monotonic\<close>).
\<close>

section \<open>Levels and paths\<close>

datatype interactive_level = HEALTHY | WARN | CRITICAL

fun level_rank :: "interactive_level \<Rightarrow> nat" where
  "level_rank HEALTHY = 0"
| "level_rank WARN = 1"
| "level_rank CRITICAL = 2"

lemma level_rank_inject: "level_rank p = level_rank q \<longleftrightarrow> p = q"
  by (cases p; cases q) simp_all

instantiation interactive_level :: linorder
begin

definition less_eq_interactive_level :: "interactive_level \<Rightarrow> interactive_level \<Rightarrow> bool" where
  "less_eq_interactive_level p q \<longleftrightarrow> level_rank p \<le> level_rank q"

definition less_interactive_level :: "interactive_level \<Rightarrow> interactive_level \<Rightarrow> bool" where
  "less_interactive_level p q \<longleftrightarrow> level_rank p < level_rank q"

instance
  by standard
    (auto simp: less_eq_interactive_level_def less_interactive_level_def level_rank_inject)

end

definition is_interactive_control_path :: "string \<Rightarrow> string \<Rightarrow> bool" where
  "is_interactive_control_path method path =
     (let m = upper method
      in if m \<notin> {''GET'', ''POST''} then False
         else if \<not> starts_with ''/api/v1/'' path then False
         else if starts_with ''/api/v1/challenges/'' path \<and> m = ''GET'' then True
         else if contains ''/submissions'' path \<and> m = ''POST'' then True
         else if starts_with ''/api/v1/users/'' path \<and> contains ''/submissions'' path \<and> m = ''GET''
              then True
         else if starts_with ''/api/v1/submissions/'' path \<and> ends_with ''/evaluation'' path \<and>
                 m = ''GET'' then True
         else False)"

section \<open>Percentile and rolling window\<close>

definition percentile :: "real list \<Rightarrow> real \<Rightarrow> real" where
  "percentile values fraction =
     (if values = [] then 0
      else let ordered = sort values;
               index = min (int (length ordered) - 1) (max 0 (\<lceil>of_nat (length ordered) * fraction\<rceil> - 1))
           in ordered ! nat index)"

record window =
  window_seconds :: real
  max_samples :: nat
  samples :: "(real \<times> real) list"

text \<open>\<open>_trim\<close>: first the samples older than the window, then the oldest ones over the cap.\<close>

definition trim :: "real \<Rightarrow> window \<Rightarrow> window" where
  "trim now w =
     (let fresh = dropWhile (\<lambda>(t, _). t < now - window_seconds w) (samples w)
      in w\<lparr>samples := drop (length fresh - max_samples w) fresh\<rparr>)"

definition record_sample :: "real \<Rightarrow> real \<Rightarrow> window \<Rightarrow> window" where
  "record_sample latency_ms now w = trim now (w\<lparr>samples := samples w @ [(now, latency_ms)]\<rparr>)"

definition sample_count :: "real \<Rightarrow> window \<Rightarrow> nat \<times> window" where
  "sample_count now w = (let w' = trim now w in (length (samples w'), w'))"

definition p95_ms :: "real \<Rightarrow> window \<Rightarrow> real option \<times> window" where
  "p95_ms now w =
     (let w' = trim now w
      in (if samples w' = [] then None else Some (percentile (map snd (samples w')) (95 / 100)), w'))"

record window_snapshot =
  ws_count :: nat
  ws_p50 :: "real option"
  ws_p95 :: "real option"
  ws_p99 :: "real option"

definition window_snapshot :: "real \<Rightarrow> window \<Rightarrow> window_snapshot \<times> window" where
  "window_snapshot now w =
     (let w' = trim now w; values = map snd (samples w');
          pct = (\<lambda>f. if values = [] then None else Some (percentile values f))
      in (\<lparr>ws_count = length values, ws_p50 = pct (50 / 100), ws_p95 = pct (95 / 100),
           ws_p99 = pct (99 / 100)\<rparr>, w'))"

text \<open>Counting in a sorted list: at least \<open>k + 1\<close> elements are at most the one at index \<open>k\<close>.\<close>

lemma sorted_count_le:
  assumes "sorted xs" and "k < length xs"
  shows "Suc k \<le> length (filter (\<lambda>x. x \<le> xs ! k) xs)"
proof -
  have "filter (\<lambda>x. x \<le> xs ! k) (take (Suc k) xs) = take (Suc k) xs"
    using assms by (intro filter_True) (auto simp: in_set_conv_nth sorted_nth_mono)
  then have "filter (\<lambda>x. x \<le> xs ! k) xs =
      take (Suc k) xs @ filter (\<lambda>x. x \<le> xs ! k) (drop (Suc k) xs)"
    by (metis append_take_drop_id filter_append)
  then show ?thesis using assms(2) by simp
qed

lemma sorted_count_ge:
  assumes "sorted xs" and "k < length xs"
  shows "length xs - k \<le> length (filter (\<lambda>x. xs ! k \<le> x) xs)"
proof -
  have "filter (\<lambda>x. xs ! k \<le> x) (drop k xs) = drop k xs"
    using assms
    by (intro filter_True) (auto simp: in_set_conv_nth less_diff_conv add.commute intro!: sorted_nth_mono)
  then have "filter (\<lambda>x. xs ! k \<le> x) xs = filter (\<lambda>x. xs ! k \<le> x) (take k xs) @ drop k xs"
    by (metis append_take_drop_id filter_append)
  then show ?thesis by simp
qed

lemma filter_sort_length: "length (filter P (sort xs)) = length (filter P xs)"
  by (simp add: filter_sort)

text \<open>
  \<open>percentile\<close> is the nearest-rank percentile: for a non-empty list and a fraction in
  (0, 1] it returns one of the values, at least that fraction of the values are no greater
  than it, and the values greater or equal to it are at least the rest.
\<close>

theorem percentile_nearest_rank:
  assumes "values \<noteq> []" and "0 < f" and "f \<le> 1"
  shows "percentile values f \<in> set values \<and>
    f * length values \<le> length (filter (\<lambda>v. v \<le> percentile values f) values) \<and>
    (1 - f) * length values \<le> length (filter (\<lambda>v. percentile values f \<le> v) values)"
proof -
  let ?n = "length values"
  let ?k = "nat (\<lceil>?n * f\<rceil> - 1)"
  have n: "0 < ?n" using assms(1) by simp
  have pos: "0 < ?n * f" using n assms(2) by simp
  have le: "?n * f \<le> ?n" using assms(3) by (simp add: mult_left_le)
  have c1: "1 \<le> \<lceil>?n * f\<rceil>" using pos by linarith
  have c2: "\<lceil>?n * f\<rceil> \<le> int ?n" using le by (simp add: ceiling_le_iff)
  have k: "?k < ?n" using c1 c2 n by linarith
  have p: "percentile values f = sort values ! ?k"
    using assms(1) c1 c2 by (simp add: percentile_def Let_def)
  have "sort values ! ?k \<in> set values"
    using k by (metis length_sort nth_mem set_sort)
  moreover have "f * ?n \<le> length (filter (\<lambda>v. v \<le> sort values ! ?k) values)"
  proof -
    have "?n * f \<le> real_of_int \<lceil>?n * f\<rceil>" by (rule le_of_int_ceiling)
    also have "\<dots> = real (Suc ?k)" using c1 by simp
    also have "\<dots> \<le> length (filter (\<lambda>v. v \<le> sort values ! ?k) (sort values))"
      using sorted_count_le [of "sort values" ?k] k by simp
    finally show ?thesis by (simp add: filter_sort_length mult.commute)
  qed
  moreover have "(1 - f) * ?n \<le> length (filter (\<lambda>v. sort values ! ?k \<le> v) values)"
  proof -
    have "real ?k \<le> ?n * f" using c1 by linarith
    then have "(1 - f) * ?n \<le> real (?n - ?k)" using k by (simp add: algebra_simps of_nat_diff)
    also have "\<dots> \<le> length (filter (\<lambda>v. sort values ! ?k \<le> v) (sort values))"
      using sorted_count_ge [of "sort values" ?k] k by simp
    finally show ?thesis by (simp add: filter_sort_length)
  qed
  ultimately show ?thesis by (simp add: p)
qed

theorem percentile_nearest_rank_witness:
  "percentile [30, 10, 20] (95 / 100) = 30 \<and>
   (95 / 100) * length [30::real, 10, 20] \<le>
     length (filter (\<lambda>v. v \<le> percentile [30, 10, 20] (95 / 100)) [30, 10, 20])"
proof
  show "percentile [30, 10, 20] (95 / 100) = 30"
    by (simp add: percentile_def Let_def)
  show "(95 / 100) * length [30::real, 10, 20] \<le>
     length (filter (\<lambda>v. v \<le> percentile [30, 10, 20] (95 / 100)) [30, 10, 20])"
    using percentile_nearest_rank [of "[30, 10, 20]" "95 / 100"] by simp
qed

lemma dropWhile_sorted_filter:
  assumes "sorted (map fst xs)"
  shows "dropWhile (\<lambda>(t, _). t < c) xs = filter (\<lambda>(t, _). c \<le> t) xs"
  using assms
proof (induction xs)
  case Nil
  then show ?case by simp
next
  case (Cons a xs)
  then have "filter (\<lambda>(t, _). c \<le> t) xs = xs" if "c \<le> fst a"
    using that by (intro filter_True) (auto intro: order_trans)
  then show ?case using Cons by (cases a) (auto simp: not_less)
qed

definition window_ok :: "real \<Rightarrow> window \<Rightarrow> bool" where
  "window_ok now w \<longleftrightarrow> sorted (map fst (samples w)) \<and> (\<forall>s\<in>set (samples w). fst s \<le> now)"

lemma window_ok_record_base:
  "window_ok now w \<Longrightarrow> sorted (map fst (samples w @ [(now, l)]))"
  by (auto simp: window_ok_def sorted_append)

text \<open>
  The rolling window keeps exactly the recent samples: recording a latency at a clock
  reading no earlier than the stored ones leaves the samples that are at most
  \<open>window_seconds\<close> old, the newest \<open>max_samples\<close> of them, in time order; so the window stays
  bounded and well ordered for the next recording.
\<close>

theorem record_keeps_recent:
  assumes "window_ok now w"
  shows "(let w' = record_sample l now w;
              recent = filter (\<lambda>(t, _). now - window_seconds w \<le> t) (samples w @ [(now, l)])
          in samples w' = drop (length recent - max_samples w) recent \<and>
             length (samples w') \<le> max_samples w \<and>
             (\<forall>s\<in>set (samples w'). now - window_seconds w \<le> fst s \<and> fst s \<le> now) \<and>
             window_ok now w')"
proof -
  let ?recent = "filter (\<lambda>(t, _). now - window_seconds w \<le> t) (samples w @ [(now, l)])"
  have s: "samples (record_sample l now w) = drop (length ?recent - max_samples w) ?recent"
    using dropWhile_sorted_filter [OF window_ok_record_base [OF assms]]
    by (simp add: record_sample_def trim_def Let_def)
  have sub: "set (samples (record_sample l now w)) \<subseteq> set ?recent"
    unfolding s by (rule set_drop_subset)
  have "sorted (map fst ?recent)"
    using window_ok_record_base [OF assms] by (intro sorted_filter) 
  then have "sorted (map fst (samples (record_sample l now w)))"
    unfolding s by (metis drop_map sorted_wrt_drop)
  moreover have "now - window_seconds w \<le> fst x \<and> fst x \<le> now"
    if "x \<in> set (samples (record_sample l now w))" for x
    using subsetD [OF sub that] assms by (auto simp: window_ok_def split: if_splits)
  moreover have "length (samples (record_sample l now w)) \<le> max_samples w"
    unfolding s by simp
  ultimately show ?thesis
    unfolding Let_def window_ok_def by (simp add: s)
qed

theorem record_keeps_recent_witness:
  "samples (record_sample 30 10 \<lparr>window_seconds = 5, max_samples = 2,
     samples = [(1, 99), (6, 10), (8, 20)]\<rparr>) = [(8, 20), (10, 30)]"
  using record_keeps_recent [of 10 "\<lparr>window_seconds = 5, max_samples = 2,
     samples = [(1, 99), (6, 10), (8, 20)]\<rparr>" 30]
  by (simp add: window_ok_def Let_def)

section \<open>The feedback controller\<close>

record level_change =
  lc_at :: real
  lc_from :: interactive_level
  lc_to :: interactive_level
  lc_p95 :: real
  lc_samples :: int

record feedback =
  fb_warn :: real
  fb_critical :: real
  fb_recovery :: real
  fb_min_samples :: int
  fb_sustain :: real
  fb_cooldown :: real
  fb_level :: interactive_level
  fb_candidate :: "interactive_level option"
  fb_since :: "real option"
  fb_last_change :: "real option"
  fb_history :: "level_change list"

definition fb_enabled :: "feedback \<Rightarrow> bool" where
  "fb_enabled fb \<longleftrightarrow> fb_warn fb > 0 \<and> fb_critical fb > 0"

definition effective_recovery_ms :: "feedback \<Rightarrow> real" where
  "effective_recovery_ms fb =
     (if fb_recovery fb > 0 then fb_recovery fb
      else if fb_warn fb > 0 then fb_warn fb * (8 / 10)
      else 0)"

definition desired_level :: "feedback \<Rightarrow> real \<Rightarrow> interactive_level" where
  "desired_level fb p95 =
     (let recovery = effective_recovery_ms fb
      in case fb_level fb of
           CRITICAL \<Rightarrow>
             (if p95 \<le> recovery then HEALTHY
              else if p95 \<ge> fb_critical fb then CRITICAL
              else if p95 \<ge> fb_warn fb then WARN
              else HEALTHY)
         | WARN \<Rightarrow>
             (if p95 \<le> recovery then HEALTHY
              else if p95 \<ge> fb_critical fb then CRITICAL
              else WARN)
         | HEALTHY \<Rightarrow>
             (if p95 \<ge> fb_critical fb then CRITICAL
              else if p95 \<ge> fb_warn fb then WARN
              else HEALTHY))"

text \<open>
  \<open>update\<close>; the returned level is the new \<open>level\<close> field. \<open>Inl AssertionError\<close> is the
  \<open>assert self._candidate_since is not None\<close>.
\<close>

definition fb_update :: "real option \<Rightarrow> int \<Rightarrow> real \<Rightarrow> feedback \<Rightarrow> exn + feedback" where
  "fb_update reading n now fb =
     (if \<not> fb_enabled fb then Inr (fb\<lparr>fb_level := HEALTHY\<rparr>)
      else case reading of
        None \<Rightarrow> Inr fb
      | Some p95 \<Rightarrow>
          if n < fb_min_samples fb then Inr fb
          else let desired = desired_level fb p95
               in if desired = fb_level fb then Inr (fb\<lparr>fb_candidate := None, fb_since := None\<rparr>)
                  else if in_cooldown (fb_last_change fb) now (fb_cooldown fb) then Inr fb
                  else if fb_candidate fb \<noteq> Some desired
                  then Inr (fb\<lparr>fb_candidate := Some desired, fb_since := Some now\<rparr>)
                  else case fb_since fb of
                    None \<Rightarrow> Inl AssertionError
                  | Some since \<Rightarrow>
                      if now - since < fb_sustain fb then Inr fb
                      else Inr (fb\<lparr>fb_level := desired, fb_last_change := Some now,
                             fb_candidate := None, fb_since := None,
                             fb_history := fb_history fb @
                               [\<lparr>lc_at = now, lc_from = fb_level fb, lc_to = desired,
                                 lc_p95 = p95, lc_samples = n\<rparr>]\<rparr>))"

text \<open>Every call keeps the invariant that a candidate has a start time, so the assert holds.\<close>

definition fb_ok :: "feedback \<Rightarrow> bool" where
  "fb_ok fb \<longleftrightarrow> (fb_candidate fb = None \<longleftrightarrow> fb_since fb = None)"

lemma fb_update_ok: "fb_ok fb \<Longrightarrow> \<exists>fb'. fb_update p n now fb = Inr fb' \<and> fb_ok fb'"
  by (auto simp: fb_update_def fb_ok_def Let_def split: option.splits)

text \<open>A step that raises leaves the controller as it was (the assert precedes the writes).\<close>

definition fb_step :: "real option \<times> int \<Rightarrow> real \<Rightarrow> feedback \<Rightarrow> feedback" where
  "fb_step i now fb = (case fb_update (fst i) (snd i) now fb of Inl _ \<Rightarrow> fb | Inr fb' \<Rightarrow> fb')"

lemma fb_step_ok: "fb_ok fb \<Longrightarrow> fb_ok (fb_step i now fb)"
  using fb_update_ok [of fb "fst i" "snd i" now] by (auto simp: fb_step_def)

interpretation interactive: paced_controller fb_step "\<lambda>fb. map lc_at (fb_history fb)"
  fb_last_change fb_cooldown
proof unfold_locales
  fix i now fb
  show "fb_cooldown (fb_step i now fb) = fb_cooldown fb"
    by (auto simp: fb_step_def fb_update_def Let_def split: option.splits)
  show "(map lc_at (fb_history (fb_step i now fb)) = map lc_at (fb_history fb) \<and>
       fb_last_change (fb_step i now fb) = fb_last_change fb) \<or>
      (map lc_at (fb_history (fb_step i now fb)) = map lc_at (fb_history fb) @ [now] \<and>
       fb_last_change (fb_step i now fb) = Some now \<and>
       (\<forall>t. fb_last_change fb = Some t \<longrightarrow> fb_cooldown fb \<le> now - t))"
    by (auto simp: fb_step_def fb_update_def Let_def in_cooldown_def split: option.splits)
qed

text \<open>An observation counts when it has a p95 over enough samples.\<close>

definition counts :: "feedback \<Rightarrow> real option \<times> int \<Rightarrow> bool" where
  "counts fb i \<longleftrightarrow> fst i \<noteq> None \<and> fb_min_samples fb \<le> snd i"

definition asks_for :: "feedback \<Rightarrow> interactive_level \<Rightarrow> (real option \<times> int) \<times> real \<Rightarrow> bool" where
  "asks_for fb L e \<longleftrightarrow> (counts fb (fst e) \<longrightarrow> desired_level fb (the (fst (fst e))) = L)"

lemma fb_step_config [simp]:
  "fb_warn (fb_step i now fb) = fb_warn fb" "fb_critical (fb_step i now fb) = fb_critical fb"
  "fb_recovery (fb_step i now fb) = fb_recovery fb"
  "fb_min_samples (fb_step i now fb) = fb_min_samples fb"
  "fb_sustain (fb_step i now fb) = fb_sustain fb" "fb_cooldown (fb_step i now fb) = fb_cooldown fb"
  by (auto simp: fb_step_def fb_update_def Let_def split: option.splits)

lemma fb_run_config [simp]:
  "fb_warn (interactive.run is fb) = fb_warn fb \<and> fb_critical (interactive.run is fb) = fb_critical fb \<and>
   fb_min_samples (interactive.run is fb) = fb_min_samples fb \<and>
   fb_sustain (interactive.run is fb) = fb_sustain fb"
  by (induction "is" fb rule: interactive.run.induct) simp_all

lemma asks_for_same_level:
  "fb_level fb' = fb_level fb \<Longrightarrow> fb_warn fb' = fb_warn fb \<Longrightarrow> fb_critical fb' = fb_critical fb \<Longrightarrow>
   fb_recovery fb' = fb_recovery fb \<Longrightarrow> fb_min_samples fb' = fb_min_samples fb \<Longrightarrow>
   asks_for fb' L e = asks_for fb L e"
  by (simp add: asks_for_def counts_def desired_level_def effective_recovery_ms_def)

text \<open>
  What a pending candidate means: since the time it was set, every observation that counts
  asked for it, and the cooldown of the last change was over by then.
\<close>

definition pending_ok :: "((real option \<times> int) \<times> real) list \<Rightarrow> feedback \<Rightarrow> bool" where
  "pending_ok seen fb \<longleftrightarrow> fb_ok fb \<and>
     (\<forall>L s. fb_candidate fb = Some L \<longrightarrow> fb_since fb = Some s \<longrightarrow>
        \<not> in_cooldown (fb_last_change fb) s (fb_cooldown fb) \<and>
        (\<exists>pre j suf. seen = pre @ (j, s) # suf \<and> counts fb j \<and>
           (\<forall>e\<in>set ((j, s) # suf). asks_for fb L e)))"

lemma fb_step_cases:
  assumes "fb_enabled fb" and "fb_ok fb"
  obtains (hold) "\<not> counts fb i" "fb_step i now fb = fb"
  | (same) "counts fb i" "desired_level fb (the (fst i)) = fb_level fb"
      "fb_step i now fb = fb\<lparr>fb_candidate := None, fb_since := None\<rparr>"
  | (cooling) "counts fb i" "in_cooldown (fb_last_change fb) now (fb_cooldown fb)"
      "fb_step i now fb = fb"
  | (start) "counts fb i" "\<not> in_cooldown (fb_last_change fb) now (fb_cooldown fb)"
      "fb_step i now fb =
         fb\<lparr>fb_candidate := Some (desired_level fb (the (fst i))), fb_since := Some now\<rparr>"
  | (wait) s where "counts fb i" "fb_candidate fb = Some (desired_level fb (the (fst i)))"
      "fb_since fb = Some s" "fb_step i now fb = fb"
  | (change) s where "counts fb i" "fb_candidate fb = Some (desired_level fb (the (fst i)))"
      "fb_since fb = Some s" "fb_sustain fb \<le> now - s"
      "fb_level (fb_step i now fb) = desired_level fb (the (fst i))"
      "fb_candidate (fb_step i now fb) = None" "fb_since (fb_step i now fb) = None"
proof -
  obtain r n where i: "i = (r, n)" by fastforce
  show ?thesis
  proof (cases "counts fb i")
    case False
    then have "fb_step i now fb = fb"
      using assms(1) by (auto simp: i counts_def fb_step_def fb_update_def split: option.splits)
    with False show ?thesis by (rule hold)
  next
    case True
    then obtain p where p: "r = Some p" "fb_min_samples fb \<le> n" by (auto simp: i counts_def)
    have since: "\<exists>s. fb_since fb = Some s" if "fb_candidate fb = Some (desired_level fb p)"
      using assms(2) that by (cases "fb_since fb") (auto simp: fb_ok_def)
    consider "desired_level fb p = fb_level fb"
      | "desired_level fb p \<noteq> fb_level fb" "in_cooldown (fb_last_change fb) now (fb_cooldown fb)"
      | "desired_level fb p \<noteq> fb_level fb" "\<not> in_cooldown (fb_last_change fb) now (fb_cooldown fb)"
        "fb_candidate fb \<noteq> Some (desired_level fb p)"
      | s where "desired_level fb p \<noteq> fb_level fb"
        "\<not> in_cooldown (fb_last_change fb) now (fb_cooldown fb)"
        "fb_candidate fb = Some (desired_level fb p)" "fb_since fb = Some s"
      using since by blast
    then show ?thesis
    proof cases
      case 1
      with True assms p show ?thesis
        by (intro same) (auto simp: i fb_step_def fb_update_def Let_def)
    next
      case 2
      with True assms p show ?thesis
        by (intro cooling) (auto simp: i fb_step_def fb_update_def Let_def)
    next
      case 3
      with True assms p show ?thesis
        by (intro start) (auto simp: i fb_step_def fb_update_def Let_def)
    next
      case (4 s)
      show ?thesis
      proof (cases "now - s < fb_sustain fb")
        case True
        with 4 \<open>counts fb i\<close> assms p show ?thesis
          by (intro wait) (auto simp: i fb_step_def fb_update_def Let_def)
      next
        case False
        with 4 \<open>counts fb i\<close> assms p show ?thesis
          by (intro change) (auto simp: i fb_step_def fb_update_def Let_def)
      qed
    qed
  qed
qed

lemma pending_ok_keep:
  assumes "pending_ok seen fb" and "\<And>L. fb_candidate fb = Some L \<Longrightarrow> asks_for fb L e"
  shows "pending_ok (seen @ [e]) fb"
proof -
  have "\<exists>pre j suf. seen @ [e] = pre @ (j, s) # suf \<and> counts fb j \<and>
      (\<forall>e\<in>set ((j, s) # suf). asks_for fb L e)"
    if c: "fb_candidate fb = Some L" "fb_since fb = Some s" for L s
  proof -
    from assms(1) c obtain pre j suf where "seen = pre @ (j, s) # suf" "counts fb j"
      "\<forall>e\<in>set ((j, s) # suf). asks_for fb L e" by (auto simp: pending_ok_def)
    then show ?thesis using assms(2) [OF c(1)]
      by (intro exI [of _ pre] exI [of _ j] exI [of _ "suf @ [e]"]) auto
  qed
  then show ?thesis using assms(1) by (auto simp: pending_ok_def)
qed

lemma pending_ok_snoc:
  assumes "fb_enabled fb" and inv: "pending_ok seen fb" and late: "\<forall>e\<in>set seen. snd e \<le> now"
  shows "pending_ok (seen @ [(i, now)]) (fb_step i now fb)"
proof -
  have ok: "fb_ok fb" using inv by (simp add: pending_ok_def)
  obtain fb' where ok': "fb_step i now fb = fb'" "fb_ok fb'"
    using fb_update_ok [OF ok, of "fst i" "snd i" now] by (auto simp: fb_step_def)
  have keep: "pending_ok (seen @ [(i, now)]) fb" if "\<And>L. fb_candidate fb = Some L \<Longrightarrow> asks_for fb L (i, now)"
    using inv that by (rule pending_ok_keep)
  show ?thesis
    using assms(1) ok
  proof (cases rule: fb_step_cases [where i = i and now = now])
    case hold
    then show ?thesis using keep by (simp add: asks_for_def)
  next
    case same
    then show ?thesis using ok' by (simp add: pending_ok_def)
  next
    case cooling
    have "fb_candidate fb = None"
    proof (rule ccontr)
      assume "fb_candidate fb \<noteq> None"
      then obtain L s where c: "fb_candidate fb = Some L" "fb_since fb = Some s"
        using ok by (auto simp: fb_ok_def)
      with inv obtain pre j suf where "\<not> in_cooldown (fb_last_change fb) s (fb_cooldown fb)"
        "seen = pre @ (j, s) # suf" by (auto simp: pending_ok_def)
      with late cooling(2) show False by (auto simp: in_cooldown_def split: option.splits)
    qed
    then show ?thesis using cooling ok by (simp add: pending_ok_def)
  next
    case start
    let ?fb' = "fb_step i now fb"
    have "asks_for ?fb' (desired_level fb (the (fst i))) (i, now) =
        asks_for fb (desired_level fb (the (fst i))) (i, now)"
      by (rule asks_for_same_level) (simp_all add: start(3))
    then have "asks_for ?fb' (desired_level fb (the (fst i))) (i, now)"
      by (simp add: asks_for_def)
    then have "pending_ok (seen @ [(i, now)])
        (fb\<lparr>fb_candidate := Some (desired_level fb (the (fst i))), fb_since := Some now\<rparr>)"
      using start(1,2) unfolding start(3) pending_ok_def
      by (simp add: fb_ok_def counts_def)
        (rule exI [of _ seen], rule exI [of _ "fst i"], rule exI [of _ "snd i"],
         rule exI [of _ "[]"], simp)
    then show ?thesis by (simp only: start(3))
  next
    case (wait s)
    then show ?thesis using keep by (simp add: asks_for_def)
  next
    case (change s)
    then show ?thesis using ok' by (simp add: pending_ok_def)
  qed
qed

definition fresh_feedback :: "feedback \<Rightarrow> bool" where
  "fresh_feedback fb \<longleftrightarrow> fb_candidate fb = None \<and> fb_since fb = None \<and> fb_last_change fb = None \<and>
     fb_history fb = []"

lemma pending_ok_run:
  assumes "fresh_feedback fb" and "fb_enabled fb" and "sorted (map snd inputs)"
  shows "pending_ok inputs (interactive.run inputs fb)"
  using assms(3)
proof (induction inputs rule: rev_induct)
  case Nil
  then show ?case using assms by (simp add: pending_ok_def fresh_feedback_def fb_ok_def)
next
  case (snoc e inputs)
  obtain i now where e: "e = (i, now)" by fastforce
  have "fb_enabled (interactive.run inputs fb)"
    using assms(2) by (simp add: fb_enabled_def)
  moreover have "pending_ok inputs (interactive.run inputs fb)"
    using snoc by (simp add: sorted_append)
  moreover have "\<forall>e\<in>set inputs. snd e \<le> now"
    using snoc.prems by (auto simp: e sorted_append)
  ultimately show ?case by (simp add: e interactive.run_append pending_ok_snoc)
qed

text \<open>
  The feedback controller changes level only on sustained evidence: over observations in
  clock order, when an observation at \<open>now\<close> changes the level, there is an earlier one, at least
  \<open>sustain_seconds\<close> before, since which every observation with a p95 over enough samples asked
  for the new level.
\<close>

theorem level_change_sustained:
  assumes "fresh_feedback fb" and "fb_enabled fb" and "sorted (map snd (inputs @ [(i, now)]))"
    and "fb1 = interactive.run inputs fb" and "fb2 = fb_step i now fb1"
    and "fb_level fb2 \<noteq> fb_level fb1"
  shows "\<exists>pre j s suf. inputs = pre @ (j, s) # suf \<and> counts fb j \<and> fb_sustain fb \<le> now - s \<and>
    (\<forall>e\<in>set ((j, s) # suf @ [(i, now)]). asks_for fb1 (fb_level fb2) e)"
proof -
  have en: "fb_enabled fb1" using assms(2,4) by (simp add: fb_enabled_def)
  have p: "pending_ok inputs fb1"
    using pending_ok_run [OF assms(1,2)] assms(3,4) by (simp add: sorted_append)
  then have ok: "fb_ok fb1" by (simp add: pending_ok_def)
  show ?thesis
    using en ok
  proof (cases rule: fb_step_cases [where i = i and now = now])
    case (change s)
    with p assms(5) obtain pre j suf where
      "inputs = pre @ (j, s) # suf" "counts fb1 j"
      "\<forall>e\<in>set ((j, s) # suf). asks_for fb1 (fb_level fb2) e"
      by (auto simp: pending_ok_def)
    moreover have "asks_for fb1 (fb_level fb2) (i, now)"
      using change assms(5) by (simp add: asks_for_def)
    ultimately show ?thesis
      using change(4) assms(4) by (intro exI [of _ pre] exI [of _ j] exI [of _ s] exI [of _ suf])
        (auto simp: counts_def)
  qed (use assms(5,6) in simp_all)
qed

definition example_feedback :: feedback where
  "example_feedback = \<lparr>fb_warn = 100, fb_critical = 300, fb_recovery = 50, fb_min_samples = 2,
     fb_sustain = 1, fb_cooldown = 2, fb_level = HEALTHY, fb_candidate = None, fb_since = None,
     fb_last_change = None, fb_history = []\<rparr>"

lemma example_feedback_sel:
  "fb_warn example_feedback = 100" "fb_critical example_feedback = 300"
  "fb_sustain example_feedback = 1" "fb_cooldown example_feedback = 2"
  "fb_candidate example_feedback = None" "fb_since example_feedback = None"
  "fb_last_change example_feedback = None" "fb_history example_feedback = []"
  by (simp_all add: example_feedback_def)

lemmas feedback_eval = fb_step_def fb_update_def fb_enabled_def desired_level_def
  effective_recovery_ms_def in_cooldown_def

theorem level_change_sustained_witness:
  "fb_level (interactive.run [((Some 400, 5), 10), ((Some 20, 1), 11), ((Some 350, 5), 12)]
     example_feedback) = CRITICAL \<and>
   (\<exists>pre j s suf. [((Some 400, 5), 10), ((Some 20, 1), 11)] = pre @ (j, s::real) # suf \<and>
      counts example_feedback j \<and> 1 \<le> 12 - s)"
proof -
  let ?inputs = "[((Some 400, 5), 10), ((Some 20, 1), 11)] :: ((real option \<times> int) \<times> real) list"
  have e: "interactive.run ?inputs example_feedback =
      example_feedback\<lparr>fb_candidate := Some CRITICAL, fb_since := Some 10\<rparr>"
    by (simp add: feedback_eval example_feedback_def)
  have l: "fb_level (fb_step (Some 350, 5) 12 (interactive.run ?inputs example_feedback)) = CRITICAL"
    unfolding e by (simp add: feedback_eval example_feedback_def)
  have "fb_level (interactive.run ?inputs example_feedback) = HEALTHY"
    unfolding e by (simp add: example_feedback_def)
  with level_change_sustained [of example_feedback ?inputs "(Some 350, 5)" 12, OF _ _ _ refl refl] l
  have "\<exists>pre j s suf. ?inputs = pre @ (j, s) # suf \<and> counts example_feedback j \<and>
      fb_sustain example_feedback \<le> 12 - s"
    by (fastforce simp: fresh_feedback_def fb_enabled_def example_feedback_sel)
  then show ?thesis using l by (simp add: example_feedback_sel)
qed

text \<open>
  Rate limit of the interactive feedback: from a fresh controller, over any sequence of
  updates and clock readings the assertion on the pending candidate never fails and the logged
  level changes are pairwise at least \<open>cooldown_seconds\<close> apart.
\<close>

theorem level_changes_spaced:
  assumes "fresh_feedback fb"
  shows "(\<forall>p n now. \<exists>fb'. fb_update p n now (interactive.run inputs fb) = Inr fb') \<and>
    successively (\<lambda>a b. fb_cooldown fb \<le> b - a) (map lc_at (fb_history (interactive.run inputs fb)))"
proof -
  have "fb_ok (interactive.run inputs fb) = fb_ok fb" if "fb_ok fb" for inputs fb
    using that
  proof (induction inputs fb rule: interactive.run.induct)
    case (2 i now "is" fb)
    then show ?case by (simp add: fb_step_ok)
  qed simp
  moreover have "fb_ok fb" using assms by (simp add: fresh_feedback_def fb_ok_def)
  ultimately have "fb_ok (interactive.run inputs fb)" by simp
  moreover have "interactive.paced fb"
    using assms by (simp add: interactive.paced_def fresh_feedback_def)
  ultimately show ?thesis
    using interactive.changes_spaced [of fb inputs] fb_update_ok by blast
qed

theorem level_changes_spaced_witness:
  "successively (\<lambda>a b. 2 \<le> b - a)
     (map lc_at (fb_history (interactive.run [((Some 400, 5), 10), ((Some 400, 5), 11)]
       example_feedback))) \<and>
   map lc_at (fb_history (interactive.run [((Some 400, 5), 10), ((Some 400, 5), 11)]
       example_feedback)) = [11]"
proof
  have "fb_cooldown example_feedback = 2" by (simp add: example_feedback_def)
  then show "successively (\<lambda>a b. 2 \<le> b - a)
     (map lc_at (fb_history (interactive.run [((Some 400, 5), 10), ((Some 400, 5), 11)]
       example_feedback)))"
    using level_changes_spaced [of example_feedback "[((Some 400, 5), 10), ((Some 400, 5), 11)]"]
    by (simp add: fresh_feedback_def example_feedback_def)
qed (simp add: feedback_eval example_feedback_def)

text \<open>
  Where the hysteresis of the feedback controller ends: with recovery below warn below
  critical and a p95 strictly between recovery and warn, a controller in WARN stays in WARN (it
  recovers only at or below \<open>recovery_ms\<close>), but one in CRITICAL asks for HEALTHY directly.
  The class comment promises recovery only when the p95 is at or below recovery.
\<close>

theorem critical_skips_recovery_threshold:
  assumes "effective_recovery_ms fb < p" and "p < fb_warn fb" and "fb_warn fb \<le> fb_critical fb"
  shows "desired_level (fb\<lparr>fb_level := WARN\<rparr>) p = WARN \<and>
    desired_level (fb\<lparr>fb_level := CRITICAL\<rparr>) p = HEALTHY"
proof -
  have "effective_recovery_ms (fb\<lparr>fb_level := l\<rparr>) = effective_recovery_ms fb" for l
    by (simp add: effective_recovery_ms_def)
  with assms show ?thesis by (simp add: desired_level_def)
qed

theorem critical_skips_recovery_threshold_witness:
  "desired_level (example_feedback\<lparr>fb_level := WARN\<rparr>) 75 = WARN \<and>
   desired_level (example_feedback\<lparr>fb_level := CRITICAL\<rparr>) 75 = HEALTHY"
  by (rule critical_skips_recovery_threshold)
    (simp_all add: example_feedback_def effective_recovery_ms_def)

section \<open>Merging with the resource pressure\<close>

fun interactive_as :: "interactive_level \<Rightarrow> string" where
  "interactive_as HEALTHY = pressure_value NORMAL"
| "interactive_as WARN = pressure_value PRESSURED"
| "interactive_as CRITICAL = pressure_value DEGRADED"

definition pressure_order :: "string \<Rightarrow> int option" where
  "pressure_order s = map_option (int \<circ> pressure_rank) (pressure_state_of s)"

text \<open>\<open>order.get(resource, 0)\<close> reads an unknown name as 0.\<close>

definition merge_pressure :: "string \<Rightarrow> interactive_level \<Rightarrow> string" where
  "merge_pressure resource level =
     (if the (pressure_order (interactive_as level)) \<ge>
         (case pressure_order resource of None \<Rightarrow> 0 | Some r \<Rightarrow> r)
      then interactive_as level else resource)"

fun level_pressure :: "interactive_level \<Rightarrow> pressure_state" where
  "level_pressure HEALTHY = NORMAL"
| "level_pressure WARN = PRESSURED"
| "level_pressure CRITICAL = DEGRADED"

lemma merge_pressure_max:
  "merge_pressure (pressure_value p) l = pressure_value (max p (level_pressure l))"
  by (cases p; cases l)
    (simp_all add: merge_pressure_def pressure_order_def pressure_state_of_def max_def
      less_eq_pressure_state_def)

end
