(* ===== verification/Runtime.thy ===== *)
theory Runtime
  imports Interactive_Signal
begin

text \<open>
  The facade of the expensive plane, \<^verbatim>\<open>src/src/challengeforge/runtime/runtime.py\<close>, with the admission
  gate of \<^verbatim>\<open>admission.py\<close>: observe, classify, raise the floor from the interactive level, adjust the
  concurrency, decide admission. The two clocks a tick reads when it is given none (monotonic
  for the feedback, wall time for the controller) are separate arguments.
\<close>

section \<open>Admission\<close>

record admission =
  ad_allowed :: bool
  ad_reason :: string
  ad_pressure :: pressure_state

text \<open>The arguments \<open>workload_class\<close> and \<open>running_heavy\<close> of \<open>decide\<close> are discarded by its first line.\<close>

definition admission_decide ::
  "pressure_state \<Rightarrow> budget \<Rightarrow> snapshot \<Rightarrow> int \<Rightarrow> interactive_level \<Rightarrow> bool \<Rightarrow> admission" where
  "admission_decide pressure b sn effective_max_workers level critical_hold_all =
     (if running_evaluations sn \<ge> max 1 effective_max_workers
      then \<lparr>ad_allowed = False, ad_reason = ''global_concurrency_full'', ad_pressure = pressure\<rparr>
      else if critical_hold_all \<and> level = CRITICAL
      then \<lparr>ad_allowed = False, ad_reason = ''interactive_critical_hold_all'', ad_pressure = pressure\<rparr>
      else if pressure = DEGRADED \<and> at_least (rss_mb sn) (memory_hard_mb b) \<and>
              running_evaluations sn > 0
      then \<lparr>ad_allowed = False, ad_reason = ''degraded_memory_hold'', ad_pressure = pressure\<rparr>
      else \<lparr>ad_allowed = True, ad_reason = ''admitted'', ad_pressure = pressure\<rparr>)"

section \<open>The runtime\<close>

record runtime =
  rt_budget :: budget
  rt_enabled :: bool
  rt_primed :: bool
  rt_controller :: controller
  rt_feedback :: feedback
  rt_last_snapshot :: "snapshot option"
  rt_last_pressure :: pressure_state
  rt_last_level :: interactive_level
  rt_p95 :: "real option"
  rt_samples :: int

definition new_feedback :: "budget \<Rightarrow> feedback" where
  "new_feedback b =
     \<lparr>fb_warn = interactive_p95_warn_ms b, fb_critical = interactive_p95_critical_ms b,
      fb_recovery = interactive_p95_recovery_ms b, fb_min_samples = interactive_min_samples b,
      fb_sustain = interactive_sustain_seconds b,
      fb_cooldown = max (1 / 2) (adjust_cooldown_seconds b),
      fb_level = HEALTHY, fb_candidate = None, fb_since = None, fb_last_change = None,
      fb_history = []\<rparr>"

definition new_runtime :: "budget \<Rightarrow> bool \<Rightarrow> runtime" where
  "new_runtime b enabled =
     \<lparr>rt_budget = b, rt_enabled = enabled, rt_primed = False, rt_controller = new_controller b None,
      rt_feedback = new_feedback b, rt_last_snapshot = None, rt_last_pressure = NORMAL,
      rt_last_level = HEALTHY, rt_p95 = None, rt_samples = 0\<rparr>"

definition set_interactive_p95_ms :: "real option \<Rightarrow> int \<Rightarrow> runtime \<Rightarrow> runtime" where
  "set_interactive_p95_ms value n rt = rt\<lparr>rt_p95 := value, rt_samples := max 0 n\<rparr>"

record tick_result =
  tk_enabled :: bool
  tk_pressure :: pressure_state
  tk_level :: interactive_level
  tk_workers :: int
  tk_heavy :: int
  tk_admission :: admission
  tk_snapshot :: "snapshot option"

text \<open>The machine's inputs to one tick: the two clocks and the psutil readings.\<close>

record host =
  host_mono :: real
  host_wall :: real
  host_cpu :: "real option"
  host_rss :: "real option"

definition tick :: "int \<Rightarrow> int \<Rightarrow> host \<Rightarrow> runtime \<Rightarrow> exn + tick_result \<times> runtime" where
  "tick queued running h rt =
     (let b = rt_budget rt
      in if \<not> rt_enabled rt
         then Inr (\<lparr>tk_enabled = False, tk_pressure = NORMAL, tk_level = HEALTHY,
                tk_workers = max_evaluation_concurrency b, tk_heavy = max_concurrent_heavy b,
                tk_admission = \<lparr>ad_allowed = True, ad_reason = ''runtime_disabled'',
                  ad_pressure = NORMAL\<rparr>,
                tk_snapshot = None\<rparr>, rt)
         else let use_feedback = fb_enabled (rt_feedback rt)
              in case fb_update (rt_p95 rt) (rt_samples rt) (host_mono h) (rt_feedback rt) of
                   Inl e \<Rightarrow> Inl e
                 | Inr fb \<Rightarrow>
                     (let level = fb_level fb;
                          (primed, sn) = observer_sample (rt_primed rt) (host_cpu h) (host_rss h)
                             queued running (if use_feedback then None else rt_p95 rt);
                          resource_pressure = classify sn b
                      in case (if use_feedback
                               then pressure_state_of
                                      (merge_pressure (pressure_value resource_pressure) level)
                               else Some resource_pressure) of
                           None \<Rightarrow> Inl (ValueError ''not a valid PressureState'')
                         | Some pressure \<Rightarrow>
                             (let (effective, ctl) =
                                    adjust pressure sn (host_wall h) (rt_controller rt);
                                  heavy = (if pressure = DEGRADED \<or> level = CRITICAL then 0
                                           else max_concurrent_heavy b);
                                  decision = admission_decide pressure b sn effective level
                                    (interactive_critical_hold_all b)
                              in Inr (\<lparr>tk_enabled = True, tk_pressure = pressure,
                                    tk_level = level, tk_workers = effective, tk_heavy = heavy,
                                    tk_admission = decision, tk_snapshot = Some sn\<rparr>,
                                  rt\<lparr>rt_primed := primed, rt_controller := ctl,
                                     rt_feedback := fb, rt_last_level := level,
                                     rt_last_snapshot := Some sn, rt_last_pressure := pressure\<rparr>))))"

definition runtime_ok :: "runtime \<Rightarrow> bool" where
  "runtime_ok rt \<longleftrightarrow> budget_ok (rt_budget rt) \<and> controller_ok (rt_controller rt) \<and>
     ct_budget (rt_controller rt) = rt_budget rt \<and> fb_ok (rt_feedback rt)"

lemma new_runtime_ok: "budget_ok b \<Longrightarrow> runtime_ok (new_runtime b enabled)"
  by (simp add: runtime_ok_def new_runtime_def new_controller_ok fb_ok_def new_feedback_def)
    (simp add: new_controller_def)

lemma set_interactive_ok [simp]: "runtime_ok (set_interactive_p95_ms v n rt) = runtime_ok rt"
  by (simp add: runtime_ok_def set_interactive_p95_ms_def)

lemma adjust_budget: "adjust p sn now c = (r, c') \<Longrightarrow> ct_budget c' = ct_budget c"
  by (auto simp: adjust_def Let_def split: prod.splits if_splits)

text \<open>The pressure a tick reports: the classifier's, raised to the level's floor with feedback on.\<close>

definition tick_pressure :: "bool \<Rightarrow> pressure_state \<Rightarrow> interactive_level \<Rightarrow> pressure_state" where
  "tick_pressure use_feedback p level = (if use_feedback then max p (level_pressure level) else p)"

lemma tick_enabled_cases:
  assumes ok: "runtime_ok rt" and en: "rt_enabled rt"
  obtains fb primed sn eff ctl where
    "fb_update (rt_p95 rt) (rt_samples rt) (host_mono h) (rt_feedback rt) = Inr fb" "fb_ok fb"
    "observer_sample (rt_primed rt) (host_cpu h) (host_rss h) queued running
       (if fb_enabled (rt_feedback rt) then None else rt_p95 rt) = (primed, sn)"
    "adjust (tick_pressure (fb_enabled (rt_feedback rt)) (classify sn (rt_budget rt)) (fb_level fb))
       sn (host_wall h) (rt_controller rt) = (eff, ctl)"
    "tick queued running h rt = Inr
       (let p = tick_pressure (fb_enabled (rt_feedback rt)) (classify sn (rt_budget rt)) (fb_level fb)
        in \<lparr>tk_enabled = True, tk_pressure = p, tk_level = fb_level fb, tk_workers = eff,
            tk_heavy = (if p = DEGRADED \<or> fb_level fb = CRITICAL then 0
                        else max_concurrent_heavy (rt_budget rt)),
            tk_admission = admission_decide p (rt_budget rt) sn eff (fb_level fb)
              (interactive_critical_hold_all (rt_budget rt)),
            tk_snapshot = Some sn\<rparr>,
        rt\<lparr>rt_primed := primed, rt_controller := ctl, rt_feedback := fb,
           rt_last_level := fb_level fb, rt_last_snapshot := Some sn,
           rt_last_pressure := tick_pressure (fb_enabled (rt_feedback rt))
             (classify sn (rt_budget rt)) (fb_level fb)\<rparr>)"
proof -
  obtain fb where fb: "fb_update (rt_p95 rt) (rt_samples rt) (host_mono h) (rt_feedback rt) = Inr fb"
    "fb_ok fb"
    using ok fb_update_ok unfolding runtime_ok_def by blast
  obtain primed sn where sn: "observer_sample (rt_primed rt) (host_cpu h) (host_rss h) queued running
       (if fb_enabled (rt_feedback rt) then None else rt_p95 rt) = (primed, sn)"
    by fastforce
  obtain eff ctl where adj:
    "adjust (tick_pressure (fb_enabled (rt_feedback rt)) (classify sn (rt_budget rt)) (fb_level fb))
       sn (host_wall h) (rt_controller rt) = (eff, ctl)"
    by fastforce
  have press: "(if fb_enabled (rt_feedback rt)
      then pressure_state_of (merge_pressure (pressure_value (classify sn (rt_budget rt))) (fb_level fb))
      else Some (classify sn (rt_budget rt))) =
    Some (tick_pressure (fb_enabled (rt_feedback rt)) (classify sn (rt_budget rt)) (fb_level fb))"
    by (simp add: merge_pressure_max tick_pressure_def)
  show ?thesis
    by (rule that [OF fb sn adj]) (simp add: tick_def Let_def en fb(1) sn press adj)
qed

lemma observer_sample_counts:
  "observer_sample pr m r q n p = (pr', sn) \<Longrightarrow>
     queued_evaluations sn = max 0 q \<and> running_evaluations sn = max 0 n \<and> interactive_p95 sn = p"
  by (auto simp: observer_sample_def Let_def)

lemma tick_Inr: "runtime_ok rt \<Longrightarrow> \<exists>t rt'. tick queued running h rt = Inr (t, rt') \<and> runtime_ok rt'"
proof (cases "rt_enabled rt")
  case True
  assume ok: "runtime_ok rt"
  show ?thesis
    by (rule tick_enabled_cases [OF ok True, of h queued running])
      (use ok in \<open>auto simp: runtime_ok_def Let_def dest: adjust_ok adjust_budget\<close>)
qed (simp add: tick_def Let_def)

lemma tick_effect:
  assumes "runtime_ok rt" and "rt_enabled rt" and "tick queued running h rt = Inr (t, rt')"
  shows "runtime_ok rt' \<and> 1 \<le> tk_workers t \<and>
    tk_workers t \<le> max_evaluation_concurrency (rt_budget rt) \<and>
    0 \<le> tk_heavy t \<and> tk_heavy t \<le> max_concurrent_heavy (rt_budget rt) \<and>
    (tk_pressure t = DEGRADED \<or> tk_level t = CRITICAL \<longrightarrow> tk_heavy t = 0) \<and>
    (\<forall>sn. tk_snapshot t = Some sn \<longrightarrow> classify sn (rt_budget rt) \<le> tk_pressure t) \<and>
    (fb_enabled (rt_feedback rt) \<longrightarrow> level_pressure (tk_level t) \<le> tk_pressure t) \<and>
    (ad_allowed (tk_admission t) \<longrightarrow> running < tk_workers t) \<and>
    (ad_allowed (tk_admission t) \<longrightarrow> tk_level t = CRITICAL \<longrightarrow>
       \<not> interactive_critical_hold_all (rt_budget rt))"
proof -
  from tick_Inr [OF assms(1), of queued running h] assms(3) have ok': "runtime_ok rt'" by simp
  obtain e where e: "ct_effective (rt_controller rt) = Some e"
    using assms(1) by (auto simp: runtime_ok_def controller_ok_def)
  show ?thesis
  proof (rule tick_enabled_cases [OF assms(1,2), of h queued running])
    fix fb primed sn eff ctl
    assume sn: "observer_sample (rt_primed rt) (host_cpu h) (host_rss h) queued running
       (if fb_enabled (rt_feedback rt) then None else rt_p95 rt) = (primed, sn)"
      and adj: "adjust (tick_pressure (fb_enabled (rt_feedback rt)) (classify sn (rt_budget rt))
          (fb_level fb)) sn (host_wall h) (rt_controller rt) = (eff, ctl)"
      and t: "tick queued running h rt = Inr
       (let p = tick_pressure (fb_enabled (rt_feedback rt)) (classify sn (rt_budget rt)) (fb_level fb)
        in \<lparr>tk_enabled = True, tk_pressure = p, tk_level = fb_level fb, tk_workers = eff,
            tk_heavy = (if p = DEGRADED \<or> fb_level fb = CRITICAL then 0
                        else max_concurrent_heavy (rt_budget rt)),
            tk_admission = admission_decide p (rt_budget rt) sn eff (fb_level fb)
              (interactive_critical_hold_all (rt_budget rt)),
            tk_snapshot = Some sn\<rparr>,
        rt\<lparr>rt_primed := primed, rt_controller := ctl, rt_feedback := fb,
           rt_last_level := fb_level fb, rt_last_snapshot := Some sn,
           rt_last_pressure := tick_pressure (fb_enabled (rt_feedback rt))
             (classify sn (rt_budget rt)) (fb_level fb)\<rparr>)"
    from adjust_effect [OF _ e adj] assms(1)
    have eff: "1 \<le> eff" "eff \<le> max_evaluation_concurrency (rt_budget rt)"
      by (auto simp: runtime_ok_def)
    from observer_sample_counts [OF sn] have "running_evaluations sn = max 0 running" by simp
    then show ?thesis
      using t eff assms(1,3) ok'
      by (auto simp: Let_def tick_pressure_def runtime_ok_def budget_ok_def admission_decide_def
          split: if_splits)
  qed
qed

lemma tick_limits:
  assumes "runtime_ok rt" and "tick queued running h rt = Inr (t, rt')"
  shows "runtime_ok rt' \<and> rt_budget rt' = rt_budget rt \<and>
    1 \<le> tk_workers t \<and> tk_workers t \<le> max_evaluation_concurrency (rt_budget rt) \<and>
    0 \<le> tk_heavy t \<and> tk_heavy t \<le> max_concurrent_heavy (rt_budget rt)"
proof (cases "rt_enabled rt")
  case True
  have "rt_budget rt' = rt_budget rt"
    using assms(2) by (auto simp: tick_def Let_def split: if_splits sum.splits option.splits prod.splits)
  with tick_effect [OF assms(1) True assms(2)] show ?thesis by blast
next
  case False
  then show ?thesis using assms by (auto simp: tick_def Let_def runtime_ok_def budget_ok_def)
qed

text \<open>
  One tick of the resource-aware runtime never raises and keeps the runtime well formed; it
  reports a worker limit between 1 and the budget's maximum, no more heavy slots than the
  budget has, and no heavy slot at all when the pressure is DEGRADED or the interactive level
  CRITICAL; the pressure it reports is at least the classifier's (and, with feedback on, at
  least the level's floor); and it admits a new evaluation only while fewer run than the
  limit, and none under CRITICAL when the budget holds everything.
\<close>

theorem tick_safe:
  assumes "runtime_ok rt" and "rt_enabled rt" and "tick queued running h rt = Inr (t, rt')"
  shows "runtime_ok rt' \<and> 1 \<le> tk_workers t \<and>
    tk_workers t \<le> max_evaluation_concurrency (rt_budget rt) \<and>
    0 \<le> tk_heavy t \<and> tk_heavy t \<le> max_concurrent_heavy (rt_budget rt) \<and>
    (tk_pressure t = DEGRADED \<or> tk_level t = CRITICAL \<longrightarrow> tk_heavy t = 0) \<and>
    (\<forall>sn. tk_snapshot t = Some sn \<longrightarrow> classify sn (rt_budget rt) \<le> tk_pressure t) \<and>
    (fb_enabled (rt_feedback rt) \<longrightarrow> level_pressure (tk_level t) \<le> tk_pressure t) \<and>
    (ad_allowed (tk_admission t) \<longrightarrow> running < tk_workers t) \<and>
    (ad_allowed (tk_admission t) \<longrightarrow> tk_level t = CRITICAL \<longrightarrow>
       \<not> interactive_critical_hold_all (rt_budget rt))"
  by (rule tick_effect [OF assms])

definition idle_host :: host where
  "idle_host = \<lparr>host_mono = 5, host_wall = 100, host_cpu = Some 12, host_rss = Some 104857600\<rparr>"

definition default_runtime :: runtime where
  "default_runtime = new_runtime (from_settings default_settings) True"

theorem tick_safe_witness:
  "\<exists>t rt'. tick 3 0 idle_host default_runtime = Inr (t, rt') \<and> runtime_ok rt' \<and>
     tk_workers t = 1 \<and> tk_heavy t \<le> 1"
proof -
  have ok: "runtime_ok default_runtime"
    by (simp add: default_runtime_def new_runtime_ok)
  obtain t rt' where t: "tick 3 0 idle_host default_runtime = Inr (t, rt')"
    using tick_Inr [OF ok] by blast
  have b: "rt_budget default_runtime = from_settings default_settings" "rt_enabled default_runtime"
    by (simp_all add: default_runtime_def new_runtime_def)
  have "max_evaluation_concurrency (from_settings default_settings) = 1"
    "max_concurrent_heavy (from_settings default_settings) = 1"
    by (simp_all add: from_settings_def default_settings_def Let_def)
  with tick_safe [OF ok b(2) t] b t show ?thesis by auto
qed

end
