(* ===== verification/Evaluator.thy ===== *)
theory Evaluator
  imports Runtime
begin

text \<open>
  What one stage of an evaluation computes: \<^verbatim>\<open>evaluation/plan.py\<close>, \<^verbatim>\<open>confidence.py\<close>,
  \<^verbatim>\<open>workload_v3.py\<close>, \<^verbatim>\<open>stages.py\<close> and the single-shot evaluator \<^verbatim>\<open>application/evaluator.py\<close>.

  SHA-256 (\<open>hashlib\<close>) is the field \<open>sha\<close> of the environment: any function from byte strings to
  256-bit numbers; the shortest text of a float is \<open>float_repr\<close>; clock readings are the fields
  \<open>work_ms\<close> (time the bounded work of stage \<open>i\<close> took), \<open>slack_ms\<close> (what the clock shows beyond
  work and sleep) and \<open>now_at\<close> (the wall clock when stage \<open>i\<close> is decided on). The theorems hold
  for every environment.
\<close>

record eval_env =
  sha :: "string \<Rightarrow> nat"
  float_repr :: "real \<Rightarrow> string"
  work_ms :: "int \<Rightarrow> real"
  slack_ms :: "int \<Rightarrow> real"
  now_at :: "int \<Rightarrow> datetime"

text \<open>\<open>hexdigest()\<close>, \<open>int(hexdigest()[:k], 16)\<close> and \<open>digest()\<close> of a 256-bit number.\<close>

definition hexdigest :: "nat \<Rightarrow> string" where
  "hexdigest d = hex_of 64 d"

definition digest_prefix :: "nat \<Rightarrow> nat \<Rightarrow> nat" where
  "digest_prefix k d = d mod 16 ^ 64 div 16 ^ (64 - k)"

fun bytes_be :: "nat \<Rightarrow> nat \<Rightarrow> string" where
  "bytes_be 0 n = []"
| "bytes_be (Suc k) n = bytes_be k (n div 256) @ [char_of (n mod 256)]"

definition digest_bytes :: "nat \<Rightarrow> string" where
  "digest_bytes d = bytes_be 32 d"

text \<open>\<open>i.to_bytes(4, "little")\<close>, for \<open>i\<close> below \<open>2 ^ 32\<close>.\<close>

definition to_bytes4 :: "nat \<Rightarrow> string" where
  "to_bytes4 i = rev (bytes_be 4 i)"

text \<open>\<open>int(r)\<close> truncates towards zero.\<close>

definition py_int :: "real \<Rightarrow> int" where
  "py_int r = (if 0 \<le> r then \<lfloor>r\<rfloor> else \<lceil>r\<rceil>)"

text \<open>\<open>str(metadata.get(key, "")).strip().lower()\<close>.\<close>

definition label_or_empty :: "dict \<Rightarrow> string \<Rightarrow> string option" where
  "label_or_empty md key = (case dict_get md key of None \<Rightarrow> Some [] | Some v \<Rightarrow> str_label v)"

section \<open>Plans and stages\<close>

datatype evaluation_mode =
    Legacy | AlwaysExpensive | FixedProgressive | ResourceAwareAdaptive | SyntheticExecution

fun mode_value :: "evaluation_mode \<Rightarrow> string" where
  "mode_value Legacy = ''legacy''"
| "mode_value AlwaysExpensive = ''always_expensive''"
| "mode_value FixedProgressive = ''fixed_progressive''"
| "mode_value ResourceAwareAdaptive = ''resource_aware_adaptive''"
| "mode_value SyntheticExecution = ''synthetic_execution''"

record stage_spec =
  st_name :: string
  st_class :: workload_class
  st_cpu_cost :: real
  st_memory_mb :: real
  st_duration_ms :: int
  st_quality :: real
  st_cost_units :: int

definition CHEAP :: stage_spec where
  "CHEAP = \<lparr>st_name = ''cheap'', st_class = Light, st_cpu_cost = 1, st_memory_mb = 1,
     st_duration_ms = 20, st_quality = 4 / 10, st_cost_units = 1\<rparr>"

definition MEDIUM :: stage_spec where
  "MEDIUM = \<lparr>st_name = ''medium'', st_class = Medium, st_cpu_cost = 3, st_memory_mb = 8,
     st_duration_ms = 80, st_quality = 3 / 10, st_cost_units = 3\<rparr>"

definition HEAVY :: stage_spec where
  "HEAVY = \<lparr>st_name = ''heavy'', st_class = Heavy, st_cpu_cost = 9, st_memory_mb = 32,
     st_duration_ms = 200, st_quality = 3 / 10, st_cost_units = 9\<rparr>"

definition ALWAYS_EXPENSIVE_COST_UNITS :: int where
  "ALWAYS_EXPENSIVE_COST_UNITS = st_cost_units CHEAP + st_cost_units MEDIUM + st_cost_units HEAVY"

definition DEFAULT_PLAN :: "stage_spec list" where
  "DEFAULT_PLAN = [CHEAP, MEDIUM, HEAVY]"

definition stage_at :: "stage_spec list \<Rightarrow> int \<Rightarrow> stage_spec option" where
  "stage_at plan index =
     (if index < 0 \<or> index \<ge> int (length plan) then None else Some (plan ! nat index))"

lemma stage_names [simp]:
  "st_name CHEAP = ''cheap''" "st_name MEDIUM = ''medium''" "st_name HEAVY = ''heavy''"
  by (simp_all add: CHEAP_def MEDIUM_def HEAVY_def)

lemma stage_costs [simp]:
  "st_cost_units CHEAP = 1" "st_cost_units MEDIUM = 3" "st_cost_units HEAVY = 9"
  "ALWAYS_EXPENSIVE_COST_UNITS = 13"
  by (simp_all add: CHEAP_def MEDIUM_def HEAVY_def ALWAYS_EXPENSIVE_COST_UNITS_def)

lemma stage_at_None_iff: "stage_at plan i = None \<longleftrightarrow> i < 0 \<or> int (length plan) \<le> i"
  by (auto simp: stage_at_def)

lemma stage_at_SomeD: "stage_at plan i = Some st \<Longrightarrow> 0 \<le> i \<and> i < int (length plan) \<and> plan ! nat i = st"
  by (auto simp: stage_at_def split: if_splits)

lemma stage_at_default:
  "stage_at DEFAULT_PLAN i =
     (if i = 0 then Some CHEAP else if i = 1 then Some MEDIUM else if i = 2 then Some HEAVY else None)"
proof -
  consider "i < 0" | "i = 0" | "i = 1" | "i = 2" | "3 \<le> i" by linarith
  then show ?thesis by cases (simp_all add: stage_at_def DEFAULT_PLAN_def)
qed

datatype stage_confidence = PassConfident | FailConfident | Uncertain

fun confidence_value :: "stage_confidence \<Rightarrow> string" where
  "confidence_value PassConfident = ''pass_confident''"
| "confidence_value FailConfident = ''fail_confident''"
| "confidence_value Uncertain = ''uncertain''"

section \<open>Workload kinds, ground truth and evidence\<close>

datatype workload_kind =
    EasyPass | EasyFail | AmbiguousPass | AmbiguousFail | HardPass | HardFail
  | AdversarialPass | AdversarialFail

fun kind_value :: "workload_kind \<Rightarrow> string" where
  "kind_value EasyPass = ''easy_pass''"
| "kind_value EasyFail = ''easy_fail''"
| "kind_value AmbiguousPass = ''ambiguous_pass''"
| "kind_value AmbiguousFail = ''ambiguous_fail''"
| "kind_value HardPass = ''hard_pass''"
| "kind_value HardFail = ''hard_fail''"
| "kind_value AdversarialPass = ''adversarial_pass''"
| "kind_value AdversarialFail = ''adversarial_fail''"

definition all_kinds :: "workload_kind list" where
  "all_kinds = [EasyPass, EasyFail, AmbiguousPass, AmbiguousFail, HardPass, HardFail,
     AdversarialPass, AdversarialFail]"

definition workload_kind_of :: "string \<Rightarrow> workload_kind option" where
  "workload_kind_of s = find (\<lambda>k. kind_value k = s) all_kinds"

lemma workload_kind_of_value [simp]: "workload_kind_of (kind_value k) = Some k"
  by (cases k) (simp_all add: workload_kind_of_def all_kinds_def)

definition parse_workload_kind :: "dict \<Rightarrow> workload_kind option" where
  "parse_workload_kind md =
     (let first = dict_get md ''workload_kind'';
          raw = (case first of Some v \<Rightarrow> (if truthy v then first else dict_get md ''adaptive_scenario'')
                 | None \<Rightarrow> dict_get md ''adaptive_scenario'')
      in case raw of
           Some (JStr s) \<Rightarrow>
             (let key = lower (strip s)
              in if key = ''pass_confident'' then Some EasyPass
                 else if key = ''fail_confident'' then Some EasyFail
                 else if key = ''uncertain'' then Some AmbiguousPass
                 else if key = ''requires_expensive'' then Some HardPass
                 else workload_kind_of key)
         | _ \<Rightarrow> None)"

datatype decision = DPass | DFail

record ground_truth =
  gt_decision :: decision
  gt_kind :: workload_kind
  gt_score :: int

definition PASS_THRESHOLD :: int where
  "PASS_THRESHOLD = 60"

definition ground_truth_for :: "(string \<Rightarrow> nat) \<Rightarrow> workload_kind \<Rightarrow> uuid \<Rightarrow> ground_truth" where
  "ground_truth_for sh kind submission_id =
     (let d = (if ends_with ''_pass'' (kind_value kind) then DPass else DFail);
          digest = sh (''truth:'' @ kind_value kind @ '':'' @ uuid_str submission_id);
          jitter = int (digest_prefix 4 digest) mod 15
      in \<lparr>gt_decision = d, gt_kind = kind,
          gt_score = (if d = DPass then 70 + jitter else 10 + jitter)\<rparr>)"

definition decision_from_score :: "int \<Rightarrow> decision" where
  "decision_from_score score = (if score \<ge> PASS_THRESHOLD then DPass else DFail)"

record stage_evidence =
  ev_confidence :: stage_confidence
  ev_safe :: bool
  ev_decision :: "decision option"
  ev_score :: int
  ev_kind :: "workload_kind option"
  ev_notes :: string

definition cheap_evidence :: "(string \<Rightarrow> nat) \<Rightarrow> workload_kind \<Rightarrow> uuid \<Rightarrow> stage_evidence" where
  "cheap_evidence sh kind submission_id =
     (let truth = ground_truth_for sh kind submission_id
      in if kind \<in> {EasyPass, EasyFail} then
           \<lparr>ev_confidence = (if gt_decision truth = DPass then PassConfident else FailConfident),
            ev_safe = True, ev_decision = Some (gt_decision truth), ev_score = gt_score truth,
            ev_kind = Some kind, ev_notes = ''easy: cheap evidence matches ground truth''\<rparr>
         else if kind \<in> {AdversarialPass, AdversarialFail} then
           (let wrong = (if gt_decision truth = DPass then DFail else DPass)
            in \<lparr>ev_confidence = (if wrong = DPass then PassConfident else FailConfident),
                ev_safe = False, ev_decision = Some wrong,
                ev_score = (if wrong = DPass then 95 else 5), ev_kind = Some kind,
                ev_notes = ''adversarial: cheap confident signal disagrees with truth''\<rparr>)
         else
           \<lparr>ev_confidence = Uncertain, ev_safe = False, ev_decision = None, ev_score = 50,
            ev_kind = Some kind, ev_notes = ''insufficient cheap evidence''\<rparr>)"

definition medium_evidence :: "(string \<Rightarrow> nat) \<Rightarrow> workload_kind \<Rightarrow> uuid \<Rightarrow> stage_evidence" where
  "medium_evidence sh kind submission_id =
     (let truth = ground_truth_for sh kind submission_id
      in if kind \<in> {AmbiguousPass, AmbiguousFail} then
           \<lparr>ev_confidence = (if gt_decision truth = DPass then PassConfident else FailConfident),
            ev_safe = True, ev_decision = Some (gt_decision truth), ev_score = gt_score truth,
            ev_kind = Some kind, ev_notes = ''ambiguous: medium sufficient''\<rparr>
         else
           \<lparr>ev_confidence = Uncertain, ev_safe = False, ev_decision = None, ev_score = 50,
            ev_kind = Some kind, ev_notes = ''medium insufficient; need heavy''\<rparr>)"

definition heavy_evidence :: "(string \<Rightarrow> nat) \<Rightarrow> workload_kind \<Rightarrow> uuid \<Rightarrow> stage_evidence" where
  "heavy_evidence sh kind submission_id =
     (let truth = ground_truth_for sh kind submission_id
      in \<lparr>ev_confidence = (if gt_decision truth = DPass then PassConfident else FailConfident),
          ev_safe = True, ev_decision = Some (gt_decision truth), ev_score = gt_score truth,
          ev_kind = Some kind, ev_notes = ''heavy establishes ground truth''\<rparr>)"

definition evidence_for_stage ::
  "(string \<Rightarrow> nat) \<Rightarrow> string \<Rightarrow> workload_kind \<Rightarrow> uuid \<Rightarrow> stage_evidence" where
  "evidence_for_stage sh stage_name kind submission_id =
     (if stage_name = ''cheap'' then cheap_evidence sh kind submission_id
      else if stage_name = ''medium'' then medium_evidence sh kind submission_id
      else heavy_evidence sh kind submission_id)"

text \<open>The decision is the suffix of the kind, and the truth score is on the right side of 60.\<close>

lemma ground_truth_decision [simp]:
  "gt_decision (ground_truth_for sh kind u) =
     (if kind \<in> {EasyPass, AmbiguousPass, HardPass, AdversarialPass} then DPass else DFail)"
  by (cases kind) (simp_all add: ground_truth_for_def Let_def ends_with_def starts_with_def)

lemma ground_truth_score_bounds:
  "(if gt_decision (ground_truth_for sh kind u) = DPass then 70 else 10) \<le> gt_score (ground_truth_for sh kind u)
   \<and> gt_score (ground_truth_for sh kind u)
     \<le> (if gt_decision (ground_truth_for sh kind u) = DPass then 84 else 24)"
proof -
  have b: "0 \<le> int n mod 15 \<and> int n mod 15 \<le> 14" for n by auto
  show ?thesis
    using b [of "digest_prefix 4 (sh (''truth:'' @ kind_value kind @ '':'' @ uuid_str u))"]
    by (simp add: ground_truth_for_def Let_def)
qed

lemma truth_score_decides [simp]:
  "decision_from_score (gt_score (ground_truth_for sh kind u)) = gt_decision (ground_truth_for sh kind u)"
proof -
  define g where "g = ground_truth_for sh kind u"
  have "(if gt_decision g = DPass then 70 else 10) \<le> gt_score g"
    "gt_score g \<le> (if gt_decision g = DPass then 84 else 24)"
    unfolding g_def using ground_truth_score_bounds by blast+
  then show ?thesis
    unfolding g_def [symmetric]
    by (cases "gt_decision g") (simp_all add: decision_from_score_def PASS_THRESHOLD_def)
qed

text \<open>Evidence marked safe carries the ground truth; the heavy stage always does.\<close>

lemma safe_evidence_truth:
  assumes "ev_safe (evidence_for_stage sh name kind u) \<or> name = ''heavy''"
  shows "ev_score (evidence_for_stage sh name kind u) = gt_score (ground_truth_for sh kind u)"
  using assms
  by (auto simp: evidence_for_stage_def cheap_evidence_def medium_evidence_def heavy_evidence_def
      Let_def split: if_splits)

lemma evidence_score_bounds:
  "0 \<le> ev_score (evidence_for_stage sh name kind u) \<and> ev_score (evidence_for_stage sh name kind u) \<le> 100"
proof -
  have "0 \<le> gt_score (ground_truth_for sh kind u) \<and> gt_score (ground_truth_for sh kind u) \<le> 100"
    using ground_truth_score_bounds [of sh kind u] by (auto split: if_splits)
  then show ?thesis
    unfolding evidence_for_stage_def cheap_evidence_def medium_evidence_def heavy_evidence_def Let_def
    by simp
qed

section \<open>Bounded work and the single-shot evaluator\<close>

record workload_profile =
  wp_cpu_iterations :: int
  wp_memory_bytes :: int
  wp_min_duration_ms :: int

fun WORKLOAD_PROFILES :: "workload_class \<Rightarrow> workload_profile" where
  "WORKLOAD_PROFILES Light =
     \<lparr>wp_cpu_iterations = 25000, wp_memory_bytes = 1 * 1024 * 1024, wp_min_duration_ms = 20\<rparr>"
| "WORKLOAD_PROFILES Medium =
     \<lparr>wp_cpu_iterations = 120000, wp_memory_bytes = 8 * 1024 * 1024, wp_min_duration_ms = 80\<rparr>"
| "WORKLOAD_PROFILES Heavy =
     \<lparr>wp_cpu_iterations = 350000, wp_memory_bytes = 32 * 1024 * 1024, wp_min_duration_ms = 200\<rparr>"

definition MAX_MEMORY_BYTES :: int where
  "MAX_MEMORY_BYTES = 48 * 1024 * 1024"

definition MAX_CPU_ITERATIONS :: int where
  "MAX_CPU_ITERATIONS = 500000"

text \<open>The argument of \<open>parse_workload_class\<close>: a member of the enumeration or any other value.\<close>

datatype class_input = IsClass workload_class | IsRaw json

fun parse_workload_class :: "class_input \<Rightarrow> workload_class" where
  "parse_workload_class (IsClass c) = c"
| "parse_workload_class (IsRaw v) =
     (if v = JNull then Light
      else case str_label v of
        None \<Rightarrow> Light
      | Some text \<Rightarrow> (case workload_class_of text of Some c \<Rightarrow> c | None \<Rightarrow> Light))"

definition bounded_cpu_iterations :: "int \<Rightarrow> nat" where
  "bounded_cpu_iterations iterations = nat (min (max iterations 1) MAX_CPU_ITERATIONS)"

definition bounded_cpu_work :: "(string \<Rightarrow> nat) \<Rightarrow> int \<Rightarrow> string \<Rightarrow> string" where
  "bounded_cpu_work sh iterations seed =
     hexdigest (fold (\<lambda>i digest. sh (digest_bytes digest @ to_bytes4 i))
                  [0..<bounded_cpu_iterations iterations] (sh seed))"

text \<open>The block that is allocated, touched and dropped has the size that is returned.\<close>

definition bounded_memory_work :: "int \<Rightarrow> int" where
  "bounded_memory_work nbytes =
     (let size = min (max nbytes 0) MAX_MEMORY_BYTES in if size \<le> 0 then 0 else size)"

text \<open>
  The measured time of work padded by a sleep to a minimal duration: \<open>work\<close> is the clock after
  the work, the sleep lasts for what remains, \<open>slack\<close> is what the last reading shows on top.
\<close>

definition padded_ms :: "int \<Rightarrow> real \<Rightarrow> real \<Rightarrow> real" where
  "padded_ms duration work slack =
     (let remaining = of_int duration - work in (if remaining > 0 then work + remaining else work) + slack)"

definition JOpt :: "('a \<Rightarrow> json) \<Rightarrow> 'a option \<Rightarrow> json" where
  "JOpt f x = (case x of None \<Rightarrow> JNull | Some y \<Rightarrow> f y)"

record evaluation_outcome =
  eo_score :: int
  eo_result_metadata :: dict
  eo_class :: workload_class
  eo_cpu_ms :: real
  eo_peak_bytes :: int

definition evaluate_submission ::
  "eval_env \<Rightarrow> uuid \<Rightarrow> dict \<Rightarrow> string option \<Rightarrow> class_input option \<Rightarrow> exn + evaluation_outcome" where
  "evaluate_submission env submission_id md artifact_key workload_class =
     (if dict_get md ''force_evaluation_failure'' = Some (JBool True)
      then Inl (EvaluationFailed ''Forced evaluation failure via submission metadata.'')
      else
        let cls = parse_workload_class
              (case workload_class of Some c \<Rightarrow> c
               | None \<Rightarrow> (case dict_get md ''workload_class'' of None \<Rightarrow> IsRaw JNull | Some v \<Rightarrow> IsRaw v));
            profile = WORKLOAD_PROFILES cls;
            peak_alloc = bounded_memory_work (wp_memory_bytes profile);
            cpu_token = bounded_cpu_work (sha env) (wp_cpu_iterations profile)
              (uuid_str submission_id @ '':'' @ workload_class_value cls);
            cpu_ms = padded_ms (wp_min_duration_ms profile) (work_ms env 0) (slack_ms env 0);
            canonical = utf8 (json_dumps (float_repr env) False True (JObj
              [(''submission_id'', JStr (uuid_str submission_id)),
               (''metadata'', JObj md),
               (''artifact_key'', JOpt JStr artifact_key),
               (''workload_class'', JStr (workload_class_value cls))]));
            digest = sha env (canonical @ cpu_token);
            score = int (digest_prefix 8 digest) mod 101
        in Inr \<lparr>eo_score = score,
             eo_result_metadata =
               [(''evaluator'', JStr ''deterministic_placeholder_v2''),
                (''fingerprint'', JStr (take 16 (hexdigest digest))),
                (''has_artifact'', JBool (artifact_key \<noteq> None)),
                (''metadata_keys'', JList (map JStr (sort (map fst md)))),
                (''workload_class'', JStr (workload_class_value cls)),
                (''cpu_iterations'', JInt (wp_cpu_iterations profile)),
                (''memory_bytes'', JInt (wp_memory_bytes profile)),
                (''execution_cpu_ms'', JFloat (py_round 3 cpu_ms)),
                (''peak_alloc_bytes'', JInt peak_alloc)],
             eo_class = cls, eo_cpu_ms = py_round 3 cpu_ms, eo_peak_bytes = peak_alloc\<rparr>)"

lemma bounded_memory_work_bounds: "0 \<le> bounded_memory_work n \<and> bounded_memory_work n \<le> MAX_MEMORY_BYTES"
  unfolding bounded_memory_work_def Let_def MAX_MEMORY_BYTES_def by auto

lemma mod_101_le: "(x :: int) mod 101 \<le> 100"
  using pos_mod_bound [of 101 x] by linarith

lemma bounded_cpu_iterations_bounds:
  "1 \<le> bounded_cpu_iterations n \<and> bounded_cpu_iterations n \<le> nat MAX_CPU_ITERATIONS"
  by (simp add: bounded_cpu_iterations_def MAX_CPU_ITERATIONS_def) linarith

text \<open>
  The single-shot evaluator fails exactly on the forced-failure flag (the JSON value true, nothing
  else), and otherwise gives a score between 0 and 100 for the class it was asked for, within the
  memory cap. Its score does not depend on the clock: two executions with the same hash function
  and float printing give the same score and fingerprint.
\<close>

theorem evaluate_submission_deterministic:
  "((\<exists>e. evaluate_submission env u md ak wc = Inl e)
      \<longleftrightarrow> dict_get md ''force_evaluation_failure'' = Some (JBool True)) \<and>
   (case evaluate_submission env u md ak (Some (IsClass c)) of
      Inl e \<Rightarrow> http_status e = 500
    | Inr r \<Rightarrow> 0 \<le> eo_score r \<and> eo_score r \<le> 100 \<and> eo_class r = c \<and>
        eo_peak_bytes r = wp_memory_bytes (WORKLOAD_PROFILES c) \<and>
        eo_peak_bytes r \<le> MAX_MEMORY_BYTES \<and>
        (case evaluate_submission (env\<lparr>work_ms := w, slack_ms := sl, now_at := n\<rparr>) u md ak
             (Some (IsClass c)) of
           Inl e \<Rightarrow> False
         | Inr r' \<Rightarrow> eo_score r' = eo_score r \<and>
             dict_get (eo_result_metadata r') ''fingerprint'' = dict_get (eo_result_metadata r) ''fingerprint''))"
  by (cases c) (simp_all add: evaluate_submission_def Let_def bounded_memory_work_def MAX_MEMORY_BYTES_def
      mod_101_le del: json_dumps.simps)

section \<open>Running one stage\<close>

record stage_outcome =
  so_stage :: stage_spec
  so_confidence :: stage_confidence
  so_score :: int
  so_cpu_ms :: real
  so_peak_bytes :: int
  so_evidence :: dict
  so_safe :: bool

definition scenario_confidence :: "string \<Rightarrow> stage_confidence option" where
  "scenario_confidence key =
     (if key = ''pass_confident'' then Some PassConfident
      else if key = ''fail_confident'' then Some FailConfident
      else if key = ''uncertain'' \<or> key = ''requires_expensive'' then Some Uncertain
      else None)"

definition legacy_scenario_confidence :: "(string \<Rightarrow> nat) \<Rightarrow> dict \<Rightarrow> uuid \<Rightarrow> stage_confidence" where
  "legacy_scenario_confidence sh md submission_id =
     (let bucket = digest_prefix 8 (sh (uuid_str submission_id)) mod 100;
          hashed = (if bucket < 25 then PassConfident else if bucket < 50 then FailConfident else Uncertain)
      in case dict_get md ''adaptive_scenario'' of
           Some (JStr s) \<Rightarrow> (case scenario_confidence (lower (strip s)) of Some c \<Rightarrow> c | None \<Rightarrow> hashed)
         | _ \<Rightarrow> hashed)"

definition legacy_safe_to_terminate :: "stage_confidence \<Rightarrow> dict \<Rightarrow> string \<Rightarrow> bool" where
  "legacy_safe_to_terminate confidence md stage_name =
     (if label_or_empty md ''adaptive_scenario'' = Some ''requires_expensive'' \<and> stage_name \<noteq> ''heavy''
      then False else confidence \<in> {PassConfident, FailConfident})"

text \<open>Whether \<open>force_stage_failure\<close> names the stage.\<close>

definition forced_stage :: "dict \<Rightarrow> string \<Rightarrow> bool" where
  "forced_stage md name =
     (case dict_get md ''force_stage_failure'' of
        None \<Rightarrow> False
      | Some v \<Rightarrow> v \<noteq> JNull \<and> str_label v = Some name)"

text \<open>The part of \<open>run_stage\<close> without a workload kind: confidence, score, safety, fingerprint.\<close>

definition legacy_stage ::
  "eval_env \<Rightarrow> stage_spec \<Rightarrow> uuid \<Rightarrow> dict \<Rightarrow> string option \<Rightarrow> int \<Rightarrow> string
     \<Rightarrow> stage_confidence \<times> int \<times> bool \<times> string" where
  "legacy_stage env stage submission_id md artifact_key stage_index token =
     (let confidence =
            (if label_or_empty md ''adaptive_scenario'' = Some ''requires_expensive'' \<and> st_name stage \<noteq> ''heavy''
             then Uncertain else legacy_scenario_confidence (sha env) md submission_id);
          canonical = utf8 (json_dumps (float_repr env) False True (JObj
            [(''submission_id'', JStr (uuid_str submission_id)),
             (''stage'', JStr (st_name stage)),
             (''stage_index'', JInt stage_index),
             (''metadata'', JObj md),
             (''artifact_key'', JOpt JStr artifact_key)]));
          digest = sha env (canonical @ token);
          base_score = int (digest_prefix 8 digest) mod 101;
          score = (if confidence = PassConfident \<and> stage_index = 0 then 90 + base_score mod 11
                   else if confidence = FailConfident \<and> stage_index = 0 then base_score mod 20
                   else 40 + base_score mod 41)
      in (confidence, score, legacy_safe_to_terminate confidence md (st_name stage),
          take 16 (hexdigest digest)))"

text \<open>The scoring part of \<open>run_stage\<close>: confidence, score, safety, fingerprint and notes.\<close>

definition judge_stage ::
  "eval_env \<Rightarrow> uuid \<Rightarrow> dict \<Rightarrow> string option \<Rightarrow> int \<Rightarrow> stage_spec \<Rightarrow> string
     \<Rightarrow> stage_confidence \<times> int \<times> bool \<times> string \<times> string" where
  "judge_stage env submission_id md artifact_key stage_index stage token =
     (case parse_workload_kind md of
        Some k \<Rightarrow>
          (let e = evidence_for_stage (sha env) (st_name stage) k submission_id
           in (ev_confidence e, ev_score e, ev_safe e,
               take 16 (hexdigest (sha env (uuid_str submission_id @ '':'' @ st_name stage @ '':'' @
                 kind_value k @ '':'' @ dec_int (ev_score e)))),
               ev_notes e))
      | None \<Rightarrow>
          (let (c, s, sf, f) = legacy_stage env stage submission_id md artifact_key stage_index token
           in (c, s, sf, f, ''legacy_adaptive_scenario'')))"

text \<open>\<open>StageOutcome(...)\<close>, the value returned at the end of \<open>run_stage\<close>.\<close>

definition make_outcome ::
  "stage_spec \<Rightarrow> int \<Rightarrow> workload_kind option \<Rightarrow> real \<Rightarrow> int
     \<Rightarrow> stage_confidence \<times> int \<times> bool \<times> string \<times> string \<Rightarrow> stage_outcome" where
  "make_outcome stage stage_index kind cpu_ms peak j =
     (case j of (confidence, score, safe, fp, notes) \<Rightarrow>
        \<lparr>so_stage = stage, so_confidence = confidence,
         so_score = min 100 (max 0 score), so_cpu_ms = py_round 3 cpu_ms, so_peak_bytes = peak,
         so_evidence =
           [(''stage'', JStr (st_name stage)),
            (''stage_index'', JInt stage_index),
            (''confidence'', JStr (confidence_value confidence)),
            (''safe_to_terminate'', JBool safe),
            (''fingerprint'', JStr fp),
            (''cost_units'', JInt (st_cost_units stage)),
            (''workload_class'', JStr (workload_class_value (st_class stage))),
            (''workload_kind'', JOpt (\<lambda>k. JStr (kind_value k)) kind),
            (''notes'', JStr notes)],
         so_safe = safe\<rparr>)"

definition run_stage ::
  "eval_env \<Rightarrow> uuid \<Rightarrow> dict \<Rightarrow> string option \<Rightarrow> int \<Rightarrow> stage_spec \<Rightarrow> exn + stage_outcome" where
  "run_stage env submission_id md artifact_key stage_index stage =
     (if dict_get md ''force_evaluation_failure'' = Some (JBool True)
      then Inl (EvaluationFailed ''Forced evaluation failure via submission metadata.'')
      else if forced_stage md (st_name stage)
      then Inl (EvaluationFailed (''Forced stage failure at '' @ st_name stage @ ''.''))
      else
        let peak = bounded_memory_work (py_int (st_memory_mb stage * 1024 * 1024));
            iterations = py_int (25000 * st_cpu_cost stage);
            token = bounded_cpu_work (sha env) iterations
              (uuid_str submission_id @ '':'' @ st_name stage @ '':'' @ dec_int stage_index);
            cpu_ms = padded_ms (st_duration_ms stage) (work_ms env stage_index) (slack_ms env stage_index)
        in Inr (make_outcome stage stage_index (parse_workload_kind md) cpu_ms peak
             (judge_stage env submission_id md artifact_key stage_index stage token)))"

lemma make_outcome_sel [simp]:
  "so_stage (make_outcome st i kind ms peak j) = st"
  "so_confidence (make_outcome st i kind ms peak j) = fst j"
  "so_score (make_outcome st i kind ms peak j) = min 100 (max 0 (fst (snd j)))"
  "so_safe (make_outcome st i kind ms peak j) = fst (snd (snd j))"
  "so_peak_bytes (make_outcome st i kind ms peak j) = peak"
  "dict_get (so_evidence (make_outcome st i kind ms peak j)) ''stage'' = Some (JStr (st_name st))"
  by (simp_all add: make_outcome_def split_def)

lemma judge_known_kind:
  assumes "parse_workload_kind md = Some k"
  shows "fst (judge_stage env u md ak i st token) = ev_confidence (evidence_for_stage (sha env) (st_name st) k u)"
    and "fst (snd (judge_stage env u md ak i st token)) = ev_score (evidence_for_stage (sha env) (st_name st) k u)"
    and "fst (snd (snd (judge_stage env u md ak i st token))) = ev_safe (evidence_for_stage (sha env) (st_name st) k u)"
  using assms by (simp_all add: judge_stage_def Let_def)

lemma run_stage_InrE:
  assumes "run_stage env u md ak i st = Inr out"
  obtains ms peak token where
    "out = make_outcome st i (parse_workload_kind md) ms peak (judge_stage env u md ak i st token)"
    and "0 \<le> peak" and "peak \<le> MAX_MEMORY_BYTES"
  using assms bounded_memory_work_bounds
  by (auto simp: run_stage_def Let_def split: if_splits)

text \<open>What later proofs use of a stage: its stage, its bounds, its failures, its evidence.\<close>

lemma run_stage_fails_iff:
  "(\<exists>e. run_stage env u md ak i st = Inl e) \<longleftrightarrow>
     dict_get md ''force_evaluation_failure'' = Some (JBool True) \<or> forced_stage md (st_name st)"
  by (simp add: run_stage_def Let_def)

lemma run_stage_shape:
  assumes "run_stage env u md ak i st = Inr out"
  shows "so_stage out = st" and "0 \<le> so_score out" and "so_score out \<le> 100"
    and "0 \<le> so_peak_bytes out" and "so_peak_bytes out \<le> MAX_MEMORY_BYTES"
    and "dict_get (so_evidence out) ''stage'' = Some (JStr (st_name st))"
  using assms by (auto elim!: run_stage_InrE)

lemma run_stage_known_kind:
  assumes "run_stage env u md ak i st = Inr out" and "parse_workload_kind md = Some k"
  shows "so_confidence out = ev_confidence (evidence_for_stage (sha env) (st_name st) k u)"
    and "so_safe out = ev_safe (evidence_for_stage (sha env) (st_name st) k u)"
    and "so_score out = ev_score (evidence_for_stage (sha env) (st_name st) k u)"
  using assms evidence_score_bounds [of "sha env" "st_name st" k u]
  by (auto elim!: run_stage_InrE simp: judge_known_kind)

end
