(* ===== verification/Ownership.thy ===== *)
theory Ownership
  imports Evaluator
begin

text \<open>
  Execution ownership, \<^verbatim>\<open>execution/ownership.py\<close>: the identity of one operating-system execution, its
  representation in the result metadata of an evaluation, and the containment of an orphaned process
  tree before its job is requeued.

  What \<open>psutil\<close> and the file system report is the record \<open>os\<close>: which pids exist and are
  running, the descendants of a pid, and (after the signals and the wait) which pids are still
  alive. The fields \<open>root_pid\<close> and \<open>pgid\<close> of a stored attempt are integers or null and the
  others strings, as \<open>to_metadata\<close> writes them.
\<close>

record execution_attempt =
  ea_id :: string
  ea_evaluation_id :: string
  ea_worker_id :: string
  ea_workload :: string
  ea_root_pid :: "int option"
  ea_pgid :: "int option"
  ea_workspace :: "string option"
  ea_ownership :: string

definition to_metadata :: "execution_attempt \<Rightarrow> dict" where
  "to_metadata a =
     [(''execution_attempt_id'', JStr (ea_id a)),
      (''evaluation_id'', JStr (ea_evaluation_id a)),
      (''worker_id'', JStr (ea_worker_id a)),
      (''workload'', JStr (ea_workload a)),
      (''root_pid'', JOpt JInt (ea_root_pid a)),
      (''pgid'', JOpt JInt (ea_pgid a)),
      (''workspace'', JOpt JStr (ea_workspace a)),
      (''ownership'', JStr (ea_ownership a))]"

text \<open>\<open>str(d.get(key) or default)\<close> and \<open>d.get(key)\<close> for the integer and string fields.\<close>

definition str_field :: "dict \<Rightarrow> string \<Rightarrow> string \<Rightarrow> string" where
  "str_field d key dflt =
     (case dict_get d key of Some (JStr s) \<Rightarrow> (if s = [] then dflt else s) | _ \<Rightarrow> dflt)"

definition int_field :: "dict \<Rightarrow> string \<Rightarrow> int option" where
  "int_field d key = (case dict_get d key of Some (JInt i) \<Rightarrow> Some i | _ \<Rightarrow> None)"

definition opt_str_field :: "dict \<Rightarrow> string \<Rightarrow> string option" where
  "opt_str_field d key = (case dict_get d key of Some (JStr s) \<Rightarrow> Some s | _ \<Rightarrow> None)"

definition from_metadata :: "json \<Rightarrow> execution_attempt option" where
  "from_metadata v =
     (case v of
        JObj data \<Rightarrow>
          (let attempt = (case dict_get data ''execution_attempt'' of
                 Some (JObj a) \<Rightarrow> Some a
               | _ \<Rightarrow> (if dict_get data ''execution_attempt_id'' \<noteq> None then Some data else None))
           in case attempt of
                None \<Rightarrow> None
              | Some a \<Rightarrow>
                  (case dict_get a ''execution_attempt_id'' of
                     None \<Rightarrow> None
                   | Some i \<Rightarrow>
                       if \<not> truthy i then None
                       else Some \<lparr>ea_id = str_field a ''execution_attempt_id'' '''',
                              ea_evaluation_id = str_field a ''evaluation_id'' '''',
                              ea_worker_id = str_field a ''worker_id'' '''',
                              ea_workload = str_field a ''workload'' '''',
                              ea_root_pid = int_field a ''root_pid'',
                              ea_pgid = int_field a ''pgid'',
                              ea_workspace = opt_str_field a ''workspace'',
                              ea_ownership = str_field a ''ownership'' ''pid_tracking_only''\<rparr>))
      | _ \<Rightarrow> None)"

definition new_attempt :: "string \<Rightarrow> string \<Rightarrow> string \<Rightarrow> string \<Rightarrow> string \<Rightarrow> execution_attempt" where
  "new_attempt fresh evaluation_id worker_id workload ownership =
     \<lparr>ea_id = fresh, ea_evaluation_id = evaluation_id, ea_worker_id = worker_id, ea_workload = workload,
      ea_root_pid = None, ea_pgid = None, ea_workspace = None, ea_ownership = ownership\<rparr>"

section \<open>Processes\<close>

text \<open>
  \<open>os_state pid\<close> is \<open>None\<close> when \<open>psutil\<close> raises for the process, else whether it is running and
  whether it is a zombie. \<open>os_descendants\<close> is \<open>None\<close> when listing the tree raises.
\<close>

record os =
  os_exists :: "int \<Rightarrow> bool"
  os_state :: "int \<Rightarrow> (bool \<times> bool) option"
  os_descendants :: "int \<Rightarrow> int list option"
  os_path_exists :: "string \<Rightarrow> bool"
  os_after_exists :: "int \<Rightarrow> bool"
  os_after_state :: "int \<Rightarrow> (bool \<times> bool) option"

definition alive_in :: "(int \<Rightarrow> bool) \<Rightarrow> (int \<Rightarrow> (bool \<times> bool) option) \<Rightarrow> int option \<Rightarrow> bool" where
  "alive_in ex state pid =
     (case pid of
        None \<Rightarrow> False
      | Some p \<Rightarrow>
          if p \<le> 0 then False
          else if \<not> ex p then False
          else case state p of None \<Rightarrow> False | Some (run, zombie) \<Rightarrow> run \<and> \<not> zombie)"

definition pid_alive :: "os \<Rightarrow> int option \<Rightarrow> bool" where
  "pid_alive s pid = alive_in (os_exists s) (os_state s) pid"

text \<open>The same question once the tree has been terminated, killed and waited for.\<close>

definition pid_alive_after :: "os \<Rightarrow> int option \<Rightarrow> bool" where
  "pid_alive_after s pid = alive_in (os_after_exists s) (os_after_state s) pid"

definition collect_tree_pids :: "os \<Rightarrow> int option \<Rightarrow> int list" where
  "collect_tree_pids s root_pid =
     (case root_pid of
        None \<Rightarrow> []
      | Some r \<Rightarrow>
          if \<not> pid_alive s (Some r) then []
          else case os_descendants s r of None \<Rightarrow> [] | Some cs \<Rightarrow> r # cs)"

record containment =
  ct_attempt_id :: string
  ct_root_pid :: "int option"
  ct_was_alive :: bool
  ct_still_alive :: "int list"
  ct_workspace_exists :: bool
  ct_contained :: bool

text \<open>The pids the containment acts on.\<close>

definition contain_targets :: "os \<Rightarrow> execution_attempt \<Rightarrow> int list" where
  "contain_targets s a =
     (let pids = collect_tree_pids s (ea_root_pid a)
      in case ea_root_pid a of
           None \<Rightarrow> pids
         | Some r \<Rightarrow> (if r \<noteq> 0 \<and> r \<notin> set pids \<and> pid_alive s (Some r) then pids @ [r] else pids))"

definition contain_attempt :: "os \<Rightarrow> execution_attempt \<Rightarrow> containment" where
  "contain_attempt s a =
     (let was_alive = pid_alive s (ea_root_pid a);
          report = \<lparr>ct_attempt_id = ea_id a, ct_root_pid = ea_root_pid a, ct_was_alive = was_alive,
             ct_still_alive = [],
             ct_workspace_exists = (case ea_workspace a of None \<Rightarrow> False
                | Some w \<Rightarrow> w \<noteq> [] \<and> os_path_exists s w),
             ct_contained = True\<rparr>
      in if \<not> was_alive \<and> ea_root_pid a = None then report
         else let still = filter (\<lambda>p. pid_alive_after s (Some p)) (contain_targets s a)
              in report\<lparr>ct_still_alive := still, ct_contained := (length still = 0)\<rparr>)"

definition orphan_suspected :: "os \<Rightarrow> execution_attempt option \<Rightarrow> bool" where
  "orphan_suspected s a = (case a of None \<Rightarrow> False | Some x \<Rightarrow> pid_alive s (ea_root_pid x))"

text \<open>The report as the JSON object stored in the metadata (the fields the code reads back).\<close>

definition containment_json :: "containment \<Rightarrow> json" where
  "containment_json c = JObj
     [(''execution_attempt_id'', JStr (ct_attempt_id c)),
      (''root_pid'', JOpt JInt (ct_root_pid c)),
      (''was_alive'', JBool (ct_was_alive c)),
      (''still_alive'', JList (map JInt (ct_still_alive c))),
      (''workspace_exists'', JBool (ct_workspace_exists c)),
      (''contained'', JBool (ct_contained c))]"

lemma contain_root_tracked:
  "orphan_suspected s (Some a) \<Longrightarrow> \<exists>r. ea_root_pid a = Some r \<and> r \<in> set (contain_targets s a)"
  by (cases "ea_root_pid a")
    (auto simp: orphan_suspected_def contain_targets_def pid_alive_def alive_in_def Let_def)

lemma contain_attempt_contained:
  "ct_contained (contain_attempt s a) \<longleftrightarrow> ct_still_alive (contain_attempt s a) = []"
  by (simp add: contain_attempt_def Let_def)

text \<open>
  Ownership metadata survives storage: reading back what was written for an attempt (with a
  non-empty id and ownership) gives the attempt, whether it is nested under
  \<open>execution_attempt\<close> among any other keys or embedded flat.
\<close>

theorem ownership_metadata_roundtrip:
  assumes "ea_id a \<noteq> []" and "ea_ownership a \<noteq> []"
  shows "from_metadata (JObj (dict_set md ''execution_attempt'' (JObj (to_metadata a)))) = Some a \<and>
    from_metadata (JObj (to_metadata a)) = Some a"
  using assms
  by (auto simp: from_metadata_def to_metadata_def str_field_def int_field_def opt_str_field_def JOpt_def
      Let_def split: option.splits)

theorem ownership_metadata_roundtrip_witness:
  "from_metadata (JObj (dict_set [(''evaluator'', JStr ''x'')] ''execution_attempt''
     (JObj (to_metadata (new_attempt ''a1'' ''e1'' ''w1'' ''ok'' ''job_object'')))))
   = Some (new_attempt ''a1'' ''e1'' ''w1'' ''ok'' ''job_object'')"
  using ownership_metadata_roundtrip [of "new_attempt ''a1'' ''e1'' ''w1'' ''ok'' ''job_object''"
      "[(''evaluator'', JStr ''x'')]"]
  by (simp add: new_attempt_def)

text \<open>
  A suspected orphan is reported as contained only if its root process is really gone: when the
  report says nothing is still alive, the root pid and every descendant listed before are dead
  after the containment, and otherwise \<open>contained\<close> is false.
\<close>

theorem containment_report_sound:
  assumes "orphan_suspected s (Some a)"
  shows "ct_was_alive (contain_attempt s a) \<and>
    (ct_contained (contain_attempt s a) \<longleftrightarrow>
       \<not> (\<exists>p. p \<in> set (contain_targets s a) \<and> pid_alive_after s (Some p))) \<and>
    (ct_contained (contain_attempt s a) \<longrightarrow> \<not> pid_alive_after s (ea_root_pid a))"
proof -
  obtain r where r: "ea_root_pid a = Some r" "r \<in> set (contain_targets s a)"
    using contain_root_tracked [OF assms] by blast
  have "pid_alive s (Some r)" using assms r by (simp add: orphan_suspected_def)
  with r show ?thesis by (auto simp: contain_attempt_def Let_def filter_empty_conv)
qed

definition one_process :: os where
  "one_process = \<lparr>os_exists = (\<lambda>p. p = 42), os_state = (\<lambda>p. Some (True, False)),
     os_descendants = (\<lambda>p. Some [43]), os_path_exists = (\<lambda>s. False),
     os_after_exists = (\<lambda>p. p = 43), os_after_state = (\<lambda>p. Some (True, False))\<rparr>"

theorem containment_report_sound_witness:
  "\<not> ct_contained (contain_attempt one_process
     ((new_attempt ''a1'' ''e1'' ''w1'' ''ok'' ''pid'')\<lparr>ea_root_pid := Some 42\<rparr>))"
  using containment_report_sound [of one_process
      "(new_attempt ''a1'' ''e1'' ''w1'' ''ok'' ''pid'')\<lparr>ea_root_pid := Some 42\<rparr>"]
  by (auto simp: orphan_suspected_def pid_alive_def pid_alive_after_def alive_in_def one_process_def
      new_attempt_def contain_targets_def collect_tree_pids_def Let_def)

end
