(* ===== verification/Eval_Queue.thy ===== *)
theory Eval_Queue
  imports Job_Table Ownership
begin

text \<open>
  The evaluation queue: the table \<open>evaluations\<close> and the singleton scheduler row, with the
  operations of \<open>EvaluationRepository\<close> (\<^verbatim>\<open>persistence/repositories.py\<close>). Each operation is one atomic
  transaction (the code serialises claims with \<open>FOR UPDATE\<close> on the singleton row); the wall clock
  \<open>now\<close> and fresh ids are arguments. \<open>ORDER BY created_at, id\<close> is sorting by \<open>fifo_key\<close>.
\<close>

section \<open>State\<close>

record scheduler =
  blocked_heavy_id :: "uuid option"
  light_bypass_count :: int
  sch_pressure_state :: string
  sch_adaptive_max_workers :: "int option"
  sch_interactive_p95_ms :: "real option"
  sch_interactive_sample_count :: int
  sch_pool_wait_p95_ms :: "real option"

record equeue =
  evals :: "evaluation list"
  sched :: "scheduler option"

definition fifo_key :: "evaluation \<Rightarrow> datetime \<times> uuid" where
  "fifo_key e = (e_created_at e, e_id e)"

definition is_queued :: "evaluation \<Rightarrow> bool" where
  "is_queued e \<longleftrightarrow> e_status e = EQueued"

definition queued_fifo :: "equeue \<Rightarrow> evaluation list" where
  "queued_fifo q = sort_key fifo_key (filter is_queued (evals q))"

definition running_count :: "equeue \<Rightarrow> nat" where
  "running_count q = length (filter (\<lambda>e. e_status e = ERunning) (evals q))"

definition running_heavy_count :: "equeue \<Rightarrow> nat" where
  "running_heavy_count q =
     length (filter (\<lambda>e. e_status e = ERunning \<and> e_workload_class e = Heavy) (evals q))"

definition eval_get :: "equeue \<Rightarrow> uuid \<Rightarrow> evaluation option" where
  "eval_get q i = find (\<lambda>e. e_id e = i) (evals q)"

definition get_by_submission :: "equeue \<Rightarrow> uuid \<Rightarrow> evaluation option" where
  "get_by_submission q sid = find (\<lambda>e. e_submission_id e = sid) (evals q)"

section \<open>Enqueue and guarded updates\<close>

text \<open>The unique constraints on \<open>id\<close> and \<open>submission_id\<close> are the \<open>IntegrityError\<close>.\<close>

definition create_queued ::
  "datetime \<Rightarrow> uuid \<Rightarrow> uuid \<Rightarrow> workload_class \<Rightarrow> string \<Rightarrow> datetime option \<Rightarrow> int \<Rightarrow> equeue
     \<Rightarrow> exn + evaluation \<times> equeue" where
  "create_queued now fresh submission_id workload_class mode deadline_at current_stage q =
     (let row = \<lparr>e_id = fresh, e_submission_id = submission_id, e_status = EQueued, e_created_at = now,
            e_started_at = None, e_completed_at = None, e_attempt_count = 0, e_failure_reason = None,
            e_score = None, e_result_metadata = [], e_worker_id = None,
            e_workload_class = workload_class, e_current_stage = current_stage, e_mode = mode,
            e_deadline_at = deadline_at\<rparr>
      in if \<exists>e\<in>set (evals q). e_id e = fresh \<or> e_submission_id e = submission_id
         then Inl IntegrityError
         else Inr (row, q\<lparr>evals := evals q @ [row]\<rparr>))"

text \<open>The guard of every completion: the row is RUNNING and owned by this worker.\<close>

definition owned_running :: "uuid \<Rightarrow> worker_id \<Rightarrow> evaluation \<Rightarrow> bool" where
  "owned_running i w e \<longleftrightarrow> e_id e = i \<and> e_status e = ERunning \<and> e_worker_id e = Some w"

definition on_evals ::
  "(evaluation \<Rightarrow> bool) \<Rightarrow> (evaluation \<Rightarrow> evaluation) \<Rightarrow> equeue \<Rightarrow> evaluation option \<times> equeue" where
  "on_evals p f q = (let (r, rows) = update_returning p f (evals q) in (r, q\<lparr>evals := rows\<rparr>))"

definition defer_escalation ::
  "uuid \<Rightarrow> worker_id \<Rightarrow> int \<Rightarrow> workload_class \<Rightarrow> dict \<Rightarrow> equeue \<Rightarrow> evaluation option \<times> equeue" where
  "defer_escalation i w next_stage workload_class md =
     on_evals (owned_running i w)
       (\<lambda>e. e\<lparr>e_status := EQueued, e_started_at := None, e_worker_id := None,
           e_current_stage := next_stage, e_workload_class := workload_class,
           e_result_metadata := md, e_failure_reason := None\<rparr>)"

definition release_for_retry ::
  "uuid \<Rightarrow> worker_id \<Rightarrow> dict \<Rightarrow> string \<Rightarrow> equeue \<Rightarrow> evaluation option \<times> equeue" where
  "release_for_retry i w md why =
     on_evals (owned_running i w)
       (\<lambda>e. e\<lparr>e_status := EQueued, e_started_at := None, e_worker_id := None,
           e_result_metadata := md, e_failure_reason := Some why\<rparr>)"

definition mark_succeeded ::
  "datetime \<Rightarrow> uuid \<Rightarrow> worker_id \<Rightarrow> int \<Rightarrow> dict \<Rightarrow> equeue \<Rightarrow> evaluation option \<times> equeue" where
  "mark_succeeded now i w score md =
     on_evals (owned_running i w)
       (\<lambda>e. e\<lparr>e_status := ESucceeded, e_completed_at := Some now, e_score := Some score,
           e_result_metadata := md, e_failure_reason := None\<rparr>)"

definition mark_failed ::
  "datetime \<Rightarrow> uuid \<Rightarrow> worker_id \<Rightarrow> string \<Rightarrow> dict option \<Rightarrow> equeue \<Rightarrow> evaluation option \<times> equeue" where
  "mark_failed now i w why md =
     on_evals (owned_running i w)
       (\<lambda>e. e\<lparr>e_status := EFailed, e_completed_at := Some now, e_failure_reason := Some why,
           e_score := None,
           e_result_metadata := (case md of Some m \<Rightarrow> m | None \<Rightarrow> e_result_metadata e)\<rparr>)"

definition begin_execution_attempt ::
  "uuid \<Rightarrow> worker_id \<Rightarrow> dict \<Rightarrow> equeue \<Rightarrow> evaluation option \<times> equeue" where
  "begin_execution_attempt i w attempt =
     on_evals (owned_running i w)
       (\<lambda>e. let md = dict_set (e_result_metadata e) ''execution_attempt'' (JObj attempt)
            in e\<lparr>e_result_metadata := dict_set md ''evaluator''
                 (case dict_get md ''evaluator'' of
                    Some v \<Rightarrow> (if truthy v then v else JStr ''synthetic_execution_v1'')
                  | None \<Rightarrow> JStr ''synthetic_execution_v1'')\<rparr>)"

section \<open>Claiming\<close>

definition initial_scheduler :: scheduler where
  "initial_scheduler = \<lparr>blocked_heavy_id = None, light_bypass_count = 0, sch_pressure_state = ''normal'',
     sch_adaptive_max_workers = None, sch_interactive_p95_ms = None, sch_interactive_sample_count = 0,
     sch_pool_wait_p95_ms = None\<rparr>"

text \<open>\<open>INSERT .. ON CONFLICT DO NOTHING\<close> followed by the locked read of the singleton row.\<close>

definition ensure_scheduler :: "scheduler \<Rightarrow> equeue \<Rightarrow> scheduler" where
  "ensure_scheduler dflt q = (case sched q of None \<Rightarrow> dflt | Some s \<Rightarrow> s)"

definition unblock :: "scheduler \<Rightarrow> scheduler" where
  "unblock s = s\<lparr>blocked_heavy_id := None, light_bypass_count := 0\<rparr>"

definition claim_row :: "datetime \<Rightarrow> worker_id \<Rightarrow> evaluation \<Rightarrow> evaluation" where
  "claim_row now w e =
     e\<lparr>e_status := ERunning, e_started_at := Some now, e_attempt_count := e_attempt_count e + 1,
       e_worker_id := Some w, e_failure_reason := None\<rparr>"

definition take_row :: "datetime \<Rightarrow> worker_id \<Rightarrow> evaluation \<Rightarrow> scheduler \<Rightarrow> equeue \<Rightarrow> evaluation option \<times> equeue" where
  "take_row now w row st q =
     (Some (claim_row now w row),
      q\<lparr>evals := update_where (\<lambda>e. e_id e = e_id row) (claim_row now w) (evals q), sched := Some st\<rparr>)"

definition claim_next ::
  "datetime \<Rightarrow> worker_id \<Rightarrow> string \<Rightarrow> int \<Rightarrow> int \<Rightarrow> int \<Rightarrow> equeue \<Rightarrow> evaluation option \<times> equeue" where
  "claim_next now w policy max_workers heavy_limit light_bypass_limit q =
     (let max_workers = max 1 max_workers;
          max_heavy = max 0 (min heavy_limit max_workers);
          limit = max 0 light_bypass_limit;
          policy = (if policy = ''resource_aware'' then ''bounded_light_bypass'' else policy);
          st = ensure_scheduler initial_scheduler q;
          q = q\<lparr>sched := Some st\<rparr>
      in if int (running_count q) \<ge> max_workers then (None, q)
         else case queued_fifo q of
           [] \<Rightarrow> (None, q\<lparr>sched := Some (unblock st)\<rparr>)
         | oldest # behind \<Rightarrow>
             if e_workload_class oldest = Heavy then
               if int (running_heavy_count q) \<ge> max_heavy \<or> max_heavy = 0 then
                 if policy \<noteq> ''bounded_light_bypass'' then (None, q)
                 else
                   let st = (if blocked_heavy_id st \<noteq> Some (e_id oldest)
                         then st\<lparr>blocked_heavy_id := Some (e_id oldest), light_bypass_count := 0\<rparr> else st)
                   in if light_bypass_count st \<ge> limit then (None, q\<lparr>sched := Some st\<rparr>)
                      else (case behind of
                         successor # _ \<Rightarrow>
                           if e_workload_class successor \<noteq> Light then (None, q\<lparr>sched := Some st\<rparr>)
                           else take_row now w successor
                                  (st\<lparr>light_bypass_count := light_bypass_count st + 1\<rparr>) q
                       | [] \<Rightarrow> (None, q\<lparr>sched := Some st\<rparr>))
               else take_row now w oldest (unblock st) q
             else take_row now w oldest (unblock st) q)"

section \<open>Scheduler state shared with the API\<close>

definition persist_runtime_state :: "string \<Rightarrow> int \<Rightarrow> equeue \<Rightarrow> equeue" where
  "persist_runtime_state pressure workers q =
     q\<lparr>sched := Some ((ensure_scheduler (initial_scheduler\<lparr>sch_pressure_state := pressure,
          sch_adaptive_max_workers := Some workers\<rparr>) q)
        \<lparr>sch_pressure_state := pressure, sch_adaptive_max_workers := Some workers\<rparr>)\<rparr>"

definition persist_interactive_hint :: "real option \<Rightarrow> int \<Rightarrow> real option \<Rightarrow> equeue \<Rightarrow> equeue" where
  "persist_interactive_hint p95 n pool_wait q =
     q\<lparr>sched := Some ((ensure_scheduler (initial_scheduler\<lparr>sch_interactive_p95_ms := p95,
          sch_interactive_sample_count := max 0 n, sch_pool_wait_p95_ms := pool_wait\<rparr>) q)
        \<lparr>sch_interactive_p95_ms := p95, sch_interactive_sample_count := max 0 n,
         sch_pool_wait_p95_ms := pool_wait\<rparr>)\<rparr>"

record runtime_state =
  rs_pressure_state :: string
  rs_adaptive_max_workers :: "int option"
  rs_interactive_p95_ms :: "real option"
  rs_interactive_sample_count :: int
  rs_pool_wait_p95_ms :: "real option"

definition read_runtime_state :: "equeue \<Rightarrow> runtime_state" where
  "read_runtime_state q =
     (case sched q of
        None \<Rightarrow> \<lparr>rs_pressure_state = ''normal'', rs_adaptive_max_workers = None,
           rs_interactive_p95_ms = None, rs_interactive_sample_count = 0, rs_pool_wait_p95_ms = None\<rparr>
      | Some s \<Rightarrow> \<lparr>rs_pressure_state = (if sch_pressure_state s = [] then ''normal'' else sch_pressure_state s),
           rs_adaptive_max_workers = sch_adaptive_max_workers s,
           rs_interactive_p95_ms = sch_interactive_p95_ms s,
           rs_interactive_sample_count = sch_interactive_sample_count s,
           rs_pool_wait_p95_ms = sch_pool_wait_p95_ms s\<rparr>)"

section \<open>Recovery of stale claims\<close>

definition orphan_reason :: string where
  "orphan_reason = ''orphan_suspected: prior execution still alive after '' @
     ''containment; refused duplicate requeue''"

definition abandoned_reason :: "int \<Rightarrow> string" where
  "abandoned_reason max_attempts = ''Abandoned after '' @ dec_int max_attempts @
     '' attempt(s) without completion (worker crash / stale RUNNING).''"

definition requeued_reason :: string where
  "requeued_reason = ''Requeued after stale RUNNING (worker crash recovery; '' @
     ''prior execution contained).''"

definition is_stale :: "datetime \<Rightarrow> evaluation \<Rightarrow> bool" where
  "is_stale stale_before e \<longleftrightarrow> e_status e = ERunning \<and>
     (case e_started_at e of None \<Rightarrow> False | Some t \<Rightarrow> t < stale_before)"

definition release_stale :: "datetime \<Rightarrow> int \<Rightarrow> dict \<Rightarrow> evaluation \<Rightarrow> evaluation" where
  "release_stale now max_attempts md e =
     (let e = e\<lparr>e_result_metadata := md\<rparr>
      in if e_attempt_count e \<ge> max_attempts
         then e\<lparr>e_status := EFailed, e_completed_at := Some now,
                e_failure_reason := Some (abandoned_reason max_attempts), e_worker_id := None\<rparr>
         else e\<lparr>e_status := EQueued, e_started_at := None, e_worker_id := None,
                e_failure_reason := Some requeued_reason\<rparr>)"

text \<open>The body of the loop over the stale rows; \<open>s\<close> is what the operating system reports.\<close>

definition recover_row :: "datetime \<Rightarrow> int \<Rightarrow> os \<Rightarrow> evaluation \<Rightarrow> evaluation" where
  "recover_row now max_attempts s e =
     (let md = e_result_metadata e;
          attempt = from_metadata (JObj md)
      in case attempt of
           None \<Rightarrow> release_stale now max_attempts md e
         | Some a \<Rightarrow>
             if orphan_suspected s attempt then
               (let c = contain_attempt s a;
                    md = dict_set md ''ownership_recovery'' (containment_json c)
                in if ct_still_alive c \<noteq> [] then
                     e\<lparr>e_result_metadata := dict_set md ''orphan_suspected'' (JBool True),
                       e_status := EFailed, e_completed_at := Some now,
                       e_failure_reason := Some orphan_reason, e_worker_id := None\<rparr>
                   else release_stale now max_attempts (dict_set md ''orphan_suspected'' (JBool False)) e)
             else release_stale now max_attempts
               (dict_set md ''ownership_recovery'' (JObj
                  [(''execution_attempt_id'', JStr (ea_id a)),
                   (''root_pid'', JOpt JInt (ea_root_pid a)),
                   (''was_alive'', JBool False),
                   (''contained'', JBool True)])) e)"

definition recover_stale_running ::
  "datetime \<Rightarrow> datetime \<Rightarrow> int \<Rightarrow> (uuid \<Rightarrow> os) \<Rightarrow> equeue \<Rightarrow> evaluation list \<times> equeue" where
  "recover_stale_running now stale_before max_attempts os_of q =
     (let f = (\<lambda>e. recover_row now max_attempts (os_of (e_id e)) e)
      in (map f (filter (is_stale stale_before) (evals q)),
          q\<lparr>evals := update_where (is_stale stale_before) f (evals q)\<rparr>))"

section \<open>Positions and counts\<close>

text \<open>The \<open>WHERE\<close> clause of \<open>queue_position\<close>: queued and before the row in FIFO order.\<close>

definition ahead_of :: "evaluation \<Rightarrow> evaluation \<Rightarrow> bool" where
  "ahead_of row e \<longleftrightarrow> is_queued e \<and>
     (e_created_at e < e_created_at row \<or> (e_created_at e = e_created_at row \<and> e_id e < e_id row))"

definition queue_position :: "equeue \<Rightarrow> uuid \<Rightarrow> nat option" where
  "queue_position q i =
     (case eval_get q i of
        None \<Rightarrow> None
      | Some row \<Rightarrow> (if \<not> is_queued row then None
                   else Some (length (filter (ahead_of row) (evals q)))))"

definition list_queued_fifo :: "nat \<Rightarrow> equeue \<Rightarrow> evaluation list" where
  "list_queued_fifo limit q = take limit (queued_fifo q)"

definition count_by_status :: "equeue \<Rightarrow> evaluation_status \<Rightarrow> nat" where
  "count_by_status q s = length (filter (\<lambda>e. e_status e = s) (evals q))"

record plane =
  pl_queued :: nat
  pl_running :: nat
  pl_running_heavy :: nat
  pl_oldest_class :: "workload_class option"

definition plane_snapshot :: "equeue \<Rightarrow> plane" where
  "plane_snapshot q =
     \<lparr>pl_queued = count_by_status q EQueued, pl_running = count_by_status q ERunning,
      pl_running_heavy = running_heavy_count q,
      pl_oldest_class = (case queued_fifo q of [] \<Rightarrow> None | e # _ \<Rightarrow> Some (e_workload_class e))\<rparr>"

record queue_snap =
  qs_queued :: nat
  qs_running :: nat
  qs_succeeded :: nat
  qs_failed :: nat
  qs_oldest_queued_at :: "datetime option"
  qs_oldest_age_seconds :: "real option"
  qs_recent_completed :: nat
  qs_light :: nat
  qs_medium :: nat
  qs_heavy :: nat

definition queue_snapshot :: "datetime \<Rightarrow> real \<Rightarrow> equeue \<Rightarrow> queue_snap" where
  "queue_snapshot now rate_window q =
     (let created = map e_created_at (filter is_queued (evals q));
          oldest = (if created = [] then None else Some (Min (set created)));
          by_class = (\<lambda>c. length (filter (\<lambda>e. is_queued e \<and> e_workload_class e = c) (evals q)))
      in \<lparr>qs_queued = count_by_status q EQueued, qs_running = count_by_status q ERunning,
          qs_succeeded = count_by_status q ESucceeded, qs_failed = count_by_status q EFailed,
          qs_oldest_queued_at = oldest,
          qs_oldest_age_seconds = (case oldest of None \<Rightarrow> None
             | Some t \<Rightarrow> Some (max 0 (of_int (now - t) / 1000000))),
          qs_recent_completed = length (filter (\<lambda>e. e_status e \<in> {ESucceeded, EFailed} \<and>
             (case e_completed_at e of None \<Rightarrow> False
              | Some t \<Rightarrow> of_int t \<ge> (of_int now - rate_window * 1000000 :: real))) (evals q)),
          qs_light = by_class Light, qs_medium = by_class Medium, qs_heavy = by_class Heavy\<rparr>)"

text \<open>\<open>GROUP BY challenge_id\<close> of the queued evaluations joined with their submissions.\<close>

definition count_queued_by_challenge :: "submission list \<Rightarrow> equeue \<Rightarrow> (uuid \<times> nat) list" where
  "count_queued_by_challenge subs q =
     (let joined = concat (map (\<lambda>e. map s_challenge_id (filter (\<lambda>s. s_id s = e_submission_id e) subs))
                     (filter is_queued (evals q)))
      in map (\<lambda>c. (c, length (filter ((=) c) joined))) (remdups joined))"

definition list_all_evals :: "equeue \<Rightarrow> evaluation list" where
  "list_all_evals q = sort_key e_created_at (evals q)"

section \<open>The guarded updates\<close>

definition ids_unique :: "equeue \<Rightarrow> bool" where
  "ids_unique q \<longleftrightarrow> distinct (map e_id (evals q))"

lemma on_evals_sel [simp]:
  "fst (on_evals p f q) = fst (update_returning p f (evals q))"
  "evals (snd (on_evals p f q)) = update_where p f (evals q)"
  "sched (snd (on_evals p f q)) = sched q"
  by (simp_all add: on_evals_def split_def update_returning_rows)

lemmas guarded_defs =
  defer_escalation_def release_for_retry_def mark_succeeded_def mark_failed_def begin_execution_attempt_def

lemma queued_set [simp]: "set (queued_fifo q) = {e \<in> set (evals q). is_queued e}"
  by (simp add: queued_fifo_def)

lemma queued_sorted: "sorted (map fifo_key (queued_fifo q))"
  by (simp add: queued_fifo_def)

lemma queued_distinct: "ids_unique q \<Longrightarrow> distinct (queued_fifo q)"
  by (simp add: queued_fifo_def ids_unique_def distinct_map)

text \<open>A completion by a worker that does not own the running row changes nothing.\<close>

lemma not_owned_refused:
  assumes "\<forall>e\<in>set (evals q). \<not> owned_running i w e"
  shows "on_evals (owned_running i w) f q = (None, q)"
  using assms by (simp add: on_evals_def update_returning_def find_None_iff[THEN iffD2])

text \<open>
  Completion is guarded by ownership: when a worker does not hold the running claim of an
  evaluation, deferring, releasing, succeeding, failing and recording an attempt all return
  nothing and leave the queue exactly as it was.
\<close>

theorem completion_requires_ownership:
  assumes "\<forall>e\<in>set (evals q). e_id e = i \<longrightarrow> \<not> (e_status e = ERunning \<and> e_worker_id e = Some w)"
  shows "mark_succeeded now i w score md q = (None, q) \<and> mark_failed now i w why md' q = (None, q) \<and>
    defer_escalation i w stage cls md q = (None, q) \<and> release_for_retry i w md why q = (None, q) \<and>
    begin_execution_attempt i w att q = (None, q)"
proof -
  have "\<forall>e\<in>set (evals q). \<not> owned_running i w e"
    using assms by (auto simp: owned_running_def)
  then show ?thesis by (simp add: guarded_defs not_owned_refused)
qed

text \<open>Rows for the examples: a queued evaluation of a class, created at a time.\<close>

definition example_row :: "uuid \<Rightarrow> datetime \<Rightarrow> workload_class \<Rightarrow> evaluation" where
  "example_row i t c = \<lparr>e_id = i, e_submission_id = 100 + i, e_status = EQueued, e_created_at = t,
     e_started_at = None, e_completed_at = None, e_attempt_count = 0, e_failure_reason = None,
     e_score = None, e_result_metadata = [], e_worker_id = None, e_workload_class = c,
     e_current_stage = 0, e_mode = ''legacy'', e_deadline_at = None\<rparr>"

lemma example_row_sel [simp]:
  "e_id (example_row i t c) = i" "e_status (example_row i t c) = EQueued"
  "e_created_at (example_row i t c) = t" "e_workload_class (example_row i t c) = c"
  "e_worker_id (example_row i t c) = None" "e_attempt_count (example_row i t c) = 0"
  "e_started_at (example_row i t c) = None" "e_result_metadata (example_row i t c) = []"
  by (simp_all add: example_row_def)

theorem completion_requires_ownership_witness:
  "mark_succeeded 9 1 ''w2'' 80 []
     \<lparr>evals = [claim_row 5 ''w1'' (example_row 1 0 Light)], sched = None\<rparr>
   = (None, \<lparr>evals = [claim_row 5 ''w1'' (example_row 1 0 Light)], sched = None\<rparr>)"
  using completion_requires_ownership [of "\<lparr>evals = [claim_row 5 ''w1'' (example_row 1 0 Light)], sched = None\<rparr>" 1 "''w2''" 9 80 "[]"]
  by (simp add: claim_row_def)

section \<open>What a claim does\<close>

text \<open>When the head of the queue is a HEAVY evaluation that may not start.\<close>

definition heavy_blocked :: "int \<Rightarrow> int \<Rightarrow> equeue \<Rightarrow> bool" where
  "heavy_blocked max_workers heavy_limit q \<longleftrightarrow>
     (let max_heavy = max 0 (min heavy_limit (max 1 max_workers))
      in int (running_heavy_count q) \<ge> max_heavy \<or> max_heavy = 0)"

definition bounded_policy :: "string \<Rightarrow> bool" where
  "bounded_policy policy \<longleftrightarrow> policy \<in> {''resource_aware'', ''bounded_light_bypass''}"

text \<open>The bypasses already granted to the head \<open>h\<close>.\<close>

definition bypasses_of :: "uuid \<Rightarrow> equeue \<Rightarrow> int" where
  "bypasses_of h q =
     (let st = ensure_scheduler initial_scheduler q
      in if blocked_heavy_id st = Some h then light_bypass_count st else 0)"

lemma running_counts_sched [simp]:
  "running_count (q\<lparr>sched := s\<rparr>) = running_count q"
  "running_heavy_count (q\<lparr>sched := s\<rparr>) = running_heavy_count q"
  "queued_fifo (q\<lparr>sched := s\<rparr>) = queued_fifo q"
  by (simp_all add: running_count_def running_heavy_count_def queued_fifo_def)

text \<open>The claim by cases, with the conditions of the code.\<close>

lemma claim_full:
  "int (running_count q) \<ge> max 1 mw \<Longrightarrow> fst (claim_next now w pol mw hl bl q) = None"
  by (simp add: claim_next_def Let_def)

lemma claim_empty:
  "queued_fifo q = [] \<Longrightarrow> fst (claim_next now w pol mw hl bl q) = None"
  by (simp add: claim_next_def Let_def)

lemma claim_head:
  assumes "int (running_count q) < max 1 mw" and "queued_fifo q = oldest # behind"
    and "\<not> (e_workload_class oldest = Heavy \<and> heavy_blocked mw hl q)"
  shows "claim_next now w pol mw hl bl q =
    take_row now w oldest (unblock (ensure_scheduler initial_scheduler q))
      (q\<lparr>sched := Some (ensure_scheduler initial_scheduler q)\<rparr>)"
  using assms unfolding claim_next_def heavy_blocked_def Let_def not_le [symmetric]
  by (simp del: max.bounded_iff)

lemma claim_blocked:
  assumes "int (running_count q) < max 1 mw" and "queued_fifo q = oldest # behind"
    and "e_workload_class oldest = Heavy" and "heavy_blocked mw hl q"
  shows "fst (claim_next now w pol mw hl bl q) =
    (if bounded_policy pol \<and> bypasses_of (e_id oldest) q < max 0 bl
     then (case behind of
             successor # _ \<Rightarrow> (if e_workload_class successor = Light then Some (claim_row now w successor) else None)
           | [] \<Rightarrow> None)
     else None)"
  using assms unfolding claim_next_def heavy_blocked_def bounded_policy_def bypasses_of_def Let_def
    not_le [symmetric]
  by (cases behind) (simp_all add: take_row_def del: max.bounded_iff)


text \<open>A claim either leaves the rows alone or takes one queued row, which may be HEAVY only unblocked.\<close>

lemma claim_effect:
  obtains (refused) st where "claim_next now w pol mw hl bl q = (None, q\<lparr>sched := Some st\<rparr>)"
  | (taken) row st q0 where "claim_next now w pol mw hl bl q = take_row now w row st q0"
      and "evals q0 = evals q" and "row \<in> set (queued_fifo q)"
      and "int (running_count q) < max 1 mw"
      and "e_workload_class row = Heavy \<Longrightarrow> \<not> heavy_blocked mw hl q"
proof (cases "int (running_count q) \<ge> max 1 mw")
  case True
  then show thesis using refused by (simp add: claim_next_def Let_def)
next
  case room: False
  then have room': "int (running_count q) < max 1 mw" by (rule not_le_imp_less)
  show thesis
  proof (cases "queued_fifo q")
    case Nil
    with room show thesis using refused by (simp add: claim_next_def Let_def del: max.bounded_iff)
  next
    case (Cons oldest behind)
    show thesis
    proof (cases "e_workload_class oldest = Heavy \<and> heavy_blocked mw hl q")
      case False
      show thesis
        by (rule taken [OF claim_head [OF room' Cons False]]) (use False room' Cons in auto)
    next
      case blocked: True
      note unfolded = claim_next_def [of now w pol mw hl bl q, unfolded Let_def]
      show thesis
      proof (cases "\<exists>st. claim_next now w pol mw hl bl q = (None, q\<lparr>sched := Some st\<rparr>)")
        case True
        then show thesis using refused by blast
      next
        case False
        then obtain s rest st where "behind = s # rest" "e_workload_class s = Light"
            "claim_next now w pol mw hl bl q =
               take_row now w s st (q\<lparr>sched := Some (ensure_scheduler initial_scheduler q)\<rparr>)"
          using room Cons blocked unfolding unfolded heavy_blocked_def Let_def
          by (simp del: max.bounded_iff split: if_splits list.splits) blast+
        then show thesis using taken [of s st] room' Cons by (simp add: set_ConsD)
      qed
    qed
  qed
qed

lemma claim_row_sel [simp]:
  "e_id (claim_row now w e) = e_id e" "e_status (claim_row now w e) = ERunning"
  "e_workload_class (claim_row now w e) = e_workload_class e" "e_worker_id (claim_row now w e) = Some w"
  "e_attempt_count (claim_row now w e) = e_attempt_count e + 1" "e_started_at (claim_row now w e) = Some now"
  "e_created_at (claim_row now w e) = e_created_at e" "e_result_metadata (claim_row now w e) = e_result_metadata e"
  "e_submission_id (claim_row now w e) = e_submission_id e"
  by (simp_all add: claim_row_def)

lemma claim_counts:
  assumes "ids_unique q" and "claim_next now w policy max_workers heavy_limit bypass_limit q = (Some e, q')"
  shows "\<exists>row. row \<in> set (evals q) \<and> e_status row = EQueued \<and> e = claim_row now w row \<and>
    evals q' = update_where (\<lambda>r. e_id r = e_id row) (claim_row now w) (evals q) \<and> ids_unique q' \<and>
    running_count q' = running_count q + 1 \<and> int (running_count q') \<le> max 1 max_workers \<and>
    running_heavy_count q' = running_heavy_count q + (if e_workload_class e = Heavy then 1 else 0) \<and>
    (e_workload_class e = Heavy \<longrightarrow>
       int (running_heavy_count q') \<le> max 0 (min heavy_limit (max 1 max_workers)))"
proof (cases rule: claim_effect [of now w policy max_workers heavy_limit bypass_limit q])
  case refused
  then show ?thesis using assms(2) by simp
next
  case (taken row st q0)
  have row: "row \<in> set (evals q)" "e_status row = EQueued"
    using taken(3) by (simp_all add: is_queued_def)
  have e: "e = claim_row now w row" and rows: "evals q' = update_where (\<lambda>r. e_id r = e_id row) (claim_row now w) (evals q)"
    using assms(2) taken(1,2) by (auto simp: take_row_def)
  note count = count_update_key [OF assms(1) [unfolded ids_unique_def] row(1), where f = "claim_row now w"]
  have "running_count q' = running_count q + 1"
    using count [where q = "\<lambda>e. e_status e = ERunning"] row(2) by (simp add: running_count_def rows)
  moreover have heavy: "running_heavy_count q' = running_heavy_count q + (if e_workload_class e = Heavy then 1 else 0)"
    using count [where q = "\<lambda>e. e_status e = ERunning \<and> e_workload_class e = Heavy"] row(2)
    by (simp add: running_heavy_count_def rows e)
  moreover have "ids_unique q'"
    using assms(1) by (simp add: ids_unique_def rows map_update_where)
  moreover have "int (running_heavy_count q') \<le> max 0 (min heavy_limit (max 1 max_workers))"
    if "e_workload_class e = Heavy"
    using taken(5) that heavy by (auto simp: e heavy_blocked_def Let_def)
  ultimately show ?thesis using row e rows taken(4) by auto
qed

text \<open>
  The concurrency budget is never exceeded: a successful claim turns exactly one queued row into
  a running one of this worker with one more attempt, all other rows stay, and after it the running
  evaluations are within the worker budget; when the row is HEAVY, so are the running HEAVY ones
  within the HEAVY limit (0 blocks them).
\<close>

theorem claim_within_budget:
  assumes "ids_unique q" and "claim_next now w policy max_workers heavy_limit bypass_limit q = (Some e, q')"
  shows "\<exists>row. row \<in> set (evals q) \<and> e_status row = EQueued \<and> e = claim_row now w row \<and>
    evals q' = update_where (\<lambda>r. e_id r = e_id row) (claim_row now w) (evals q) \<and> ids_unique q' \<and>
    running_count q' = running_count q + 1 \<and> int (running_count q') \<le> max 1 max_workers \<and>
    running_heavy_count q' = running_heavy_count q + (if e_workload_class e = Heavy then 1 else 0) \<and>
    (e_workload_class e = Heavy \<longrightarrow>
       int (running_heavy_count q') \<le> max 0 (min heavy_limit (max 1 max_workers)))"
  by (rule claim_counts [OF assms])

lemma example_queue_fifo:
  "queued_fifo \<lparr>evals = [example_row 1 0 Light, example_row 2 5 Heavy], sched = None\<rparr>
   = [example_row 1 0 Light, example_row 2 5 Heavy]"
  by (simp add: queued_fifo_def is_queued_def fifo_key_def)

theorem claim_within_budget_witness:
  "\<exists>e q'. claim_next 9 ''w'' ''fifo'' 1 1 2
       \<lparr>evals = [example_row 1 0 Light, example_row 2 5 Heavy], sched = None\<rparr> = (Some e, q') \<and>
     running_count q' = 1 \<and> e_id e = 1"
proof -
  let ?q = "\<lparr>evals = [example_row 1 0 Light, example_row 2 5 Heavy], sched = None\<rparr>"
  have "fst (claim_next 9 ''w'' ''fifo'' 1 1 2 ?q) = Some (claim_row 9 ''w'' (example_row 1 0 Light))"
    by (subst claim_head [OF _ example_queue_fifo]) (simp_all add: running_count_def take_row_def)
  then obtain q' where q': "claim_next 9 ''w'' ''fifo'' 1 1 2 ?q = (Some (claim_row 9 ''w'' (example_row 1 0 Light)), q')"
    by (cases "claim_next 9 ''w'' ''fifo'' 1 1 2 ?q") simp
  from claim_within_budget [OF _ q'] show ?thesis
    using q' by (auto simp: ids_unique_def running_count_def)
qed

section \<open>The steps of the queue\<close>

text \<open>Every repository operation other than a claim, with any arguments.\<close>

inductive queue_op :: "equeue \<Rightarrow> equeue \<Rightarrow> bool" where
  op_create: "create_queued now fresh sid cls mode dl stage q = Inr (e, q') \<Longrightarrow> queue_op q q'"
| op_defer: "defer_escalation i w stage cls md q = (r, q') \<Longrightarrow> queue_op q q'"
| op_release: "release_for_retry i w md why q = (r, q') \<Longrightarrow> queue_op q q'"
| op_succeed: "mark_succeeded now i w score md q = (r, q') \<Longrightarrow> queue_op q q'"
| op_fail: "mark_failed now i w why md' q = (r, q') \<Longrightarrow> queue_op q q'"
| op_attempt: "begin_execution_attempt i w att q = (r, q') \<Longrightarrow> queue_op q q'"
| op_recover: "recover_stale_running now before n os_of q = (rs, q') \<Longrightarrow> queue_op q q'"
| op_pressure: "queue_op q (persist_runtime_state p k q)"
| op_hint: "queue_op q (persist_interactive_hint p95 n pw q)"

inductive queue_step :: "equeue \<Rightarrow> equeue \<Rightarrow> bool" where
  step_op: "queue_op q q' \<Longrightarrow> queue_step q q'"
| step_claim: "claim_next now w pol mw hl bl q = (r, q') \<Longrightarrow> queue_step q q'"

lemma recover_row_sel [simp]:
  "e_id (recover_row now n s e) = e_id e"
  "e_status (recover_row now n s e) \<in> {EQueued, EFailed}"
  by (auto simp: recover_row_def release_stale_def Let_def split: option.splits)

lemma queue_op_sched:
  assumes "queue_op q q'"
  shows "bypasses_of h q' = bypasses_of h q"
  using assms
proof cases
  case op_pressure
  then show ?thesis
    by (cases "sched q") (auto simp: persist_runtime_state_def bypasses_of_def ensure_scheduler_def
        initial_scheduler_def Let_def)
next
  case op_hint
  then show ?thesis
    by (cases "sched q") (auto simp: persist_interactive_hint_def bypasses_of_def ensure_scheduler_def
        initial_scheduler_def Let_def)
qed (auto simp: guarded_defs create_queued_def recover_stale_running_def on_evals_def bypasses_of_def
      ensure_scheduler_def Let_def split_def split: if_splits)

lemma guarded_evolves:
  assumes "\<And>e. owned_running i w e \<Longrightarrow> e_id (f e) = e_id e"
    and "\<And>e. owned_running i w e \<Longrightarrow> e_status (f e) \<in> {ERunning, EQueued, ESucceeded, EFailed}"
  shows "eval_jobs.evolves (evals q) (evals (snd (on_evals (owned_running i w) f q)))"
  unfolding on_evals_sel
  by (rule eval_jobs.evolves_update_where)
    (use assms in \<open>auto simp: eval_jobs.row_evolves_def evaluation_step_iff owned_running_def\<close>)

lemma recover_evolves:
  "eval_jobs.evolves (evals q) (evals (snd (recover_stale_running now before n os_of q)))"
proof -
  have "eval_jobs.row_evolves e (recover_row now n s e)" if "is_stale before e" for e s
    using that recover_row_sel(2) [of now n s e]
    by (auto simp: eval_jobs.row_evolves_def evaluation_step_iff is_stale_def)
  then show ?thesis
    by (simp add: recover_stale_running_def Let_def eval_jobs.evolves_update_where)
qed

lemma queue_step_grows:
  assumes "queue_step q q'" and "ids_unique q" and "length (evals q') \<noteq> length (evals q)"
  shows "ids_unique q'"
  using assms
proof cases
  case step_op
  then show ?thesis
    using assms(2,3)
    by cases (auto simp: guarded_defs create_queued_def recover_stale_running_def on_evals_def
        update_returning_rows persist_runtime_state_def persist_interactive_hint_def ids_unique_def
        Let_def split_def split: if_splits)
next
  case (step_claim now w pol mw hl bl r)
  then show ?thesis
    using assms(3) by (cases rule: claim_effect [of now w pol mw hl bl q]) (auto simp: take_row_def)
qed

lemma queue_step_evolves:
  assumes "queue_step q q'" and "ids_unique q"
  shows "eval_jobs.evolves (evals q) (evals q') \<and> ids_unique q'"
proof -
  have "eval_jobs.evolves (evals q) (evals q')"
    using assms
  proof cases
    case step_op
    then show ?thesis
    proof cases
      case op_create
      then show ?thesis
        by (auto simp: create_queued_def Let_def eval_jobs.evolves_append split: if_splits)
    next
      case (op_recover now before n os_of rs)
      then show ?thesis using recover_evolves [of q now before n os_of] by simp
    next
      case op_pressure
      then show ?thesis by (simp add: persist_runtime_state_def)
    next
      case op_hint
      then show ?thesis by (simp add: persist_interactive_hint_def)
    qed (unfold guarded_defs,
        (drule arg_cong [of _ _ snd], unfold snd_conv, erule subst, rule guarded_evolves,
         simp_all add: owned_running_def Let_def)+)
  next
    case (step_claim now w pol mw hl bl r)
    then show ?thesis
    proof (cases rule: claim_effect [of now w pol mw hl bl q])
      case refused
      with step_claim show ?thesis by auto
    next
      case (taken row st q0)
      have "e = row" if "e \<in> set (evals q)" "e_id e = e_id row" for e
        using that taken(3) assms(2) unfolding ids_unique_def
        by (auto intro: distinct_key_eq)
      then have "eval_jobs.row_evolves e (claim_row now w e)" if "e \<in> set (evals q)" "e_id e = e_id row" for e
        using that taken(3) by (fastforce simp: eval_jobs.row_evolves_def evaluation_step_iff is_queued_def)
      then have "eval_jobs.evolves (evals q) (update_where (\<lambda>e. e_id e = e_id row) (claim_row now w) (evals q))"
        by (rule eval_jobs.evolves_update_where)
      with taken(1,2) step_claim show ?thesis by (auto simp: take_row_def)
    qed
  qed
  moreover have "ids_unique q'"
  proof (cases "length (evals q') = length (evals q)")
    case True
    with calculation eval_jobs.evolves_ids [OF calculation] assms(2) show ?thesis
      by (simp add: ids_unique_def)
  next
    case False
    with assms show ?thesis by (rule queue_step_grows)
  qed
  ultimately show ?thesis ..
qed

lemma queue_history:
  assumes "queue_step\<^sup>*\<^sup>* q q'" and "ids_unique q"
  shows "eval_jobs.evolves\<^sup>*\<^sup>* (evals q) (evals q') \<and> ids_unique q'"
  using assms
proof (induction rule: rtranclp_induct)
  case base
  then show ?case by simp
next
  case (step mid q')
  with queue_step_evolves [OF step.hyps(2)] show ?case
    by (meson rtranclp.rtrancl_into_rtrancl)
qed

text \<open>
  The life of an evaluation, over any sequence of queue operations with any arguments by any
  workers: it is never lost, its status only moves along the transition table of
  \<^verbatim>\<open>domain/evaluation_state.py\<close>, ids stay unique, and once it has succeeded or failed its row
  never changes again.
\<close>

theorem evaluation_lifecycle:
  assumes "queue_step\<^sup>*\<^sup>* q q'" and "ids_unique q" and "e \<in> set (evals q)"
  shows "ids_unique q' \<and> (\<exists>e'\<in>set (evals q'). e_id e' = e_id e \<and>
    evaluation_table.step\<^sup>*\<^sup>* (e_status e) (e_status e') \<and>
    (e_status e \<in> {ESucceeded, EFailed} \<longrightarrow> e' = e))"
proof -
  note hist = queue_history [OF assms(1,2)]
  obtain e' where "e' \<in> set (evals q')" "e_id e' = e_id e"
      "evaluation_table.step\<^sup>*\<^sup>* (e_status e) (e_status e')"
      "e_status e = ESucceeded \<or> e_status e = EFailed \<longrightarrow> e' = e"
    using eval_jobs.history_row [OF _ assms(3)] hist by blast
  with hist show ?thesis by auto
qed

theorem evaluation_lifecycle_witness:
  "\<exists>q'. queue_step\<^sup>*\<^sup>* \<lparr>evals = [(example_row 1 0 Light)\<lparr>e_status := EFailed\<rparr>], sched = None\<rparr> q' \<and>
     (example_row 1 0 Light)\<lparr>e_status := EFailed\<rparr> \<in> set (evals q')"
proof -
  let ?e = "(example_row 1 0 Light)\<lparr>e_status := EFailed\<rparr>"
  let ?q = "\<lparr>evals = [?e], sched = None\<rparr>"
  obtain r q' where "mark_succeeded 9 1 ''w'' 50 [] ?q = (r, q')" by fastforce
  then have "queue_step ?q q'" by (intro step_op op_succeed)
  then have steps: "queue_step\<^sup>*\<^sup>* ?q q'" by blast
  from evaluation_lifecycle [OF steps, of ?e] have "?e \<in> set (evals q')"
    by (auto simp: ids_unique_def)
  with steps show ?thesis by blast
qed

section \<open>The bound on bypasses\<close>

lemma head_blocked_claim:
  assumes "queued_fifo q = h # behind" and "e_workload_class h = Heavy" and "heavy_blocked mw hl q"
    and "claim_next now w pol mw hl bl q = (Some e, q')"
  shows "bypasses_of (e_id h) q' = bypasses_of (e_id h) q + 1 \<and> bypasses_of (e_id h) q < max 0 bl"
proof -
  have "\<not> max 1 mw \<le> int (running_count q)"
    using assms(4) claim_full [of mw q now w pol hl bl] by auto
  then show ?thesis
    using assms unfolding claim_next_def heavy_blocked_def bypasses_of_def Let_def
    by (cases behind) (auto simp: take_row_def ensure_scheduler_def simp del: max.bounded_iff split: if_splits)
qed

text \<open>
  \<open>held h n q q'\<close>: from \<open>q\<close> to \<open>q'\<close>, \<open>n\<close> claims were granted while the HEAVY evaluation \<open>h\<close> was the
  blocked head of the queue; in between, any other operations ran (but no claim of another kind).
\<close>

inductive held :: "int \<Rightarrow> uuid \<Rightarrow> nat \<Rightarrow> equeue \<Rightarrow> equeue \<Rightarrow> bool" for bl h where
  held_start: "held bl h 0 q q"
| held_op: "held bl h n q q1 \<Longrightarrow> queue_op q1 q2 \<Longrightarrow> held bl h n q q2"
| held_claim: "held bl h n q q1 \<Longrightarrow> queued_fifo q1 = e # behind \<Longrightarrow> e_id e = h \<Longrightarrow>
    e_workload_class e = Heavy \<Longrightarrow> heavy_blocked mw hl q1 \<Longrightarrow>
    claim_next now w pol mw hl bl q1 = (Some e', q2) \<Longrightarrow> held bl h (Suc n) q q2"

lemma held_bound:
  assumes "held bl h n q q'" and "0 \<le> bypasses_of h q"
  shows "bypasses_of h q' = bypasses_of h q + int n \<and> (0 < n \<longrightarrow> bypasses_of h q' \<le> max 0 bl)"
  using assms
proof (induction rule: held.induct)
  case (held_start q)
  then show ?case by simp
next
  case (held_op n q q1 q2)
  then show ?case
    using held_op.IH [OF held_op.prems] queue_op_sched [OF held_op.hyps(2), of h] by auto
next
  case (held_claim n q q1 e behind mw hl now w pol e' q2)
  have "bypasses_of h q2 = bypasses_of h q1 + 1 \<and> bypasses_of h q1 < max 0 bl"
    using head_blocked_claim [OF held_claim.hyps(2,4,5,6)] held_claim.hyps(3) by simp
  with held_claim.IH held_claim.prems show ?case by auto
qed

text \<open>
  C20. Bounded bypass: while a HEAVY evaluation stays the blocked head of the queue, at most
  \<open>light_bypass_limit\<close> LIGHT evaluations are claimed past it, whatever else happens to the queue in
  between (submissions, completions, deferrals, recovery, hints), as long as no evaluation is
  claimed from in front of it.
\<close>

theorem bypass_bounded:
  assumes "held bypass_limit h n q q'" and "0 \<le> bypasses_of h q"
  shows "int n \<le> max 0 bypass_limit"
  using held_bound [OF assms] assms(2) by (cases n) auto

definition blocked_queue :: equeue where
  "blocked_queue = \<lparr>evals = [claim_row 0 ''w1'' (example_row 9 0 Heavy), example_row 1 2 Heavy,
     example_row 2 3 Light, example_row 3 4 Light, example_row 4 5 Light], sched = None\<rparr>"

lemma blocked_queue_fifo:
  "queued_fifo blocked_queue = [example_row 1 2 Heavy, example_row 2 3 Light, example_row 3 4 Light, example_row 4 5 Light]"
  by (simp add: queued_fifo_def blocked_queue_def is_queued_def fifo_key_def)

lemma blocked_queue_unique: "ids_unique blocked_queue"
  by (simp add: ids_unique_def blocked_queue_def)

lemma blocked_queue_blocked: "heavy_blocked 2 1 blocked_queue"
  by (simp add: heavy_blocked_def running_heavy_count_def blocked_queue_def)

theorem bypass_bounded_witness:
  "\<exists>q'. held 2 1 1 blocked_queue q' \<and> int 1 \<le> max 0 2"
proof -
  have "fst (claim_next 7 ''w2'' ''resource_aware'' 2 1 2 blocked_queue) = Some (claim_row 7 ''w2'' (example_row 2 3 Light))"
    by (subst claim_blocked [OF _ blocked_queue_fifo _ blocked_queue_blocked])
      (simp_all add: running_count_def bounded_policy_def bypasses_of_def ensure_scheduler_def
        initial_scheduler_def blocked_queue_def)
  then obtain q' where "claim_next 7 ''w2'' ''resource_aware'' 2 1 2 blocked_queue = (Some (claim_row 7 ''w2'' (example_row 2 3 Light)), q')"
    by (cases "claim_next 7 ''w2'' ''resource_aware'' 2 1 2 blocked_queue") simp
  then have "held 2 1 (Suc 0) blocked_queue q'"
    by (intro held_claim [OF held_start blocked_queue_fifo _ _ blocked_queue_blocked]) simp_all
  moreover have "0 \<le> bypasses_of 1 blocked_queue"
    by (simp add: bypasses_of_def ensure_scheduler_def initial_scheduler_def blocked_queue_def)
  ultimately show ?thesis using bypass_bounded [of 2 1 1 blocked_queue q'] by auto
qed

section \<open>Recovery\<close>

text \<open>Whether the last recorded execution of a row still runs after the containment.\<close>

definition still_running :: "os \<Rightarrow> evaluation \<Rightarrow> bool" where
  "still_running s e \<longleftrightarrow> (\<exists>a. from_metadata (JObj (e_result_metadata e)) = Some a \<and>
     orphan_suspected s (Some a) \<and> pid_alive_after s (ea_root_pid a))"

lemma release_stale_sel [simp]:
  "e_id (release_stale now n md e) = e_id e" "e_worker_id (release_stale now n md e) = None"
  "e_attempt_count (release_stale now n md e) = e_attempt_count e"
  "e_created_at (release_stale now n md e) = e_created_at e"
  "e_status (release_stale now n md e) = (if n \<le> e_attempt_count e then EFailed else EQueued)"
  by (simp_all add: release_stale_def Let_def)

lemma contained_root_dead:
  assumes "orphan_suspected s (Some a)" and "ct_still_alive (contain_attempt s a) = []"
  shows "\<not> pid_alive_after s (ea_root_pid a)"
proof -
  obtain r where r: "ea_root_pid a = Some r" "r \<in> set (contain_targets s a)"
    using contain_root_tracked [OF assms(1)] by blast
  then show ?thesis using assms(2) by (auto simp: contain_attempt_def Let_def filter_empty_conv)
qed

lemma recover_row_cases:
  "e_worker_id (recover_row now n s e) = None \<and> e_attempt_count (recover_row now n s e) = e_attempt_count e \<and>
   e_created_at (recover_row now n s e) = e_created_at e \<and>
   (e_status (recover_row now n s e) = EQueued \<longrightarrow> e_attempt_count e < n \<and> \<not> still_running s e) \<and>
   (e_status (recover_row now n s e) = EFailed \<longrightarrow> n \<le> e_attempt_count e \<or>
      (\<exists>a. from_metadata (JObj (e_result_metadata e)) = Some a \<and> \<not> ct_contained (contain_attempt s a)))"
proof (cases "from_metadata (JObj (e_result_metadata e))")
  case None
  then show ?thesis by (simp add: recover_row_def Let_def still_running_def)
next
  case (Some a)
  show ?thesis
  proof (cases "orphan_suspected s (Some a)")
    case True
    then show ?thesis
      using Some contained_root_dead [OF True] contain_attempt_contained [of s a]
      by (simp add: recover_row_def Let_def still_running_def)
  next
    case False
    with Some show ?thesis by (simp add: recover_row_def Let_def still_running_def)
  qed
qed

text \<open>
  C21. Crash recovery is safe: every stale running row (and no other) is released: it loses its
  worker, keeps its attempt count and its place in the FIFO order, and is reported. It is requeued
  only while it has attempts left and its recorded process is not still running after the
  containment; otherwise it fails. It fails only when the attempts are used up or the containment
  did not succeed.
\<close>

theorem recovery_safe:
  assumes "recover_stale_running now stale_before max_attempts os_of q = (recovered, q')" and "e \<in> set (evals q)"
  shows "if is_stale stale_before e
    then \<exists>e' \<in> set (evals q') \<inter> set recovered. e_id e' = e_id e \<and> e_created_at e' = e_created_at e \<and>
      e_worker_id e' = None \<and> e_attempt_count e' = e_attempt_count e \<and>
      ((e_status e' = EQueued \<and> e_attempt_count e < max_attempts \<and> \<not> still_running (os_of (e_id e)) e) \<or>
       (e_status e' = EFailed \<and> (max_attempts \<le> e_attempt_count e \<or>
          (\<exists>a. from_metadata (JObj (e_result_metadata e)) = Some a \<and>
               \<not> ct_contained (contain_attempt (os_of (e_id e)) a)))))
    else e \<in> set (evals q')"
proof (cases "is_stale stale_before e")
  case True
  let ?e = "recover_row now max_attempts (os_of (e_id e)) e"
  have "?e \<in> set (evals q') \<inter> set recovered"
    using assms True by (auto simp: recover_stale_running_def Let_def set_update_where)
  with True recover_row_cases [of now max_attempts "os_of (e_id e)" e]
    recover_row_sel(2) [of now max_attempts "os_of (e_id e)" e]
  show ?thesis by (auto intro!: bexI [of _ ?e])
next
  case False
  then show ?thesis
    using assms by (auto simp: recover_stale_running_def Let_def set_update_where image_iff intro!: bexI [of _ e])
qed

theorem recovery_safe_witness:
  "\<exists>rs q'. recover_stale_running 100 50 3 (\<lambda>i. one_process)
       \<lparr>evals = [claim_row 5 ''w1'' (example_row 1 0 Light)], sched = None\<rparr> = (rs, q') \<and>
     (\<exists>e'\<in>set rs. e_id e' = 1 \<and> e_worker_id e' = None)"
proof -
  let ?e = "claim_row 5 ''w1'' (example_row 1 0 Light)"
  obtain rs q' where r: "recover_stale_running 100 50 3 (\<lambda>i. one_process) \<lparr>evals = [?e], sched = None\<rparr> = (rs, q')"
    by fastforce
  have "is_stale 50 ?e" by (simp add: is_stale_def)
  with recovery_safe [OF r, of ?e] r show ?thesis by auto
qed

text \<open>
  C22. A stale worker cannot overwrite: right after the recovery released a row, every attempt of
  any worker to complete, defer, release or annotate that evaluation is refused and changes nothing,
  until the evaluation is claimed again.
\<close>

theorem recovered_claim_revoked:
  assumes "recover_stale_running now stale_before max_attempts os_of q = (recovered, q')"
    and "ids_unique q" and "r \<in> set recovered"
  shows "mark_succeeded t (e_id r) w score md q' = (None, q') \<and>
    mark_failed t (e_id r) w why md' q' = (None, q') \<and>
    defer_escalation (e_id r) w stage cls md q' = (None, q') \<and>
    release_for_retry (e_id r) w md why q' = (None, q') \<and>
    begin_execution_attempt (e_id r) w att q' = (None, q')"
proof -
  define f where "f e = recover_row now max_attempts (os_of (e_id e)) e" for e
  obtain e where e: "e \<in> set (evals q)" "is_stale stale_before e" "r = f e"
    using assms(1,3) by (auto simp: recover_stale_running_def Let_def f_def)
  have "\<not> owned_running (e_id r) w x" if x: "x \<in> set (evals q')" for x
  proof
    assume own: "owned_running (e_id r) w x"
    obtain y where y: "y \<in> set (evals q)" "x = (if is_stale stale_before y then f y else y)"
      using x assms(1) by (auto simp: recover_stale_running_def Let_def update_where_def f_def)
    have "e_id y = e_id e" using own y(2) e(3) by (auto simp: owned_running_def f_def split: if_splits)
    with y(1) e(1) assms(2) have "y = e" unfolding ids_unique_def by (auto intro: distinct_key_eq)
    then have "x = f e" using y e(2) by simp
    then show False
      using own recover_row_sel(2) [of now max_attempts "os_of (e_id e)" e]
      by (auto simp: owned_running_def f_def)
  qed
  then show ?thesis by (simp add: guarded_defs not_owned_refused)
qed

theorem recovered_claim_revoked_witness:
  "\<exists>rs q'. recover_stale_running 100 50 3 (\<lambda>i. one_process)
       \<lparr>evals = [claim_row 5 ''w1'' (example_row 1 0 Light)], sched = None\<rparr> = (rs, q') \<and>
     mark_succeeded 101 1 ''w1'' 90 [] q' = (None, q')"
proof -
  let ?q = "\<lparr>evals = [claim_row 5 ''w1'' (example_row 1 0 Light)], sched = None\<rparr>"
  obtain rs q' where r: "recover_stale_running 100 50 3 (\<lambda>i. one_process) ?q = (rs, q')" by fastforce
  have "rs = [recover_row 100 3 one_process (claim_row 5 ''w1'' (example_row 1 0 Light))]"
    using r by (auto simp: recover_stale_running_def Let_def is_stale_def)
  with recovered_claim_revoked [OF r, of "recover_row 100 3 one_process (claim_row 5 ''w1'' (example_row 1 0 Light))"
      101 "''w1''" 90 "[]"] r
  show ?thesis by (auto simp: ids_unique_def)
qed

section \<open>Queue positions\<close>

lemma ahead_of_key: "ahead_of row e \<longleftrightarrow> is_queued e \<and> fifo_key e < fifo_key row"
  by (auto simp: ahead_of_def fifo_key_def less_prod_def)

lemma filter_below_nth:
  assumes "sorted_wrt (<) (map g xs)" and "k < length xs"
  shows "length (filter (\<lambda>x. g x < (g (xs ! k) :: 'b :: linorder)) xs) = k"
proof -
  have "g (xs ! i) < g (xs ! k) \<longleftrightarrow> i < k" if "i < length xs" for i
    using sorted_wrt_nth_less [OF assms(1), of i k] sorted_wrt_nth_less [OF assms(1), of k i] that assms(2)
    by (cases i k rule: linorder_cases) (auto dest: less_asym)
  then have "{i. i < length xs \<and> g (xs ! i) < g (xs ! k)} = {i. i < k}"
    using assms(2) by auto
  then show ?thesis by (simp add: length_filter_conv_card)
qed

text \<open>
  The reported queue position is the index in the FIFO order: the evaluation listed at index
  \<open>k\<close> of the queued evaluations has position \<open>k\<close>, and the listing with any limit is a prefix of
  that order with each queued evaluation in it once.
\<close>

lemma queue_position_is_fifo_index:
  assumes "ids_unique q" and "k < length (queued_fifo q)"
  shows "queue_position q (e_id (queued_fifo q ! k)) = Some k \<and>
    set (list_queued_fifo (length (evals q)) q) = {e \<in> set (evals q). e_status e = EQueued} \<and>
    distinct (list_queued_fifo limit q)"
proof -
  let ?e = "queued_fifo q ! k"
  have e: "?e \<in> set (evals q)" "is_queued ?e"
    using nth_mem [OF assms(2)] by auto
  have "distinct (map e_id (queued_fifo q))"
    using assms(1) by (simp add: queued_fifo_def ids_unique_def distinct_map inj_on_def)
  then have "distinct (map fifo_key (queued_fifo q))"
    by (auto simp: distinct_map inj_on_def fifo_key_def)
  then have "sorted_wrt (<) (map fifo_key (queued_fifo q))"
    using queued_sorted by (simp add: strict_sorted_iff)
  then have "length (filter (\<lambda>x. fifo_key x < fifo_key ?e) (queued_fifo q)) = k"
    using assms(2) by (rule filter_below_nth)
  then have "length (filter (ahead_of ?e) (evals q)) = k"
    by (simp add: queued_fifo_def filter_sort ahead_of_key [abs_def] conj_commute)
  moreover have "eval_get q (e_id ?e) = Some ?e"
    using assms(1) e(1) unfolding eval_get_def ids_unique_def by (rule find_distinct_key)
  moreover have "length (queued_fifo q) \<le> length (evals q)"
    by (simp add: queued_fifo_def)
  ultimately show ?thesis
    using e(2) queued_distinct [OF assms(1)]
    by (simp add: queue_position_def list_queued_fifo_def distinct_take is_queued_def)
qed

section \<open>A limit per streak, not per evaluation\<close>

text \<open>
  The HEAVY evaluation 1 is blocked by the running HEAVY evaluation 9; the older LIGHT evaluation 8 is
  running, too, on a worker that will be found stale.
\<close>

definition streak_queue :: equeue where
  "streak_queue = \<lparr>evals = [claim_row 50 ''w1'' (example_row 9 0 Heavy), claim_row 0 ''w2'' (example_row 8 1 Light),
     example_row 1 2 Heavy, example_row 2 3 Light, example_row 3 4 Light, example_row 4 5 Light],
     sched = None\<rparr>"

definition streak_claim :: "equeue \<Rightarrow> evaluation option \<times> equeue" where
  "streak_claim q = claim_next 60 ''w3'' ''bounded_light_bypass'' 9 1 2 q"

text \<open>
  The bypass limit holds per streak, not per HEAVY evaluation. With a limit of 2: two LIGHT
  evaluations pass the blocked HEAVY one and a third claim is refused; then the recovery requeues an
  older row, which is claimed as the head and clears the counter, and a third LIGHT evaluation
  passes the same HEAVY one, which has been queued and blocked all the time.
\<close>

theorem bypass_limit_per_streak:
  "let (r1, q1) = streak_claim streak_queue;
       (r2, q2) = streak_claim q1;
       r3 = fst (streak_claim q2);
       q3 = snd (recover_stale_running 70 10 3 (\<lambda>i. one_process) q2);
       (r4, q4) = streak_claim q3;
       (r5, q5) = streak_claim q4
   in map_option e_id r1 = Some 2 \<and> map_option e_id r2 = Some 3 \<and> r3 = None \<and>
      map_option e_id r4 = Some 8 \<and> map_option e_id r5 = Some 4 \<and>
      map_option e_status (eval_get q5 1) = Some EQueued"
  by code_simp

end
