(* ===== verification/Chunking.thy ===== *)
theory Chunking
  imports Storage
begin

text \<open>
  The canonical form of an artifact and its chunks: \<^verbatim>\<open>ingestion/canonical.py\<close> and
  \<^verbatim>\<open>ingestion/chunking.py\<close>. Text is a list of characters (code points below 256), offsets are
  naturals, SHA-256 is an argument. The two regular expressions are written out as the
  conditions they express on one line. The index loops over the lines are recursions over the
  remaining lines that carry the index.
\<close>

abbreviation LF :: char where "LF \<equiv> CHR 0x0A"
abbreviation CR :: char where "CR \<equiv> CHR 0x0D"
abbreviation TAB :: char where "TAB \<equiv> CHR 0x09"

section \<open>The canonical document\<close>

definition PARSER_VERSION :: string where "PARSER_VERSION = ''cf-parse-2''"
definition CHUNKER_VERSION :: string where "CHUNKER_VERSION = ''cf-chunk-hybrid-1''"

datatype content_kind = MARKDOWN | CODE_KIND | PROSE | EMPTY_KIND

record canonical_document =
  cd_text :: string
  cd_kind :: content_kind
  cd_parser_version :: string
  cd_sha256 :: string
  cd_line_count :: nat

definition fence :: string where "fence = replicate 3 (CHR 0x60)"

definition rstrip :: "string \<Rightarrow> string" where "rstrip s = rstrip_by is_space s"
definition lstrip :: "string \<Rightarrow> string" where "lstrip s = dropWhile is_space s"

definition count_lines :: "(string \<Rightarrow> bool) \<Rightarrow> string list \<Rightarrow> nat" where
  "count_lines p ls = length (filter p ls)"

definition starts_with_any :: "string list \<Rightarrow> string \<Rightarrow> bool" where
  "starts_with_any ps s \<longleftrightarrow> list_ex (\<lambda>p. starts_with p s) ps"

definition codey_line :: "string \<Rightarrow> bool" where
  "codey_line lin \<longleftrightarrow>
     starts_with_any [''def '', ''class '', ''import '', ''from '', ''function '', ''package ''] lin \<or>
     ends_with ''{'' (rstrip lin) \<or>
     starts_with_any [''public '', ''private '', ''static ''] (strip lin)"

definition detect_kind :: "string \<Rightarrow> content_kind" where
  "detect_kind s =
     (if strip s = [] then EMPTY_KIND
      else let ls = split_on LF s;
               heading_hits = count_lines (\<lambda>lin. starts_with ''#'' (lstrip lin)) ls;
               fence_hits = count_lines (\<lambda>lin. starts_with fence (strip lin)) ls;
               codey = count_lines codey_line ls
           in if fence_hits \<ge> 1 \<or> heading_hits \<ge> 2 then MARKDOWN
              else if codey \<ge> 2 \<and> heading_hits = 0 then CODE_KIND
              else PROSE)"

fun replace_crlf :: "string \<Rightarrow> string" where
  "replace_crlf (a # b # s) =
     (if a = CR \<and> b = LF then LF # replace_crlf s else a # replace_crlf (b # s))"
| "replace_crlf s = s"

definition unify_newlines :: "string \<Rightarrow> string" where
  "unify_newlines s = map (\<lambda>c. if c = CR then LF else c) (replace_crlf s)"

definition trim_line :: "string \<Rightarrow> string" where
  "trim_line lin = rstrip_by (\<lambda>c. c = CHR '' '' \<or> c = TAB) lin"

definition canonical_lines :: "string \<Rightarrow> string list" where
  "canonical_lines raw = strip_by (\<lambda>lin. lin = []) (map trim_line (split_on LF (unify_newlines raw)))"

definition normalize_to_canonical :: "(string \<Rightarrow> string) \<Rightarrow> string \<Rightarrow> canonical_document" where
  "normalize_to_canonical sha raw =
     (let s = join [LF] (canonical_lines raw)
      in \<lparr>cd_text = s, cd_kind = detect_kind s, cd_parser_version = PARSER_VERSION,
          cd_sha256 = sha (utf8 s),
          cd_line_count = (if s = [] then 0 else count_list s LF + 1)\<rparr>)"

section \<open>Lines and spans\<close>

datatype block_type = HEADING | PARAGRAPH | CODE_FENCE | CODE_BLOCK | LIST_BLOCK | HARD_SPLIT | MIXED | FIXED

fun block_type_value :: "block_type \<Rightarrow> string" where
  "block_type_value HEADING = ''heading''"
| "block_type_value PARAGRAPH = ''paragraph''"
| "block_type_value CODE_FENCE = ''code_fence''"
| "block_type_value CODE_BLOCK = ''code''"
| "block_type_value LIST_BLOCK = ''list''"
| "block_type_value HARD_SPLIT = ''hard_split''"
| "block_type_value MIXED = ''mixed''"
| "block_type_value FIXED = ''fixed''"

record logical_unit =
  lu_text :: string
  lu_start :: nat
  lu_end :: nat
  lu_line_start :: nat
  lu_line_end :: nat
  lu_type :: block_type
  lu_path :: "string list"

record chunk_draft =
  ch_ordinal :: nat
  ch_content :: string
  ch_sha256 :: string
  ch_start :: nat
  ch_end :: nat
  ch_line_start :: nat
  ch_line_end :: nat
  ch_block_type :: string
  ch_path :: "string list"
  ch_oversized :: bool

text \<open>The entry at 0 is unused; the entry at \<open>l\<close> is where the line \<open>l\<close> (from 1) begins.\<close>

definition line_starts :: "string \<Rightarrow> nat list" where
  "line_starts s = 0 # 0 # map Suc (filter (\<lambda>i. s ! i = LF \<and> i + 1 < length s) [0..<length s])"

function line_of_loop :: "nat list \<Rightarrow> int \<Rightarrow> int \<Rightarrow> int \<Rightarrow> int \<Rightarrow> int" where
  "line_of_loop starts offset lo hi ans =
     (if lo \<le> hi then
        let mid = (lo + hi) div 2
        in if int (starts ! nat mid) \<le> offset then line_of_loop starts offset (mid + 1) hi mid
           else line_of_loop starts offset lo (mid - 1) ans
      else ans)"
  by pat_completeness auto
termination
  by (relation "measure (\<lambda>(starts, offset, lo, hi, ans). nat (hi + 1 - lo))") auto

declare line_of_loop.simps [simp del]

definition line_of :: "nat list \<Rightarrow> int \<Rightarrow> nat" where
  "line_of starts offset =
     (if offset < 0 then 1 else nat (line_of_loop starts offset 1 (int (length starts) - 1) 1))"

text \<open>The characters of the lines \<open>line0\<close> up to before \<open>line1\<close> (from 0).\<close>

definition span :: "string \<Rightarrow> nat list \<Rightarrow> nat \<Rightarrow> nat \<Rightarrow> nat \<times> nat \<times> string" where
  "span s starts line0 line1 =
     (if s = [] \<or> line0 \<ge> line1 then (0, 0, [])
      else let cs = starts ! (line0 + 1);
               ce = (if line1 + 1 < length starts
                     then let ce = starts ! (line1 + 1)
                          in if ce > cs \<and> s ! (ce - 1) = LF then ce - 1 else ce
                     else length s)
           in (cs, ce, slice s cs ce))"

section \<open>Logical units\<close>

text \<open>\<open>^(#{1,6})\s+(.+)$\<close> on one line: one to six hashes, a space, and at least one more character.\<close>

definition heading_match :: "string \<Rightarrow> (nat \<times> string) option" where
  "heading_match line =
     (let level = length (takeWhile (\<lambda>c. c = CHR ''#'') line);
          after = drop level line
      in if 1 \<le> level \<and> level \<le> 6 \<and> 2 \<le> length after \<and> is_space (hd after)
         then Some (level, strip after) else None)"

definition is_digit :: "char \<Rightarrow> bool" where
  "is_digit c \<longleftrightarrow> c \<in> set ''0123456789''"

text \<open>\<open>^(\s*([-*+]|\d+\.)\s+)\<close> on one line.\<close>

definition list_match :: "string \<Rightarrow> bool" where
  "list_match line =
     (let s = lstrip line; d = dropWhile is_digit s
      in (case s of m # c # _ \<Rightarrow> m \<in> set ''-*+'' \<and> is_space c | _ \<Rightarrow> False) \<or>
         (d \<noteq> s \<and> (case d of p # c # _ \<Rightarrow> p = CHR ''.'' \<and> is_space c | _ \<Rightarrow> False)))"

text \<open>The condition under which the paragraph, list or code block that is being read goes on.\<close>

definition block_goes_on :: "bool \<Rightarrow> bool \<Rightarrow> string \<Rightarrow> bool" where
  "block_goes_on code_mode is_list lin \<longleftrightarrow> strip lin \<noteq> [] \<and>
     (code_mode \<or>
      (\<not> starts_with fence lin \<and> heading_match lin = None \<and>
       (if is_list then list_match lin \<or> starts_with '' '' lin \<or> starts_with [TAB] lin
        else \<not> list_match lin)))"

definition emit_unit ::
  "string \<Rightarrow> nat list \<Rightarrow> nat \<Rightarrow> nat \<Rightarrow> block_type \<Rightarrow> string list \<Rightarrow> logical_unit" where
  "emit_unit s starts i j btype path =
     (let (cs, ce, body) = span s starts i j
      in \<lparr>lu_text = body, lu_start = cs, lu_end = ce, lu_line_start = i + 1, lu_line_end = j,
          lu_type = btype, lu_path = path\<rparr>)"

definition emit_if ::
  "string \<Rightarrow> nat list \<Rightarrow> nat \<Rightarrow> nat \<Rightarrow> block_type \<Rightarrow> string list \<Rightarrow> logical_unit list" where
  "emit_if s starts i j btype path =
     (let u = emit_unit s starts i j btype path in if strip (lu_text u) \<noteq> [] then [u] else [])"

text \<open>The line after the fence that starts at line \<open>i\<close>; \<open>rest\<close> are the lines after \<open>i\<close>.\<close>

definition fence_end :: "nat \<Rightarrow> string list \<Rightarrow> nat" where
  "fence_end i rest =
     (let j = i + 1 + length (takeWhile (\<lambda>l. \<not> starts_with fence l) rest)
      in if j < i + 1 + length rest then j + 1 else j)"

definition push_heading :: "nat \<Rightarrow> string \<Rightarrow> (nat \<times> string) list \<Rightarrow> (nat \<times> string) list" where
  "push_heading level title stack = rstrip_by (\<lambda>h. fst h \<ge> level) stack @ [(level, title)]"

function unit_loop ::
  "bool \<Rightarrow> string \<Rightarrow> nat list \<Rightarrow> nat \<Rightarrow> (nat \<times> string) list \<Rightarrow> string list \<Rightarrow> logical_unit list" where
  "unit_loop cm s starts i stack [] = []"
| "unit_loop cm s starts i stack (line # rest) =
     (if \<not> cm \<and> starts_with fence line then
        let j = fence_end i rest
        in emit_if s starts i j CODE_FENCE (map snd stack) @
           unit_loop cm s starts j stack (drop (j - i) (line # rest))
      else case (if cm then None else heading_match line) of
        Some (level, title) \<Rightarrow>
          let stack = push_heading level title stack
          in emit_unit s starts i (i + 1) HEADING (map snd stack) #
             unit_loop cm s starts (i + 1) stack rest
      | None \<Rightarrow>
          if strip line = [] then unit_loop cm s starts (i + 1) stack rest
          else
            let is_list = (\<not> cm \<and> list_match line);
                j = i + length (takeWhile (block_goes_on cm is_list) (line # rest))
            in emit_if s starts i j
                 (if cm then CODE_BLOCK else if is_list then LIST_BLOCK else PARAGRAPH) (map snd stack) @
               unit_loop cm s starts j stack (drop (j - i) (line # rest)))"
  by pat_completeness auto
termination
  by (relation "measure (\<lambda>(cm, s, starts, i, stack, rest). length rest)")
    (auto simp: fence_end_def Let_def block_goes_on_def split: if_splits)

declare unit_loop.simps(2) [simp del]

definition unitize_structured :: "string \<Rightarrow> bool \<Rightarrow> logical_unit list" where
  "unitize_structured s code_mode =
     (if s = [] then [] else unit_loop code_mode s (line_starts s) 0 [] (split_on LF s))"

definition unitize :: "canonical_document \<Rightarrow> logical_unit list" where
  "unitize doc =
     (if cd_kind doc = EMPTY_KIND \<or> strip (cd_text doc) = [] then []
      else unitize_structured (cd_text doc) (cd_kind doc = CODE_KIND))"

section \<open>Splitting and packing\<close>

text \<open>\<open>str.rfind\<close> of one character, -1 when it does not occur.\<close>

definition rfind :: "char \<Rightarrow> string \<Rightarrow> int" where
  "rfind c s = int (length s) - 1 - int (length (takeWhile (\<lambda>x. x \<noteq> c) (rev s)))"

definition cut_at :: "int \<Rightarrow> string \<Rightarrow> nat" where
  "cut_at max_chars remaining =
     (if int (length remaining) \<le> max_chars then length remaining
      else
        let win = take (nat max_chars) remaining;
            cut = rfind LF win;
            cut = (if cut < max_chars div 4 then rfind (CHR '' '') win else cut)
        in if cut < max_chars div 4 then nat max_chars else nat (cut + 1))"

function split_loop :: "int \<Rightarrow> logical_unit \<Rightarrow> nat \<Rightarrow> logical_unit list" where
  "split_loop max_chars u pos =
     (if pos < length (lu_text u) then
        let cut = cut_at max_chars (drop pos (lu_text u));
            piece = slice (lu_text u) pos (pos + cut)
        in if piece = [] then []
           else u\<lparr>lu_text := piece, lu_start := lu_start u + pos,
                  lu_end := lu_start u + pos + length piece, lu_type := HARD_SPLIT\<rparr>
                # split_loop max_chars u (pos + cut)
      else [])"
  by pat_completeness auto
termination
  by (relation "measure (\<lambda>(m, u, pos). length (lu_text u) - pos)") (auto simp: slice_def)

declare split_loop.simps [simp del]

definition split_oversized :: "int \<Rightarrow> logical_unit \<Rightarrow> logical_unit list" where
  "split_oversized max_chars u =
     (if int (length (lu_text u)) \<le> max_chars then [u] else split_loop max_chars u 0)"

definition fix_line :: "string \<Rightarrow> logical_unit \<Rightarrow> logical_unit" where
  "fix_line s u =
     (let starts = line_starts s
      in if s = [] then u\<lparr>lu_line_start := 1, lu_line_end := 1\<rparr>
         else u\<lparr>lu_line_start := line_of starts (int (lu_start u)),
                lu_line_end := line_of starts (max (int (lu_start u)) (int (lu_end u) - 1))\<rparr>)"

definition fix_lines :: "string \<Rightarrow> logical_unit list \<Rightarrow> logical_unit list" where
  "fix_lines s us = map (fix_line s) us"

definition repair :: "string \<Rightarrow> logical_unit \<Rightarrow> logical_unit" where
  "repair s u =
     (let expected = slice s (lu_start u) (lu_end u)
      in if expected \<noteq> lu_text u then u\<lparr>lu_text := expected\<rparr> else u)"

fun pack_loop :: "int \<Rightarrow> logical_unit list \<Rightarrow> logical_unit list \<Rightarrow> logical_unit list list" where
  "pack_loop max_chars current [] = (if current = [] then [] else [current])"
| "pack_loop max_chars current (u # us) =
     (if current = [] then pack_loop max_chars [u] us
      else if int (lu_end u) - int (lu_start (hd current)) \<le> max_chars \<and>
              lu_start u \<ge> lu_start (last current)
      then pack_loop max_chars (current @ [u]) us
      else current # pack_loop max_chars [u] us)"

definition pack :: "int \<Rightarrow> logical_unit list \<Rightarrow> logical_unit list list" where
  "pack max_chars us = pack_loop max_chars [] us"

text \<open>The deepest heading path of the group that extends the path of its first unit.\<close>

definition deepen :: "string list \<Rightarrow> logical_unit \<Rightarrow> string list" where
  "deepen heading u =
     (if take (length heading) (lu_path u) = heading \<and> length (lu_path u) > length heading
      then lu_path u else if heading = [] then lu_path u else heading)"

definition group_type :: "logical_unit list \<Rightarrow> string" where
  "group_type grp =
     (let types = remdups (map lu_type grp)
      in if length types = 1 then block_type_value (hd types)
         else if HARD_SPLIT \<in> set types then block_type_value HARD_SPLIT
         else block_type_value MIXED)"

definition add_chunk ::
  "(string \<Rightarrow> string) \<Rightarrow> int \<Rightarrow> string \<Rightarrow> logical_unit list \<Rightarrow> chunk_draft list \<Rightarrow> chunk_draft list" where
  "add_chunk sha max_chars s grp chunks =
     (let char_start = lu_start (hd grp);
          char_end = lu_end (last grp);
          content = slice s char_start char_end
      in if strip content = [] then chunks
         else
           let over = int (length content) > max_chars;
               content = (if over then take (nat max_chars) content else content);
               char_end = (if over then char_start + length content else char_end);
               starts = line_starts s
           in chunks @
              [\<lparr>ch_ordinal = length chunks, ch_content = content, ch_sha256 = sha (utf8 content),
                ch_start = char_start, ch_end = char_end,
                ch_line_start = (if s \<noteq> [] then line_of starts (int char_start) else 1),
                ch_line_end = (if s \<noteq> []
                  then line_of starts (max (int char_start) (int char_end - 1)) else 1),
                ch_block_type = group_type grp,
                ch_path = foldl deepen (lu_path (hd grp)) grp,
                ch_oversized = (HARD_SPLIT \<in> lu_type ` set grp)\<rparr>])"

definition expand_units :: "int \<Rightarrow> canonical_document \<Rightarrow> logical_unit list" where
  "expand_units max_chars doc =
     fix_lines (cd_text doc) (map (repair (cd_text doc))
       (fix_lines (cd_text doc) (concat (map (split_oversized max_chars) (unitize doc)))))"

definition chunk_hybrid ::
  "(string \<Rightarrow> string) \<Rightarrow> int \<Rightarrow> canonical_document \<Rightarrow> exn + chunk_draft list" where
  "chunk_hybrid sha max_chars doc =
     (if max_chars < 1 then Inl (ValueError ''max_chars must be >= 1'')
      else Inr (fold (add_chunk sha max_chars (cd_text doc)) (pack max_chars (expand_units max_chars doc)) []))"

text \<open>The fixed-size splitter for comparison.\<close>

function fixed_loop ::
  "(string \<Rightarrow> string) \<Rightarrow> string \<Rightarrow> nat \<Rightarrow> nat \<Rightarrow> nat \<Rightarrow> chunk_draft list \<Rightarrow> chunk_draft list" where
  "fixed_loop sha s max_chars step pos chunks =
     (if pos < length s then
        let e = min (length s) (pos + max_chars);
            content = slice s pos e;
            starts = line_starts s;
            chunks = (if strip content \<noteq> [] then chunks @
              [\<lparr>ch_ordinal = length chunks, ch_content = content, ch_sha256 = sha (utf8 content),
                ch_start = pos, ch_end = e, ch_line_start = line_of starts (int pos),
                ch_line_end = line_of starts (max (int pos) (int e - 1)),
                ch_block_type = block_type_value FIXED, ch_path = [], ch_oversized = False\<rparr>]
              else chunks)
        in if e \<ge> length s then chunks
           else fixed_loop sha s max_chars step (pos + max 1 step) chunks
      else chunks)"
  by pat_completeness auto
termination
  by (relation "measure (\<lambda>(sha, s, m, step, pos, chunks). length s - pos)") (auto simp: max_def)

declare fixed_loop.simps [simp del]

definition chunk_fixed_chars ::
  "(string \<Rightarrow> string) \<Rightarrow> int \<Rightarrow> int \<Rightarrow> canonical_document \<Rightarrow> exn + chunk_draft list" where
  "chunk_fixed_chars sha max_chars overlap doc =
     (if strip (cd_text doc) = [] then Inr []
      else if overlap < 0 \<or> overlap \<ge> max_chars
      then Inl (ValueError ''overlap must be >= 0 and < max_chars'')
      else Inr (fixed_loop sha (cd_text doc) (nat max_chars) (nat (max 1 (max_chars - overlap))) 0 []))"


section \<open>Canonical lines\<close>

lemma split_on_parts: "p \<in> set (split_on c s) \<Longrightarrow> c \<notin> set p"
proof (induction s arbitrary: p)
  case (Cons x s)
  then show ?case
    by (cases "split_on c s") (auto split: if_splits)
qed simp

lemma join_split: "join [c] (split_on c s) = s"
proof (induction s)
  case (Cons x s)
  show ?case
  proof (cases "x = c")
    case True
    have "join [c] ([] # split_on c s) = c # join [c] (split_on c s)"
      by (cases "split_on c s") simp_all
    with True Cons.IH show ?thesis by simp
  next
    case False
    obtain w ws where w: "split_on c s = w # ws" by (cases "split_on c s") simp_all
    have "join [c] ((x # w) # ws) = x # join [c] (w # ws)" by (cases ws) simp_all
    with False w Cons.IH show ?thesis by simp
  qed
qed simp

lemma replace_crlf_set: "set (replace_crlf s) \<subseteq> insert LF (set s)"
  by (induction s rule: replace_crlf.induct) auto

lemma no_CR: "CR \<notin> set (unify_newlines s)"
  by (auto simp: unify_newlines_def)

lemma set_join: "set (join [c] ps) \<subseteq> insert c (\<Union>p\<in>set ps. set p)"
  by (induction "[c]" ps rule: join.induct) auto

lemma set_split_on: "p \<in> set (split_on c s) \<Longrightarrow> set p \<subseteq> set s"
proof (induction s arbitrary: p)
  case (Cons x s)
  obtain w ws where w: "split_on c s = w # ws" by (cases "split_on c s") simp_all
  have sub: "set p' \<subseteq> set s" if "p' \<in> set (w # ws)" for p' using Cons.IH that w by simp
  have "set w \<subseteq> set s" using sub by simp
  with Cons.prems w sub show ?case by (cases "x = c") fastforce+
qed simp

lemma strip_by_ends:
  assumes "strip_by p xs \<noteq> []"
  shows "\<not> p (hd (strip_by p xs)) \<and> \<not> p (last (strip_by p xs))"
proof -
  let ?d = "dropWhile p xs"
  have ne: "rstrip_by p ?d \<noteq> []" using assms by (simp only: strip_by_def not_False_eq_True)
  then have "?d \<noteq> []" by force
  then have h: "\<not> p (hd ?d)" by (rule hd_dropWhile)
  obtain y where "?d = rstrip_by p ?d @ y"
    unfolding rstrip_by_def by (metis rev_append rev_rev_ident takeWhile_dropWhile_id)
  with ne have "hd (rstrip_by p ?d) = hd ?d" by (metis hd_append)
  with h rstrip_by_last [OF ne] show ?thesis unfolding strip_by_def by simp
qed

lemma strip_by_set: "set (strip_by p xs) \<subseteq> set xs"
  unfolding strip_by_def using set_rstrip_by set_dropWhileD by fastforce

lemma strip_by_id:
  "xs = [] \<or> (\<not> p (hd xs) \<and> \<not> p (last xs)) \<Longrightarrow> strip_by p xs = xs"
  by (cases xs) (auto simp: strip_by_def rstrip_by_id)

lemma trim_line_idem [simp]: "trim_line (trim_line l) = trim_line l"
  unfolding trim_line_def
  by (rule rstrip_by_id) (use rstrip_by_last in blast)

lemma canonical_lines_ok:
  "\<forall>l\<in>set (canonical_lines raw). LF \<notin> set l \<and> CR \<notin> set l \<and> trim_line l = l"
proof
  fix l assume "l \<in> set (canonical_lines raw)"
  then obtain m where m: "m \<in> set (split_on LF (unify_newlines raw))" "l = trim_line m"
    using strip_by_set by (fastforce simp: canonical_lines_def)
  have "set l \<subseteq> set m" using m(2) set_rstrip_by by (simp add: trim_line_def)
  moreover have "LF \<notin> set m" "CR \<notin> set m"
    using m(1) split_on_parts set_split_on no_CR by fastforce+
  ultimately show "LF \<notin> set l \<and> CR \<notin> set l \<and> trim_line l = l" using m(2) by auto
qed

lemma canonical_lines_ends:
  "canonical_lines raw \<noteq> [] \<Longrightarrow> hd (canonical_lines raw) \<noteq> [] \<and> last (canonical_lines raw) \<noteq> []"
  unfolding canonical_lines_def using strip_by_ends by blast

text \<open>A text with its lines: no line feed inside a line, and the last line is not empty.\<close>

definition line_text :: "string \<Rightarrow> string list \<Rightarrow> bool" where
  "line_text s ls \<longleftrightarrow> ls \<noteq> [] \<and> last ls \<noteq> [] \<and> (\<forall>l\<in>set ls. LF \<notin> set l) \<and> s = join [LF] ls"

lemma line_text_split: "line_text s ls \<Longrightarrow> split_on LF s = ls"
  by (simp add: line_text_def split_on_join)

lemma canonical_line_text:
  assumes "canonical_lines raw \<noteq> []"
  shows "line_text (cd_text (normalize_to_canonical sha raw)) (canonical_lines raw)"
  using assms canonical_lines_ok canonical_lines_ends
  by (simp add: line_text_def normalize_to_canonical_def Let_def)

lemma replace_crlf_id: "CR \<notin> set s \<Longrightarrow> replace_crlf s = s"
  by (induction s rule: replace_crlf.induct) auto

lemma unify_id: "CR \<notin> set s \<Longrightarrow> unify_newlines s = s"
  by (auto simp: unify_newlines_def replace_crlf_id intro: map_idI)

lemma normalize_idempotent:
  "cd_text (normalize_to_canonical sha (cd_text (normalize_to_canonical sha' raw))) =
   cd_text (normalize_to_canonical sha' raw)"
proof (cases "canonical_lines raw = []")
  case True
  have "canonical_lines [] = []" by code_simp
  with True show ?thesis by (simp add: normalize_to_canonical_def Let_def)
next
  case False
  let ?ls = "canonical_lines raw" let ?s = "join [LF] ?ls"
  have "CR \<notin> set ?s" using canonical_lines_ok set_join by fastforce
  then have "split_on LF (unify_newlines ?s) = ?ls"
    using False canonical_lines_ok by (simp add: unify_id split_on_join)
  moreover have "map trim_line ?ls = ?ls" using canonical_lines_ok by (intro map_idI) blast
  ultimately have "canonical_lines ?s = strip_by (\<lambda>l. l = []) ?ls" by (simp add: canonical_lines_def)
  also have "\<dots> = ?ls" using canonical_lines_ends [OF False] by (intro strip_by_id) simp
  finally show ?thesis by (simp add: normalize_to_canonical_def Let_def)
qed

section \<open>Offsets of lines\<close>

definition off :: "string list \<Rightarrow> nat \<Rightarrow> nat" where
  "off ls i = (\<Sum>l\<leftarrow>take i ls. length l + 1)"

definition nls :: "string \<Rightarrow> nat list" where
  "nls s = filter (\<lambda>i. s ! i = LF) [0..<length s]"

lemma off_0 [simp]: "off ls 0 = 0"
  by (simp add: off_def)

lemma off_Cons [simp]: "off (l # ls) (Suc i) = length l + 1 + off ls i"
  by (simp add: off_def)

lemma off_Suc: "i < length ls \<Longrightarrow> off ls (Suc i) = off ls i + length (ls ! i) + 1"
  by (simp add: off_def take_Suc_conv_app_nth)

lemma off_mono: "i \<le> j \<Longrightarrow> off ls i \<le> off ls j"
proof (induction rule: dec_induct)
  case (step n)
  have "off ls n \<le> off ls (Suc n)" by (cases "n < length ls") (simp_all add: off_Suc, simp add: off_def)
  with step.IH show ?case by simp
qed simp

lemma off_less: "i < j \<Longrightarrow> j \<le> length ls \<Longrightarrow> off ls i < off ls j"
  using off_mono [of "Suc i" j ls] off_Suc [of i ls] by simp

lemma off_length: "ls \<noteq> [] \<Longrightarrow> off ls (length ls) = length (join [LF] ls) + 1"
  by (induction "[LF]" ls rule: join.induct) simp_all

lemma nls_none: "LF \<notin> set a \<Longrightarrow> nls a = []"
  by (auto simp: nls_def filter_empty_conv in_set_conv_nth)

lemma nls_append: "LF \<notin> set a \<Longrightarrow> nls (a @ LF # t) = length a # map (\<lambda>i. length a + Suc i) (nls t)"
proof -
  assume a: "LF \<notin> set a"
  have u: "[0..<length (a @ LF # t)] = [0..<length a] @ length a # map (\<lambda>i. length a + Suc i) [0..<length t]"
  proof -
    have "[0..<length (a @ LF # t)] = [0..<length a] @ [length a..<length a + Suc (length t)]"
      using upt_add_eq_append [of 0 "length a" "Suc (length t)"] by simp
    also have "[length a..<length a + Suc (length t)] = length a # [Suc (length a)..<Suc (length a) + length t]"
      by (subst upt_conv_Cons) simp_all
    also have "[Suc (length a)..<Suc (length a) + length t] = map (\<lambda>i. length a + Suc i) [0..<length t]"
      by (rule nth_equalityI) (simp_all del: upt_Suc)
    finally show ?thesis .
  qed
  have f: "filter (\<lambda>i. (a @ LF # t) ! i = LF) [0..<length a] = []"
    using a by (auto simp: filter_empty_conv nth_append in_set_conv_nth)
  show ?thesis
    unfolding nls_def u filter_append f
    by (simp add: filter_map comp_def nth_append)
qed

lemma offs_nls:
  assumes "ls \<noteq> []" and "\<forall>l\<in>set ls. LF \<notin> set l"
  shows "0 # map Suc (nls (join [LF] ls)) = map (off ls) [0..<length ls]"
  using assms
proof (induction "[LF]" ls rule: join.induct)
  case (2 x)
  then show ?case by (simp add: nls_none)
next
  case (3 x y xs)
  let ?t = "join [LF] (y # xs)"
  have ih: "0 # map Suc (nls ?t) = map (off (y # xs)) [0..<length (y # xs)]" using 3 by simp
  have "map (off (x # y # xs)) [0..<length (x # y # xs)] =
      0 # map (\<lambda>i. length x + 1 + off (y # xs) i) [0..<length (y # xs)]"
    by (subst upt_conv_Cons) (simp_all add: map_Suc_upt [symmetric] comp_def del: upt_Suc)
  also have "\<dots> = 0 # map (\<lambda>k. length x + 1 + k) (map (off (y # xs)) [0..<length (y # xs)])"
    by (simp add: comp_def del: upt_Suc)
  also have "\<dots> = 0 # map (\<lambda>k. length x + 1 + k) (0 # map Suc (nls ?t))" using ih by simp
  also have "\<dots> = 0 # map Suc (nls (x @ LF # ?t))" using 3(3) by (simp add: nls_append comp_def)
  finally show ?case by simp
qed simp


lemma line_text_nonempty: "line_text s ls \<Longrightarrow> s \<noteq> [] \<and> last s \<noteq> LF"
proof (induction ls arbitrary: s)
  case (Cons l ls)
  show ?case
  proof (cases ls)
    case Nil
    with Cons.prems show ?thesis by (auto simp: line_text_def dest: last_in_set)
  next
    case (Cons l' ls')
    with Cons.prems have "line_text (join [LF] ls) ls" by (simp add: line_text_def)
    with Cons.IH have "join [LF] ls \<noteq> [] \<and> last (join [LF] ls) \<noteq> LF" by blast
    moreover have "s = l @ LF # join [LF] ls" using Cons.prems Cons by (simp add: line_text_def)
    ultimately show ?thesis by simp
  qed
qed (simp add: line_text_def)

lemma starts_nls: "line_text s ls \<Longrightarrow> line_starts s = 0 # 0 # map Suc (nls s)"
proof -
  assume s: "line_text s ls"
  have "i + 1 \<noteq> length s" if "i < length s" "s ! i = LF" for i
    using line_text_nonempty [OF s] that by (metis add_diff_cancel_right' last_conv_nth)
  then have "filter (\<lambda>i. s ! i = LF \<and> i + 1 < length s) [0..<length s] = nls s"
    unfolding nls_def by (intro filter_cong) (auto simp: less_Suc_eq_le Suc_le_eq le_neq_implies_less)
  then show ?thesis by (simp add: line_starts_def)
qed

lemma starts_off: "line_text s ls \<Longrightarrow> line_starts s = 0 # map (off ls) [0..<length ls]"
  using offs_nls [of ls] starts_nls by (simp add: line_text_def)

lemma length_starts: "line_text s ls \<Longrightarrow> length (line_starts s) = length ls + 1"
  by (simp add: starts_off)

lemma nth_starts: "line_text s ls \<Longrightarrow> i < length ls \<Longrightarrow> line_starts s ! (i + 1) = off ls i"
  by (simp add: starts_off)

lemma text_length: "line_text s ls \<Longrightarrow> off ls (length ls) = length s + 1"
  by (simp add: line_text_def off_length)

lemma nth_line: "line_text s ls \<Longrightarrow> i < length ls \<Longrightarrow> k < length (ls ! i) \<Longrightarrow> s ! (off ls i + k) = ls ! i ! k"
proof (induction ls arbitrary: s i)
  case (Cons l ls)
  show ?case
  proof (cases ls)
    case Nil
    with Cons.prems show ?thesis by (simp add: line_text_def)
  next
    case (Cons l' ls')
    with Cons.prems have t: "line_text (join [LF] ls) ls" by (simp add: line_text_def)
    have s: "s = l @ LF # join [LF] ls" using Cons.prems Cons by (simp add: line_text_def)
    show ?thesis
    proof (cases i)
      case 0
      with s Cons.prems(3) show ?thesis by (simp add: nth_append)
    next
      case (Suc m)
      with Cons.IH [OF t, of m] Cons.prems s show ?thesis by (simp add: nth_append add.assoc)
    qed
  qed
qed (simp add: line_text_def)

lemma nth_break:
  assumes "line_text s ls" and "i + 1 < length ls"
  shows "s ! (off ls (i + 1) - 1) = LF" and "off ls (i + 1) < length s"
proof -
  have m: "map Suc (nls s) = map (off ls) [1..<length ls]"
  proof -
    have "0 # map Suc (nls s) = map (off ls) (0 # [1..<length ls])"
      using offs_nls [of ls] assms by (simp add: line_text_def upt_conv_Cons [symmetric])
    then show ?thesis by simp
  qed
  have "off ls (i + 1) \<in> set (map (off ls) [1..<length ls])" using assms(2) by auto
  then obtain k where k: "k \<in> set (nls s)" "off ls (i + 1) = Suc k"
    unfolding m [symmetric] by auto
  then show "s ! (off ls (i + 1) - 1) = LF" by (simp add: nls_def)
  have "off ls (i + 1) < off ls (length ls)" using assms(2) by (rule off_less) simp
  moreover have "off ls (i + 1) \<noteq> length s"
    using k line_text_nonempty [OF assms(1)]
    by (metis \<open>s ! (off ls (i + 1) - 1) = LF\<close> last_conv_nth)
  ultimately show "off ls (i + 1) < length s" using text_length [OF assms(1)] by simp
qed

text \<open>The span of a range of lines, in terms of their offsets: the last line break is left out.\<close>

lemma span_lines:
  assumes "line_text s ls" and "i < j" and "j \<le> length ls"
  shows "span s (line_starts s) i j = (off ls i, off ls j - 1, slice s (off ls i) (off ls j - 1))"
proof (cases "j = length ls")
  case True
  then show ?thesis
    using assms line_text_nonempty [OF assms(1)] nth_starts [OF assms(1), of i] length_starts [OF assms(1)]
      text_length [OF assms(1)]
    by (simp add: span_def Let_def)
next
  case False
  then obtain m where m: "j = m + 1" "m + 1 < length ls" using assms by (cases j) auto
  have "off ls i < off ls j" using assms off_less by blast
  then show ?thesis
    using assms False m line_text_nonempty [OF assms(1)] nth_starts [OF assms(1), of i]
      nth_starts [OF assms(1), of j] length_starts [OF assms(1)] nth_break [OF assms(1) m(2)]
    by (simp add: span_def Let_def)
qed

text \<open>Every offset of the text lies in a line, on its break, or after the last line.\<close>

lemma off_end_le: "line_text s ls \<Longrightarrow> j \<le> length ls \<Longrightarrow> off ls j \<le> length s + 1"
  using off_mono [of j "length ls" ls] text_length by fastforce

section \<open>Tiling\<close>

text \<open>
  \<open>tiles s a us\<close>: from offset \<open>a\<close> on, the units come in order without overlap, each holds exactly
  the characters of its span, and everything between and after them is white space.
\<close>

fun tiles :: "string \<Rightarrow> nat \<Rightarrow> logical_unit list \<Rightarrow> bool" where
  "tiles s a [] \<longleftrightarrow> (\<forall>k. a \<le> k \<and> k < length s \<longrightarrow> is_space (s ! k))"
| "tiles s a (u # us) \<longleftrightarrow> a \<le> lu_start u \<and> lu_start u < lu_end u \<and> lu_end u \<le> length s \<and>
     lu_text u = slice s (lu_start u) (lu_end u) \<and>
     (\<forall>k. a \<le> k \<and> k < lu_start u \<longrightarrow> is_space (s ! k)) \<and> tiles s (lu_end u) us"

lemma tiles_skip:
  assumes "tiles s b us" and "a \<le> b" and "\<forall>k. a \<le> k \<and> k < b \<and> k < length s \<longrightarrow> is_space (s ! k)"
  shows "tiles s a us"
proof -
  have low: "is_space (s ! k)" if "a \<le> k" "k < b" "k < length s" for k using assms(3) that by blast
  show ?thesis
  proof (cases us)
    case Nil
    then show ?thesis using assms(1) low by (auto simp: not_less [symmetric])
  next
    case (Cons u us')
    have "is_space (s ! k)" if "a \<le> k" "k < lu_start u" for k
      using assms(1) low [of k] that Cons by (cases "k < b") auto
    then show ?thesis using assms(1,2) Cons by auto
  qed
qed

lemma LF_space [simp]: "is_space LF"
  by (simp add: is_space_def)

lemma strip_eq_Nil: "strip s = [] \<longleftrightarrow> (\<forall>c\<in>set s. is_space c)"
  by (simp add: strip_def)


lemma emit_unit_lines:
  assumes "line_text s ls" and "i < j" and "j \<le> length ls"
  shows "emit_unit s (line_starts s) i j b path =
    \<lparr>lu_text = slice s (off ls i) (off ls j - 1), lu_start = off ls i, lu_end = off ls j - 1,
     lu_line_start = i + 1, lu_line_end = j, lu_type = b, lu_path = path\<rparr>"
  using span_lines [OF assms] by (simp add: emit_unit_def)

lemma break_space:
  assumes "line_text s ls" and "0 < j" and "j \<le> length ls" and "k = off ls j - 1" and "k < length s"
  shows "is_space (s ! k)"
proof (cases "j = length ls")
  case True
  then show ?thesis using assms text_length [OF assms(1)] by simp
next
  case False
  with assms have "s ! (off ls (j - 1 + 1) - 1) = LF" by (intro nth_break(1)) auto
  then show ?thesis using assms by simp
qed

lemma tiles_after_break:
  assumes "line_text s ls" and "0 < j" and "j \<le> length ls" and "tiles s (off ls j) us"
  shows "tiles s (off ls j - 1) us"
proof (rule tiles_skip [OF assms(4)])
  show "\<forall>k. off ls j - 1 \<le> k \<and> k < off ls j \<and> k < length s \<longrightarrow> is_space (s ! k)"
    using break_space [OF assms(1-3)] by (metis One_nat_def Suc_pred diff_is_0_eq le_antisym less_Suc_eq_le not_le zero_less_Suc diff_0_eq_0 less_nat_zero_code)
qed simp

text \<open>A unit for the lines \<open>i\<close> to \<open>j\<close>, before a tiling that starts at line \<open>j\<close>.\<close>

lemma tiles_emit_unit:
  assumes "line_text s ls" and "i < j" and "j \<le> length ls" and "off ls i + 1 < off ls j"
    and "tiles s (off ls j) us"
  shows "tiles s (off ls i) (emit_unit s (line_starts s) i j b path # us)"
  using assms tiles_after_break [OF assms(1) _ assms(3,5)] off_end_le [OF assms(1,3)]
  by (auto simp: emit_unit_lines [OF assms(1-3)])

lemma tiles_emit_if:
  assumes "line_text s ls" and "i < j" and "j \<le> length ls" and "tiles s (off ls j) us"
  shows "tiles s (off ls i) (emit_if s (line_starts s) i j b path @ us)"
proof (cases "strip (slice s (off ls i) (off ls j - 1)) = []")
  case True
  have "is_space (s ! k)" if "off ls i \<le> k" "k < off ls j - 1" "k < length s" for k
  proof -
    have "slice s (off ls i) (off ls j - 1) ! (k - off ls i) = s ! k"
      using that by (subst nth_slice) (auto simp: length_slice)
    moreover have "k - off ls i < length (slice s (off ls i) (off ls j - 1))"
      using that by (auto simp: length_slice)
    ultimately show ?thesis using True nth_mem by (fastforce simp: strip_eq_Nil)
  qed
  moreover have "tiles s (off ls j - 1) us"
    using assms(2) by (intro tiles_after_break [OF assms(1) _ assms(3,4)]) simp
  moreover have "off ls i \<le> off ls j - 1" using off_less [OF assms(2,3)] by simp
  ultimately have "tiles s (off ls i) us" by (blast intro: tiles_skip)
  with True show ?thesis by (simp add: emit_if_def emit_unit_lines [OF assms(1-3)] Let_def)
next
  case False
  then have "slice s (off ls i) (off ls j - 1) \<noteq> []" by (auto simp: strip_eq_Nil)
  then have "off ls i + 1 < off ls j" by (auto simp: slice_def)
  from tiles_emit_unit [OF assms(1-3) this assms(4), of b path] False show ?thesis
    by (simp add: emit_if_def emit_unit_lines [OF assms(1-3)] Let_def)
qed

text \<open>A blank line is skipped.\<close>

lemma tiles_blank:
  assumes "line_text s ls" and "i < length ls" and "strip (ls ! i) = []" and "tiles s (off ls (i + 1)) us"
  shows "tiles s (off ls i) us"
proof -
  have o: "off ls (i + 1) = off ls i + length (ls ! i) + 1" using off_Suc [OF assms(2)] by simp
  have "is_space (s ! k)" if "off ls i \<le> k" "k < off ls (i + 1) - 1" for k
  proof -
    have "s ! (off ls i + (k - off ls i)) = ls ! i ! (k - off ls i)"
      using that o by (intro nth_line [OF assms(1,2)]) simp
    moreover have "ls ! i ! (k - off ls i) \<in> set (ls ! i)" using that o by (intro nth_mem) simp
    ultimately show ?thesis using assms(3) that by (simp add: strip_eq_Nil)
  qed
  moreover have "tiles s (off ls (i + 1) - 1) us"
    using assms(2) by (intro tiles_after_break [OF assms(1) _ _ assms(4)]) simp_all
  moreover have "off ls i \<le> off ls (i + 1) - 1" using o by simp
  ultimately show ?thesis by (blast intro: tiles_skip)
qed

lemma fence_end_bounds: "i < fence_end i rest \<and> fence_end i rest \<le> i + 1 + length rest"
  using length_takeWhile_le [of "\<lambda>l. \<not> starts_with fence l" rest] by (auto simp: fence_end_def Let_def)

lemma heading_line_nonempty: "heading_match l = Some h \<Longrightarrow> l \<noteq> []"
  by (auto simp: heading_match_def Let_def)

lemma drop_tail: "drop i ls = l # rest \<Longrightarrow> i < length ls \<and> ls ! i = l \<and> drop (i + 1) ls = rest \<and>
    length ls = i + 1 + length rest"
  by (metis Suc_eq_plus1 drop_eq_Nil2 length_Cons length_drop list.discI list.sel(3) not_le nth_via_drop
      tl_drop drop_Suc le_add_diff_inverse2 add.commute add_Suc_right nat_less_le)

lemma unit_loop_tiles:
  assumes "line_text s ls" and "rest = drop i ls" and "i \<le> length ls"
  shows "tiles s (off ls i) (unit_loop cm s (line_starts s) i stack rest)"
  using assms
proof (induction cm s "line_starts s" i stack rest rule: unit_loop.induct)
  case (1 cm s i stack)
  then show ?case using text_length [OF 1(1)] by auto
next
  case (2 cm s i stack l rest)
  note d = drop_tail [OF 2(6) [symmetric]]
  have step: "drop (j - i) (l # rest) = drop j ls" if "i \<le> j" for j
    using 2(6) that by (simp add: add.commute)
  show ?case
  proof (cases "\<not> cm \<and> starts_with fence l")
    case True
    let ?j = "fence_end i rest"
    have j: "i < ?j" "?j \<le> length ls" using fence_end_bounds [of i rest] d by auto
    have "tiles s (off ls ?j) (unit_loop cm s (line_starts s) ?j stack (drop (?j - i) (l # rest)))"
      using True j step [of ?j] by (intro 2(1) [OF True refl 2(5)]) simp_all
    then show ?thesis using True tiles_emit_if [OF 2(5) j] by (simp add: unit_loop.simps(2) Let_def)
  next
    case nf: False
    show ?thesis
    proof (cases "if cm then None else heading_match l")
      case (Some h)
      obtain level title where h: "h = (level, title)" by force
      let ?st = "push_heading level title stack"
      have "tiles s (off ls (i + 1)) (unit_loop cm s (line_starts s) (i + 1) ?st rest)"
        using d by (intro 2(4) [OF nf _ _ refl 2(5)]) (auto simp: Some h)
      moreover have "off ls i + 1 < off ls (i + 1)"
        using Some d off_Suc [of i ls] by (auto split: if_splits dest: heading_line_nonempty)
      ultimately have "tiles s (off ls i) (emit_unit s (line_starts s) i (i + 1) HEADING (map snd ?st) #
          unit_loop cm s (line_starts s) (i + 1) ?st rest)"
        using d by (intro tiles_emit_unit [OF 2(5)]) simp_all
      moreover have "unit_loop cm s (line_starts s) i stack (l # rest) =
          emit_unit s (line_starts s) i (i + 1) HEADING (map snd ?st) #
          unit_loop cm s (line_starts s) (i + 1) ?st rest"
        unfolding unit_loop.simps(2) Some h using nf by (auto simp: Let_def)
      ultimately show ?thesis by metis
    next
      case None
      show ?thesis
      proof (cases "strip l = []")
        case True
        have "tiles s (off ls (i + 1)) (unit_loop cm s (line_starts s) (i + 1) stack rest)"
          using d by (intro 2(2) [OF nf None True 2(5)]) auto
        moreover have "unit_loop cm s (line_starts s) i stack (l # rest) =
            unit_loop cm s (line_starts s) (i + 1) stack rest"
          unfolding unit_loop.simps(2) None using nf True by auto
        ultimately show ?thesis using d True by (metis tiles_blank [OF 2(5)])
      next
        case False
        let ?il = "\<not> cm \<and> list_match l"
        let ?j = "i + length (takeWhile (block_goes_on cm ?il) (l # rest))"
        have "block_goes_on cm ?il l" using False nf None by (auto simp: block_goes_on_def)
        then have j: "i < ?j" "?j \<le> length ls"
          using d length_takeWhile_le [of "block_goes_on cm ?il" rest] by auto
        have "tiles s (off ls ?j) (unit_loop cm s (line_starts s) ?j stack (drop (?j - i) (l # rest)))"
          using j step [of ?j] by (intro 2(3) [OF nf None False refl refl 2(5)]) simp_all
        then have "tiles s (off ls i) (emit_if s (line_starts s) i ?j
            (if cm then CODE_BLOCK else if ?il then LIST_BLOCK else PARAGRAPH) (map snd stack) @
            unit_loop cm s (line_starts s) ?j stack (drop (?j - i) (l # rest)))"
          by (rule tiles_emit_if [OF 2(5) j])
        then show ?thesis unfolding unit_loop.simps(2) None Let_def using False nf by auto
      qed
    qed
  qed
qed


section \<open>Splitting keeps the tiling\<close>

lemma rfind_bounds: "- 1 \<le> rfind c s \<and> rfind c s < int (length s) \<or> s = [] \<and> rfind c s = - 1"
  using length_takeWhile_le [of "\<lambda>x. x \<noteq> c" "rev s"] by (cases s) (auto simp: rfind_def)

lemma cut_at_bounds:
  assumes "1 \<le> m" and "rem \<noteq> []"
  shows "1 \<le> cut_at m rem \<and> int (cut_at m rem) \<le> m \<and> cut_at m rem \<le> length rem"
proof (cases "int (length rem) \<le> m")
  case True
  then show ?thesis using assms by (cases rem) (simp_all add: cut_at_def)
next
  case False
  have q: "0 \<le> m div 4" using assms(1) by simp
  have "-1 \<le> rfind c (take (nat m) rem) \<and> rfind c (take (nat m) rem) < m" for c
    using rfind_bounds [of c "take (nat m) rem"] assms by auto
  note b = this [of LF] this [of "CHR '' ''"]
  show ?thesis using False assms q b by (auto simp: cut_at_def Let_def)
qed

fun fills :: "string \<Rightarrow> nat \<Rightarrow> logical_unit list \<Rightarrow> nat \<Rightarrow> bool" where
  "fills s a [] b \<longleftrightarrow> a = b"
| "fills s a (u # us) b \<longleftrightarrow> lu_start u = a \<and> a < lu_end u \<and> lu_end u \<le> length s \<and>
     lu_text u = slice s a (lu_end u) \<and> fills s (lu_end u) us b"

lemma tiles_fills: "fills s a xs b \<Longrightarrow> tiles s b ys \<Longrightarrow> tiles s a (xs @ ys)"
  by (induction xs arbitrary: a) auto

lemma split_loop_fills:
  assumes "lu_text u = slice s (lu_start u) (lu_end u)" and "lu_start u \<le> lu_end u"
    and "lu_end u \<le> length s" and "pos \<le> length (lu_text u)" and "1 \<le> m"
  shows "fills s (lu_start u + pos) (split_loop m u pos) (lu_end u) \<and>
    (\<forall>p\<in>set (split_loop m u pos). int (length (lu_text p)) \<le> m)"
  using assms
proof (induction m u pos rule: split_loop.induct)
  case (1 m u pos)
  have len: "length (lu_text u) = lu_end u - lu_start u" using 1(2-4) by (simp add: length_slice)
  show ?case
  proof (cases "pos < length (lu_text u)")
    case False
    then show ?thesis using 1(3,5) len by (subst (1 2) split_loop.simps) simp
  next
    case True
    define cut where "cut = cut_at m (drop pos (lu_text u))"
    have cut: "1 \<le> cut" "int cut \<le> m" "pos + cut \<le> length (lu_text u)"
      using cut_at_bounds [OF 1(6), of "drop pos (lu_text u)"] True by (auto simp: cut_def)
    let ?piece = "slice (lu_text u) pos (pos + cut)"
    have piece: "?piece = slice s (lu_start u + pos) (lu_start u + (pos + cut))" and pl: "length ?piece = cut"
      using cut len 1(2-4) by (simp_all add: slice_slice length_slice)
    then have ne: "?piece \<noteq> []" using cut by auto
    have ih: "fills s (lu_start u + (pos + cut)) (split_loop m u (pos + cut)) (lu_end u) \<and>
        (\<forall>p\<in>set (split_loop m u (pos + cut)). int (length (lu_text p)) \<le> m)"
      using 1(1) [OF True cut_def refl ne 1(2-4) cut(3) 1(6)] .
    have eq: "split_loop m u pos = u\<lparr>lu_text := ?piece, lu_start := lu_start u + pos,
        lu_end := lu_start u + pos + length ?piece, lu_type := HARD_SPLIT\<rparr> # split_loop m u (pos + cut)"
      using True ne by (subst split_loop.simps) (simp add: Let_def cut_def)
    show ?thesis
      unfolding eq using ih cut piece pl len 1(3,4) by (simp add: add.assoc)
  qed
qed

lemma split_fills:
  assumes "lu_text u = slice s (lu_start u) (lu_end u)" and "lu_start u < lu_end u"
    and "lu_end u \<le> length s" and "1 \<le> m"
  shows "fills s (lu_start u) (split_oversized m u) (lu_end u) \<and>
    (\<forall>p\<in>set (split_oversized m u). int (length (lu_text p)) \<le> m)"
  using assms split_loop_fills [of u s 0 m] by (auto simp: split_oversized_def)

lemma tiles_split:
  assumes "tiles s a us" and "1 \<le> m"
  shows "tiles s a (concat (map (split_oversized m) us)) \<and>
    (\<forall>p\<in>set (concat (map (split_oversized m) us)). int (length (lu_text p)) \<le> m)"
  using assms
proof (induction us arbitrary: a)
  case (Cons u us)
  then have u: "lu_text u = slice s (lu_start u) (lu_end u)" "lu_start u < lu_end u" "lu_end u \<le> length s"
      "a \<le> lu_start u" "\<forall>k. a \<le> k \<and> k < lu_start u \<longrightarrow> is_space (s ! k)"
    and t: "tiles s (lu_end u) us" by simp_all
  note f = split_fills [OF u(1-3) Cons.prems(2)] and ih = Cons.IH [OF t Cons.prems(2)]
  have "tiles s (lu_start u) (split_oversized m u @ concat (map (split_oversized m) us))"
    using tiles_fills f ih by blast
  then have "tiles s a (split_oversized m u @ concat (map (split_oversized m) us))"
    using u(4,5) by (blast intro: tiles_skip)
  then show ?case using f ih by auto
qed simp

lemma tiles_map:
  assumes "\<And>u. lu_text (f u) = lu_text u \<and> lu_start (f u) = lu_start u \<and> lu_end (f u) = lu_end u"
  shows "tiles s a (map f us) = tiles s a us"
  by (induction us arbitrary: a) (simp_all add: assms)

lemma fix_line_fields [simp]:
  "lu_text (fix_line s u) = lu_text u" "lu_start (fix_line s u) = lu_start u" "lu_end (fix_line s u) = lu_end u"
  by (simp_all add: fix_line_def Let_def)

lemma tiles_fix_lines [simp]: "tiles s a (fix_lines s us) = tiles s a us"
  unfolding fix_lines_def by (rule tiles_map) simp

lemma repair_id: "tiles s a us \<Longrightarrow> map (repair s) us = us"
  by (induction us arbitrary: a) (auto simp: repair_def Let_def)

lemma detect_empty: "detect_kind s = EMPTY_KIND \<longleftrightarrow> strip s = []"
  by (simp add: detect_kind_def Let_def)

lemma all_space_tiles: "strip s = [] \<Longrightarrow> tiles s a []"
  by (simp add: strip_eq_Nil)

lemma unitize_tiles:
  fixes raw :: string and sha :: "string \<Rightarrow> string"
  defines "doc \<equiv> normalize_to_canonical sha raw"
  shows "tiles (cd_text doc) 0 (unitize doc)"
proof (cases "strip (cd_text doc) = []")
  case True
  then show ?thesis by (simp add: unitize_def all_space_tiles del: tiles.simps)
next
  case False
  then have ne: "canonical_lines raw \<noteq> []"
    by (auto simp: doc_def normalize_to_canonical_def Let_def strip_def)
  note t = canonical_line_text [OF ne, of sha, folded doc_def]
  have "cd_kind doc \<noteq> EMPTY_KIND"
    using False detect_empty by (simp add: doc_def normalize_to_canonical_def Let_def)
  then show ?thesis
    using False unit_loop_tiles [OF t, of "canonical_lines raw" 0] line_text_split [OF t] line_text_nonempty [OF t]
    by (simp add: unitize_def unitize_structured_def)
qed

lemma expand_tiles:
  fixes raw :: string and sha :: "string \<Rightarrow> string"
  assumes "1 \<le> m"
  defines "doc \<equiv> normalize_to_canonical sha raw"
  shows "tiles (cd_text doc) 0 (expand_units m doc)"
    and "u \<in> set (expand_units m doc) \<Longrightarrow> int (length (lu_text u)) \<le> m"
proof -
  let ?us = "fix_lines (cd_text doc) (concat (map (split_oversized m) (unitize doc)))"
  note t = tiles_split [OF unitize_tiles [where sha = sha and raw = raw, folded doc_def] assms(1)]
  then have us: "tiles (cd_text doc) 0 ?us" by simp
  have e: "expand_units m doc = fix_lines (cd_text doc) ?us"
    using repair_id [OF us] by (simp add: expand_units_def)
  show "tiles (cd_text doc) 0 (expand_units m doc)" using us by (simp add: e)
  show "u \<in> set (expand_units m doc) \<Longrightarrow> int (length (lu_text u)) \<le> m"
    using t unfolding e by (auto simp: fix_lines_def)
qed

section \<open>Packing keeps the tiling\<close>

lemma pack_loop_concat: "concat (pack_loop m cur us) = cur @ us"
  by (induction m cur us rule: pack_loop.induct) auto

lemma pack_loop_bound:
  assumes "\<forall>u\<in>set us. int (lu_end u) - int (lu_start u) \<le> m"
    and "cur = [] \<or> int (lu_end (last cur)) - int (lu_start (hd cur)) \<le> m"
  shows "\<forall>g\<in>set (pack_loop m cur us). g \<noteq> [] \<and> int (lu_end (last g)) - int (lu_start (hd g)) \<le> m"
  using assms
proof (induction us arbitrary: cur)
  case (Cons u us)
  have us: "\<forall>u\<in>set us. int (lu_end u) - int (lu_start u) \<le> m" and u: "int (lu_end u) - int (lu_start u) \<le> m"
    using Cons.prems(1) by simp_all
  have one: "\<forall>g\<in>set (pack_loop m [u] us). g \<noteq> [] \<and> int (lu_end (last g)) - int (lu_start (hd g)) \<le> m"
    using us u by (intro Cons.IH) simp_all
  show ?case
  proof (cases "cur \<noteq> [] \<and> int (lu_end u) - int (lu_start (hd cur)) \<le> m \<and> lu_start u \<ge> lu_start (last cur)")
    case True
    then have "\<forall>g\<in>set (pack_loop m (cur @ [u]) us). g \<noteq> [] \<and> int (lu_end (last g)) - int (lu_start (hd g)) \<le> m"
      using us by (intro Cons.IH) simp_all
    with True show ?thesis by simp
  next
    case False
    then have "pack_loop m cur (u # us) = (if cur = [] then [] else [cur]) @ pack_loop m [u] us" by auto
    then show ?thesis using one Cons.prems(2) by (cases "cur = []") simp_all
  qed
qed auto

lemma tiles_group:
  assumes "tiles s a (g @ us)" and "g \<noteq> []"
  shows "a \<le> lu_start (hd g) \<and> lu_start (hd g) < lu_end (last g) \<and> lu_end (last g) \<le> length s \<and>
    (\<forall>k. a \<le> k \<and> k < lu_start (hd g) \<longrightarrow> is_space (s ! k)) \<and> tiles s (lu_end (last g)) us"
  using assms
proof (induction g arbitrary: a)
  case (Cons u g)
  show ?case
  proof (cases "g = []")
    case True
    then show ?thesis using Cons.prems by simp
  next
    case False
    with Cons.prems Cons.IH [of "lu_end u"] show ?thesis by auto
  qed
qed simp

text \<open>One chunk against the text, and the chunks of the text from offset \<open>a\<close> and ordinal \<open>n\<close> on.\<close>

definition chunk_ok :: "(string \<Rightarrow> string) \<Rightarrow> int \<Rightarrow> string \<Rightarrow> chunk_draft \<Rightarrow> bool" where
  "chunk_ok sha m s c \<longleftrightarrow> ch_start c < ch_end c \<and> ch_end c \<le> length s \<and>
     ch_content c = slice s (ch_start c) (ch_end c) \<and> int (length (ch_content c)) \<le> m \<and>
     strip (ch_content c) \<noteq> [] \<and> ch_sha256 c = sha (utf8 (ch_content c)) \<and>
     ch_line_start c = line_of (line_starts s) (int (ch_start c)) \<and>
     ch_line_end c = line_of (line_starts s) (int (ch_end c) - 1)"

fun chunk_tiles :: "(string \<Rightarrow> string) \<Rightarrow> int \<Rightarrow> string \<Rightarrow> nat \<Rightarrow> nat \<Rightarrow> chunk_draft list \<Rightarrow> bool" where
  "chunk_tiles sha m s n a [] \<longleftrightarrow> (\<forall>k. a \<le> k \<and> k < length s \<longrightarrow> is_space (s ! k))"
| "chunk_tiles sha m s n a (c # cs) \<longleftrightarrow> ch_ordinal c = n \<and> a \<le> ch_start c \<and> chunk_ok sha m s c \<and>
     (\<forall>k. a \<le> k \<and> k < ch_start c \<longrightarrow> is_space (s ! k)) \<and> chunk_tiles sha m s (Suc n) (ch_end c) cs"

lemma chunk_tiles_skip:
  assumes "chunk_tiles sha m s n b cs" and "a \<le> b" and "\<forall>k. a \<le> k \<and> k < b \<longrightarrow> is_space (s ! k)"
  shows "chunk_tiles sha m s n a cs"
  using assms by (cases cs) (auto, (metis not_le)+)

lemma add_chunks:
  assumes "tiles s a (concat gs)"
    and "\<forall>g\<in>set gs. g \<noteq> [] \<and> int (lu_end (last g)) - int (lu_start (hd g)) \<le> m"
  shows "\<exists>new. fold (add_chunk sha m s) gs acc = acc @ new \<and> chunk_tiles sha m s (length acc) a new"
  using assms
proof (induction gs arbitrary: a acc)
  case (Cons g gs)
  let ?a = "lu_start (hd g)" let ?e = "lu_end (last g)"
  have g: "g \<noteq> []" "int ?e - int ?a \<le> m" using Cons.prems(2) by auto
  note t = tiles_group [of s a g "concat gs"]
  have t: "a \<le> ?a" "?a < ?e" "?e \<le> length s" "\<forall>k. a \<le> k \<and> k < ?a \<longrightarrow> is_space (s ! k)" "tiles s ?e (concat gs)"
    using tiles_group [of s a g "concat gs"] Cons.prems(1) g(1) by simp_all
  have gs: "\<forall>g\<in>set gs. g \<noteq> [] \<and> int (lu_end (last g)) - int (lu_start (hd g)) \<le> m" using Cons.prems(2) by simp
  let ?c = "slice s ?a ?e"
  have len: "length ?c = ?e - ?a" using t by (simp add: length_slice)
  show ?case
  proof (cases "strip ?c = []")
    case True
    then have "add_chunk sha m s g acc = acc" by (simp add: add_chunk_def Let_def)
    moreover have "is_space (s ! k)" if "a \<le> k" "k < ?e" for k
    proof (cases "k < ?a")
      case False
      then have "?c ! (k - ?a) = s ! k" using that t len by (subst nth_slice) auto
      moreover have "k - ?a < length ?c" using that False len by simp
      ultimately show ?thesis using True nth_mem by (fastforce simp: strip_eq_Nil)
    qed (use t that in blast)
    moreover obtain new where new: "fold (add_chunk sha m s) gs acc = acc @ new"
        "chunk_tiles sha m s (length acc) ?e new" using Cons.IH [OF t(5) gs] by blast
    moreover have "a \<le> ?e" using t by simp
    ultimately have "chunk_tiles sha m s (length acc) a new" by (blast intro: chunk_tiles_skip)
    then show ?thesis using new(1) \<open>add_chunk sha m s g acc = acc\<close> by auto
  next
    case False
    have "s \<noteq> []" using t by auto
    define c where "c = \<lparr>ch_ordinal = length acc, ch_content = ?c, ch_sha256 = sha (utf8 ?c),
      ch_start = ?a, ch_end = ?e, ch_line_start = line_of (line_starts s) (int ?a),
      ch_line_end = line_of (line_starts s) (int ?e - 1), ch_block_type = group_type g,
      ch_path = foldl deepen (lu_path (hd g)) g, ch_oversized = (HARD_SPLIT \<in> lu_type ` set g)\<rparr>"
    have small: "\<not> int (length ?c) > m" and mx: "max (int ?a) (int ?e - 1) = int ?e - 1"
      using len g t by auto
    have eq: "add_chunk sha m s g acc = acc @ [c]"
      by (simp only: add_chunk_def Let_def c_def False \<open>s \<noteq> []\<close> small mx if_True if_False simp_thms)
    have c: "ch_ordinal c = length acc" "ch_start c = ?a" "ch_end c = ?e" "chunk_ok sha m s c"
      using False small t by (simp_all add: c_def chunk_ok_def)
    obtain new where "fold (add_chunk sha m s) gs (acc @ [c]) = (acc @ [c]) @ new"
        "chunk_tiles sha m s (Suc (length acc)) ?e new" using Cons.IH [OF t(5) gs, of "acc @ [c]"] by auto
    then show ?thesis using c t eq by (intro exI [of _ "c # new"]) simp
  qed
qed simp

lemma chunk_hybrid_tiles:
  fixes raw :: string and sha :: "string \<Rightarrow> string"
  assumes "1 \<le> m"
  defines "doc \<equiv> normalize_to_canonical sha raw"
  obtains cs where "chunk_hybrid sha m doc = Inr cs" and "chunk_tiles sha m (cd_text doc) 0 0 cs"
proof -
  let ?us = "expand_units m doc"
  note e = expand_tiles [OF assms(1), where sha = sha and raw = raw, folded doc_def]
  have "int (lu_end u) - int (lu_start u) \<le> m" if "u \<in> set us" "tiles s a us" "\<forall>u\<in>set us. int (length (lu_text u)) \<le> m"
    for s a us u
    using that by (induction us arbitrary: a) (auto simp: length_slice)
  then have "\<forall>u\<in>set ?us. int (lu_end u) - int (lu_start u) \<le> m" using e by blast
  then have b: "\<forall>g\<in>set (pack m ?us). g \<noteq> [] \<and> int (lu_end (last g)) - int (lu_start (hd g)) \<le> m"
    unfolding pack_def by (intro pack_loop_bound) simp_all
  have "tiles (cd_text doc) 0 (concat (pack m ?us))" using e(1) by (simp add: pack_def pack_loop_concat)
  from add_chunks [OF this b, of sha "[]"] show ?thesis
    using assms(1) by (auto simp: chunk_hybrid_def intro: that)
qed


section \<open>The line of an offset\<close>

text \<open>The binary search finds the last entry that is at most the offset.\<close>

lemma line_of_loop_spec:
  assumes "sorted (tl starts)" and "1 \<le> lo" and "lo \<le> hi + 1" and "hi < int (length starts)"
    and "ans = max 1 (lo - 1)" and "1 < length starts" and "int (starts ! nat ans) \<le> offset"
    and "\<forall>k. hi < int k \<and> k < length starts \<longrightarrow> offset < int (starts ! k)"
  shows "let r = nat (line_of_loop starts offset lo hi ans)
    in 1 \<le> r \<and> r < length starts \<and> int (starts ! r) \<le> offset \<and>
       (r + 1 < length starts \<longrightarrow> offset < int (starts ! (r + 1)))"
  using assms
proof (induction starts offset lo hi ans rule: line_of_loop.induct)
  case (1 starts offset lo hi ans)
  show ?case
  proof (cases "lo \<le> hi")
    case False
    then have "hi = lo - 1" using 1(5) by simp
    moreover have "line_of_loop starts offset lo hi ans = ans" using False by (subst line_of_loop.simps) simp
    moreover have "offset < int (starts ! k)" if "hi < int k" "k < length starts" for k using 1(10) that by blast
    ultimately show ?thesis using 1(4,6-9) by (auto simp: Let_def max_def split: if_splits)
  next
    case True
    define mid where "mid = (lo + hi) div 2"
    have mid: "lo \<le> mid" "mid \<le> hi" using True by (auto simp: mid_def)
    show ?thesis
    proof (cases "int (starts ! nat mid) \<le> offset")
      case le: True
      have "line_of_loop starts offset lo hi ans = line_of_loop starts offset (mid + 1) hi mid"
        using True le by (subst line_of_loop.simps) (simp add: mid_def Let_def)
      with 1(1) [OF True mid_def le 1(3)] mid 1(4,6,8,10) le show ?thesis by (simp add: max_def)
    next
      case gt: False
      have "offset < int (starts ! k)" if "mid - 1 < int k" "k < length starts" for k
      proof -
        have "1 \<le> k" "nat mid \<le> k" using that mid 1(4) by auto
        moreover have "tl starts ! (nat mid - 1) \<le> tl starts ! (k - 1)"
          using that mid 1(4,6) by (intro sorted_nth_mono [OF 1(3)]) auto
        ultimately show ?thesis
          using gt that mid 1(4,6) by (simp add: nth_tl)
      qed
      moreover have "line_of_loop starts offset lo hi ans = line_of_loop starts offset lo (mid - 1) ans"
        using True gt by (subst line_of_loop.simps) (simp add: mid_def Let_def)
      ultimately show ?thesis
        using 1(2) [OF True mid_def gt 1(3,4)] mid 1(6-9) by simp
    qed
  qed
qed

lemma count_breaks: "k \<le> length s \<Longrightarrow> count_list (take k s) LF = length (filter (\<lambda>i. i < k) (nls s))"
proof -
  assume k: "k \<le> length s"
  have "filter (\<lambda>i. i < k) (nls s) = filter (\<lambda>i. s ! i = LF) (filter (\<lambda>i. i < k) [0..<length s])"
    by (simp add: nls_def conj_commute)
  also have "filter (\<lambda>i. i < k) [0..<length s] = [0..<k]"
    using k upt_add_eq_append [of 0 k "length s - k"] by (simp add: filter_empty_conv)
  finally have "length (filter (\<lambda>i. i < k) (nls s)) = length (filter (\<lambda>i. s ! i = LF) [0..<k])" by simp
  also have "\<dots> = count_list (take k s) LF"
    using k by (induction k) (simp_all add: take_Suc_conv_app_nth)
  finally show ?thesis by simp
qed

lemma sorted_prefix_count:
  assumes "sorted xs" and "j \<le> length xs" and "\<forall>i<j. xs ! i < (k :: nat)" and "j < length xs \<longrightarrow> k \<le> xs ! j"
  shows "length (filter (\<lambda>x. x < k) xs) = j"
proof -
  have "filter (\<lambda>x. x < k) (take j xs) = take j xs"
    using assms(2,3) by (auto simp: filter_id_conv in_set_conv_nth)
  moreover have "\<not> x < k" if "x \<in> set (drop j xs)" for x
  proof -
    from that obtain i where i: "i < length xs - j" "x = xs ! (j + i)" by (auto simp: in_set_conv_nth)
    then have "xs ! j \<le> x" using sorted_nth_mono [OF assms(1), of j "j + i"] by simp
    moreover have "j < length xs" using i by simp
    ultimately show ?thesis using assms(4) by simp
  qed
  then have "filter (\<lambda>x. x < k) (drop j xs) = []" by (auto simp: filter_empty_conv)
  ultimately show ?thesis
    using assms(2) filter_append [of "\<lambda>x. x < k" "take j xs" "drop j xs"] by (simp del: filter_append)
qed

lemma sorted_nls: "sorted (nls s)"
  unfolding nls_def by (rule sorted_filter [where f = id, simplified]) simp

lemma line_of_counts:
  assumes "line_text s ls" and "k < length s"
  shows "line_of (line_starts s) (int k) = Suc (count_list (take k s) LF)"
proof -
  let ?n = "nls s" let ?st = "line_starts s"
  have st: "?st = 0 # 0 # map Suc ?n" by (rule starts_nls [OF assms(1)])
  have sorted: "sorted (tl ?st)" using sorted_nls [of s] by (simp add: st sorted_map)
  let ?r = "nat (line_of_loop ?st (int k) 1 (int (length ?st) - 1) 1)"
  have r: "1 \<le> ?r \<and> ?r < length ?st \<and> int (?st ! ?r) \<le> int k \<and> (?r + 1 < length ?st \<longrightarrow> int k < int (?st ! (?r + 1)))"
    using line_of_loop_spec [OF sorted, of 1 "int (length ?st) - 1" 1 "int k"] by (simp add: st Let_def)
  then obtain j where j: "?r = Suc j" by (cases ?r) auto
  have "length (filter (\<lambda>x. x < k) ?n) = j"
  proof (rule sorted_prefix_count [OF sorted_nls])
    show "j \<le> length ?n" using r j by (simp add: st)
    show "\<forall>i<j. ?n ! i < k"
    proof (intro allI impI)
      fix i assume i: "i < j"
      then obtain m where m: "j = Suc m" by (cases j) auto
      have mlen: "m < length ?n" using r j m by (simp add: st)
      with m have "?n ! m < k" using r j by (auto simp: st)
      then show "?n ! i < k" using sorted_nth_mono [OF sorted_nls, of i m s] i m mlen by simp
    qed
    show "j < length ?n \<longrightarrow> k \<le> ?n ! j" using r j by (auto simp: st)
  qed
  then show ?thesis using count_breaks [of k s] assms(2) j by (simp add: line_of_def)
qed


section \<open>What the chunker promises\<close>

lemma chunk_tiles_nth:
  assumes "chunk_tiles sha m s n a cs"
  shows "(\<forall>i<length cs. ch_ordinal (cs ! i) = n + i \<and> chunk_ok sha m s (cs ! i) \<and> a \<le> ch_start (cs ! i)) \<and>
    (\<forall>i. Suc i < length cs \<longrightarrow> ch_end (cs ! i) \<le> ch_start (cs ! Suc i)) \<and>
    (\<forall>k. a \<le> k \<and> k < length s \<and> \<not> is_space (s ! k) \<longrightarrow> (\<exists>c\<in>set cs. ch_start c \<le> k \<and> k < ch_end c))"
  using assms
proof (induction cs arbitrary: n a)
  case (Cons c cs)
  then have c: "ch_ordinal c = n" "a \<le> ch_start c" "chunk_ok sha m s c"
      "\<forall>k. a \<le> k \<and> k < ch_start c \<longrightarrow> is_space (s ! k)" and t: "chunk_tiles sha m s (Suc n) (ch_end c) cs"
    by simp_all
  have lt: "ch_start c < ch_end c" using c(3) by (simp add: chunk_ok_def)
  note ih = Cons.IH [OF t]
  have "ch_ordinal ((c # cs) ! i) = n + i \<and> chunk_ok sha m s ((c # cs) ! i) \<and> a \<le> ch_start ((c # cs) ! i)"
    if "i < length (c # cs)" for i
    using that c ih lt by (cases i) auto
  moreover have "ch_end ((c # cs) ! i) \<le> ch_start ((c # cs) ! Suc i)" if "Suc i < length (c # cs)" for i
    using that ih by (cases i) auto
  moreover have "\<exists>x\<in>set (c # cs). ch_start x \<le> k \<and> k < ch_end x"
    if "a \<le> k" "k < length s" "\<not> is_space (s ! k)" for k
    using that c(4) ih by (metis list.set_intros not_le)
  ultimately show ?case by blast
qed auto

lemma canonical_text_cases:
  fixes raw :: string and sha :: "string \<Rightarrow> string"
  defines "s \<equiv> cd_text (normalize_to_canonical sha raw)"
  obtains "s = []" | ls where "line_text s ls"
  using canonical_line_text [of raw sha] by (cases "canonical_lines raw = []")
    (auto simp: s_def normalize_to_canonical_def Let_def)

lemma chunk_hybrid_correct:
  fixes raw :: string and sha :: "string \<Rightarrow> string"
  defines "s \<equiv> cd_text (normalize_to_canonical sha raw)"
  assumes "1 \<le> max_chars"
  shows "\<exists>cs. chunk_hybrid sha max_chars (normalize_to_canonical sha raw) = Inr cs \<and>
    (\<forall>i<length cs. let c = cs ! i in
       ch_ordinal c = i \<and> ch_start c < ch_end c \<and> ch_end c \<le> length s \<and>
       ch_content c = slice s (ch_start c) (ch_end c) \<and> int (length (ch_content c)) \<le> max_chars \<and>
       strip (ch_content c) \<noteq> [] \<and> ch_sha256 c = sha (utf8 (ch_content c)) \<and>
       ch_line_start c = Suc (count_list (take (ch_start c) s) LF) \<and>
       ch_line_end c = Suc (count_list (take (ch_end c - 1) s) LF)) \<and>
    (\<forall>i. Suc i < length cs \<longrightarrow> ch_end (cs ! i) \<le> ch_start (cs ! Suc i)) \<and>
    (\<forall>k<length s. \<not> is_space (s ! k) \<longrightarrow> (\<exists>c\<in>set cs. ch_start c \<le> k \<and> k < ch_end c))"
proof -
  obtain cs where cs: "chunk_hybrid sha max_chars (normalize_to_canonical sha raw) = Inr cs"
      "chunk_tiles sha max_chars s 0 0 cs"
    using chunk_hybrid_tiles [OF assms(2), of sha raw] by (auto simp: s_def)
  note n = chunk_tiles_nth [OF cs(2)]
  have lines: "ch_line_start c = Suc (count_list (take (ch_start c) s) LF) \<and>
      ch_line_end c = Suc (count_list (take (ch_end c - 1) s) LF)" if "chunk_ok sha max_chars s c" for c
  proof (rule canonical_text_cases [of sha raw, folded s_def])
    assume "s = []"
    then show ?thesis using that by (simp add: chunk_ok_def)
  next
    fix ls assume t: "line_text s ls"
    have c: "ch_start c < ch_end c" "ch_end c \<le> length s"
        "ch_line_start c = line_of (line_starts s) (int (ch_start c))"
        "ch_line_end c = line_of (line_starts s) (int (ch_end c) - 1)"
      using that by (simp_all only: chunk_ok_def)
    have e: "int (ch_end c) - 1 = int (ch_end c - 1)" using c(1) by simp
    have "ch_start c < length s" "ch_end c - 1 < length s" using c(1,2) by simp_all
    then show ?thesis unfolding c(3,4) e by (simp only: line_of_counts [OF t] simp_thms)
  qed
  have ok: "let c = cs ! i in
       ch_ordinal c = i \<and> ch_start c < ch_end c \<and> ch_end c \<le> length s \<and>
       ch_content c = slice s (ch_start c) (ch_end c) \<and> int (length (ch_content c)) \<le> max_chars \<and>
       strip (ch_content c) \<noteq> [] \<and> ch_sha256 c = sha (utf8 (ch_content c)) \<and>
       ch_line_start c = Suc (count_list (take (ch_start c) s) LF) \<and>
       ch_line_end c = Suc (count_list (take (ch_end c - 1) s) LF)" if "i < length cs" for i
  proof -
    have c: "ch_ordinal (cs ! i) = i" "chunk_ok sha max_chars s (cs ! i)" using n that by simp_all
    show ?thesis using c(1) c(2) [unfolded chunk_ok_def] lines [OF c(2)] unfolding Let_def by blast
  qed
  have "\<forall>i. Suc i < length cs \<longrightarrow> ch_end (cs ! i) \<le> ch_start (cs ! Suc i)" using n by blast
  moreover have "\<forall>k<length s. \<not> is_space (s ! k) \<longrightarrow> (\<exists>c\<in>set cs. ch_start c \<le> k \<and> k < ch_end c)"
    using n by simp
  ultimately show ?thesis using cs(1) ok by blast
qed

lemma chunk_hybrid_lines:
  assumes "chunk_hybrid sha m (normalize_to_canonical sha raw) = Inr ds" and "1 \<le> m"
  defines "s \<equiv> cd_text (normalize_to_canonical sha raw)"
  shows "\<forall>i<length ds. ch_ordinal (ds ! i) = i"
    and "\<forall>d\<in>set ds. ch_start d < ch_end d \<and> ch_line_start d = Suc (count_list (take (ch_start d) s) LF) \<and>
      ch_line_end d = Suc (count_list (take (ch_end d - 1) s) LF)"
  using chunk_hybrid_correct [OF assms(2), of sha raw] assms(1)
  by (auto simp: s_def Let_def in_set_conv_nth)

text \<open>
  C23. The hybrid chunker on a canonical document: for every text and every positive budget it
  returns chunks numbered from 0, each holding exactly the characters of its span, within the
  budget and not blank, with the line numbers of its first and last character; spans come in order
  without overlap; and every character that is not white space lies in a chunk.
\<close>

theorem chunks_sound:
  fixes raw :: string and sha :: "string \<Rightarrow> string"
  defines "s \<equiv> cd_text (normalize_to_canonical sha raw)"
  assumes "1 \<le> max_chars"
  shows "\<exists>cs. chunk_hybrid sha max_chars (normalize_to_canonical sha raw) = Inr cs \<and>
    (\<forall>i<length cs. let c = cs ! i in
       ch_ordinal c = i \<and> ch_start c < ch_end c \<and> ch_end c \<le> length s \<and>
       ch_content c = slice s (ch_start c) (ch_end c) \<and> int (length (ch_content c)) \<le> max_chars \<and>
       strip (ch_content c) \<noteq> [] \<and> ch_sha256 c = sha (utf8 (ch_content c)) \<and>
       ch_line_start c = Suc (count_list (take (ch_start c) s) LF) \<and>
       ch_line_end c = Suc (count_list (take (ch_end c - 1) s) LF)) \<and>
    (\<forall>i. Suc i < length cs \<longrightarrow> ch_end (cs ! i) \<le> ch_start (cs ! Suc i)) \<and>
    (\<forall>k<length s. \<not> is_space (s ! k) \<longrightarrow> (\<exists>c\<in>set cs. ch_start c \<le> k \<and> k < ch_end c))"
  unfolding s_def by (rule chunk_hybrid_correct [OF assms(2)])

theorem chunks_sound_witness:
  "\<exists>cs. chunk_hybrid id 8 (normalize_to_canonical id ''hello big world'') = Inr cs \<and>
    (\<forall>i<length cs. int (length (ch_content (cs ! i))) \<le> 8)"
proof -
  from chunks_sound [of 8 id "''hello big world''"] obtain cs where
    "chunk_hybrid id 8 (normalize_to_canonical id ''hello big world'') = Inr cs"
    "\<forall>i<length cs. int (length (ch_content (cs ! i))) \<le> 8"
    by (auto simp: Let_def)
  then show ?thesis by blast
qed

text \<open>
  The canonical form: normalising again changes nothing, and the text has no carriage
  return, no line that ends in a space or a tab, and no empty first or last line.
\<close>

theorem normalize_canonical:
  fixes raw :: string and sha sha' :: "string \<Rightarrow> string"
  defines "s \<equiv> cd_text (normalize_to_canonical sha raw)"
  shows "cd_text (normalize_to_canonical sha' s) = s \<and> CR \<notin> set s \<and>
    (\<forall>l\<in>set (split_on LF s). trim_line l = l) \<and>
    (s = [] \<or> hd (split_on LF s) \<noteq> [] \<and> last (split_on LF s) \<noteq> [])"
proof (cases "canonical_lines raw = []")
  case True
  then show ?thesis
    using normalize_idempotent [of sha' sha raw]
    by (simp add: s_def normalize_to_canonical_def Let_def trim_line_def)
next
  case False
  note t = canonical_line_text [OF False, of sha, folded s_def]
  have "CR \<notin> set s" using t canonical_lines_ok set_join by (fastforce simp: line_text_def)
  then show ?thesis
    using normalize_idempotent [of sha' sha raw] line_text_split [OF t] canonical_lines_ok
      canonical_lines_ends [OF False]
    by (simp add: s_def)
qed

theorem normalize_canonical_witness:
  "cd_text (normalize_to_canonical id (cd_text (normalize_to_canonical id ''a b ''))) =
   cd_text (normalize_to_canonical id ''a b '')"
  using normalize_canonical [of id id "''a b ''"] by simp

end
