(* ===== verification/Ingest_Queue.thy ===== *)
theory Ingest_Queue
  imports Job_Table Chunking
begin

text \<open>
  The ingestion queue and the chunk table: \<open>IngestionJobRepository\<close> and \<open>DocumentChunkRepository\<close>
  of \<^verbatim>\<open>persistence/repositories.py\<close>. Each operation is one atomic statement or locked
  transaction; the wall clock and fresh ids are arguments. \<open>ORDER BY created_at, id\<close> is sorting by
  \<open>job_key\<close>. The chunk table has the check and unique constraints of \<^verbatim>\<open>persistence/models.py\<close>;
  violating one is the \<open>IntegrityError\<close>.
\<close>

section \<open>Jobs\<close>

definition job_key :: "ingestion_job \<Rightarrow> datetime \<times> uuid" where
  "job_key j = (j_created_at j, j_id j)"

definition enqueue :: "datetime \<Rightarrow> uuid \<Rightarrow> uuid \<Rightarrow> string \<Rightarrow> ingestion_job list \<Rightarrow> exn + ingestion_job \<times> ingestion_job list" where
  "enqueue now fresh submission_id artifact_key jobs =
     (let row = \<lparr>j_id = fresh, j_submission_id = submission_id, j_artifact_key = artifact_key,
            j_status = IQueued, j_attempt_count = 0, j_available_at = now, j_created_at = now,
            j_updated_at = now, j_worker_id = None, j_started_at = None, j_completed_at = None,
            j_error_code = None, j_error_message = None, j_result_key = None\<rparr>
      in if \<exists>j\<in>set jobs. j_id j = fresh then Inl IntegrityError else Inr (row, jobs @ [row]))"

definition job_get :: "uuid \<Rightarrow> ingestion_job list \<Rightarrow> ingestion_job option" where
  "job_get i jobs = find (\<lambda>j. j_id j = i) jobs"

definition claimable :: "datetime \<Rightarrow> ingestion_job list \<Rightarrow> ingestion_job list" where
  "claimable now jobs =
     sort_key job_key (filter (\<lambda>j. j_status j = IQueued \<and> j_available_at j \<le> now) jobs)"

definition claim_job :: "datetime \<Rightarrow> worker_id \<Rightarrow> ingestion_job \<Rightarrow> ingestion_job" where
  "claim_job now w j =
     j\<lparr>j_status := IRunning, j_attempt_count := j_attempt_count j + 1, j_worker_id := Some w,
       j_started_at := Some now, j_updated_at := now, j_error_code := None, j_error_message := None\<rparr>"

definition claim_next_job ::
  "datetime \<Rightarrow> worker_id \<Rightarrow> ingestion_job list \<Rightarrow> ingestion_job option \<times> ingestion_job list" where
  "claim_next_job now w jobs =
     (case claimable now jobs of
        [] \<Rightarrow> (None, jobs)
      | j # _ \<Rightarrow> (Some (claim_job now w j), update_where (\<lambda>r. j_id r = j_id j) (claim_job now w) jobs))"

definition owned_job :: "uuid \<Rightarrow> worker_id \<Rightarrow> ingestion_job \<Rightarrow> bool" where
  "owned_job i w j \<longleftrightarrow> j_id j = i \<and> j_status j = IRunning \<and> j_worker_id j = Some w"

definition succeed_job ::
  "datetime \<Rightarrow> uuid \<Rightarrow> worker_id \<Rightarrow> string \<Rightarrow> ingestion_job list \<Rightarrow> ingestion_job option \<times> ingestion_job list" where
  "succeed_job now i w result_key =
     update_returning (owned_job i w)
       (\<lambda>j. j\<lparr>j_status := ISucceeded, j_result_key := Some result_key, j_completed_at := Some now,
            j_updated_at := now, j_error_code := None, j_error_message := None\<rparr>)"

definition fail_job ::
  "datetime \<Rightarrow> uuid \<Rightarrow> worker_id \<Rightarrow> string \<Rightarrow> string \<Rightarrow> ingestion_job list \<Rightarrow> ingestion_job option \<times> ingestion_job list" where
  "fail_job now i w error_code error_message =
     update_returning (owned_job i w)
       (\<lambda>j. j\<lparr>j_status := IFailed, j_completed_at := Some now, j_updated_at := now,
            j_error_code := Some error_code, j_error_message := Some (take 2000 error_message)\<rparr>)"

text \<open>\<open>delay_seconds\<close> as the datetime arithmetic uses it, in microseconds.\<close>

definition seconds :: "real \<Rightarrow> int" where
  "seconds r = round_half_even (r * 1000000)"

definition retry_job ::
  "datetime \<Rightarrow> uuid \<Rightarrow> worker_id \<Rightarrow> string \<Rightarrow> string \<Rightarrow> real \<Rightarrow> ingestion_job list
     \<Rightarrow> ingestion_job option \<times> ingestion_job list" where
  "retry_job now i w error_code error_message delay_seconds =
     update_returning (owned_job i w)
       (\<lambda>j. j\<lparr>j_status := IQueued, j_worker_id := None, j_started_at := None,
            j_available_at := now + seconds (max 0 delay_seconds), j_updated_at := now,
            j_error_code := Some error_code, j_error_message := Some (take 2000 error_message)\<rparr>)"

definition stale_job :: "datetime \<Rightarrow> ingestion_job \<Rightarrow> bool" where
  "stale_job stale_before j \<longleftrightarrow> j_status j = IRunning \<and>
     (case j_started_at j of None \<Rightarrow> False | Some t \<Rightarrow> t < stale_before)"

definition recover_job :: "datetime \<Rightarrow> int \<Rightarrow> ingestion_job \<Rightarrow> ingestion_job" where
  "recover_job now max_attempts j =
     (if j_attempt_count j \<ge> max_attempts then
        j\<lparr>j_status := IFailed, j_completed_at := Some now, j_updated_at := now,
          j_error_code := Some ''stale_exhausted'',
          j_error_message := Some
            ''Stale RUNNING ingestion job exhausted attempts (worker crash recovery).'',
          j_worker_id := None\<rparr>
      else
        j\<lparr>j_status := IQueued, j_worker_id := None, j_started_at := None, j_available_at := now,
          j_updated_at := now, j_error_code := Some ''stale_requeued'',
          j_error_message := Some ''Requeued after stale RUNNING (worker crash).''\<rparr>)"

definition recover_stale_jobs ::
  "datetime \<Rightarrow> datetime \<Rightarrow> int \<Rightarrow> ingestion_job list \<Rightarrow> ingestion_job list \<times> ingestion_job list" where
  "recover_stale_jobs now stale_before max_attempts jobs =
     (map (recover_job now max_attempts)
        (sort_key (\<lambda>j. case j_started_at j of Some t \<Rightarrow> t | None \<Rightarrow> 0) (filter (stale_job stale_before) jobs)),
      update_where (stale_job stale_before) (recover_job now max_attempts) jobs)"

definition count_jobs :: "ingestion_status \<Rightarrow> ingestion_job list \<Rightarrow> nat" where
  "count_jobs s jobs = length (filter (\<lambda>j. j_status j = s) jobs)"

section \<open>Chunk rows\<close>

record chunk_row =
  cw_id :: uuid
  cw_job_id :: uuid
  cw_submission_id :: uuid
  cw_artifact_key :: string
  cw_parser_version :: string
  cw_chunker_version :: string
  cw_draft :: chunk_draft
  cw_created_at :: datetime

definition chunk_check :: "chunk_row \<Rightarrow> bool" where
  "chunk_check r \<longleftrightarrow> ch_start (cw_draft r) \<le> ch_end (cw_draft r) \<and>
     1 \<le> ch_line_start (cw_draft r) \<and> ch_line_start (cw_draft r) \<le> ch_line_end (cw_draft r)"

definition chunk_unique :: "chunk_row list \<Rightarrow> bool" where
  "chunk_unique rows \<longleftrightarrow> distinct (map (\<lambda>r. (cw_job_id r, ch_ordinal (cw_draft r))) rows)"

definition new_chunk_rows ::
  "datetime \<Rightarrow> (nat \<Rightarrow> uuid) \<Rightarrow> uuid \<Rightarrow> uuid \<Rightarrow> string \<Rightarrow> string \<Rightarrow> string \<Rightarrow> chunk_draft list \<Rightarrow> chunk_row list" where
  "new_chunk_rows now fresh job_id submission_id artifact_key parser_version chunker_version drafts =
     map (\<lambda>(n, d). \<lparr>cw_id = fresh n, cw_job_id = job_id, cw_submission_id = submission_id,
            cw_artifact_key = artifact_key, cw_parser_version = parser_version,
            cw_chunker_version = chunker_version, cw_draft = d, cw_created_at = now\<rparr>)
       (enumerate 0 drafts)"

definition delete_for_job :: "uuid \<Rightarrow> chunk_row list \<Rightarrow> nat \<times> chunk_row list" where
  "delete_for_job i rows =
     (length (filter (\<lambda>r. cw_job_id r = i) rows), filter (\<lambda>r. cw_job_id r \<noteq> i) rows)"

definition replace_for_job ::
  "datetime \<Rightarrow> (nat \<Rightarrow> uuid) \<Rightarrow> uuid \<Rightarrow> uuid \<Rightarrow> string \<Rightarrow> string \<Rightarrow> string \<Rightarrow> chunk_draft list
     \<Rightarrow> chunk_row list \<Rightarrow> exn + chunk_row list \<times> chunk_row list" where
  "replace_for_job now fresh job_id submission_id artifact_key parser_version chunker_version drafts rows =
     (let new = new_chunk_rows now fresh job_id submission_id artifact_key parser_version chunker_version drafts;
          rows' = snd (delete_for_job job_id rows) @ new
      in if list_all chunk_check new \<and> chunk_unique rows' then Inr (new, rows') else Inl IntegrityError)"

definition list_for_job :: "uuid \<Rightarrow> chunk_row list \<Rightarrow> chunk_row list" where
  "list_for_job i rows = sort_key (\<lambda>r. ch_ordinal (cw_draft r)) (filter (\<lambda>r. cw_job_id r = i) rows)"

definition count_for_job :: "uuid \<Rightarrow> chunk_row list \<Rightarrow> nat" where
  "count_for_job i rows = length (filter (\<lambda>r. cw_job_id r = i) rows)"

section \<open>Claims\<close>

lemma set_claimable: "set (claimable now jobs) = {j \<in> set jobs. j_status j = IQueued \<and> j_available_at j \<le> now}"
  by (auto simp: claimable_def)

lemma sort_key_hd_least:
  assumes "sort_key f xs = x # ys" and "y \<in> set xs"
  shows "f x \<le> f y"
proof -
  have "sorted (map f (x # ys))" using sorted_sort_key [of f xs] assms(1) by simp
  moreover have "y \<in> set (x # ys)" using assms by (metis set_sort)
  ultimately show ?thesis by auto
qed

lemma claim_job_spec:
  assumes "claim_next_job now w jobs = (r, jobs')"
  shows "case r of
      None \<Rightarrow> jobs' = jobs \<and> (\<forall>j\<in>set jobs. j_status j = IQueued \<longrightarrow> now < j_available_at j)
    | Some c \<Rightarrow> \<exists>j\<in>set jobs. j_status j = IQueued \<and> j_available_at j \<le> now \<and> c = claim_job now w j \<and>
        jobs' = update_where (\<lambda>x. j_id x = j_id j) (claim_job now w) jobs \<and>
        (\<forall>x\<in>set jobs. j_status x = IQueued \<and> j_available_at x \<le> now \<longrightarrow> job_key j \<le> job_key x)"
proof (cases "claimable now jobs")
  case Nil
  then have "{j \<in> set jobs. j_status j = IQueued \<and> j_available_at j \<le> now} = {}"
    by (metis list.set(1) set_claimable)
  with Nil assms show ?thesis by (auto simp: claim_next_job_def not_le)
next
  case (Cons j js)
  then have "j \<in> set jobs \<and> j_status j = IQueued \<and> j_available_at j \<le> now"
    using set_claimable [of now jobs] by (metis (mono_tags, lifting) list.set_intros(1) mem_Collect_eq)
  moreover have "job_key j \<le> job_key x" if "x \<in> set jobs" "j_status x = IQueued" "j_available_at x \<le> now" for x
    using sort_key_hd_least [of job_key _ j js x] Cons that by (simp add: claimable_def)
  moreover have "r = Some (claim_job now w j)" "jobs' = update_where (\<lambda>r. j_id r = j_id j) (claim_job now w) jobs"
    using assms Cons by (auto simp: claim_next_job_def)
  ultimately show ?thesis by (auto intro!: bexI [of _ j])
qed

section \<open>Attempts and life of a job\<close>

text \<open>
  One operation of the repository, with any arguments, by any worker. The attempt limit is
  the setting that all workers read.
\<close>

inductive ingest_op :: "int \<Rightarrow> ingestion_job list \<Rightarrow> ingestion_job list \<Rightarrow> bool" for mx where
  ingest_enqueue: "enqueue now fresh sid key jobs = Inr (r, jobs') \<Longrightarrow> ingest_op mx jobs jobs'"
| ingest_claim: "claim_next_job now w jobs = (r, jobs') \<Longrightarrow> ingest_op mx jobs jobs'"
| ingest_succeed: "succeed_job now i w key jobs = (r, jobs') \<Longrightarrow> ingest_op mx jobs jobs'"
| ingest_fail: "fail_job now i w code msg jobs = (r, jobs') \<Longrightarrow> ingest_op mx jobs jobs'"
| ingest_retry: "(\<forall>j\<in>set jobs. owned_job i w j \<longrightarrow> j_attempt_count j < mx) \<Longrightarrow>
    retry_job now i w code msg dl jobs = (r, jobs') \<Longrightarrow> ingest_op mx jobs jobs'"
| ingest_recover: "recover_stale_jobs now before mx jobs = (rs, jobs') \<Longrightarrow> ingest_op mx jobs jobs'"

definition job_ids_unique :: "ingestion_job list \<Rightarrow> bool" where
  "job_ids_unique jobs \<longleftrightarrow> distinct (map j_id jobs)"

text \<open>
  The invariant of one row: the number of attempts fits the status, and a worker holds the job
  exactly while it runs.
\<close>

definition job_ok :: "int \<Rightarrow> ingestion_job \<Rightarrow> bool" where
  "job_ok mx j \<longleftrightarrow> 0 \<le> j_attempt_count j \<and>
     (case j_status j of
        IQueued \<Rightarrow> j_attempt_count j < mx \<and> j_worker_id j = None \<and> j_started_at j = None
      | IRunning \<Rightarrow> 1 \<le> j_attempt_count j \<and> j_attempt_count j \<le> mx \<and> j_worker_id j \<noteq> None \<and> j_started_at j \<noteq> None
      | ISucceeded \<Rightarrow> 1 \<le> j_attempt_count j \<and> j_attempt_count j \<le> mx \<and> j_result_key j \<noteq> None
      | IFailed \<Rightarrow> 1 \<le> j_attempt_count j \<and> j_attempt_count j \<le> mx \<and> j_error_code j \<noteq> None)"

lemmas job_op_defs = succeed_job_def fail_job_def retry_job_def

lemma update_returning_snd: "update_returning p f rows = (r, rows') \<Longrightarrow> rows' = update_where p f rows"
  using update_returning_rows [of p f rows] by simp

lemma recover_job_sel [simp]:
  "j_id (recover_job now mx j) = j_id j"
  "j_status (recover_job now mx j) \<in> {IQueued, IFailed}"
  by (simp_all add: recover_job_def)

lemma claim_job_sel [simp]: "j_id (claim_job now w j) = j_id j" "j_status (claim_job now w j) = IRunning"
  by (simp_all add: claim_job_def)

lemma ingest_op_evolves:
  assumes "ingest_op mx jobs jobs'" and "job_ids_unique jobs"
  shows "ingest_jobs.evolves jobs jobs' \<and> job_ids_unique jobs'"
  using assms(1)
proof cases
  case (ingest_enqueue now fresh sid key r)
  then show ?thesis
    using assms(2) by (auto simp: enqueue_def Let_def job_ids_unique_def ingest_jobs.evolves_append split: if_splits)
next
  case (ingest_claim now w r)
  have c: "ingest_jobs.row_evolves x (claim_job now w x)" if "j_status x = IQueued" for x
    using that by (simp add: ingest_jobs.row_evolves_def ingestion_step_iff)
  show ?thesis
  proof (cases r)
    case None
    then show ?thesis using claim_job_spec [OF ingest_claim] assms(2) by simp
  next
    case (Some a)
    then obtain j where j: "j \<in> set jobs" "j_status j = IQueued"
        "jobs' = update_where (\<lambda>x. j_id x = j_id j) (claim_job now w) jobs"
      using claim_job_spec [OF ingest_claim] by auto
    have "x = j" if "x \<in> set jobs" "j_id x = j_id j" for x
      using assms(2) j(1) that by (auto simp: job_ids_unique_def intro: distinct_key_eq)
    then have "ingest_jobs.evolves jobs jobs'"
      unfolding j(3) using c j(2) by (intro ingest_jobs.evolves_update_where) auto
    then show ?thesis using assms(2) by (simp add: j(3) job_ids_unique_def map_update_where)
  qed
next
  case (ingest_recover now before rs)
  then have e: "jobs' = update_where (stale_job before) (recover_job now mx) jobs"
    by (simp add: recover_stale_jobs_def)
  have "ingest_jobs.evolves jobs jobs'"
    unfolding e
  proof (rule ingest_jobs.evolves_update_where)
    fix r assume "stale_job before r"
    then show "ingest_jobs.row_evolves r (recover_job now mx r)"
      using recover_job_sel(2) [of now mx r]
      by (auto simp: ingest_jobs.row_evolves_def ingestion_step_iff stale_job_def)
  qed
  then show ?thesis using assms(2) by (simp add: e job_ids_unique_def map_update_where)
qed (use assms(2) in \<open>auto simp: job_op_defs job_ids_unique_def map_update_where ingest_jobs.row_evolves_def
      ingestion_step_iff owned_job_def dest!: update_returning_snd intro!: ingest_jobs.evolves_update_where\<close>)

lemma ok_update:
  assumes "update_returning p f jobs = (r, jobs')" and "\<forall>j\<in>set jobs. job_ok mx j"
    and "\<And>x. x \<in> set jobs \<Longrightarrow> job_ok mx x \<Longrightarrow> p x \<Longrightarrow> job_ok mx (f x)"
  shows "\<forall>j\<in>set jobs'. job_ok mx j"
  using update_returning_snd [OF assms(1)] assms(2,3) by (auto simp: set_update_where)

lemma ingest_op_ok:
  assumes "ingest_op mx jobs jobs'" and "\<forall>j\<in>set jobs. job_ok mx j" and "1 \<le> mx" and "job_ids_unique jobs"
  shows "\<forall>j\<in>set jobs'. job_ok mx j"
  using assms(1)
proof cases
  case (ingest_enqueue now fresh sid key r)
  then show ?thesis using assms(2,3) by (auto simp: enqueue_def Let_def job_ok_def split: if_splits)
next
  case (ingest_claim now w r)
  have c: "job_ok mx (claim_job now w x)" if "x \<in> set jobs" "j_status x = IQueued" for x
    using assms(2) that by (auto simp: job_ok_def claim_job_def)
  show ?thesis
  proof (cases r)
    case None
    then show ?thesis using claim_job_spec [OF ingest_claim] assms(2) by simp
  next
    case (Some a)
    then obtain j where j: "j \<in> set jobs" "j_status j = IQueued"
        "jobs' = update_where (\<lambda>x. j_id x = j_id j) (claim_job now w) jobs"
      using claim_job_spec [OF ingest_claim] by auto
    have "x = j" if "x \<in> set jobs" "j_id x = j_id j" for x
      using assms(4) j(1) that by (auto simp: job_ids_unique_def intro: distinct_key_eq)
    then show ?thesis using c j assms(2) by (auto simp: set_update_where)
  qed
next
  case (ingest_recover now before rs)
  then have e: "jobs' = update_where (stale_job before) (recover_job now mx) jobs"
    by (simp add: recover_stale_jobs_def)
  have "job_ok mx (recover_job now mx x)" if "job_ok mx x" "stale_job before x" for x
    using that by (simp add: job_ok_def stale_job_def recover_job_def)
  then show ?thesis using assms(2) by (auto simp: e set_update_where)
next
  case (ingest_succeed now i w key r)
  show ?thesis
    by (rule ok_update [OF ingest_succeed [unfolded succeed_job_def] assms(2)])
      (auto simp: owned_job_def job_ok_def)
next
  case (ingest_fail now i w code msg r)
  show ?thesis
    by (rule ok_update [OF ingest_fail [unfolded fail_job_def] assms(2)])
      (auto simp: owned_job_def job_ok_def)
next
  case (ingest_retry i w now code msg dl r)
  show ?thesis
    by (rule ok_update [OF ingest_retry(2) [unfolded retry_job_def] assms(2)])
      (use ingest_retry(1) in \<open>auto simp: owned_job_def job_ok_def\<close>)
qed

lemma ingest_history:
  assumes "(ingest_op mx)\<^sup>*\<^sup>* jobs jobs'" and "job_ids_unique jobs" and "\<forall>j\<in>set jobs. job_ok mx j" and "1 \<le> mx"
  shows "ingest_jobs.evolves\<^sup>*\<^sup>* jobs jobs' \<and> job_ids_unique jobs' \<and> (\<forall>j\<in>set jobs'. job_ok mx j)"
  using assms(1)
proof (induction rule: rtranclp_induct)
  case base
  then show ?case using assms(2,3) by blast
next
  case (step mid jobs')
  then have "ingest_jobs.evolves mid jobs' \<and> job_ids_unique jobs'" "\<forall>j\<in>set jobs'. job_ok mx j"
    using ingest_op_evolves [OF step.hyps(2)] ingest_op_ok [OF step.hyps(2) _ assms(4)] by blast+
  with step.IH show ?case by (blast intro: rtranclp.rtrancl_into_rtrancl)
qed

text \<open>
  The life of ingestion jobs. Over any sequence of queue operations from an empty
  table every row satisfies \<open>job_ok\<close> (no more attempts than allowed, attempts left while queued,
  an owner and a start time exactly while running, a result or an error code at the end); a job is
  never lost, moves along the transition table only, and never changes once it succeeded or failed.
\<close>

theorem ingestion_lifecycle:
  assumes "(ingest_op mx)\<^sup>*\<^sup>* [] jobs" and "(ingest_op mx)\<^sup>*\<^sup>* jobs jobs'" and "1 \<le> mx" and "j \<in> set jobs"
  shows "job_ok mx j \<and> (\<exists>j'\<in>set jobs'. j_id j' = j_id j \<and>
    ingestion_table.step\<^sup>*\<^sup>* (j_status j) (j_status j') \<and> (j_status j \<in> {ISucceeded, IFailed} \<longrightarrow> j' = j))"
proof -
  have a: "job_ids_unique jobs" "\<forall>j\<in>set jobs. job_ok mx j"
    using ingest_history [OF assms(1)] assms(3) by (simp_all add: job_ids_unique_def)
  have "ingest_jobs.evolves\<^sup>*\<^sup>* jobs jobs'" using ingest_history [OF assms(2) a assms(3)] by blast
  from ingest_jobs.history_row [OF this assms(4)] a(2) assms(4) show ?thesis by auto
qed

definition example_job :: "uuid \<Rightarrow> datetime \<Rightarrow> ingestion_job" where
  "example_job i t = \<lparr>j_id = i, j_submission_id = 1, j_artifact_key = ''submissions/a'', j_status = IQueued,
     j_attempt_count = 0, j_available_at = t, j_created_at = t, j_updated_at = t, j_worker_id = None,
     j_started_at = None, j_completed_at = None, j_error_code = None, j_error_message = None,
     j_result_key = None\<rparr>"

theorem ingestion_lifecycle_witness: "job_ok 3 (example_job 1 5)"
proof -
  have "enqueue 5 1 1 ''submissions/a'' [] = Inr (example_job 1 5, [example_job 1 5])"
    by (simp add: enqueue_def example_job_def Let_def)
  then have "(ingest_op 3)\<^sup>*\<^sup>* [] [example_job 1 5]" by (blast intro: ingest_enqueue)
  from ingestion_lifecycle [OF this rtranclp.rtrancl_refl, of "example_job 1 5"] show ?thesis by simp
qed

text \<open>
  Which job a claim takes: none exactly when no queued job is available yet (in particular a job
  released with a delay is not claimed before the delay is over), and otherwise the oldest available
  one, whose row is the only one that changes; it becomes running, owned by the claimer,
  with one more attempt.
\<close>

theorem ingest_claim_oldest:
  assumes "claim_next_job now w jobs = (r, jobs')" and "job_ids_unique jobs"
  shows "case r of
      None \<Rightarrow> jobs' = jobs \<and> (\<forall>j\<in>set jobs. j_status j = IQueued \<longrightarrow> now < j_available_at j)
    | Some c \<Rightarrow> \<exists>j\<in>set jobs. j_status j = IQueued \<and> j_available_at j \<le> now \<and>
        (\<forall>x\<in>set jobs. j_status x = IQueued \<and> j_available_at x \<le> now \<longrightarrow> job_key j \<le> job_key x) \<and>
        j_status c = IRunning \<and> j_worker_id c = Some w \<and> j_attempt_count c = j_attempt_count j + 1 \<and>
        jobs' = map (\<lambda>x. if x = j then c else x) jobs"
proof (cases r)
  case None
  then show ?thesis using claim_job_spec [OF assms(1)] by simp
next
  case (Some c)
  then obtain j where j: "j \<in> set jobs" "j_status j = IQueued" "j_available_at j \<le> now" "c = claim_job now w j"
      "jobs' = update_where (\<lambda>x. j_id x = j_id j) (claim_job now w) jobs"
      "\<forall>x\<in>set jobs. j_status x = IQueued \<and> j_available_at x \<le> now \<longrightarrow> job_key j \<le> job_key x"
    using claim_job_spec [OF assms(1)] by auto
  have "x = j" if "x \<in> set jobs" "j_id x = j_id j" for x
    using assms(2) j(1) that by (auto simp: job_ids_unique_def intro: distinct_key_eq)
  then have "jobs' = map (\<lambda>x. if x = j then c else x) jobs"
    unfolding j(4,5) update_where_def by (intro map_cong) auto
  then show ?thesis using Some j by (auto simp: claim_job_def intro!: bexI [of _ j])
qed

theorem ingest_claim_oldest_witness:
  "claim_next_job 4 ''w'' [example_job 1 5, example_job 2 0] =
     (Some (claim_job 4 ''w'' (example_job 2 0)), [example_job 1 5, claim_job 4 ''w'' (example_job 2 0)]) \<and>
   (\<exists>j\<in>set [example_job 1 5, example_job 2 0]. j_available_at j \<le> 4 \<and>
      j_attempt_count (claim_job 4 ''w'' (example_job 2 0)) = j_attempt_count j + 1)"
proof -
  let ?c = "claim_job 4 ''w'' (example_job 2 0)"
  have c: "claim_next_job 4 ''w'' [example_job 1 5, example_job 2 0] = (Some ?c, [example_job 1 5, ?c])"
    by (simp add: claim_next_job_def claimable_def example_job_def update_where_def)
  have "job_ids_unique [example_job 1 5, example_job 2 0]" by (simp add: job_ids_unique_def example_job_def)
  from c ingest_claim_oldest [OF c this] show ?thesis unfolding option.case by blast
qed

section \<open>Chunk rows\<close>

lemma new_chunk_rows_props:
  "map cw_draft (new_chunk_rows now fresh i sid key pv cv ds) = ds"
  "r \<in> set (new_chunk_rows now fresh i sid key pv cv ds) \<Longrightarrow> cw_job_id r = i"
  by (auto simp: new_chunk_rows_def comp_def split_def)

text \<open>The chunks of the hybrid chunker satisfy the constraints of the table, so storing them succeeds.\<close>

lemma count_list_take_mono: "a \<le> b \<Longrightarrow> count_list (take a xs) x \<le> count_list (take b xs) x"
  by (metis count_list_append le_add1 le_add_diff_inverse take_add)

lemma hybrid_chunks_storable:
  assumes "\<forall>i<length ds. ch_ordinal (ds ! i) = i"
    and "\<forall>d\<in>set ds. ch_start d < ch_end d \<and> ch_line_start d = Suc (count_list (take (ch_start d) s) LF) \<and>
      ch_line_end d = Suc (count_list (take (ch_end d - 1) s) LF)"
    and "chunk_unique rows"
  shows "replace_for_job now fresh i sid key pv cv ds rows =
    Inr (new_chunk_rows now fresh i sid key pv cv ds,
         snd (delete_for_job i rows) @ new_chunk_rows now fresh i sid key pv cv ds)"
proof -
  let ?new = "new_chunk_rows now fresh i sid key pv cv ds"
  have d: "cw_draft r \<in> set ds" if "r \<in> set ?new" for r
    using that new_chunk_rows_props(1) [of now fresh i sid key pv cv ds] by (metis image_eqI set_map)
  have check: "list_all chunk_check ?new"
  proof (unfold list_all_iff, rule ballI)
    fix r assume "r \<in> set ?new"
    then have "cw_draft r \<in> set ds" by (rule d)
    with assms(2) have f: "ch_start (cw_draft r) < ch_end (cw_draft r)"
        "ch_line_start (cw_draft r) = Suc (count_list (take (ch_start (cw_draft r)) s) LF)"
        "ch_line_end (cw_draft r) = Suc (count_list (take (ch_end (cw_draft r) - 1) s) LF)" by auto
    have "ch_start (cw_draft r) \<le> ch_end (cw_draft r) - 1" using f(1) by simp
    from count_list_take_mono [OF this, of s LF] f show "chunk_check r" by (simp add: chunk_check_def)
  qed
  have "distinct (map ch_ordinal ds)"
    using assms(1) by (auto simp: distinct_conv_nth)
  moreover have "map (\<lambda>r. ch_ordinal (cw_draft r)) ?new = map ch_ordinal ds"
    using arg_cong [OF new_chunk_rows_props(1) [of now fresh i sid key pv cv ds], of "map ch_ordinal"]
    by (simp add: comp_def)
  ultimately have "distinct (map (\<lambda>r. ch_ordinal (cw_draft r)) ?new)" by simp
  then have "distinct (map (\<lambda>r. (cw_job_id r, ch_ordinal (cw_draft r))) ?new)"
    by (auto simp: distinct_map inj_on_def)
  moreover have "distinct (map (\<lambda>r. (cw_job_id r, ch_ordinal (cw_draft r))) (snd (delete_for_job i rows)))"
    using assms(3) by (simp add: chunk_unique_def delete_for_job_def distinct_map_filter)
  ultimately have "chunk_unique (snd (delete_for_job i rows) @ ?new)"
    using new_chunk_rows_props(2) by (fastforce simp: chunk_unique_def delete_for_job_def)
  with check show ?thesis by (simp add: replace_for_job_def Let_def)
qed

lemma replaced_chunks:
  assumes "replace_for_job now fresh i sid key pv cv ds rows = Inr (new, rows')"
  shows "map cw_draft (filter (\<lambda>r. cw_job_id r = i) rows') = ds \<and>
    (\<forall>k. k \<noteq> i \<longrightarrow> filter (\<lambda>r. cw_job_id r = k) rows' = filter (\<lambda>r. cw_job_id r = k) rows) \<and> chunk_unique rows'"
proof -
  let ?new = "new_chunk_rows now fresh i sid key pv cv ds"
  have r: "rows' = filter (\<lambda>r. cw_job_id r \<noteq> i) rows @ ?new" "chunk_unique rows'"
    using assms by (auto simp: replace_for_job_def Let_def delete_for_job_def split: if_splits)
  have "filter (\<lambda>r. cw_job_id r = i) ?new = ?new"
    using new_chunk_rows_props(2) by (simp add: filter_id_conv)
  moreover have "filter (\<lambda>r. cw_job_id r = k) ?new = []" if "k \<noteq> i" for k
    using new_chunk_rows_props(2) that by (auto simp: filter_empty_conv)
  moreover have "filter (\<lambda>r. cw_job_id r = i) (filter (\<lambda>r. cw_job_id r \<noteq> i) rows) = []"
    by (auto simp: filter_empty_conv)
  moreover have "filter (\<lambda>r. cw_job_id r = k) (filter (\<lambda>r. cw_job_id r \<noteq> i) rows) =
      filter (\<lambda>r. cw_job_id r = k) rows" if "k \<noteq> i" for k
    using that by (induction rows) auto
  ultimately show ?thesis
    unfolding r(1) filter_append using r(2) r(1) new_chunk_rows_props(1) [of now fresh i sid key pv cv ds]
    by simp
qed

end
