(* ===== verification/Submissions.thy ===== *)
theory Submissions
  imports Catalog Keys Eval_Queue Ingest_Queue
begin

text \<open>
  The submission service (\<^verbatim>\<open>application/submissions.py\<close>, \<^verbatim>\<open>application/idempotency.py\<close>) over the
  submissions table, the catalog, the two queues and the storage. A service method is split at
  its commits: \<open>create_begin\<close>, \<open>create_lock\<close>, \<open>create_insert\<close>, \<open>create_resolve\<close> and \<open>enqueue_artifact\<close> compose to
  \<open>create_submission\<close>, and \<open>update_begin\<close>, \<open>update_publish\<close> and \<open>replace_commit\<close> with
  \<open>enqueue_artifact\<close> to \<open>update_created\<close> and \<open>attach_incoming\<close>. The flag \<open>fault\<close> of a commit stands
  for any exception other than a violated constraint. SHA-256, the text of floats and the
  reading of floats are the fields of \<open>app_env\<close>.
\<close>

section \<open>State and environment\<close>

datatype py_float = Finite real | Infinity | NotANumber

record app_env =
  ae_sha :: "string \<Rightarrow> string"
  ae_repr :: "real \<Rightarrow> string"
  ae_float :: "string \<Rightarrow> py_float option"

record app =
  ap_catalog :: catalog
  ap_subs :: "submission list"
  ap_queue :: equeue
  ap_jobs :: "ingestion_job list"

section \<open>The submissions table\<close>

definition submission_get :: "uuid \<Rightarrow> submission list \<Rightarrow> submission option" where
  "submission_get i subs = find (\<lambda>s. s_id s = i) subs"

definition find_by_idempotency :: "uuid \<Rightarrow> string \<Rightarrow> submission list \<Rightarrow> submission option" where
  "find_by_idempotency participant key subs =
     find (\<lambda>s. s_participant_id s = participant \<and> s_idempotency_key s = Some key) subs"

definition list_for_participant :: "uuid \<Rightarrow> submission list \<Rightarrow> submission list" where
  "list_for_participant participant subs =
     sort_key (\<lambda>s. - s_created_at s) (filter (\<lambda>s. s_participant_id s = participant) subs)"

definition list_for_challenge :: "uuid \<Rightarrow> submission list \<Rightarrow> submission list" where
  "list_for_challenge challenge subs =
     sort_key (\<lambda>s. - s_created_at s) (filter (\<lambda>s. s_challenge_id s = challenge) subs)"

definition list_artifact_keys :: "submission list \<Rightarrow> string list" where
  "list_artifact_keys subs = filter (\<lambda>k. k \<noteq> []) (List.map_filter s_artifact_key subs)"

text \<open>The constraints of the table on a new row: keys, foreign keys, and key and fingerprint together.\<close>

definition submission_constraints :: "submission \<Rightarrow> app \<Rightarrow> bool" where
  "submission_constraints row a \<longleftrightarrow>
     s_id row \<notin> s_id ` set (ap_subs a) \<and>
     (s_idempotency_key row = None \<or>
        list_all (\<lambda>s. s_participant_id s \<noteq> s_participant_id row \<or> s_idempotency_key s \<noteq> s_idempotency_key row)
          (ap_subs a)) \<and>
     (s_idempotency_key row = None \<longleftrightarrow> s_request_fingerprint row = None) \<and>
     challenge_row (s_challenge_id row) (ap_catalog a) \<noteq> None \<and>
     user_get (s_participant_id row) (ap_catalog a) \<noteq> None"

definition submission_add ::
  "datetime \<Rightarrow> uuid \<Rightarrow> uuid \<Rightarrow> uuid \<Rightarrow> dict \<Rightarrow> string option \<Rightarrow> string option \<Rightarrow> string option \<Rightarrow> app
     \<Rightarrow> exn + submission \<times> app" where
  "submission_add now fresh challenge participant md artifact_key idem fingerprint a =
     (let row = \<lparr>s_id = fresh, s_challenge_id = challenge, s_participant_id = participant,
            s_status = SCreated, s_metadata = md, s_artifact_key = artifact_key,
            s_idempotency_key = idem, s_request_fingerprint = fingerprint,
            s_created_at = now, s_updated_at = now, s_failure_reason = None\<rparr>
      in if submission_constraints row a then Inr (row, a\<lparr>ap_subs := ap_subs a @ [row]\<rparr>)
         else Inl IntegrityError)"

definition created_by :: "uuid \<Rightarrow> uuid \<Rightarrow> submission \<Rightarrow> bool" where
  "created_by i participant s \<longleftrightarrow> s_id s = i \<and> s_participant_id s = participant \<and> s_status s = SCreated"

definition transition_if_created ::
  "datetime \<Rightarrow> uuid \<Rightarrow> uuid \<Rightarrow> submission_status \<Rightarrow> submission list \<Rightarrow> submission option \<times> submission list" where
  "transition_if_created now i participant target =
     update_returning (created_by i participant) (\<lambda>s. s\<lparr>s_status := target, s_updated_at := now\<rparr>)"

section \<open>Idempotency\<close>

definition submission_request_fingerprint :: "app_env \<Rightarrow> uuid \<Rightarrow> dict \<Rightarrow> string" where
  "submission_request_fingerprint env challenge md =
     ae_sha env (utf8 (json_dumps (ae_repr env) False True
       (JObj [(''challenge_id'', JStr (uuid_str challenge)), (''metadata'', JObj md)])))"

definition replay_or_conflict :: "app_env \<Rightarrow> submission \<Rightarrow> string \<Rightarrow> exn + submission" where
  "replay_or_conflict env existing fingerprint =
     (let recomputed = submission_request_fingerprint env (s_challenge_id existing) (s_metadata existing);
          stored = (case s_request_fingerprint existing of
              None \<Rightarrow> recomputed
            | Some f \<Rightarrow> if f = [] then recomputed else f)
      in if stored \<noteq> fingerprint
         then Inl (ConflictError ''Idempotency-Key is already associated with a different submission request.'')
         else Inr existing)"

section \<open>Creation\<close>

record artifact =
  af_bytes :: string
  af_content_type :: "string option"
  af_filename :: "string option"

record create_request =
  cq_actor :: uuid
  cq_challenge :: uuid
  cq_metadata :: dict
  cq_key :: "string option"
  cq_fingerprint :: "string option"
  cq_artifact :: "artifact option"

definition validate_metadata :: "app_env \<Rightarrow> settings \<Rightarrow> dict option \<Rightarrow> exn + dict" where
  "validate_metadata env st md =
     (let payload = (case md of None \<Rightarrow> [] | Some d \<Rightarrow> d)
      in if int (length (utf8 (json_dumps (ae_repr env) True False (JObj payload)))) > metadata_max_bytes st
         then Inl (ValidationFailed ''Submission metadata exceeds the size limit.'') else Inr payload)"

text \<open>The look-up before anything is written: an error, the submission to replay, or a request to go on with.\<close>

definition create_begin ::
  "app_env \<Rightarrow> settings \<Rightarrow> current_user \<Rightarrow> uuid \<Rightarrow> dict option \<Rightarrow> string option \<Rightarrow> artifact option
     \<Rightarrow> submission list \<Rightarrow> exn + submission + create_request" where
  "create_begin env st actor challenge md idem artifact subs =
     try_in (require_participant actor) (\<lambda>_.
     try_in (validate_metadata env st md) (\<lambda>payload.
       let stripped = strip (case idem of None \<Rightarrow> [] | Some k \<Rightarrow> k);
           key = (if stripped = [] then None else Some stripped);
           fingerprint = submission_request_fingerprint env challenge payload;
           request = \<lparr>cq_actor = cu_id actor, cq_challenge = challenge, cq_metadata = payload, cq_key = key,
             cq_fingerprint = map_option (\<lambda>_. fingerprint) key, cq_artifact = artifact\<rparr>
       in case key of
            None \<Rightarrow> Inr (Inr request)
          | Some k \<Rightarrow>
              (case find_by_idempotency (cu_id actor) k subs of
                 None \<Rightarrow> Inr (Inr request)
               | Some existing \<Rightarrow> try_in (replay_or_conflict env existing fingerprint) (\<lambda>s. Inr (Inl s)))))"

definition lock_open_challenge :: "uuid \<Rightarrow> catalog \<Rightarrow> exn + challenge" where
  "lock_open_challenge i c =
     (case challenge_get i c of
        None \<Rightarrow> Inl (NotFoundError ''Challenge not found.'')
      | Some r \<Rightarrow>
          if c_status r = CClosed
          then Inl (ConflictError ''Challenge is closed and no longer accepts submissions.'')
          else (case hackathon_get (c_hackathon_id r) c of
                  None \<Rightarrow> Inl (NotFoundError ''Challenge not found.'')
                | Some h \<Rightarrow>
                    if h_status h \<noteq> HPublished \<or> c_status r \<noteq> CPublished
                    then Inl (NotFoundError ''Challenge not found.'') else Inr r))"

definition artifact_suffix :: "string option \<Rightarrow> string" where
  "artifact_suffix filename =
     (case filename of
        None \<Rightarrow> []
      | Some f \<Rightarrow> if CHR ''.'' \<in> set f then ''.'' @ lower (last (split_on (CHR ''.'') f)) else [])"

definition artifact_key_for :: "uuid \<Rightarrow> uuid \<Rightarrow> uuid \<Rightarrow> string option \<Rightarrow> string" where
  "artifact_key_for challenge actor fresh filename =
     ''submissions/'' @ uuid_str challenge @ ''/'' @ uuid_str actor @ ''/'' @ uuid_str fresh @ artifact_suffix filename"

definition content_type_or_default :: "string option \<Rightarrow> string" where
  "content_type_or_default ct =
     (case ct of None \<Rightarrow> ''application/octet-stream''
      | Some t \<Rightarrow> if t = [] then ''application/octet-stream'' else t)"

text \<open>The size check and the write of new bytes, shared with the update.\<close>

definition store_artifact ::
  "settings \<Rightarrow> real \<Rightarrow> uuid \<Rightarrow> uuid \<Rightarrow> uuid \<Rightarrow> artifact option \<Rightarrow> files \<Rightarrow> (exn + string option) \<times> files" where
  "store_artifact st now challenge actor fresh artifact fs =
     (case artifact of
        None \<Rightarrow> (Inr None, fs)
      | Some a \<Rightarrow>
          if int (length (af_bytes a)) > artifact_max_bytes st then (Inl too_large, fs)
          else (case put now (artifact_key_for challenge actor fresh (af_filename a)) (af_bytes a)
                       (content_type_or_default (af_content_type a)) fs of
                  (Inl e, fs') \<Rightarrow> (Inl e, fs')
                | (Inr k, fs') \<Rightarrow> (Inr (Some k), fs')))"

text \<open>The challenge is locked, then the artifact is written; the lock is held until the insert.\<close>

definition create_lock ::
  "settings \<Rightarrow> real \<Rightarrow> uuid \<Rightarrow> create_request \<Rightarrow> catalog \<Rightarrow> files \<Rightarrow> (exn + string option) \<times> files" where
  "create_lock st now fresh rq c fs =
     (case lock_open_challenge (cq_challenge rq) c of
        Inl e \<Rightarrow> (Inl e, fs)
      | Inr r \<Rightarrow> store_artifact st now (cq_challenge rq) (cq_actor rq) fresh (cq_artifact rq) fs)"

text \<open>The insert and its commit; an exception rolls it back.\<close>

definition create_insert ::
  "bool \<Rightarrow> datetime \<Rightarrow> uuid \<Rightarrow> create_request \<Rightarrow> string option \<Rightarrow> app \<Rightarrow> exn + submission \<times> app" where
  "create_insert fault now fresh rq artifact_key a =
     (if fault then Inl CommitFailed
      else submission_add now fresh (cq_challenge rq) (cq_actor rq) (cq_metadata rq) artifact_key
             (cq_key rq) (cq_fingerprint rq) a)"

text \<open>After the rollback, and the removal of the blob: a lost race for the key is a replay or a conflict.\<close>

definition create_resolve :: "app_env \<Rightarrow> exn \<Rightarrow> create_request \<Rightarrow> submission list \<Rightarrow> exn + submission" where
  "create_resolve env e rq subs =
     (if e \<noteq> IntegrityError then Inl e
      else case cq_key rq of
        None \<Rightarrow> Inl e
      | Some k \<Rightarrow>
          (case find_by_idempotency (cq_actor rq) k subs of
             None \<Rightarrow> Inl e
           | Some existing \<Rightarrow> replay_or_conflict env existing (the (cq_fingerprint rq))))"

text \<open>The ingestion job of a new artifact, in a transaction of its own.\<close>

definition enqueue_artifact ::
  "settings \<Rightarrow> bool \<Rightarrow> datetime \<Rightarrow> uuid \<Rightarrow> uuid \<Rightarrow> string option \<Rightarrow> app \<Rightarrow> (exn + unit) \<times> app" where
  "enqueue_artifact st fault now fresh submission_id artifact_key a =
     (case artifact_key of
        None \<Rightarrow> (Inr (), a)
      | Some k \<Rightarrow>
          if \<not> ingestion_enabled st then (Inr (), a)
          else if fault then (Inl CommitFailed, a)
          else (case enqueue now fresh submission_id k (ap_jobs a) of
                  Inl e \<Rightarrow> (Inl e, a)
                | Inr (j, jobs) \<Rightarrow> (Inr (), a\<lparr>ap_jobs := jobs\<rparr>)))"

text \<open>
  \<open>create\<close> without interference; the flag of a result is \<open>replayed\<close>. The two faults are those of the
  insert and of the enqueue, the three uuids those of the blob, the row and the job.
\<close>

definition create_submission ::
  "app_env \<Rightarrow> settings \<Rightarrow> bool \<times> bool \<Rightarrow> real \<times> datetime \<Rightarrow> uuid \<times> uuid \<times> uuid \<Rightarrow> current_user \<Rightarrow> uuid
     \<Rightarrow> dict option \<Rightarrow> string option \<Rightarrow> artifact option \<Rightarrow> app \<times> files
     \<Rightarrow> (exn + submission \<times> bool) \<times> app \<times> files" where
  "create_submission env st faults clock fresh actor challenge md idem artifact s =
     (let (f1, f2) = faults; (t, now) = clock; (u1, u2, u3) = fresh; (a, fs) = s
      in case create_begin env st actor challenge md idem artifact (ap_subs a) of
           Inl e \<Rightarrow> (Inl e, a, fs)
         | Inr (Inl existing) \<Rightarrow> (Inr (existing, True), a, fs)
         | Inr (Inr rq) \<Rightarrow>
             (case create_lock st t u1 rq (ap_catalog a) fs of
                (Inl e, fs1) \<Rightarrow> (Inl e, a, fs1)
              | (Inr key, fs1) \<Rightarrow>
                  (case create_insert f1 now u2 rq key a of
                     Inl e \<Rightarrow>
                       (map_sum id (\<lambda>existing. (existing, True)) (create_resolve env e rq (ap_subs a)), a,
                        snd (compensate_delete key fs1))
                   | Inr (row, a1) \<Rightarrow>
                       (case enqueue_artifact st f2 now u3 (s_id row) key a1 of
                          (Inl e, a2) \<Rightarrow> (Inl e, a2, fs1)
                        | (Inr u, a2) \<Rightarrow> (Inr (row, False), a2, fs1)))))"

section \<open>Reading\<close>

text \<open>Whether an organizer who is not the author may look: the hackathon of the challenge is theirs.\<close>

definition organizer_may_view :: "string \<Rightarrow> current_user \<Rightarrow> submission \<Rightarrow> catalog \<Rightarrow> exn + unit" where
  "organizer_may_view msg actor s c =
     (case challenge_get (s_challenge_id s) c of
        None \<Rightarrow> Inl (NotFoundError ''Submission not found.'')
      | Some r \<Rightarrow>
          (case hackathon_get (c_hackathon_id r) c of
             None \<Rightarrow> Inl (PermissionDenied msg)
           | Some h \<Rightarrow> if h_organizer_id h \<noteq> cu_id actor then Inl (PermissionDenied msg) else Inr ()))"

definition get_submission :: "current_user \<Rightarrow> uuid \<Rightarrow> app \<Rightarrow> exn + submission" where
  "get_submission actor i a =
     (case submission_get i (ap_subs a) of
        None \<Rightarrow> Inl (NotFoundError ''Submission not found.'')
      | Some s \<Rightarrow>
          if s_participant_id s \<noteq> cu_id actor \<and> \<not> is_organizer actor
          then Inl (PermissionDenied ''You cannot view this submission.'')
          else if is_organizer actor \<and> s_participant_id s \<noteq> cu_id actor
          then try_in (organizer_may_view ''You cannot view this submission.'' actor s (ap_catalog a)) (\<lambda>_. Inr s)
          else Inr s)"

definition list_for_user :: "current_user \<Rightarrow> uuid \<Rightarrow> app \<Rightarrow> exn + submission list" where
  "list_for_user actor u a =
     (if cu_id actor \<noteq> u \<and> \<not> is_organizer actor
      then Inl (PermissionDenied ''You cannot list another participant's submissions.'')
      else if user_get u (ap_catalog a) = None then Inl (NotFoundError ''User not found.'')
      else Inr (list_for_participant u (ap_subs a)))"

text \<open>\<open>ChallengeService.list_submissions\<close>.\<close>

definition list_submissions :: "current_user \<Rightarrow> uuid \<Rightarrow> app \<Rightarrow> exn + submission list" where
  "list_submissions actor i a =
     try_in (owned_challenge ''Only the creating organizer may list these submissions.'' actor i (ap_catalog a))
       (\<lambda>r. Inr (list_for_challenge i (ap_subs a)))"

section \<open>Changing a created submission\<close>

text \<open>The row as read, before the change; no lock is taken.\<close>

definition update_begin :: "current_user \<Rightarrow> uuid \<Rightarrow> submission list \<Rightarrow> exn + submission" where
  "update_begin actor i subs =
     (case submission_get i subs of
        None \<Rightarrow> Inl (NotFoundError ''Submission not found.'')
      | Some row \<Rightarrow>
          if s_participant_id row \<noteq> cu_id actor then Inl (PermissionDenied ''You cannot modify this submission.'')
          else if s_status row \<noteq> SCreated
          then Inl (ValidationFailed ''Only submissions in CREATED can be updated.'')
          else Inr row)"

definition update_publish ::
  "app_env \<Rightarrow> settings \<Rightarrow> real \<Rightarrow> uuid \<Rightarrow> current_user \<Rightarrow> submission \<Rightarrow> dict option \<Rightarrow> artifact option \<Rightarrow> files
     \<Rightarrow> (exn + dict option \<times> string option) \<times> files" where
  "update_publish env st now fresh actor row md artifact fs =
     (case (case md of None \<Rightarrow> Inr None | Some d \<Rightarrow> map_sum id Some (validate_metadata env st (Some d))) of
        Inl e \<Rightarrow> (Inl e, fs)
      | Inr md' \<Rightarrow>
          (case store_artifact st now (s_challenge_id row) (cu_id actor) fresh artifact fs of
             (Inl e, fs') \<Rightarrow> (Inl e, fs')
           | (Inr key, fs') \<Rightarrow> (Inr (md', key), fs')))"

text \<open>The commit writes the changed columns of the row with this id, whatever its status is by then.\<close>

definition replace_commit :: "datetime \<Rightarrow> submission \<Rightarrow> dict option \<Rightarrow> string option \<Rightarrow> app \<Rightarrow> app" where
  "replace_commit now row md key a =
     a\<lparr>ap_subs := update_where (\<lambda>s. s_id s = s_id row)
         (\<lambda>s. s\<lparr>s_metadata := (case md of None \<Rightarrow> s_metadata s | Some d \<Rightarrow> d),
                s_artifact_key := (case key of None \<Rightarrow> s_artifact_key s | Some k \<Rightarrow> Some k),
                s_updated_at := now\<rparr>) (ap_subs a)\<rparr>"

text \<open>The blob to drop after the commit: the previous one of the row as it was read.\<close>

definition superseded :: "submission \<Rightarrow> string option \<Rightarrow> string option" where
  "superseded row key = (if key \<noteq> None \<and> s_artifact_key row \<noteq> key then s_artifact_key row else None)"

definition reread :: "uuid \<Rightarrow> app \<Rightarrow> exn + submission" where
  "reread i a = (case submission_get i (ap_subs a) of None \<Rightarrow> Inl AssertionError | Some s \<Rightarrow> Inr s)"

text \<open>Commit, clean up and enqueue: the common end of the update and of the attachment.\<close>

definition finish_replace ::
  "settings \<Rightarrow> bool \<times> bool \<Rightarrow> datetime \<Rightarrow> uuid \<Rightarrow> submission \<Rightarrow> dict option \<Rightarrow> string option \<Rightarrow> app \<times> files
     \<Rightarrow> (exn + submission) \<times> app \<times> files" where
  "finish_replace st faults now fresh row md key s =
     (let (f1, f2) = faults; (a, fs) = s
      in if f1 then (Inl CommitFailed, a, snd (compensate_delete key fs))
         else
           let a = replace_commit now row md key a;
               fs = snd (compensate_delete (superseded row key) fs)
           in (case enqueue_artifact st f2 now fresh (s_id row) key a of
                 (Inl e, a) \<Rightarrow> (Inl e, a, fs)
               | (Inr u, a) \<Rightarrow> (reread (s_id row) a, a, fs)))"

definition update_created ::
  "app_env \<Rightarrow> settings \<Rightarrow> bool \<times> bool \<Rightarrow> real \<times> datetime \<Rightarrow> uuid \<times> uuid \<Rightarrow> current_user \<Rightarrow> uuid
     \<Rightarrow> dict option \<Rightarrow> artifact option \<Rightarrow> app \<times> files \<Rightarrow> (exn + submission) \<times> app \<times> files" where
  "update_created env st faults clock fresh actor i md artifact s =
     (case update_begin actor i (ap_subs (fst s)) of
        Inl e \<Rightarrow> (Inl e, s)
      | Inr row \<Rightarrow>
          (case update_publish env st (fst clock) (fst fresh) actor row md artifact (snd s) of
             (Inl e, fs) \<Rightarrow> (Inl e, fst s, fs)
           | (Inr (md', key), fs) \<Rightarrow>
               finish_replace st faults (snd clock) (snd fresh) row md' key (fst s, fs)))"

text \<open>\<open>attach_incoming\<close> publishes the staged file; the upload is marked as finalized once it is published.\<close>

definition attach_publish ::
  "settings \<Rightarrow> real \<Rightarrow> uuid \<Rightarrow> current_user \<Rightarrow> submission \<Rightarrow> incoming_upload \<Rightarrow> string option \<Rightarrow> files
     \<Rightarrow> (exn + string) \<times> incoming_upload \<times> files" where
  "attach_publish st now fresh actor row up filename fs =
     (if in_size up > artifact_max_bytes st then (Inl too_large, up, fs)
      else (case put_from_path now (artifact_key_for (s_challenge_id row) (cu_id actor) fresh filename)
                   (in_path up) (in_content_type up) fs of
              (Inl e, fs') \<Rightarrow> (Inl e, up, fs')
            | (Inr k, fs') \<Rightarrow> (Inr k, mark_finalized up, fs')))"

definition attach_incoming ::
  "settings \<Rightarrow> bool \<times> bool \<Rightarrow> real \<times> datetime \<Rightarrow> uuid \<times> uuid \<Rightarrow> current_user \<Rightarrow> uuid \<Rightarrow> incoming_upload
     \<Rightarrow> string option \<Rightarrow> app \<times> files \<Rightarrow> (exn + submission) \<times> incoming_upload \<times> app \<times> files" where
  "attach_incoming st faults clock fresh actor i up filename s =
     (case update_begin actor i (ap_subs (fst s)) of
        Inl e \<Rightarrow> (Inl e, up, s)
      | Inr row \<Rightarrow>
          (case attach_publish st (fst clock) (fst fresh) actor row up filename (snd s) of
             (Inl e, up', fs) \<Rightarrow> (Inl e, up', fst s, fs)
           | (Inr key, up', fs) \<Rightarrow>
               (let (r, s') = finish_replace st faults (snd clock) (snd fresh) row None (Some key) (fst s, fs)
                in (r, up', s'))))"

text \<open>
  The upload route: stage the body, attach it, on any exception abort the staged upload, and
  always reclaim staging files older than an hour.
\<close>

definition attach_artifact ::
  "app_env \<Rightarrow> settings \<Rightarrow> bool \<times> bool \<Rightarrow> real \<times> datetime \<Rightarrow> uuid \<times> uuid \<times> uuid \<Rightarrow> current_user \<Rightarrow> uuid
     \<Rightarrow> string \<Rightarrow> string option \<Rightarrow> string option \<Rightarrow> string option \<Rightarrow> app \<times> files \<Rightarrow> (exn + submission) \<times> app \<times> files" where
  "attach_artifact env st faults clock fresh actor i body content_type filename content_sha256 s =
     (let (r, a, fs) =
            (case stream_to_incoming (ae_sha env) (fst clock) (fst fresh) (iter_upload_file 65536 body)
                    (artifact_max_bytes st) (content_type_or_default content_type) content_sha256 (snd s) of
               (Inl e, fs) \<Rightarrow> (Inl e, fst s, fs)
             | (Inr up, fs) \<Rightarrow>
                 (case attach_incoming st faults clock (snd fresh) actor i up filename (fst s, fs) of
                    (Inl e, up', a, fs') \<Rightarrow> (Inl e, a, abort_upload up' fs')
                  | (Inr row, up', a, fs') \<Rightarrow> (Inr row, a, fs')))
      in (r, a, snd (cleanup_incoming (fst clock) 3600 fs)))"

section \<open>Submitting\<close>

text \<open>Datetimes count microseconds since 1970; Python's \<open>datetime\<close> ends with the year 9999.\<close>

definition MIN_DATETIME :: datetime where "MIN_DATETIME = -62135596800000000"
definition MAX_DATETIME :: datetime where "MAX_DATETIME = 253402300799999999"

definition add_seconds :: "datetime \<Rightarrow> real \<Rightarrow> exn + datetime" where
  "add_seconds now secs =
     (let t = now + round_half_even (secs * 1000000)
      in if MIN_DATETIME \<le> t \<and> t \<le> MAX_DATETIME then Inr t else Inl OverflowError)"

text \<open>\<open>float(raw)\<close>: \<open>None\<close> is a \<open>TypeError\<close> or a \<open>ValueError\<close>.\<close>

fun to_float :: "app_env \<Rightarrow> json \<Rightarrow> py_float option" where
  "to_float env (JBool b) = Some (Finite (if b then 1 else 0))"
| "to_float env (JInt i) = Some (Finite (of_int i))"
| "to_float env (JFloat r) = Some (Finite r)"
| "to_float env (JStr s) = ae_float env s"
| "to_float env _ = None"

text \<open>Only \<open>TypeError\<close> and \<open>ValueError\<close> (here also: \<open>timedelta\<close> of a NaN) are caught.\<close>

definition deadline_of :: "app_env \<Rightarrow> datetime \<Rightarrow> json option \<Rightarrow> exn + datetime option" where
  "deadline_of env now raw =
     (case raw of
        None \<Rightarrow> Inr None
      | Some JNull \<Rightarrow> Inr None
      | Some v \<Rightarrow>
          (case to_float env v of
             None \<Rightarrow> Inr None
           | Some NotANumber \<Rightarrow> Inr None
           | Some Infinity \<Rightarrow> Inl OverflowError
           | Some (Finite r) \<Rightarrow> map_sum id Some (add_seconds now r)))"

definition EVALUATION_MODES :: "string list" where
  "EVALUATION_MODES = [''legacy'', ''always_expensive'', ''fixed_progressive'', ''resource_aware_adaptive'',
     ''synthetic_execution'']"

definition mode_for :: "settings \<Rightarrow> dict \<Rightarrow> string" where
  "mode_for st md =
     (case dict_get md ''evaluation_mode'' of
        Some (JStr m) \<Rightarrow> if m \<in> set EVALUATION_MODES then m else evaluation_progressive_mode st
      | _ \<Rightarrow> evaluation_progressive_mode st)"

text \<open>The refusal when the row did not change; \<open>who\<close> may see that it exists.\<close>

definition not_transitioned :: "current_user \<Rightarrow> uuid \<Rightarrow> submission_status \<Rightarrow> submission list \<Rightarrow> exn + submission" where
  "not_transitioned actor i target subs =
     (case submission_get i subs of
        None \<Rightarrow> Inl (NotFoundError ''Submission not found.'')
      | Some s \<Rightarrow>
          if s_participant_id s \<noteq> cu_id actor then Inl (PermissionDenied ''You cannot change this submission.'')
          else if target = SSubmitted \<and> s_status s = SSubmitted then Inr s
          else Inl (InvalidStateTransition (''Cannot transition submission from '' @
            submission_status_value (s_status s) @ '' to '' @ submission_status_value target @ ''.'')))"

text \<open>One transaction: an exception (also of the commit) rolls the status change back.\<close>

definition submit_submission ::
  "app_env \<Rightarrow> settings \<Rightarrow> bool \<Rightarrow> datetime \<Rightarrow> uuid \<Rightarrow> current_user \<Rightarrow> uuid \<Rightarrow> app
     \<Rightarrow> (exn + submission \<times> evaluation) \<times> app" where
  "submit_submission env st fault now fresh actor i a = commit_or_keep
     (try_in (require_participant actor) (\<lambda>_.
      case transition_if_created now i (cu_id actor) SSubmitted (ap_subs a) of
        (Some t, subs) \<Rightarrow>
          (let cls = parse_workload_class (case dict_get (s_metadata t) ''workload_class'' of
                 None \<Rightarrow> IsRaw JNull | Some v \<Rightarrow> IsRaw v)
           in try_in (deadline_of env now (dict_get (s_metadata t) ''evaluation_deadline_seconds'')) (\<lambda>deadline.
              try_in (create_queued now fresh (s_id t) cls (mode_for st (s_metadata t)) deadline 0 (ap_queue a)) (\<lambda>x.
                if fault then Inl CommitFailed
                else Inr ((t, fst x), a\<lparr>ap_subs := subs, ap_queue := snd x\<rparr>))))
      | (None, subs) \<Rightarrow>
          try_in (not_transitioned actor i SSubmitted (ap_subs a)) (\<lambda>s.
            case get_by_submission (ap_queue a) i of
              None \<Rightarrow> Inl (ConflictError
                ''Submission is submitted but has no evaluation; this violates the product invariant.'')
            | Some e \<Rightarrow> Inr ((s, e), a)))) a"

definition cancel_submission ::
  "bool \<Rightarrow> datetime \<Rightarrow> current_user \<Rightarrow> uuid \<Rightarrow> app \<Rightarrow> (exn + submission) \<times> app" where
  "cancel_submission fault now actor i a = commit_or_keep
     (case transition_if_created now i (cu_id actor) SCancelled (ap_subs a) of
        (Some t, subs) \<Rightarrow> if fault then Inl CommitFailed else Inr (t, a\<lparr>ap_subs := subs\<rparr>)
      | (None, subs) \<Rightarrow> try_in (not_transitioned actor i SCancelled (ap_subs a)) (\<lambda>s. Inr (s, a))) a"

section \<open>Artifact keys\<close>

lemma split_on_part: "w \<in> set (split_on c xs) \<Longrightarrow> c \<notin> set w \<and> set w \<subseteq> set xs"
proof (induction xs arbitrary: w)
  case (Cons x xs)
  then show ?case by (cases "split_on c xs") (fastforce split: if_splits)+
qed simp

lemma split_on_prefixed:
  "c \<notin> set xs \<Longrightarrow> split_on c (xs @ ys) = (xs @ hd (split_on c ys)) # tl (split_on c ys)"
  by (induction xs) (auto split: list.splits)

lemma lower_dot: "CHR ''.'' \<in> set (lower t) \<longleftrightarrow> CHR ''.'' \<in> set t"
proof -
  have "lower_char c = CHR ''.'' \<longleftrightarrow> c = CHR ''.''" for c
  proof -
    have "of_char (lower_char c) = (46 :: nat) \<longleftrightarrow> of_char c = (46 :: nat)"
      by (auto simp: lower_char_def Let_def)
    moreover have "d = CHR ''.'' \<longleftrightarrow> of_char d = (46 :: nat)" for d :: char
    proof -
      have "of_char (CHR ''.'') = (46 :: nat)" by simp
      then show ?thesis by (metis of_char_eq_iff)
    qed
    ultimately show ?thesis by simp
  qed
  then have "(\<exists>x\<in>set t. lower_char x = CHR ''.'') \<longleftrightarrow> CHR ''.'' \<in> set t" by simp
  then show ?thesis unfolding lower_def set_map image_iff by (simp only: eq_commute)
qed

lemma artifact_suffix_dots: "artifact_suffix f = [] \<or> (\<exists>t. artifact_suffix f = CHR ''.'' # t \<and> CHR ''.'' \<notin> set t)"
proof (cases f)
  case (Some g)
  have "CHR ''.'' \<notin> set (last (split_on (CHR ''.'') g))"
    using split_on_part [of _ "CHR ''.''" g] by (metis last_in_set split_on_not_Nil)
  then show ?thesis using Some by (simp add: artifact_suffix_def lower_dot)
qed (simp add: artifact_suffix_def)

text \<open>The path of an artifact key: the identifier of the blob starts its fourth component.\<close>

lemma artifact_path:
  "\<exists>h rest. resolve (artifact_key_for ch actor u f) =
     Inr ([''submissions'', uuid_str ch, uuid_str actor, uuid_str u @ h] @ rest) \<and>
     (\<forall>s\<in>set rest. s \<noteq> [] \<and> CHR ''.'' \<notin> set s)"
proof -
  let ?k = "artifact_key_for ch actor u f" and ?sl = "CHR ''/''"
  define ws where "ws = split_on ?sl (artifact_suffix f)"
  have d: "CHR ''.'' \<notin> set w" if "w \<in> set (tl ws)" for w
    using artifact_suffix_dots [of f]
  proof
    assume "\<exists>t. artifact_suffix f = CHR ''.'' # t \<and> CHR ''.'' \<notin> set t"
    then obtain t where t: "artifact_suffix f = CHR ''.'' # t" "CHR ''.'' \<notin> set t" by blast
    then have "tl ws = tl (split_on ?sl t)" by (auto simp: ws_def split: list.splits)
    then have "w \<in> set (tl (split_on ?sl t))" using that by (simp only:)
    then have "w \<in> set (split_on ?sl t)" by (cases "split_on ?sl t") simp_all
    then have "set w \<subseteq> set t" using split_on_part [of w ?sl t] by simp
    then show ?thesis using t(2) by auto
  qed (use that in \<open>simp add: ws_def\<close>)
  have split: "split_on ?sl ?k =
      [''submissions'', uuid_str ch, uuid_str actor, uuid_str u @ hd ws] @ tl ws"
  proof -
    have e: "?k = ''submissions'' @ ?sl # (uuid_str ch @ ?sl # (uuid_str actor @ ?sl # (uuid_str u @ artifact_suffix f)))"
      by (simp add: artifact_key_for_def)
    have n: "?sl \<notin> set (uuid_str i)" for i using uuid_str_plain by blast
    have m: "?sl \<notin> set ''submissions''" by simp
    show ?thesis
      unfolding e ws_def split_on_append [OF m] split_on_append [OF n]
      unfolding split_on_prefixed [OF n] append.simps by (rule refl)
  qed
  have len: "uuid_str u @ hd ws \<noteq> w" if "length w < 36" for w
    using that by (metis length_append not_add_less1 uuid_str_length)
  define rest where "rest = filter (\<lambda>s. s \<noteq> [] \<and> s \<noteq> ''.'') (tl ws)"
  have parts: "path_parts ?k = [''submissions'', uuid_str ch, uuid_str actor, uuid_str u @ hd ws] @ rest"
    using uuid_str_plain [of ch] uuid_str_plain [of actor] len [of "[]"] len [of "''.''"]
    by (simp add: path_parts_def split rest_def)
  have rest: "\<forall>s\<in>set rest. s \<noteq> [] \<and> CHR ''.'' \<notin> set s" using d by (auto simp: rest_def)
  then have "''..'' \<notin> set (path_parts ?k)"
    using uuid_str_plain [of ch] uuid_str_plain [of actor] len [of "''..''"] by (auto simp: parts)
  moreover have "?k \<noteq> []" "\<not> starts_with ''/'' ?k" by (simp_all add: artifact_key_for_def starts_with_def)
  ultimately have "resolve ?k = Inr ([''submissions'', uuid_str ch, uuid_str actor, uuid_str u @ hd ws] @ rest)"
    by (simp add: resolve_def parts)
  with rest show ?thesis by blast
qed

definition blob_path :: "uuid \<Rightarrow> path \<Rightarrow> bool" where
  "blob_path u p \<longleftrightarrow> 4 \<le> length p \<and> take 36 (p ! 3) = uuid_str u"

lemma blob_path_suffix:
  assumes "blob_path u p"
  shows "blob_path u (add_suffix s p)"
proof -
  have l: "36 \<le> length (p ! 3)"
    using assms uuid_str_length [of u] by (metis blob_path_def length_take min.absorb_iff2 min.commute)
  show ?thesis
  proof (cases "length p = 4")
    case True
    then have "last p = p ! 3" by (simp add: last_conv_nth flip: length_0_conv)
    then have "add_suffix s p ! 3 = p ! 3 @ s" using True by (simp add: add_suffix_def nth_append)
    then show ?thesis using assms l True by (simp add: blob_path_def add_suffix_def)
  next
    case False
    then have n: "3 < length p - 1" using assms unfolding blob_path_def by linarith
    then have "add_suffix s p ! 3 = p ! 3"
      by (simp add: add_suffix_def nth_append nth_butlast blob_path_def)
    then show ?thesis using assms n by (auto simp: blob_path_def add_suffix_def)
  qed
qed

lemma blob_path_apart:
  assumes "blob_path u p" and "blob_path v q" and "uuid_ok u" and "uuid_ok v" and "u \<noteq> v"
  shows "apart p q"
proof -
  have "blob_path v (tmp_of q)" "blob_path v (sidecar q)"
    using assms(2) by (simp_all add: blob_path_suffix tmp_of_def sidecar_def)
  moreover have "p \<noteq> x" if "blob_path v x" for x
    using that assms uuid_str_inj [of u v] by (metis blob_path_def)
  ultimately show ?thesis using assms(2) by (simp add: apart_def)
qed

lemma artifact_blob_path:
  obtains p where "resolve (artifact_key_for ch actor u f) = Inr p" and "blob_path u p"
    and "prefix [''submissions'', uuid_str ch, uuid_str actor] p" and "''..'' \<notin> set p"
proof -
  obtain h rest where r: "resolve (artifact_key_for ch actor u f) =
      Inr ([''submissions'', uuid_str ch, uuid_str actor, uuid_str u @ h] @ rest)"
    using artifact_path by blast
  have "''..'' \<notin> set p" if "resolve k = Inr p" for k p
    using that by (auto simp: resolve_def split: if_splits)
  from this [OF r] show thesis using that [OF r] by (simp add: blob_path_def)
qed

text \<open>
  Whatever file name a client sends, the key of its artifact resolves inside the store, below
  the directory of its challenge and its author, with the fresh identifier in the fourth component and
  no parent component anywhere; and keys of different identifiers never touch each other, nor each
  other's temporary file or sidecar.
\<close>

theorem artifact_keys_confined:
  assumes "uuid_ok u" and "uuid_ok v" and "u \<noteq> v"
  shows "\<exists>p q. resolve (artifact_key_for ch actor u f) = Inr p \<and> resolve (artifact_key_for ch' actor' v g) = Inr q \<and>
    prefix [''submissions'', uuid_str ch, uuid_str actor] p \<and> starts_with (uuid_str u) (p ! 3) \<and>
    ''..'' \<notin> set p \<and> apart p q \<and> apart q p"
proof -
  obtain p where p: "resolve (artifact_key_for ch actor u f) = Inr p" "blob_path u p"
      "prefix [''submissions'', uuid_str ch, uuid_str actor] p" "''..'' \<notin> set p"
    by (rule artifact_blob_path)
  obtain q where q: "resolve (artifact_key_for ch' actor' v g) = Inr q" "blob_path v q"
    by (rule artifact_blob_path)
  have "starts_with (uuid_str u) (p ! 3)" using p(2) by (simp add: blob_path_def starts_with_def)
  then show ?thesis using p q blob_path_apart assms by blast
qed

theorem artifact_keys_confined_witness:
  "\<exists>p. resolve (artifact_key_for 7 8 1 (Some ''a/../../b.x/../y'')) = Inr p \<and> ''..'' \<notin> set p"
proof -
  have "uuid_ok 1" "uuid_ok 2" "(1 :: uuid) \<noteq> 2" by (simp_all add: uuid_ok_def)
  from artifact_keys_confined [OF this, of 7 8 "Some ''a/../../b.x/../y''"] show ?thesis by blast
qed

end
