(* ===== verification/Eval_Views.thy ===== *)
theory Eval_Views
  imports Submissions
begin

text \<open>
  \<open>application/evaluations.py\<close>: who may see an evaluation, what a participant sees of it, and the health of the
  backlog. The snapshots and the scheduler state are those of the evaluation repository. Texts are lists of
  8-bit characters, so the dash of the BUSY message (U+2014) is written \<open>--\<close>.
\<close>

section \<open>Views\<close>

datatype evaluation_health = HNormal | HBusy | HSaturated | HCritical

fun health_value :: "evaluation_health \<Rightarrow> string" where
  "health_value HNormal = ''normal''"
| "health_value HBusy = ''busy''"
| "health_value HSaturated = ''saturated''"
| "health_value HCritical = ''critical''"

record backlog_status =
  bl_health :: evaluation_health
  bl_queued_count :: nat
  bl_running_count :: nat
  bl_succeeded_count :: nat
  bl_failed_count :: nat
  bl_oldest_queue_age_seconds :: "real option"
  bl_estimated_wait_seconds :: "real option"
  bl_recent_service_rate_per_second :: "real option"
  bl_message :: string
  bl_submissions_accepted :: bool
  bl_estimate_is_approximate :: bool
  bl_light_queued_count :: nat
  bl_medium_queued_count :: nat
  bl_heavy_queued_count :: nat
  bl_worker_capacity :: int
  bl_pressure_state :: string
  bl_adaptive_max_workers :: "int option"
  bl_resource_runtime_enabled :: bool

record participant_view =
  pv_id :: uuid
  pv_submission_id :: uuid
  pv_status :: evaluation_status
  pv_estimated_jobs_ahead :: "nat option"
  pv_estimated_wait_seconds :: "real option"
  pv_estimate_is_approximate :: bool
  pv_score :: "int option"
  pv_failure_message :: "string option"
  pv_created_at :: datetime
  pv_started_at :: "datetime option"
  pv_completed_at :: "datetime option"
  pv_submission_accepted :: bool
  pv_message :: string

definition authorize_view :: "current_user \<Rightarrow> submission \<Rightarrow> catalog \<Rightarrow> exn + unit" where
  "authorize_view actor s c =
     (if s_participant_id s = cu_id actor then Inr ()
      else if \<not> is_organizer actor then Inl (PermissionDenied ''You cannot view this evaluation.'')
      else organizer_may_view ''You cannot view this evaluation.'' actor s c)"

definition get_for_submission :: "current_user \<Rightarrow> uuid \<Rightarrow> app \<Rightarrow> exn + evaluation" where
  "get_for_submission actor i a =
     (case submission_get i (ap_subs a) of
        None \<Rightarrow> Inl (NotFoundError ''Submission not found.'')
      | Some s \<Rightarrow>
          try_in (authorize_view actor s (ap_catalog a)) (\<lambda>_.
            case get_by_submission (ap_queue a) i of
              None \<Rightarrow> Inl (NotFoundError ''Evaluation not found for this submission.'')
            | Some e \<Rightarrow> Inr e))"

text \<open>The three texts a participant may read of a failure.\<close>

definition friendly_failure :: "string option \<Rightarrow> string" where
  "friendly_failure reason =
     (case reason of
        None \<Rightarrow> ''Evaluation could not complete. Your submission remains on record.''
      | Some r \<Rightarrow>
          if r = [] then ''Evaluation could not complete. Your submission remains on record.''
          else if contains ''Forced evaluation failure'' r
          then ''Evaluation could not complete for this submission. Your submission remains on record.''
          else if contains ''Abandoned after'' r \<or> contains ''stale'' (lower r)
          then ''Evaluation could not finish after several attempts. Your submission remains on record.''
          else ''Evaluation could not complete. Your submission remains on record.'')"

fun view_message :: "evaluation_status \<Rightarrow> string" where
  "view_message EQueued = ''Your submission was accepted. Evaluation is waiting in the queue.''"
| "view_message ERunning = ''Your submission was accepted. Evaluation is in progress.''"
| "view_message ESucceeded = ''Your submission was accepted and evaluation completed.''"
| "view_message EFailed = ''Your submission was accepted, but evaluation could not complete.''"

definition to_participant_view :: "equeue \<Rightarrow> evaluation \<Rightarrow> participant_view" where
  "to_participant_view q e =
     \<lparr>pv_id = e_id e, pv_submission_id = e_submission_id e, pv_status = e_status e,
      pv_estimated_jobs_ahead = (if e_status e = EQueued then queue_position q (e_id e) else None),
      pv_estimated_wait_seconds = None, pv_estimate_is_approximate = True,
      pv_score = (if e_status e = ESucceeded then e_score e else None),
      pv_failure_message = (if e_status e = EFailed then Some (friendly_failure (e_failure_reason e)) else None),
      pv_created_at = e_created_at e,
      pv_started_at = (if e_status e \<in> {ERunning, ESucceeded, EFailed} then e_started_at e else None),
      pv_completed_at = (if e_status e \<in> {ESucceeded, EFailed} then e_completed_at e else None),
      pv_submission_accepted = True, pv_message = view_message (e_status e)\<rparr>"

definition get_participant_view :: "current_user \<Rightarrow> uuid \<Rightarrow> app \<Rightarrow> exn + participant_view" where
  "get_participant_view actor i a =
     map_sum id (to_participant_view (ap_queue a)) (get_for_submission actor i a)"

text \<open>Not called by the views, but part of the service.\<close>

definition estimate_wait_for_position :: "settings \<Rightarrow> datetime \<Rightarrow> int option \<Rightarrow> equeue \<Rightarrow> real option" where
  "estimate_wait_for_position st now position q =
     (case position of
        None \<Rightarrow> None
      | Some n \<Rightarrow>
          if n < 1 then None
          else
            let window = evaluation_service_rate_window_seconds st;
                recent = qs_recent_completed (queue_snapshot now window q)
            in if window \<le> 0 \<or> recent < 3 then None
               else let rate = of_nat recent / window
                    in if rate \<le> 0 then None else Some (py_round 1 (of_int n / rate)))"

section \<open>Backlog health\<close>

definition health_of :: "settings \<Rightarrow> nat \<Rightarrow> real option \<Rightarrow> evaluation_health" where
  "health_of st queued oldest =
     (let older = (\<lambda>limit. case oldest of None \<Rightarrow> False | Some age \<Rightarrow> age \<ge> limit)
      in if int queued \<ge> evaluation_critical_queue_depth st \<or> older (evaluation_saturated_oldest_age_seconds st * 5)
         then HCritical
         else if int queued \<ge> evaluation_saturated_queue_depth st \<or> older (evaluation_saturated_oldest_age_seconds st)
         then HSaturated
         else if int queued \<ge> evaluation_busy_queue_depth st \<or> older (evaluation_busy_oldest_age_seconds st)
         then HBusy else HNormal)"

fun health_message :: "evaluation_health \<Rightarrow> string" where
  "health_message HNormal = ''Evaluation capacity looks healthy. Your score should appear shortly after submit.''"
| "health_message HBusy = ''Your submission was accepted. Evaluation is delayed -- the queue is busy.''"
| "health_message HSaturated = ''Your submission was accepted and queued. Evaluation is significantly delayed.''"
| "health_message HCritical = ''Your submission was accepted. Evaluation backlog is very large; scoring may take a long time, but your submission is durable.''"

definition get_backlog_status :: "settings \<Rightarrow> datetime \<Rightarrow> equeue \<Rightarrow> backlog_status" where
  "get_backlog_status st now q =
     (let window = evaluation_service_rate_window_seconds st;
          snap = queue_snapshot now window q;
          recent = qs_recent_completed snap;
          rate = (if window > 0 then Some (of_nat recent / window) else None);
          health = health_of st (qs_queued snap) (qs_oldest_age_seconds snap);
          runtime = read_runtime_state q
      in \<lparr>bl_health = health, bl_queued_count = qs_queued snap, bl_running_count = qs_running snap,
          bl_succeeded_count = qs_succeeded snap, bl_failed_count = qs_failed snap,
          bl_oldest_queue_age_seconds = map_option (py_round 3) (qs_oldest_age_seconds snap),
          bl_estimated_wait_seconds =
            (case rate of
               None \<Rightarrow> None
             | Some r \<Rightarrow> if qs_queued snap > 0 \<and> r > 0 \<and> recent \<ge> 3
                 then Some (py_round 1 (of_nat (qs_queued snap) / r)) else None),
          bl_recent_service_rate_per_second = map_option (py_round 3) rate,
          bl_message = health_message health, bl_submissions_accepted = True, bl_estimate_is_approximate = True,
          bl_light_queued_count = qs_light snap, bl_medium_queued_count = qs_medium snap,
          bl_heavy_queued_count = qs_heavy snap, bl_worker_capacity = evaluation_max_workers st,
          bl_pressure_state = (if rs_pressure_state runtime = [] then ''normal'' else rs_pressure_state runtime),
          bl_adaptive_max_workers = rs_adaptive_max_workers runtime,
          bl_resource_runtime_enabled = resource_aware_runtime_enabled st\<rparr>)"

definition get_organizer_queue :: "settings \<Rightarrow> datetime \<Rightarrow> current_user \<Rightarrow> equeue \<Rightarrow> exn + backlog_status" where
  "get_organizer_queue st now actor q = try_in (require_organizer actor) (\<lambda>_. Inr (get_backlog_status st now q))"

instantiation evaluation_health :: linorder
begin

fun health_rank :: "evaluation_health \<Rightarrow> nat" where
  "health_rank HNormal = 0" | "health_rank HBusy = 1" | "health_rank HSaturated = 2" | "health_rank HCritical = 3"

definition less_eq_evaluation_health :: "evaluation_health \<Rightarrow> evaluation_health \<Rightarrow> bool" where
  "less_eq_evaluation_health g h \<longleftrightarrow> health_rank g \<le> health_rank h"

definition less_evaluation_health :: "evaluation_health \<Rightarrow> evaluation_health \<Rightarrow> bool" where
  "less_evaluation_health g h \<longleftrightarrow> health_rank g < health_rank h"

instance
proof
  fix g h :: evaluation_health
  assume "g \<le> h" "h \<le> g"
  then show "g = h" by (cases g; cases h) (simp_all add: less_eq_evaluation_health_def)
qed (auto simp: less_eq_evaluation_health_def less_evaluation_health_def)

end

section \<open>What the views show\<close>

text \<open>
  The health never improves when the queue gets longer or its oldest entry older, whatever thresholds
  are configured; and it is NORMAL only below all of them.
\<close>

theorem health_monotone:
  assumes "queued \<le> queued'" and "oldest = None \<or> (\<exists>a b. oldest = Some a \<and> oldest' = Some b \<and> a \<le> b)"
  shows "health_of st queued oldest \<le> health_of st queued' oldest' \<and>
    (health_of st queued oldest = HNormal \<longrightarrow> int queued < evaluation_busy_queue_depth st \<and>
       int queued < evaluation_critical_queue_depth st \<and> int queued < evaluation_saturated_queue_depth st)"
  using assms by (auto simp: health_of_def Let_def less_eq_evaluation_health_def)

theorem health_monotone_witness:
  "health_of default_settings 19 None = HNormal \<and> health_of default_settings 19 None \<le> health_of default_settings 20 (Some 151) \<and>
   health_of default_settings 20 (Some 151) = HCritical"
  using health_monotone [of 19 20 None "Some 151" default_settings]
  by (simp add: health_of_def Let_def default_settings_def)

text \<open>
  A participant view shows nothing of the machinery: it is the same whatever worker, attempts, stage, mode,
  class, deadline and result metadata the evaluation has; a score only of a succeeded evaluation; and of a
  failure one of three fixed texts instead of its reason.
\<close>

theorem view_hides_internals:
  "to_participant_view q (e\<lparr>e_worker_id := w, e_attempt_count := n, e_current_stage := stage, e_mode := mode,
       e_workload_class := cls, e_deadline_at := dl, e_result_metadata := md\<rparr>) = to_participant_view q e \<and>
   (pv_score (to_participant_view q e) \<noteq> None \<longrightarrow> e_status e = ESucceeded) \<and>
   (e_status e \<noteq> ESucceeded \<longrightarrow> to_participant_view q (e\<lparr>e_score := sc\<rparr>) = to_participant_view q e) \<and>
   (e_status e \<noteq> EFailed \<longrightarrow> to_participant_view q (e\<lparr>e_failure_reason := r\<rparr>) = to_participant_view q e) \<and>
   pv_failure_message (to_participant_view q e) \<in> {None,
     Some ''Evaluation could not complete. Your submission remains on record.'',
     Some ''Evaluation could not complete for this submission. Your submission remains on record.'',
     Some ''Evaluation could not finish after several attempts. Your submission remains on record.''}"
proof -
  have "friendly_failure r \<in> {''Evaluation could not complete. Your submission remains on record.'',
      ''Evaluation could not complete for this submission. Your submission remains on record.'',
      ''Evaluation could not finish after several attempts. Your submission remains on record.''}" for r
    by (simp add: friendly_failure_def split: option.split)
  then show ?thesis by (auto simp: to_participant_view_def)
qed

text \<open>
  An evaluation is shown exactly to the author of its submission and to the organizer of the hackathon
  the submission belongs to.
\<close>

theorem evaluation_visible_iff:
  "get_participant_view actor i a = Inr v \<longleftrightarrow>
     (\<exists>s e. submission_get i (ap_subs a) = Some s \<and> get_by_submission (ap_queue a) i = Some e \<and>
        v = to_participant_view (ap_queue a) e \<and>
        (s_participant_id s = cu_id actor \<or>
         is_organizer actor \<and> (\<exists>r h. challenge_get (s_challenge_id s) (ap_catalog a) = Some r \<and>
           hackathon_get (c_hackathon_id r) (ap_catalog a) = Some h \<and> h_organizer_id h = cu_id actor)))"
proof -
  have auth: "authorize_view actor s (ap_catalog a) = Inr () \<longleftrightarrow>
      s_participant_id s = cu_id actor \<or>
      is_organizer actor \<and> (\<exists>r h. challenge_get (s_challenge_id s) (ap_catalog a) = Some r \<and>
        hackathon_get (c_hackathon_id r) (ap_catalog a) = Some h \<and> h_organizer_id h = cu_id actor)" for s
    by (auto simp: authorize_view_def organizer_may_view_def split: option.splits)
  have "get_participant_view actor i a = Inr v \<longleftrightarrow>
      (\<exists>s e. submission_get i (ap_subs a) = Some s \<and> get_by_submission (ap_queue a) i = Some e \<and>
        v = to_participant_view (ap_queue a) e \<and> authorize_view actor s (ap_catalog a) = Inr ())"
    by (auto simp: get_participant_view_def get_for_submission_def try_in_def split: option.splits sum.splits)
  then show ?thesis unfolding auth .
qed

end
