(* ===== verification/Lease_Queue.thy ===== *)
theory Lease_Queue
  imports Job_Table "HOL-Library.Multiset"
begin

text \<open>
  The abstract contract of the two work queues: a table of leases. Every job is waiting, leased to
  one worker, or finished, and \<open>lease_next\<close> says which events a table allows and what they
  do to it. The locale \<open>lease_provider\<close> is the refinement contract of a queue (every
  operation, labelled with what it reports to its caller, is an allowed event); what follows
  for the histories of a queue is proved inside it once.
\<close>

section \<open>The abstract queue\<close>

datatype lease = Waiting | Leased "worker_id option" | Finished bool

type_synonym leases = "uuid \<Rightarrow> lease option"

datatype lease_event =
    Submitted uuid
  | Taken worker_id uuid
  | Completed worker_id uuid bool
  | Returned worker_id uuid
  | Kept worker_id uuid
  | Refused worker_id uuid
  | Expired "(uuid \<times> bool) list"
  | Quiet

definition expire :: "(uuid \<times> bool) list \<Rightarrow> leases \<Rightarrow> leases" where
  "expire xs L = L ++ map_of (map (\<lambda>(i, again). (i, if again then Waiting else Finished False)) xs)"

definition is_leased :: "lease option \<Rightarrow> bool" where
  "is_leased l \<longleftrightarrow> (case l of Some (Leased w) \<Rightarrow> True | _ \<Rightarrow> False)"

fun lease_next :: "lease_event \<Rightarrow> leases \<Rightarrow> leases option" where
  "lease_next (Submitted i) L = (if L i = None then Some (L(i \<mapsto> Waiting)) else None)"
| "lease_next (Taken w i) L = (if L i = Some Waiting then Some (L(i \<mapsto> Leased (Some w))) else None)"
| "lease_next (Completed w i ok) L =
     (if L i = Some (Leased (Some w)) then Some (L(i \<mapsto> Finished ok)) else None)"
| "lease_next (Returned w i) L = (if L i = Some (Leased (Some w)) then Some (L(i \<mapsto> Waiting)) else None)"
| "lease_next (Kept w i) L = (if L i = Some (Leased (Some w)) then Some L else None)"
| "lease_next (Refused w i) L = (if L i = Some (Leased (Some w)) then None else Some L)"
| "lease_next (Expired xs) L =
     (if distinct (map fst xs) \<and> list_all (\<lambda>x. is_leased (L (fst x))) xs then Some (expire xs L) else None)"
| "lease_next Quiet L = Some L"

fun lease_run :: "lease_event list \<Rightarrow> leases \<Rightarrow> leases option" where
  "lease_run [] L = Some L"
| "lease_run (ev # evs) L = (case lease_next ev L of None \<Rightarrow> None | Some M \<Rightarrow> lease_run evs M)"

text \<open>The events that change the lease of a job.\<close>

fun touches :: "uuid \<Rightarrow> lease_event \<Rightarrow> bool" where
  "touches i (Submitted j) \<longleftrightarrow> j = i"
| "touches i (Taken w j) \<longleftrightarrow> j = i"
| "touches i (Completed w j ok) \<longleftrightarrow> j = i"
| "touches i (Returned w j) \<longleftrightarrow> j = i"
| "touches i (Expired xs) \<longleftrightarrow> i \<in> fst ` set xs"
| "touches i _ \<longleftrightarrow> False"

lemma lease_run_append:
  "lease_run (xs @ ys) L = (case lease_run xs L of None \<Rightarrow> None | Some M \<Rightarrow> lease_run ys M)"
  by (induction xs arbitrary: L) (auto split: option.splits)

lemma expire_other: "i \<notin> fst ` set xs \<Longrightarrow> expire xs L i = L i"
  by (induction xs) (auto simp: expire_def map_add_def split: option.splits)

lemma expire_at:
  "distinct (map fst xs) \<Longrightarrow> (i, again) \<in> set xs \<Longrightarrow> expire xs L i = Some (if again then Waiting else Finished False)"
proof (induction xs)
  case (Cons x xs)
  show ?case
  proof (cases "x = (i, again)")
    case True
    then have "i \<notin> fst ` set xs" using Cons.prems(1) by simp
    then show ?thesis using True expire_other [of i xs L] by (simp add: expire_def map_add_def split: option.splits)
  next
    case False
    then have "(i, again) \<in> set xs" "fst x \<noteq> i" using Cons.prems by (auto simp: rev_image_eqI)
    then show ?thesis using Cons by (cases x) (simp add: expire_def map_add_def)
  qed
qed simp

lemma lease_untouched: "lease_next ev L = Some M \<Longrightarrow> \<not> touches i ev \<Longrightarrow> M i = L i"
  by (cases ev) (auto simp: expire_other split: if_splits)

lemma lease_taken:
  assumes "lease_next ev L = Some M" and "touches i ev" and "M i = Some (Leased (Some w))"
  shows "ev = Taken w i"
proof (cases ev)
  case (Expired xs)
  then obtain again where "(i, again) \<in> set xs" using assms(2) by auto
  then have "M i = Some (if again then Waiting else Finished False)"
    using Expired assms(1) by (auto simp: expire_at split: if_splits)
  then show ?thesis using assms(3) by (cases again) auto
qed (use assms in \<open>auto split: if_splits\<close>)

lemma finished_untouched:
  "lease_next ev L = Some M \<Longrightarrow> L i = Some (Finished ok) \<Longrightarrow> \<not> touches i ev"
  by (cases ev) (auto simp: list_all_iff is_leased_def split: if_splits)

text \<open>A worker holds a job because it took it and nothing happened to the job since.\<close>

lemma leased_since_taken:
  "lease_run evs Map.empty = Some L \<Longrightarrow> L i = Some (Leased (Some w)) \<Longrightarrow>
     \<exists>before since. evs = before @ Taken w i # since \<and> list_all (\<lambda>ev. \<not> touches i ev) since"
proof (induction evs arbitrary: L rule: rev_induct)
  case (snoc ev evs)
  obtain M where M: "lease_run evs Map.empty = Some M" "lease_next ev M = Some L"
    using snoc.prems(1) by (auto simp: lease_run_append split: option.splits)
  show ?case
  proof (cases "touches i ev")
    case True
    then have "ev = Taken w i" using lease_taken [OF M(2)] snoc.prems(2) by blast
    then show ?thesis by (intro exI [of _ evs] exI [of _ "[]"]) simp
  next
    case False
    then have "M i = Some (Leased (Some w))" using lease_untouched [OF M(2)] snoc.prems(2) by simp
    from snoc.IH [OF M(1) this] obtain before since
      where "evs = before @ Taken w i # since" "list_all (\<lambda>ev. \<not> touches i ev) since" by blast
    then show ?thesis using False by (intro exI [of _ before] exI [of _ "since @ [ev]"]) simp
  qed
qed simp

lemma finished_for_good:
  "lease_run evs L = Some M \<Longrightarrow> L i = Some (Finished ok) \<Longrightarrow>
     M i = Some (Finished ok) \<and> list_all (\<lambda>ev. \<not> touches i ev) evs"
proof (induction evs arbitrary: L)
  case (Cons ev evs)
  obtain N where N: "lease_next ev L = Some N" "lease_run evs N = Some M"
    using Cons.prems(1) by (auto split: option.splits)
  have "\<not> touches i ev" by (rule finished_untouched [OF N(1) Cons.prems(2)])
  then show ?case using Cons.IH [OF N(2)] lease_untouched [OF N(1)] Cons.prems(2) by simp
qed simp

lemma completion_exclusive:
  assumes "lease_run (xs @ Completed w i ok # ys) Map.empty = Some L"
  shows "L i = Some (Finished ok) \<and> list_all (\<lambda>ev. \<not> touches i ev) ys \<and>
    (\<exists>before since. xs = before @ Taken w i # since \<and> list_all (\<lambda>ev. \<not> touches i ev) since)"
proof -
  obtain M where M: "lease_run xs Map.empty = Some M" "M i = Some (Leased (Some w))"
      "lease_run ys (M(i \<mapsto> Finished ok)) = Some L"
    using assms by (auto simp: lease_run_append split: option.splits if_splits)
  then show ?thesis using leased_since_taken [OF M(1,2)] finished_for_good [OF M(3), of i ok] by simp
qed

section \<open>Leases of a table of rows\<close>

definition leases_of :: "('r \<Rightarrow> uuid) \<Rightarrow> ('r \<Rightarrow> lease) \<Rightarrow> 'r list \<Rightarrow> leases" where
  "leases_of jid lease rows = map_of (map (\<lambda>r. (jid r, lease r)) rows)"

lemma leases_of_row:
  assumes "distinct (map jid rows)" and "r \<in> set rows"
  shows "leases_of jid lease rows (jid r) = Some (lease r)"
proof -
  have "distinct (map fst (map (\<lambda>r. (jid r, lease r)) rows))" using assms(1) by (simp add: comp_def)
  then show ?thesis unfolding leases_of_def using assms(2) by (intro map_of_is_SomeI) auto
qed

lemma leases_of_none: "leases_of jid lease rows i = None \<longleftrightarrow> i \<notin> jid ` set rows"
  by (simp add: leases_of_def map_of_eq_None_iff image_image)

lemma leases_of_SomeD: "leases_of jid lease rows i = Some l \<Longrightarrow> \<exists>r\<in>set rows. jid r = i \<and> lease r = l"
  by (auto simp: leases_of_def dest!: map_of_SomeD)

lemma leases_of_update:
  assumes "distinct (map jid rows)" and "\<And>x. jid (f x) = jid x" and "r \<in> set rows"
  shows "leases_of jid lease (update_where p f rows) (jid r) = Some (lease (if p r then f r else r))"
proof -
  have "distinct (map jid (update_where p f rows))" using assms(1,2) by (simp add: map_update_where)
  moreover have "(if p r then f r else r) \<in> set (update_where p f rows)" using assms(3) by (auto simp: set_update_where)
  moreover have "jid (if p r then f r else r) = jid r" using assms(2) by simp
  ultimately show ?thesis by (metis leases_of_row)
qed

lemma leases_of_append:
  assumes "jid r \<notin> jid ` set rows"
  shows "leases_of jid lease (rows @ [r]) = (leases_of jid lease rows)(jid r \<mapsto> lease r)"
proof
  fix i
  show "leases_of jid lease (rows @ [r]) i = ((leases_of jid lease rows)(jid r \<mapsto> lease r)) i"
    using assms leases_of_none [of jid lease rows "jid r"]
    by (auto simp: leases_of_def map_add_def split: option.splits)
qed

text \<open>One row changes.\<close>

lemma leases_of_one:
  assumes "distinct (map jid rows)" and "\<And>x. jid (f x) = jid x" and "r \<in> set rows"
    and "\<And>x. x \<in> set rows \<Longrightarrow> p x \<longleftrightarrow> x = r" and "lease (f r) = l"
  shows "leases_of jid lease (update_where p f rows) = (leases_of jid lease rows)(jid r \<mapsto> l)"
proof
  fix i
  show "leases_of jid lease (update_where p f rows) i = ((leases_of jid lease rows)(jid r \<mapsto> l)) i"
  proof (cases "i \<in> jid ` set rows")
    case False
    have "set (map jid (update_where p f rows)) = set (map jid rows)" using assms(2) by (simp add: map_update_where)
    with False have "leases_of jid lease (update_where p f rows) i = None" by (simp add: leases_of_none flip: set_map)
    moreover have "leases_of jid lease rows i = None" "i \<noteq> jid r" using False assms(3) by (auto simp: leases_of_none)
    ultimately show ?thesis by simp
  next
    case True
    then obtain x where x: "x \<in> set rows" "i = jid x" by blast
    have "jid x = jid r \<longleftrightarrow> x = r" using assms(1,3) x(1) by (auto intro: distinct_key_eq)
    then show ?thesis
      using leases_of_update [OF assms(1,2) x(1), of lease p] leases_of_row [OF assms(1) x(1), of lease] assms(4,5) x
      by auto
  qed
qed

text \<open>An update guarded by the lease of one worker on one job.\<close>

lemma leases_of_guarded:
  assumes "update_returning p f rows = (r, rows')" and "distinct (map jid rows)"
    and "\<And>x. p x \<longleftrightarrow> jid x = i \<and> lease x = Leased (Some w)" and "\<And>x. jid (f x) = jid x"
    and "\<And>x. p x \<Longrightarrow> lease (f x) = l"
  shows "(if r = None then leases_of jid lease rows i \<noteq> Some (Leased (Some w)) \<and> rows' = rows
     else leases_of jid lease rows i = Some (Leased (Some w)) \<and>
       leases_of jid lease rows' = (leases_of jid lease rows)(i \<mapsto> l)) \<and> map jid rows' = map jid rows"
proof (cases r)
  case None
  then have "\<forall>x\<in>set rows. \<not> p x" using assms(1) update_returning_None_iff [of p f rows] by simp
  moreover have "rows' = rows" using None assms(1) update_returning_None [of p f rows] by simp
  ultimately show ?thesis using None assms(3) by (auto dest: leases_of_SomeD)
next
  case (Some y)
  then obtain x where x: "x \<in> set rows" "p x"
    using assms(1) update_returning_Some [of p f rows y] by force
  have e: "rows' = update_where p f rows" using assms(1) update_returning_rows [of p f rows] by simp
  have u: "\<And>z. z \<in> set rows \<Longrightarrow> p z \<longleftrightarrow> z = x"
    using x assms(2,3) by (metis distinct_key_eq)
  have o: "leases_of jid lease (update_where p f rows) = (leases_of jid lease rows)(jid x \<mapsto> l)"
    by (rule leases_of_one [where r = x]) (use assms(2,4) x u assms(5) in auto)
  show ?thesis
    using Some o leases_of_row [OF assms(2) x(1), of lease]
      x(2) assms(3) [of x] assms(4) by (simp add: e map_update_where)
qed

text \<open>Several leased rows change at once; \<open>rs\<close> are their new versions in any order.\<close>

lemma leases_of_expired:
  assumes "distinct (map jid rows)" and "\<And>x. jid (f x) = jid x" and "mset rs = mset (map f (filter p rows))"
    and "\<And>x. x \<in> set rows \<Longrightarrow> p x \<Longrightarrow> is_leased (Some (lease x))"
    and "\<And>x. x \<in> set rows \<Longrightarrow> p x \<Longrightarrow> lease (f x) = (if again (f x) then Waiting else Finished False)"
  shows "lease_next (Expired (map (\<lambda>r. (jid r, again r)) rs)) (leases_of jid lease rows) =
    Some (leases_of jid lease (update_where p f rows))"
proof -
  let ?xs = "map (\<lambda>r. (jid r, again r)) rs"
  have s: "set rs = f ` {x \<in> set rows. p x}"
    using assms(3) by (metis set_filter set_map set_mset_mset)
  have "mset (map jid rs) = mset (map jid (filter p rows))"
    using arg_cong [OF assms(3), of "image_mset jid"] assms(2) by (simp add: multiset.map_comp comp_def)
  then have "distinct (map jid rs)"
    using mset_eq_imp_distinct_iff assms(1) distinct_map_filter by blast
  then have d: "distinct (map fst ?xs)" by (simp add: comp_def)
  have l: "list_all (\<lambda>x. is_leased (leases_of jid lease rows (fst x))) ?xs"
    using assms(2,4) leases_of_row [OF assms(1), of _ lease] by (auto simp: list_all_iff s)
  have "expire ?xs (leases_of jid lease rows) i = leases_of jid lease (update_where p f rows) i" for i
  proof (cases "i \<in> jid ` set rows")
    case False
    have "set (map jid (update_where p f rows)) = set (map jid rows)" using assms(2) by (simp add: map_update_where)
    then have "leases_of jid lease (update_where p f rows) i = None"
      using False by (simp add: leases_of_none flip: set_map)
    moreover have "i \<notin> fst ` set ?xs" using False assms(2) by (auto simp: s)
    moreover have "leases_of jid lease rows i = None" using False by (simp add: leases_of_none)
    ultimately show ?thesis using expire_other [of i ?xs "leases_of jid lease rows"] by argo
  next
    case True
    then obtain x where x: "x \<in> set rows" "i = jid x" by blast
    note u = leases_of_update [OF assms(1,2) x(1), of lease p]
    show ?thesis
    proof (cases "p x")
      case True
      then have "f x \<in> set rs" using x by (auto simp: s)
      then have "(jid (f x), again (f x)) \<in> set ?xs" by simp
      then have "(i, again (f x)) \<in> set ?xs" using x assms(2) by simp
      then show ?thesis using expire_at [OF d] u True assms(5) [OF x(1)] x(2) by simp
    next
      case False
      have "i \<notin> fst ` set ?xs"
      proof
        assume "i \<in> fst ` set ?xs"
        then obtain y where y: "y \<in> set rows" "p y" "jid y = i" using assms(2) by (auto simp: s)
        then show False using False distinct_key_eq [OF assms(1) y(1) x(1)] x(2) by simp
      qed
      then show ?thesis using u False x leases_of_row [OF assms(1) x(1), of lease] by (simp add: expire_other)
    qed
  qed
  then show ?thesis using d l by (simp add: fun_eq_iff)
qed

section \<open>Refinement\<close>

locale lease_provider =
  fixes step :: "lease_event \<Rightarrow> 's \<Rightarrow> 's \<Rightarrow> bool"
    and leases :: "'s \<Rightarrow> leases"
    and ok :: "'s \<Rightarrow> bool"
  assumes step_refines: "step ev s t \<Longrightarrow> ok s \<Longrightarrow> lease_next ev (leases s) = Some (leases t)"
    and step_ok: "step ev s t \<Longrightarrow> ok s \<Longrightarrow> ok t"
begin

lemma run_refines:
  "labelled_run step evs s t \<Longrightarrow> ok s \<Longrightarrow> lease_run evs (leases s) = Some (leases t) \<and> ok t"
  by (induction rule: labelled_run.induct) (use step_refines step_ok in force)+

lemma completed_once:
  assumes "labelled_run step (xs @ Completed w i res # ys) s t" and "ok s" and "leases s = Map.empty"
  shows "leases t i = Some (Finished res) \<and> list_all (\<lambda>ev. \<not> touches i ev) ys \<and>
    (\<exists>before since. xs = before @ Taken w i # since \<and> list_all (\<lambda>ev. \<not> touches i ev) since)"
  by (rule completion_exclusive) (use run_refines [OF assms(1,2)] assms(3) in simp)

end

end
