(* ===== verification/Lease_Refinement.thy ===== *)
theory Lease_Refinement
  imports Eval_Queue Ingest_Queue Lease_Queue
begin

text \<open>
  The evaluation queue and the ingestion queue implement the abstract lease queue. Each operation
  of a repository is labelled with the event it reports to its caller: a \<open>None\<close> of a
  guarded operation is \<open>Refused\<close>, the rows a recovery returns are \<open>Expired\<close>.
\<close>

definition reported :: "'r option \<Rightarrow> lease_event \<Rightarrow> worker_id \<Rightarrow> uuid \<Rightarrow> lease_event" where
  "reported r ev w i = (if r = None then Refused w i else ev)"

section \<open>The evaluation queue\<close>

definition eval_lease :: "evaluation \<Rightarrow> lease" where
  "eval_lease e =
     (case e_status e of
        EQueued \<Rightarrow> Waiting
      | ERunning \<Rightarrow> Leased (e_worker_id e)
      | ESucceeded \<Rightarrow> Finished True
      | EFailed \<Rightarrow> Finished False)"

definition eval_leases :: "equeue \<Rightarrow> leases" where
  "eval_leases q = leases_of e_id eval_lease (evals q)"

inductive eval_event :: "lease_event \<Rightarrow> equeue \<Rightarrow> equeue \<Rightarrow> bool" where
  event_create: "create_queued now fresh sid cls mode dl stage q = Inr (e, q') \<Longrightarrow>
    eval_event (Submitted (e_id e)) q q'"
| event_claim: "claim_next now w pol mw hl bl q = (r, q') \<Longrightarrow>
    eval_event (case r of None \<Rightarrow> Quiet | Some e \<Rightarrow> Taken w (e_id e)) q q'"
| event_defer: "defer_escalation i w stage cls md q = (r, q') \<Longrightarrow>
    eval_event (reported r (Returned w i) w i) q q'"
| event_release: "release_for_retry i w md why q = (r, q') \<Longrightarrow>
    eval_event (reported r (Returned w i) w i) q q'"
| event_succeed: "mark_succeeded now i w score md q = (r, q') \<Longrightarrow>
    eval_event (reported r (Completed w i True) w i) q q'"
| event_fail: "mark_failed now i w why md' q = (r, q') \<Longrightarrow>
    eval_event (reported r (Completed w i False) w i) q q'"
| event_attempt: "begin_execution_attempt i w att q = (r, q') \<Longrightarrow>
    eval_event (reported r (Kept w i) w i) q q'"
| event_recover: "recover_stale_running now before n os_of q = (rs, q') \<Longrightarrow>
    eval_event (Expired (map (\<lambda>e. (e_id e, e_status e = EQueued)) rs)) q q'"
| event_pressure: "eval_event Quiet q (persist_runtime_state p k q)"
| event_hint: "eval_event Quiet q (persist_interactive_hint p95 n pw q)"

lemma owned_running_lease: "owned_running i w e \<longleftrightarrow> e_id e = i \<and> eval_lease e = Leased (Some w)"
  by (auto simp: owned_running_def eval_lease_def split: evaluation_status.splits)

lemma eval_guarded:
  assumes "on_evals (owned_running i w) f q = (r, q')" and "ids_unique q"
    and "\<And>e. e_id (f e) = e_id e" and "\<And>e. owned_running i w e \<Longrightarrow> eval_lease (f e) = l"
    and "\<And>L. L i = Some (Leased (Some w)) \<Longrightarrow> lease_next ev L = Some (L(i \<mapsto> l))"
  shows "lease_next (reported r ev w i) (eval_leases q) = Some (eval_leases q') \<and> ids_unique q'"
proof -
  obtain rows' where u: "update_returning (owned_running i w) f (evals q) = (r, rows')" "q' = q\<lparr>evals := rows'\<rparr>"
    using assms(1) by (auto simp: on_evals_def split: prod.splits)
  have d: "distinct (map e_id (evals q))" using assms(2) by (simp add: ids_unique_def)
  show ?thesis
    using leases_of_guarded [OF u(1) d owned_running_lease assms(3,4)] assms(5) d u(2)
    by (auto simp: reported_def eval_leases_def ids_unique_def split: if_splits)
qed

lemma eval_event_refines:
  assumes "eval_event ev q q'" and "ids_unique q"
  shows "lease_next ev (eval_leases q) = Some (eval_leases q') \<and> ids_unique q'"
  using assms(1)
proof cases
  case (event_create now fresh sid cls mode dl stage e)
  then have n: "e_id e \<notin> e_id ` set (evals q)" "q' = q\<lparr>evals := evals q @ [e]\<rparr>" "eval_lease e = Waiting"
    by (auto simp: create_queued_def Let_def eval_lease_def split: if_splits)
  then have "eval_leases q' = (eval_leases q)(e_id e \<mapsto> Waiting)"
    using leases_of_append [of e_id e "evals q" eval_lease] by (simp add: eval_leases_def)
  moreover have "eval_leases q (e_id e) = None" using n(1) by (simp add: eval_leases_def leases_of_none)
  ultimately show ?thesis using event_create(1) n assms(2) by (simp add: ids_unique_def)
next
  case (event_claim now w pol mw hl bl r)
  show ?thesis
  proof (cases rule: claim_effect [of now w pol mw hl bl q])
    case (refused st)
    then show ?thesis using event_claim assms(2) by (simp add: eval_leases_def ids_unique_def)
  next
    case (taken row st q0)
    have row: "row \<in> set (evals q)" "e_status row = EQueued" using taken(3) by (auto simp: is_queued_def)
    have q': "evals q' = update_where (\<lambda>e. e_id e = e_id row) (claim_row now w) (evals q)"
        "r = Some (claim_row now w row)"
      using taken(1,2) event_claim by (auto simp: take_row_def)
    have d: "distinct (map e_id (evals q))" using assms(2) by (simp add: ids_unique_def)
    have "eval_leases q' = (eval_leases q)(e_id row \<mapsto> Leased (Some w))"
      unfolding eval_leases_def q'(1)
      by (rule leases_of_one [OF d _ row(1)]) (use d row in \<open>auto simp: eval_lease_def claim_row_def intro: distinct_key_eq\<close>)
    moreover have "eval_leases q (e_id row) = Some Waiting"
      using leases_of_row [OF d row(1), of eval_lease] row(2) by (simp add: eval_leases_def eval_lease_def)
    ultimately show ?thesis
      using event_claim(1) q' d by (simp add: claim_row_def ids_unique_def map_update_where)
  qed
next
  case (event_recover now before n os_of rs)
  let ?f = "\<lambda>e. recover_row now n (os_of (e_id e)) e"
  have d: "distinct (map e_id (evals q))" using assms(2) by (simp add: ids_unique_def)
  have q': "rs = map ?f (filter (is_stale before) (evals q))" "evals q' = update_where (is_stale before) ?f (evals q)"
    using event_recover(2) by (auto simp: recover_stale_running_def Let_def)
  have "eval_lease (?f e) = (if e_status (?f e) = EQueued then Waiting else Finished False)" for e
    using recover_row_sel(2) [of now n "os_of (e_id e)" e] by (auto simp: eval_lease_def)
  then show ?thesis
    unfolding event_recover(1) eval_leases_def q'(2) ids_unique_def
    using d leases_of_expired [of e_id "evals q" ?f rs "is_stale before" eval_lease "\<lambda>e. e_status e = EQueued"]
    by (simp add: q'(1) map_update_where is_stale_def eval_lease_def is_leased_def)
next
  case (event_defer i w stage cls md r)
  show ?thesis
    unfolding event_defer(1)
    by (rule eval_guarded [OF event_defer(2) [unfolded defer_escalation_def] assms(2)])
      (auto simp: eval_lease_def owned_running_def Let_def fun_upd_idem)
next
  case (event_release i w md why r)
  show ?thesis
    unfolding event_release(1)
    by (rule eval_guarded [OF event_release(2) [unfolded release_for_retry_def] assms(2)])
      (auto simp: eval_lease_def owned_running_def Let_def fun_upd_idem)
next
  case (event_succeed now i w score md r)
  show ?thesis
    unfolding event_succeed(1)
    by (rule eval_guarded [OF event_succeed(2) [unfolded mark_succeeded_def] assms(2)])
      (auto simp: eval_lease_def owned_running_def Let_def fun_upd_idem)
next
  case (event_fail now i w why md' r)
  show ?thesis
    unfolding event_fail(1)
    by (rule eval_guarded [OF event_fail(2) [unfolded mark_failed_def] assms(2)])
      (auto simp: eval_lease_def owned_running_def Let_def fun_upd_idem)
next
  case (event_attempt i w att r)
  show ?thesis
    unfolding event_attempt(1)
    by (rule eval_guarded [OF event_attempt(2) [unfolded begin_execution_attempt_def] assms(2)])
      (auto simp: eval_lease_def owned_running_def Let_def fun_upd_idem)
qed (use assms(2) in \<open>auto simp: persist_runtime_state_def persist_interactive_hint_def eval_leases_def ids_unique_def\<close>)

interpretation eval_provider: lease_provider eval_event eval_leases ids_unique
  by unfold_locales (use eval_event_refines in blast)+

text \<open>
  C13. The evaluation queue refines the abstract lease queue: every sequence of repository calls, with any
  arguments and by any workers, is a run of the abstract queue on the leases of the table, with the
  results the calls report.
\<close>

theorem evaluation_queue_refines:
  assumes "labelled_run eval_event evs q q'" and "ids_unique q"
  shows "lease_run evs (eval_leases q) = Some (eval_leases q')"
  using eval_provider.run_refines [OF assms] by simp

text \<open>
  C14. In every history of the evaluation queue a reported completion is the work of the worker that
  took the evaluation last and held it since, with no other claim, return or expiry in between; and
  nothing happens to the evaluation afterwards.
\<close>

theorem evaluation_completed_once:
  assumes "labelled_run eval_event (xs @ Completed w i res # ys) q q'" and "evals q = []"
  shows "eval_leases q' i = Some (Finished res) \<and> list_all (\<lambda>ev. \<not> touches i ev) ys \<and>
    (\<exists>before since. xs = before @ Taken w i # since \<and> list_all (\<lambda>ev. \<not> touches i ev) since)"
  using eval_provider.completed_once [OF assms(1)] assms(2)
  by (simp add: ids_unique_def eval_leases_def leases_of_def)

definition queued_one :: evaluation where
  "queued_one = \<lparr>e_id = 1, e_submission_id = 9, e_status = EQueued, e_created_at = 0,
     e_started_at = None, e_completed_at = None, e_attempt_count = 0, e_failure_reason = None,
     e_score = None, e_result_metadata = [], e_worker_id = None,
     e_workload_class = Light, e_current_stage = 0, e_mode = ''fixed'', e_deadline_at = None\<rparr>"

lemma completed_run:
  "\<exists>q'. labelled_run eval_event ([Submitted 1, Taken ''a'' 1] @ Completed ''a'' 1 True # [Refused ''a'' 1])
     \<lparr>evals = [], sched = None\<rparr> q'"
proof -
  let ?q0 = "\<lparr>evals = [], sched = None\<rparr>"
  let ?q1 = "\<lparr>evals = [queued_one], sched = None\<rparr>"
  have 1: "create_queued 0 1 9 Light ''fixed'' None 0 ?q0 = Inr (queued_one, ?q1)"
    by (simp add: create_queued_def queued_one_def Let_def)
  obtain q2 where 2: "claim_next 1 ''a'' ''fifo'' 2 1 1 ?q1 = (Some (claim_row 1 ''a'' queued_one), q2)"
      "evals q2 = [claim_row 1 ''a'' queued_one]"
    by (simp add: claim_next_def Let_def running_count_def queued_fifo_def is_queued_def queued_one_def take_row_def
        update_where_def)
  obtain r3 q3 where 3: "mark_succeeded 2 1 ''a'' 100 [] q2 = (Some r3, q3)" "evals q3 = [r3]" "e_status r3 = ESucceeded"
    using 2(2) by (simp add: mark_succeeded_def on_evals_def update_returning_def owned_running_def claim_row_def
        queued_one_def update_where_def)
  have 4: "mark_failed 3 1 ''a'' ''late'' None q3 = (None, q3)"
    using 3(2,3) by (simp add: mark_failed_def on_evals_def update_returning_def owned_running_def)
  show ?thesis
    using run_cons [where R = eval_event, OF event_create [OF 1] run_cons [where R = eval_event, OF event_claim [OF 2(1)]
      run_cons [where R = eval_event, OF event_succeed [OF 3(1)] run_cons [where R = eval_event, OF event_fail [OF 4] run_nil [where R = eval_event]]]]]
    by (auto simp: reported_def claim_row_def queued_one_def)
qed

theorem evaluation_queue_refines_witness:
  "\<exists>q'. lease_run [Submitted 1, Taken ''a'' 1, Completed ''a'' 1 True, Refused ''a'' 1] Map.empty = Some (eval_leases q')"
proof -
  obtain q' where q': "labelled_run eval_event ([Submitted 1, Taken ''a'' 1] @ Completed ''a'' 1 True # [Refused ''a'' 1])
     \<lparr>evals = [], sched = None\<rparr> q'" using completed_run by blast
  have "ids_unique \<lparr>evals = [], sched = None\<rparr>" by (simp add: ids_unique_def)
  moreover have "eval_leases \<lparr>evals = [], sched = None\<rparr> = Map.empty" by (simp add: eval_leases_def leases_of_def)
  ultimately show ?thesis using evaluation_queue_refines [OF q'] unfolding append.simps by metis
qed

theorem evaluation_completed_once_witness:
  "\<exists>q'. eval_leases q' 1 = Some (Finished True)"
proof -
  obtain q' where q': "labelled_run eval_event ([Submitted 1, Taken ''a'' 1] @ Completed ''a'' 1 True # [Refused ''a'' 1])
     \<lparr>evals = [], sched = None\<rparr> q'" using completed_run by blast
  from evaluation_completed_once [OF q'] show ?thesis by auto
qed

section \<open>The ingestion queue\<close>

definition ingest_lease :: "ingestion_job \<Rightarrow> lease" where
  "ingest_lease j =
     (case j_status j of
        IQueued \<Rightarrow> Waiting
      | IRunning \<Rightarrow> Leased (j_worker_id j)
      | ISucceeded \<Rightarrow> Finished True
      | IFailed \<Rightarrow> Finished False)"

definition ingest_leases :: "ingestion_job list \<Rightarrow> leases" where
  "ingest_leases = leases_of j_id ingest_lease"

inductive ingest_event :: "lease_event \<Rightarrow> ingestion_job list \<Rightarrow> ingestion_job list \<Rightarrow> bool" where
  event_enqueue: "enqueue now fresh sid key jobs = Inr (j, jobs') \<Longrightarrow>
    ingest_event (Submitted (j_id j)) jobs jobs'"
| event_claim_job: "claim_next_job now w jobs = (r, jobs') \<Longrightarrow>
    ingest_event (case r of None \<Rightarrow> Quiet | Some j \<Rightarrow> Taken w (j_id j)) jobs jobs'"
| event_succeed_job: "succeed_job now i w key jobs = (r, jobs') \<Longrightarrow>
    ingest_event (reported r (Completed w i True) w i) jobs jobs'"
| event_fail_job: "fail_job now i w code msg jobs = (r, jobs') \<Longrightarrow>
    ingest_event (reported r (Completed w i False) w i) jobs jobs'"
| event_retry_job: "retry_job now i w code msg dl jobs = (r, jobs') \<Longrightarrow>
    ingest_event (reported r (Returned w i) w i) jobs jobs'"
| event_recover_jobs: "recover_stale_jobs now before mx jobs = (rs, jobs') \<Longrightarrow>
    ingest_event (Expired (map (\<lambda>j. (j_id j, j_status j = IQueued)) rs)) jobs jobs'"

lemma owned_job_lease: "owned_job i w j \<longleftrightarrow> j_id j = i \<and> ingest_lease j = Leased (Some w)"
  by (auto simp: owned_job_def ingest_lease_def split: ingestion_status.splits)

lemma ingest_guarded:
  assumes "update_returning (owned_job i w) f jobs = (r, jobs')" and "job_ids_unique jobs"
    and "\<And>j. j_id (f j) = j_id j" and "\<And>j. owned_job i w j \<Longrightarrow> ingest_lease (f j) = l"
    and "\<And>L. L i = Some (Leased (Some w)) \<Longrightarrow> lease_next ev L = Some (L(i \<mapsto> l))"
  shows "lease_next (reported r ev w i) (ingest_leases jobs) = Some (ingest_leases jobs') \<and> job_ids_unique jobs'"
proof -
  have d: "distinct (map j_id jobs)" using assms(2) by (simp add: job_ids_unique_def)
  show ?thesis
    using leases_of_guarded [OF assms(1) d owned_job_lease assms(3,4)] assms(5) d
    by (auto simp: reported_def ingest_leases_def job_ids_unique_def split: if_splits)
qed

lemma ingest_event_refines:
  assumes "ingest_event ev jobs jobs'" and "job_ids_unique jobs"
  shows "lease_next ev (ingest_leases jobs) = Some (ingest_leases jobs') \<and> job_ids_unique jobs'"
  using assms(1)
proof cases
  case (event_enqueue now fresh sid key j)
  then have n: "j_id j \<notin> j_id ` set jobs" "jobs' = jobs @ [j]" "ingest_lease j = Waiting"
    by (auto simp: enqueue_def Let_def ingest_lease_def split: if_splits)
  then have "ingest_leases jobs' = (ingest_leases jobs)(j_id j \<mapsto> Waiting)"
    using leases_of_append [of j_id j jobs ingest_lease] by (simp add: ingest_leases_def)
  moreover have "ingest_leases jobs (j_id j) = None" using n(1) by (simp add: ingest_leases_def leases_of_none)
  ultimately show ?thesis using event_enqueue(1) n assms(2) by (simp add: job_ids_unique_def)
next
  case (event_claim_job now w r)
  have d: "distinct (map j_id jobs)" using assms(2) by (simp add: job_ids_unique_def)
  show ?thesis
  proof (cases r)
    case None
    then show ?thesis using claim_job_spec [OF event_claim_job(2)] event_claim_job(1) assms(2) by simp
  next
    case (Some c)
    then obtain j where j: "j \<in> set jobs" "j_status j = IQueued" "c = claim_job now w j"
        "jobs' = update_where (\<lambda>x. j_id x = j_id j) (claim_job now w) jobs"
      using claim_job_spec [OF event_claim_job(2)] by auto
    have "ingest_leases jobs' = (ingest_leases jobs)(j_id j \<mapsto> Leased (Some w))"
      unfolding ingest_leases_def j(4)
      by (rule leases_of_one [OF d _ j(1)])
        (use d j(1) in \<open>auto simp: ingest_lease_def claim_job_def intro: distinct_key_eq\<close>)
    moreover have "ingest_leases jobs (j_id j) = Some Waiting"
      using leases_of_row [OF d j(1), of ingest_lease] j(2) by (simp add: ingest_leases_def ingest_lease_def)
    ultimately show ?thesis
      using event_claim_job(1) Some j d by (simp add: job_ids_unique_def map_update_where)
  qed
next
  case (event_recover_jobs now before mx rs)
  let ?f = "recover_job now mx"
  have d: "distinct (map j_id jobs)" using assms(2) by (simp add: job_ids_unique_def)
  have q': "mset rs = mset (map ?f (filter (stale_job before) jobs))" "jobs' = update_where (stale_job before) ?f jobs"
    using event_recover_jobs(2) by (auto simp: recover_stale_jobs_def)
  have "ingest_lease (?f j) = (if j_status (?f j) = IQueued then Waiting else Finished False)" for j
    using recover_job_sel(2) [of now mx j] by (auto simp: ingest_lease_def)
  then show ?thesis
    unfolding event_recover_jobs(1) ingest_leases_def q'(2) job_ids_unique_def
    using d leases_of_expired [of j_id jobs ?f rs "stale_job before" ingest_lease "\<lambda>j. j_status j = IQueued"]
    by (simp add: q'(1) map_update_where stale_job_def ingest_lease_def is_leased_def)
next
  case (event_succeed_job now i w key r)
  show ?thesis
    unfolding event_succeed_job(1)
    by (rule ingest_guarded [OF event_succeed_job(2) [unfolded succeed_job_def] assms(2)]) (auto simp: ingest_lease_def)
next
  case (event_fail_job now i w code msg r)
  show ?thesis
    unfolding event_fail_job(1)
    by (rule ingest_guarded [OF event_fail_job(2) [unfolded fail_job_def] assms(2)]) (auto simp: ingest_lease_def)
next
  case (event_retry_job now i w code msg dl r)
  show ?thesis
    unfolding event_retry_job(1)
    by (rule ingest_guarded [OF event_retry_job(2) [unfolded retry_job_def] assms(2)]) (auto simp: ingest_lease_def)
qed

interpretation ingest_provider: lease_provider ingest_event ingest_leases job_ids_unique
  by unfold_locales (use ingest_event_refines in blast)+

text \<open>
  C17. The ingestion queue refines the same abstract queue, and its completions are exclusive in the same
  sense: a worker that reports a success took the job last and held it since, and the job is never
  touched again.
\<close>

theorem ingestion_queue_refines:
  assumes "labelled_run ingest_event evs [] jobs"
  shows "lease_run evs Map.empty = Some (ingest_leases jobs) \<and>
    (\<forall>xs w i res ys. evs = xs @ Completed w i res # ys \<longrightarrow>
       ingest_leases jobs i = Some (Finished res) \<and> list_all (\<lambda>ev. \<not> touches i ev) ys \<and>
       (\<exists>before since. xs = before @ Taken w i # since \<and> list_all (\<lambda>ev. \<not> touches i ev) since))"
proof -
  have e: "job_ids_unique []" "ingest_leases [] = Map.empty"
    by (simp_all add: job_ids_unique_def ingest_leases_def leases_of_def)
  then have "lease_run evs Map.empty = Some (ingest_leases jobs)"
    using ingest_provider.run_refines [OF assms e(1)] by simp
  moreover have "ingest_leases jobs i = Some (Finished res) \<and> list_all (\<lambda>ev. \<not> touches i ev) ys \<and>
       (\<exists>before since. xs = before @ Taken w i # since \<and> list_all (\<lambda>ev. \<not> touches i ev) since)"
    if "evs = xs @ Completed w i res # ys" for xs w i res ys
    using ingest_provider.completed_once [OF assms [unfolded that] e] .
  ultimately show ?thesis by blast
qed

theorem ingestion_queue_refines_witness:
  "\<exists>jobs. lease_run [Submitted 1, Taken ''a'' 1, Returned ''a'' 1] Map.empty = Some (ingest_leases jobs)"
proof -
  let ?j = "example_job 1 0"
  let ?c = "claim_job 1 ''a'' ?j"
  obtain j where 1: "enqueue 0 1 1 ''submissions/a'' [] = Inr (j, [j])" "j = ?j"
    by (simp add: enqueue_def example_job_def Let_def)
  have 2: "claim_next_job 1 ''a'' [?j] = (Some ?c, [?c])"
    by (simp add: claim_next_job_def claimable_def example_job_def update_where_def)
  obtain r jobs where 3: "retry_job 2 1 ''a'' ''c'' ''m'' 0 [?c] = (Some r, jobs)"
    by (simp add: retry_job_def update_returning_def owned_job_def claim_job_def example_job_def)
  have "labelled_run ingest_event [Submitted 1, Taken ''a'' 1, Returned ''a'' 1] [] jobs"
    using run_cons [where R = ingest_event, OF event_enqueue [OF 1(1)] run_cons [where R = ingest_event, OF event_claim_job [OF 2 [folded 1(2)]]
      run_cons [where R = ingest_event, OF event_retry_job [OF 3 [folded 1(2)]] run_nil [where R = ingest_event]]]]
    by (simp add: reported_def claim_job_def example_job_def 1(2))
  from ingestion_queue_refines [OF this] show ?thesis by blast
qed

end
