(* ===== verification/Platform.thy ===== *)
theory Platform
  imports Submissions Lease_Refinement
begin

text \<open>
  The platform as a whole: requests of the submission service, cut at their commits and storage
  writes, interleave with each other, with crashes of any of them, with the catalog services and
  with the workers of both queues. \<open>step_crash\<close> drops a request between two steps, \<open>step_torn\<close> inside a write: the blob's path, its
  temporary file and its sidecar are then anything. \<open>create_lock\<close> and \<open>create_insert\<close> are one transaction: while a
  request is between them it holds the shared lock of its challenge, so no call may change that
  row. The identifiers drawn for blobs are recorded in \<open>pf_blobs\<close> and never drawn twice.
\<close>

section \<open>The interleaving\<close>

datatype request_phase =
    QIdle
  | QCreate create_request
  | QLocked create_request "string option"
  | QUpdate current_user submission
  | QReplace submission "dict option" "string option"
  | QDrop "string option" uuid "string option"
  | QUndo "string option"
  | QEnqueue uuid "string option"

record platform =
  pf_app :: app
  pf_files :: files
  pf_phase :: "nat \<Rightarrow> request_phase"
  pf_blobs :: "(uuid \<times> string) list"

definition enter :: "nat \<Rightarrow> request_phase \<Rightarrow> platform \<Rightarrow> platform" where
  "enter r ph s = s\<lparr>pf_phase := (pf_phase s)(r := ph)\<rparr>"

definition fresh_blob :: "uuid \<Rightarrow> platform \<Rightarrow> bool" where
  "fresh_blob u s \<longleftrightarrow> uuid_ok u \<and> u \<notin> fst ` set (pf_blobs s)"

definition file_name_of :: "artifact option \<Rightarrow> string option" where
  "file_name_of art = (case art of None \<Rightarrow> None | Some x \<Rightarrow> af_filename x)"

text \<open>A request went on after a write to the store with the fresh identifier \<open>u\<close>.\<close>

definition wrote :: "nat \<Rightarrow> uuid \<Rightarrow> string \<Rightarrow> files \<Rightarrow> request_phase \<Rightarrow> platform \<Rightarrow> platform" where
  "wrote r u key fs ph s =
     enter r ph (s\<lparr>pf_files := fs, pf_blobs := (u, key) # pf_blobs s\<rparr>)"

definition locked_challenge :: "request_phase \<Rightarrow> uuid option" where
  "locked_challenge ph = (case ph of QLocked rq k \<Rightarrow> Some (cq_challenge rq) | _ \<Rightarrow> None)"

inductive platform_step :: "app_env \<Rightarrow> settings \<Rightarrow> platform \<Rightarrow> platform \<Rightarrow> bool" for env st where
  step_create_begin: "pf_phase s r = QIdle \<Longrightarrow>
    create_begin env st actor ch md idem art (ap_subs (pf_app s)) = Inr (Inr rq) \<Longrightarrow>
    platform_step env st s (enter r (QCreate rq) s)"
| step_create_lock: "pf_phase s r = QCreate rq \<Longrightarrow> fresh_blob u s \<Longrightarrow>
    create_lock st t u rq (ap_catalog (pf_app s)) (pf_files s) = (res, fs) \<Longrightarrow>
    platform_step env st s (wrote r u
      (artifact_key_for (cq_challenge rq) (cq_actor rq) u (file_name_of (cq_artifact rq))) fs
      (case res of Inl e \<Rightarrow> QIdle | Inr k \<Rightarrow> QLocked rq k) s)"
| step_create_insert: "pf_phase s r = QLocked rq k \<Longrightarrow>
    create_insert fault now u rq k (pf_app s) = Inr (row, a) \<Longrightarrow>
    platform_step env st s (enter r (QEnqueue (s_id row) k) (s\<lparr>pf_app := a\<rparr>))"
| step_create_refused: "pf_phase s r = QLocked rq k \<Longrightarrow>
    create_insert fault now u rq k (pf_app s) = Inl e \<Longrightarrow>
    platform_step env st s (enter r (QUndo k) s)"
| step_undo: "pf_phase s r = QUndo k \<Longrightarrow>
    platform_step env st s (enter r QIdle (s\<lparr>pf_files := snd (compensate_delete k (pf_files s))\<rparr>))"
| step_enqueue: "pf_phase s r = QEnqueue sid k \<Longrightarrow>
    enqueue_artifact st fault now u sid k (pf_app s) = (res, a) \<Longrightarrow>
    platform_step env st s (enter r QIdle (s\<lparr>pf_app := a\<rparr>))"
| step_update_begin: "pf_phase s r = QIdle \<Longrightarrow> update_begin actor i (ap_subs (pf_app s)) = Inr row \<Longrightarrow>
    platform_step env st s (enter r (QUpdate actor row) s)"
| step_update_publish: "pf_phase s r = QUpdate actor row \<Longrightarrow> fresh_blob u s \<Longrightarrow>
    update_publish env st t u actor row md art (pf_files s) = (res, fs) \<Longrightarrow>
    platform_step env st s (wrote r u (artifact_key_for (s_challenge_id row) (cu_id actor) u (file_name_of art)) fs
      (case res of Inl e \<Rightarrow> QIdle | Inr (md', k) \<Rightarrow> QReplace row md' k) s)"
| step_attach_publish: "pf_phase s r = QUpdate actor row \<Longrightarrow> fresh_blob u s \<Longrightarrow>
    in_path up = incoming_root @ [nm] \<Longrightarrow>
    attach_publish st t u actor row up fn (pf_files s) = (res, up', fs) \<Longrightarrow>
    platform_step env st s (wrote r u (artifact_key_for (s_challenge_id row) (cu_id actor) u fn) fs
      (case res of Inl e \<Rightarrow> QIdle | Inr k \<Rightarrow> QReplace row None (Some k)) s)"
| step_replace_commit: "pf_phase s r = QReplace row md k \<Longrightarrow>
    platform_step env st s (enter r (QDrop (superseded row k) (s_id row) k)
      (s\<lparr>pf_app := replace_commit now row md k (pf_app s)\<rparr>))"
| step_replace_fault: "pf_phase s r = QReplace row md k \<Longrightarrow> platform_step env st s (enter r (QUndo k) s)"
| step_drop: "pf_phase s r = QDrop old sid k \<Longrightarrow>
    platform_step env st s (enter r (QEnqueue sid k) (s\<lparr>pf_files := snd (compensate_delete old (pf_files s))\<rparr>))"
| step_submit: "submit_submission env st fault now u actor i (pf_app s) = (sr, a) \<Longrightarrow>
    platform_step env st s (s\<lparr>pf_app := a\<rparr>)"
| step_cancel: "cancel_submission fault now actor i (pf_app s) = (cr, a) \<Longrightarrow>
    platform_step env st s (s\<lparr>pf_app := a\<rparr>)"
| step_catalog: "catalog_call actor (ap_catalog (pf_app s)) c \<Longrightarrow>
    (\<And>r i. locked_challenge (pf_phase s r) = Some i \<Longrightarrow> challenge_row i c = challenge_row i (ap_catalog (pf_app s))) \<Longrightarrow>
    platform_step env st s (s\<lparr>pf_app := (pf_app s)\<lparr>ap_catalog := c\<rparr>\<rparr>)"
| step_evaluation: "eval_event ev (ap_queue (pf_app s)) q \<Longrightarrow> (\<And>i. ev \<noteq> Submitted i) \<Longrightarrow>
    platform_step env st s (s\<lparr>pf_app := (pf_app s)\<lparr>ap_queue := q\<rparr>\<rparr>)"
| step_ingestion: "ingest_event ev (ap_jobs (pf_app s)) jobs \<Longrightarrow> (\<And>i. ev \<noteq> Submitted i) \<Longrightarrow>
    platform_step env st s (s\<lparr>pf_app := (pf_app s)\<lparr>ap_jobs := jobs\<rparr>\<rparr>)"
| step_other_files: "(\<And>q. q \<noteq> [] \<Longrightarrow> hd q = ''submissions'' \<Longrightarrow> map_of fs q = map_of (pf_files s) q) \<Longrightarrow>
    platform_step env st s (s\<lparr>pf_files := fs\<rparr>)"
| step_crash: "platform_step env st s (enter r QIdle s)"
| step_torn: "fresh_blob u s \<Longrightarrow> key = artifact_key_for ch w u f \<Longrightarrow> resolve key = Inr p \<Longrightarrow>
    (\<And>q. apart q p \<Longrightarrow> read_file fs q = read_file (pf_files s) q) \<Longrightarrow>
    platform_step env st s (wrote r u key fs QIdle s)"

section \<open>What the steps write\<close>

lemma put_effect:
  assumes "put now k d ct fs = (res, fs')" and "resolve k = Inr p" and "p \<noteq> []"
  shows "(\<forall>x. res = Inr x \<longrightarrow> x = k \<and> read_file fs' p = Some d) \<and>
    (apart q p \<longrightarrow> read_file fs' q = read_file fs q)"
proof -
  obtain ok fs2 where r: "run_steps now (put_steps p d ct) fs = (ok, fs2)" by force
  show ?thesis
    using assms r put_steps_read [OF r, of q] by (cases ok) (auto simp: put_def finish_put_def)
qed

lemma put_from_path_effect:
  assumes "put_from_path now k src ct fs = (res, fs')" and "resolve k = Inr p" and "p \<noteq> []" and "src \<noteq> tmp_of p"
  shows "(\<forall>x. res = Inr x \<longrightarrow> x = k \<and> read_file fs' p = read_file fs src \<and> read_file fs src \<noteq> None) \<and>
    (apart q p \<and> q \<noteq> src \<longrightarrow> read_file fs' q = read_file fs q)"
proof (cases "is_file fs src")
  case True
  obtain ok fs2 where r: "run_steps now (move_steps fs src p ct) fs = (ok, fs2)" by force
  have "read_file fs src \<noteq> None" using True by (simp add: is_file_iff_read)
  then show ?thesis
    using assms True r move_steps_read [OF r assms(4), of q]
    by (cases ok) (auto simp: put_from_path_def finish_put_def)
next
  case False
  then show ?thesis using assms(1,2) by (auto simp: put_from_path_def)
qed

lemma compensate_effect:
  assumes "resolve k = Inr p" and "apart q p"
  shows "read_file (snd (compensate_delete (Some k) fs)) q = read_file fs q"
  using assms by (auto simp: compensate_delete_def delete_blob_def remove_file_def apart_def split: sum.splits)

lemma compensate_None [simp]: "compensate_delete None fs = (False, fs)"
  by (simp add: compensate_delete_def)

section \<open>Blobs and their roles\<close>

text \<open>
  Every key that was ever drawn has a role: a request holds it, a row refers to it, or it is dead.
\<close>

datatype role = RHeld nat | RRow uuid | RDead

fun pending_key :: "request_phase \<Rightarrow> string option" where
  "pending_key (QLocked rq k) = k"
| "pending_key (QReplace row md k) = k"
| "pending_key (QUndo k) = k"
| "pending_key _ = None"

definition undoing :: "request_phase \<Rightarrow> bool" where
  "undoing ph \<longleftrightarrow> (case ph of QUndo k \<Rightarrow> True | _ \<Rightarrow> False)"

fun seen :: "request_phase \<Rightarrow> submission option" where
  "seen (QUpdate actor row) = Some row"
| "seen (QReplace row md k) = Some row"
| "seen _ = None"

fun dropping :: "request_phase \<Rightarrow> string option" where
  "dropping (QDrop old sid k) = old"
| "dropping _ = None"

definition stored :: "string \<Rightarrow> files \<Rightarrow> bool" where
  "stored k fs \<longleftrightarrow> (case resolve k of Inl e \<Rightarrow> False | Inr p \<Rightarrow> read_file fs p \<noteq> None)"

definition known :: "platform \<Rightarrow> string \<Rightarrow> bool" where
  "known s k \<longleftrightarrow> k \<in> snd ` set (pf_blobs s)"

definition blobs_ok :: "(uuid \<times> string) list \<Rightarrow> bool" where
  "blobs_ok bs \<longleftrightarrow> distinct (map fst bs) \<and>
     (\<forall>b\<in>set bs. uuid_ok (fst b) \<and> (\<exists>p. resolve (snd b) = Inr p \<and> blob_path (fst b) p \<and> hd p = ''submissions''))"

definition rows_ok :: "(string \<Rightarrow> role) \<Rightarrow> platform \<Rightarrow> bool" where
  "rows_ok ro s \<longleftrightarrow> (\<forall>x\<in>set (ap_subs (pf_app s)). \<forall>k. s_artifact_key x = Some k \<longrightarrow>
     ro k = RRow (s_id x) \<and> known s k \<and> stored k (pf_files s))"

definition phase_role_ok :: "(string \<Rightarrow> role) \<Rightarrow> platform \<Rightarrow> nat \<Rightarrow> request_phase \<Rightarrow> bool" where
  "phase_role_ok ro s r ph \<longleftrightarrow>
     (\<forall>k. pending_key ph = Some k \<longrightarrow> ro k = RHeld r \<and> known s k \<and> (undoing ph \<or> stored k (pf_files s))) \<and>
     (\<forall>row k. seen ph = Some row \<longrightarrow> s_artifact_key row = Some k \<longrightarrow> ro k \<in> {RRow (s_id row), RDead} \<and> known s k) \<and>
     (\<forall>k. dropping ph = Some k \<longrightarrow> ro k = RDead \<and> known s k)"

definition blob_inv :: "(string \<Rightarrow> role) \<Rightarrow> platform \<Rightarrow> bool" where
  "blob_inv ro s \<longleftrightarrow> blobs_ok (pf_blobs s) \<and> distinct (map s_id (ap_subs (pf_app s))) \<and> rows_ok ro s \<and>
     (\<forall>r. phase_role_ok ro s r (pf_phase s r))"

lemma known_path:
  assumes "blobs_ok bs" and "(u, k) \<in> set bs"
  shows "uuid_ok u \<and> (\<exists>p. resolve k = Inr p \<and> blob_path u p \<and> hd p = ''submissions'')"
  using assms by (auto simp: blobs_ok_def)

lemma known_paths:
  assumes "blobs_ok bs" and "(u, k) \<in> set bs" and "(v, l) \<in> set bs" and "u \<noteq> v"
  obtains p q where "resolve k = Inr p" and "resolve l = Inr q" and "apart p q"
proof -
  obtain p q where "resolve k = Inr p" "blob_path u p" "resolve l = Inr q" "blob_path v q" "uuid_ok u" "uuid_ok v"
    using known_path [OF assms(1,2)] known_path [OF assms(1,3)] by blast
  then show thesis using that blob_path_apart assms(4) by blast
qed

text \<open>Different known keys do not touch each other.\<close>

lemma known_apart:
  assumes "blobs_ok (pf_blobs s)" and "known s k" and "known s l" and "k \<noteq> l"
  obtains p q where "resolve k = Inr p" and "resolve l = Inr q" and "apart p q"
proof -
  obtain u v where uv: "(u, k) \<in> set (pf_blobs s)" "(v, l) \<in> set (pf_blobs s)"
    using assms(2,3) by (force simp: known_def)
  moreover have "u \<noteq> v" using distinct_key_eq [of fst, OF _ uv] assms(1,4) by (auto simp: blobs_ok_def)
  ultimately show thesis using known_paths [OF assms(1)] that by blast
qed

lemma blobs_ok_Cons:
  assumes "blobs_ok (pf_blobs s)" and "fresh_blob u s"
  shows "blobs_ok ((u, artifact_key_for ch actor u f) # pf_blobs s)"
proof -
  obtain p where p: "resolve (artifact_key_for ch actor u f) = Inr p" "blob_path u p"
      "prefix [''submissions'', uuid_str ch, uuid_str actor] p"
    by (rule artifact_blob_path)
  then have "hd p = ''submissions''" by (auto simp: prefix_def)
  then show ?thesis using p assms by (auto simp: blobs_ok_def fresh_blob_def)
qed

text \<open>A write to a fresh key keeps every known blob, and the key is stored when it succeeds.\<close>

lemma fresh_key_unknown:
  assumes "blobs_ok (pf_blobs s)" and "fresh_blob u s"
  shows "\<not> known s (artifact_key_for ch actor u f)"
proof
  assume "known s (artifact_key_for ch actor u f)"
  then obtain v where v: "(v, artifact_key_for ch actor u f) \<in> set (pf_blobs s)" by (force simp: known_def)
  then have "u \<noteq> v" using assms(2) by (force simp: fresh_blob_def)
  then obtain p q where "resolve (artifact_key_for ch actor u f) = Inr p"
      "resolve (artifact_key_for ch actor u f) = Inr q" "apart p q"
    using known_paths [OF blobs_ok_Cons [OF assms]] v by (metis list.set_intros)
  then show False by (auto simp: apart_def)
qed

lemma enter_sel [simp]:
  "pf_app (enter r ph s) = pf_app s" "pf_files (enter r ph s) = pf_files s" "pf_blobs (enter r ph s) = pf_blobs s"
  "pf_phase (enter r ph s) = (pf_phase s)(r := ph)" "known (enter r ph s) = known s"
  by (simp_all add: enter_def known_def fun_eq_iff)

lemma blob_inv_phase: "blob_inv ro s \<Longrightarrow> phase_role_ok ro s r (pf_phase s r)"
  by (simp add: blob_inv_def)

lemma blob_inv_enter:
  assumes "blob_inv ro s" and "phase_role_ok ro s r ph"
  shows "blob_inv ro (enter r ph s)"
  using assms by (auto simp: blob_inv_def rows_ok_def phase_role_ok_def)

text \<open>A phase that refers to nothing, or to what the phase before it referred to.\<close>

lemma blob_inv_weaken:
  assumes "blob_inv ro s" and "pending_key ph = None \<or> pending_key ph = pending_key (pf_phase s r) \<and> (undoing ph \<or> \<not> undoing (pf_phase s r))"
    and "seen ph = None \<or> seen ph = seen (pf_phase s r)" and "dropping ph = None \<or> dropping ph = dropping (pf_phase s r)"
  shows "blob_inv ro (enter r ph s)"
  using blob_inv_enter [OF assms(1), of r ph] blob_inv_phase [OF assms(1), of r] assms(2-4)
  unfolding phase_role_ok_def by (metis option.distinct(1))

text \<open>The app changes, and no row is new or changes its key.\<close>

lemma blob_inv_app:
  assumes "blob_inv ro s" and "map (\<lambda>x. (s_id x, s_artifact_key x)) (ap_subs a) =
      map (\<lambda>x. (s_id x, s_artifact_key x)) (ap_subs (pf_app s))"
  shows "blob_inv ro (s\<lparr>pf_app := a\<rparr>)"
proof -
  have "map s_id (ap_subs a) = map s_id (ap_subs (pf_app s))"
    using arg_cong [OF assms(2), of "map fst"] by (simp add: comp_def)
  moreover have "\<exists>y\<in>set (ap_subs (pf_app s)). s_id y = s_id x \<and> s_artifact_key y = s_artifact_key x"
    if "x \<in> set (ap_subs a)" for x
  proof -
    have "(s_id x, s_artifact_key x) \<in> set (map (\<lambda>x. (s_id x, s_artifact_key x)) (ap_subs a))" using that by simp
    then show ?thesis unfolding assms(2) by auto
  qed
  ultimately show ?thesis
    using assms(1) by (simp add: blob_inv_def rows_ok_def phase_role_ok_def known_def) metis
qed

text \<open>The store changes, and every known blob but a dead one is kept.\<close>

lemma blob_inv_files:
  assumes "blob_inv ro s"
    and "\<And>k. known s k \<Longrightarrow> stored k (pf_files s) \<Longrightarrow> \<not> dead k \<Longrightarrow> stored k fs"
    and "\<And>x k. x \<in> set (ap_subs (pf_app s)) \<Longrightarrow> s_artifact_key x = Some k \<Longrightarrow> \<not> dead k"
    and "\<And>r k. pending_key (pf_phase s r) = Some k \<Longrightarrow> dead k \<Longrightarrow> undoing (pf_phase s r)"
  shows "blob_inv ro (s\<lparr>pf_files := fs\<rparr>)"
  using assms unfolding blob_inv_def rows_ok_def phase_role_ok_def known_def by simp blast

lemma removal_keeps:
  assumes "blobs_ok (pf_blobs s)" and "known s d" and "known s k" and "k \<noteq> d" and "stored k fs"
  shows "stored k (snd (compensate_delete (Some d) fs))"
proof -
  obtain p q where "resolve k = Inr p" "resolve d = Inr q" "apart p q"
    using known_apart [OF assms(1,3,2,4)] by blast
  then show ?thesis using assms(5) compensate_effect [of d q p fs] by (simp add: stored_def)
qed

text \<open>A write to a fresh key.\<close>

lemma blob_inv_wrote:
  assumes "blob_inv ro s" and "fresh_blob u s" and "key = artifact_key_for ch actor u f"
    and "\<And>k. known s k \<Longrightarrow> stored k (pf_files s) \<Longrightarrow> stored k fs"
    and "pending_key ph = None \<or> pending_key ph = Some key \<and> stored key fs"
    and "seen ph = None \<or> seen ph = seen (pf_phase s r)" and "dropping ph = None"
  shows "blob_inv (ro(key := RHeld r)) (wrote r u key fs ph s)"
proof -
  have b: "blobs_ok (pf_blobs s)" using assms(1) by (simp add: blob_inv_def)
  have new: "\<not> known s key" using fresh_key_unknown [OF b assms(2)] assms(3) by simp
  have k: "known (wrote r u key fs ph s) x \<longleftrightarrow> x = key \<or> known s x" for x
    by (auto simp: wrote_def known_def enter_def)
  have ok: "blobs_ok ((u, key) # pf_blobs s)" using blobs_ok_Cons [OF b assms(2)] assms(3) by simp
  have rows: "rows_ok (ro(key := RHeld r)) (wrote r u key fs ph s)"
    using assms(1,4) new k by (auto simp: blob_inv_def rows_ok_def wrote_def)
  have "phase_role_ok (ro(key := RHeld r)) (wrote r u key fs ph s) q (pf_phase (wrote r u key fs ph s) q)" for q
  proof (cases "q = r")
    case True
    have "seen (pf_phase s r) = Some row" if "seen ph = Some row" for row using that assms(6) by auto
    then show ?thesis
      using True blob_inv_phase [OF assms(1), of r] assms(5,7) new k
      by (auto simp: phase_role_ok_def wrote_def)
  next
    case False
    then show ?thesis
      using blob_inv_phase [OF assms(1), of q] assms(4) new k
      by (auto simp: phase_role_ok_def wrote_def)
  qed
  then show ?thesis using assms(1) ok rows by (simp add: blob_inv_def wrote_def)
qed

lemma fresh_path:
  assumes "blobs_ok (pf_blobs s)" and "fresh_blob u s"
  obtains p where "resolve (artifact_key_for ch actor u f) = Inr p" and "4 \<le> length p"
    and "\<And>k. known s k \<Longrightarrow> \<exists>q. resolve k = Inr q \<and> apart q p \<and> hd q = ''submissions'' \<and> q \<noteq> []"
proof -
  obtain p where p: "resolve (artifact_key_for ch actor u f) = Inr p" "blob_path u p"
    by (rule artifact_blob_path)
  have "\<exists>q. resolve k = Inr q \<and> apart q p \<and> hd q = ''submissions'' \<and> q \<noteq> []" if k: "known s k" for k
  proof -
    obtain v where v: "(v, k) \<in> set (pf_blobs s)" using k by (force simp: known_def)
    then have "uuid_ok u" "u \<noteq> v" using assms(2) by (force simp: fresh_blob_def)+
    moreover obtain q where "uuid_ok v" "resolve k = Inr q" "blob_path v q" "hd q = ''submissions''"
      using known_path [OF assms(1) v] by blast
    ultimately show ?thesis using blob_path_apart [of v q u p] p(2) by (auto simp: blob_path_def)
  qed
  then show thesis using that p by (auto simp: blob_path_def)
qed

lemma store_artifact_effect:
  assumes "store_artifact st t ch actor u art fs = (res, fs')" and "blobs_ok (pf_blobs s)" and "fresh_blob u s"
  defines "key \<equiv> artifact_key_for ch actor u (file_name_of art)"
  shows "(known s k \<longrightarrow> stored k fs \<longrightarrow> stored k fs') \<and>
    (\<forall>x. res = Inr x \<longrightarrow> x = None \<or> x = Some key \<and> stored key fs')"
proof (cases art)
  case None
  then show ?thesis using assms(1) by (auto simp: store_artifact_def)
next
  case (Some af)
  obtain p where p: "resolve key = Inr p" "4 \<le> length p"
      "\<And>k. known s k \<Longrightarrow> \<exists>q. resolve k = Inr q \<and> apart q p \<and> hd q = ''submissions'' \<and> q \<noteq> []"
    unfolding key_def by (rule fresh_path [OF assms(2,3)]) blast
  have key: "key = artifact_key_for ch actor u (af_filename af)" by (simp add: key_def file_name_of_def Some)
  show ?thesis
  proof (cases "int (length (af_bytes af)) > artifact_max_bytes st")
    case True
    then show ?thesis using assms(1) Some by (auto simp: store_artifact_def)
  next
    case False
    obtain r2 fs2 where w: "put t key (af_bytes af) (content_type_or_default (af_content_type af)) fs = (r2, fs2)" by force
    have n: "p \<noteq> []" using p(2) by auto
    have "fs' = fs2" "\<And>x. res = Inr x \<Longrightarrow> \<exists>y. r2 = Inr y \<and> x = Some y"
      using assms(1) Some False w by (auto simp: store_artifact_def key split: sum.splits)
    then show ?thesis
      using put_effect [OF w p(1) n] p(1) p(3) [of k] by (fastforce simp: stored_def)
  qed
qed

lemma attach_publish_effect:
  assumes "attach_publish st t u actor row up fn fs = (res, up', fs')" and "blobs_ok (pf_blobs s)" and "fresh_blob u s"
    and "in_path up = incoming_root @ [nm]"
  defines "key \<equiv> artifact_key_for (s_challenge_id row) (cu_id actor) u fn"
  shows "(known s k \<longrightarrow> stored k fs \<longrightarrow> stored k fs') \<and> (\<forall>x. res = Inr x \<longrightarrow> x = key \<and> stored key fs')"
proof (cases "in_size up > artifact_max_bytes st")
  case True
  then show ?thesis using assms(1) by (auto simp: attach_publish_def)
next
  case False
  obtain p where p: "resolve key = Inr p" "4 \<le> length p"
      "\<And>k. known s k \<Longrightarrow> \<exists>q. resolve k = Inr q \<and> apart q p \<and> hd q = ''submissions'' \<and> q \<noteq> []"
    unfolding key_def by (rule fresh_path [OF assms(2,3)]) blast
  obtain r2 fs2 where w: "put_from_path t key (in_path up) (in_content_type up) fs = (r2, fs2)" by force
  have n: "p \<noteq> []" using p(2) by auto
  have src: "in_path up \<noteq> tmp_of p"
  proof
    assume "in_path up = tmp_of p"
    then have "length (in_path up) = length (tmp_of p)" by simp
    then show False using p(2) assms(4) by (simp add: tmp_of_def add_suffix_def incoming_root_def)
  qed
  have other: "q \<noteq> in_path up" if "hd q = ''submissions''" for q
    using that assms(4) by (auto simp: incoming_root_def)
  have "fs' = fs2" "\<And>x. res = Inr x \<Longrightarrow> r2 = Inr x"
    using assms(1) False w by (auto simp: attach_publish_def key_def split: sum.splits)
  then show ?thesis
    using put_from_path_effect [OF w p(1) n src] p(1) p(3) [of k] other by (fastforce simp: stored_def)
qed

lemma create_insert_effect:
  assumes "create_insert fault now u rq k a = Inr (row, a')"
  shows "a' = a\<lparr>ap_subs := ap_subs a @ [row]\<rparr> \<and> s_artifact_key row = k \<and> submission_constraints row a \<and>
    s_status row = SCreated \<and> s_challenge_id row = cq_challenge rq \<and> s_participant_id row = cq_actor rq \<and>
    s_idempotency_key row = cq_key rq \<and> s_request_fingerprint row = cq_fingerprint rq \<and> s_metadata row = cq_metadata rq"
  using assms by (auto simp: create_insert_def submission_add_def Let_def split: if_splits)

lemma blob_inv_insert:
  assumes "blob_inv ro s" and "pf_phase s r = QLocked rq k"
    and "create_insert fault now u rq k (pf_app s) = Inr (row, a)"
  shows "\<exists>ro'. blob_inv ro' (enter r (QEnqueue (s_id row) k) (s\<lparr>pf_app := a\<rparr>))"
proof -
  note e = create_insert_effect [OF assms(3)]
  define ro' where "ro' = (case k of None \<Rightarrow> ro | Some x \<Rightarrow> ro(x := RRow (s_id row)))"
  have k: "ro x = RHeld r \<and> known s x \<and> stored x (pf_files s)" if "k = Some x" for x
    using blob_inv_phase [OF assms(1), of r] assms(2) that by (simp add: phase_role_ok_def undoing_def)
  have keep: "ro' x = ro x" if "ro x \<noteq> RHeld r" for x
    using that k by (auto simp: ro'_def split: option.splits)
  have "s_id row \<notin> s_id ` set (ap_subs (pf_app s))" using e by (simp add: submission_constraints_def)
  moreover have "rows_ok ro' (s\<lparr>pf_app := a\<rparr>)"
    using assms(1) e k keep by (auto simp: blob_inv_def rows_ok_def known_def ro'_def split: option.splits)
  moreover have "phase_role_ok ro' s q (pf_phase s q)" if "q \<noteq> r" for q
    using blob_inv_phase [OF assms(1), of q] keep that unfolding phase_role_ok_def
    by (metis insertE role.distinct(1) role.distinct(3) role.inject(1) singletonD)
  ultimately have "blob_inv ro' (enter r (QEnqueue (s_id row) k) (s\<lparr>pf_app := a\<rparr>))"
    using assms(1) e by (auto simp: blob_inv_def rows_ok_def phase_role_ok_def known_def)
  then show ?thesis by blast
qed

lemma blob_inv_commit:
  assumes "blob_inv ro s" and "pf_phase s r = QReplace row md k"
  shows "\<exists>ro'. blob_inv ro' (enter r (QDrop (superseded row k) (s_id row) k)
    (s\<lparr>pf_app := replace_commit now row md k (pf_app s)\<rparr>))"
proof (cases k)
  case None
  have "blob_inv ro (s\<lparr>pf_app := replace_commit now row md k (pf_app s)\<rparr>)"
    by (rule blob_inv_app [OF assms(1)]) (simp add: replace_commit_def None map_update_where)
  moreover have "superseded row k = None" by (simp add: superseded_def None)
  ultimately show ?thesis by (intro exI [of _ ro] blob_inv_weaken) simp_all
next
  case (Some x)
  let ?i = "s_id row"
  define ro' where "ro' = (\<lambda>y. if y = x then RRow ?i else if ro y = RRow ?i then RDead else ro y)"
  have x: "ro x = RHeld r" "known s x" "stored x (pf_files s)"
    using blob_inv_phase [OF assms(1), of r] assms(2) Some by (simp_all add: phase_role_ok_def undoing_def)
  let ?a = "replace_commit now row md k (pf_app s)"
  have rows: "rows_ok ro' (s\<lparr>pf_app := ?a\<rparr>)"
    unfolding rows_ok_def
  proof (intro ballI allI impI)
    fix z y assume z: "z \<in> set (ap_subs (pf_app (s\<lparr>pf_app := ?a\<rparr>)))" and y: "s_artifact_key z = Some y"
    show "ro' y = RRow (s_id z) \<and> known (s\<lparr>pf_app := ?a\<rparr>) y \<and> stored y (pf_files (s\<lparr>pf_app := ?a\<rparr>))"
    proof (cases "s_id z = ?i")
      case True
      then have "y = x" using z y Some by (auto simp: replace_commit_def set_update_where split: if_splits)
      then show ?thesis using x True by (simp add: ro'_def known_def)
    next
      case False
      then have "z \<in> set (ap_subs (pf_app s))" using z by (auto simp: replace_commit_def set_update_where split: if_splits)
      then have "ro y = RRow (s_id z)" "known s y" "stored y (pf_files s)"
        using assms(1) y by (auto simp: blob_inv_def rows_ok_def)
      then show ?thesis using False x(1) by (auto simp: ro'_def known_def)
    qed
  qed
  have others: "phase_role_ok ro' s q (pf_phase s q)" if "q \<noteq> r" for q
    using blob_inv_phase [OF assms(1), of q] that x(1) by (auto simp: phase_role_ok_def ro'_def)
  have "ro' y = RDead \<and> known s y" if "superseded row k = Some y" for y
  proof -
    have y: "s_artifact_key row = Some y" "y \<noteq> x" using that Some by (auto simp: superseded_def split: if_splits)
    then have "ro y \<in> {RRow ?i, RDead}" "known s y"
      using blob_inv_phase [OF assms(1), of r] assms(2) by (simp_all add: phase_role_ok_def)
    then show ?thesis using y(2) by (auto simp: ro'_def)
  qed
  moreover have "map s_id (ap_subs ?a) = map s_id (ap_subs (pf_app s))"
    by (simp add: replace_commit_def map_update_where)
  ultimately have "blob_inv ro' (enter r (QDrop (superseded row k) ?i k) (s\<lparr>pf_app := ?a\<rparr>))"
    using assms(1) rows others by (auto simp: blob_inv_def rows_ok_def phase_role_ok_def known_def)
  then show ?thesis by blast
qed

section \<open>Every step keeps the blobs\<close>

lemma transition_rows:
  assumes "transition_if_created now i w st subs = (t, subs')"
  shows "map (\<lambda>x. (s_id x, s_artifact_key x)) subs' = map (\<lambda>x. (s_id x, s_artifact_key x)) subs"
  using update_returning_snd [OF assms [unfolded transition_if_created_def]] by (simp add: map_update_where)

lemma submit_rows:
  assumes "submit_submission env st fault now u actor i a = (sr, a')"
  shows "map (\<lambda>x. (s_id x, s_artifact_key x)) (ap_subs a') = map (\<lambda>x. (s_id x, s_artifact_key x)) (ap_subs a)"
proof (cases "sr")
  case (Inl e)
  then show ?thesis using assms by (auto simp: submit_submission_def dest: commit_or_keep_Inl)
next
  case (Inr x)
  obtain t subs where u: "transition_if_created now i (cu_id actor) SSubmitted (ap_subs a) = (t, subs)" by force
  have "map (\<lambda>x. (s_id x, s_artifact_key x)) subs = map (\<lambda>x. (s_id x, s_artifact_key x)) (ap_subs a)"
    using u by (simp add: transition_rows)
  then show ?thesis
    using assms u unfolding submit_submission_def Inr commit_or_keep_Inr
    by (auto simp: try_in_def Let_def split: sum.splits option.splits if_splits)
qed

lemma cancel_rows:
  assumes "cancel_submission fault now actor i a = (sr, a')"
  shows "map (\<lambda>x. (s_id x, s_artifact_key x)) (ap_subs a') = map (\<lambda>x. (s_id x, s_artifact_key x)) (ap_subs a)"
proof (cases "sr")
  case (Inl e)
  then show ?thesis using assms by (auto simp: cancel_submission_def dest: commit_or_keep_Inl)
next
  case (Inr x)
  obtain t subs where u: "transition_if_created now i (cu_id actor) SCancelled (ap_subs a) = (t, subs)" by force
  have "map (\<lambda>x. (s_id x, s_artifact_key x)) subs = map (\<lambda>x. (s_id x, s_artifact_key x)) (ap_subs a)"
    using u by (simp add: transition_rows)
  then show ?thesis
    using assms u unfolding cancel_submission_def Inr commit_or_keep_Inr
    by (auto simp: try_in_def Let_def split: sum.splits option.splits if_splits)
qed

lemma enqueue_artifact_rows:
  assumes "enqueue_artifact st fault now u sid k a = (res, a')"
  shows "ap_subs a' = ap_subs a \<and> ap_queue a' = ap_queue a \<and> ap_catalog a' = ap_catalog a"
  using assms by (auto simp: enqueue_artifact_def split: option.splits if_splits sum.splits)

text \<open>The blob of a role that no row has is removed.\<close>

lemma blob_inv_removal:
  assumes "blob_inv ro s" and "\<And>x. d = Some x \<Longrightarrow> known s x \<and> (ro x = RDead \<or> ro x = RHeld r \<and> undoing (pf_phase s r))"
  shows "blob_inv ro (s\<lparr>pf_files := snd (compensate_delete d (pf_files s))\<rparr>)"
proof (cases d)
  case None
  then show ?thesis using assms(1) by simp
next
  case (Some x)
  have b: "blobs_ok (pf_blobs s)" and x: "known s x" "ro x = RDead \<or> ro x = RHeld r \<and> undoing (pf_phase s r)"
    using assms Some by (simp_all add: blob_inv_def)
  show ?thesis
    unfolding Some
  proof (rule blob_inv_files [OF assms(1), where dead = "\<lambda>k. k = x"])
    show "stored k (snd (compensate_delete (Some x) (pf_files s)))"
      if "known s k" "stored k (pf_files s)" "k \<noteq> x" for k
      using removal_keeps [OF b x(1) that(1,3,2)] .
    show "k \<noteq> x" if "y \<in> set (ap_subs (pf_app s))" "s_artifact_key y = Some k" for y k
      using that assms(1) x(2) by (auto simp: blob_inv_def rows_ok_def)
    show "undoing (pf_phase s q)" if "pending_key (pf_phase s q) = Some k" "k = x" for q k
      using blob_inv_phase [OF assms(1), of q] x(2) that by (auto simp: phase_role_ok_def)
  qed
qed

lemma blob_inv_other_files:
  assumes "blob_inv ro s" and "\<And>q. q \<noteq> [] \<Longrightarrow> hd q = ''submissions'' \<Longrightarrow> map_of fs q = map_of (pf_files s) q"
  shows "blob_inv ro (s\<lparr>pf_files := fs\<rparr>)"
proof (rule blob_inv_files [OF assms(1), where dead = "\<lambda>k. False"])
  fix k assume k: "known s k" "stored k (pf_files s)"
  then obtain u where "(u, k) \<in> set (pf_blobs s)" by (force simp: known_def)
  moreover have "blobs_ok (pf_blobs s)" using assms(1) by (simp add: blob_inv_def)
  ultimately obtain p where p: "resolve k = Inr p" "hd p = ''submissions''" "p \<noteq> []"
    using known_path [of "pf_blobs s" u k] by (force simp: blob_path_def)
  then show "stored k fs" using k(2) assms(2) [of p] by (simp add: stored_def read_file_def)
qed simp_all

lemma blob_inv_lock:
  assumes "blob_inv ro s" and "fresh_blob u s"
    and "create_lock st t u rq (ap_catalog (pf_app s)) (pf_files s) = (res, fs)"
  shows "blob_inv (ro(artifact_key_for (cq_challenge rq) (cq_actor rq) u (file_name_of (cq_artifact rq)) := RHeld r))
    (wrote r u (artifact_key_for (cq_challenge rq) (cq_actor rq) u (file_name_of (cq_artifact rq))) fs
      (case res of Inl e \<Rightarrow> QIdle | Inr k \<Rightarrow> QLocked rq k) s)"
proof (rule blob_inv_wrote [OF assms(1,2) refl])
  have b: "blobs_ok (pf_blobs s)" using assms(1) by (simp add: blob_inv_def)
  note e = store_artifact_effect [OF _ b assms(2), of st t "cq_challenge rq" "cq_actor rq" "cq_artifact rq" "pf_files s"]
  show "stored k fs" if "known s k" "stored k (pf_files s)" for k
    using assms(3) e [of res fs k] that by (auto simp: create_lock_def split: sum.splits)
  show "pending_key (case res of Inl e \<Rightarrow> QIdle | Inr k \<Rightarrow> QLocked rq k) = None \<or>
    pending_key (case res of Inl e \<Rightarrow> QIdle | Inr k \<Rightarrow> QLocked rq k) =
      Some (artifact_key_for (cq_challenge rq) (cq_actor rq) u (file_name_of (cq_artifact rq))) \<and>
    stored (artifact_key_for (cq_challenge rq) (cq_actor rq) u (file_name_of (cq_artifact rq))) fs"
    using assms(3) e [of res fs] by (auto simp: create_lock_def split: sum.splits)
qed (auto split: sum.splits)

lemma blob_inv_publish:
  assumes "blob_inv ro s" and "fresh_blob u s" and "pf_phase s r = QUpdate actor row"
    and "update_publish env st t u actor row md art (pf_files s) = (res, fs)"
  shows "blob_inv (ro(artifact_key_for (s_challenge_id row) (cu_id actor) u (file_name_of art) := RHeld r))
    (wrote r u (artifact_key_for (s_challenge_id row) (cu_id actor) u (file_name_of art)) fs
      (case res of Inl e \<Rightarrow> QIdle | Inr (md', k) \<Rightarrow> QReplace row md' k) s)"
proof (rule blob_inv_wrote [OF assms(1,2) refl])
  have b: "blobs_ok (pf_blobs s)" using assms(1) by (simp add: blob_inv_def)
  note e = store_artifact_effect [OF _ b assms(2), of st t "s_challenge_id row" "cu_id actor" art "pf_files s"]
  show "stored k fs" if "known s k" "stored k (pf_files s)" for k
    using assms(4) e [of _ _ k] that by (auto simp: update_publish_def split: sum.splits prod.splits)
  let ?ph = "case res of Inl e \<Rightarrow> QIdle | Inr (md', k) \<Rightarrow> QReplace row md' k"
  show "pending_key ?ph = None \<or>
    pending_key ?ph = Some (artifact_key_for (s_challenge_id row) (cu_id actor) u (file_name_of art)) \<and>
    stored (artifact_key_for (s_challenge_id row) (cu_id actor) u (file_name_of art)) fs"
    using assms(4) e by (auto simp: update_publish_def split: sum.splits prod.splits)
  show "seen ?ph = None \<or> seen ?ph = seen (pf_phase s r)" using assms(3) by (auto split: sum.splits)
qed (auto split: sum.splits)

lemma blob_inv_attach:
  assumes "blob_inv ro s" and "fresh_blob u s" and "pf_phase s r = QUpdate actor row"
    and "in_path up = incoming_root @ [nm]" and "attach_publish st t u actor row up fn (pf_files s) = (res, up', fs)"
  shows "blob_inv (ro(artifact_key_for (s_challenge_id row) (cu_id actor) u fn := RHeld r))
    (wrote r u (artifact_key_for (s_challenge_id row) (cu_id actor) u fn) fs
      (case res of Inl e \<Rightarrow> QIdle | Inr k \<Rightarrow> QReplace row None (Some k)) s)"
proof (rule blob_inv_wrote [OF assms(1,2) refl])
  have b: "blobs_ok (pf_blobs s)" using assms(1) by (simp add: blob_inv_def)
  note e = attach_publish_effect [OF assms(5) b assms(2,4)]
  show "stored k fs" if "known s k" "stored k (pf_files s)" for k using e that by blast
  let ?ph = "case res of Inl e \<Rightarrow> QIdle | Inr k \<Rightarrow> QReplace row None (Some k)"
  show "pending_key ?ph = None \<or> pending_key ?ph = Some (artifact_key_for (s_challenge_id row) (cu_id actor) u fn) \<and>
    stored (artifact_key_for (s_challenge_id row) (cu_id actor) u fn) fs"
    using e by (auto split: sum.splits)
  show "seen ?ph = None \<or> seen ?ph = seen (pf_phase s r)" using assms(3) by (auto split: sum.splits)
qed (auto split: sum.splits)

lemma blob_inv_torn:
  assumes "blob_inv ro s" and "fresh_blob u s" and "key = artifact_key_for ch w u f" and "resolve key = Inr p"
    and "\<And>q. apart q p \<Longrightarrow> read_file fs q = read_file (pf_files s) q"
  shows "blob_inv (ro(key := RHeld r)) (wrote r u key fs QIdle s)"
proof (rule blob_inv_wrote [OF assms(1-3)])
  have b: "blobs_ok (pf_blobs s)" using assms(1) by (simp add: blob_inv_def)
  obtain p' where p': "resolve key = Inr p'"
      "\<And>k. known s k \<Longrightarrow> \<exists>q. resolve k = Inr q \<and> apart q p' \<and> hd q = ''submissions'' \<and> q \<noteq> []"
    unfolding assms(3) by (rule fresh_path [OF b assms(2)]) blast
  show "stored k fs" if "known s k" "stored k (pf_files s)" for k
    using p'(2) [OF that(1)] p'(1) that(2) assms(4,5) by (auto simp: stored_def)
qed simp_all

text \<open>The row an update starts from.\<close>

lemma update_begin_row:
  assumes "update_begin actor i subs = Inr row"
  shows "row \<in> set subs \<and> s_id row = i \<and> s_participant_id row = cu_id actor \<and> s_status row = SCreated"
  using assms by (auto simp: update_begin_def submission_get_def find_Some_iff in_set_conv_nth split: option.splits if_splits)

lemma platform_step_blobs:
  assumes "platform_step env st s s'" and "blob_inv ro s"
  shows "\<exists>ro'. blob_inv ro' s'"
  using assms(1)
proof cases
  case (step_create_begin r actor ch md idem art rq)
  then show ?thesis using blob_inv_weaken [OF assms(2), of "QCreate rq" r] by auto
next
  case step_create_lock
  then show ?thesis using blob_inv_lock [OF assms(2)] by blast
next
  case step_create_insert
  then show ?thesis using blob_inv_insert [OF assms(2)] by blast
next
  case (step_create_refused r rq k)
  then show ?thesis using blob_inv_weaken [OF assms(2), of "QUndo k" r] by (auto simp: undoing_def)
next
  case (step_undo r k)
  have "blob_inv ro (s\<lparr>pf_files := snd (compensate_delete k (pf_files s))\<rparr>)"
    using blob_inv_phase [OF assms(2), of r] step_undo
    by (intro blob_inv_removal [OF assms(2), of _ r]) (auto simp: phase_role_ok_def undoing_def)
  then show ?thesis using blob_inv_weaken [of ro _ QIdle r] step_undo(1) by auto
next
  case (step_enqueue r sid k fault now u res a)
  have "blob_inv ro (s\<lparr>pf_app := a\<rparr>)"
    using blob_inv_app [OF assms(2)] enqueue_artifact_rows [OF step_enqueue(3)] by simp
  then show ?thesis using blob_inv_weaken [of ro _ QIdle r] step_enqueue(1) by auto
next
  case (step_update_begin r actor i row)
  have "phase_role_ok ro s r (QUpdate actor row)"
    using assms(2) update_begin_row [OF step_update_begin(3)]
    by (auto simp: phase_role_ok_def blob_inv_def rows_ok_def)
  then show ?thesis using blob_inv_enter [OF assms(2)] step_update_begin(1) by blast
next
  case step_update_publish
  then show ?thesis using blob_inv_publish [OF assms(2)] by blast
next
  case step_attach_publish
  then show ?thesis using blob_inv_attach [OF assms(2)] by blast
next
  case step_replace_commit
  then show ?thesis using blob_inv_commit [OF assms(2)] by blast
next
  case (step_replace_fault r row md k)
  then show ?thesis using blob_inv_weaken [OF assms(2), of "QUndo k" r] by (auto simp: undoing_def)
next
  case (step_drop r old sid k)
  have "blob_inv ro (s\<lparr>pf_files := snd (compensate_delete old (pf_files s))\<rparr>)"
    using blob_inv_phase [OF assms(2), of r] step_drop
    by (intro blob_inv_removal [OF assms(2), of _ r]) (auto simp: phase_role_ok_def)
  then show ?thesis using blob_inv_weaken [of ro _ "QEnqueue sid k" r] step_drop(1) by auto
next
  case step_submit
  then show ?thesis using blob_inv_app [OF assms(2) submit_rows] by blast
next
  case step_cancel
  then show ?thesis using blob_inv_app [OF assms(2) cancel_rows] by blast
next
  case (step_catalog actor c)
  have "blob_inv ro s'" unfolding step_catalog(1) by (rule blob_inv_app [OF assms(2)]) simp
  then show ?thesis by blast
next
  case (step_evaluation ev q)
  have "blob_inv ro s'" unfolding step_evaluation(1) by (rule blob_inv_app [OF assms(2)]) simp
  then show ?thesis by blast
next
  case (step_ingestion ev jobs)
  have "blob_inv ro s'" unfolding step_ingestion(1) by (rule blob_inv_app [OF assms(2)]) simp
  then show ?thesis by blast
next
  case step_other_files
  then show ?thesis using blob_inv_other_files [OF assms(2)] by blast
next
  case (step_crash r)
  then show ?thesis using blob_inv_weaken [OF assms(2), of QIdle r] by auto
next
  case step_torn
  then show ?thesis using blob_inv_torn [OF assms(2)] by blast
qed

text \<open>The platform before its first request.\<close>

definition initial :: "platform \<Rightarrow> bool" where
  "initial s \<longleftrightarrow> ap_subs (pf_app s) = [] \<and> evals (ap_queue (pf_app s)) = [] \<and> ap_jobs (pf_app s) = [] \<and>
     pf_phase s = (\<lambda>r. QIdle) \<and> pf_blobs s = []"

lemma initial_blobs: "initial s \<Longrightarrow> blob_inv (\<lambda>k. RDead) s"
  by (simp add: initial_def blob_inv_def blobs_ok_def rows_ok_def phase_role_ok_def)

lemma reachable_blobs:
  assumes "(platform_step env st)\<^sup>*\<^sup>* s s'" and "initial s"
  shows "\<exists>ro. blob_inv ro s'"
  using assms(1)
proof (induction rule: rtranclp_induct)
  case base
  then show ?case using initial_blobs [OF assms(2)] by blast
next
  case (step y z)
  then show ?case using platform_step_blobs by blast
qed

text \<open>
  C4. However requests, crashes, torn writes, workers and catalog calls interleave, the artifact of every
  submission in the table can be read from the store, under a key inside \<open>submissions\<close> that no other
  submission has: blobs are published before they are committed, and only blobs no row refers to
  are removed.
\<close>

theorem artifacts_readable:
  assumes "initial s" and "(platform_step env st)\<^sup>*\<^sup>* s s'" and "x \<in> set (ap_subs (pf_app s'))"
    and "s_artifact_key x = Some k"
  shows "\<exists>p d. resolve k = Inr p \<and> hd p = ''submissions'' \<and> read_file (pf_files s') p = Some d \<and>
    (\<forall>y\<in>set (ap_subs (pf_app s')). s_artifact_key y = Some k \<longrightarrow> y = x)"
proof -
  obtain ro where i: "blob_inv ro s'" using reachable_blobs [OF assms(2,1)] by blast
  then have k: "ro k = RRow (s_id x)" "known s' k" "stored k (pf_files s')" and d: "distinct (map s_id (ap_subs (pf_app s')))"
    using assms(3,4) by (auto simp: blob_inv_def rows_ok_def)
  have "y = x" if "y \<in> set (ap_subs (pf_app s'))" "s_artifact_key y = Some k" for y
  proof -
    have "ro k = RRow (s_id y)" using i that by (auto simp: blob_inv_def rows_ok_def)
    then show ?thesis using k(1) by (intro distinct_key_eq [OF d that(1) assms(3)]) simp
  qed
  moreover obtain u where "(u, k) \<in> set (pf_blobs s')" using k(2) by (force simp: known_def)
  moreover have "blobs_ok (pf_blobs s')" using i by (simp add: blob_inv_def)
  ultimately show ?thesis
    using k(3) known_path [of "pf_blobs s'" u k] by (fastforce simp: stored_def split: sum.splits)
qed

end
