(* ===== verification/Platform_Tables.thy ===== *)
theory Platform_Tables
  imports Platform
begin

text \<open>
  What the interleaving of \<open>Platform\<close> keeps of the tables: every submitted submission has one
  evaluation, creates with an idempotency key and submits take effect once. It ends with a run of the
  platform and with three defects of the submission service.
\<close>

section \<open>The tables together\<close>

text \<open>What a row is for its whole life; status, metadata, artifact and times may change.\<close>

definition row_request :: "submission \<Rightarrow> uuid \<times> uuid \<times> uuid \<times> string option \<times> string option" where
  "row_request x = (s_id x, s_challenge_id x, s_participant_id x, s_idempotency_key x, s_request_fingerprint x)"

definition eval_row :: "evaluation \<Rightarrow> uuid \<times> uuid" where "eval_row e = (e_id e, e_submission_id e)"

lemma transition_requests:
  assumes "transition_if_created now i w st subs = (t, subs')"
  shows "map row_request subs' = map row_request subs"
  using update_returning_snd [OF assms [unfolded transition_if_created_def]]
  by (simp add: map_update_where row_request_def)

lemma recover_row_submission [simp]: "e_submission_id (recover_row now n s e) = e_submission_id e"
  by (auto simp: recover_row_def release_stale_def Let_def split: option.splits)

lemma guarded_eval_rows:
  assumes "on_evals p f q = (r, q')" and "\<And>e. eval_row (f e) = eval_row e"
  shows "map eval_row (evals q') = map eval_row (evals q)"
  using assms(1) arg_cong [OF on_evals_sel(2) [of p f q], of "map eval_row"] assms(2)
  by (simp add: map_update_where)

lemma eval_event_rows:
  assumes "eval_event ev q q'" and "\<And>i. ev \<noteq> Submitted i"
  shows "map eval_row (evals q') = map eval_row (evals q)"
  using assms(1)
proof cases
  case event_create
  then show ?thesis using assms(2) by simp
next
  case (event_claim now w pol mw hl bl r)
  then show ?thesis
    by (cases rule: claim_effect [of now w pol mw hl bl q])
      (auto simp: take_row_def map_update_where eval_row_def)
next
  case event_recover
  then show ?thesis
    by (auto simp: recover_stale_running_def Let_def map_update_where eval_row_def)
qed (auto intro!: guarded_eval_rows simp: defer_escalation_def release_for_retry_def mark_succeeded_def mark_failed_def
      begin_execution_attempt_def eval_row_def Let_def persist_runtime_state_def persist_interactive_hint_def)

text \<open>A submit either keeps the state or moves one CREATED row, together with its evaluation.\<close>

lemma submit_effect:
  assumes "submit_submission env st fault now u actor i a = (sr, a')"
  obtains (kept) "a' = a" "\<And>t e. sr = Inr (t, e) \<Longrightarrow> t \<in> set (ap_subs a) \<and> s_id t = i \<and> s_status t = SSubmitted \<and>
      s_participant_id t = cu_id actor \<and> e \<in> set (evals (ap_queue a)) \<and> e_submission_id e = i"
  | (moved) e t where "sr = Inr (t, e)" "s_id t = i" "\<exists>x\<in>set (ap_subs a). created_by i (cu_id actor) x"
      "e_submission_id e = i" "e_submission_id e \<notin> e_submission_id ` set (evals (ap_queue a))"
      "e_id e \<notin> e_id ` set (evals (ap_queue a))"
      "a' = a\<lparr>ap_subs := update_where (created_by i (cu_id actor))
          (\<lambda>s. s\<lparr>s_status := SSubmitted, s_updated_at := now\<rparr>) (ap_subs a),
        ap_queue := (ap_queue a)\<lparr>evals := evals (ap_queue a) @ [e]\<rparr>\<rparr>"
proof (cases sr)
  case (Inl x)
  then show thesis using assms kept by (auto simp: submit_submission_def dest: commit_or_keep_Inl)
next
  case (Inr x)
  obtain t0 subs where u: "transition_if_created now i (cu_id actor) SSubmitted (ap_subs a) = (t0, subs)" by force
  show thesis
  proof (cases t0)
    case None
    then show thesis
      using assms u kept unfolding submit_submission_def Inr commit_or_keep_Inr
      by (fastforce simp: try_in_def not_transitioned_def submission_get_def get_by_submission_def
          dest!: find_SomeD split: sum.splits option.splits if_splits)
  next
    case (Some t)
    have s: "subs = update_where (created_by i (cu_id actor)) (\<lambda>s. s\<lparr>s_status := SSubmitted, s_updated_at := now\<rparr>) (ap_subs a)"
      using update_returning_snd [OF u [unfolded transition_if_created_def]] .
    have "fst (update_returning (created_by i (cu_id actor)) (\<lambda>s. s\<lparr>s_status := SSubmitted, s_updated_at := now\<rparr>) (ap_subs a)) = Some t"
      using u Some by (simp add: transition_if_created_def)
    then obtain r0 where r0: "r0 \<in> set (ap_subs a)" "created_by i (cu_id actor) r0" "t = r0\<lparr>s_status := SSubmitted, s_updated_at := now\<rparr>"
      by (rule update_returning_Some)
    then have "s_id t = i" by (simp add: created_by_def)
    with r0 s show thesis
      using assms u Some moved unfolding submit_submission_def Inr commit_or_keep_Inr
      by (force simp: try_in_def Let_def create_queued_def split: sum.splits if_splits)
  qed
qed

lemma cancel_effect:
  assumes "cancel_submission fault now actor i a = (sr, a')"
  obtains "a' = a" | "a' = a\<lparr>ap_subs := update_where (created_by i (cu_id actor))
          (\<lambda>s. s\<lparr>s_status := SCancelled, s_updated_at := now\<rparr>) (ap_subs a)\<rparr>"
proof (cases sr)
  case (Inl x)
  then show thesis using assms that by (auto simp: cancel_submission_def dest: commit_or_keep_Inl)
next
  case (Inr x)
  obtain t0 subs where u: "transition_if_created now i (cu_id actor) SCancelled (ap_subs a) = (t0, subs)" by force
  have s: "subs = update_where (created_by i (cu_id actor)) (\<lambda>s. s\<lparr>s_status := SCancelled, s_updated_at := now\<rparr>) (ap_subs a)"
    using update_returning_snd [OF u [unfolded transition_if_created_def]] .
  then show thesis
    using assms u that unfolding cancel_submission_def Inr commit_or_keep_Inr
    by (auto simp: try_in_def split: sum.splits option.splits if_splits)
qed

text \<open>What a step does to the tables of submissions and of evaluations.\<close>

lemma platform_step_cases:
  assumes "platform_step env st s s'"
  obtains (same) "map (\<lambda>x. (row_request x, s_status x)) (ap_subs (pf_app s')) = map (\<lambda>x. (row_request x, s_status x)) (ap_subs (pf_app s))"
      "map eval_row (evals (ap_queue (pf_app s'))) = map eval_row (evals (ap_queue (pf_app s)))"
  | (inserted) row where "submission_constraints row (pf_app s)" "s_status row = SCreated"
      "pf_app s' = (pf_app s)\<lparr>ap_subs := ap_subs (pf_app s) @ [row]\<rparr>"
  | (submitted) i w now e where "\<exists>x\<in>set (ap_subs (pf_app s)). created_by i w x" "e_submission_id e = i"
      "e_submission_id e \<notin> e_submission_id ` set (evals (ap_queue (pf_app s)))"
      "e_id e \<notin> e_id ` set (evals (ap_queue (pf_app s)))"
      "pf_app s' = (pf_app s)\<lparr>ap_subs := update_where (created_by i w)
          (\<lambda>s. s\<lparr>s_status := SSubmitted, s_updated_at := now\<rparr>) (ap_subs (pf_app s)),
        ap_queue := (ap_queue (pf_app s))\<lparr>evals := evals (ap_queue (pf_app s)) @ [e]\<rparr>\<rparr>"
  | (cancelled) i w now where "pf_app s' = (pf_app s)\<lparr>ap_subs := update_where (created_by i w)
          (\<lambda>s. s\<lparr>s_status := SCancelled, s_updated_at := now\<rparr>) (ap_subs (pf_app s))\<rparr>"
  using assms
proof cases
  case step_create_insert
  then show thesis using create_insert_effect inserted by fastforce
next
  case (step_enqueue r sid k fault now u res a)
  then show thesis using enqueue_artifact_rows [OF step_enqueue(3)] same by simp
next
  case (step_replace_commit r row md k now)
  then show thesis by (intro same) (simp_all add: replace_commit_def map_update_where row_request_def)
next
  case (step_submit fault now u actor i sr a)
  show thesis
    by (cases rule: submit_effect [OF step_submit(2)]) (use step_submit(1) same submitted in auto)
next
  case (step_cancel fault now actor i cr a)
  show thesis
    by (cases rule: cancel_effect [OF step_cancel(2)]) (use step_cancel(1) same cancelled in auto)
next
  case (step_evaluation ev q)
  then show thesis using eval_event_rows same by simp
qed (use same in \<open>auto simp: wrote_def\<close>)


section \<open>One evaluation per submitted submission\<close>

definition tables_linked :: "app \<Rightarrow> bool" where
  "tables_linked a \<longleftrightarrow> distinct (map s_id (ap_subs a)) \<and> distinct (map e_submission_id (evals (ap_queue a))) \<and>
     distinct (map e_id (evals (ap_queue a))) \<and>
     e_submission_id ` set (evals (ap_queue a)) = s_id ` {x \<in> set (ap_subs a). s_status x = SSubmitted}"

text \<open>Both sides depend on the projections only.\<close>

lemma tables_linked_cong:
  assumes "map (\<lambda>x. (row_request x, s_status x)) (ap_subs b) = map (\<lambda>x. (row_request x, s_status x)) (ap_subs a)"
    and "map eval_row (evals (ap_queue b)) = map eval_row (evals (ap_queue a))"
  shows "tables_linked b = tables_linked a"
proof -
  have ids: "map s_id (ap_subs c) = map (\<lambda>(r, st). fst r) (map (\<lambda>x. (row_request x, s_status x)) (ap_subs c))" for c
    by (simp add: row_request_def)
  have sub: "s_id ` {x \<in> set (ap_subs c). s_status x = SSubmitted} =
      (\<lambda>(r, st). fst r) ` {y \<in> set (map (\<lambda>x. (row_request x, s_status x)) (ap_subs c)). snd y = SSubmitted}" for c
    by (force simp: row_request_def)
  have es: "map e_submission_id (evals (ap_queue c)) = map snd (map eval_row (evals (ap_queue c)))"
      "map e_id (evals (ap_queue c)) = map fst (map eval_row (evals (ap_queue c)))" for c
    by (simp_all add: eval_row_def)
  have set: "e_submission_id ` set (evals (ap_queue c)) = set (map e_submission_id (evals (ap_queue c)))" for c by simp
  show ?thesis unfolding tables_linked_def set sub es ids assms by (rule refl)
qed

lemma submitted_ids_update:
  assumes "\<And>x. s_id (f x) = s_id x"
  shows "s_id ` {y \<in> set (update_where p f subs). s_status y = SSubmitted} =
    s_id ` {x \<in> set subs. s_status (if p x then f x else x) = SSubmitted}"
proof -
  let ?g = "\<lambda>x. if p x then f x else x"
  have "{y \<in> ?g ` set subs. s_status y = SSubmitted} = ?g ` {x \<in> set subs. s_status (?g x) = SSubmitted}" by blast
  moreover have "s_id (?g x) = s_id x" for x using assms by simp
  ultimately show ?thesis by (simp only: set_update_where image_image)
qed

lemma platform_step_linked:
  assumes "platform_step env st s s'" and "tables_linked (pf_app s)"
  shows "tables_linked (pf_app s')"
  using assms(1)
proof (cases rule: platform_step_cases)
  case same
  then show ?thesis using tables_linked_cong assms(2) by blast
next
  case inserted
  then show ?thesis using assms(2) by (auto simp: tables_linked_def submission_constraints_def)
next
  case (submitted i w now e)
  let ?f = "\<lambda>x. x\<lparr>s_status := SSubmitted, s_updated_at := now\<rparr>"
  have d: "distinct (map s_id (ap_subs (pf_app s)))" using assms(2) by (simp add: tables_linked_def)
  obtain x where x: "x \<in> set (ap_subs (pf_app s))" "created_by i w x" using submitted(1) by blast
  have "created_by i w y \<longleftrightarrow> y = x" if "y \<in> set (ap_subs (pf_app s))" for y
    using that x distinct_key_eq [OF d that x(1)] by (auto simp: created_by_def)
  then have "s_id ` {y \<in> set (update_where (created_by i w) ?f (ap_subs (pf_app s))). s_status y = SSubmitted} =
      insert i (s_id ` {y \<in> set (ap_subs (pf_app s)). s_status y = SSubmitted})"
    using x by (subst submitted_ids_update) (auto simp: created_by_def)
  then show ?thesis
    using assms(2) submitted by (simp add: tables_linked_def map_update_where)
next
  case (cancelled i w now)
  let ?f = "\<lambda>x. x\<lparr>s_status := SCancelled, s_updated_at := now\<rparr>"
  have "s_id ` {y \<in> set (update_where (created_by i w) ?f (ap_subs (pf_app s))). s_status y = SSubmitted} =
      s_id ` {y \<in> set (ap_subs (pf_app s)). s_status y = SSubmitted}"
    by (subst submitted_ids_update) (auto simp: created_by_def intro!: arg_cong [of _ _ "image s_id"])
  then show ?thesis
    using assms(2) cancelled by (simp add: tables_linked_def map_update_where)
qed

lemma reachable_linked:
  assumes "(platform_step env st)\<^sup>*\<^sup>* s s'" and "tables_linked (pf_app s)"
  shows "tables_linked (pf_app s')"
  using assms by (induction rule: rtranclp_induct) (auto intro: platform_step_linked)

lemma initial_linked: "initial s \<Longrightarrow> tables_linked (pf_app s)"
  by (simp add: initial_def tables_linked_def)

text \<open>
  C5. In every reachable state a submission has exactly one evaluation when its status is SUBMITTED, and none
  otherwise: the transition and the insert are one transaction, and no later step breaks the pair.
\<close>

theorem submitted_iff_evaluated:
  assumes "initial s" and "(platform_step env st)\<^sup>*\<^sup>* s s'" and "x \<in> set (ap_subs (pf_app s'))"
  shows "length (filter (\<lambda>e. e_submission_id e = s_id x) (evals (ap_queue (pf_app s')))) =
    (if s_status x = SSubmitted then 1 else 0)"
proof -
  let ?es = "evals (ap_queue (pf_app s'))"
  have l: "tables_linked (pf_app s')" using reachable_linked [OF assms(2)] initial_linked [OF assms(1)] .
  have c: "length (filter (\<lambda>e. e_submission_id e = i) es) = (if i \<in> e_submission_id ` set es then 1 else 0)"
    if "distinct (map e_submission_id es)" for i and es :: "evaluation list"
    using that
  proof (induction es)
    case (Cons x xs)
    then show ?case by (cases "i = e_submission_id x") simp_all
  qed simp
  have d: "distinct (map s_id (ap_subs (pf_app s')))" using l by (simp add: tables_linked_def)
  have "y = x" if "y \<in> set (ap_subs (pf_app s'))" "s_id x = s_id y" for y
    using distinct_key_eq [OF d that(1) assms(3)] that(2) by simp
  then have "s_id x \<in> s_id ` {y \<in> set (ap_subs (pf_app s')). s_status y = SSubmitted} \<longleftrightarrow> s_status x = SSubmitted"
    using assms(3) by blast
  then have "s_id x \<in> e_submission_id ` set ?es \<longleftrightarrow> s_status x = SSubmitted"
    using l by (simp add: tables_linked_def)
  then show ?thesis using c [of ?es "s_id x"] l by (simp add: tables_linked_def)
qed


section \<open>Idempotent requests\<close>

text \<open>A reachable state: the two tables are linked, and an idempotency key is used once per author.\<close>

definition keys_unique :: "submission list \<Rightarrow> bool" where
  "keys_unique subs \<longleftrightarrow>
     distinct (map (\<lambda>x. (s_participant_id x, s_idempotency_key x)) (filter (\<lambda>x. s_idempotency_key x \<noteq> None) subs))"

lemma keys_unique_requests:
  assumes "map row_request subs' = map row_request subs"
  shows "keys_unique subs' = keys_unique subs"
proof -
  have "map (\<lambda>x. (s_participant_id x, s_idempotency_key x)) (filter (\<lambda>x. s_idempotency_key x \<noteq> None) xs) =
      map (\<lambda>(i, ch, p, k, f). (p, k)) (filter (\<lambda>(i, ch, p, k, f). k \<noteq> None) (map row_request xs))" for xs
    by (simp add: filter_map comp_def row_request_def)
  then show ?thesis using assms by (simp add: keys_unique_def)
qed

lemma find_by_idempotency_unique:
  assumes "keys_unique subs" and "x \<in> set subs" and "s_idempotency_key x = Some k"
  shows "find_by_idempotency (s_participant_id x) k subs = Some x"
  using assms
proof (induction subs)
  case (Cons y subs)
  show ?case
  proof (cases "x = y")
    case True
    then show ?thesis using Cons.prems by (simp add: find_by_idempotency_def)
  next
    case False
    then have x: "x \<in> set subs" using Cons.prems by simp
    then have "\<not> (s_participant_id y = s_participant_id x \<and> s_idempotency_key y = Some k)"
      using Cons.prems by (force simp: keys_unique_def)
    then show ?thesis
      using Cons x by (auto simp: find_by_idempotency_def keys_unique_def split: if_splits)
  qed
qed simp

text \<open>A step adds at most one row and changes no request.\<close>

lemma platform_step_requests:
  assumes "platform_step env st s s'"
  shows "prefix (map row_request (ap_subs (pf_app s))) (map row_request (ap_subs (pf_app s'))) \<and>
    (keys_unique (ap_subs (pf_app s)) \<longrightarrow> keys_unique (ap_subs (pf_app s')))"
  using assms
proof (cases rule: platform_step_cases)
  case same
  have m: "map row_request (ap_subs (pf_app s')) = map row_request (ap_subs (pf_app s))"
    using arg_cong [OF same(1), of "map fst"] by (simp only: map_map comp_def fst_conv)
  then show ?thesis using keys_unique_requests [OF m] by simp
next
  case (inserted row)
  then show ?thesis
    by (auto simp: submission_constraints_def keys_unique_def list_all_iff)
next
  case (submitted i w now e)
  then have m: "map row_request (ap_subs (pf_app s')) = map row_request (ap_subs (pf_app s))"
    by (simp add: map_update_where row_request_def)
  then show ?thesis using keys_unique_requests [OF m] by simp
next
  case (cancelled i w now)
  then have m: "map row_request (ap_subs (pf_app s')) = map row_request (ap_subs (pf_app s))"
    by (simp add: map_update_where row_request_def)
  then show ?thesis using keys_unique_requests [OF m] by simp
qed

lemma reachable_requests:
  assumes "(platform_step env st)\<^sup>*\<^sup>* s s'"
  shows "prefix (map row_request (ap_subs (pf_app s))) (map row_request (ap_subs (pf_app s'))) \<and>
    (keys_unique (ap_subs (pf_app s)) \<longrightarrow> keys_unique (ap_subs (pf_app s')))"
  using assms by (induction rule: rtranclp_induct) (auto dest: platform_step_requests intro: prefix_order.trans)

lemma initial_keys: "initial s \<Longrightarrow> keys_unique (ap_subs (pf_app s))"
  by (simp add: initial_def keys_unique_def)

lemma later_row:
  assumes "(platform_step env st)\<^sup>*\<^sup>* s s'" and "x \<in> set (ap_subs (pf_app s))"
  obtains y where "y \<in> set (ap_subs (pf_app s'))" and "row_request y = row_request x"
proof -
  have "row_request x \<in> set (map row_request (ap_subs (pf_app s')))"
    using set_mono_prefix [OF reachable_requests [OF assms(1), THEN conjunct1]] assms(2) by auto
  then show thesis using that by auto
qed

text \<open>The fingerprint of the request that was let through.\<close>

lemma create_begin_request:
  assumes "create_begin env st actor ch md idem art subs = Inr (Inr rq)" and "cq_key rq = Some k"
  shows "cq_actor rq = cu_id actor \<and> cq_challenge rq = ch \<and> require_participant actor = Inr () \<and>
    validate_metadata env st md = Inr (cq_metadata rq) \<and>
    strip (case idem of None \<Rightarrow> [] | Some k \<Rightarrow> k) = k \<and> k \<noteq> [] \<and>
    cq_fingerprint rq = Some (submission_request_fingerprint env ch (cq_metadata rq))"
  using assms by (auto simp: create_begin_def try_in_def Let_def split: sum.splits option.splits if_splits)

lemma create_begin_found:
  assumes "require_participant actor = Inr ()" and "validate_metadata env st md = Inr payload"
    and "strip (case idem of None \<Rightarrow> [] | Some k \<Rightarrow> k) = k" and "k \<noteq> []"
    and "find_by_idempotency (cu_id actor) k subs = Some x" and "s_request_fingerprint x = Some f" and "f \<noteq> []"
  shows "create_begin env st actor ch md idem art subs =
    (if f = submission_request_fingerprint env ch payload then Inr (Inl x)
     else Inl (ConflictError ''Idempotency-Key is already associated with a different submission request.''))"
  using assms by (simp add: create_begin_def try_in_def Let_def replay_or_conflict_def)

text \<open>
  C11. A create with an idempotency key takes effect once: after its insert, in any later state, the same
  request replays the row of the first one whatever artifact it carries, the same key with other content is
  refused with a conflict, and a request that lost the race for the key resolves to the same row.
\<close>

theorem create_idempotent:
  assumes "\<And>x. ae_sha env x \<noteq> []" and "initial s0" and "(platform_step env st)\<^sup>*\<^sup>* s0 s1"
    and "create_begin env st actor ch md idem art subs = Inr (Inr rq)" and "cq_key rq = Some k"
    and "pf_phase s1 r = QLocked rq key" and "create_insert fault now u rq key (pf_app s1) = Inr (row, a)"
    and "(platform_step env st)\<^sup>*\<^sup>* (enter r (QEnqueue (s_id row) key) (s1\<lparr>pf_app := a\<rparr>)) s2"
  shows "\<exists>row'. row' \<in> set (ap_subs (pf_app s2)) \<and> row_request row' = row_request row \<and>
    (\<forall>art'. create_begin env st actor ch md idem art' (ap_subs (pf_app s2)) = Inr (Inl row')) \<and>
    (\<forall>ch' md' payload art'. validate_metadata env st md' = Inr payload \<longrightarrow>
       submission_request_fingerprint env ch' payload \<noteq> submission_request_fingerprint env ch (cq_metadata rq) \<longrightarrow>
       create_begin env st actor ch' md' idem art' (ap_subs (pf_app s2)) =
         Inl (ConflictError ''Idempotency-Key is already associated with a different submission request.'')) \<and>
    create_resolve env IntegrityError rq (ap_subs (pf_app s2)) = Inr row'"
proof -
  note b = create_begin_request [OF assms(4,5)] and e = create_insert_effect [OF assms(7)]
  let ?s = "enter r (QEnqueue (s_id row) key) (s1\<lparr>pf_app := a\<rparr>)" and ?f = "submission_request_fingerprint env ch (cq_metadata rq)"
  have "platform_step env st s1 ?s" using step_create_insert [OF assms(6,7)] .
  then have "(platform_step env st)\<^sup>*\<^sup>* s0 s2" using assms(3,8) by (meson rtranclp.rtrancl_into_rtrancl rtranclp_trans)
  then have u: "keys_unique (ap_subs (pf_app s2))" using reachable_requests initial_keys [OF assms(2)] by blast
  have "row \<in> set (ap_subs (pf_app ?s))" using e by simp
  then obtain row' where row': "row' \<in> set (ap_subs (pf_app s2))" "row_request row' = row_request row"
    by (rule later_row [OF assms(8)])
  then have s: "s_participant_id row' = cu_id actor" "s_idempotency_key row' = Some k" "s_request_fingerprint row' = Some ?f"
    using b e assms(5) by (simp_all add: row_request_def)
  have find: "find_by_idempotency (cu_id actor) k (ap_subs (pf_app s2)) = Some row'"
    using find_by_idempotency_unique [OF u row'(1) s(2)] s(1) by simp
  have ne: "?f \<noteq> []" using assms(1) by (simp add: submission_request_fingerprint_def)
  have again: "create_begin env st actor ch' md' idem art' (ap_subs (pf_app s2)) =
      (if ?f = submission_request_fingerprint env ch' payload then Inr (Inl row')
       else Inl (ConflictError ''Idempotency-Key is already associated with a different submission request.''))"
    if "validate_metadata env st md' = Inr payload" for ch' md' payload art'
    using create_begin_found [OF _ that _ _ find s(3) ne] b by simp
  have "create_resolve env IntegrityError rq (ap_subs (pf_app s2)) = Inr row'"
    using find b assms(5) s(3) ne by (simp add: create_resolve_def replay_or_conflict_def)
  then show ?thesis using row' again b by (intro exI [of _ row']) auto
qed

lemma submitted_stays:
  assumes "(platform_step env st)\<^sup>*\<^sup>* s s'" and "tables_linked (pf_app s)" and "e \<in> set (evals (ap_queue (pf_app s)))"
  shows "tables_linked (pf_app s') \<and> (\<exists>e'\<in>set (evals (ap_queue (pf_app s'))). eval_row e' = eval_row e)"
  using assms(1)
proof (induction rule: rtranclp_induct)
  case base
  then show ?case using assms(2,3) by blast
next
  case (step y z)
  have "\<exists>e'\<in>set (evals (ap_queue (pf_app z))). eval_row e' = eval_row e"
    using step(2)
  proof (cases rule: platform_step_cases)
    case same
    have "eval_row e \<in> set (map eval_row (evals (ap_queue (pf_app z))))" unfolding same(2) set_map using step.IH by (metis image_eqI)
    then show ?thesis by force
  qed (use step.IH in auto)
  then show ?case using platform_step_linked [OF step(2)] step.IH by blast
qed

text \<open>
  C12. A submit that succeeded answers the same submission and the same evaluation whenever it is repeated,
  changes nothing then, and the submission can no longer be cancelled.
\<close>

theorem submit_idempotent:
  assumes "initial s0" and "(platform_step env st)\<^sup>*\<^sup>* s0 s1"
    and "submit_submission env st fault now u actor i (pf_app s1) = (Inr (t, e), a)"
    and "(platform_step env st)\<^sup>*\<^sup>* (s1\<lparr>pf_app := a\<rparr>) s2"
  shows "\<exists>t' e'. s_id t' = i \<and> s_status t' = SSubmitted \<and> e_id e' = e_id e \<and> e_submission_id e' = i \<and>
    (\<forall>fault' now' u'. submit_submission env st fault' now' u' actor i (pf_app s2) = (Inr (t', e'), pf_app s2)) \<and>
    (\<forall>fault' now'. cancel_submission fault' now' actor i (pf_app s2) =
       (Inl (InvalidStateTransition ''Cannot transition submission from submitted to cancelled.''), pf_app s2))"
proof -
  let ?s = "s1\<lparr>pf_app := a\<rparr>"
  have l0: "tables_linked (pf_app s1)" using reachable_linked [OF assms(2)] initial_linked [OF assms(1)] .
  have "platform_step env st s1 ?s" using step_submit [OF assms(3)] .
  then have l: "tables_linked (pf_app ?s)" using platform_step_linked l0 by blast
  have e: "e \<in> set (evals (ap_queue a)) \<and> e_submission_id e = i"
    using assms(3)
  proof (cases rule: submit_effect)
    case kept
    then show ?thesis using kept(2) [OF refl] by blast
  qed auto
  then have "e \<in> set (evals (ap_queue (pf_app ?s)))" by simp
  from submitted_stays [OF assms(4) l this] obtain e' where l2: "tables_linked (pf_app s2)" and e': "e' \<in> set (evals (ap_queue (pf_app s2)))" "eval_row e' = eval_row e" by blast
  have i: "e_submission_id e' = i" "e_id e' = e_id e" using e e'(2) by (simp_all add: eval_row_def)
  have "i \<in> e_submission_id ` set (evals (ap_queue (pf_app s2)))" using imageI [OF e'(1), of e_submission_id] i(1) by simp
  then have "i \<in> s_id ` {x \<in> set (ap_subs (pf_app s2)). s_status x = SSubmitted}" using l2 by (simp add: tables_linked_def)
  then obtain t' where t': "t' \<in> set (ap_subs (pf_app s2))" "s_id t' = i" "s_status t' = SSubmitted" by blast
  have p: "\<exists>x\<in>set (ap_subs (pf_app s1)). s_id x = i \<and> s_participant_id x = cu_id actor"
    using assms(3)
  proof (cases rule: submit_effect)
    case kept
    then show ?thesis using kept(2) [OF refl] by blast
  next
    case (moved e t)
    then show ?thesis using moved(3) by (auto simp: created_by_def)
  qed
  then obtain x where x: "x \<in> set (ap_subs (pf_app s1))" "s_id x = i" "s_participant_id x = cu_id actor" by blast
  have run: "(platform_step env st)\<^sup>*\<^sup>* s1 s2"
    using \<open>platform_step env st s1 ?s\<close> assms(4) by (rule converse_rtranclp_into_rtranclp)
  obtain y where y: "y \<in> set (ap_subs (pf_app s2))" "row_request y = row_request x"
    by (rule later_row [OF run x(1)])
  have d: "distinct (map s_id (ap_subs (pf_app s2)))" "distinct (map e_submission_id (evals (ap_queue (pf_app s2))))"
    using l2 by (simp_all add: tables_linked_def)
  have only: "z = t'" if "z \<in> set (ap_subs (pf_app s2))" "s_id z = i" for z
    using distinct_key_eq [OF d(1) that(1) t'(1)] that(2) t'(2) by simp
  have part: "s_participant_id t' = cu_id actor" using only [OF y(1)] y(2) x by (simp add: row_request_def)
  have get: "submission_get i (ap_subs (pf_app s2)) = Some t'"
    using find_distinct_key [OF d(1) t'(1)] t'(2) by (simp add: submission_get_def)
  have eval: "get_by_submission (ap_queue (pf_app s2)) i = Some e'"
    using find_distinct_key [OF d(2) e'(1)] i(1) by (simp add: get_by_submission_def)
  have none: "transition_if_created now' i (cu_id actor) st' (ap_subs (pf_app s2)) = (None, ap_subs (pf_app s2))" for now' st'
  proof -
    have "\<not> created_by i (cu_id actor) z" if "z \<in> set (ap_subs (pf_app s2))" for z
      using only [OF that] t'(3) by (auto simp: created_by_def)
    then have "find (created_by i (cu_id actor)) (ap_subs (pf_app s2)) = None" by (simp add: find_None_iff)
    then show ?thesis by (simp add: transition_if_created_def update_returning_def)
  qed
  have "require_participant actor = Inr ()"
    using assms(3) by (auto simp: submit_submission_def try_in_def commit_or_keep_def split: sum.splits)
  then show ?thesis
    using t' part get eval none i
    by (intro exI [of _ t'] exI [of _ e']) (simp add: submit_submission_def cancel_submission_def not_transitioned_def try_in_def)
qed

section \<open>A run\<close>

definition demo_env :: app_env where
  "demo_env = \<lparr>ae_sha = Cons (CHR ''h''), ae_repr = (\<lambda>x. ''0.0''), ae_float = (\<lambda>t. None)\<rparr>"

definition participant_two :: current_user where
  "participant_two = \<lparr>cu_id = 2, cu_name = ''Bo'', cu_role = PARTICIPANT\<rparr>"

definition demo_catalog :: catalog where
  "demo_catalog = (example_catalog HPublished [draft_challenge\<lparr>c_status := CPublished\<rparr>])
     \<lparr>ct_users := [\<lparr>u_id = 2, u_name = ''Bo'', u_role = PARTICIPANT, u_created_at = 0\<rparr>]\<rparr>"

definition demo_platform :: platform where
  "demo_platform = \<lparr>
     pf_app = \<lparr>ap_catalog = demo_catalog, ap_subs = [], ap_queue = \<lparr>evals = [], sched = None\<rparr>, ap_jobs = []\<rparr>,
     pf_files = [], pf_phase = (\<lambda>r. QIdle), pf_blobs = []\<rparr>"

definition demo_artifact :: artifact where
  "demo_artifact = \<lparr>af_bytes = ''x'', af_content_type = None, af_filename = Some ''a.txt''\<rparr>"

definition demo_request :: create_request where
  "demo_request = \<lparr>cq_actor = 2, cq_challenge = 5, cq_metadata = [], cq_key = Some ''k'',
     cq_fingerprint = Some (submission_request_fingerprint demo_env 5 []), cq_artifact = Some demo_artifact\<rparr>"

definition demo_key :: string where "demo_key = artifact_key_for 5 2 9 (Some ''a.txt'')"

definition demo_row :: submission where
  "demo_row = \<lparr>s_id = 11, s_challenge_id = 5, s_participant_id = 2, s_status = SCreated, s_metadata = [],
     s_artifact_key = Some demo_key, s_idempotency_key = Some ''k'',
     s_request_fingerprint = Some (submission_request_fingerprint demo_env 5 []),
     s_created_at = 0, s_updated_at = 0, s_failure_reason = None\<rparr>"

definition demo_evaluation :: evaluation where
  "demo_evaluation = \<lparr>e_id = 12, e_submission_id = 11, e_status = EQueued, e_created_at = 0,
     e_started_at = None, e_completed_at = None, e_attempt_count = 0, e_failure_reason = None,
     e_score = None, e_result_metadata = [], e_worker_id = None,
     e_workload_class = Light, e_current_stage = 0, e_mode = ''legacy'', e_deadline_at = None\<rparr>"

lemma demo_initial: "initial demo_platform"
  by (simp add: initial_def demo_platform_def)

lemma demo_begin:
  "create_begin demo_env default_settings participant_two 5 None (Some ''k'') art [] =
     Inr (Inr (demo_request\<lparr>cq_artifact := art\<rparr>))"
  by (simp add: create_begin_def require_participant_def is_participant_def participant_two_def try_in_def
      validate_metadata_def default_settings_def demo_request_def find_by_idempotency_def Let_def
      strip_def strip_by_def rstrip_by_def is_space_def utf8_def)

lemma put_empty:
  assumes "resolve k = Inr p" and "p \<noteq> []"
  shows "\<exists>fs. put t k d ct [] = (Inr k, fs)"
proof -
  have "\<not> strict_prefix q q'" if "length q = length q'" for q q' :: path
    using prefix_length_less [of q q'] that by auto
  moreover have "length (sidecar p) = length p" "sidecar p \<noteq> []" using assms(2) by (simp_all add: sidecar_def add_suffix_def)
  moreover have "length (tmp_of p) = length p" using assms(2) by (simp add: tmp_of_def add_suffix_def)
  ultimately have "creatable [(p, b)] (sidecar p)" "creatable [(tmp_of p, b)] p" for b
    using assms(2) by (simp_all add: creatable_def is_dir_def)
  moreover have "creatable [] q" if "q \<noteq> []" for q using that by (simp add: creatable_def is_dir_def)
  moreover have "tmp_of p \<noteq> []" by (simp add: tmp_of_def add_suffix_def)
  ultimately show ?thesis using assms by (simp add: put_def put_steps_def finish_put_def)
qed

lemma demo_lock: "\<exists>fs. create_lock default_settings 0 9 demo_request demo_catalog [] = (Inr (Some demo_key), fs)"
proof -
  obtain p where "resolve demo_key = Inr p" "blob_path 9 p"
    unfolding demo_key_def by (rule artifact_blob_path)
  moreover from this have "p \<noteq> []" by (auto simp: blob_path_def)
  ultimately obtain fs where "put 0 demo_key ''x'' ''application/octet-stream'' [] = (Inr demo_key, fs)"
    using put_empty by blast
  then show ?thesis
    by (simp add: create_lock_def lock_open_challenge_def challenge_get_def challenge_row_def demo_catalog_def
        example_catalog_def draft_challenge_def challenge_to_domain_def hackathon_get_def demo_request_def store_artifact_def
        demo_artifact_def default_settings_def content_type_or_default_def demo_key_def)
qed

lemma demo_insert:
  "create_insert False 0 11 demo_request (Some demo_key) (pf_app demo_platform) =
     Inr (demo_row, (pf_app demo_platform)\<lparr>ap_subs := [demo_row]\<rparr>)"
  by (simp add: create_insert_def submission_add_def demo_request_def demo_row_def demo_platform_def Let_def
      submission_constraints_def challenge_row_def user_get_def demo_catalog_def example_catalog_def draft_challenge_def)

lemma demo_created:
  "\<exists>s. (platform_step demo_env default_settings)\<^sup>*\<^sup>* demo_platform s \<and> pf_phase s 0 = QLocked demo_request (Some demo_key) \<and>
     pf_app s = pf_app demo_platform \<and> (\<forall>r. r \<noteq> 0 \<longrightarrow> pf_phase s r = QIdle)"
proof -
  obtain fs where fs: "create_lock default_settings 0 9 demo_request demo_catalog [] = (Inr (Some demo_key), fs)"
    using demo_lock by blast
  let ?s = "enter 0 (QCreate demo_request) demo_platform"
  have "demo_request\<lparr>cq_artifact := Some demo_artifact\<rparr> = demo_request" by (simp add: demo_request_def)
  then have "platform_step demo_env default_settings demo_platform ?s"
    using demo_begin [of "Some demo_artifact"]
    by (intro step_create_begin) (auto simp: demo_platform_def)
  moreover have "platform_step demo_env default_settings ?s (wrote 0 9
      (artifact_key_for (cq_challenge demo_request) (cq_actor demo_request) 9 (file_name_of (cq_artifact demo_request))) fs
      (QLocked demo_request (Some demo_key)) ?s)"
    using step_create_lock [of ?s 0 demo_request 9 default_settings 0 "Inr (Some demo_key)" fs demo_env] fs
    by (simp add: demo_platform_def fresh_blob_def uuid_ok_def)
  ultimately have "(platform_step demo_env default_settings)\<^sup>*\<^sup>* demo_platform (wrote 0 9
      (artifact_key_for (cq_challenge demo_request) (cq_actor demo_request) 9 (file_name_of (cq_artifact demo_request))) fs
      (QLocked demo_request (Some demo_key)) ?s)"
    by (rule rtranclp.rtrancl_into_rtrancl [OF r_into_rtranclp])
  then show ?thesis by (intro exI conjI) (auto simp: wrote_def demo_platform_def)
qed

lemma demo_submit:
  "submit_submission demo_env default_settings False 0 12 participant_two 11 ((pf_app demo_platform)\<lparr>ap_subs := [demo_row]\<rparr>) =
     (Inr (demo_row\<lparr>s_status := SSubmitted\<rparr>, demo_evaluation),
      (pf_app demo_platform)\<lparr>ap_subs := [demo_row\<lparr>s_status := SSubmitted\<rparr>], ap_queue := \<lparr>evals = [demo_evaluation], sched = None\<rparr>\<rparr>)"
  by (simp add: submit_submission_def require_participant_def is_participant_def participant_two_def
      transition_if_created_def update_returning_def update_where_def created_by_def demo_row_def demo_platform_def
      Let_def deadline_of_def create_queued_def try_in_def demo_evaluation_def
      mode_for_def default_settings_def)

text \<open>The run on: the insert, then the submit.\<close>

lemma demo_submitted:
  obtains s1 s2 where "(platform_step demo_env default_settings)\<^sup>*\<^sup>* demo_platform s1"
    and "pf_phase s1 0 = QLocked demo_request (Some demo_key)" and "pf_app s1 = pf_app demo_platform"
    and "s2 = enter 0 (QEnqueue 11 (Some demo_key)) (s1\<lparr>pf_app := (pf_app demo_platform)\<lparr>ap_subs := [demo_row]\<rparr>\<rparr>)"
    and "(platform_step demo_env default_settings)\<^sup>*\<^sup>* demo_platform s2" and "\<forall>r. r \<noteq> 0 \<longrightarrow> pf_phase s2 r = QIdle"
proof -
  obtain s where s: "(platform_step demo_env default_settings)\<^sup>*\<^sup>* demo_platform s"
      "pf_phase s 0 = QLocked demo_request (Some demo_key)" "pf_app s = pf_app demo_platform"
      "\<forall>r. r \<noteq> 0 \<longrightarrow> pf_phase s r = QIdle"
    using demo_created by blast
  have "platform_step demo_env default_settings s (enter 0 (QEnqueue (s_id demo_row) (Some demo_key))
      (s\<lparr>pf_app := (pf_app demo_platform)\<lparr>ap_subs := [demo_row]\<rparr>\<rparr>))"
    using demo_insert by (intro step_create_insert [OF s(2)]) (simp add: s(3))
  moreover have "s_id demo_row = 11" by (simp add: demo_row_def)
  ultimately show thesis using that [OF s(1-3) refl] s(1,4) by (force intro: rtranclp.rtrancl_into_rtrancl)
qed

theorem artifacts_readable_witness:
  "\<exists>s p d. (platform_step demo_env default_settings)\<^sup>*\<^sup>* demo_platform s \<and> ap_subs (pf_app s) = [demo_row] \<and>
     resolve demo_key = Inr p \<and> read_file (pf_files s) p = Some d"
proof -
  obtain s1 s2 where s2: "(platform_step demo_env default_settings)\<^sup>*\<^sup>* demo_platform s2"
      "s2 = enter 0 (QEnqueue 11 (Some demo_key)) (s1\<lparr>pf_app := (pf_app demo_platform)\<lparr>ap_subs := [demo_row]\<rparr>\<rparr>)"
    by (rule demo_submitted)
  have "ap_subs (pf_app s2) = [demo_row]" by (simp add: s2(2))
  then show ?thesis
    using artifacts_readable [OF demo_initial s2(1), of demo_row demo_key] s2(1) by (auto simp: demo_row_def)
qed

theorem submitted_iff_evaluated_witness:
  "\<exists>s. (platform_step demo_env default_settings)\<^sup>*\<^sup>* demo_platform s \<and> ap_subs (pf_app s) = [demo_row] \<and>
     length (filter (\<lambda>e. e_submission_id e = 11) (evals (ap_queue (pf_app s)))) = 0"
proof -
  obtain s1 s2 where s2: "(platform_step demo_env default_settings)\<^sup>*\<^sup>* demo_platform s2"
      "s2 = enter 0 (QEnqueue 11 (Some demo_key)) (s1\<lparr>pf_app := (pf_app demo_platform)\<lparr>ap_subs := [demo_row]\<rparr>\<rparr>)"
    by (rule demo_submitted)
  have "ap_subs (pf_app s2) = [demo_row]" by (simp add: s2(2))
  then show ?thesis
    using submitted_iff_evaluated [OF demo_initial s2(1), of demo_row] s2(1) by (auto simp: demo_row_def)
qed

theorem create_idempotent_witness:
  "\<exists>s row'. (platform_step demo_env default_settings)\<^sup>*\<^sup>* demo_platform s \<and>
     create_begin demo_env default_settings participant_two 5 None (Some ''k'') None (ap_subs (pf_app s)) = Inr (Inl row')"
proof -
  have sha: "\<And>x. ae_sha demo_env x \<noteq> []" by (simp add: demo_env_def)
  obtain s1 s2 where s: "(platform_step demo_env default_settings)\<^sup>*\<^sup>* demo_platform s1"
      "pf_phase s1 0 = QLocked demo_request (Some demo_key)" "pf_app s1 = pf_app demo_platform"
      "s2 = enter 0 (QEnqueue 11 (Some demo_key)) (s1\<lparr>pf_app := (pf_app demo_platform)\<lparr>ap_subs := [demo_row]\<rparr>\<rparr>)"
      "(platform_step demo_env default_settings)\<^sup>*\<^sup>* demo_platform s2"
    by (rule demo_submitted)
  have i: "create_insert False 0 11 demo_request (Some demo_key) (pf_app s1) =
      Inr (demo_row, (pf_app demo_platform)\<lparr>ap_subs := [demo_row]\<rparr>)"
    using demo_insert by (simp add: s(3))
  have b: "create_begin demo_env default_settings participant_two 5 None (Some ''k'') (Some demo_artifact) [] = Inr (Inr demo_request)"
    using demo_begin [of "Some demo_artifact"] by (simp add: demo_request_def)
  have k: "cq_key demo_request = Some ''k''" by (simp add: demo_request_def)
  have "(platform_step demo_env default_settings)\<^sup>*\<^sup>*
      (enter 0 (QEnqueue (s_id demo_row) (Some demo_key)) (s1\<lparr>pf_app := (pf_app demo_platform)\<lparr>ap_subs := [demo_row]\<rparr>\<rparr>)) s2"
    by (simp add: s(4) demo_row_def)
  from create_idempotent [OF sha demo_initial s(1) b k s(2) i this] show ?thesis using s(5) by blast
qed

theorem submit_idempotent_witness:
  "\<exists>s t' e'. (platform_step demo_env default_settings)\<^sup>*\<^sup>* demo_platform s \<and>
     submit_submission demo_env default_settings False 7 13 participant_two 11 (pf_app s) = (Inr (t', e'), pf_app s) \<and> e_id e' = 12"
proof -
  obtain s1 s2 where s: "(platform_step demo_env default_settings)\<^sup>*\<^sup>* demo_platform s2"
      "s2 = enter 0 (QEnqueue 11 (Some demo_key)) (s1\<lparr>pf_app := (pf_app demo_platform)\<lparr>ap_subs := [demo_row]\<rparr>\<rparr>)"
    by (rule demo_submitted)
  define a where "a = (pf_app demo_platform)\<lparr>ap_subs := [demo_row\<lparr>s_status := SSubmitted\<rparr>], ap_queue := \<lparr>evals = [demo_evaluation], sched = None\<rparr>\<rparr>"
  have sub: "submit_submission demo_env default_settings False 0 12 participant_two 11 (pf_app s2) =
      (Inr (demo_row\<lparr>s_status := SSubmitted\<rparr>, demo_evaluation), a)"
    using demo_submit by (simp add: s(2) a_def)
  have run: "(platform_step demo_env default_settings)\<^sup>*\<^sup>* demo_platform (s2\<lparr>pf_app := a\<rparr>)"
    using s(1) step_submit [OF sub] by (rule rtranclp.rtrancl_into_rtrancl)
  obtain t' e' where "e_id e' = e_id demo_evaluation"
      "\<forall>fault' now' u'. submit_submission demo_env default_settings fault' now' u' participant_two 11 (pf_app (s2\<lparr>pf_app := a\<rparr>)) =
         (Inr (t', e'), pf_app (s2\<lparr>pf_app := a\<rparr>))"
    using submit_idempotent [OF demo_initial s(1) sub rtranclp.rtrancl_refl] by blast
  then show ?thesis using run by (metis demo_evaluation_def evaluation.select_convs(1))
qed

section \<open>Three defects\<close>

text \<open>
  An update that read the row before a submit can commit after it: the row is then SUBMITTED with the
  metadata and the artifact of the update, while its evaluation was made from the old ones.
\<close>

theorem update_after_submit:
  assumes "distinct (map s_id (ap_subs a))" and "update_begin actor i (ap_subs a) = Inr row"
    and "submit_submission env st fault now u actor i a = (Inr (t, e), a1)"
  shows "\<exists>x\<in>set (ap_subs (replace_commit now' row (Some md) (Some k) a1)). s_id x = i \<and> s_status x = SSubmitted \<and>
    s_metadata x = md \<and> s_artifact_key x = Some k \<and> e \<in> set (evals (ap_queue (replace_commit now' row (Some md) (Some k) a1)))"
proof -
  note r = update_begin_row [OF assms(2)]
  show ?thesis
    using assms(3)
  proof (cases rule: submit_effect)
    case kept
    then have t: "t \<in> set (ap_subs a)" "s_id t = i" "s_status t = SSubmitted" using kept(2) [OF refl] by blast+
    have "s_id t = s_id row" using t(2) r by simp
    then have "t = row" using distinct_key_eq [OF assms(1) t(1)] r by blast
    then show ?thesis using t(3) r by simp
  next
    case (moved e2 t2)
    let ?x = "row\<lparr>s_status := SSubmitted, s_updated_at := now\<rparr>"
    have "created_by i (cu_id actor) row" using r by (simp add: created_by_def)
    then have "?x \<in> set (ap_subs a1)" using r moved(7) by (auto simp: set_update_where intro!: rev_image_eqI [of row])
    then have "?x\<lparr>s_metadata := md, s_artifact_key := Some k, s_updated_at := now'\<rparr> \<in>
        set (ap_subs (replace_commit now' row (Some md) (Some k) a1))"
      by (auto simp: replace_commit_def set_update_where intro!: rev_image_eqI [of ?x])
    moreover have "e \<in> set (evals (ap_queue a1))" using moved by simp
    ultimately show ?thesis using r by (intro bexI) (simp_all add: replace_commit_def)
  qed
qed

theorem update_after_submit_witness:
  "\<exists>x a. submit_submission demo_env default_settings False 0 12 participant_two 11 ((pf_app demo_platform)\<lparr>ap_subs := [demo_row]\<rparr>) =
       (Inr (demo_row\<lparr>s_status := SSubmitted\<rparr>, demo_evaluation), a) \<and>
     x \<in> set (ap_subs (replace_commit 1 demo_row (Some [(''k'', JNull)]) (Some ''n'') a)) \<and>
     s_status x = SSubmitted \<and> s_metadata x = [(''k'', JNull)] \<and> s_artifact_key x = Some ''n''"
proof -
  have "distinct (map s_id (ap_subs ((pf_app demo_platform)\<lparr>ap_subs := [demo_row]\<rparr>)))" by simp
  moreover have "update_begin participant_two 11 (ap_subs ((pf_app demo_platform)\<lparr>ap_subs := [demo_row]\<rparr>)) = Inr demo_row"
    by (simp add: update_begin_def submission_get_def demo_row_def participant_two_def)
  ultimately show ?thesis
    using update_after_submit [OF _ _ demo_submit, of demo_row 1 "[(''k'', JNull)]" "''n''"] demo_submit by blast
qed

text \<open>
  A crash between the commit of a create and its enqueue leaves a submission whose artifact has no
  ingestion job, and the retry of the request is a replay that enqueues nothing.
\<close>

theorem lost_ingestion_job:
  "\<exists>s. (platform_step demo_env default_settings)\<^sup>*\<^sup>* demo_platform s \<and> (\<forall>r. pf_phase s r = QIdle) \<and>
     ap_subs (pf_app s) = [demo_row] \<and> s_artifact_key demo_row = Some demo_key \<and> ap_jobs (pf_app s) = [] \<and>
     create_begin demo_env default_settings participant_two 5 None (Some ''k'') (Some demo_artifact) (ap_subs (pf_app s)) =
       Inr (Inl demo_row)"
proof -
  obtain s1 s2 where s: "(platform_step demo_env default_settings)\<^sup>*\<^sup>* demo_platform s2"
      "s2 = enter 0 (QEnqueue 11 (Some demo_key)) (s1\<lparr>pf_app := (pf_app demo_platform)\<lparr>ap_subs := [demo_row]\<rparr>\<rparr>)"
      "\<forall>r. r \<noteq> 0 \<longrightarrow> pf_phase s2 r = QIdle"
    by (rule demo_submitted)
  let ?s = "enter 0 QIdle s2" and ?f = "submission_request_fingerprint demo_env 5 []"
  have run: "(platform_step demo_env default_settings)\<^sup>*\<^sup>* demo_platform ?s"
    using s(1) step_crash by (rule rtranclp.rtrancl_into_rtrancl)
  have app: "pf_app ?s = (pf_app demo_platform)\<lparr>ap_subs := [demo_row]\<rparr>" by (simp add: s(2))
  have "?f \<noteq> []" by (simp add: demo_env_def submission_request_fingerprint_def)
  moreover have "validate_metadata demo_env default_settings None = Inr []"
    using create_begin_request [OF demo_begin [of None], of "''k''"] by (simp add: demo_request_def)
  moreover have "strip ''k'' = ''k''" by (simp add: strip_def strip_by_def rstrip_by_def is_space_def)
  ultimately have "create_begin demo_env default_settings participant_two 5 None (Some ''k'') (Some demo_artifact) [demo_row] =
      Inr (Inl demo_row)"
    by (subst create_begin_found [where k = "''k''" and x = demo_row and f = ?f and payload = "[]"])
      (simp_all add: require_participant_def is_participant_def participant_two_def find_by_idempotency_def demo_row_def)
  then show ?thesis using run s(3) app by (intro exI [of _ ?s]) (simp add: demo_row_def demo_platform_def)
qed

text \<open>
  A deadline beyond the year 9999 makes every submit of the submission fail with an uncaught overflow.
\<close>

theorem far_deadline_never_submits:
  assumes "transition_if_created now i (cu_id actor) SSubmitted (ap_subs a) = (Some t, subs)"
    and "dict_get (s_metadata t) ''evaluation_deadline_seconds'' = Some (JInt n)" and "MAX_DATETIME < now + n * 1000000"
    and "is_participant actor"
  shows "submit_submission env st fault now u actor i a = (Inl OverflowError, a)"
proof -
  have "round_half_even (of_int n * 1000000 :: real) = n * 1000000"
    using round_half_even_int [of "n * 1000000"] by simp
  then have "deadline_of env now (Some (JInt n)) = Inl OverflowError"
    using assms(3) by (simp add: deadline_of_def add_seconds_def)
  then show ?thesis using assms by (simp add: submit_submission_def require_participant_def try_in_def Let_def)
qed

theorem far_deadline_never_submits_witness:
  "submit_submission demo_env default_settings False 0 12 participant_two 11
     ((pf_app demo_platform)\<lparr>ap_subs := [demo_row\<lparr>s_metadata := [(''evaluation_deadline_seconds'', JInt 1000000000000)]\<rparr>]\<rparr>) =
   (Inl OverflowError,
     (pf_app demo_platform)\<lparr>ap_subs := [demo_row\<lparr>s_metadata := [(''evaluation_deadline_seconds'', JInt 1000000000000)]\<rparr>]\<rparr>)"
proof -
  let ?r = "demo_row\<lparr>s_metadata := [(''evaluation_deadline_seconds'', JInt 1000000000000)]\<rparr>"
  have "transition_if_created 0 11 (cu_id participant_two) SSubmitted (ap_subs ((pf_app demo_platform)\<lparr>ap_subs := [?r]\<rparr>)) =
      (Some (?r\<lparr>s_status := SSubmitted\<rparr>), [?r\<lparr>s_status := SSubmitted\<rparr>])"
    by (simp add: transition_if_created_def update_returning_def update_where_def created_by_def demo_row_def participant_two_def)
  from far_deadline_never_submits [OF this, of 1000000000000] show ?thesis
    by (simp add: demo_row_def MAX_DATETIME_def is_participant_def participant_two_def)
qed

end
