(* ===== verification/Api.thy ===== *)
theory Api
  imports Request_Identity Eval_Views Platform_Tables
begin

text \<open>
  The HTTP routes of \<open>api/routes/\<close> with the schemas of their responses: identification, the service call, the
  serialisation of its result, and the error handlers. A request is given as its route with
  typed parameters, as the framework has parsed it; \<open>handle_request\<close> runs it alone, and \<open>Platform\<close> has the
  interleavings of the services it calls.
\<close>

section \<open>Response schemas\<close>

fun hackathon_status_value :: "hackathon_status \<Rightarrow> string" where
  "hackathon_status_value HDraft = ''draft''"
| "hackathon_status_value HPublished = ''published''"
| "hackathon_status_value HClosed = ''closed''"

fun challenge_status_value :: "challenge_status \<Rightarrow> string" where
  "challenge_status_value CDraft = ''draft''"
| "challenge_status_value CPublished = ''published''"
| "challenge_status_value CClosed = ''closed''"

fun user_role_value :: "user_role \<Rightarrow> string" where
  "user_role_value ORGANIZER = ''organizer''"
| "user_role_value PARTICIPANT = ''participant''"

record user_response =
  ur_id :: uuid
  ur_display_name :: string
  ur_role :: string

record hackathon_response =
  hr_id :: uuid
  hr_title :: string
  hr_description :: string
  hr_status :: string
  hr_organizer_id :: uuid
  hr_created_at :: datetime
  hr_updated_at :: datetime

record challenge_response =
  cp_id :: uuid
  cp_hackathon_id :: uuid
  cp_title :: string
  cp_description :: string
  cp_constraints :: string
  cp_status :: string
  cp_specification :: "string \<times> datetime \<times> datetime"
  cp_evaluation_criteria :: "(uuid \<times> string \<times> string \<times> int) list"
  cp_created_at :: datetime
  cp_updated_at :: datetime

record submission_response =
  sr_id :: uuid
  sr_challenge_id :: uuid
  sr_participant_id :: uuid
  sr_status :: string
  sr_metadata :: dict
  sr_artifact_key :: "string option"
  sr_created_at :: datetime
  sr_updated_at :: datetime
  sr_failure_reason :: "string option"
  sr_idempotent_replay :: "bool option"
  sr_evaluation_id :: "uuid option"
  sr_evaluation_status :: "string option"
  sr_evaluation_async :: "bool option"
  sr_evaluation_health :: "string option"
  sr_evaluation_message :: "string option"
  sr_estimated_wait_seconds :: "real option"

record evaluation_response =
  vr_id :: uuid
  vr_submission_id :: uuid
  vr_status :: string
  vr_estimated_jobs_ahead :: "nat option"
  vr_estimated_wait_seconds :: "real option"
  vr_estimate_is_approximate :: bool
  vr_score :: "int option"
  vr_failure_message :: "string option"
  vr_created_at :: datetime
  vr_started_at :: "datetime option"
  vr_completed_at :: "datetime option"
  vr_submission_accepted :: bool
  vr_message :: string

record backlog_response =
  br_health :: string
  br_queued_count :: nat
  br_running_count :: nat
  br_succeeded_count :: nat
  br_failed_count :: nat
  br_oldest_queue_age_seconds :: "real option"
  br_estimated_wait_seconds :: "real option"
  br_recent_service_rate_per_second :: "real option"
  br_message :: string
  br_submissions_accepted :: bool
  br_estimate_is_approximate :: bool
  br_pressure_state :: string
  br_adaptive_max_workers :: "int option"
  br_resource_runtime_enabled :: bool

record organizer_queue_response = backlog_response +
  br_light_queued_count :: nat
  br_medium_queued_count :: nat
  br_heavy_queued_count :: nat
  br_worker_capacity :: int

definition serialize_user :: "user \<Rightarrow> user_response" where
  "serialize_user u = \<lparr>ur_id = u_id u, ur_display_name = u_name u, ur_role = user_role_value (u_role u)\<rparr>"

definition serialize_hackathon :: "hackathon \<Rightarrow> hackathon_response" where
  "serialize_hackathon h = \<lparr>hr_id = h_id h, hr_title = h_title h, hr_description = h_description h,
     hr_status = hackathon_status_value (h_status h), hr_organizer_id = h_organizer_id h,
     hr_created_at = h_created_at h, hr_updated_at = h_updated_at h\<rparr>"

text \<open>The row of a specification is written with its challenge, and nothing updates it later.\<close>

definition serialize_challenge :: "challenge \<Rightarrow> challenge_response" where
  "serialize_challenge c = \<lparr>cp_id = c_id c, cp_hackathon_id = c_hackathon_id c, cp_title = c_title c,
     cp_description = c_description c, cp_constraints = c_constraints c, cp_status = challenge_status_value (c_status c),
     cp_specification = (c_spec_body c, c_created_at c, c_created_at c),
     cp_evaluation_criteria = map (\<lambda>r. (cr_id r, cr_name r, cr_description r, cr_weight r)) (c_criteria c),
     cp_created_at = c_created_at c, cp_updated_at = c_updated_at c\<rparr>"

definition serialize_submission ::
  "bool option \<Rightarrow> evaluation option \<Rightarrow> backlog_status option \<Rightarrow> submission \<Rightarrow> submission_response" where
  "serialize_submission replayed evaluation backlog s = \<lparr>sr_id = s_id s, sr_challenge_id = s_challenge_id s,
     sr_participant_id = s_participant_id s, sr_status = submission_status_value (s_status s),
     sr_metadata = s_metadata s, sr_artifact_key = s_artifact_key s, sr_created_at = s_created_at s,
     sr_updated_at = s_updated_at s, sr_failure_reason = s_failure_reason s, sr_idempotent_replay = replayed,
     sr_evaluation_id = map_option e_id evaluation,
     sr_evaluation_status = map_option (evaluation_status_value \<circ> e_status) evaluation,
     sr_evaluation_async = map_option (\<lambda>e. True) evaluation,
     sr_evaluation_health = map_option (health_value \<circ> bl_health) backlog,
     sr_evaluation_message = (case backlog of Some b \<Rightarrow> Some (bl_message b)
       | None \<Rightarrow> map_option (\<lambda>e. ''Your submission was accepted. Evaluation happens asynchronously.'') evaluation),
     sr_estimated_wait_seconds = None\<rparr>"

definition serialize_evaluation :: "participant_view \<Rightarrow> evaluation_response" where
  "serialize_evaluation v = \<lparr>vr_id = pv_id v, vr_submission_id = pv_submission_id v,
     vr_status = evaluation_status_value (pv_status v), vr_estimated_jobs_ahead = pv_estimated_jobs_ahead v,
     vr_estimated_wait_seconds = pv_estimated_wait_seconds v, vr_estimate_is_approximate = pv_estimate_is_approximate v,
     vr_score = pv_score v, vr_failure_message = pv_failure_message v, vr_created_at = pv_created_at v,
     vr_started_at = pv_started_at v, vr_completed_at = pv_completed_at v,
     vr_submission_accepted = pv_submission_accepted v, vr_message = pv_message v\<rparr>"

definition serialize_backlog :: "backlog_status \<Rightarrow> backlog_response" where
  "serialize_backlog b = \<lparr>br_health = health_value (bl_health b), br_queued_count = bl_queued_count b,
     br_running_count = bl_running_count b, br_succeeded_count = bl_succeeded_count b,
     br_failed_count = bl_failed_count b, br_oldest_queue_age_seconds = bl_oldest_queue_age_seconds b,
     br_estimated_wait_seconds = bl_estimated_wait_seconds b,
     br_recent_service_rate_per_second = bl_recent_service_rate_per_second b, br_message = bl_message b,
     br_submissions_accepted = bl_submissions_accepted b, br_estimate_is_approximate = bl_estimate_is_approximate b,
     br_pressure_state = bl_pressure_state b, br_adaptive_max_workers = bl_adaptive_max_workers b,
     br_resource_runtime_enabled = bl_resource_runtime_enabled b\<rparr>"

definition serialize_organizer_queue :: "backlog_status \<Rightarrow> organizer_queue_response" where
  "serialize_organizer_queue b = backlog_response.extend (serialize_backlog b)
     (organizer_queue_response.fields (bl_light_queued_count b) (bl_medium_queued_count b) (bl_heavy_queued_count b)
        (bl_worker_capacity b))"

section \<open>Routes\<close>

datatype route =
    RtHealth | RtReady | RtDevUsers | RtMe
  | RtListHackathons | RtCreateHackathon string string | RtGetHackathon uuid | RtPublishHackathon uuid
  | RtListChallenges uuid
  | RtCreateChallenge uuid string string string string "(string \<times> string \<times> int) list"
  | RtGetChallenge uuid | RtPublishChallenge uuid | RtCloseChallenge uuid | RtListSubmissions uuid
  | RtCreateSubmission uuid dict "string option" | RtGetSubmission uuid | RtUpdateSubmission uuid dict
  | RtAttach uuid string "string option" "string option" "string option"
  | RtSubmit uuid | RtCancel uuid | RtEvaluation uuid | RtBacklog | RtOrganizerQueue | RtUserSubmissions uuid

datatype body =
    BStatus string | BUsers "user_response list" | BUser user_response
  | BHackathons "hackathon_response list" | BHackathon hackathon_response
  | BChallenges "challenge_response list" | BChallenge challenge_response
  | BSubmissions "submission_response list" | BSubmission submission_response
  | BEvaluation evaluation_response | BBacklog backlog_response | BQueue organizer_queue_response
  | BError error_report

record http_request =
  rq_user_header :: "string option"
  rq_user_cookie :: "string option"
  rq_request_id :: string
  rq_route :: route

record http_response =
  rp_status :: nat
  rp_body :: body

text \<open>
  What a request meets: the clocks, the identifiers drawn, the failing commits, and the text of
  the framework about a payload outside its schema.
\<close>

record call_env =
  ce_now :: datetime
  ce_time :: real
  ce_uuids :: "uuid \<times> uuid \<times> uuid"
  ce_criterion :: "nat \<Rightarrow> uuid"
  ce_faults :: "bool \<times> bool"
  ce_schema_errors :: string

type_synonym state = "app \<times> files"
type_synonym answer = "exn + nat \<times> body"

definition reply :: "nat \<Rightarrow> ('a \<Rightarrow> body) \<Rightarrow> exn + 'a \<Rightarrow> answer" where
  "reply status f r = map_sum id (\<lambda>x. (status, f x)) r"

definition reading :: "answer \<Rightarrow> state \<Rightarrow> answer \<times> state" where
  "reading r s = (r, s)"

text \<open>A service call on the catalog, and one on all tables.\<close>

definition on_catalog :: "nat \<Rightarrow> ('a \<Rightarrow> body) \<Rightarrow> (exn + 'a) \<times> catalog \<Rightarrow> state \<Rightarrow> answer \<times> state" where
  "on_catalog status f x s = (reply status f (fst x), (fst s)\<lparr>ap_catalog := snd x\<rparr>, snd s)"

definition on_app :: "nat \<Rightarrow> ('a \<Rightarrow> body) \<Rightarrow> (exn + 'a) \<times> app \<Rightarrow> state \<Rightarrow> answer \<times> state" where
  "on_app status f x s = (reply status f (fst x), snd x, snd s)"

definition on_state :: "('a \<Rightarrow> nat) \<Rightarrow> ('a \<Rightarrow> body) \<Rightarrow> (exn + 'a) \<times> state \<Rightarrow> answer \<times> state" where
  "on_state status f x = (map_sum id (\<lambda>y. (status y, f y)) (fst x), snd x)"

abbreviation plain_submission :: "submission \<Rightarrow> body" where
  "plain_submission \<equiv> \<lambda>s. BSubmission (serialize_submission None None None s)"

text \<open>The routes that need no identity.\<close>

fun handle_public :: "route \<Rightarrow> catalog \<Rightarrow> (nat \<times> body) option" where
  "handle_public RtHealth c = Some (200, BStatus ''ok'')"
| "handle_public RtReady c = Some (200, BStatus ''ready'')"
| "handle_public RtDevUsers c = Some (200, BUsers (map serialize_user (list_all_users c)))"
| "handle_public _ c = None"

text \<open>The routes of \<open>api/routes/hackathons.py\<close>, for the user that was identified.\<close>

fun handle_hackathons :: "call_env \<Rightarrow> current_user \<Rightarrow> route \<Rightarrow> state \<Rightarrow> answer \<times> state" where
  "handle_hackathons ce actor RtListHackathons s =
     reading (Inr (200, BHackathons (map serialize_hackathon (list_hackathons actor (ap_catalog (fst s)))))) s"
| "handle_hackathons ce actor (RtCreateHackathon title description) s =
     on_catalog 201 (BHackathon \<circ> serialize_hackathon)
       (create_hackathon (ce_now ce) (fst (ce_uuids ce)) actor title description (ap_catalog (fst s))) s"
| "handle_hackathons ce actor (RtGetHackathon i) s =
     reading (reply 200 (BHackathon \<circ> serialize_hackathon) (get_hackathon actor i (ap_catalog (fst s)))) s"
| "handle_hackathons ce actor (RtPublishHackathon i) s =
     on_catalog 200 (BHackathon \<circ> serialize_hackathon) (publish_hackathon (ce_now ce) actor i (ap_catalog (fst s))) s"
| "handle_hackathons ce actor (RtListChallenges i) s =
     reading (reply 200 (BChallenges \<circ> map serialize_challenge) (list_for_hackathon actor i (ap_catalog (fst s)))) s"
| "handle_hackathons ce actor (RtCreateChallenge i title description constraints spec criteria) s =
     on_catalog 201 (BChallenge \<circ> serialize_challenge)
       (create_challenge (ce_now ce) (fst (ce_uuids ce)) (ce_criterion ce) actor i title description constraints spec
          criteria (ap_catalog (fst s))) s"
| "handle_hackathons ce actor _ s = reading (Inl (NotFoundError ''Not Found'')) s"

text \<open>Those of \<open>api/routes/challenges.py\<close>, and the rest.\<close>

fun handle_route :: "app_env \<Rightarrow> settings \<Rightarrow> call_env \<Rightarrow> current_user \<Rightarrow> route \<Rightarrow> state \<Rightarrow> answer \<times> state" where
  "handle_route env st ce actor RtMe s = reading (Inr (200, BUser \<lparr>ur_id = cu_id actor, ur_display_name = cu_name actor,
     ur_role = user_role_value (cu_role actor)\<rparr>)) s"
| "handle_route env st ce actor (RtGetChallenge i) s =
     reading (reply 200 (BChallenge \<circ> serialize_challenge) (get_challenge actor i (ap_catalog (fst s)))) s"
| "handle_route env st ce actor (RtPublishChallenge i) s =
     on_catalog 200 (BChallenge \<circ> serialize_challenge) (publish_challenge (ce_now ce) actor i (ap_catalog (fst s))) s"
| "handle_route env st ce actor (RtCloseChallenge i) s =
     on_catalog 200 (BChallenge \<circ> serialize_challenge) (close_challenge (ce_now ce) actor i (ap_catalog (fst s))) s"
| "handle_route env st ce actor (RtListSubmissions i) s =
     reading (reply 200 (BSubmissions \<circ> map (serialize_submission None None None)) (list_submissions actor i (fst s))) s"
| "handle_route env st ce actor (RtCreateSubmission i md key) s =
     on_state (\<lambda>(x, replayed). if replayed then 200 else 201)
       (\<lambda>(x, replayed). BSubmission (serialize_submission (Some replayed) None None x))
       (create_submission env st (ce_faults ce) (ce_time ce, ce_now ce) (ce_uuids ce) actor i (Some md) key None s)"
| "handle_route env st ce actor (RtGetSubmission i) s = reading (reply 200 plain_submission (get_submission actor i (fst s))) s"
| "handle_route env st ce actor (RtUpdateSubmission i md) s =
     on_state (\<lambda>x. 200) plain_submission
       (update_created env st (ce_faults ce) (ce_time ce, ce_now ce) (snd (ce_uuids ce)) actor i (Some md) None s)"
| "handle_route env st ce actor (RtAttach i content content_type filename expected) s =
     on_state (\<lambda>x. 200) plain_submission
       (attach_artifact env st (ce_faults ce) (ce_time ce, ce_now ce) (ce_uuids ce) actor i content content_type filename expected s)"
| "handle_route env st ce actor (RtSubmit i) s =
     (let x = submit_submission env st (fst (ce_faults ce)) (ce_now ce) (fst (ce_uuids ce)) actor i (fst s);
          backlog = get_backlog_status st (ce_now ce) (ap_queue (snd x))
      in on_app 200 (\<lambda>(t, e). BSubmission (serialize_submission None (Some e) (Some backlog) t)) x s)"
| "handle_route env st ce actor (RtCancel i) s =
     on_app 200 plain_submission (cancel_submission (fst (ce_faults ce)) (ce_now ce) actor i (fst s)) s"
| "handle_route env st ce actor (RtEvaluation i) s =
     reading (reply 200 (BEvaluation \<circ> serialize_evaluation) (get_participant_view actor i (fst s))) s"
| "handle_route env st ce actor RtBacklog s =
     reading (Inr (200, BBacklog (serialize_backlog (get_backlog_status st (ce_now ce) (ap_queue (fst s)))))) s"
| "handle_route env st ce actor RtOrganizerQueue s =
     reading (reply 200 (BQueue \<circ> serialize_organizer_queue) (get_organizer_queue st (ce_now ce) actor (ap_queue (fst s)))) s"
| "handle_route env st ce actor (RtUserSubmissions u) s =
     reading (reply 200 (BSubmissions \<circ> map (serialize_submission None None None)) (list_for_user actor u (fst s))) s"
| "handle_route env st ce actor rt s = handle_hackathons ce actor rt s"

text \<open>The constraint of the schemas: the weight of a criterion is at least 1.\<close>

fun schema_ok :: "route \<Rightarrow> bool" where
  "schema_ok (RtCreateChallenge i title description constraints spec criteria) = list_all (\<lambda>(nm, d, w). w \<ge> 1) criteria"
| "schema_ok _ = True"

definition error_response :: "string \<Rightarrow> exn \<Rightarrow> http_response" where
  "error_response request_id e =
     \<lparr>rp_status = http_status e, rp_body = BError (error_body request_id (error_code e) (error_message e))\<rparr>"

definition respond :: "string \<Rightarrow> answer \<Rightarrow> http_response" where
  "respond request_id r =
     (case r of Inl e \<Rightarrow> error_response request_id e | Inr (status, b) \<Rightarrow> \<lparr>rp_status = status, rp_body = b\<rparr>)"

text \<open>Identification comes before the check of the payload.\<close>

definition handle_request ::
  "app_env \<Rightarrow> settings \<Rightarrow> call_env \<Rightarrow> http_request \<Rightarrow> state \<Rightarrow> http_response \<times> state" where
  "handle_request env st ce rq s =
     (case handle_public (rq_route rq) (ap_catalog (fst s)) of
        Some r \<Rightarrow> (respond (rq_request_id rq) (Inr r), s)
      | None \<Rightarrow>
          (case get_current_user (rq_user_header rq) (rq_user_cookie rq) (ap_catalog (fst s)) of
             Inl e \<Rightarrow> (respond (rq_request_id rq) (Inl e), s)
           | Inr actor \<Rightarrow>
               if \<not> schema_ok (rq_route rq)
               then (\<lparr>rp_status = 422,
                      rp_body = BError (error_body (rq_request_id rq) ''request_validation_failed'' (ce_schema_errors ce))\<rparr>, s)
               else (let (r, s') = handle_route env st ce actor (rq_route rq) s
                     in (respond (rq_request_id rq) r, s'))))"

end
