(* ===== verification/Execution.thy ===== *)
theory Execution
  imports Ownership
begin

text \<open>
  Synthetic execution, \<^verbatim>\<open>execution/\<close> and \<^verbatim>\<open>evaluation/synthetic_execution.py\<close>: the environment given to the
  child process, the capped output reader, the poll loop of the process executor with the
  classification of its outcome, and the contract that maps an outcome to a decision about the
  evaluation.

  What the operating system does is given as data: the chunks a stream yields, the observations the
  poll loop makes in each round (clock, exit code, process count, resident memory, workspace
  size) and what is left after the process tree was terminated.
\<close>

section \<open>The environment of the child\<close>

definition OS_ALLOWLIST :: "string list" where
  "OS_ALLOWLIST = [''PATH'', ''SYSTEMROOT'', ''WINDIR'', ''PATHEXT'', ''COMSPEC'', ''LANG'', ''LC_ALL'']"

definition FORBIDDEN_SECRET_NAMES :: "string list" where
  "FORBIDDEN_SECRET_NAMES = [''DATABASE_URL'', ''TEST_DATABASE_URL'', ''ADMIN_DATABASE_URL'',
     ''EXPERIMENT_DATABASE_URL'', ''AWS_SECRET_ACCESS_KEY'', ''AWS_ACCESS_KEY_ID'',
     ''AZURE_CLIENT_SECRET'', ''GOOGLE_APPLICATION_CREDENTIALS'', ''OPENAI_API_KEY'',
     ''ANTHROPIC_API_KEY'', ''GITHUB_TOKEN'', ''GH_TOKEN'', ''SSH_AUTH_SOCK'', ''CF_API_SECRET'',
     ''SECRET_KEY'', ''POSTGRES_PASSWORD'']"

type_synonym environ = "string \<rightharpoonup> string"

text \<open>\<open>src_root\<close> is the directory of the package; an empty attempt id counts as none.\<close>

definition build_execution_env ::
  "string \<Rightarrow> string \<Rightarrow> environ \<Rightarrow> (string \<times> string) list \<Rightarrow> bool \<Rightarrow> string option \<Rightarrow> environ" where
  "build_execution_env src_root work_dir host extra include_pythonpath attempt_id =
     (let env0 = (\<lambda>k. if k \<in> set OS_ALLOWLIST \<and> host k \<noteq> None \<and> host k \<noteq> Some [] then host k else None);
          env1 = env0(''CF_WORKSPACE'' \<mapsto> work_dir, ''TMPDIR'' \<mapsto> work_dir, ''TEMP'' \<mapsto> work_dir,
                      ''TMP'' \<mapsto> work_dir, ''PYTHONUNBUFFERED'' \<mapsto> ''1'');
          env2 = (case attempt_id of
                    Some i \<Rightarrow> (if i = [] then env1 else env1(''CF_EXECUTION_ATTEMPT_ID'' \<mapsto> i))
                  | None \<Rightarrow> env1);
          env3 = (if include_pythonpath then env2(''PYTHONPATH'' \<mapsto> src_root) else env2);
          env4 = fold (\<lambda>(k, v) env. if k \<in> set FORBIDDEN_SECRET_NAMES then env else env(k \<mapsto> v)) extra env3
      in (\<lambda>k. if k \<in> set FORBIDDEN_SECRET_NAMES then None else env4 k))"

definition assert_no_forbidden_secrets :: "environ \<Rightarrow> string list" where
  "assert_no_forbidden_secrets env = sort (filter (\<lambda>k. env k \<noteq> None) FORBIDDEN_SECRET_NAMES)"

lemma fold_extra_absent:
  "k \<notin> fst ` set extra \<Longrightarrow>
   fold (\<lambda>(k, v) env. if k \<in> set bad then env else env(k \<mapsto> v)) extra env k = env k"
  by (induction extra arbitrary: env) auto

text \<open>
  The child process sees no secret of the host: whatever the host environment and the extra
  variables are, none of the forbidden names is set, and a variable that is neither injected by the
  executor nor passed as an extra is one of the allowlisted operating-system variables.
\<close>

theorem child_env_no_secrets:
  "assert_no_forbidden_secrets (build_execution_env src wd host extra pp att) = [] \<and>
   dom (build_execution_env src wd host extra pp att) \<subseteq>
     set OS_ALLOWLIST \<union> fst ` set extra \<union>
     {''CF_WORKSPACE'', ''TMPDIR'', ''TEMP'', ''TMP'', ''PYTHONUNBUFFERED'', ''CF_EXECUTION_ATTEMPT_ID'',
      ''PYTHONPATH''}"
proof
  show "assert_no_forbidden_secrets (build_execution_env src wd host extra pp att) = []"
    by (simp add: assert_no_forbidden_secrets_def build_execution_env_def Let_def filter_empty_conv)
  show "dom (build_execution_env src wd host extra pp att) \<subseteq> set OS_ALLOWLIST \<union> fst ` set extra \<union>
     {''CF_WORKSPACE'', ''TMPDIR'', ''TEMP'', ''TMP'', ''PYTHONUNBUFFERED'', ''CF_EXECUTION_ATTEMPT_ID'',
      ''PYTHONPATH''}"
  proof
    fix k
    assume k: "k \<in> dom (build_execution_env src wd host extra pp att)"
    show "k \<in> set OS_ALLOWLIST \<union> fst ` set extra \<union>
     {''CF_WORKSPACE'', ''TMPDIR'', ''TEMP'', ''TMP'', ''PYTHONUNBUFFERED'', ''CF_EXECUTION_ATTEMPT_ID'',
      ''PYTHONPATH''}"
    proof (cases "k \<in> fst ` set extra")
      case False
      with k show ?thesis
        by (cases att) (auto simp: build_execution_env_def Let_def fold_extra_absent dom_def split: if_splits)
    qed simp
  qed
qed

section \<open>The capped output reader\<close>

record stream_cap =
  sc_buf :: string
  sc_truncated :: bool

text \<open>One iteration of \<open>_StreamCap._run\<close>, for a chunk that is not empty.\<close>

definition cap_chunk :: "int \<Rightarrow> string \<Rightarrow> stream_cap \<Rightarrow> stream_cap" where
  "cap_chunk max_bytes chunk s =
     (let remaining = max_bytes - int (length (sc_buf s))
      in if remaining \<le> 0 then s\<lparr>sc_truncated := True\<rparr>
         else if int (length chunk) > remaining then
           s\<lparr>sc_buf := sc_buf s @ take (nat remaining) chunk, sc_truncated := True\<rparr>
         else s\<lparr>sc_buf := sc_buf s @ chunk\<rparr>)"

text \<open>The reader stops at the first empty chunk (end of stream).\<close>

fun cap_run :: "int \<Rightarrow> string list \<Rightarrow> stream_cap \<Rightarrow> stream_cap" where
  "cap_run max_bytes [] s = s"
| "cap_run max_bytes (chunk # chunks) s =
     (if chunk = [] then s else cap_run max_bytes chunks (cap_chunk max_bytes chunk s))"

definition new_cap :: stream_cap where
  "new_cap = \<lparr>sc_buf = [], sc_truncated = False\<rparr>"

lemma cap_run_spec:
  assumes "[] \<notin> set chunks" and "0 \<le> m"
    and "sc_buf s = take (nat m) pre" and "sc_truncated s \<longleftrightarrow> m < int (length pre)"
  shows "sc_buf (cap_run m chunks s) = take (nat m) (pre @ concat chunks) \<and>
    (sc_truncated (cap_run m chunks s) \<longleftrightarrow> m < int (length (pre @ concat chunks)))"
  using assms(1,3,4)
proof (induction chunks arbitrary: s pre)
  case Nil
  then show ?case by simp
next
  case (Cons c chunks)
  have c: "0 < length c" using Cons.prems(1) by (cases c) auto
  have "nat (m - int n) = nat m - n" for n using assms(2) by (simp add: nat_diff_distrib')
  then have buf: "sc_buf (cap_chunk m c s) = take (nat m) (pre @ c)"
    using Cons.prems(2) assms(2) by (auto simp: cap_chunk_def Let_def)
  moreover have "sc_truncated (cap_chunk m c s) \<longleftrightarrow> m < int (length (pre @ c))"
    using Cons.prems(2,3) assms(2) c by (auto simp: cap_chunk_def Let_def)
  ultimately have "sc_buf (cap_run m chunks (cap_chunk m c s)) = take (nat m) ((pre @ c) @ concat chunks) \<and>
    (sc_truncated (cap_run m chunks (cap_chunk m c s)) \<longleftrightarrow> m < int (length ((pre @ c) @ concat chunks)))"
    using Cons.prems(1) by (intro Cons.IH) auto
  with c show ?case by auto
qed

text \<open>
  The output cap is exact: however the stream is cut into chunks, the buffer holds the first
  \<open>max_bytes\<close> bytes of the output, and the output is flagged as truncated exactly when it is longer
  than that.
\<close>

theorem stream_cap_exact:
  assumes "[] \<notin> set chunks" and "0 \<le> max_bytes"
  shows "sc_buf (cap_run max_bytes chunks new_cap) = take (nat max_bytes) (concat chunks) \<and>
    (sc_truncated (cap_run max_bytes chunks new_cap) \<longleftrightarrow> max_bytes < int (length (concat chunks)))"
  using cap_run_spec [OF assms, of new_cap "[]"] assms(2) by (simp add: new_cap_def)

theorem stream_cap_exact_witness:
  "sc_buf (cap_run 5 [''abc'', ''defg'', ''h''] new_cap) = ''abcde'' \<and>
   sc_truncated (cap_run 5 [''abc'', ''defg'', ''h''] new_cap)"
  using stream_cap_exact [of "[''abc'', ''defg'', ''h'']" 5] by simp

section \<open>Limits and the poll loop\<close>

record execution_limits =
  wall_timeout_seconds :: real
  max_stdout_bytes :: int
  max_stderr_bytes :: int
  max_process_count :: "int option"
  max_job_memory_mb :: "real option"
  max_rss_mb :: "real option"
  rss_poll_interval_seconds :: real
  max_cpu_seconds :: "real option"
  cpu_rate_percent :: "real option"
  max_workspace_bytes :: "int option"
  workspace_poll_interval_seconds :: real
  grace_terminate_seconds :: real
  cleanup_deadline_seconds :: real
  workspace_retain_on_failure :: bool

definition default_limits :: execution_limits where
  "default_limits = \<lparr>wall_timeout_seconds = 5, max_stdout_bytes = 256 * 1024, max_stderr_bytes = 256 * 1024,
     max_process_count = None, max_job_memory_mb = None, max_rss_mb = None,
     rss_poll_interval_seconds = 1 / 10, max_cpu_seconds = None, cpu_rate_percent = None,
     max_workspace_bytes = None, workspace_poll_interval_seconds = 15 / 100,
     grace_terminate_seconds = 1 / 2, cleanup_deadline_seconds = 5, workspace_retain_on_failure = False\<rparr>"

datatype enforcement = Enforced | Observed | NotEnforced | EnforcedThrottle

definition budget_enforcement_matrix :: "bool \<Rightarrow> (string \<times> enforcement) list" where
  "budget_enforcement_matrix job_objects =
     (let os_enforced = (\<lambda>weak. if job_objects then Enforced else weak)
      in [(''wall_timeout'', Enforced), (''stdout_cap'', Enforced), (''stderr_cap'', Enforced),
          (''process_count'', os_enforced Observed), (''job_memory'', os_enforced NotEnforced),
          (''rss_soft_watch'', Enforced), (''peak_rss'', Observed),
          (''cpu_user_time'', os_enforced NotEnforced),
          (''cpu_rate'', if job_objects then EnforcedThrottle else NotEnforced),
          (''cpu_accounting'', Observed), (''workspace_bytes'', Enforced),
          (''process_tree_cleanup'', Enforced), (''workspace_cleanup'', Enforced),
          (''scrubbed_env'', Enforced), (''kill_on_job_close'', os_enforced NotEnforced),
          (''network_deny'', NotEnforced), (''cgroup_cpu_quota'', NotEnforced),
          (''cgroup_memory'', NotEnforced), (''filesystem_jail'', NotEnforced)])"

datatype run_status =
    Succeeded | Failed | Timeout | OutputLimit | ProcessLimit | MemoryLimit | CpuLimit
  | WorkspaceLimit | StartError

text \<open>
  What one round of the loop can see. \<open>po_exit\<close> is \<open>proc.poll()\<close>; \<open>po_truncated\<close> are the two
  flags after the readers were joined; \<open>po_children\<close> and \<open>po_rss\<close> are \<open>None\<close> when \<open>psutil\<close> raises.
\<close>

record poll_obs =
  po_now :: real
  po_out_hit :: bool
  po_err_hit :: bool
  po_exit :: "int option"
  po_truncated :: "bool \<times> bool"
  po_children :: "nat option"
  po_rss :: "real option"
  po_workspace_bytes :: int

record poll_state =
  pk_peak_rss :: "real option"
  pk_peak_procs :: int
  pk_peak_workspace :: int
  pk_last_rss_poll :: real
  pk_last_ws_poll :: real

definition poll_start :: poll_state where
  "poll_start = \<lparr>pk_peak_rss = None, pk_peak_procs = 1, pk_peak_workspace = 0, pk_last_rss_poll = 0,
     pk_last_ws_poll = 0\<rparr>"

definition classify_resource_exit :: "int \<Rightarrow> execution_limits \<Rightarrow> (run_status \<times> string) option" where
  "classify_resource_exit rc lm =
     (if max_cpu_seconds lm \<noteq> None \<and> \<bar>rc\<bar> > 1000 then Some (CpuLimit, ''job_user_time'') else None)"

text \<open>The branch for a process that has exited with \<open>rc\<close>.\<close>

definition classify_exit :: "execution_limits \<Rightarrow> int \<Rightarrow> bool \<times> bool \<Rightarrow> run_status \<times> string option" where
  "classify_exit lm rc truncated =
     (if fst truncated \<or> snd truncated
      then (OutputLimit, Some (if fst truncated then ''stdout'' else ''stderr''))
      else case classify_resource_exit rc lm of
        Some (s, r) \<Rightarrow> (s, Some r)
      | None \<Rightarrow> (if rc \<noteq> 0 then Failed else Succeeded, None))"

text \<open>Process count, resident memory and workspace of a round in which the process still runs.\<close>

definition poll_limits ::
  "execution_limits \<Rightarrow> poll_obs \<Rightarrow> poll_state \<Rightarrow> (run_status \<times> string) option \<times> poll_state" where
  "poll_limits lm ob s =
     (let now = po_now ob;
          s = (case po_children ob of None \<Rightarrow> s
               | Some n \<Rightarrow> s\<lparr>pk_peak_procs := max (pk_peak_procs s) (1 + int n)\<rparr>);
          procs_hit = (case (po_children ob, max_process_count lm) of
                         (Some n, Some k) \<Rightarrow> 1 + int n \<ge> k | _ \<Rightarrow> False)
      in if procs_hit then (Some (ProcessLimit, ''active_process_limit''), s)
         else
           let rss_due = now - pk_last_rss_poll s \<ge> rss_poll_interval_seconds lm;
               s = (if rss_due then s\<lparr>pk_last_rss_poll := now\<rparr> else s);
               s = (case po_rss ob of
                      Some r \<Rightarrow> (if rss_due
                        then s\<lparr>pk_peak_rss := Some (case pk_peak_rss s of None \<Rightarrow> r | Some p \<Rightarrow> max p r)\<rparr> else s)
                    | None \<Rightarrow> s);
               rss_hit = (rss_due \<and> (case (po_rss ob, max_rss_mb lm) of
                            (Some r, Some m) \<Rightarrow> r > m | _ \<Rightarrow> False))
           in if rss_hit then (Some (MemoryLimit, ''rss_soft_watch''), s)
              else case max_workspace_bytes lm of
                     None \<Rightarrow> (None, s)
                   | Some m \<Rightarrow>
                       if now - pk_last_ws_poll s \<ge> workspace_poll_interval_seconds lm then
                         (let b = po_workspace_bytes ob;
                              s = s\<lparr>pk_last_ws_poll := now, pk_peak_workspace := max (pk_peak_workspace s) b\<rparr>
                          in if b > m then (Some (WorkspaceLimit, ''workspace_bytes''), s) else (None, s))
                       else (None, s))"

text \<open>The loop over the rounds; \<open>None\<close> when the observations end before the loop does.\<close>

fun poll_loop ::
  "execution_limits \<Rightarrow> real \<Rightarrow> poll_obs list \<Rightarrow> poll_state \<Rightarrow> (run_status \<times> string option \<times> poll_state) option" where
  "poll_loop lm deadline [] s = None"
| "poll_loop lm deadline (ob # obs) s =
     (if po_now ob \<ge> deadline then Some (Timeout, Some ''wall_timeout'', s)
      else if po_out_hit ob \<or> po_err_hit ob
      then Some (OutputLimit, Some (if po_out_hit ob then ''stdout'' else ''stderr''), s)
      else case po_exit ob of
        Some rc \<Rightarrow> (let (st, r) = classify_exit lm rc (po_truncated ob) in Some (st, r, s))
      | None \<Rightarrow>
          (case poll_limits lm ob s of
             (Some (st, r), s') \<Rightarrow> Some (st, Some r, s')
           | (None, s') \<Rightarrow> poll_loop lm deadline obs s'))"

definition wall_deadline :: "execution_limits \<Rightarrow> real \<Rightarrow> real" where
  "wall_deadline lm started = started + max (5 / 100) (wall_timeout_seconds lm)"

lemma poll_loop_stops:
  assumes "\<exists>ob\<in>set obs. deadline \<le> po_now ob"
  shows "\<exists>r. poll_loop lm deadline obs s = Some r"
  using assms
proof (induction obs arbitrary: s)
  case Nil
  then show ?case by simp
next
  case (Cons ob obs)
  show ?case
  proof (cases "po_now ob \<ge> deadline \<or> po_out_hit ob \<or> po_err_hit ob")
    case True
    then show ?thesis by auto
  next
    case False
    with Cons show ?thesis by (auto split: option.splits prod.splits)
  qed
qed

text \<open>
  C40. The wall timeout ends every execution: each round of the loop sleeps 20 ms, so when the clock of
  round \<open>i\<close> is at least \<open>started + 0.02 i\<close>, the loop has stopped within
  \<open>max 0.05 timeout / 0.02 + 1\<close> rounds, whatever the child process does.
\<close>

theorem poll_loop_bounded:
  assumes "\<And>i. i < length obs \<Longrightarrow> started + 2 / 100 * real i \<le> po_now (obs ! i)"
    and "max (5 / 100) (wall_timeout_seconds lm) / (2 / 100) + 1 < real (length obs)"
  shows "\<exists>st why s'. poll_loop lm (wall_deadline lm started) obs s = Some (st, why, s')"
proof -
  let ?i = "length obs - 1"
  have i: "?i < length obs" using assms(2) by (cases obs) (auto simp: max_def field_simps split: if_splits)
  have "real ?i = real (length obs) - 1" using i by (cases obs) auto
  then have "max (5 / 100) (wall_timeout_seconds lm) \<le> 2 / 100 * real ?i"
    using assms(2) by (simp add: field_simps)
  then have "wall_deadline lm started \<le> po_now (obs ! ?i)"
    using assms(1) [OF i] unfolding wall_deadline_def by linarith
  then have "\<exists>ob\<in>set obs. wall_deadline lm started \<le> po_now ob"
    using i nth_mem by blast
  then show ?thesis using poll_loop_stops by (metis prod_cases3)
qed

definition silent_obs :: "real \<Rightarrow> poll_obs" where
  "silent_obs t = \<lparr>po_now = t, po_out_hit = False, po_err_hit = False, po_exit = None,
     po_truncated = (False, False), po_children = Some 0, po_rss = None, po_workspace_bytes = 0\<rparr>"

theorem poll_loop_bounded_witness:
  "\<exists>st why s'. poll_loop default_limits (wall_deadline default_limits 0)
     (map (\<lambda>i. silent_obs (2 / 100 * real i)) [0..<300]) poll_start = Some (st, why, s')"
  using poll_loop_bounded [of "map (\<lambda>i. silent_obs (2 / 100 * real i)) [0..<300]" 0 default_limits poll_start]
  by (simp add: silent_obs_def default_limits_def)

text \<open>
  The process-count limit stops an execution that is within it: a round in which the number of
  processes is exactly the configured maximum already ends the run as \<open>process_limit\<close>; with a
  maximum of one, that is every round of a workload that starts no process at all.
\<close>

theorem process_limit_hits_at_maximum:
  assumes "po_exit ob = None" and "po_now ob < deadline" and "\<not> po_out_hit ob" and "\<not> po_err_hit ob"
    and "po_children ob = Some n" and "max_process_count lm = Some (1 + int n)"
  shows "\<exists>s'. poll_loop lm deadline (ob # obs) s = Some (ProcessLimit, Some ''active_process_limit'', s')"
  using assms by (simp add: poll_limits_def Let_def)

theorem process_limit_hits_at_maximum_witness:
  "\<exists>s'. poll_loop (default_limits\<lparr>max_process_count := Some 1\<rparr>) 5 [silent_obs 0] poll_start
     = Some (ProcessLimit, Some ''active_process_limit'', s')"
  using process_limit_hits_at_maximum [of "silent_obs 0" 5 0 "default_limits\<lparr>max_process_count := Some 1\<rparr>" "[]" poll_start]
  by (simp add: silent_obs_def)

section \<open>One execution\<close>

fun run_status_value :: "run_status \<Rightarrow> string" where
  "run_status_value Succeeded = ''succeeded''"
| "run_status_value Failed = ''failed''"
| "run_status_value Timeout = ''timeout''"
| "run_status_value OutputLimit = ''output_limit''"
| "run_status_value ProcessLimit = ''process_limit''"
| "run_status_value MemoryLimit = ''memory_limit''"
| "run_status_value CpuLimit = ''cpu_limit''"
| "run_status_value WorkspaceLimit = ''workspace_limit''"
| "run_status_value StartError = ''error''"

record execution_result =
  er_workload :: string
  er_status :: run_status
  er_exit_code :: "int option"
  er_wall_ms :: real
  er_startup_ms :: real
  er_cleanup_ms :: real
  er_stdout_bytes :: nat
  er_stderr_bytes :: nat
  er_stdout_truncated :: bool
  er_stderr_truncated :: bool
  er_peak_rss_mb :: "real option"
  er_process_count_peak :: int
  er_peak_workspace_bytes :: "int option"
  er_leaked_pids :: "int list"
  er_workspace :: "string option"
  er_workspace_cleaned :: bool
  er_root_pid :: "int option"
  er_ownership :: string
  er_limit_reason :: "string option"

text \<open>What the operating system does during one execution.\<close>

record exec_world =
  xw_popen_error :: bool
  xw_pid :: int
  xw_workspace :: string
  xw_ownership :: string
  xw_started :: real
  xw_obs :: "poll_obs list"
  xw_out_chunks :: "string list"
  xw_err_chunks :: "string list"
  xw_tree :: "int list"
  xw_alive_at_end :: "int \<Rightarrow> bool"
  xw_exit_at_end :: "int option"
  xw_rss_at_end :: "real option"
  xw_workspace_exists :: "nat \<Rightarrow> bool"
  xw_workspace_bytes_at_end :: int
  xw_wall_ms :: real
  xw_startup_ms :: real
  xw_cleanup_ms :: real

text \<open>\<open>_terminate_tree\<close>: the pids of the tree that are still alive after the kills.\<close>

definition terminate_tree :: "exec_world \<Rightarrow> int list" where
  "terminate_tree w = filter (xw_alive_at_end w) (xw_tree w @ [xw_pid w])"

text \<open>\<open>xw_workspace_exists k\<close>: whether the directory exists after \<open>k\<close> attempts to remove it.\<close>

definition cleanup_workspace :: "bool \<Rightarrow> (nat \<Rightarrow> bool) \<Rightarrow> bool" where
  "cleanup_workspace keep ex =
     (if keep then False
      else if \<not> ex 0 then True
      else if list_ex (\<lambda>k. \<not> ex (k + 1)) [0..<5] then True
      else \<not> ex 6)"

text \<open>Re-classification after the forced termination, and the signals the workload printed.\<close>

definition reclassify_cpu ::
  "execution_limits \<Rightarrow> int option \<Rightarrow> run_status \<times> string option \<Rightarrow> run_status \<times> string option" where
  "reclassify_cpu lm exit_code sr =
     (if fst sr = Succeeded \<and> max_cpu_seconds lm \<noteq> None then
        (case exit_code of
           None \<Rightarrow> sr
         | Some rc \<Rightarrow> (if rc \<noteq> 0 \<and> \<bar>rc\<bar> > 1000 then (CpuLimit, Some ''job_user_time'') else sr))
      else sr)"

definition or_signal :: "string option \<Rightarrow> string option" where
  "or_signal r = (case r of Some (c # cs) \<Rightarrow> r | _ \<Rightarrow> Some ''workload_signal'')"

definition classify_signals :: "string \<Rightarrow> run_status \<times> string option \<Rightarrow> run_status \<times> string option" where
  "classify_signals combined sr =
     (if fst sr \<in> {Succeeded, Failed} then
        (if contains ''cf_process_limit'' combined then (ProcessLimit, or_signal (snd sr))
         else if contains ''cf_memory_limit'' combined then (MemoryLimit, or_signal (snd sr))
         else if contains ''cf_workspace_limit'' combined then (WorkspaceLimit, or_signal (snd sr))
         else sr)
      else sr)"

text \<open>\<open>ProcessExecutor.run\<close>; \<open>None\<close> only when the given observations stop before the loop does.\<close>

definition executor_run :: "execution_limits \<Rightarrow> exec_world \<Rightarrow> string \<Rightarrow> execution_result option" where
  "executor_run lm w workload =
     (if xw_popen_error w then
        Some \<lparr>er_workload = workload, er_status = StartError, er_exit_code = None, er_wall_ms = xw_wall_ms w,
          er_startup_ms = 0, er_cleanup_ms = 0, er_stdout_bytes = 0, er_stderr_bytes = 0,
          er_stdout_truncated = False, er_stderr_truncated = False, er_peak_rss_mb = None,
          er_process_count_peak = 0, er_peak_workspace_bytes = None, er_leaked_pids = [],
          er_workspace = Some (xw_workspace w), er_workspace_cleaned = True, er_root_pid = None,
          er_ownership = xw_ownership w, er_limit_reason = None\<rparr>
      else case poll_loop lm (wall_deadline lm (xw_started w)) (xw_obs w) poll_start of
        None \<Rightarrow> None
      | Some (st, why, s) \<Rightarrow>
          let out = cap_run (max_stdout_bytes lm) (xw_out_chunks w) new_cap;
              err = cap_run (max_stderr_bytes lm) (xw_err_chunks w) new_cap;
              (st, why) = reclassify_cpu lm (xw_exit_at_end w) (st, why);
              cleaned = cleanup_workspace (workspace_retain_on_failure lm \<and> st \<noteq> Succeeded)
                (xw_workspace_exists w);
              (st, why) = classify_signals (sc_buf out @ sc_buf err) (st, why);
              peak_ws = (if pk_peak_workspace s = 0 \<and> xw_workspace_exists w 0
                         then xw_workspace_bytes_at_end w else pk_peak_workspace s)
          in Some \<lparr>er_workload = workload, er_status = st, er_exit_code = xw_exit_at_end w,
               er_wall_ms = xw_wall_ms w, er_startup_ms = xw_startup_ms w, er_cleanup_ms = xw_cleanup_ms w,
               er_stdout_bytes = length (sc_buf out), er_stderr_bytes = length (sc_buf err),
               er_stdout_truncated = sc_truncated out, er_stderr_truncated = sc_truncated err,
               er_peak_rss_mb = (case pk_peak_rss s of None \<Rightarrow> xw_rss_at_end w | Some r \<Rightarrow> Some r),
               er_process_count_peak = pk_peak_procs s,
               er_peak_workspace_bytes = (if peak_ws = 0 then None else Some peak_ws),
               er_leaked_pids = terminate_tree w, er_workspace = Some (xw_workspace w),
               er_workspace_cleaned = cleaned, er_root_pid = Some (xw_pid w),
               er_ownership = xw_ownership w, er_limit_reason = why\<rparr>)"

definition result_dict :: "execution_result \<Rightarrow> dict" where
  "result_dict r =
     [(''workload'', JStr (er_workload r)), (''status'', JStr (run_status_value (er_status r))),
      (''exit_code'', JOpt JInt (er_exit_code r)), (''wall_ms'', JFloat (py_round 3 (er_wall_ms r))),
      (''startup_ms'', JFloat (py_round 3 (er_startup_ms r))),
      (''cleanup_ms'', JFloat (py_round 3 (er_cleanup_ms r))),
      (''stdout_bytes'', JInt (int (er_stdout_bytes r))), (''stderr_bytes'', JInt (int (er_stderr_bytes r))),
      (''stdout_truncated'', JBool (er_stdout_truncated r)),
      (''stderr_truncated'', JBool (er_stderr_truncated r)),
      (''peak_rss_mb'', JOpt (\<lambda>x. JFloat (py_round 3 x)) (er_peak_rss_mb r)),
      (''process_count_peak'', JInt (er_process_count_peak r)),
      (''peak_workspace_bytes'', JOpt JInt (er_peak_workspace_bytes r)),
      (''leaked_pids_after_cleanup'', JList (map JInt (er_leaked_pids r))),
      (''workspace'', JOpt JStr (er_workspace r)), (''workspace_cleaned'', JBool (er_workspace_cleaned r)),
      (''root_pid'', JOpt JInt (er_root_pid r)), (''ownership'', JStr (er_ownership r)),
      (''evidence'', JObj [(''limit_reason'', JOpt JStr (er_limit_reason r))])]"

section \<open>The execution contract\<close>

datatype execution_outcome =
    SUCCESS | NONZERO_EXIT | TIMEOUT | OUTPUT_LIMIT | PROCESS_LIMIT | MEMORY_LIMIT | CPU_LIMIT
  | WORKSPACE_LIMIT | RESOURCE_LIMIT | START_FAILURE | EXECUTOR_ERROR | CLEANUP_ERROR | ORPHAN_SUSPECTED

fun outcome_value :: "execution_outcome \<Rightarrow> string" where
  "outcome_value SUCCESS = ''SUCCESS''"
| "outcome_value NONZERO_EXIT = ''NONZERO_EXIT''"
| "outcome_value TIMEOUT = ''TIMEOUT''"
| "outcome_value OUTPUT_LIMIT = ''OUTPUT_LIMIT''"
| "outcome_value PROCESS_LIMIT = ''PROCESS_LIMIT''"
| "outcome_value MEMORY_LIMIT = ''MEMORY_LIMIT''"
| "outcome_value CPU_LIMIT = ''CPU_LIMIT''"
| "outcome_value WORKSPACE_LIMIT = ''WORKSPACE_LIMIT''"
| "outcome_value RESOURCE_LIMIT = ''RESOURCE_LIMIT''"
| "outcome_value START_FAILURE = ''START_FAILURE''"
| "outcome_value EXECUTOR_ERROR = ''EXECUTOR_ERROR''"
| "outcome_value CLEANUP_ERROR = ''CLEANUP_ERROR''"
| "outcome_value ORPHAN_SUSPECTED = ''ORPHAN_SUSPECTED''"

definition WORKLOAD_NAMES :: "string list" where
  "WORKLOAD_NAMES = [''LIGHT'', ''CPU_HEAVY'', ''MEMORY_HEAVY'', ''SLEEP'', ''LARGE_OUTPUT'', ''CHILD_PROCESS'',
     ''TIMEOUT'', ''MANY_FILES'', ''FAILURE'', ''PROCESS_HEAVY'', ''DISK_HEAVY'', ''MEMORY_GROW'',
     ''BOUNDARY_PROBE'']"

definition TRUSTED_CORPUS :: "(string \<times> execution_outcome) list" where
  "TRUSTED_CORPUS = [(''LIGHT'', SUCCESS), (''CPU_HEAVY'', SUCCESS), (''MEMORY_HEAVY'', SUCCESS),
     (''MEMORY_GROW'', SUCCESS), (''SLEEP'', SUCCESS), (''LARGE_OUTPUT'', OUTPUT_LIMIT),
     (''CHILD_PROCESS'', SUCCESS), (''PROCESS_HEAVY'', SUCCESS), (''TIMEOUT'', TIMEOUT),
     (''MANY_FILES'', SUCCESS), (''DISK_HEAVY'', SUCCESS), (''BOUNDARY_PROBE'', SUCCESS),
     (''FAILURE'', NONZERO_EXIT)]"

definition CORPUS_ALIASES :: "(string \<times> string) list" where
  "CORPUS_ALIASES = [(''light_success'', ''LIGHT''), (''cpu_heavy_success'', ''CPU_HEAVY''),
     (''sleep_timeout'', ''TIMEOUT''), (''large_stdout'', ''LARGE_OUTPUT''),
     (''large_stderr'', ''LARGE_OUTPUT''), (''child_process'', ''CHILD_PROCESS''),
     (''process_heavy'', ''PROCESS_HEAVY''), (''nonzero_exit'', ''FAILURE''),
     (''many_files'', ''MANY_FILES''), (''disk_heavy'', ''DISK_HEAVY''),
     (''boundary_probe'', ''BOUNDARY_PROBE''), (''memory_heavy'', ''MEMORY_HEAVY''),
     (''memory_grow'', ''MEMORY_GROW''), (''sleep_ok'', ''SLEEP'')]"

text \<open>The text of the value in the error message, \<open>{raw!r}\<close>, is left out.\<close>

definition resolve_workload :: "json option \<Rightarrow> string \<Rightarrow> exn + string" where
  "resolve_workload raw workload_class =
     (let by_class = (if workload_class = ''light'' then ''LIGHT''
                      else if workload_class = ''medium'' then ''SLEEP''
                      else if workload_class = ''heavy'' then ''CPU_HEAVY'' else ''LIGHT'')
      in case raw of
           Some (JStr s) \<Rightarrow>
             (let key = strip s
              in if key = [] then Inr by_class
                 else if key \<in> set WORKLOAD_NAMES then Inr key
                 else case (case map_of CORPUS_ALIASES key of Some a \<Rightarrow> Some a
                            | None \<Rightarrow> map_of CORPUS_ALIASES (lower key)) of
                   Some a \<Rightarrow> Inr a
                 | None \<Rightarrow> (if upper key \<in> set WORKLOAD_NAMES then Inr (upper key)
                            else Inl (ValueError ''untrusted or unknown execution_workload'')))
         | _ \<Rightarrow> Inr by_class)"

fun status_to_outcome :: "run_status \<Rightarrow> execution_outcome" where
  "status_to_outcome Succeeded = SUCCESS"
| "status_to_outcome Failed = NONZERO_EXIT"
| "status_to_outcome Timeout = TIMEOUT"
| "status_to_outcome OutputLimit = OUTPUT_LIMIT"
| "status_to_outcome ProcessLimit = PROCESS_LIMIT"
| "status_to_outcome MemoryLimit = MEMORY_LIMIT"
| "status_to_outcome CpuLimit = CPU_LIMIT"
| "status_to_outcome WorkspaceLimit = WORKSPACE_LIMIT"
| "status_to_outcome StartError = START_FAILURE"

definition outcome_from_result :: "execution_result \<Rightarrow> execution_outcome" where
  "outcome_from_result r =
     (if er_status r = Succeeded
      then (if er_leaked_pids r \<noteq> [] then CLEANUP_ERROR else SUCCESS)
      else status_to_outcome (er_status r))"

definition deterministic_fail :: "execution_outcome list" where
  "deterministic_fail = [NONZERO_EXIT, TIMEOUT, OUTPUT_LIMIT, PROCESS_LIMIT, MEMORY_LIMIT, CPU_LIMIT,
     WORKSPACE_LIMIT, RESOURCE_LIMIT, ORPHAN_SUSPECTED]"

datatype eval_terminal = TSucceeded | TFailed | TRequeue

definition disposition ::
  "execution_outcome \<Rightarrow> int \<Rightarrow> int \<Rightarrow> eval_terminal \<times> bool \<times> int option \<times> string option" where
  "disposition outcome attempt_count max_attempts =
     (let name = ''execution_'' @ lower (outcome_value outcome)
      in if outcome = SUCCESS then (TSucceeded, False, Some 100, None)
         else if outcome = CLEANUP_ERROR then (TFailed, False, None, Some ''execution_cleanup_incomplete'')
         else if outcome \<in> set deterministic_fail then (TFailed, False, None, Some name)
         else if outcome \<in> {START_FAILURE, EXECUTOR_ERROR} then
           (if attempt_count < max_attempts then (TRequeue, True, None, Some (name @ ''_retry''))
            else (TFailed, False, None, Some (name @ ''_exhausted'')))
         else (TFailed, False, None, Some name))"

lemma corpus_names: "list_all (\<lambda>n. strip n = n \<and> n \<noteq> []) WORKLOAD_NAMES"
  by code_simp

lemma corpus_aliases:
  "list_all (\<lambda>(a, n). strip a = a \<and> a \<noteq> [] \<and> a \<notin> set WORKLOAD_NAMES \<and> map_of CORPUS_ALIASES a = Some n)
     CORPUS_ALIASES"
  by code_simp

text \<open>
  The corpus is closed: resolving a requested workload gives one of the allowlisted names or the
  error, never anything else; every allowlisted name and alias resolves (to itself or its target),
  and the corpus lists an expected outcome for each name.
\<close>

theorem resolve_workload_allowlisted:
  "(case resolve_workload raw cls of Inl e \<Rightarrow> e = ValueError ''untrusted or unknown execution_workload''
    | Inr name \<Rightarrow> name \<in> set WORKLOAD_NAMES) \<and>
   list_all (\<lambda>n. resolve_workload (Some (JStr n)) cls = Inr n) WORKLOAD_NAMES \<and>
   list_all (\<lambda>(a, n). resolve_workload (Some (JStr a)) cls = Inr n) CORPUS_ALIASES \<and>
   set (map fst TRUSTED_CORPUS) = set WORKLOAD_NAMES"
proof -
  have target: "a \<in> set WORKLOAD_NAMES" if "map_of CORPUS_ALIASES k = Some a" for k a
    using map_of_SomeD [OF that] by (auto simp: CORPUS_ALIASES_def WORKLOAD_NAMES_def)
  have "case resolve_workload raw cls of Inl e \<Rightarrow> e = ValueError ''untrusted or unknown execution_workload''
    | Inr name \<Rightarrow> name \<in> set WORKLOAD_NAMES"
  proof -
    have cl: "{''LIGHT'', ''SLEEP'', ''CPU_HEAVY''} \<subseteq> set WORKLOAD_NAMES"
      by (simp add: WORKLOAD_NAMES_def)
    show ?thesis
      using cl target unfolding resolve_workload_def Let_def
      by (auto split: option.splits json.splits)
  qed
  moreover have "list_all (\<lambda>n. resolve_workload (Some (JStr n)) cls = Inr n) WORKLOAD_NAMES"
    using corpus_names by (auto simp: list_all_iff resolve_workload_def Let_def)
  moreover have "list_all (\<lambda>(a, n). resolve_workload (Some (JStr a)) cls = Inr n) CORPUS_ALIASES"
    using corpus_aliases by (auto simp: list_all_iff resolve_workload_def Let_def)
  moreover have "set (map fst TRUSTED_CORPUS) = set WORKLOAD_NAMES"
    by (auto simp: TRUSTED_CORPUS_def WORKLOAD_NAMES_def)
  ultimately show ?thesis by blast
qed

section \<open>Synthetic execution of an evaluation\<close>

record execution_record =
  xr_outcome :: execution_outcome
  xr_execution :: execution_result
  xr_terminal :: eval_terminal
  xr_retryable :: bool
  xr_score :: "int option"
  xr_failure_reason :: "string option"
  xr_metadata :: dict

text \<open>
  The attempt after the callback \<open>_started\<close> (when the process started) or filled from the result.
  The pid of the group is not part of the result and stays as the callback reported it.
\<close>

definition mark_started :: "exec_world \<Rightarrow> int option \<Rightarrow> execution_attempt \<Rightarrow> execution_attempt" where
  "mark_started w pgid a =
     a\<lparr>ea_root_pid := Some (xw_pid w), ea_pgid := pgid, ea_workspace := Some (xw_workspace w),
       ea_ownership := (if xw_ownership w = [] then ea_ownership a else xw_ownership w)\<rparr>"

definition attempt_after ::
  "exec_world \<Rightarrow> int option \<Rightarrow> execution_result \<Rightarrow> execution_attempt \<Rightarrow> execution_attempt" where
  "attempt_after w pgid r a =
     (if xw_popen_error w
      then a\<lparr>ea_root_pid := er_root_pid r, ea_workspace := er_workspace r, ea_ownership := er_ownership r\<rparr>
      else mark_started w pgid a)"

definition run_synthetic_execution ::
  "exec_world \<Rightarrow> int option \<Rightarrow> string \<Rightarrow> string \<Rightarrow> execution_limits \<Rightarrow> uuid \<Rightarrow> uuid \<Rightarrow> dict \<Rightarrow> string \<Rightarrow> int \<Rightarrow>
   int \<Rightarrow> worker_id \<Rightarrow> (exn + execution_record) option" where
  "run_synthetic_execution w pgid fresh mechanism lm evaluation_id submission_id md workload_class
     attempt_count max_attempts worker_id =
     (case resolve_workload (dict_get md ''execution_workload'') workload_class of
        Inl e \<Rightarrow> Some (Inl e)
      | Inr workload \<Rightarrow>
          (case executor_run lm w workload of
             None \<Rightarrow> None
           | Some r \<Rightarrow>
               let a = attempt_after w pgid r
                     (new_attempt fresh (uuid_str evaluation_id) worker_id workload mechanism);
                   outcome = outcome_from_result r;
                   (terminal, retryable, score, why) = disposition outcome attempt_count max_attempts
               in Some (Inr \<lparr>xr_outcome = outcome, xr_execution = r, xr_terminal = terminal,
                    xr_retryable = retryable, xr_score = score, xr_failure_reason = why,
                    xr_metadata =
                      [(''evaluator'', JStr ''synthetic_execution_v1''),
                       (''submission_id'', JStr (uuid_str submission_id)),
                       (''execution_workload'', JStr workload),
                       (''execution_outcome'', JStr (outcome_value outcome)),
                       (''execution'', JObj (result_dict r)),
                       (''execution_attempt'', JObj (to_metadata a)),
                       (''retryable'', JBool retryable)]\<rparr>)))"

lemma disposition_succeeded:
  "fst (disposition oc n m) = TSucceeded \<longleftrightarrow> oc = SUCCESS"
  by (cases oc) (simp_all add: disposition_def deterministic_fail_def Let_def)

lemma disposition_requeue:
  "fst (disposition oc n m) = TRequeue \<longleftrightarrow> oc \<in> {START_FAILURE, EXECUTOR_ERROR} \<and> n < m"
  by (cases oc) (simp_all add: disposition_def deterministic_fail_def Let_def)

lemma disposition_score:
  "fst (snd (snd (disposition oc n m))) = (if oc = SUCCESS then Some 100 else None)"
  by (cases oc) (simp_all add: disposition_def deterministic_fail_def Let_def)

lemma poll_loop_success:
  assumes "poll_loop lm deadline obs s = Some (Succeeded, why, s')"
  shows "\<exists>ob\<in>set obs. po_exit ob = Some 0 \<and> po_now ob < deadline \<and> po_truncated ob = (False, False)"
  using assms
proof (induction obs arbitrary: s)
  case Nil
  then show ?case by simp
next
  case (Cons ob obs)
  have "fst st = Succeeded \<Longrightarrow> fst (poll_limits lm ob s) = Some st \<Longrightarrow> False" for st
    by (auto simp: poll_limits_def Let_def split: if_splits option.splits)
  then have nl: "fst (poll_limits lm ob s) \<noteq> Some (Succeeded, r)" for r by fastforce
  show ?case
  proof (cases "po_exit ob")
    case None
    then have "\<exists>s1. poll_loop lm deadline obs s1 = Some (Succeeded, why, s')"
      using Cons.prems nl by (cases "poll_limits lm ob s") (auto split: if_splits option.splits)
    with Cons.IH show ?thesis by auto
  next
    case (Some rc)
    then have "classify_exit lm rc (po_truncated ob) = (Succeeded, why)" "po_now ob < deadline"
      using Cons.prems by (auto split: if_splits prod.splits)
    then have "rc = 0" "po_truncated ob = (False, False)"
      by (cases "po_truncated ob";
          auto simp: classify_exit_def classify_resource_exit_def split: if_splits option.splits)+
    with Some \<open>po_now ob < deadline\<close> show ?thesis by auto
  qed
qed

lemma signals_status:
  "fst (classify_signals c sr) = Succeeded \<Longrightarrow> fst sr = Succeeded \<and> classify_signals c sr = sr \<and>
     (\<forall>sig\<in>{''cf_process_limit'', ''cf_memory_limit'', ''cf_workspace_limit''}. \<not> contains sig c)"
  "fst (classify_signals c sr) = StartError \<Longrightarrow> fst sr = StartError"
  by (auto simp: classify_signals_def split: if_splits)

lemma reclassify_status:
  "fst (reclassify_cpu lm x sr) = Succeeded \<Longrightarrow> fst sr = Succeeded"
  "fst (reclassify_cpu lm x sr) = StartError \<Longrightarrow> fst sr = StartError"
  by (auto simp: reclassify_cpu_def split: if_splits option.splits)

text \<open>A finished execution: its status comes from the loop through the two re-classifications.\<close>

lemma executor_run_status:
  assumes "executor_run lm w workload = Some e"
  obtains "xw_popen_error w" and "er_status e = StartError"
  | st why s where "\<not> xw_popen_error w"
      and "poll_loop lm (wall_deadline lm (xw_started w)) (xw_obs w) poll_start = Some (st, why, s)"
      and "er_status e = fst (classify_signals (sc_buf (cap_run (max_stdout_bytes lm) (xw_out_chunks w) new_cap) @
             sc_buf (cap_run (max_stderr_bytes lm) (xw_err_chunks w) new_cap))
             (reclassify_cpu lm (xw_exit_at_end w) (st, why)))"
      and "er_leaked_pids e = terminate_tree w"
  using assms
  by (auto simp: executor_run_def Let_def split_def split: if_splits option.splits)

lemma poll_loop_no_start_error:
  "poll_loop lm deadline obs s \<noteq> Some (StartError, why, s')"
proof (induction obs arbitrary: s)
  case Nil
  then show ?case by simp
next
  case (Cons ob obs)
  have "classify_exit lm rc tr \<noteq> (StartError, why)" for rc tr
    by (auto simp: classify_exit_def classify_resource_exit_def split: if_splits option.splits)
  moreover have "poll_limits lm ob s \<noteq> (Some (StartError, r), t)" for r t
    by (auto simp: poll_limits_def Let_def split: if_splits option.splits)
  ultimately show ?case using Cons by (auto split: option.splits prod.splits)
qed

lemma executor_start_error:
  assumes "executor_run lm w workload = Some e" and "er_status e = StartError"
  shows "xw_popen_error w"
  using assms(1)
proof (cases rule: executor_run_status)
  case (2 st why s)
  then show ?thesis
    using assms(2) signals_status(2) reclassify_status(2) poll_loop_no_start_error by (metis fst_conv)
qed

lemma executor_success:
  assumes "executor_run lm w workload = Some e" and "er_status e = Succeeded \<and> er_leaked_pids e = []"
  shows "(\<exists>ob\<in>set (xw_obs w). po_exit ob = Some 0 \<and> po_now ob < wall_deadline lm (xw_started w) \<and>
          po_truncated ob = (False, False)) \<and>
       (\<forall>p\<in>set (xw_tree w @ [xw_pid w]). \<not> xw_alive_at_end w p) \<and>
       (\<forall>sig\<in>{''cf_process_limit'', ''cf_memory_limit'', ''cf_workspace_limit''}.
          \<not> contains sig (sc_buf (cap_run (max_stdout_bytes lm) (xw_out_chunks w) new_cap) @
                         sc_buf (cap_run (max_stderr_bytes lm) (xw_err_chunks w) new_cap)))"
  using assms(1)
proof (cases rule: executor_run_status)
  case 1
  then show ?thesis using assms(2) by simp
next
  case (2 st why s)
  note sig = signals_status(1) [OF trans [OF 2(3) [symmetric] conjunct1 [OF assms(2)]]]
  then have "st = Succeeded" using reclassify_status(1) by fastforce
  then have "\<exists>ob\<in>set (xw_obs w). po_exit ob = Some 0 \<and> po_now ob < wall_deadline lm (xw_started w) \<and>
          po_truncated ob = (False, False)"
    using 2(2) poll_loop_success by blast
  moreover have "\<forall>p\<in>set (xw_tree w @ [xw_pid w]). \<not> xw_alive_at_end w p"
    using 2(4) assms(2) by (auto simp: terminate_tree_def filter_empty_conv split: if_splits)
  ultimately show ?thesis using sig by blast
qed

text \<open>
  C36. A synthetic execution counts as a success only with evidence for it: the process was seen to exit
  with code 0 before the deadline with untruncated output, no process of its tree is left alive,
  and its output carries no limit signal. Exactly then the score is 100, and in every other case there
  is none. An execution is requeued only when it could not be started and attempts are left.
\<close>

theorem synthetic_success_sound:
  assumes "run_synthetic_execution w pgid fresh mech lm eid sid md cls n m wid = Some (Inr r)"
  shows "(xr_terminal r = TSucceeded \<longleftrightarrow> xr_score r = Some 100) \<and>
    (xr_terminal r \<noteq> TSucceeded \<longleftrightarrow> xr_score r = None) \<and>
    (xr_terminal r = TRequeue \<longrightarrow> xw_popen_error w \<and> n < m) \<and>
    (xr_terminal r = TSucceeded \<longrightarrow>
       (\<exists>ob\<in>set (xw_obs w). po_exit ob = Some 0 \<and> po_now ob < wall_deadline lm (xw_started w) \<and>
          po_truncated ob = (False, False)) \<and>
       (\<forall>p\<in>set (xw_tree w @ [xw_pid w]). \<not> xw_alive_at_end w p) \<and>
       (\<forall>sig\<in>{''cf_process_limit'', ''cf_memory_limit'', ''cf_workspace_limit''}.
          \<not> contains sig (sc_buf (cap_run (max_stdout_bytes lm) (xw_out_chunks w) new_cap) @
                         sc_buf (cap_run (max_stderr_bytes lm) (xw_err_chunks w) new_cap))))"
proof -
  obtain e workload where e: "executor_run lm w workload = Some e"
    and t: "xr_terminal r = fst (disposition (outcome_from_result e) n m)"
    and sc: "xr_score r = fst (snd (snd (disposition (outcome_from_result e) n m)))"
    using assms
    by (auto simp: run_synthetic_execution_def Let_def split: sum.splits option.splits prod.splits)
  have "xr_terminal r = TRequeue \<Longrightarrow> xw_popen_error w \<and> n < m"
    using t disposition_requeue [of "outcome_from_result e" n m] executor_start_error [OF e]
    by (cases "er_status e") (auto simp: outcome_from_result_def split: if_splits)
  moreover have "er_status e = Succeeded \<and> er_leaked_pids e = []" if "xr_terminal r = TSucceeded"
    using that t disposition_succeeded [of "outcome_from_result e" n m]
    by (cases "er_status e") (auto simp: outcome_from_result_def split: if_splits)
  ultimately show ?thesis
    using executor_success [OF e] t sc disposition_succeeded [of "outcome_from_result e" n m]
      disposition_score [of "outcome_from_result e" n m]
    by auto
qed

text \<open>A workload that runs for a moment, prints a line and exits with code 0.\<close>

definition quiet_world :: exec_world where
  "quiet_world = \<lparr>xw_popen_error = False, xw_pid = 42, xw_workspace = ''ws'', xw_ownership = ''posix_process_group'',
     xw_started = 0, xw_obs = [silent_obs 0, (silent_obs 1)\<lparr>po_exit := Some 0\<rparr>], xw_out_chunks = [''ok''],
     xw_err_chunks = [], xw_tree = [], xw_alive_at_end = (\<lambda>p. False), xw_exit_at_end = Some 0,
     xw_rss_at_end = None, xw_workspace_exists = (\<lambda>k. k = 0), xw_workspace_bytes_at_end = 0,
     xw_wall_ms = 1000, xw_startup_ms = 5, xw_cleanup_ms = 3\<rparr>"

lemma quiet_execution:
  "\<exists>r. run_synthetic_execution quiet_world None ''a'' ''posix_process_group'' default_limits 1 2 [] ''light'' 1 3 ''w''
     = Some (Inr r) \<and> xr_terminal r = TSucceeded"
proof -
  have "poll_loop default_limits (wall_deadline default_limits (xw_started quiet_world)) (xw_obs quiet_world) poll_start
      = Some (Succeeded, None, poll_start)"
    by (simp add: quiet_world_def silent_obs_def poll_limits_def Let_def default_limits_def wall_deadline_def
        classify_exit_def classify_resource_exit_def poll_start_def)
  then have "\<exists>e. executor_run default_limits quiet_world ''LIGHT'' = Some e \<and> er_status e = Succeeded \<and> er_leaked_pids e = []"
    by (simp add: executor_run_def Let_def quiet_world_def reclassify_cpu_def default_limits_def
        classify_signals_def cap_chunk_def new_cap_def starts_with_def terminate_tree_def)
  then obtain e where "executor_run default_limits quiet_world ''LIGHT'' = Some e" "er_status e = Succeeded"
      "er_leaked_pids e = []" by blast
  then show ?thesis
    by (simp add: run_synthetic_execution_def resolve_workload_def Let_def outcome_from_result_def disposition_def)
qed

theorem synthetic_success_sound_witness:
  "\<exists>r. run_synthetic_execution quiet_world None ''a'' ''posix_process_group'' default_limits 1 2 [] ''light'' 1 3 ''w''
     = Some (Inr r) \<and> xr_score r = Some 100"
proof -
  obtain r where r: "run_synthetic_execution quiet_world None ''a'' ''posix_process_group'' default_limits 1 2 [] ''light'' 1 3 ''w''
     = Some (Inr r)" "xr_terminal r = TSucceeded"
    using quiet_execution by blast
  with synthetic_success_sound [OF r(1)] show ?thesis by auto
qed

end
