(* ===== verification/Progressive.thy ===== *)
theory Progressive
  imports Evaluator
begin

text \<open>
  Progressive evaluation: the escalation policy (\<^verbatim>\<open>evaluation/policy.py\<close>), the orchestration of the
  stages of one claim (\<^verbatim>\<open>evaluation/progressive.py\<close>) and the comparison with the ground truth
  (\<^verbatim>\<open>evaluation/quality.py\<close>).

  The loop of \<open>ProgressiveEvaluator.run\<close> is the function \<open>progressive_loop\<close> with the measure
  "stages left"; it is generic in the function that runs a stage. What it promises for any such
  function is proved in the locale \<open>stage_runner\<close>, interpreted on \<open>run_stage\<close>.
\<close>

section \<open>The escalation policy\<close>

datatype escalation_action = Finish | Continue | Defer

record escalation =
  action :: escalation_action
  reason :: string

abbreviation escalate :: "escalation_action \<Rightarrow> string \<Rightarrow> escalation" where
  "escalate a r \<equiv> \<lparr>action = a, reason = r\<rparr>"

definition confident :: "stage_confidence \<Rightarrow> bool" where
  "confident c \<longleftrightarrow> c \<in> {PassConfident, FailConfident}"

text \<open>\<open>(deadline_at - now).total_seconds() <= 30.0\<close>; datetimes are in microseconds.\<close>

definition deadline_near :: "datetime option \<Rightarrow> datetime \<Rightarrow> bool" where
  "deadline_near deadline_at now =
     (case deadline_at of None \<Rightarrow> False | Some d \<Rightarrow> d - now \<le> 30 * 1000000)"

definition decide ::
  "evaluation_mode \<Rightarrow> stage_confidence \<Rightarrow> bool \<Rightarrow> pressure_state \<Rightarrow> datetime option \<Rightarrow> datetime \<Rightarrow>
   int \<Rightarrow> bool \<Rightarrow> escalation" where
  "decide mode confidence next_stage_exists pressure deadline_at now next_stage_cost_units safe_to_terminate =
     (if mode = AlwaysExpensive then
        (if next_stage_exists then escalate Continue ''always_expensive''
         else escalate Finish ''plan_exhausted'')
      else if confident confidence \<and> safe_to_terminate then
        escalate Finish (''safe_early_exit_'' @ confidence_value confidence)
      else if confident confidence \<and> \<not> safe_to_terminate then
        (if next_stage_exists then escalate Continue ''unsafe_confident_escalate''
         else escalate Finish ''plan_exhausted_unsafe_confident'')
      else if \<not> next_stage_exists then escalate Finish ''plan_exhausted_uncertain''
      else if mode = FixedProgressive then escalate Continue ''uncertain_escalate''
      else if mode \<noteq> ResourceAwareAdaptive then escalate Finish ''unsupported_mode_finish''
      else
        let near = deadline_near deadline_at now
        in if pressure = DEGRADED \<and> next_stage_cost_units \<ge> 9 \<and> \<not> near
           then escalate Defer ''degraded_defer_heavy''
           else if pressure = PRESSURED \<and> next_stage_cost_units \<ge> 9 \<and> \<not> near
           then escalate Defer ''pressured_defer_heavy''
           else if near then escalate Continue ''deadline_near_escalate''
           else escalate Continue ''uncertain_escalate'')"

text \<open>The modes under which stages are escalated.\<close>

definition progressive_mode :: "evaluation_mode \<Rightarrow> bool" where
  "progressive_mode m \<longleftrightarrow> m \<in> {AlwaysExpensive, FixedProgressive, ResourceAwareAdaptive}"

lemma decide_continueD: "action (decide m c nxt p d n k s) = Continue \<Longrightarrow> nxt"
  by (auto simp: decide_def Let_def split: if_splits)

lemma decide_finishD:
  "action (decide m c nxt p d n k s) = Finish \<Longrightarrow> progressive_mode m \<Longrightarrow> (confident c \<and> s) \<or> \<not> nxt"
  by (auto simp: decide_def Let_def progressive_mode_def split: if_splits)

lemma decide_safe_reasonD:
  "starts_with ''safe_early_exit'' (reason (decide m c nxt p d n k s)) \<Longrightarrow> confident c \<and> s"
  by (auto simp: decide_def Let_def starts_with_def split: if_splits)

lemma decide_deferD:
  "action (decide m c nxt p d n k s) = Defer \<Longrightarrow>
     m = ResourceAwareAdaptive \<and> c = Uncertain \<and> nxt \<and> p \<noteq> NORMAL \<and> 9 \<le> k \<and> \<not> deadline_near d n"
  by (cases c) (auto simp: decide_def Let_def confident_def split: if_splits)

text \<open>
  The escalation policy, for every input. An evaluation is finished before the plan is
  exhausted only when the evidence is both confident and marked safe (or the mode is one the policy
  does not escalate for); a confident signal that is not safe is always escalated while a stage is
  left. A deferral happens only in the resource-aware mode, on an uncertain stage, under pressure,
  for a next stage of at least 9 cost units, and never within 30 seconds of the deadline.
\<close>

theorem policy_early_exit_contract:
  "(case action (decide mode confidence nxt pressure deadline now next_cost safe) of
      Finish \<Rightarrow> (confident confidence \<and> safe) \<or> \<not> nxt \<or> mode \<in> {Legacy, SyntheticExecution}
    | Continue \<Rightarrow> nxt \<and> \<not> (mode \<noteq> AlwaysExpensive \<and> confident confidence \<and> safe)
    | Defer \<Rightarrow> mode = ResourceAwareAdaptive \<and> confidence = Uncertain \<and> nxt \<and> pressure \<noteq> NORMAL \<and>
        9 \<le> next_cost \<and> \<not> deadline_near deadline now) \<and>
   \<not> (confident confidence \<and> \<not> safe \<and> nxt \<and>
      action (decide mode confidence nxt pressure deadline now next_cost safe) \<noteq> Continue)"
  by (cases mode; cases confidence; cases pressure) (simp_all add: decide_def Let_def confident_def)

theorem policy_early_exit_contract_witness:
  "action (decide FixedProgressive FailConfident True NORMAL None 0 9 False) = Continue"
  using policy_early_exit_contract [where mode = FixedProgressive and confidence = FailConfident and nxt = True and
      pressure = NORMAL and deadline = None and now = 0 and next_cost = 9 and safe = False]
  by (simp add: confident_def)

section \<open>Running the stages\<close>

record progressive_result =
  pr_finished :: bool
  pr_score :: "int option"
  pr_next_stage :: int
  pr_early_exit_reason :: "string option"
  pr_defer_reason :: "string option"
  pr_stages :: "dict list"
  pr_cost :: int
  pr_peak_bytes :: int
  pr_cpu_ms :: real
  pr_final_tier :: "string option"
  pr_confidence :: "stage_confidence option"
  pr_metadata :: dict

definition savings_of :: "int \<Rightarrow> real" where
  "savings_of cost =
     (if ALWAYS_EXPENSIVE_COST_UNITS \<le> 0 then 0
      else py_round 4 (1 - of_int cost / of_int ALWAYS_EXPENSIVE_COST_UNITS))"

definition compute_savings :: "progressive_result \<Rightarrow> real" where
  "compute_savings r = savings_of (pr_cost r)"

definition meta ::
  "evaluation_mode \<Rightarrow> dict list \<Rightarrow> int \<Rightarrow> int \<Rightarrow> real \<Rightarrow> string option \<Rightarrow> string option \<Rightarrow>
   string option \<Rightarrow> stage_confidence option \<Rightarrow> dict" where
  "meta mode stages cost peak cpu_ms final_tier early_exit defer_why confidence =
     [(''evaluator'', JStr ''progressive_synthetic_v1''),
      (''progressive'', JObj
        [(''mode'', JStr (mode_value mode)),
         (''stages_attempted'', JInt (int (length stages))),
         (''stages_completed'', JList (map JObj stages)),
         (''actual_cost_units'', JInt cost),
         (''always_expensive_cost_units'', JInt ALWAYS_EXPENSIVE_COST_UNITS),
         (''compute_savings'', JFloat (savings_of cost)),
         (''execution_cpu_ms'', JFloat (py_round 3 cpu_ms)),
         (''peak_alloc_bytes'', JInt peak),
         (''final_tier'', JOpt JStr final_tier),
         (''early_exit_reason'', JOpt JStr early_exit),
         (''defer_reason'', JOpt JStr defer_why),
         (''confidence'', JOpt (\<lambda>c. JStr (confidence_value c)) confidence)])]"

text \<open>The local variables of the loop.\<close>

record progress =
  stages_log :: "dict list"
  total_cpu :: real
  peak_bytes :: int
  cost_so_far :: int
  score_so_far :: int
  confidence_so_far :: "stage_confidence option"

definition no_progress :: progress where
  "no_progress = \<lparr>stages_log = [], total_cpu = 0, peak_bytes = 0, cost_so_far = 0, score_so_far = 0,
     confidence_so_far = None\<rparr>"

definition advance :: "stage_spec \<Rightarrow> stage_outcome \<Rightarrow> progress \<Rightarrow> progress" where
  "advance stage out acc =
     \<lparr>stages_log = stages_log acc @ [so_evidence out], total_cpu = total_cpu acc + so_cpu_ms out,
      peak_bytes = max (peak_bytes acc) (so_peak_bytes out),
      cost_so_far = cost_so_far acc + st_cost_units stage, score_so_far = so_score out,
      confidence_so_far = Some (so_confidence out)\<rparr>"

definition make_result ::
  "evaluation_mode \<Rightarrow> bool \<Rightarrow> int \<Rightarrow> string option \<Rightarrow> string option \<Rightarrow> string option \<Rightarrow> progress
     \<Rightarrow> progressive_result" where
  "make_result mode finished next_stage early_exit defer_why tier acc =
     \<lparr>pr_finished = finished, pr_score = Some (score_so_far acc), pr_next_stage = next_stage,
      pr_early_exit_reason = early_exit, pr_defer_reason = defer_why, pr_stages = stages_log acc,
      pr_cost = cost_so_far acc, pr_peak_bytes = peak_bytes acc, pr_cpu_ms = py_round 3 (total_cpu acc),
      pr_final_tier = tier, pr_confidence = confidence_so_far acc,
      pr_metadata = meta mode (stages_log acc) (cost_so_far acc) (peak_bytes acc) (total_cpu acc) tier
        early_exit defer_why (confidence_so_far acc)\<rparr>"

definition last_tier :: "dict list \<Rightarrow> string option" where
  "last_tier lg =
     (if lg = [] then None
      else case dict_get (last lg) ''stage'' of Some (JStr s) \<Rightarrow> Some s | _ \<Rightarrow> None)"

definition decide_after ::
  "evaluation_mode \<Rightarrow> stage_spec list \<Rightarrow> pressure_state \<Rightarrow> datetime option \<Rightarrow> (int \<Rightarrow> datetime) \<Rightarrow>
   int \<Rightarrow> stage_outcome \<Rightarrow> escalation" where
  "decide_after mode plan pressure deadline_at now index out =
     (let next_stage = stage_at plan (index + 1)
      in decide mode (so_confidence out) (next_stage \<noteq> None) pressure deadline_at (now index)
           (case next_stage of Some s \<Rightarrow> st_cost_units s | None \<Rightarrow> 0) (so_safe out))"

function progressive_loop ::
  "(int \<Rightarrow> stage_spec \<Rightarrow> exn + stage_outcome) \<Rightarrow> evaluation_mode \<Rightarrow> stage_spec list \<Rightarrow> pressure_state \<Rightarrow>
   datetime option \<Rightarrow> (int \<Rightarrow> datetime) \<Rightarrow> int \<Rightarrow> progress \<Rightarrow> exn + progressive_result" where
  "progressive_loop runner mode plan pressure deadline_at now index acc =
     (case stage_at plan index of
        None \<Rightarrow> Inr (make_result mode True index (Some ''plan_exhausted'') None
                  (last_tier (stages_log acc)) acc)
      | Some stage \<Rightarrow>
          (case runner index stage of
             Inl e \<Rightarrow> Inl e
           | Inr out \<Rightarrow>
               let acc' = advance stage out acc;
                   d = decide_after mode plan pressure deadline_at now index out
               in if action d = Finish then
                    Inr (make_result mode True (index + 1) (Some (reason d)) None (Some (st_name stage)) acc')
                  else if action d = Defer then
                    Inr (make_result mode False (index + 1) None (Some (reason d)) (Some (st_name stage)) acc')
                  else progressive_loop runner mode plan pressure deadline_at now (index + 1) acc'))"
  by pat_completeness auto
termination
  by (relation "measure (\<lambda>(_, _, plan, _, _, _, index, _). nat (int (length plan) - index))")
    (auto simp: stage_at_def split: if_splits)

declare progressive_loop.simps [simp del]

definition progressive_run ::
  "eval_env \<Rightarrow> evaluation_mode \<Rightarrow> stage_spec list option \<Rightarrow> uuid \<Rightarrow> dict \<Rightarrow> string option \<Rightarrow> int \<Rightarrow>
   pressure_state \<Rightarrow> datetime option \<Rightarrow> exn + progressive_result" where
  "progressive_run env mode plan submission_id md artifact_key start_stage pressure deadline_at =
     progressive_loop (run_stage env submission_id md artifact_key) mode
       (case plan of Some p \<Rightarrow> p | None \<Rightarrow> DEFAULT_PLAN) pressure deadline_at (now_at env)
       (max 0 start_stage) no_progress"

text \<open>
  How a run ends, as a case rule: an invariant \<open>P\<close> of the loop, kept by every step that goes on,
  holds at the last index; the run stopped there because the plan was exhausted or because of the
  decision after the stage.
\<close>

lemma progressive_loop_ends:
  assumes run: "progressive_loop runner mode plan pr dl now i acc = Inr r"
    and init: "P i acc"
    and step: "\<And>j a st out. P j a \<Longrightarrow> stage_at plan j = Some st \<Longrightarrow> runner j st = Inr out \<Longrightarrow>
        action (decide_after mode plan pr dl now j out) = Continue \<Longrightarrow> P (j + 1) (advance st out a)"
  obtains (exhausted) j a where "P j a" and "stage_at plan j = None"
      and "r = make_result mode True j (Some ''plan_exhausted'') None (last_tier (stages_log a)) a"
    | (stopped) j a st out d where "P j a" and "stage_at plan j = Some st" and "runner j st = Inr out"
      and "d = decide_after mode plan pr dl now j out" and "action d \<noteq> Continue"
      and "r = make_result mode (action d = Finish) (j + 1)
             (if action d = Finish then Some (reason d) else None)
             (if action d = Finish then None else Some (reason d)) (Some (st_name st)) (advance st out a)"
  using assms
proof (induction "nat (int (length plan) - i)" arbitrary: i acc thesis rule: less_induct)
  case less
  note unfold = progressive_loop.simps [of runner mode plan pr dl now i acc]
  show ?case
  proof (cases "stage_at plan i")
    case None
    then show ?thesis using less.prems(1,3,4) unfold by simp
  next
    case (Some st)
    then obtain out where out: "runner i st = Inr out"
      using less.prems(3) unfold by (cases "runner i st") auto
    define d where "d = decide_after mode plan pr dl now i out"
    show ?thesis
    proof (cases "action d")
      case Continue
      then have "progressive_loop runner mode plan pr dl now (i + 1) (advance st out acc) = Inr r"
        using less.prems(3) unfold Some out d_def by (simp add: Let_def)
      moreover have "P (i + 1) (advance st out acc)"
        using less.prems(4,5) Some out Continue d_def by simp
      moreover have "nat (int (length plan) - (i + 1)) < nat (int (length plan) - i)"
        using stage_at_SomeD [OF Some] by simp
      ultimately show ?thesis
        using less.hyps [of "i + 1" _ "advance st out acc"] less.prems(1,2,5) by blast
    next
      case Finish
      then have "r = make_result mode True (i + 1) (Some (reason d)) None (Some (st_name st)) (advance st out acc)"
        using less.prems(3) unfold Some out d_def by (simp add: Let_def)
      with Finish show ?thesis using less.prems(2) [OF less.prems(4) Some out d_def] by simp
    next
      case Defer
      then have "r = make_result mode False (i + 1) None (Some (reason d)) (Some (st_name st)) (advance st out acc)"
        using less.prems(3) unfold Some out d_def by (simp add: Let_def)
      with Defer show ?thesis using less.prems(2) [OF less.prems(4) Some out d_def] by simp
    qed
  qed
qed

lemma make_result_sel [simp]:
  "pr_finished (make_result m f n e d t a) = f" "pr_score (make_result m f n e d t a) = Some (score_so_far a)"
  "pr_next_stage (make_result m f n e d t a) = n" "pr_early_exit_reason (make_result m f n e d t a) = e"
  "pr_defer_reason (make_result m f n e d t a) = d" "pr_stages (make_result m f n e d t a) = stages_log a"
  "pr_cost (make_result m f n e d t a) = cost_so_far a" "pr_peak_bytes (make_result m f n e d t a) = peak_bytes a"
  "pr_final_tier (make_result m f n e d t a) = t" "pr_confidence (make_result m f n e d t a) = confidence_so_far a"
  by (simp_all add: make_result_def)

lemma advance_sel [simp]:
  "stages_log (advance st out a) = stages_log a @ [so_evidence out]"
  "peak_bytes (advance st out a) = max (peak_bytes a) (so_peak_bytes out)"
  "cost_so_far (advance st out a) = cost_so_far a + st_cost_units st"
  "score_so_far (advance st out a) = so_score out"
  "confidence_so_far (advance st out a) = Some (so_confidence out)"
  by (simp_all add: advance_def)

lemma no_progress_sel [simp]:
  "stages_log no_progress = []" "cost_so_far no_progress = 0" "score_so_far no_progress = 0"
  "peak_bytes no_progress = 0" "confidence_so_far no_progress = None"
  by (simp_all add: no_progress_def)

lemma decide_after_DeferD:
  assumes "action (decide_after mode plan pr dl now j out) = Defer"
  obtains st where "mode = ResourceAwareAdaptive" and "pr \<noteq> NORMAL" and "so_confidence out = Uncertain"
    and "stage_at plan (j + 1) = Some st" and "9 \<le> st_cost_units st"
  using assms decide_deferD
  by (cases "stage_at plan (j + 1)") (force simp: decide_after_def Let_def)+

lemma decide_after_ContinueD:
  "action (decide_after mode plan pr dl now j out) = Continue \<Longrightarrow> stage_at plan (j + 1) \<noteq> None"
  unfolding decide_after_def Let_def by (drule decide_continueD) simp

lemma decide_after_FinishD:
  "action (decide_after mode plan pr dl now j out) = Finish \<Longrightarrow> progressive_mode mode \<Longrightarrow>
     (confident (so_confidence out) \<and> so_safe out) \<or> stage_at plan (j + 1) = None"
  unfolding decide_after_def Let_def by (drule decide_finishD) auto

lemma nth_cost_slice:
  assumes "a \<le> j" and "j < length plan"
  shows "slice plan a (Suc j) = slice plan a j @ [plan ! j]"
  using slice_append [of a j "Suc j" plan] assms by (simp add: slice_def take_Suc_conv_app_nth)

section \<open>The contract of a stage runner\<close>

locale stage_runner =
  fixes runner :: "int \<Rightarrow> stage_spec \<Rightarrow> exn + stage_outcome"
    and memory_cap :: int
  assumes names_stage: "runner i st = Inr out \<Longrightarrow> dict_get (so_evidence out) ''stage'' = Some (JStr (st_name st))"
    and score_lower: "runner i st = Inr out \<Longrightarrow> 0 \<le> so_score out"
    and score_upper: "runner i st = Inr out \<Longrightarrow> so_score out \<le> 100"
    and peak_lower: "runner i st = Inr out \<Longrightarrow> 0 \<le> so_peak_bytes out"
    and peak_upper: "runner i st = Inr out \<Longrightarrow> so_peak_bytes out \<le> memory_cap"
    and cap: "0 \<le> memory_cap"
begin

text \<open>The loop variables describe exactly the stages from \<open>i0\<close> to the index, in order, once each.\<close>

definition ran :: "stage_spec list \<Rightarrow> int \<Rightarrow> int \<Rightarrow> progress \<Rightarrow> bool" where
  "ran plan i0 j a \<longleftrightarrow> 0 \<le> i0 \<and> i0 \<le> j \<and>
     cost_so_far a = sum_list (map st_cost_units (slice plan (nat i0) (nat j))) \<and>
     map (\<lambda>ev. dict_get ev ''stage'') (stages_log a) = map (\<lambda>s. Some (JStr (st_name s))) (slice plan (nat i0) (nat j)) \<and>
     0 \<le> score_so_far a \<and> score_so_far a \<le> 100 \<and> 0 \<le> peak_bytes a \<and> peak_bytes a \<le> memory_cap"

lemma ran_start: "0 \<le> i \<Longrightarrow> ran plan i i no_progress"
  using cap by (simp add: ran_def)

lemma ran_advance:
  assumes "ran plan i0 j a" and "stage_at plan j = Some st" and "runner j st = Inr out"
  shows "ran plan i0 (j + 1) (advance st out a)"
proof -
  have j: "0 \<le> i0" "i0 \<le> j" "nat j < length plan" "plan ! nat j = st" "nat (j + 1) = Suc (nat j)"
    using assms(1) stage_at_SomeD [OF assms(2)] by (auto simp: ran_def)
  then show ?thesis
    using assms(1) names_stage [OF assms(3)] score_lower [OF assms(3)] score_upper [OF assms(3)]
      peak_lower [OF assms(3)] peak_upper [OF assms(3)]
    by (simp add: ran_def nth_cost_slice)
qed

lemma run_accounts:
  assumes "progressive_loop runner mode plan pr dl now i no_progress = Inr r" and "0 \<le> i"
  shows "i \<le> pr_next_stage r"
    and "pr_cost r = sum_list (map st_cost_units (slice plan (nat i) (nat (pr_next_stage r))))"
    and "map (\<lambda>ev. dict_get ev ''stage'') (pr_stages r)
       = map (\<lambda>s. Some (JStr (st_name s))) (slice plan (nat i) (nat (pr_next_stage r)))"
    and "\<exists>s. pr_score r = Some s \<and> 0 \<le> s \<and> s \<le> 100"
    and "0 \<le> pr_peak_bytes r" and "pr_peak_bytes r \<le> memory_cap"
proof -
  have "\<exists>a. ran plan i (pr_next_stage r) a \<and> pr_cost r = cost_so_far a \<and> pr_stages r = stages_log a \<and>
      pr_score r = Some (score_so_far a) \<and> pr_peak_bytes r = peak_bytes a" (is ?thesis)
  proof (rule progressive_loop_ends [where P = "ran plan i"])
    show "progressive_loop runner mode plan pr dl now i no_progress = Inr r" by (rule assms(1))
    show "ran plan i i no_progress" using assms(2) by (rule ran_start)
    show "ran plan i (j + 1) (advance st out a)"
      if "ran plan i j a" and "stage_at plan j = Some st" and "runner j st = Inr out" for j a st out
      using that by (rule ran_advance)
  next
    fix j a
    assume "ran plan i j a" and "r = make_result mode True j (Some ''plan_exhausted'') None
      (last_tier (stages_log a)) a"
    then show ?thesis by auto
  next
    fix j a st out d
    assume at: "ran plan i j a" "stage_at plan j = Some st" "runner j st = Inr out"
      and r: "r = make_result mode (action d = Finish) (j + 1)
             (if action d = Finish then Some (reason d) else None)
             (if action d = Finish then None else Some (reason d)) (Some (st_name st)) (advance st out a)"
    from at have "ran plan i (j + 1) (advance st out a)" by (rule ran_advance)
    with r show ?thesis by (intro exI [of _ "advance st out a"]) (simp del: advance_sel)
  qed
  then show "i \<le> pr_next_stage r"
    and "pr_cost r = sum_list (map st_cost_units (slice plan (nat i) (nat (pr_next_stage r))))"
    and "map (\<lambda>ev. dict_get ev ''stage'') (pr_stages r)
       = map (\<lambda>s. Some (JStr (st_name s))) (slice plan (nat i) (nat (pr_next_stage r)))"
    and "\<exists>s. pr_score r = Some s \<and> 0 \<le> s \<and> s \<le> 100"
    and "0 \<le> pr_peak_bytes r" and "pr_peak_bytes r \<le> memory_cap"
    by (auto simp: ran_def)
qed

end

lemma MAX_MEMORY_nonneg: "0 \<le> MAX_MEMORY_BYTES"
  by (simp add: MAX_MEMORY_BYTES_def)

interpretation synthetic: stage_runner "run_stage env u md ak" MAX_MEMORY_BYTES
  for env u md ak
  by unfold_locales (auto dest: run_stage_shape intro: MAX_MEMORY_nonneg)

section \<open>Runs of the program's stages\<close>

definition no_forced_failure :: "stage_spec list \<Rightarrow> dict \<Rightarrow> bool" where
  "no_forced_failure plan md \<longleftrightarrow> dict_get md ''force_evaluation_failure'' \<noteq> Some (JBool True) \<and>
     (\<forall>st\<in>set plan. \<not> forced_stage md (st_name st))"

lemma run_stage_succeeds:
  assumes "no_forced_failure plan md" and "stage_at plan i = Some st"
  obtains out where "run_stage env u md ak i st = Inr out"
proof -
  have "st \<in> set plan" using stage_at_SomeD [OF assms(2)] by (auto simp: nth_mem)
  then have "\<nexists>e. run_stage env u md ak i st = Inl e"
    using assms(1) by (simp add: run_stage_fails_iff no_forced_failure_def)
  then show thesis using that by (cases "run_stage env u md ak i st") auto
qed

lemma progressive_loop_returns:
  assumes "\<And>i st. stage_at plan i = Some st \<Longrightarrow> \<exists>out. runner i st = Inr out"
  shows "\<exists>r. progressive_loop runner mode plan pr dl now i acc = Inr r"
proof (induction "nat (int (length plan) - i)" arbitrary: i acc rule: less_induct)
  case less
  show ?case
  proof (cases "stage_at plan i")
    case None
    then show ?thesis by (simp add: progressive_loop.simps)
  next
    case (Some st)
    then obtain out where "runner i st = Inr out" using assms by blast
    moreover have "\<exists>r. progressive_loop runner mode plan pr dl now (i + 1) (advance st out acc) = Inr r"
      using less.hyps [of "i + 1"] stage_at_SomeD [OF Some] by simp
    ultimately show ?thesis
      using Some progressive_loop.simps [of runner mode plan pr dl now i acc] by (simp add: Let_def)
  qed
qed

text \<open>
  A progressive run always ends, and when no failure is forced by the metadata it returns a
  result that accounts exactly for the stages it ran: the stages from the start index up to
  \<open>next_stage\<close>, once each and in order, with the sum of their cost units as cost, a score
  between 0 and 100 and a peak allocation within the cap. For every plan, mode, pressure,
  deadline and clock.
\<close>

theorem progressive_run_accounts:
  assumes "no_forced_failure p md"
  shows "\<exists>r. progressive_run env mode (Some p) u md ak start pressure deadline = Inr r \<and>
    (let ran = slice p (nat start) (nat (pr_next_stage r))
     in pr_cost r = sum_list (map st_cost_units ran) \<and>
        map (\<lambda>ev. dict_get ev ''stage'') (pr_stages r) = map (\<lambda>s. Some (JStr (st_name s))) ran \<and>
        (\<exists>s. pr_score r = Some s \<and> 0 \<le> s \<and> s \<le> 100) \<and>
        0 \<le> pr_peak_bytes r \<and> pr_peak_bytes r \<le> MAX_MEMORY_BYTES \<and> max 0 start \<le> pr_next_stage r)"
proof -
  obtain r where r: "progressive_run env mode (Some p) u md ak start pressure deadline = Inr r"
    using progressive_loop_returns [of p "run_stage env u md ak"] run_stage_succeeds [OF assms]
    unfolding progressive_run_def by (metis option.simps(5))
  note acc = synthetic.run_accounts [OF r [unfolded progressive_run_def option.simps(5)]]
  have "nat (max 0 start) = nat start" by simp
  with r acc show ?thesis by (auto simp: Let_def)
qed

definition no_env :: eval_env where
  "no_env = \<lparr>sha = (\<lambda>s. length s), float_repr = (\<lambda>r. ''0.0''), work_ms = (\<lambda>i. 0), slack_ms = (\<lambda>i. 0),
     now_at = (\<lambda>i. 0)\<rparr>"

theorem progressive_run_accounts_witness:
  "\<exists>r. progressive_run no_env FixedProgressive (Some DEFAULT_PLAN) 7 [(''workload_kind'', JStr ''hard_fail'')]
     None 1 NORMAL None = Inr r \<and> 1 \<le> pr_next_stage r"
  using progressive_run_accounts [of DEFAULT_PLAN "[(''workload_kind'', JStr ''hard_fail'')]" no_env
      FixedProgressive 7 None 1 NORMAL None]
  by (auto simp: no_forced_failure_def DEFAULT_PLAN_def forced_stage_def Let_def)

text \<open>A run that stops without finishing: where it stopped, and how it goes on.\<close>

lemma deferred_run:
  assumes run: "progressive_loop runner mode plan pr dl now i acc = Inr r" and "\<not> pr_finished r"
  obtains st where "mode = ResourceAwareAdaptive" and "pr \<noteq> NORMAL"
    and "stage_at plan (pr_next_stage r) = Some st" and "9 \<le> st_cost_units st"
    and "pr_early_exit_reason r = None"
proof (rule progressive_loop_ends [where P = "\<lambda>_ _. True", OF run])
  show True by simp
  show True by simp
next
  fix j a
  assume "r = make_result mode True j (Some ''plan_exhausted'') None (last_tier (stages_log a)) a"
  with assms(2) show thesis by simp
next
  fix j a st out d
  assume d: "d = decide_after mode plan pr dl now j out" "action d \<noteq> Continue"
    and r: "r = make_result mode (action d = Finish) (j + 1)
             (if action d = Finish then Some (reason d) else None)
             (if action d = Finish then None else Some (reason d)) (Some (st_name st)) (advance st out a)"
  with assms(2) have def: "action d = Defer" by (cases "action d") auto
  then show thesis unfolding d(1)
    by (rule decide_after_DeferD) (use that r def in auto)
qed

text \<open>
  A deferral is resumable: a run is left unfinished only in the resource-aware mode and under
  pressure, in front of a stage of the plan that costs at least 9 units, and running again from
  there without pressure finishes the evaluation.
\<close>

theorem deferred_run_resumes:
  assumes "progressive_run env mode plan u md ak start pressure deadline = Inr r" and "\<not> pr_finished r"
    and "no_forced_failure (case plan of Some p \<Rightarrow> p | None \<Rightarrow> DEFAULT_PLAN) md"
  shows "mode = ResourceAwareAdaptive \<and> pressure \<noteq> NORMAL \<and>
    (\<exists>st. stage_at (case plan of Some p \<Rightarrow> p | None \<Rightarrow> DEFAULT_PLAN) (pr_next_stage r) = Some st \<and>
       9 \<le> st_cost_units st) \<and>
    (\<exists>r'. progressive_run env' mode plan u md ak (pr_next_stage r) NORMAL deadline = Inr r' \<and>
       pr_finished r' \<and> pr_next_stage r < pr_next_stage r')"
proof -
  define p where "p = (case plan of Some p \<Rightarrow> p | None \<Rightarrow> DEFAULT_PLAN)"
  have run: "progressive_loop (run_stage env u md ak) mode p pressure deadline (now_at env) (max 0 start)
      no_progress = Inr r"
    using assms(1) by (simp add: progressive_run_def p_def)
  obtain st where st: "mode = ResourceAwareAdaptive" "pressure \<noteq> NORMAL"
      "stage_at p (pr_next_stage r) = Some st" "9 \<le> st_cost_units st"
    using deferred_run [OF run assms(2)] by blast
  define i where "i = pr_next_stage r"
  have i: "max 0 i = i" using stage_at_SomeD [OF st(3)] by (simp add: i_def)
  obtain r' where r': "progressive_loop (run_stage env' u md ak) mode p NORMAL deadline (now_at env') i
      no_progress = Inr r'"
    using progressive_loop_returns [of p "run_stage env' u md ak"] run_stage_succeeds [OF assms(3)]
    unfolding p_def by metis
  have fin: "pr_finished r'" using deferred_run [OF r'] by blast
  have "i < pr_next_stage r'"
  proof (rule progressive_loop_ends [where P = "\<lambda>j _. i \<le> j", OF r'])
    fix j a
    assume "i \<le> j" and "stage_at p j = None"
      and res: "r' = make_result mode True j (Some ''plan_exhausted'') None (last_tier (stages_log a)) a"
    moreover have "i \<noteq> j" using calculation(2) st(3) i_def by auto
    ultimately show ?thesis by simp
  qed auto
  with st r' fin i show ?thesis
    unfolding progressive_run_def p_def [symmetric] i_def by auto
qed

text \<open>The concrete case: a hard evaluation under \<open>DEGRADED\<close> stops in front of the heavy stage.\<close>

lemma no_env_sel [simp]: "sha no_env = (\<lambda>s. length s)" "now_at no_env = (\<lambda>i. 0)"
  by (simp_all add: no_env_def)

lemma loop_at_stage:
  assumes "stage_at plan i = Some st" and "runner i st = Inr out"
  shows "progressive_loop runner mode plan pr dl now i acc =
    (let d = decide_after mode plan pr dl now i out
     in if action d = Continue
        then progressive_loop runner mode plan pr dl now (i + 1) (advance st out acc)
        else Inr (make_result mode (action d = Finish) (i + 1)
               (if action d = Finish then Some (reason d) else None)
               (if action d = Finish then None else Some (reason d)) (Some (st_name st)) (advance st out acc)))"
  using assms progressive_loop.simps [of runner mode plan pr dl now i acc]
  by (cases "action (decide_after mode plan pr dl now i out)") (simp_all add: Let_def)

lemma known_stage:
  assumes "no_forced_failure plan md" and "stage_at plan i = Some st" and "parse_workload_kind md = Some k"
  obtains out where "run_stage env u md ak i st = Inr out"
    and "so_confidence out = ev_confidence (evidence_for_stage (sha env) (st_name st) k u)"
    and "so_safe out = ev_safe (evidence_for_stage (sha env) (st_name st) k u)"
    and "so_score out = ev_score (evidence_for_stage (sha env) (st_name st) k u)"
  using run_stage_succeeds [OF assms(1,2)] run_stage_known_kind [OF _ assms(3)] by metis

lemmas evidence_defs =
  evidence_for_stage_def cheap_evidence_def medium_evidence_def heavy_evidence_def Let_def

text \<open>The action after a stage of the default plan, for a known workload kind.\<close>

lemma default_action:
  assumes "so_confidence out = ev_confidence (evidence_for_stage sh (st_name st) k u)"
    and "so_safe out = ev_safe (evidence_for_stage sh (st_name st) k u)"
    and "stage_at DEFAULT_PLAN i = Some st"
  shows "action (decide_after FixedProgressive DEFAULT_PLAN pr dl now i out) =
      (if i = 2 \<or> k \<in> {EasyPass, EasyFail} \<and> i = 0 \<or> k \<in> {AmbiguousPass, AmbiguousFail} \<and> i = 1
       then Finish else Continue)"
    and "action (decide_after AlwaysExpensive DEFAULT_PLAN pr dl now i out) = (if i = 2 then Finish else Continue)"
proof -
  consider "i = 0" "st = CHEAP" | "i = 1" "st = MEDIUM" | "i = 2" "st = HEAVY"
    using assms(3) by (auto simp: stage_at_default split: if_splits)
  then have "action (decide_after FixedProgressive DEFAULT_PLAN pr dl now i out) =
      (if i = 2 \<or> k \<in> {EasyPass, EasyFail} \<and> i = 0 \<or> k \<in> {AmbiguousPass, AmbiguousFail} \<and> i = 1
       then Finish else Continue) \<and>
    action (decide_after AlwaysExpensive DEFAULT_PLAN pr dl now i out) = (if i = 2 then Finish else Continue)"
  proof cases
    case 1
    with assms(1,2) show ?thesis
      by (cases k) (simp_all add: decide_after_def decide_def stage_at_default evidence_defs confident_def)
  next
    case 2
    with assms(1,2) show ?thesis
      by (cases k) (simp_all add: decide_after_def decide_def stage_at_default evidence_defs confident_def)
  next
    case 3
    with assms(1,2) show ?thesis
      by (cases k) (simp_all add: decide_after_def decide_def stage_at_default evidence_defs confident_def)
  qed
  then show "action (decide_after FixedProgressive DEFAULT_PLAN pr dl now i out) =
      (if i = 2 \<or> k \<in> {EasyPass, EasyFail} \<and> i = 0 \<or> k \<in> {AmbiguousPass, AmbiguousFail} \<and> i = 1
       then Finish else Continue)"
    and "action (decide_after AlwaysExpensive DEFAULT_PLAN pr dl now i out) = (if i = 2 then Finish else Continue)"
    by blast+
qed

text \<open>The first two stages of a hard evaluation under pressure, for the witness.\<close>

lemma hard_run_defers:
  assumes "no_forced_failure DEFAULT_PLAN md" and "parse_workload_kind md = Some HardFail" and "pr \<noteq> NORMAL"
  shows "\<exists>r. progressive_run env ResourceAwareAdaptive None u md ak 0 pr None = Inr r \<and>
    \<not> pr_finished r \<and> pr_next_stage r = 2 \<and> pr_cost r = 4"
proof -
  let ?d = "decide_after ResourceAwareAdaptive DEFAULT_PLAN pr None (now_at env)"
  have s: "stage_at DEFAULT_PLAN 0 = Some CHEAP" "stage_at DEFAULT_PLAN 1 = Some MEDIUM"
    by (simp_all add: stage_at_default)
  obtain o1 where o1: "run_stage env u md ak 0 CHEAP = Inr o1" "so_confidence o1 = Uncertain" "\<not> so_safe o1"
    by (rule known_stage [OF assms(1) s(1) assms(2), of env u ak]) (simp add: evidence_defs)
  obtain o2 where o2: "run_stage env u md ak 1 MEDIUM = Inr o2" "so_confidence o2 = Uncertain" "\<not> so_safe o2"
    by (rule known_stage [OF assms(1) s(2) assms(2), of env u ak]) (simp add: evidence_defs)
  have a1: "action (?d 0 o1) = Continue"
    using o1 by (simp add: decide_after_def decide_def stage_at_default confident_def deadline_near_def)
  have a2: "action (?d 1 o2) = Defer"
    using o2 assms(3)
    by (cases pr) (simp_all add: decide_after_def decide_def stage_at_default confident_def deadline_near_def)
  show ?thesis
    unfolding progressive_run_def
    using a1 a2 loop_at_stage [OF s(1), where runner = "run_stage env u md ak", OF o1(1)]
      loop_at_stage [OF s(2), where runner = "run_stage env u md ak", OF o2(1)] by (simp add: Let_def)
qed

theorem deferred_run_resumes_witness:
  "\<exists>r. progressive_run no_env ResourceAwareAdaptive None 7 [(''workload_kind'', JStr ''hard_fail'')] None 0
        DEGRADED None = Inr r \<and>
     (\<exists>r'. progressive_run no_env ResourceAwareAdaptive None 7 [(''workload_kind'', JStr ''hard_fail'')] None
        (pr_next_stage r) NORMAL None = Inr r' \<and> pr_finished r')"
proof -
  let ?md = "[(''workload_kind'', JStr ''hard_fail'')]"
  have nf: "no_forced_failure DEFAULT_PLAN ?md"
    by (simp add: no_forced_failure_def DEFAULT_PLAN_def forced_stage_def)
  have "parse_workload_kind ?md = Some HardFail" by code_simp
  from hard_run_defers [OF nf this, of DEGRADED no_env 7 None] obtain r where
    r: "progressive_run no_env ResourceAwareAdaptive None 7 ?md None 0 DEGRADED None = Inr r" "\<not> pr_finished r"
    by auto
  show ?thesis using deferred_run_resumes [OF r, of no_env] r(1) nf by auto
qed

text \<open>
  What the progressive modes save, for the default plan and every known workload kind: the
  fixed progressive mode spends 1 cost unit on an easy submission, 4 on an ambiguous one and all
  13 on a hard or adversarial one; the always-expensive mode spends 13 on each.
\<close>

theorem progressive_cost_by_kind:
  assumes "parse_workload_kind md = Some k" and "no_forced_failure DEFAULT_PLAN md"
  shows "(\<exists>r. progressive_run env FixedProgressive None u md ak 0 pressure deadline = Inr r \<and> pr_finished r \<and>
      pr_cost r = (if k \<in> {EasyPass, EasyFail} then 1
                   else if k \<in> {AmbiguousPass, AmbiguousFail} then 4 else 13)) \<and>
    (\<exists>r. progressive_run env AlwaysExpensive None u md ak 0 pressure deadline = Inr r \<and> pr_finished r \<and>
      pr_cost r = 13)"
proof -
  let ?run = "run_stage env u md ak"
  have s: "stage_at DEFAULT_PLAN 0 = Some CHEAP" "stage_at DEFAULT_PLAN 1 = Some MEDIUM"
    "stage_at DEFAULT_PLAN 2 = Some HEAVY"
    by (simp_all add: stage_at_default)
  obtain o1 where o1: "?run 0 CHEAP = Inr o1"
      "so_confidence o1 = ev_confidence (evidence_for_stage (sha env) (st_name CHEAP) k u)"
      "so_safe o1 = ev_safe (evidence_for_stage (sha env) (st_name CHEAP) k u)"
    by (rule known_stage [OF assms(2) s(1) assms(1)])
  obtain o2 where o2: "?run 1 MEDIUM = Inr o2"
      "so_confidence o2 = ev_confidence (evidence_for_stage (sha env) (st_name MEDIUM) k u)"
      "so_safe o2 = ev_safe (evidence_for_stage (sha env) (st_name MEDIUM) k u)"
    by (rule known_stage [OF assms(2) s(2) assms(1)])
  obtain o3 where o3: "?run 2 HEAVY = Inr o3"
      "so_confidence o3 = ev_confidence (evidence_for_stage (sha env) (st_name HEAVY) k u)"
      "so_safe o3 = ev_safe (evidence_for_stage (sha env) (st_name HEAVY) k u)"
    by (rule known_stage [OF assms(2) s(3) assms(1)])
  note acts = default_action [OF o1(2,3) s(1)] default_action [OF o2(2,3) s(2)]
    default_action [OF o3(2,3) s(3)]
  note steps = loop_at_stage [OF s(1), where runner = ?run, OF o1(1)]
    loop_at_stage [OF s(2), where runner = ?run, OF o2(1)]
    loop_at_stage [OF s(3), where runner = ?run, OF o3(1)]
  show ?thesis
    unfolding progressive_run_def by (simp add: steps acts Let_def)
qed

theorem progressive_cost_by_kind_witness:
  "\<exists>r. progressive_run no_env FixedProgressive None 7 [(''workload_kind'', JStr ''Ambiguous_Pass '')] None 0
      DEGRADED None = Inr r \<and> pr_cost r = 4"
proof -
  let ?md = "[(''workload_kind'', JStr ''Ambiguous_Pass '')]"
  have nf: "no_forced_failure DEFAULT_PLAN ?md"
    by (simp add: no_forced_failure_def DEFAULT_PLAN_def forced_stage_def)
  have "parse_workload_kind ?md = Some AmbiguousPass" by code_simp
  from progressive_cost_by_kind [OF this nf, of no_env 7 None DEGRADED None] show ?thesis by auto
qed

section \<open>Agreement with the ground truth\<close>

record quality_comparison =
  qc_kind :: workload_kind
  qc_ground_truth :: decision
  qc_decision :: decision
  qc_agreement :: bool
  qc_false_early_pass :: bool
  qc_false_early_fail :: bool
  qc_early_exit :: bool
  qc_cost :: int
  qc_stages :: nat

text \<open>
  The loop that resumes deferred runs: at most \<open>n\<close> more times, from the result so far with the
  totals of cost and stages and the early-exit reason. \<open>env_of n\<close> is the environment of the
  run made when \<open>n\<close> resumptions are left.
\<close>

fun resume_deferred ::
  "(nat \<Rightarrow> eval_env) \<Rightarrow> evaluation_mode \<Rightarrow> uuid \<Rightarrow> dict \<Rightarrow> nat \<Rightarrow> progressive_result \<Rightarrow> int \<Rightarrow> dict list \<Rightarrow>
   string option \<Rightarrow> exn + progressive_result \<times> int \<times> dict list \<times> string option" where
  "resume_deferred env_of mode u md 0 r cost stages early = Inr (r, cost, stages, early)"
| "resume_deferred env_of mode u md (Suc n) r cost stages early =
     (if pr_finished r then Inr (r, cost, stages, early)
      else case progressive_run (env_of n) mode None u md None (pr_next_stage r) NORMAL None of
        Inl e \<Rightarrow> Inl e
      | Inr r' \<Rightarrow> resume_deferred env_of mode u md n r' (cost + pr_cost r') (stages @ pr_stages r')
          (case pr_early_exit_reason r' of
             Some (c # cs) \<Rightarrow> pr_early_exit_reason r' | _ \<Rightarrow> early))"

definition quality_of ::
  "workload_kind \<Rightarrow> ground_truth \<Rightarrow> progressive_result \<Rightarrow> int \<Rightarrow> dict list \<Rightarrow> string option \<Rightarrow> quality_comparison" where
  "quality_of kind truth r cost stages early_reason =
     (let d = decision_from_score (case pr_score r of Some s \<Rightarrow> s | None \<Rightarrow> 0);
          early = (case early_reason of None \<Rightarrow> False
                   | Some t \<Rightarrow> t \<noteq> [] \<and> starts_with ''safe_early_exit'' t \<and> length stages < 3)
      in \<lparr>qc_kind = kind, qc_ground_truth = gt_decision truth, qc_decision = d,
          qc_agreement = (d = gt_decision truth),
          qc_false_early_pass = (early \<and> d = DPass \<and> gt_decision truth = DFail),
          qc_false_early_fail = (early \<and> d = DFail \<and> gt_decision truth = DPass),
          qc_early_exit = early, qc_cost = cost, qc_stages = length stages\<rparr>)"

definition compare_to_ground_truth ::
  "(nat \<Rightarrow> eval_env) \<Rightarrow> uuid \<Rightarrow> dict \<Rightarrow> evaluation_mode \<Rightarrow> pressure_state \<Rightarrow> exn + quality_comparison" where
  "compare_to_ground_truth env_of submission_id md mode pressure =
     (case parse_workload_kind md of
        None \<Rightarrow> Inl (ValueError ''metadata must include workload_kind for quality comparison'')
      | Some kind \<Rightarrow>
          let truth = ground_truth_for (sha (env_of 5)) kind submission_id
          in case progressive_run (env_of 5) mode None submission_id md None 0 pressure None of
               Inl e \<Rightarrow> Inl e
             | Inr r \<Rightarrow>
                 (case resume_deferred env_of mode submission_id md 5 r (pr_cost r) (pr_stages r)
                       (pr_early_exit_reason r) of
                    Inl e \<Rightarrow> Inl e
                  | Inr (r', cost, stages, early) \<Rightarrow> Inr (quality_of kind truth r' cost stages early)))"

text \<open>
  Where a run of the default plan finishes with a score other than the ground truth's: only in a mode
  that does not escalate, and never with a safe early exit.
\<close>

lemma finished_run_truth:
  assumes run: "progressive_run env mode None u md ak start pr dl = Inr r"
    and fin: "pr_finished r" and kind: "parse_workload_kind md = Some k" and "start \<le> 2"
    and why: "progressive_mode mode \<or>
      (\<exists>t. pr_early_exit_reason r = Some t \<and> starts_with ''safe_early_exit'' t)"
  shows "pr_score r = Some (gt_score (ground_truth_for (sha env) k u))"
proof (rule progressive_loop_ends [where P = "\<lambda>j _. 0 \<le> j \<and> j \<le> 2"])
  show "progressive_loop (run_stage env u md ak) mode DEFAULT_PLAN pr dl (now_at env) (max 0 start)
      no_progress = Inr r"
    using run by (simp add: progressive_run_def)
  show "0 \<le> max 0 start \<and> max 0 start \<le> 2" using assms(4) by simp
  show "0 \<le> j + 1 \<and> j + 1 \<le> 2"
    if "0 \<le> j \<and> j \<le> 2" and "action (decide_after mode DEFAULT_PLAN pr dl (now_at env) j out) = Continue"
    for j out
    using that(1) decide_after_ContinueD [OF that(2)] by (auto simp: stage_at_default split: if_splits)
next
  fix j a
  assume "0 \<le> j \<and> j \<le> 2" and "stage_at DEFAULT_PLAN j = None"
  then show ?thesis by (auto simp: stage_at_default split: if_splits)
next
  fix j a st out d
  assume j: "0 \<le> j \<and> j \<le> 2" and st: "stage_at DEFAULT_PLAN j = Some st"
    and out: "run_stage env u md ak j st = Inr out"
    and d: "d = decide_after mode DEFAULT_PLAN pr dl (now_at env) j out" "action d \<noteq> Continue"
    and r: "r = make_result mode (action d = Finish) (j + 1)
             (if action d = Finish then Some (reason d) else None)
             (if action d = Finish then None else Some (reason d)) (Some (st_name st)) (advance st out a)"
  have act: "action d = Finish" using fin r by simp
  from why have "so_safe out \<or> stage_at DEFAULT_PLAN (j + 1) = None"
  proof
    assume "progressive_mode mode"
    with act d(1) decide_after_FinishD [of mode DEFAULT_PLAN pr dl "now_at env" j out]
    show ?thesis by auto
  next
    assume "\<exists>t. pr_early_exit_reason r = Some t \<and> starts_with ''safe_early_exit'' t"
    with act r have "starts_with ''safe_early_exit'' (reason d)" by simp
    then show ?thesis unfolding d(1) decide_after_def Let_def by (auto dest: decide_safe_reasonD)
  qed
  then have "ev_safe (evidence_for_stage (sha env) (st_name st) k u) \<or> st_name st = ''heavy''"
    using run_stage_known_kind(2) [OF out kind] st j by (auto simp: stage_at_default split: if_splits)
  then have "so_score out = gt_score (ground_truth_for (sha env) k u)"
    using run_stage_known_kind(3) [OF out kind] safe_evidence_truth by simp
  with r show ?thesis by simp
qed

text \<open>The totals of the comparison are those of one pass over a prefix of the default plan.\<close>

lemma default_prefix:
  assumes "0 \<le> i" and "i \<le> j" and "j \<le> 3"
  shows "sum_list (map st_cost_units (slice DEFAULT_PLAN 0 (nat i))) +
      sum_list (map st_cost_units (slice DEFAULT_PLAN (nat i) (nat j)))
    = sum_list (map st_cost_units (take (nat j) DEFAULT_PLAN))"
  using slice_append [of 0 "nat i" "nat j" DEFAULT_PLAN] assms
  by (metis drop0 map_append minus_nat.diff_0 nat_mono slice_def sum_list_append zero_le)

lemma next_stage_bound:
  assumes "progressive_run env mode None u md ak start pr dl = Inr r" and "start \<le> 2"
  shows "pr_next_stage r \<le> 3"
proof (rule progressive_loop_ends [where P = "\<lambda>j _. j \<le> 2"])
  show "progressive_loop (run_stage env u md ak) mode DEFAULT_PLAN pr dl (now_at env) (max 0 start)
      no_progress = Inr r"
    using assms(1) by (simp add: progressive_run_def)
  show "max 0 start \<le> 2" using assms(2) by simp
  show "j + 1 \<le> 2" if "j \<le> 2" and "action (decide_after mode DEFAULT_PLAN pr dl (now_at env) j out) = Continue"
    for j out
    using that(1) decide_after_ContinueD [OF that(2)] by (auto simp: stage_at_default split: if_splits)
qed auto

lemma run_totals:
  assumes "progressive_run env mode None u md ak start pr dl = Inr r" and "0 \<le> start" and "start \<le> 2"
  shows "pr_cost r = sum_list (map st_cost_units (slice DEFAULT_PLAN (nat start) (nat (pr_next_stage r))))"
    and "length (pr_stages r) = nat (pr_next_stage r) - nat start"
    and "start \<le> pr_next_stage r" and "pr_next_stage r \<le> 3"
proof -
  have run: "progressive_loop (run_stage env u md ak) mode DEFAULT_PLAN pr dl (now_at env) start
      no_progress = Inr r"
    using assms(1,2) by (simp add: progressive_run_def)
  note acc = synthetic.run_accounts [OF run assms(2)]
  show b: "start \<le> pr_next_stage r" "pr_next_stage r \<le> 3"
    using acc(1) next_stage_bound [OF assms(1,3)] by auto
  show "pr_cost r = sum_list (map st_cost_units (slice DEFAULT_PLAN (nat start) (nat (pr_next_stage r))))"
    by (rule acc(2))
  have "length (pr_stages r) = length (slice DEFAULT_PLAN (nat start) (nat (pr_next_stage r)))"
    using arg_cong [OF acc(3), of length] by simp
  then show "length (pr_stages r) = nat (pr_next_stage r) - nat start"
    using b assms(2) by (simp add: slice_simps DEFAULT_PLAN_def)
qed

lemma run_default_returns:
  assumes "no_forced_failure DEFAULT_PLAN md"
  obtains r where "progressive_run env mode None u md ak start pr dl = Inr r"
  using progressive_loop_returns [of DEFAULT_PLAN "run_stage env u md ak"] run_stage_succeeds [OF assms]
  unfolding progressive_run_def by (metis option.simps(4))

text \<open>
  C3. Agreement with the ground truth. For every submission id, every workload kind, every initial
  pressure and every clock, the comparison returns a result; in the three progressive modes the
  decision reached (resuming a deferred run as often as needed, which is at most once) is the ground
  truth's, in no mode is there a false early pass or fail, and the cost and the number of stages are
  those of one pass over a prefix of the plan, so deferring never repeats a stage.
\<close>

theorem progressive_agrees_with_truth:
  assumes kind: "parse_workload_kind md = Some k" and nf: "no_forced_failure DEFAULT_PLAN md"
    and sh: "\<And>n. sha (env_of n) = sh"
  shows "\<exists>q. compare_to_ground_truth env_of u md mode pressure = Inr q \<and>
    (progressive_mode mode \<longrightarrow> qc_agreement q \<and> qc_decision q = gt_decision (ground_truth_for sh k u)) \<and>
    \<not> qc_false_early_pass q \<and> \<not> qc_false_early_fail q \<and>
    qc_stages q \<le> 3 \<and> qc_cost q = sum_list (map st_cost_units (take (qc_stages q) DEFAULT_PLAN))"
proof -
  let ?t = "ground_truth_for sh k u"
  let ?ok = "\<lambda>q. (progressive_mode mode \<longrightarrow> qc_agreement q \<and> qc_decision q = gt_decision ?t) \<and>
    \<not> qc_false_early_pass q \<and> \<not> qc_false_early_fail q \<and>
    qc_stages q \<le> 3 \<and> qc_cost q = sum_list (map st_cost_units (take (qc_stages q) DEFAULT_PLAN))"
  obtain r where r: "progressive_run (env_of 5) mode None u md None 0 pressure None = Inr r"
    by (rule run_default_returns [OF nf])
  note tot = run_totals [OF r]
  show ?thesis
  proof (cases "pr_finished r")
    case True
    have "resume_deferred env_of mode u md 5 r (pr_cost r) (pr_stages r) (pr_early_exit_reason r)
        = Inr (r, pr_cost r, pr_stages r, pr_early_exit_reason r)"
      using True by (simp add: eval_nat_numeral)
    moreover have "?ok (quality_of k ?t r (pr_cost r) (pr_stages r) (pr_early_exit_reason r))"
      using finished_run_truth [OF r True kind] tot sh
      by (auto simp: quality_of_def Let_def slice_def split: option.splits)
    ultimately show ?thesis using kind r sh by (simp add: compare_to_ground_truth_def Let_def)
  next
    case False
    obtain st where st: "mode = ResourceAwareAdaptive" "stage_at DEFAULT_PLAN (pr_next_stage r) = Some st"
        "pr_early_exit_reason r = None"
      using deferred_run [OF r [unfolded progressive_run_def option.simps(4)] False] by blast
    have nx: "0 \<le> pr_next_stage r" "pr_next_stage r \<le> 2"
      using st(2) by (auto simp: stage_at_default split: if_splits)
    obtain r' where r': "progressive_run (env_of 4) mode None u md None (pr_next_stage r) NORMAL None = Inr r'"
      by (rule run_default_returns [OF nf])
    have fin: "pr_finished r'"
      using deferred_run [OF r' [unfolded progressive_run_def option.simps(4)]] by blast
    note tot' = run_totals [OF r' nx]
    have score: "pr_score r' = Some (gt_score ?t)"
      using finished_run_truth [OF r' fin kind nx(2)] st(1) sh by (simp add: progressive_mode_def)
    have len: "nat (pr_next_stage r) + (nat (pr_next_stage r') - nat (pr_next_stage r)) = nat (pr_next_stage r')"
      and len3: "nat (pr_next_stage r') \<le> 3"
      using tot'(3,4) nx(1) by simp_all
    obtain early where "resume_deferred env_of mode u md 5 r (pr_cost r) (pr_stages r) (pr_early_exit_reason r)
        = Inr (r', pr_cost r + pr_cost r', pr_stages r @ pr_stages r', early)"
      using False fin r' by (simp add: eval_nat_numeral)
    moreover have "?ok (quality_of k ?t r' (pr_cost r + pr_cost r') (pr_stages r @ pr_stages r') early)"
      using score tot tot' default_prefix [OF nx(1) tot'(3,4)] len len3
      by (auto simp: quality_of_def Let_def split: option.splits)
    ultimately show ?thesis using kind r sh by (simp add: compare_to_ground_truth_def Let_def)
  qed
qed

theorem progressive_agrees_with_truth_witness:
  "\<exists>q. compare_to_ground_truth (\<lambda>n. no_env) 7 [(''workload_kind'', JStr ''adversarial_fail'')]
      ResourceAwareAdaptive DEGRADED = Inr q \<and> qc_agreement q \<and> qc_decision q = DFail"
proof -
  let ?md = "[(''workload_kind'', JStr ''adversarial_fail'')]"
  have nf: "no_forced_failure DEFAULT_PLAN ?md"
    by (simp add: no_forced_failure_def DEFAULT_PLAN_def forced_stage_def)
  have "parse_workload_kind ?md = Some AdversarialFail" by code_simp
  from progressive_agrees_with_truth [OF this nf, of "\<lambda>n. no_env" "sha no_env" 7 ResourceAwareAdaptive DEGRADED]
  show ?thesis by (auto simp: progressive_mode_def)
qed

end
