(* ===== verification/Eval_Worker.thy ===== *)
theory Eval_Worker
  imports Eval_Queue Execution Progressive
begin

text \<open>
  The evaluation worker, \<^verbatim>\<open>worker/__init__.py\<close>. One iteration is four separate transactions with the
  evaluation itself outside of any: publish the runtime state (\<open>poll_phase\<close>), claim
  (\<open>claim_phase\<close>), evaluate without the database (\<open>evaluate_claim\<close>, giving what is to be
  written), write the result (\<open>finish_phase\<close>). \<open>process_one\<close> is the sequential composition;
  the relation \<open>sys_step\<close> interleaves the phases of any number of workers, stale recovery and new
  submissions.
\<close>

section \<open>The worker\<close>

record worker =
  wk_id :: worker_id
  wk_runtime :: runtime
  wk_completed :: nat
  wk_failed :: nat
  wk_claims :: nat
  wk_polls :: nat
  wk_empty_polls :: nat
  wk_holds :: nat

definition new_worker :: "settings \<Rightarrow> worker_id \<Rightarrow> worker" where
  "new_worker st i =
     \<lparr>wk_id = i, wk_runtime = new_runtime (from_settings st) (resource_aware_runtime_enabled st),
      wk_completed = 0, wk_failed = 0, wk_claims = 0, wk_polls = 0, wk_empty_polls = 0, wk_holds = 0\<rparr>"

text \<open>\<open>recover_stale\<close>: the transaction is committed only when something was recovered.\<close>

definition worker_recover :: "settings \<Rightarrow> datetime \<Rightarrow> (uuid \<Rightarrow> os) \<Rightarrow> equeue \<Rightarrow> nat \<times> equeue" where
  "worker_recover st now os_of q =
     (let (recovered, q') = recover_stale_running now
            (now - evaluation_stale_after_seconds st * 1000000) (evaluation_max_attempts st) os_of q
      in (length recovered, if recovered \<noteq> [] then q' else q))"

text \<open>
  The first part of \<open>process_one\<close>: read the plane and the hint, tick, publish the runtime state.
  It gives the tick's result and, when the admission holds, counts the hold.
\<close>

definition poll_phase :: "host \<Rightarrow> worker \<Rightarrow> equeue \<Rightarrow> exn + tick_result \<times> worker \<times> equeue" where
  "poll_phase h wk q =
     (let plane = plane_snapshot q;
          hint = read_runtime_state q;
          rt = set_interactive_p95_ms (rs_interactive_p95_ms hint) (rs_interactive_sample_count hint) (wk_runtime wk)
      in case tick (int (pl_queued plane)) (int (pl_running plane)) h rt of
           Inl e \<Rightarrow> Inl e
         | Inr (t, rt') \<Rightarrow>
             Inr (t, wk\<lparr>wk_runtime := rt', wk_polls := wk_polls wk + 1,
                    wk_holds := wk_holds wk + (if ad_allowed (tk_admission t) then 0 else 1)\<rparr>,
                  persist_runtime_state (pressure_value (tk_pressure t)) (tk_workers t) q))"

text \<open>The claim transaction: rolled back when nothing was claimed.\<close>

definition claim_phase :: "settings \<Rightarrow> datetime \<Rightarrow> tick_result \<Rightarrow> worker \<Rightarrow> equeue \<Rightarrow> evaluation option \<times> worker \<times> equeue" where
  "claim_phase st now t wk q =
     (case claim_next now (wk_id wk) (evaluation_scheduling_policy st) (tk_workers t) (tk_heavy t)
             (evaluation_light_bypass_limit st) q of
        (None, _) \<Rightarrow> (None, wk\<lparr>wk_empty_polls := wk_empty_polls wk + 1\<rparr>, q)
      | (Some e, q') \<Rightarrow> (Some e, wk\<lparr>wk_claims := wk_claims wk + 1\<rparr>, q'))"

section \<open>Evaluating a claim\<close>

text \<open>What an evaluation wants to write back.\<close>

datatype pending =
    PFail string "dict option"
  | PSucceed int dict "int option"
  | PDefer int workload_class dict
  | PRelease string dict

record run_env =
  re_env :: eval_env
  re_world :: exec_world
  re_pgid :: "int option"
  re_attempt_id :: string
  re_mechanism :: string

definition evaluation_mode_of :: "string \<Rightarrow> evaluation_mode option" where
  "evaluation_mode_of s =
     find (\<lambda>m. mode_value m = s)
       [Legacy, AlwaysExpensive, FixedProgressive, ResourceAwareAdaptive, SyntheticExecution]"

text \<open>\<open>EvaluationMode(claimed.evaluation_mode or settings...)\<close>, falling back to LEGACY.\<close>

definition claim_mode :: "settings \<Rightarrow> evaluation \<Rightarrow> evaluation_mode" where
  "claim_mode st e =
     (case evaluation_mode_of (if e_mode e = [] then evaluation_progressive_mode st else e_mode e) of
        Some m \<Rightarrow> m | None \<Rightarrow> Legacy)"

text \<open>An exception other than the ones caught here propagates out of \<open>process_one\<close> (\<open>Inl\<close>).\<close>

definition run_legacy :: "run_env \<Rightarrow> evaluation \<Rightarrow> submission \<Rightarrow> exn + pending" where
  "run_legacy env e s =
     (case evaluate_submission (re_env env) (s_id s) (s_metadata s) (s_artifact_key s)
             (Some (IsClass (e_workload_class e))) of
        Inl (EvaluationFailed why) \<Rightarrow>
          Inr (PFail why (Some [(''evaluator'', JStr ''deterministic_placeholder_v2''),
            (''workload_class'', JStr (workload_class_value (e_workload_class e)))]))
      | Inl x \<Rightarrow> Inl x
      | Inr r \<Rightarrow> Inr (PSucceed (eo_score r) (eo_result_metadata r) None))"

definition worker_limits :: "settings \<Rightarrow> execution_limits" where
  "worker_limits st = default_limits\<lparr>wall_timeout_seconds := execution_wall_timeout_seconds st,
     max_stdout_bytes := execution_max_stdout_bytes st, max_stderr_bytes := execution_max_stderr_bytes st\<rparr>"

definition or_default :: "string option \<Rightarrow> string \<Rightarrow> string" where
  "or_default s dflt = (case s of Some (c # cs) \<Rightarrow> c # cs | _ \<Rightarrow> dflt)"

text \<open>The attempt metadata the callback hands to \<open>begin_execution_attempt\<close> once the process runs.\<close>

definition started_attempt :: "run_env \<Rightarrow> worker_id \<Rightarrow> evaluation \<Rightarrow> string \<Rightarrow> dict" where
  "started_attempt env w e workload =
     to_metadata (mark_started (re_world env) (re_pgid env)
       (new_attempt (re_attempt_id env) (uuid_str (e_id e)) w workload (re_mechanism env)))"

definition run_synthetic ::
  "settings \<Rightarrow> run_env \<Rightarrow> worker_id \<Rightarrow> evaluation \<Rightarrow> submission \<Rightarrow> (exn + pending) option" where
  "run_synthetic st env w e s =
     (case run_synthetic_execution (re_world env) (re_pgid env) (re_attempt_id env) (re_mechanism env)
             (worker_limits st) (e_id e) (s_id s) (s_metadata s) (workload_class_value (e_workload_class e))
             (e_attempt_count e) (evaluation_max_attempts st) w of
        None \<Rightarrow> None
      | Some (Inl (ValueError m)) \<Rightarrow>
          Some (Inr (PFail (''invalid_execution_workload: '' @ m)
            (Some [(''evaluator'', JStr ''synthetic_execution_v1''), (''error'', JStr m)])))
      | Some (Inl x) \<Rightarrow> Some (Inl x)
      | Some (Inr r) \<Rightarrow>
          Some (Inr (case xr_terminal r of
                  TRequeue \<Rightarrow> PRelease (or_default (xr_failure_reason r) ''execution_retry'') (xr_metadata r)
                | TSucceeded \<Rightarrow> PSucceed (case xr_score r of Some n \<Rightarrow> n | None \<Rightarrow> 0) (xr_metadata r) None
                | TFailed \<Rightarrow> PFail (or_default (xr_failure_reason r) ''execution_failed'') (Some (xr_metadata r)))))"

section \<open>Progressive evaluation across claims\<close>

text \<open>Reading the progressive part of stored metadata, with the code's defaults.\<close>

definition prior_progressive :: "dict \<Rightarrow> dict option" where
  "prior_progressive md = (case dict_get md ''progressive'' of Some (JObj p) \<Rightarrow> Some p | _ \<Rightarrow> None)"

definition list_field :: "dict \<Rightarrow> string \<Rightarrow> json list" where
  "list_field d key = (case dict_get d key of Some (JList xs) \<Rightarrow> xs | _ \<Rightarrow> [])"

definition int_or_zero :: "dict \<Rightarrow> string \<Rightarrow> int" where
  "int_or_zero d key = (case dict_get d key of Some (JInt i) \<Rightarrow> i | _ \<Rightarrow> 0)"

definition set_progressive :: "dict \<Rightarrow> string \<Rightarrow> json \<Rightarrow> dict" where
  "set_progressive md key v =
     (case dict_get md ''progressive'' of
        Some (JObj p) \<Rightarrow> dict_set md ''progressive'' (JObj (dict_set p key v))
      | _ \<Rightarrow> md)"

text \<open>A deferral: the stages and the cost of earlier claims are merged in.\<close>

definition defer_result :: "evaluation \<Rightarrow> progressive_result \<Rightarrow> pending" where
  "defer_result e r =
     (let next_class = (case stage_at DEFAULT_PLAN (pr_next_stage r) of Some s \<Rightarrow> st_class s | None \<Rightarrow> Heavy);
          prior = (case prior_progressive (e_result_metadata e) of Some p \<Rightarrow> p | None \<Rightarrow> []);
          md = set_progressive (pr_metadata r) ''stages_completed''
                 (JList (list_field prior ''stages_completed'' @ map JObj (pr_stages r)));
          md = set_progressive md ''actual_cost_units''
                 (JInt (int_or_zero prior ''actual_cost_units'' + pr_cost r))
      in PDefer (pr_next_stage r) next_class md)"

definition finish_result :: "evaluation \<Rightarrow> progressive_result \<Rightarrow> pending" where
  "finish_result e r =
     (let md = pr_metadata r;
          md = (case prior_progressive (e_result_metadata e) of
                  Some p \<Rightarrow>
                    (if list_field p ''stages_completed'' \<noteq> [] then
                       let cost = int_or_zero p ''actual_cost_units'' + pr_cost r
                       in set_progressive (set_progressive (set_progressive md ''stages_completed''
                            (JList (list_field p ''stages_completed'' @ map JObj (pr_stages r))))
                            ''actual_cost_units'' (JInt cost))
                            ''compute_savings'' (JFloat (py_round 4 (1 - of_int cost / of_int ALWAYS_EXPENSIVE_COST_UNITS)))
                     else md)
                | None \<Rightarrow> md)
      in PSucceed (case pr_score r of Some s \<Rightarrow> s | None \<Rightarrow> 0) md (Some (pr_next_stage r)))"

definition run_progressive ::
  "run_env \<Rightarrow> evaluation_mode \<Rightarrow> pressure_state \<Rightarrow> evaluation \<Rightarrow> submission \<Rightarrow> exn + pending" where
  "run_progressive env mode pressure e s =
     (case progressive_run (re_env env) mode None (s_id s) (s_metadata s) (s_artifact_key s)
             (e_current_stage e) pressure (e_deadline_at e) of
        Inl (EvaluationFailed why) \<Rightarrow>
          Inr (PFail why (Some [(''evaluator'', JStr ''progressive_synthetic_v1''),
            (''workload_class'', JStr (workload_class_value (e_workload_class e)))]))
      | Inl x \<Rightarrow> Inl x
      | Inr r \<Rightarrow> Inr (if \<not> pr_finished r then defer_result e r else finish_result e r))"

text \<open>
  The evaluation of a claim, outside of any transaction. The pressure is the one of the tick that
  admitted the claim. \<open>None\<close>: the observations of the synthetic execution end before it does.
\<close>

definition evaluate_claim ::
  "settings \<Rightarrow> run_env \<Rightarrow> worker_id \<Rightarrow> pressure_state \<Rightarrow> submission list \<Rightarrow> evaluation \<Rightarrow> (exn + pending) option" where
  "evaluate_claim st env w pressure subs e =
     (case find (\<lambda>s. s_id s = e_submission_id e) subs of
        None \<Rightarrow> Some (Inr (PFail ''Submission missing at evaluation time.'' None))
      | Some s \<Rightarrow>
          (case claim_mode st e of
             Legacy \<Rightarrow> Some (run_legacy env e s)
           | SyntheticExecution \<Rightarrow> run_synthetic st env w e s
           | mode \<Rightarrow> Some (run_progressive env mode pressure e s)))"

section \<open>Writing the result\<close>

text \<open>
  The final transaction of the three runners: the queue after it, whether the write was accepted, and the
  counters. The stage index of a progressive success is written only when the row was still owned.
\<close>

definition finish_phase :: "datetime \<Rightarrow> evaluation \<Rightarrow> pending \<Rightarrow> worker \<Rightarrow> equeue \<Rightarrow> bool \<times> worker \<times> equeue" where
  "finish_phase now e p wk q =
     (case p of
        PFail why md \<Rightarrow>
          (let (r, q') = mark_failed now (e_id e) (wk_id wk) why md q
           in (r \<noteq> None, wk\<lparr>wk_failed := wk_failed wk + 1\<rparr>, q'))
      | PSucceed score md stage \<Rightarrow>
          (case mark_succeeded now (e_id e) (wk_id wk) score md q of
             (None, q') \<Rightarrow> (False, wk, q')
           | (Some r, q') \<Rightarrow>
               (True, wk\<lparr>wk_completed := wk_completed wk + 1\<rparr>,
                case stage of None \<Rightarrow> q'
                | Some n \<Rightarrow> q'\<lparr>evals := update_where (\<lambda>x. e_id x = e_id e)
                    (\<lambda>x. x\<lparr>e_current_stage := n\<rparr>) (evals q')\<rparr>))
      | PDefer stage cls md \<Rightarrow>
          (let (r, q') = defer_escalation (e_id e) (wk_id wk) stage cls md q in (r \<noteq> None, wk, q'))
      | PRelease why md \<Rightarrow>
          (let (r, q') = release_for_retry (e_id e) (wk_id wk) md why q in (r \<noteq> None, wk, q')))"

text \<open>The attempt is recorded while a synthetic execution runs, if its process could be started.\<close>

definition begin_phase ::
  "settings \<Rightarrow> run_env \<Rightarrow> submission list \<Rightarrow> evaluation \<Rightarrow> worker_id \<Rightarrow> equeue \<Rightarrow> equeue" where
  "begin_phase st env subs e w q =
     (case find (\<lambda>s. s_id s = e_submission_id e) subs of
        None \<Rightarrow> q
      | Some s \<Rightarrow>
          if claim_mode st e \<noteq> SyntheticExecution \<or> xw_popen_error (re_world env) then q
          else case resolve_workload (dict_get (s_metadata s) ''execution_workload'')
                      (workload_class_value (e_workload_class e)) of
                 Inl _ \<Rightarrow> q
               | Inr workload \<Rightarrow> snd (begin_execution_attempt (e_id e) w (started_attempt env w e workload) q))"

text \<open>
  \<open>process_one\<close> with nothing in between: whether work was done, the worker and the queue. \<open>clock\<close>
  are the clock readings of the claim and of the write.
\<close>

definition process_one ::
  "settings \<Rightarrow> host \<Rightarrow> run_env \<Rightarrow> datetime \<times> datetime \<Rightarrow> submission list \<Rightarrow> worker \<Rightarrow> equeue
     \<Rightarrow> (exn + bool \<times> worker \<times> equeue) option" where
  "process_one st h env clock subs wk q =
     (case poll_phase h wk q of
        Inl x \<Rightarrow> Some (Inl x)
      | Inr (t, wk1, q1) \<Rightarrow>
          if \<not> ad_allowed (tk_admission t) then Some (Inr (False, wk1, q1))
          else case claim_phase st (fst clock) t wk1 q1 of
                 (None, wk2, q2) \<Rightarrow> Some (Inr (False, wk2, q2))
               | (Some e, wk2, q2) \<Rightarrow>
                   (case evaluate_claim st env (wk_id wk2) (tk_pressure t) subs e of
                      None \<Rightarrow> None
                    | Some (Inl x) \<Rightarrow> Some (Inl x)
                    | Some (Inr p) \<Rightarrow>
                        (let (ok, wk3, q3) = finish_phase (snd clock) e p wk2
                               (begin_phase st env subs e (wk_id wk2) q2)
                         in Some (Inr (True, wk3, q3)))))"

section \<open>An iteration leaves nothing running\<close>

lemma running_update_where:
  assumes "\<And>r. p r \<Longrightarrow> P (f r) \<Longrightarrow> P r"
  shows "length (filter P (update_where p f rows)) \<le> length (filter P rows)"
  using assms by (induction rows) (auto simp: update_where_def le_SucI)

lemma on_evals_counts:
  assumes "\<And>r. p r \<Longrightarrow> e_status r = ERunning" and "\<And>r. e_workload_class (f r) = Heavy \<Longrightarrow> e_status (f r) = ERunning \<Longrightarrow> e_workload_class r = Heavy"
  shows "running_count (snd (on_evals p f q)) \<le> running_count q"
    and "running_heavy_count (snd (on_evals p f q)) \<le> running_heavy_count q"
  unfolding running_count_def running_heavy_count_def on_evals_sel
  by (rule running_update_where, use assms in blast)+

text \<open>Updating the one row a worker owns so that it is no longer running.\<close>

lemma release_owned:
  assumes "ids_unique q" and "e \<in> set (evals q)" and "owned_running (e_id e) w e"
    and "e_status (f e) \<noteq> ERunning"
  shows "fst (on_evals (owned_running (e_id e) w) f q) = Some (f e)"
    and "Suc (running_count (snd (on_evals (owned_running (e_id e) w) f q))) = running_count q"
proof -
  have own: "owned_running (e_id e) w x \<longleftrightarrow> e_id x = e_id e" if "x \<in> set (evals q)" for x
    using that assms(1,2,3) unfolding ids_unique_def owned_running_def by (auto dest: distinct_key_eq)
  then have fe: "find (owned_running (e_id e) w) (evals q) = Some e"
    using find_distinct_key [OF assms(1) [unfolded ids_unique_def] assms(2)]
    by (auto simp: find_Some_iff)
  then show "fst (on_evals (owned_running (e_id e) w) f q) = Some (f e)"
    by (simp add: update_returning_def)
  have "update_where (owned_running (e_id e) w) f (evals q) = update_where (\<lambda>x. e_id x = e_id e) f (evals q)"
    using own by (simp add: update_where_def)
  moreover have "e_status e = ERunning" using assms(3) by (simp add: owned_running_def)
  ultimately show "Suc (running_count (snd (on_evals (owned_running (e_id e) w) f q))) = running_count q"
    using count_update_key [OF assms(1) [unfolded ids_unique_def] assms(2), where q = "\<lambda>x. e_status x = ERunning" and f = f]
      assms(4)
    by (simp add: running_count_def)
qed

lemma finish_releases:
  assumes "ids_unique q" and "x \<in> set (evals q)" and "owned_running (e_id e) (wk_id wk) x"
    and "finish_phase now e p wk q = (ok, wk', q')"
  shows "ok \<and> Suc (running_count q') = running_count q"
proof -
  have i: "e_id e = e_id x" using assms(3) by (simp add: owned_running_def)
  have own: "owned_running (e_id x) (wk_id wk) x" using assms(3) i by simp
  note rel = release_owned [OF assms(1,2) own]
  have stage: "running_count (q1\<lparr>evals := update_where (\<lambda>y. e_id y = k) (\<lambda>y. y\<lparr>e_current_stage := n\<rparr>) (evals q1)\<rparr>)
      = running_count q1" for q1 k n
    by (simp add: running_count_def update_where_def filter_map comp_def if_distrib cong: if_cong)
  show ?thesis
  proof (cases p)
    case (PFail why md)
    show ?thesis
      using assms(4) rel [where f = "\<lambda>y. y\<lparr>e_status := EFailed, e_completed_at := Some now,
          e_failure_reason := Some why, e_score := None,
          e_result_metadata := (case md of Some m \<Rightarrow> m | None \<Rightarrow> e_result_metadata y)\<rparr>"]
      by (auto simp: PFail finish_phase_def mark_failed_def i Let_def simp del: on_evals_sel split: prod.splits)
  next
    case (PSucceed score md st)
    show ?thesis
      using assms(4) rel [where f = "\<lambda>y. y\<lparr>e_status := ESucceeded, e_completed_at := Some now,
          e_score := Some score, e_result_metadata := md, e_failure_reason := None\<rparr>"] stage
      by (auto simp: PSucceed finish_phase_def mark_succeeded_def i Let_def simp del: on_evals_sel split: prod.splits option.splits)
  next
    case (PDefer st cls md)
    show ?thesis
      using assms(4) rel [where f = "\<lambda>y. y\<lparr>e_status := EQueued, e_started_at := None, e_worker_id := None,
          e_current_stage := st, e_workload_class := cls, e_result_metadata := md, e_failure_reason := None\<rparr>"]
      by (auto simp: PDefer finish_phase_def defer_escalation_def i Let_def simp del: on_evals_sel split: prod.splits)
  next
    case (PRelease why md)
    show ?thesis
      using assms(4) rel [where f = "\<lambda>y. y\<lparr>e_status := EQueued, e_started_at := None, e_worker_id := None,
          e_result_metadata := md, e_failure_reason := Some why\<rparr>"]
      by (auto simp: PRelease finish_phase_def release_for_retry_def i Let_def simp del: on_evals_sel split: prod.splits)
  qed
qed

lemma persist_runtime_evals [simp]: "evals (persist_runtime_state p n q) = evals q"
  by (simp add: persist_runtime_state_def)

lemma begin_phase_effect:
  assumes "x \<in> set (evals q)" and "owned_running i w x"
  shows "map e_id (evals (begin_phase st env subs e w q)) = map e_id (evals q) \<and>
    running_count (begin_phase st env subs e w q) = running_count q \<and>
    (\<exists>y\<in>set (evals (begin_phase st env subs e w q)). owned_running i w y)"
proof -
  have att: "map e_id (evals (snd (begin_execution_attempt j w' a q))) = map e_id (evals q) \<and>
    running_count (snd (begin_execution_attempt j w' a q)) = running_count q \<and>
    (\<exists>y\<in>set (evals (snd (begin_execution_attempt j w' a q))). owned_running i w y)" for j w' a
  proof -
    have "map e_id (evals (snd (begin_execution_attempt j w' a q))) = map e_id (evals q)"
      by (simp add: begin_execution_attempt_def map_update_where Let_def)
    moreover have "running_count (snd (begin_execution_attempt j w' a q)) = running_count q"
      by (simp add: begin_execution_attempt_def running_count_def update_where_def filter_map comp_def Let_def
          if_distrib cong: if_cong)
    moreover have "\<exists>y\<in>set (evals (snd (begin_execution_attempt j w' a q))). owned_running i w y"
      unfolding begin_execution_attempt_def on_evals_sel set_update_where
      by (intro bexI [OF _ imageI [OF assms(1)]]) (use assms(2) in \<open>simp add: Let_def owned_running_def\<close>)
    ultimately show ?thesis by blast
  qed
  show ?thesis
    using assms att unfolding begin_phase_def
    by (auto split: option.splits sum.splits)
qed

text \<open>
  A worker iteration that did work leaves nothing running behind: after \<open>process_one\<close> claimed an
  evaluation, exactly as many evaluations are running as before, so the claimed one has been
  completed, failed, deferred or released, and the write was made by its owner. This is so for
  every mode, submission and outcome of the evaluation.
\<close>

theorem process_one_releases_claim:
  assumes "ids_unique q" and "process_one st h env clock subs wk q = Some (Inr (worked, wk', q'))"
  shows "running_count q' = running_count q"
proof -
  obtain t wk1 q1 where poll: "poll_phase h wk q = Inr (t, wk1, q1)"
    using assms(2) by (auto simp: process_one_def split: sum.splits)
  then have q1: "evals q1 = evals q"
    by (auto simp: poll_phase_def Let_def split: sum.splits prod.splits)
  have cnt1: "running_count q1 = running_count q" and uniq1: "ids_unique q1"
    using q1 assms(1) by (simp_all add: running_count_def ids_unique_def)
  show ?thesis
  proof (cases "ad_allowed (tk_admission t)")
    case False
    then show ?thesis using assms(2) poll cnt1 by (simp add: process_one_def)
  next
    case allowed: True
    obtain c wk2 q2 where claim: "claim_phase st (fst clock) t wk1 q1 = (c, wk2, q2)"
      by (cases "claim_phase st (fst clock) t wk1 q1") auto
    show ?thesis
    proof (cases c)
      case None
      then have "q2 = q1" using claim by (auto simp: claim_phase_def split: prod.splits option.splits)
      then show ?thesis using assms(2) poll allowed claim None cnt1 by (simp add: process_one_def)
    next
      case (Some e)
      have cl: "claim_next (fst clock) (wk_id wk1) (evaluation_scheduling_policy st) (tk_workers t) (tk_heavy t)
          (evaluation_light_bypass_limit st) q1 = (Some e, q2)" and wk2: "wk_id wk2 = wk_id wk1"
        using claim Some by (auto simp: claim_phase_def split: prod.splits option.splits)
      note took = claim_counts [OF uniq1 cl]
      then obtain row where e: "e = claim_row (fst clock) (wk_id wk1) row" "row \<in> set (evals q1)"
          "evals q2 = update_where (\<lambda>r. e_id r = e_id row) (claim_row (fst clock) (wk_id wk1)) (evals q1)"
          "running_count q2 = running_count q1 + 1" "ids_unique q2"
        by blast
      have "e \<in> set (evals q2)" using e(1,2,3) by (auto simp: set_update_where)
      moreover have "owned_running (e_id e) (wk_id wk2) e" using e(1) wk2 by (simp add: owned_running_def)
      ultimately obtain x where x: "x \<in> set (evals (begin_phase st env subs e (wk_id wk2) q2))"
          "owned_running (e_id e) (wk_id wk2) x"
        and b: "map e_id (evals (begin_phase st env subs e (wk_id wk2) q2)) = map e_id (evals q2)"
          "running_count (begin_phase st env subs e (wk_id wk2) q2) = running_count q2"
        using begin_phase_effect [of e q2 "e_id e" "wk_id wk2"] by blast
      obtain p ok where fin: "finish_phase (snd clock) e p wk2 (begin_phase st env subs e (wk_id wk2) q2) = (ok, wk', q')"
        using assms(2) poll allowed claim Some
        by (auto simp: process_one_def split: option.splits sum.splits prod.splits)
      have "ids_unique (begin_phase st env subs e (wk_id wk2) q2)"
        using b(1) e(5) by (simp add: ids_unique_def)
      from finish_releases [OF this x fin] b(2) e(4) cnt1 show ?thesis by simp
    qed
  qed
qed

definition idle_env :: run_env where
  "idle_env = \<lparr>re_env = no_env, re_world = quiet_world, re_pgid = None, re_attempt_id = ''a'',
     re_mechanism = ''pid_tracking_only''\<rparr>"

lemma new_worker_ok: "runtime_ok (wk_runtime (new_worker st i))"
  by (simp add: new_worker_def new_runtime_ok)

lemma poll_phase_returns:
  assumes "runtime_ok (wk_runtime wk)"
  obtains t wk' q' where "poll_phase h wk q = Inr (t, wk', q')"
  using tick_Inr [of "set_interactive_p95_ms (rs_interactive_p95_ms (read_runtime_state q))
      (rs_interactive_sample_count (read_runtime_state q)) (wk_runtime wk)"] assms
  by (simp add: poll_phase_def Let_def) (metis (no_types, lifting) old.prod.case sum.case(2))

theorem process_one_releases_claim_witness:
  "\<exists>worked wk' q'. process_one default_settings idle_host idle_env (5, 6) [] (new_worker default_settings ''w'')
       blocked_queue = Some (Inr (worked, wk', q')) \<and> running_count q' = 1"
proof -
  let ?wk = "new_worker default_settings ''w''"
  obtain t wk1 q1 where p: "poll_phase idle_host ?wk blocked_queue = Inr (t, wk1, q1)"
    by (rule poll_phase_returns [OF new_worker_ok])
  have "\<exists>worked wk' q'. process_one default_settings idle_host idle_env (5, 6) [] ?wk blocked_queue
      = Some (Inr (worked, wk', q'))"
    by (auto simp: process_one_def p evaluate_claim_def split: prod.splits option.splits)
  then obtain worked wk' q' where r: "process_one default_settings idle_host idle_env (5, 6) [] ?wk blocked_queue
      = Some (Inr (worked, wk', q'))" by blast
  have "running_count blocked_queue = 1"
    by (simp add: running_count_def blocked_queue_def)
  with process_one_releases_claim [OF blocked_queue_unique r] r show ?thesis by auto
qed

section \<open>Costs across a deferral\<close>

lemma set_progressive_get:
  assumes "dict_get md ''progressive'' = Some (JObj p)"
  shows "dict_get (set_progressive md k v) ''progressive'' = Some (JObj (dict_set p k v))"
  using assms by (simp add: set_progressive_def)

lemma progressive_result_meta:
  assumes "progressive_run env mode plan u md ak start pr dl = Inr r"
  shows "\<exists>p. dict_get (pr_metadata r) ''progressive'' = Some (JObj p) \<and>
    dict_get p ''actual_cost_units'' = Some (JInt (pr_cost r)) \<and>
    dict_get p ''stages_completed'' = Some (JList (map JObj (pr_stages r)))"
proof -
  have "\<exists>f n e d t a. r = make_result mode f n e d t a"
    by (rule progressive_loop_ends [where P = "\<lambda>_ _. True", OF assms [unfolded progressive_run_def]]) blast+
  then show ?thesis by (auto simp: make_result_def meta_def)
qed

text \<open>
  C34. The accounts of an evaluation survive a deferral: when a run from the first stage is deferred and
  the evaluation is claimed again later with the metadata, stage and class the deferral stored, the
  next run starts with a HEAVY stage, and the metadata finally written lists exactly the stages of one
  pass over the plan up to the final one, with the sum of their costs.
\<close>

theorem deferral_accounts:
  assumes run1: "progressive_run env1 mode None u md ak 0 pr1 dl = Inr r1" and "\<not> pr_finished r1"
    and def: "defer_result e1 r1 = PDefer stage cls m1" and "prior_progressive (e_result_metadata e1) = None"
    and "e_result_metadata e2 = m1"
    and run2: "progressive_run env2 mode None u md ak stage pr2 dl = Inr r2" and "pr_finished r2"
    and fin: "finish_result e2 r2 = PSucceed score m2 final_stage"
  shows "cls = Heavy \<and> (\<exists>p stages. prior_progressive m2 = Some p \<and> final_stage = Some (pr_next_stage r2) \<and>
    int_or_zero p ''actual_cost_units'' = sum_list (map st_cost_units (take (nat (pr_next_stage r2)) DEFAULT_PLAN)) \<and>
    list_field p ''stages_completed'' = map JObj stages \<and>
    map (\<lambda>ev. dict_get ev ''stage'') stages
      = map (\<lambda>s. Some (JStr (st_name s))) (take (nat (pr_next_stage r2)) DEFAULT_PLAN))"
proof -
  let ?loop = "\<lambda>env pr i. progressive_loop (run_stage env u md ak) mode DEFAULT_PLAN pr dl (now_at env) i no_progress"
  have run1': "?loop env1 pr1 0 = Inr r1" using run1 by (simp add: progressive_run_def)
  obtain st where "stage_at DEFAULT_PLAN (pr_next_stage r1) = Some st" "9 \<le> st_cost_units st"
    using deferred_run [OF run1' assms(2)] by blast
  then have two: "pr_next_stage r1 = 2" "st = HEAVY"
    by (auto simp: stage_at_default split: if_splits)
  have stage: "stage = 2" and cls: "cls = Heavy"
    using def two by (auto simp: defer_result_def Let_def stage_at_default HEAVY_def)
  have run2': "?loop env2 pr2 2 = Inr r2" using run2 stage by (simp add: progressive_run_def)
  note acc1 = synthetic.run_accounts [OF run1'] and acc2 = synthetic.run_accounts [OF run2']
  obtain p1 where p1: "dict_get (pr_metadata r1) ''progressive'' = Some (JObj p1)"
    using progressive_result_meta [OF run1] by blast
  obtain p2 where p2: "dict_get (pr_metadata r2) ''progressive'' = Some (JObj p2)"
    using progressive_result_meta [OF run2] by blast
  obtain q1 where q1: "prior_progressive m1 = Some q1" "int_or_zero q1 ''actual_cost_units'' = pr_cost r1"
      "list_field q1 ''stages_completed'' = map JObj (pr_stages r1)"
    using def assms(4) p1
    by (auto simp: defer_result_def Let_def prior_progressive_def set_progressive_def int_or_zero_def list_field_def)
  have "length (pr_stages r1) = length (slice DEFAULT_PLAN 0 2)"
    using arg_cong [OF acc1(3), of length] two by simp
  then have ne: "pr_stages r1 \<noteq> []" by (auto simp: slice_def DEFAULT_PLAN_def)
  have "\<exists>q2. prior_progressive m2 = Some q2 \<and> int_or_zero q2 ''actual_cost_units'' = pr_cost r1 + pr_cost r2 \<and>
      list_field q2 ''stages_completed'' = map JObj (pr_stages r1 @ pr_stages r2)"
    using fin assms(5) q1 ne p2
    by (auto simp: finish_result_def Let_def prior_progressive_def set_progressive_def int_or_zero_def list_field_def)
  moreover have "final_stage = Some (pr_next_stage r2)"
    using fin by (auto simp: finish_result_def Let_def)
  moreover have "take (nat (pr_next_stage r2)) DEFAULT_PLAN =
      slice DEFAULT_PLAN 0 2 @ slice DEFAULT_PLAN 2 (nat (pr_next_stage r2))"
    using slice_append [of 0 2 "nat (pr_next_stage r2)" DEFAULT_PLAN] acc2(1) by (simp add: slice_def)
  ultimately show ?thesis
    using cls acc1(2,3) acc2(2,3) two by (auto intro!: exI [of _ "pr_stages r1 @ pr_stages r2"])
qed

theorem deferral_accounts_witness:
  "\<exists>r1 cls m1 r2 m2.
     progressive_run no_env ResourceAwareAdaptive None 7 [(''workload_kind'', JStr ''hard_fail'')] None 0 DEGRADED None = Inr r1 \<and>
     defer_result (example_row 1 0 Light) r1 = PDefer 2 cls m1 \<and> cls = Heavy \<and>
     progressive_run no_env ResourceAwareAdaptive None 7 [(''workload_kind'', JStr ''hard_fail'')] None 2 NORMAL None = Inr r2"
proof -
  let ?md = "[(''workload_kind'', JStr ''hard_fail'')]"
  have nf: "no_forced_failure DEFAULT_PLAN ?md"
    by (simp add: no_forced_failure_def DEFAULT_PLAN_def forced_stage_def)
  have kind: "parse_workload_kind ?md = Some HardFail" by code_simp
  from hard_run_defers [OF nf kind, of DEGRADED no_env 7 None] obtain r1 where
    r1: "progressive_run no_env ResourceAwareAdaptive None 7 ?md None 0 DEGRADED None = Inr r1" "\<not> pr_finished r1"
      "pr_next_stage r1 = 2" by auto
  obtain cls m1 where d: "defer_result (example_row 1 0 Light) r1 = PDefer 2 cls m1"
    using r1(3) by (simp add: defer_result_def Let_def)
  obtain r2 where r2: "progressive_run no_env ResourceAwareAdaptive None 7 ?md None 2 NORMAL None = Inr r2"
    by (rule run_default_returns [OF nf])
  have fin: "pr_finished r2" using deferred_run [OF r2 [unfolded progressive_run_def option.simps(4)]] by blast
  obtain sc m2 fs where f: "finish_result ((example_row 1 0 Light)\<lparr>e_result_metadata := m1\<rparr>) r2 = PSucceed sc m2 fs"
    by (simp add: finish_result_def Let_def)
  from deferral_accounts [OF r1(1,2) d _ _ r2 fin f] have "cls = Heavy"
    by (simp add: prior_progressive_def)
  with r1(1) d r2 show ?thesis by blast
qed

section \<open>The system of workers\<close>

text \<open>
  The queue, the submissions and the workers, each between two phases of its loop. A crash loses the
  phase and restarts the worker with a fresh runtime; its claim stays in the queue until it is stale.
\<close>

datatype phase = Idle | Admitted tick_result | Evaluating tick_result evaluation

record system =
  sy_queue :: equeue
  sy_subs :: "submission list"
  sy_workers :: "nat \<Rightarrow> worker \<times> phase"

inductive sys_step :: "settings \<Rightarrow> system \<Rightarrow> system \<Rightarrow> bool" for st where
  sys_poll: "sy_workers s i = (wk, Idle) \<Longrightarrow> poll_phase h wk (sy_queue s) = Inr (t, wk', q') \<Longrightarrow>
    sys_step st s (s\<lparr>sy_queue := q', sy_workers := (sy_workers s)
      (i := (wk', if ad_allowed (tk_admission t) then Admitted t else Idle))\<rparr>)"
| sys_claim: "sy_workers s i = (wk, Admitted t) \<Longrightarrow> claim_phase st now t wk (sy_queue s) = (c, wk', q') \<Longrightarrow>
    sys_step st s (s\<lparr>sy_queue := q', sy_workers := (sy_workers s)
      (i := (wk', case c of None \<Rightarrow> Idle | Some e \<Rightarrow> Evaluating t e))\<rparr>)"
| sys_begin: "sy_workers s i = (wk, Evaluating t e) \<Longrightarrow>
    sys_step st s (s\<lparr>sy_queue := begin_phase st env (sy_subs s) e (wk_id wk) (sy_queue s)\<rparr>)"
| sys_finish: "sy_workers s i = (wk, Evaluating t e) \<Longrightarrow>
    evaluate_claim st env (wk_id wk) (tk_pressure t) subs e = Some (Inr p) \<Longrightarrow>
    finish_phase now e p wk (sy_queue s) = (ok, wk', q') \<Longrightarrow>
    sys_step st s (s\<lparr>sy_queue := q', sy_workers := (sy_workers s)(i := (wk', Idle))\<rparr>)"
| sys_crash: "sys_step st s (s\<lparr>sy_workers := (sy_workers s)(i := (new_worker st w, Idle))\<rparr>)"
| sys_recover: "worker_recover st now os_of (sy_queue s) = (n, q') \<Longrightarrow> sys_step st s (s\<lparr>sy_queue := q'\<rparr>)"
| sys_submit: "create_queued now fresh (s_id sub) cls mode dl stage (sy_queue s) = Inr (e, q') \<Longrightarrow>
    sys_step st s (s\<lparr>sy_queue := q', sy_subs := sub # sy_subs s\<rparr>)"
| sys_hint: "sys_step st s (s\<lparr>sy_queue := persist_interactive_hint p95 n pw (sy_queue s)\<rparr>)"

definition sys_init :: "settings \<Rightarrow> (nat \<Rightarrow> worker_id) \<Rightarrow> system" where
  "sys_init st names = \<lparr>sy_queue = \<lparr>evals = [], sched = None\<rparr>, sy_subs = [],
     sy_workers = (\<lambda>i. (new_worker st (names i), Idle))\<rparr>"

definition phase_ok :: "settings \<Rightarrow> worker \<times> phase \<Rightarrow> bool" where
  "phase_ok st wp \<longleftrightarrow> runtime_ok (wk_runtime (fst wp)) \<and> rt_budget (wk_runtime (fst wp)) = from_settings st \<and>
     (case snd wp of
        Idle \<Rightarrow> True
      | Admitted t \<Rightarrow> tk_workers t \<le> max_evaluation_concurrency (from_settings st) \<and>
          tk_heavy t \<le> max_concurrent_heavy (from_settings st)
      | Evaluating t e \<Rightarrow> True)"

definition sys_inv :: "settings \<Rightarrow> system \<Rightarrow> bool" where
  "sys_inv st s \<longleftrightarrow> ids_unique (sy_queue s) \<and>
     int (running_count (sy_queue s)) \<le> max_evaluation_concurrency (from_settings st) \<and>
     int (running_heavy_count (sy_queue s)) \<le> max_concurrent_heavy (from_settings st) \<and>
     (\<forall>i. phase_ok st (sy_workers s i))"

definition no_more_running :: "equeue \<Rightarrow> equeue \<Rightarrow> bool" where
  "no_more_running q q' \<longleftrightarrow> (ids_unique q \<longrightarrow> ids_unique q') \<and>
     running_count q' \<le> running_count q \<and> running_heavy_count q' \<le> running_heavy_count q"

lemma inv_queue_change:
  assumes "sys_inv st s" and "no_more_running (sy_queue s) q'" and "phase_ok st wp"
  shows "sys_inv st (s\<lparr>sy_queue := q', sy_workers := (sy_workers s)(i := wp)\<rparr>)"
    and "sys_inv st (s\<lparr>sy_queue := q'\<rparr>)" and "sys_inv st (s\<lparr>sy_queue := q', sy_subs := subs\<rparr>)"
  using assms by (auto simp: sys_inv_def no_more_running_def)

lemma on_evals_no_more_running:
  assumes "\<And>r. e_workload_class (f r) = Heavy \<Longrightarrow> e_status (f r) = ERunning \<Longrightarrow> e_workload_class r = Heavy"
  shows "running_count (snd (on_evals (owned_running i w) f q)) \<le> running_count q \<and>
    running_heavy_count (snd (on_evals (owned_running i w) f q)) \<le> running_heavy_count q"
  using on_evals_counts [of "owned_running i w" f q] assms by (simp add: owned_running_def)

lemma queue_op_no_more_running:
  assumes "queue_op q q'"
  shows "no_more_running q q'"
proof -
  have "running_count q' \<le> running_count q \<and> running_heavy_count q' \<le> running_heavy_count q"
    using assms
  proof cases
    case op_create
    then show ?thesis
      by (auto simp: create_queued_def Let_def running_count_def running_heavy_count_def split: if_splits)
  next
    case (op_recover now before n os_of rs)
    have q': "evals q' = update_where (is_stale before) (\<lambda>e. recover_row now n (os_of (e_id e)) e) (evals q)"
      using op_recover by (auto simp: recover_stale_running_def Let_def)
    have "\<not> (is_stale before r \<and> e_status (recover_row now n (os_of (e_id r)) r) = ERunning)" for r
      using recover_row_sel(2) [of now n "os_of (e_id r)" r] by auto
    then show ?thesis
      unfolding running_count_def running_heavy_count_def q'
      by (intro conjI running_update_where) blast+
  next
    case op_pressure
    then show ?thesis by (simp add: persist_runtime_state_def running_count_def running_heavy_count_def)
  next
    case op_hint
    then show ?thesis by (simp add: persist_interactive_hint_def running_count_def running_heavy_count_def)
  qed (unfold guarded_defs,
        (drule arg_cong [of _ _ snd], unfold snd_conv, erule subst, rule on_evals_no_more_running,
         simp_all add: Let_def)+)
  with queue_step_evolves [OF step_op [OF assms]] show ?thesis by (simp add: no_more_running_def)
qed

lemma begin_phase_op: "begin_phase st env subs e w q = q \<or> queue_op q (begin_phase st env subs e w q)"
proof -
  have "queue_op q (snd (begin_execution_attempt i w a q))" for i a
    by (rule op_attempt [where r = "fst (begin_execution_attempt i w a q)"]) simp
  then show ?thesis by (auto simp: begin_phase_def split: option.splits sum.splits)
qed

lemma stage_update_evals:
  "running_count (q\<lparr>evals := update_where (\<lambda>y. e_id y = k) (\<lambda>y. y\<lparr>e_current_stage := n\<rparr>) (evals q)\<rparr>) = running_count q"
  "running_heavy_count (q\<lparr>evals := update_where (\<lambda>y. e_id y = k) (\<lambda>y. y\<lparr>e_current_stage := n\<rparr>) (evals q)\<rparr>)
     = running_heavy_count q"
  "ids_unique (q\<lparr>evals := update_where (\<lambda>y. e_id y = k) (\<lambda>y. y\<lparr>e_current_stage := n\<rparr>) (evals q)\<rparr>) = ids_unique q"
  by (simp_all add: running_count_def running_heavy_count_def ids_unique_def map_update_where
      update_where_def filter_map comp_def if_distrib cong: if_cong)

text \<open>Writing a result is one guarded operation, followed by the stage index of a success.\<close>

lemma finish_phase_op:
  assumes "finish_phase now e p wk q = (ok, wk', q')"
  obtains q1 where "queue_op q q1"
    and "q' = q1 \<or> (\<exists>n. q' = q1\<lparr>evals := update_where (\<lambda>y. e_id y = e_id e) (\<lambda>y. y\<lparr>e_current_stage := n\<rparr>) (evals q1)\<rparr> \<and>
           ok)"
    and "wk_runtime wk' = wk_runtime wk"
proof (cases p)
  case (PFail why md)
  then show ?thesis
    using assms by (auto simp: finish_phase_def split: prod.splits intro!: that [OF op_fail])
next
  case (PDefer stage cls md)
  then show ?thesis
    using assms by (auto simp: finish_phase_def split: prod.splits intro!: that [OF op_defer])
next
  case (PRelease why md)
  then show ?thesis
    using assms by (auto simp: finish_phase_def split: prod.splits intro!: that [OF op_release])
next
  case (PSucceed score md stage)
  obtain r q1 where m: "mark_succeeded now (e_id e) (wk_id wk) score md q = (r, q1)" by fastforce
  show ?thesis
    by (rule that [OF op_succeed [OF m]])
      (use assms m in \<open>auto simp: PSucceed finish_phase_def split: option.splits\<close>)
qed

lemma finish_no_more_running:
  assumes "finish_phase now e p wk q = (ok, wk', q')"
  shows "no_more_running q q' \<and> wk_runtime wk' = wk_runtime wk"
proof -
  obtain q1 where q1: "queue_op q q1"
      "q' = q1 \<or> (\<exists>n. q' = q1\<lparr>evals := update_where (\<lambda>y. e_id y = e_id e) (\<lambda>y. y\<lparr>e_current_stage := n\<rparr>) (evals q1)\<rparr> \<and> ok)"
      "wk_runtime wk' = wk_runtime wk"
    by (rule finish_phase_op [OF assms])
  with queue_op_no_more_running [OF q1(1)] show ?thesis
    by (auto simp: no_more_running_def stage_update_evals)
qed

lemma new_worker_phase_ok: "phase_ok st (new_worker st w, Idle)"
  by (simp add: phase_ok_def new_worker_ok) (simp add: new_worker_def new_runtime_def)

lemma budget_limits:
  "1 \<le> max_evaluation_concurrency (from_settings st) \<and> 0 \<le> max_concurrent_heavy (from_settings st)"
  by (simp add: from_settings_def Let_def)

lemma poll_phase_ok:
  assumes "phase_ok st (wk, ph)" and "poll_phase h wk q = Inr (t, wk', q')"
  shows "phase_ok st (wk', Admitted t) \<and> queue_op q q'"
proof -
  let ?rt = "set_interactive_p95_ms (rs_interactive_p95_ms (read_runtime_state q))
      (rs_interactive_sample_count (read_runtime_state q)) (wk_runtime wk)"
  obtain rt' where t: "tick (int (pl_queued (plane_snapshot q))) (int (pl_running (plane_snapshot q))) h ?rt = Inr (t, rt')"
    and wk': "wk_runtime wk' = rt'" and q': "q' = persist_runtime_state (pressure_value (tk_pressure t)) (tk_workers t) q"
    using assms(2) by (auto simp: poll_phase_def Let_def split: sum.splits prod.splits)
  have "runtime_ok ?rt" "rt_budget ?rt = from_settings st"
    using assms(1) by (auto simp: phase_ok_def set_interactive_p95_ms_def runtime_ok_def)
  with tick_limits [OF _ t] wk' show ?thesis
    by (auto simp: phase_ok_def q' intro: op_pressure)
qed

lemma claim_phase_inv:
  assumes "sys_inv st s" and "sy_workers s i = (wk, Admitted t)"
    and "claim_phase st now t wk (sy_queue s) = (c, wk', q')"
  shows "sys_inv st (s\<lparr>sy_queue := q', sy_workers := (sy_workers s)
      (i := (wk', case c of None \<Rightarrow> Idle | Some e \<Rightarrow> Evaluating t e))\<rparr>)"
proof -
  have ph: "phase_ok st (wk, Admitted t)" using assms(1,2) by (metis sys_inv_def)
  have wk': "wk_runtime wk' = wk_runtime wk"
    using assms(3) by (auto simp: claim_phase_def split: option.splits prod.splits)
  have ok: "phase_ok st (wk', case c of None \<Rightarrow> Idle | Some e \<Rightarrow> Evaluating t e)"
    using ph wk' by (auto simp: phase_ok_def split: option.splits)
  show ?thesis
  proof (cases c)
    case None
    then have "q' = sy_queue s"
      using assms(3) by (auto simp: claim_phase_def split: option.splits prod.splits)
    with assms(1) ok None show ?thesis by (simp add: sys_inv_def)
  next
    case (Some e)
    then have cl: "claim_next now (wk_id wk) (evaluation_scheduling_policy st) (tk_workers t) (tk_heavy t)
        (evaluation_light_bypass_limit st) (sy_queue s) = (Some e, q')"
      using assms(3) by (auto simp: claim_phase_def split: option.splits prod.splits)
    have uniq: "ids_unique (sy_queue s)" using assms(1) by (simp add: sys_inv_def)
    have lims: "tk_workers t \<le> max_evaluation_concurrency (from_settings st)"
      "tk_heavy t \<le> max_concurrent_heavy (from_settings st)"
      using ph by (simp_all add: phase_ok_def)
    from claim_counts [OF uniq cl] have after: "ids_unique q'" "int (running_count q') \<le> max 1 (tk_workers t)"
      "running_heavy_count q' = running_heavy_count (sy_queue s) + (if e_workload_class e = Heavy then 1 else 0)"
      "e_workload_class e = Heavy \<longrightarrow>
         int (running_heavy_count q') \<le> max 0 (min (tk_heavy t) (max 1 (tk_workers t)))"
      by blast+
    then have "int (running_count q') \<le> max_evaluation_concurrency (from_settings st)"
      using lims(1) budget_limits [of st] by linarith
    moreover have "int (running_heavy_count q') \<le> max_concurrent_heavy (from_settings st)"
      using after(3,4) lims(2) budget_limits [of st] assms(1) by (auto simp: sys_inv_def split: if_splits)
    ultimately show ?thesis using after(1) ok assms(1) by (simp add: sys_inv_def)
  qed
qed

lemma sys_step_inv:
  assumes "sys_step st s s'" and "sys_inv st s"
  shows "sys_inv st s'"
  using assms(1)
proof cases
  case (sys_poll i wk h t wk' q')
  have ph: "phase_ok st (wk, Idle)" using assms(2) sys_poll(2) by (metis sys_inv_def)
  note p = poll_phase_ok [OF ph sys_poll(3)]
  then have "phase_ok st (wk', if ad_allowed (tk_admission t) then Admitted t else Idle)"
    by (simp add: phase_ok_def)
  with p assms(2) show ?thesis
    unfolding sys_poll(1) by (intro inv_queue_change(1) queue_op_no_more_running) simp_all
next
  case (sys_claim i wk t now c wk' q')
  then show ?thesis using claim_phase_inv [OF assms(2)] by simp
next
  case (sys_begin i wk t e env)
  have "no_more_running (sy_queue s) (begin_phase st env (sy_subs s) e (wk_id wk) (sy_queue s))"
    using begin_phase_op [of st env "sy_subs s" e "wk_id wk" "sy_queue s"] queue_op_no_more_running
    by (metis no_more_running_def order_refl)
  with assms(2) show ?thesis
    unfolding sys_begin(1) by (rule inv_queue_change(2)) (rule new_worker_phase_ok [where w = "''''"])
next
  case (sys_finish i wk t e env subs p now ok wk' q')
  have ph: "phase_ok st (wk, Evaluating t e)" using assms(2) sys_finish(2) by (metis sys_inv_def)
  note f = finish_no_more_running [OF sys_finish(4)]
  then have "phase_ok st (wk', Idle)" using ph by (simp add: phase_ok_def)
  with f assms(2) show ?thesis unfolding sys_finish(1) by (intro inv_queue_change(1)) simp_all
next
  case (sys_crash i w)
  with assms(2) new_worker_phase_ok show ?thesis by (simp add: sys_inv_def)
next
  case (sys_recover now os_of n q')
  have "no_more_running (sy_queue s) q'"
    using sys_recover(2) queue_op_no_more_running [OF op_recover]
    by (auto simp: worker_recover_def no_more_running_def Let_def split: prod.splits if_splits)
  with assms(2) show ?thesis
    unfolding sys_recover(1) by (rule inv_queue_change(2)) (rule new_worker_phase_ok [where w = "''''"])
next
  case (sys_submit now fresh sub cls mode dl stage e q')
  show ?thesis
    unfolding sys_submit(1)
    by (rule inv_queue_change(3) [OF assms(2) queue_op_no_more_running [OF op_create [OF sys_submit(2)]]
          new_worker_phase_ok [where w = "''''"]])
next
  case (sys_hint p95 n pw)
  show ?thesis
    unfolding sys_hint
    by (rule inv_queue_change(2) [OF assms(2) queue_op_no_more_running [OF op_hint] new_worker_phase_ok [where w = "''''"]])
qed

text \<open>
  C2. The machine-wide budget: with any number of workers polling, claiming, evaluating, crashing and
  recovering in any interleaving, and with any submissions, latency hints and loads, the number of
  running evaluations never exceeds the configured \<open>evaluation_max_workers\<close> and the number of
  running HEAVY ones never exceeds \<open>evaluation_max_concurrent_heavy\<close>.
\<close>

theorem system_within_budget:
  assumes "(sys_step st)\<^sup>*\<^sup>* (sys_init st names) s"
  shows "int (running_count (sy_queue s)) \<le> max 1 (evaluation_max_workers st) \<and>
    int (running_heavy_count (sy_queue s)) \<le> max 0 (evaluation_max_concurrent_heavy st) \<and>
    ids_unique (sy_queue s)"
proof -
  have "sys_inv st (sys_init st names)"
    using budget_limits [of st] new_worker_phase_ok
    by (simp add: sys_inv_def sys_init_def running_count_def running_heavy_count_def ids_unique_def)
  with assms have "sys_inv st s"
    by (induction rule: rtranclp_induct) (auto intro: sys_step_inv)
  moreover have "max_evaluation_concurrency (from_settings st) = max 1 (evaluation_max_workers st)"
    "max_concurrent_heavy (from_settings st) \<le> max 0 (evaluation_max_concurrent_heavy st)"
    by (simp_all add: from_settings_def Let_def)
  ultimately show ?thesis by (auto simp: sys_inv_def)
qed

text \<open>A submission: the concrete case for the properties of the system.\<close>

definition example_submission :: submission where
  "example_submission = \<lparr>s_id = 101, s_challenge_id = 50, s_participant_id = 60, s_status = SSubmitted,
     s_metadata = [], s_artifact_key = None, s_idempotency_key = None, s_request_fingerprint = None,
     s_created_at = 0, s_updated_at = 0, s_failure_reason = None\<rparr>"

lemma submit_reachable:
  "\<exists>s. (sys_step st)\<^sup>*\<^sup>* (sys_init st names) s \<and> length (evals (sy_queue s)) = 1"
proof -
  obtain e q' where c: "create_queued 3 1 (s_id example_submission) Light ''legacy'' None 0 (sy_queue (sys_init st names)) = Inr (e, q')"
      and l: "length (evals q') = 1"
    by (auto simp: create_queued_def sys_init_def Let_def)
  from sys_submit [OF c, of st] have "(sys_step st)\<^sup>*\<^sup>* (sys_init st names)
      ((sys_init st names)\<lparr>sy_queue := q', sy_subs := example_submission # sy_subs (sys_init st names)\<rparr>)"
    by blast
  with l show ?thesis by (intro exI conjI) auto
qed

theorem system_within_budget_witness:
  "\<exists>s. (sys_step default_settings)\<^sup>*\<^sup>* (sys_init default_settings (\<lambda>i. ''w'')) s \<and>
     length (evals (sy_queue s)) = 1 \<and> int (running_count (sy_queue s)) \<le> 1"
proof -
  obtain s where s: "(sys_step default_settings)\<^sup>*\<^sup>* (sys_init default_settings (\<lambda>i. ''w'')) s"
      "length (evals (sy_queue s)) = 1"
    using submit_reachable by blast
  have "evaluation_max_workers default_settings = 1" by (simp add: default_settings_def)
  with system_within_budget [OF s(1)] s show ?thesis by auto
qed

section \<open>Results are final\<close>

lemma finish_evolves:
  assumes "ids_unique q" and "finish_phase now e p wk q = (ok, wk', q')"
  shows "eval_jobs.evolves (evals q) (evals q')"
proof (cases "\<exists>score md n. p = PSucceed score md (Some n) \<and> ok")
  case False
  then have "queue_step q q'"
    using assms(2)
    by (cases p) (auto simp: finish_phase_def split: prod.splits option.splits
        intro: step_op op_fail op_succeed op_defer op_release)
  with queue_step_evolves assms(1) show ?thesis by blast
next
  case True
  then obtain score md n where p: "p = PSucceed score md (Some n)" by blast
  let ?f = "\<lambda>x. x\<lparr>e_status := ESucceeded, e_completed_at := Some now, e_score := Some score,
           e_result_metadata := md, e_failure_reason := None\<rparr>"
  obtain r where r: "fst (on_evals (owned_running (e_id e) (wk_id wk)) ?f q) = Some r"
    and q': "evals q' = update_where (\<lambda>x. e_id x = e_id e) (\<lambda>x. x\<lparr>e_current_stage := n\<rparr>)
        (update_where (owned_running (e_id e) (wk_id wk)) ?f (evals q))"
    using assms(2) True
    by (auto simp: p finish_phase_def mark_succeeded_def simp del: on_evals_sel split: prod.splits option.splits)
      (metis on_evals_sel(2) snd_conv)
  from r obtain x where x: "x \<in> set (evals q)" "owned_running (e_id e) (wk_id wk) x"
    by (auto elim!: update_returning_Some)
  have same: "y = x" if "y \<in> set (evals q)" "e_id y = e_id e" for y
    using that x assms(1) unfolding ids_unique_def owned_running_def by (auto intro: distinct_key_eq)
  have "eval_jobs.row_evolves y
      (let z = (if owned_running (e_id e) (wk_id wk) y then ?f y else y)
       in if e_id z = e_id e then z\<lparr>e_current_stage := n\<rparr> else z)" if "y \<in> set (evals q)" for y
    using x(2) same [OF that]
    by (auto simp: eval_jobs.row_evolves_def evaluation_step_iff owned_running_def Let_def)
  from eval_jobs.evolves_map [OF this] show ?thesis
    by (simp add: q' update_where_def comp_def Let_def)
qed

lemma sys_step_evolves:
  assumes "sys_step st s s'" and "ids_unique (sy_queue s)"
  shows "eval_jobs.evolves (evals (sy_queue s)) (evals (sy_queue s')) \<and> ids_unique (sy_queue s')"
proof -
  have op: "eval_jobs.evolves (evals (sy_queue s)) (evals q') \<and> ids_unique q'" if "queue_op (sy_queue s) q'" for q'
    using queue_step_evolves [OF step_op [OF that] assms(2)] .
  from assms(1) show ?thesis
  proof cases
    case (sys_poll i wk h t wk' q')
    have "queue_op (sy_queue s) q'"
      using sys_poll(3) by (auto simp: poll_phase_def Let_def split: sum.splits prod.splits intro: op_pressure)
    with op sys_poll(1) show ?thesis by simp
  next
    case (sys_claim i wk t now c wk' q')
    have "q' = sy_queue s \<or> queue_step (sy_queue s) q'"
      using sys_claim(3) by (auto simp: claim_phase_def split: option.splits prod.splits intro: step_claim)
    with queue_step_evolves [OF _ assms(2)] sys_claim(1) assms(2) show ?thesis by auto
  next
    case (sys_begin i wk t e env)
    with op begin_phase_op [of st env "sy_subs s" e "wk_id wk" "sy_queue s"] assms(2) show ?thesis by auto
  next
    case (sys_finish i wk t e env subs p now ok wk' q')
    with finish_evolves [OF assms(2) sys_finish(4)] finish_no_more_running [OF sys_finish(4)] assms(2)
    show ?thesis by (simp add: no_more_running_def)
  next
    case sys_crash
    with assms(2) show ?thesis by simp
  next
    case (sys_recover now os_of n q')
    have "q' = sy_queue s \<or> queue_op (sy_queue s) q'"
      using sys_recover(2) by (auto simp: worker_recover_def Let_def split: prod.splits if_splits intro: op_recover)
    with op sys_recover(1) assms(2) show ?thesis by auto
  next
    case (sys_submit now fresh sub cls mode dl stage e q')
    with op [OF op_create [OF sys_submit(2)]] show ?thesis by simp
  next
    case (sys_hint p95 n pw)
    with op [OF op_hint] show ?thesis by simp
  qed
qed

text \<open>
  C1. One result per evaluation: in any interleaving of any number of workers, crashes and recoveries,
  no evaluation is lost, its status follows the transition table, and once it has succeeded or failed
  its row (score, metadata, reason) is never written again, in particular not by a worker that was
  declared stale and comes back.
\<close>

theorem system_results_final:
  assumes "(sys_step st)\<^sup>*\<^sup>* s s'" and "ids_unique (sy_queue s)" and "e \<in> set (evals (sy_queue s))"
  shows "\<exists>e'\<in>set (evals (sy_queue s')). e_id e' = e_id e \<and>
    evaluation_table.step\<^sup>*\<^sup>* (e_status e) (e_status e') \<and> (e_status e \<in> {ESucceeded, EFailed} \<longrightarrow> e' = e)"
proof -
  have "eval_jobs.evolves\<^sup>*\<^sup>* (evals (sy_queue s)) (evals (sy_queue s')) \<and> ids_unique (sy_queue s')"
    using assms(1,2)
  proof (induction rule: rtranclp_induct)
    case base
    then show ?case by simp
  next
    case (step m s')
    with sys_step_evolves [OF step.hyps(2)] show ?case by (meson rtranclp.rtrancl_into_rtrancl)
  qed
  then obtain e' where "e' \<in> set (evals (sy_queue s'))" "e_id e' = e_id e"
      "evaluation_table.step\<^sup>*\<^sup>* (e_status e) (e_status e')"
      "e_status e = ESucceeded \<or> e_status e = EFailed \<longrightarrow> e' = e"
    using eval_jobs.history_row [OF _ assms(3)] by blast
  then show ?thesis by auto
qed

theorem system_results_final_witness:
  "\<exists>s'. (sys_step default_settings)\<^sup>*\<^sup>*
       ((sys_init default_settings (\<lambda>i. ''w''))\<lparr>sy_queue :=
          \<lparr>evals = [(example_row 1 0 Light)\<lparr>e_status := EFailed\<rparr>], sched = None\<rparr>\<rparr>) s' \<and>
     (example_row 1 0 Light)\<lparr>e_status := EFailed\<rparr> \<in> set (evals (sy_queue s'))"
proof -
  let ?e = "(example_row 1 0 Light)\<lparr>e_status := EFailed\<rparr>"
  let ?s = "(sys_init default_settings (\<lambda>i. ''w''))\<lparr>sy_queue := \<lparr>evals = [?e], sched = None\<rparr>\<rparr>"
  obtain n q' where "worker_recover default_settings 9 (\<lambda>i. one_process) (sy_queue ?s) = (n, q')" by fastforce
  from sys_recover [OF this] have steps: "(sys_step default_settings)\<^sup>*\<^sup>* ?s (?s\<lparr>sy_queue := q'\<rparr>)" by blast
  have "\<exists>e'\<in>set (evals (sy_queue (?s\<lparr>sy_queue := q'\<rparr>))). e' = ?e"
    using system_results_final [OF steps, of ?e] by (auto simp: ids_unique_def)
  with steps show ?thesis by blast
qed

end
