(* ===== verification/Eval_Constraints.thy ===== *)
theory Eval_Constraints
  imports Eval_Worker Platform_Tables
begin

text \<open>
  The \<open>CHECK\<close> and foreign-key constraints of \<open>persistence/models.py\<close> on the evaluations and on the scheduler row.
  The queue model has no checks of its own; here every operation of the services and of the workers is
  shown to keep them, so the database never refuses one of their writes.
\<close>

section \<open>The constraints\<close>

text \<open>Status and workload class are enumerations of the model.\<close>

definition evaluation_check :: "evaluation \<Rightarrow> bool" where
  "evaluation_check e \<longleftrightarrow> 0 \<le> e_attempt_count e \<and>
     (case e_score e of None \<Rightarrow> True | Some n \<Rightarrow> 0 \<le> n \<and> n \<le> 100) \<and>
     0 \<le> e_current_stage e \<and> e_mode e \<in> set EVALUATION_MODES"

definition scheduler_check :: "uuid set \<Rightarrow> scheduler \<Rightarrow> bool" where
  "scheduler_check ids s \<longleftrightarrow> 0 \<le> light_bypass_count s \<and>
     (case blocked_heavy_id s of None \<Rightarrow> True | Some i \<Rightarrow> i \<in> ids)"

definition queue_check :: "equeue \<Rightarrow> bool" where
  "queue_check q \<longleftrightarrow> (\<forall>e\<in>set (evals q). evaluation_check e) \<and>
     (case sched q of None \<Rightarrow> True | Some s \<Rightarrow> scheduler_check (e_id ` set (evals q)) s)"

section \<open>Operations of the queue\<close>

lemma check_initial [simp]: "scheduler_check ids initial_scheduler"
  by (simp add: scheduler_check_def initial_scheduler_def)

lemma check_ensure: "queue_check q \<Longrightarrow> scheduler_check (e_id ` set (evals q)) (ensure_scheduler initial_scheduler q)"
  by (simp add: ensure_scheduler_def queue_check_def split: option.splits)

lemma check_unblock [simp]: "scheduler_check ids (unblock s)"
  by (simp add: scheduler_check_def unblock_def)

lemma check_sched:
  "queue_check q \<Longrightarrow> scheduler_check (e_id ` set (evals q)) s \<Longrightarrow> queue_check (q\<lparr>sched := Some s\<rparr>)"
  by (simp add: queue_check_def)

lemma update_ids:
  assumes "\<And>e. e_id (f e) = e_id e"
  shows "e_id ` set (update_where p f rows) = e_id ` set rows"
proof -
  have "map e_id (update_where p f rows) = map e_id rows" using assms by (rule map_update_where)
  then show ?thesis by (metis image_set)
qed

lemma check_evals:
  assumes "queue_check q" and "\<And>e. e_id (f e) = e_id e" and "\<And>e. evaluation_check e \<Longrightarrow> evaluation_check (f e)"
  shows "queue_check (q\<lparr>evals := update_where p f (evals q)\<rparr>)"
proof -
  have ids: "e_id ` set (evals (q\<lparr>evals := update_where p f (evals q)\<rparr>)) = e_id ` set (evals q)"
    using update_ids [of f p "evals q"] assms(2) by simp
  have "\<forall>e\<in>set (update_where p f (evals q)). evaluation_check e"
    using assms(1,3) by (auto simp: queue_check_def set_update_where)
  then show ?thesis using assms(1) unfolding queue_check_def ids by simp
qed

lemma on_evals_queue: "snd (on_evals p f q) = q\<lparr>evals := update_where p f (evals q)\<rparr>"
  by (simp add: on_evals_def split_def update_returning_rows)

lemma check_guarded:
  "queue_check q \<Longrightarrow> 0 \<le> stage \<Longrightarrow> queue_check (snd (defer_escalation i w stage cls md q))"
  "queue_check q \<Longrightarrow> queue_check (snd (release_for_retry i w md why q))"
  "queue_check q \<Longrightarrow> 0 \<le> score \<Longrightarrow> score \<le> 100 \<Longrightarrow> queue_check (snd (mark_succeeded now i w score md q))"
  "queue_check q \<Longrightarrow> queue_check (snd (mark_failed now i w why md' q))"
  "queue_check q \<Longrightarrow> queue_check (snd (begin_execution_attempt i w attempt q))"
  unfolding guarded_defs on_evals_queue by (rule check_evals, assumption, simp add: Let_def, simp add: evaluation_check_def Let_def)+

lemma check_recover: "queue_check q \<Longrightarrow> queue_check (snd (recover_stale_running now before n os_of q))"
proof -
  have "evaluation_check (recover_row now n s e)" if "evaluation_check e" for s e
    using that by (auto simp: recover_row_def release_stale_def evaluation_check_def Let_def split: option.splits)
  note row = this
  show "queue_check q \<Longrightarrow> queue_check (snd (recover_stale_running now before n os_of q))"
    unfolding recover_stale_running_def Let_def snd_conv by (rule check_evals) (simp_all add: row)
qed

lemma check_take:
  assumes "queue_check q" and "scheduler_check (e_id ` set (evals q)) s"
  shows "queue_check (snd (take_row now w row s q))"
proof -
  have "queue_check (q\<lparr>evals := update_where (\<lambda>e. e_id e = e_id row) (claim_row now w) (evals q)\<rparr>)"
    using assms(1) by (rule check_evals) (simp_all add: evaluation_check_def claim_row_def)
  then show ?thesis
    using assms(2) update_ids [of "claim_row now w" "\<lambda>e. e_id e = e_id row" "evals q"]
    by (simp add: take_row_def queue_check_def claim_row_def)
qed

lemma check_branch: "(b \<Longrightarrow> queue_check (snd x)) \<Longrightarrow> (\<not> b \<Longrightarrow> queue_check (snd y)) \<Longrightarrow> queue_check (snd (if b then x else y))"
  by simp

lemma check_list:
  "queue_check (snd x) \<Longrightarrow> (\<And>e es. queue_check (snd (f e es))) \<Longrightarrow> queue_check (snd (case xs of [] \<Rightarrow> x | e # es \<Rightarrow> f e es))"
  by (cases xs) simp_all

lemma check_claim:
  assumes "queue_check q"
  shows "queue_check (snd (claim_next now w pol mw hl bl q))"
proof -
  let ?ids = "e_id ` set (evals q)" and ?st = "ensure_scheduler initial_scheduler q"
  let ?q = "q\<lparr>sched := Some ?st\<rparr>"
  note st = check_ensure [OF assms]
  have q: "queue_check ?q" using check_sched [OF assms st] .
  have sched: "queue_check (?q\<lparr>sched := Some s\<rparr>)" if "scheduler_check ?ids s" for s
    using check_sched [OF assms that] by simp
  have take: "queue_check (snd (take_row now w row s ?q))" if "scheduler_check ?ids s" for row s
    using check_take [OF q, of s] that by simp
  show ?thesis
  proof (cases "queued_fifo q")
    case Nil
    then have "snd (claim_next now w pol mw hl bl q) \<in> {?q, ?q\<lparr>sched := Some (unblock ?st)\<rparr>}"
      by (simp add: claim_next_def Let_def queued_fifo_def del: max.bounded_iff)
    then show ?thesis using q sched [of "unblock ?st"] by auto
  next
    case (Cons oldest behind)
    define bst where "bst = (if blocked_heavy_id ?st \<noteq> Some (e_id oldest)
      then ?st\<lparr>blocked_heavy_id := Some (e_id oldest), light_bypass_count := 0\<rparr> else ?st)"
    have "oldest \<in> set (queued_fifo q)" using Cons by simp
    then have "e_id oldest \<in> ?ids" by simp
    then have b: "scheduler_check ?ids bst" "scheduler_check ?ids (bst\<lparr>light_bypass_count := light_bypass_count bst + 1\<rparr>)"
      using st by (auto simp: bst_def scheduler_check_def)
    have fifo: "queued_fifo ?q = oldest # behind" using Cons by (simp add: queued_fifo_def)
    note leaves = q sched [OF b(1), unfolded bst_def] take [OF b(2), unfolded bst_def] take [OF check_unblock]
    show ?thesis
      unfolding claim_next_def Let_def fifo list.case
      by (intro check_branch check_list; (simp only: snd_conv)?; (rule leaves))
  qed
qed

section \<open>Results of the worker\<close>

text \<open>What the worker writes has a score and a stage within the constraints.\<close>

fun pending_check :: "pending \<Rightarrow> bool" where
  "pending_check (PSucceed score md stage) = (0 \<le> score \<and> score \<le> 100 \<and> (case stage of None \<Rightarrow> True | Some n \<Rightarrow> 0 \<le> n))"
| "pending_check (PDefer stage cls md) = (0 \<le> stage)"
| "pending_check _ = True"

lemma evaluate_submission_score:
  "evaluate_submission env u md ak (Some (IsClass c)) = Inr r \<Longrightarrow> 0 \<le> eo_score r \<and> eo_score r \<le> 100"
  by (auto simp: evaluate_submission_def Let_def mod_101_le split: if_splits)

lemma legacy_check: "run_legacy env e s = Inr p \<Longrightarrow> pending_check p"
  by (auto simp: run_legacy_def split: sum.splits exn.splits dest!: evaluate_submission_score)

lemma synthetic_score:
  assumes "run_synthetic_execution w pgid fresh mech lm eid sid md cls n m wid = Some (Inr r)"
  shows "xr_score r \<in> {None, Some 100}"
proof -
  obtain e workload where "executor_run lm w workload = Some e" "xr_score r = fst (snd (snd (disposition (outcome_from_result e) n m)))"
    using assms by (auto simp: run_synthetic_execution_def Let_def split: sum.splits option.splits prod.splits)
  then show ?thesis by (simp add: disposition_score)
qed

lemma synthetic_check:
  assumes "run_synthetic st env w e s = Some (Inr p)"
  shows "pending_check p"
proof (cases "run_synthetic_execution (re_world env) (re_pgid env) (re_attempt_id env) (re_mechanism env)
    (worker_limits st) (e_id e) (s_id s) (s_metadata s) (workload_class_value (e_workload_class e))
    (e_attempt_count e) (evaluation_max_attempts st) w")
  case None
  then show ?thesis using assms by (simp add: run_synthetic_def)
next
  case (Some y)
  show ?thesis
  proof (cases y)
    case (Inl x)
    then show ?thesis using assms Some by (cases x) (auto simp: run_synthetic_def)
  next
    case (Inr r)
    then show ?thesis
      using assms Some synthetic_score [OF Some [unfolded Inr]]
      by (cases "xr_terminal r") (auto simp: run_synthetic_def)
  qed
qed

lemma progressive_check:
  assumes "run_progressive env mode pressure e s = Inr p"
  shows "pending_check p"
proof (cases "progressive_run (re_env env) mode None (s_id s) (s_metadata s) (s_artifact_key s)
    (e_current_stage e) pressure (e_deadline_at e)")
  case (Inl x)
  then show ?thesis using assms by (auto simp: run_progressive_def split: exn.splits)
next
  case (Inr r)
  note acc = synthetic.run_accounts(1,4) [OF Inr [unfolded progressive_run_def]]
  have "0 \<le> pr_next_stage r" "\<exists>n. pr_score r = Some n \<and> 0 \<le> n \<and> n \<le> 100" using acc by auto
  then have "pending_check (defer_result e r)" "pending_check (finish_result e r)"
    by (auto simp: defer_result_def finish_result_def Let_def)
  then show ?thesis using assms Inr by (auto simp: run_progressive_def split: if_splits)
qed

lemma claim_check: "evaluate_claim st env w pressure subs e = Some (Inr p) \<Longrightarrow> pending_check p"
  by (auto simp: evaluate_claim_def split: option.splits evaluation_mode.splits
      dest: legacy_check synthetic_check progressive_check)

lemma check_finish:
  assumes "queue_check q" and "pending_check p"
  shows "queue_check (snd (snd (finish_phase now e p wk q)))"
proof (cases p)
  case (PFail why md)
  then show ?thesis using check_guarded(4) [OF assms(1)] by (simp add: finish_phase_def split_def Let_def)
next
  case (PSucceed score md stage)
  have m: "queue_check (snd (mark_succeeded now (e_id e) (wk_id wk) score md q))"
    using assms PSucceed by (intro check_guarded(3)) simp_all
  have s: "queue_check (q'\<lparr>evals := update_where P (\<lambda>x. x\<lparr>e_current_stage := n\<rparr>) (evals q')\<rparr>)"
    if "queue_check q'" "0 \<le> n" for q' P n
    using that(1) by (rule check_evals) (use that(2) in \<open>simp_all add: evaluation_check_def\<close>)
  show ?thesis
    using m s assms(2) PSucceed by (auto simp: finish_phase_def split: prod.split option.split)
next
  case (PDefer stage cls md)
  then show ?thesis using check_guarded(1) [OF assms(1)] assms(2) by (simp add: finish_phase_def split_def Let_def)
next
  case (PRelease why md)
  then show ?thesis using check_guarded(2) [OF assms(1)] by (simp add: finish_phase_def split_def Let_def)
qed

section \<open>The system\<close>

text \<open>A step whose new row, if it is a submit, satisfies the checks.\<close>

definition checked_step :: "settings \<Rightarrow> system \<Rightarrow> system \<Rightarrow> bool" where
  "checked_step st s s' \<longleftrightarrow> sys_step st s s' \<and>
     (\<forall>e\<in>set (evals (sy_queue s')). e_id e \<notin> e_id ` set (evals (sy_queue s)) \<longrightarrow> evaluation_check e)"

lemma check_persist:
  assumes "queue_check q"
  shows "queue_check (persist_runtime_state pr n q)" and "queue_check (persist_interactive_hint p95 k pw q)"
  using assms by (auto simp: queue_check_def persist_runtime_state_def persist_interactive_hint_def ensure_scheduler_def
      scheduler_check_def initial_scheduler_def split: option.splits)

lemma check_created:
  assumes "queue_check q" and "create_queued now fresh sid cls mode dl stage q = Inr (e, q')" and "evaluation_check e"
  shows "queue_check q'"
proof -
  have q': "q' = q\<lparr>evals := evals q @ [e]\<rparr>"
    using assms(2) by (auto simp: create_queued_def Let_def split: if_splits)
  have "scheduler_check ids s \<Longrightarrow> scheduler_check (insert i ids) s" for ids s i
    by (auto simp: scheduler_check_def split: option.splits)
  then show ?thesis using assms(1,3) unfolding q' by (auto simp: queue_check_def split: option.splits)
qed

lemma check_step:
  assumes "checked_step st s s'" and "queue_check (sy_queue s)"
  shows "queue_check (sy_queue s')"
proof -
  have "sys_step st s s'" using assms(1) by (simp add: checked_step_def)
  then show ?thesis
  proof cases
    case (sys_poll i wk h t wk' q')
    then show ?thesis using check_persist(1) [OF assms(2)]
      by (auto simp: poll_phase_def Let_def split: sum.splits prod.splits)
  next
    case (sys_claim i wk t now c wk' q')
    have "q' \<in> {sy_queue s, snd (claim_next now (wk_id wk) (evaluation_scheduling_policy st) (tk_workers t) (tk_heavy t)
        (evaluation_light_bypass_limit st) (sy_queue s))}"
      using sys_claim(3) by (auto simp: claim_phase_def split: prod.splits option.splits)
    then show ?thesis using sys_claim(1) assms(2) check_claim by auto
  next
    case (sys_begin i wk t e env)
    then show ?thesis using assms(2) check_guarded(5) [OF assms(2)]
      by (auto simp: begin_phase_def split: option.splits sum.splits)
  next
    case (sys_finish i wk t e env subs p now ok wk' q')
    then show ?thesis using check_finish [OF assms(2) claim_check [OF sys_finish(3)], of now e wk] by simp
  next
    case (sys_recover now os_of n q')
    then show ?thesis using assms(2) check_recover [OF assms(2)]
      by (auto simp: worker_recover_def split: prod.splits if_splits) (metis snd_conv)
  next
    case (sys_submit now fresh sub cls mode dl stage e q')
    have "e_id e = fresh" "e \<in> set (evals q')" "fresh \<notin> e_id ` set (evals (sy_queue s))"
      using sys_submit(2) by (auto simp: create_queued_def Let_def split: if_splits)
    then have "evaluation_check e" using assms(1) sys_submit(1) by (auto simp: checked_step_def)
    then show ?thesis using check_created [OF assms(2) sys_submit(2)] sys_submit(1) by simp
  qed (use assms(2) check_persist(2) in simp_all)
qed

lemma submitted_check:
  assumes "queue_check (ap_queue a)" and "evaluation_progressive_mode st \<in> set EVALUATION_MODES"
    and "submit_submission env st fault now u actor i a = (r, a')"
  shows "queue_check (ap_queue a')"
proof -
  have mode: "mode_for st md \<in> set EVALUATION_MODES" for md
    using assms(2) by (auto simp: mode_for_def split: option.split json.split)
  have row: "evaluation_check e" if "create_queued now u sid cls (mode_for st md) dl 0 q = Inr (e, q')" for sid cls md dl q e q'
    using that mode by (auto simp: create_queued_def evaluation_check_def Let_def split: if_splits)
  have new: "queue_check q'" if "create_queued now u sid cls (mode_for st md) dl 0 (ap_queue a) = Inr (e, q')" for sid cls md dl e q'
    using check_created [OF assms(1) that row [OF that]] .
  show ?thesis using assms(1,3)
    by (auto simp: submit_submission_def commit_or_keep_def try_in_def Let_def
        split: sum.splits option.splits prod.splits if_splits dest: new)
qed



end
