(* ===== verification/Row_Mapping.thy ===== *)
theory Row_Mapping
  imports Api Eval_Constraints
begin

text \<open>
  The rows of \<^verbatim>\<open>persistence/models.py\<close> with their text columns, their \<open>CHECK\<close>s on those columns, and
  \<^verbatim>\<open>persistence/mapping.py\<close>, which reads them into the domain objects. The other theories keep tables of
  domain objects. Here the mapping is shown to be a bijection between the rows the database accepts and the
  objects, so that a statement with a condition on texts does to the rows what the operations of the
  model do to the objects.
\<close>

section \<open>Enumerations as texts\<close>

text \<open>
  Calling a \<open>StrEnum\<close> on a text looks the text up among the values of its members and raises
  \<open>ValueError\<close> when there is none.
\<close>

fun enum_of :: "string \<Rightarrow> ('s \<Rightarrow> string) \<Rightarrow> 's list \<Rightarrow> string \<Rightarrow> exn + 's" where
  "enum_of name val [] t = Inl (ValueError ([CHR 0x27] @ t @ [CHR 0x27] @ '' is not a valid '' @ name))"
| "enum_of name val (s # ss) t = (if val s = t then Inr s else enum_of name val ss t)"

definition user_role_of :: "string \<Rightarrow> exn + user_role" where
  "user_role_of = enum_of ''UserRole'' user_role_value [ORGANIZER, PARTICIPANT]"

definition hackathon_status_of :: "string \<Rightarrow> exn + hackathon_status" where
  "hackathon_status_of = enum_of ''HackathonStatus'' hackathon_status_value [HDraft, HPublished, HClosed]"

definition challenge_status_of :: "string \<Rightarrow> exn + challenge_status" where
  "challenge_status_of = enum_of ''ChallengeStatus'' challenge_status_value [CDraft, CPublished, CClosed]"

definition submission_status_of :: "string \<Rightarrow> exn + submission_status" where
  "submission_status_of = enum_of ''SubmissionStatus'' submission_status_value [SCreated, SSubmitted, SCancelled, SFailed]"

definition evaluation_status_of :: "string \<Rightarrow> exn + evaluation_status" where
  "evaluation_status_of = enum_of ''EvaluationStatus'' evaluation_status_value [EQueued, ERunning, ESucceeded, EFailed]"

definition ingestion_status_of :: "string \<Rightarrow> exn + ingestion_status" where
  "ingestion_status_of = enum_of ''IngestionStatus'' ingestion_status_value [IQueued, IRunning, ISucceeded, IFailed]"

definition workload_class_from :: "string \<Rightarrow> exn + workload_class" where
  "workload_class_from = enum_of ''WorkloadClass'' workload_class_value [Light, Medium, Heavy]"

text \<open>The contract of an enumeration kept as text: each member is read back, and nothing else is read.\<close>

locale text_enum =
  fixes val :: "'s \<Rightarrow> string"
    and of_text :: "string \<Rightarrow> exn + 's"
  assumes read_val [simp]: "of_text (val s) = Inr s"
    and read_only_val: "of_text t = Inr s \<Longrightarrow> t = val s"
begin

lemma val_inj [simp]: "val s = val s' \<longleftrightarrow> s = s'"
  using read_val by (metis Inr_inject)

lemma read_iff: "of_text t = Inr s \<longleftrightarrow> t = val s"
  using read_only_val read_val by blast

end

lemma enum_of_read: "s \<in> set ss \<Longrightarrow> inj_on val (set ss) \<Longrightarrow> enum_of name val ss (val s) = Inr s"
  by (induction ss) (auto simp: inj_on_def)

lemma enum_of_only: "enum_of name val ss t = Inr s \<Longrightarrow> t = val s"
  by (induction ss) (auto split: if_splits)

lemma text_enumI:
  assumes "\<And>s. s \<in> set ss" and "inj val"
  shows "text_enum val (enum_of name val ss)"
proof
  show "enum_of name val ss (val s) = Inr s" for s
    using assms(1) by (rule enum_of_read) (use assms(2) in \<open>simp add: inj_on_def inj_def\<close>)
qed (rule enum_of_only)

interpretation user_role: text_enum user_role_value user_role_of
  unfolding user_role_of_def by (rule text_enumI) (auto simp: inj_def elim!: user_role_value.elims intro: user_role.exhaust)

interpretation hackathon_text: text_enum hackathon_status_value hackathon_status_of
  unfolding hackathon_status_of_def
  by (rule text_enumI) (auto simp: inj_def elim!: hackathon_status_value.elims intro: hackathon_status.exhaust)

interpretation challenge_text: text_enum challenge_status_value challenge_status_of
  unfolding challenge_status_of_def
  by (rule text_enumI) (auto simp: inj_def elim!: challenge_status_value.elims intro: challenge_status.exhaust)

interpretation submission_text: text_enum submission_status_value submission_status_of
  unfolding submission_status_of_def
  by (rule text_enumI) (auto simp: inj_def elim!: submission_status_value.elims intro: submission_status.exhaust)

interpretation evaluation_text: text_enum evaluation_status_value evaluation_status_of
  unfolding evaluation_status_of_def
  by (rule text_enumI) (auto simp: inj_def elim!: evaluation_status_value.elims intro: evaluation_status.exhaust)

interpretation ingestion_text: text_enum ingestion_status_value ingestion_status_of
  unfolding ingestion_status_of_def
  by (rule text_enumI) (auto simp: inj_def elim!: ingestion_status_value.elims intro: ingestion_status.exhaust)

interpretation workload_text: text_enum workload_class_value workload_class_from
  unfolding workload_class_from_def
  by (rule text_enumI) (auto simp: inj_def elim!: workload_class_value.elims intro: workload_class.exhaust)

section \<open>Rows and their checks\<close>

record UserRow =
  ru_id :: uuid
  ru_display_name :: string
  ru_role :: string
  ru_created_at :: datetime

record HackathonRow =
  rh_id :: uuid
  rh_title :: string
  rh_description :: string
  rh_status :: string
  rh_organizer_id :: uuid
  rh_created_at :: datetime
  rh_updated_at :: datetime

record ChallengeSpecificationRow =
  rsp_body :: string
  rsp_created_at :: datetime
  rsp_updated_at :: datetime

record EvaluationCriterionRow =
  rcr_id :: uuid
  rcr_name :: string
  rcr_description :: string
  rcr_weight :: int

text \<open>A challenge with the specification and the criteria that \<open>selectinload\<close> attaches to it.\<close>

record ChallengeRow =
  rl_id :: uuid
  rl_hackathon_id :: uuid
  rl_title :: string
  rl_description :: string
  rl_constraints :: string
  rl_status :: string
  rl_created_at :: datetime
  rl_updated_at :: datetime
  rl_specification :: "ChallengeSpecificationRow option"
  rl_evaluation_criteria :: "EvaluationCriterionRow list"

record SubmissionRow =
  rs_id :: uuid
  rs_challenge_id :: uuid
  rs_participant_id :: uuid
  rs_status :: string
  rs_metadata_json :: dict
  rs_artifact_key :: "string option"
  rs_idempotency_key :: "string option"
  rs_request_fingerprint :: "string option"
  rs_failure_reason :: "string option"
  rs_created_at :: datetime
  rs_updated_at :: datetime

record EvaluationRow =
  rv_id :: uuid
  rv_submission_id :: uuid
  rv_status :: string
  rv_workload_class :: string
  rv_current_stage :: int
  rv_evaluation_mode :: string
  rv_deadline_at :: "datetime option"
  rv_created_at :: datetime
  rv_started_at :: "datetime option"
  rv_completed_at :: "datetime option"
  rv_attempt_count :: int
  rv_failure_reason :: "string option"
  rv_score :: "int option"
  rv_result_metadata :: dict
  rv_worker_id :: "string option"

record IngestionJobRow =
  rj_id :: uuid
  rj_submission_id :: uuid
  rj_artifact_key :: string
  rj_status :: string
  rj_attempt_count :: int
  rj_worker_id :: "string option"
  rj_available_at :: datetime
  rj_started_at :: "datetime option"
  rj_completed_at :: "datetime option"
  rj_error_code :: "string option"
  rj_error_message :: "string option"
  rj_result_key :: "string option"
  rj_created_at :: datetime
  rj_updated_at :: datetime

definition user_check :: "UserRow \<Rightarrow> bool" where
  "user_check r \<longleftrightarrow> ru_role r \<in> set [''organizer'', ''participant'']"

definition hackathon_check :: "HackathonRow \<Rightarrow> bool" where
  "hackathon_check r \<longleftrightarrow> rh_status r \<in> set [''draft'', ''published'', ''closed'']"

definition challenge_check :: "ChallengeRow \<Rightarrow> bool" where
  "challenge_check r \<longleftrightarrow> rl_status r \<in> set [''draft'', ''published'', ''closed''] \<and>
     (\<forall>c\<in>set (rl_evaluation_criteria r). 1 \<le> rcr_weight c)"

definition submission_check :: "SubmissionRow \<Rightarrow> bool" where
  "submission_check r \<longleftrightarrow> rs_status r \<in> set [''created'', ''submitted'', ''cancelled'', ''failed''] \<and>
     (rs_idempotency_key r = None \<and> rs_request_fingerprint r = None \<or>
      rs_idempotency_key r \<noteq> None \<and> rs_request_fingerprint r \<noteq> None)"

definition evaluation_row_check :: "EvaluationRow \<Rightarrow> bool" where
  "evaluation_row_check r \<longleftrightarrow> rv_status r \<in> set [''queued'', ''running'', ''succeeded'', ''failed''] \<and>
     0 \<le> rv_attempt_count r \<and> (case rv_score r of None \<Rightarrow> True | Some n \<Rightarrow> 0 \<le> n \<and> n \<le> 100) \<and>
     rv_workload_class r \<in> set [''light'', ''medium'', ''heavy''] \<and> 0 \<le> rv_current_stage r \<and>
     rv_evaluation_mode r \<in> set [''legacy'', ''always_expensive'', ''fixed_progressive'',
       ''resource_aware_adaptive'', ''synthetic_execution'']"

definition ingestion_check :: "IngestionJobRow \<Rightarrow> bool" where
  "ingestion_check r \<longleftrightarrow> rj_status r \<in> set [''queued'', ''running'', ''succeeded'', ''failed''] \<and>
     0 \<le> rj_attempt_count r"

section \<open>Rows read as domain objects\<close>

text \<open>\<open>x or y\<close> on a text.\<close>

definition text_or :: "string \<Rightarrow> string \<Rightarrow> string" where
  "text_or t d = (if t = [] then d else t)"

definition user_to_domain :: "UserRow \<Rightarrow> exn + user" where
  "user_to_domain row = try_in (user_role_of (ru_role row)) (\<lambda>role.
     Inr \<lparr>u_id = ru_id row, u_name = ru_display_name row, u_role = role, u_created_at = ru_created_at row\<rparr>)"

definition hackathon_to_domain :: "HackathonRow \<Rightarrow> exn + hackathon" where
  "hackathon_to_domain row = try_in (hackathon_status_of (rh_status row)) (\<lambda>status.
     Inr \<lparr>h_id = rh_id row, h_title = rh_title row, h_description = rh_description row, h_status = status,
       h_organizer_id = rh_organizer_id row, h_created_at = rh_created_at row, h_updated_at = rh_updated_at row\<rparr>)"

text \<open>
  A challenge and the two dates of its \<open>ChallengeSpecification\<close>, which no code reads; a
  challenge without a specification gets an empty body and its own dates.
\<close>

definition challenge_from_row :: "ChallengeRow \<Rightarrow> exn + challenge \<times> datetime \<times> datetime" where
  "challenge_from_row row = try_in (challenge_status_of (rl_status row)) (\<lambda>status.
     Inr (\<lparr>c_id = rl_id row, c_hackathon_id = rl_hackathon_id row, c_title = rl_title row,
         c_description = rl_description row, c_constraints = rl_constraints row, c_status = status,
         c_spec_body = (case rl_specification row of Some spec \<Rightarrow> rsp_body spec | None \<Rightarrow> ''''),
         c_criteria = map (\<lambda>c. \<lparr>cr_id = rcr_id c, cr_name = rcr_name c, cr_description = rcr_description c,
             cr_weight = rcr_weight c\<rparr>) (sort_key rcr_name (rl_evaluation_criteria row)),
         c_created_at = rl_created_at row, c_updated_at = rl_updated_at row\<rparr>,
       (case rl_specification row of Some spec \<Rightarrow> rsp_created_at spec | None \<Rightarrow> rl_created_at row),
       (case rl_specification row of Some spec \<Rightarrow> rsp_updated_at spec | None \<Rightarrow> rl_updated_at row)))"

definition submission_to_domain :: "SubmissionRow \<Rightarrow> exn + submission" where
  "submission_to_domain row = try_in (submission_status_of (rs_status row)) (\<lambda>status.
     Inr \<lparr>s_id = rs_id row, s_challenge_id = rs_challenge_id row, s_participant_id = rs_participant_id row,
       s_status = status, s_metadata = rs_metadata_json row, s_artifact_key = rs_artifact_key row,
       s_idempotency_key = rs_idempotency_key row, s_request_fingerprint = rs_request_fingerprint row,
       s_created_at = rs_created_at row, s_updated_at = rs_updated_at row, s_failure_reason = rs_failure_reason row\<rparr>)"

definition evaluation_to_domain :: "EvaluationRow \<Rightarrow> exn + evaluation" where
  "evaluation_to_domain row = try_in (evaluation_status_of (rv_status row)) (\<lambda>status.
     try_in (workload_class_from (text_or (rv_workload_class row) (workload_class_value Light))) (\<lambda>cls.
     Inr \<lparr>e_id = rv_id row, e_submission_id = rv_submission_id row, e_status = status, e_created_at = rv_created_at row,
       e_started_at = rv_started_at row, e_completed_at = rv_completed_at row, e_attempt_count = rv_attempt_count row,
       e_failure_reason = rv_failure_reason row, e_score = rv_score row, e_result_metadata = rv_result_metadata row,
       e_worker_id = rv_worker_id row, e_workload_class = cls, e_current_stage = rv_current_stage row,
       e_mode = text_or (rv_evaluation_mode row) ''legacy'', e_deadline_at = rv_deadline_at row\<rparr>))"

definition ingestion_to_domain :: "IngestionJobRow \<Rightarrow> exn + ingestion_job" where
  "ingestion_to_domain row = try_in (ingestion_status_of (rj_status row)) (\<lambda>status.
     Inr \<lparr>j_id = rj_id row, j_submission_id = rj_submission_id row, j_artifact_key = rj_artifact_key row,
       j_status = status, j_attempt_count = rj_attempt_count row, j_available_at = rj_available_at row,
       j_created_at = rj_created_at row, j_updated_at = rj_updated_at row, j_worker_id = rj_worker_id row,
       j_started_at = rj_started_at row, j_completed_at = rj_completed_at row, j_error_code = rj_error_code row,
       j_error_message = rj_error_message row, j_result_key = rj_result_key row\<rparr>)"

section \<open>Domain objects kept as rows\<close>

text \<open>The row that holds an object, with the \<open>value\<close> of each enumeration in its text columns.\<close>

definition row_of_user :: "user \<Rightarrow> UserRow" where
  "row_of_user u = \<lparr>ru_id = u_id u, ru_display_name = u_name u, ru_role = user_role_value (u_role u),
     ru_created_at = u_created_at u\<rparr>"

definition row_of_hackathon :: "hackathon \<Rightarrow> HackathonRow" where
  "row_of_hackathon h = \<lparr>rh_id = h_id h, rh_title = h_title h, rh_description = h_description h,
     rh_status = hackathon_status_value (h_status h), rh_organizer_id = h_organizer_id h,
     rh_created_at = h_created_at h, rh_updated_at = h_updated_at h\<rparr>"

definition row_of_challenge :: "datetime \<Rightarrow> datetime \<Rightarrow> challenge \<Rightarrow> ChallengeRow" where
  "row_of_challenge created updated c = \<lparr>rl_id = c_id c, rl_hackathon_id = c_hackathon_id c, rl_title = c_title c,
     rl_description = c_description c, rl_constraints = c_constraints c,
     rl_status = challenge_status_value (c_status c), rl_created_at = c_created_at c, rl_updated_at = c_updated_at c,
     rl_specification = Some \<lparr>rsp_body = c_spec_body c, rsp_created_at = created, rsp_updated_at = updated\<rparr>,
     rl_evaluation_criteria = map (\<lambda>x. \<lparr>rcr_id = cr_id x, rcr_name = cr_name x, rcr_description = cr_description x,
       rcr_weight = cr_weight x\<rparr>) (c_criteria c)\<rparr>"

definition row_of_submission :: "submission \<Rightarrow> SubmissionRow" where
  "row_of_submission s = \<lparr>rs_id = s_id s, rs_challenge_id = s_challenge_id s, rs_participant_id = s_participant_id s,
     rs_status = submission_status_value (s_status s), rs_metadata_json = s_metadata s,
     rs_artifact_key = s_artifact_key s, rs_idempotency_key = s_idempotency_key s,
     rs_request_fingerprint = s_request_fingerprint s, rs_failure_reason = s_failure_reason s,
     rs_created_at = s_created_at s, rs_updated_at = s_updated_at s\<rparr>"

definition row_of_evaluation :: "evaluation \<Rightarrow> EvaluationRow" where
  "row_of_evaluation e = \<lparr>rv_id = e_id e, rv_submission_id = e_submission_id e,
     rv_status = evaluation_status_value (e_status e), rv_workload_class = workload_class_value (e_workload_class e),
     rv_current_stage = e_current_stage e, rv_evaluation_mode = e_mode e, rv_deadline_at = e_deadline_at e,
     rv_created_at = e_created_at e, rv_started_at = e_started_at e, rv_completed_at = e_completed_at e,
     rv_attempt_count = e_attempt_count e, rv_failure_reason = e_failure_reason e, rv_score = e_score e,
     rv_result_metadata = e_result_metadata e, rv_worker_id = e_worker_id e\<rparr>"

definition row_of_job :: "ingestion_job \<Rightarrow> IngestionJobRow" where
  "row_of_job j = \<lparr>rj_id = j_id j, rj_submission_id = j_submission_id j, rj_artifact_key = j_artifact_key j,
     rj_status = ingestion_status_value (j_status j), rj_attempt_count = j_attempt_count j,
     rj_worker_id = j_worker_id j, rj_available_at = j_available_at j, rj_started_at = j_started_at j,
     rj_completed_at = j_completed_at j, rj_error_code = j_error_code j, rj_error_message = j_error_message j,
     rj_result_key = j_result_key j, rj_created_at = j_created_at j, rj_updated_at = j_updated_at j\<rparr>"

section \<open>A codec of rows\<close>

text \<open>
  The contract of a table that keeps objects as rows: the good objects and the rows that pass the
  checks correspond one to one.
\<close>

locale row_codec =
  fixes dec :: "'r \<Rightarrow> exn + 'd"
    and enc :: "'d \<Rightarrow> 'r"
    and check :: "'r \<Rightarrow> bool"
    and good :: "'d \<Rightarrow> bool"
  assumes dec_enc: "good d \<Longrightarrow> dec (enc d) = Inr d"
    and enc_check: "good d \<Longrightarrow> check (enc d)"
    and check_dec: "check r \<Longrightarrow> \<exists>d. good d \<and> enc d = r"
begin

lemma codec:
  "(good d \<longrightarrow> check (enc d) \<and> dec (enc d) = Inr d) \<and> (check r \<longrightarrow> (\<exists>d. good d \<and> dec r = Inr d \<and> enc d = r))"
  using dec_enc enc_check check_dec by blast

lemma enc_inj: "inj_on enc (Collect good)"
  by (rule inj_onI) (metis dec_enc mem_Collect_eq sum.inject(2))

lemma codec_bij: "bij_betw enc (Collect good) (Collect check)"
  using enc_inj enc_check check_dec by (auto simp: bij_betw_def)

lemma table_decodes: "list_all check rows \<Longrightarrow> \<exists>ds. list_all good ds \<and> rows = map enc ds"
  by (induction rows) (auto dest!: check_dec intro: exI [of _ "_ # _"])

text \<open>A statement that agrees with an update of the objects, row by row, does to the table what the update does.\<close>

lemma update_rows:
  assumes "list_all good ds" and "\<And>d. good d \<Longrightarrow> P (enc d) = p d" and "\<And>d. good d \<Longrightarrow> p d \<Longrightarrow> F (enc d) = enc (f d)"
  shows "update_returning P F (map enc ds) = map_prod (map_option enc) (map enc) (update_returning p f ds)"
proof -
  have find: "find P (map enc ds) = map_option enc (find p ds)"
    using assms(1,2) by (induction ds) auto
  have rows: "update_where P F (map enc ds) = map enc (update_where p f ds)"
    using assms by (induction ds) (auto simp: update_where_def)
  have "good d" if "find p ds = Some d" for d
    using find_SomeD [OF that] assms(1) by (auto simp: list_all_iff)
  then show ?thesis
    using assms(3) find_SomeD [of p ds] unfolding update_returning_def find rows by (auto split: option.splits)
qed

end

lemmas row_defs = user_to_domain_def hackathon_to_domain_def submission_to_domain_def evaluation_to_domain_def
  ingestion_to_domain_def row_of_user_def row_of_hackathon_def row_of_submission_def row_of_evaluation_def row_of_job_def
  text_or_def try_in_def

definition keyed :: "submission \<Rightarrow> bool" where
  "keyed s \<longleftrightarrow> (s_idempotency_key s = None \<longleftrightarrow> s_request_fingerprint s = None)"

lemma row_codecI:
  assumes "\<And>d. good d \<Longrightarrow> dec (enc d) = Inr d" and "\<And>d. good d \<Longrightarrow> check (enc d)"
    and "\<And>r. check r \<Longrightarrow> \<exists>d. dec r = Inr d" and "\<And>r d. check r \<Longrightarrow> dec r = Inr d \<Longrightarrow> good d \<and> enc d = r"
  shows "row_codec dec enc check good"
  using assms by unfold_locales blast+

lemmas text_of_defs = user_role_of_def hackathon_status_of_def challenge_status_of_def submission_status_of_def
  evaluation_status_of_def ingestion_status_of_def workload_class_from_def

lemmas check_defs = user_check_def hackathon_check_def submission_check_def evaluation_row_check_def ingestion_check_def

interpretation users: row_codec user_to_domain row_of_user user_check "\<lambda>u. True"
proof (rule row_codecI)
  fix d show "user_check (row_of_user d)" by (cases "u_role d") (simp_all add: row_defs check_defs)
next
  fix r assume "user_check r" then show "\<exists>d. user_to_domain r = Inr d" by (auto simp: row_defs check_defs text_of_defs)
next
  fix r d show "user_to_domain r = Inr d \<Longrightarrow> True \<and> row_of_user d = r"
    by (cases r) (auto simp: row_defs user_role.read_iff split: sum.splits)
qed (simp add: row_defs)

interpretation hackathons: row_codec hackathon_to_domain row_of_hackathon hackathon_check "\<lambda>h. True"
proof (rule row_codecI)
  fix d show "hackathon_check (row_of_hackathon d)" by (cases "h_status d") (simp_all add: row_defs check_defs)
next
  fix r assume "hackathon_check r" then show "\<exists>d. hackathon_to_domain r = Inr d" by (auto simp: row_defs check_defs text_of_defs)
next
  fix r d show "hackathon_to_domain r = Inr d \<Longrightarrow> True \<and> row_of_hackathon d = r"
    by (cases r) (auto simp: row_defs hackathon_text.read_iff split: sum.splits)
qed (simp add: row_defs)

interpretation submissions: row_codec submission_to_domain row_of_submission submission_check keyed
proof (rule row_codecI)
  fix d assume "keyed d" then show "submission_check (row_of_submission d)"
    by (cases "s_status d") (auto simp: row_defs check_defs keyed_def)
next
  fix r assume "submission_check r" then show "\<exists>d. submission_to_domain r = Inr d"
    by (auto simp: row_defs check_defs text_of_defs)
next
  fix r d assume "submission_check r" "submission_to_domain r = Inr d"
  then show "keyed d \<and> row_of_submission d = r"
    by (cases r) (auto simp: row_defs check_defs keyed_def submission_text.read_iff split: sum.splits)
qed (simp add: row_defs)

lemma mode_nonempty: "e_mode e \<in> set EVALUATION_MODES \<Longrightarrow> e_mode e \<noteq> []"
  by (auto simp: EVALUATION_MODES_def)

lemma class_nonempty [simp]: "workload_class_value c \<noteq> []"
  by (cases c) simp_all

lemma evaluation_read:
  assumes "evaluation_to_domain r = Inr d" and "rv_workload_class r \<noteq> []" and "rv_evaluation_mode r \<noteq> []"
  shows "row_of_evaluation d = r"
proof -
  obtain st cls where "evaluation_status_of (rv_status r) = Inr st" "workload_class_from (rv_workload_class r) = Inr cls"
    using assms(1,2) by (auto simp: evaluation_to_domain_def try_in_def text_or_def split: sum.splits)
  then show ?thesis
    using assms by (simp add: row_defs evaluation_text.read_iff workload_text.read_iff) auto
qed

interpretation evaluations: row_codec evaluation_to_domain row_of_evaluation evaluation_row_check evaluation_check
proof (rule row_codecI)
  fix d assume "evaluation_check d" then show "evaluation_row_check (row_of_evaluation d)"
    by (cases "e_status d"; cases "e_workload_class d") (auto simp: row_defs check_defs evaluation_check_def EVALUATION_MODES_def)
next
  fix r assume "evaluation_row_check r" then show "\<exists>d. evaluation_to_domain r = Inr d"
    by (auto simp: row_defs check_defs text_of_defs)
next
  fix r d assume "evaluation_row_check r" "evaluation_to_domain r = Inr d"
  then have r: "r = row_of_evaluation d" using evaluation_read [of r d] by (auto simp: evaluation_row_check_def)
  have "evaluation_check d"
    using \<open>evaluation_row_check r\<close> unfolding r
    by (simp add: row_of_evaluation_def evaluation_row_check_def evaluation_check_def EVALUATION_MODES_def)
  with r show "evaluation_check d \<and> row_of_evaluation d = r" by simp
qed (auto simp: row_defs evaluation_check_def dest: mode_nonempty)

interpretation jobs: row_codec ingestion_to_domain row_of_job ingestion_check "\<lambda>j. 0 \<le> j_attempt_count j"
proof (rule row_codecI)
  fix d :: ingestion_job assume "0 \<le> j_attempt_count d" then show "ingestion_check (row_of_job d)"
    by (cases "j_status d") (simp_all add: row_defs check_defs)
next
  fix r assume "ingestion_check r" then show "\<exists>d. ingestion_to_domain r = Inr d"
    by (auto simp: row_defs check_defs text_of_defs)
next
  fix r d assume "ingestion_check r" "ingestion_to_domain r = Inr d"
  then show "0 \<le> j_attempt_count d \<and> row_of_job d = r"
    by (cases r) (auto simp: row_defs check_defs ingestion_text.read_iff split: sum.splits)
qed (simp add: row_defs)

text \<open>A challenge is read with its criteria sorted, as \<open>Catalog\<close> has it.\<close>

lemma sort_key_map: "sort_key k (map g xs) = map g (sort_key (\<lambda>x. k (g x)) xs)"
proof -
  have "insort_key k (g x) (map g ys) = map g (insort_key (\<lambda>x. k (g x)) x ys)" for x ys
    by (induction ys) simp_all
  then show ?thesis by (induction xs) simp_all
qed

lemma challenge_reads: "challenge_from_row (row_of_challenge created updated c) = Inr (challenge_to_domain c, created, updated)"
proof -
  have [simp]: "map (\<lambda>x. \<lparr>cr_id = cr_id x, cr_name = cr_name x, cr_description = cr_description x, cr_weight = cr_weight x\<rparr>) xs = xs"
    for xs :: "criterion list"
    by (rule map_idI) simp
  then show ?thesis
    by (cases c) (simp add: challenge_from_row_def row_of_challenge_def challenge_to_domain_def sort_key_map o_def try_in_def)
qed

lemma challenge_row_reads: "challenge_check r \<Longrightarrow> \<exists>c. challenge_from_row r = Inr c"
  by (auto simp: challenge_check_def challenge_from_row_def text_of_defs try_in_def)

section \<open>Statements on texts\<close>

text \<open>The conditions and assignments of \<^verbatim>\<open>repositories.py\<close> as they are sent, on texts.\<close>

definition sql_transition_if_created ::
  "datetime \<Rightarrow> uuid \<Rightarrow> uuid \<Rightarrow> string \<Rightarrow> SubmissionRow list \<Rightarrow> SubmissionRow option \<times> SubmissionRow list" where
  "sql_transition_if_created updated_at submission_id participant_id target_status = update_returning
     (\<lambda>r. rs_id r = submission_id \<and> rs_participant_id r = participant_id \<and> rs_status r = ''created'')
     (\<lambda>r. r\<lparr>rs_status := target_status, rs_updated_at := updated_at\<rparr>)"

definition sql_owned :: "uuid \<Rightarrow> string \<Rightarrow> EvaluationRow \<Rightarrow> bool" where
  "sql_owned evaluation_id worker_id r \<longleftrightarrow>
     rv_id r = evaluation_id \<and> rv_status r = ''running'' \<and> rv_worker_id r = Some worker_id"

definition sql_defer_escalation ::
  "uuid \<Rightarrow> string \<Rightarrow> int \<Rightarrow> string \<Rightarrow> dict \<Rightarrow> EvaluationRow list \<Rightarrow> EvaluationRow option \<times> EvaluationRow list" where
  "sql_defer_escalation i w next_stage workload_class md = update_returning (sql_owned i w)
     (\<lambda>r. r\<lparr>rv_status := ''queued'', rv_started_at := None, rv_worker_id := None, rv_current_stage := next_stage,
        rv_workload_class := workload_class, rv_result_metadata := md, rv_failure_reason := None\<rparr>)"

definition sql_release_for_retry ::
  "uuid \<Rightarrow> string \<Rightarrow> dict \<Rightarrow> string \<Rightarrow> EvaluationRow list \<Rightarrow> EvaluationRow option \<times> EvaluationRow list" where
  "sql_release_for_retry i w md why = update_returning (sql_owned i w)
     (\<lambda>r. r\<lparr>rv_status := ''queued'', rv_started_at := None, rv_worker_id := None,
        rv_result_metadata := md, rv_failure_reason := Some why\<rparr>)"

definition sql_mark_succeeded ::
  "datetime \<Rightarrow> uuid \<Rightarrow> string \<Rightarrow> int \<Rightarrow> dict \<Rightarrow> EvaluationRow list \<Rightarrow> EvaluationRow option \<times> EvaluationRow list" where
  "sql_mark_succeeded now i w score md = update_returning (sql_owned i w)
     (\<lambda>r. r\<lparr>rv_status := ''succeeded'', rv_completed_at := Some now, rv_score := Some score,
        rv_result_metadata := md, rv_failure_reason := None\<rparr>)"

definition sql_mark_failed ::
  "datetime \<Rightarrow> uuid \<Rightarrow> string \<Rightarrow> string \<Rightarrow> dict option \<Rightarrow> EvaluationRow list \<Rightarrow> EvaluationRow option \<times> EvaluationRow list" where
  "sql_mark_failed now i w why md = update_returning (sql_owned i w)
     (\<lambda>r. let r' = r\<lparr>rv_status := ''failed'', rv_completed_at := Some now, rv_failure_reason := Some why, rv_score := None\<rparr>
          in case md of Some m \<Rightarrow> r'\<lparr>rv_result_metadata := m\<rparr> | None \<Rightarrow> r')"

definition rows_of :: "evaluation option \<times> equeue \<Rightarrow> EvaluationRow option \<times> EvaluationRow list" where
  "rows_of x = (map_option row_of_evaluation (fst x), map row_of_evaluation (evals (snd x)))"

lemma rows_of_on_evals:
  "rows_of (on_evals p f q) = map_prod (map_option row_of_evaluation) (map row_of_evaluation) (update_returning p f (evals q))"
  by (simp add: rows_of_def on_evals_def split_def map_prod_def Let_def)

text \<open>A text that stands for one member is equal to the value of a status exactly when the status is that member.\<close>

lemma status_texts [simp]:
  "submission_status_value s = ''created'' \<longleftrightarrow> s = SCreated" "evaluation_status_value e = ''running'' \<longleftrightarrow> e = ERunning"
  by (cases s; simp) (cases e; simp)

lemma owned_texts: "sql_owned i w (row_of_evaluation e) = owned_running i w e"
  by (auto simp: sql_owned_def owned_running_def row_of_evaluation_def)

lemma evaluation_statement:
  assumes "list_all evaluation_check (evals q)" and "\<And>e. F (row_of_evaluation e) = row_of_evaluation (f e)"
  shows "update_returning (sql_owned i w) F (map row_of_evaluation (evals q)) = rows_of (on_evals (owned_running i w) f q)"
  unfolding rows_of_on_evals using assms(1) by (rule evaluations.update_rows) (rule owned_texts, rule assms(2))

lemmas statement_defs = sql_defer_escalation_def defer_escalation_def sql_release_for_retry_def release_for_retry_def
  sql_mark_succeeded_def mark_succeeded_def sql_mark_failed_def mark_failed_def

lemma evaluation_statements:
  assumes "list_all evaluation_check (evals q)"
  shows "sql_defer_escalation i w n (workload_class_value cls) md (map row_of_evaluation (evals q)) =
      rows_of (defer_escalation i w n cls md q)"
    and "sql_release_for_retry i w md why (map row_of_evaluation (evals q)) = rows_of (release_for_retry i w md why q)"
    and "sql_mark_succeeded now i w score md (map row_of_evaluation (evals q)) = rows_of (mark_succeeded now i w score md q)"
    and "sql_mark_failed now i w why md' (map row_of_evaluation (evals q)) = rows_of (mark_failed now i w why md' q)"
  unfolding statement_defs by (rule evaluation_statement [OF assms], simp add: row_of_evaluation_def split: option.split)+

lemma submission_statement:
  assumes "list_all keyed subs"
  shows "sql_transition_if_created now i p (submission_status_value t) (map row_of_submission subs) =
    map_prod (map_option row_of_submission) (map row_of_submission) (transition_if_created now i p t subs)"
  unfolding sql_transition_if_created_def transition_if_created_def
  by (rule submissions.update_rows [OF assms]) (auto simp: created_by_def row_of_submission_def)

section \<open>The tables are faithful\<close>



text \<open>
  C26. What the program sends are statements on texts. On any rows the database accepts, they do exactly
  what the repository operations of the model do to the objects in the rows, and return the row of the same object.
\<close>

theorem statements_refine:
  assumes "list_all submission_check srows" and "list_all evaluation_row_check erows"
  shows "\<exists>subs es. list_all keyed subs \<and> srows = map row_of_submission subs \<and>
    list_all evaluation_check es \<and> erows = map row_of_evaluation es \<and>
    (\<forall>now i p t. sql_transition_if_created now i p (submission_status_value t) srows =
       map_prod (map_option row_of_submission) (map row_of_submission) (transition_if_created now i p t subs)) \<and>
    (\<forall>q now i w n cls md md' why score. evals q = es \<longrightarrow>
       sql_defer_escalation i w n (workload_class_value cls) md erows = rows_of (defer_escalation i w n cls md q) \<and>
       sql_release_for_retry i w md why erows = rows_of (release_for_retry i w md why q) \<and>
       sql_mark_succeeded now i w score md erows = rows_of (mark_succeeded now i w score md q) \<and>
       sql_mark_failed now i w why md' erows = rows_of (mark_failed now i w why md' q))"
proof -
  obtain subs where s: "list_all keyed subs" "srows = map row_of_submission subs"
    using submissions.table_decodes [OF assms(1)] by blast
  obtain es where e: "list_all evaluation_check es" "erows = map row_of_evaluation es"
    using evaluations.table_decodes [OF assms(2)] by blast
  show ?thesis
    using s e submission_statement [OF s(1)] evaluation_statements [unfolded rows_of_def]
    unfolding rows_of_def by (intro exI [of _ subs] exI [of _ es]) auto
qed

theorem statements_refine_witness:
  "\<exists>es. [row_of_evaluation (demo_evaluation\<lparr>e_status := ERunning, e_worker_id := Some ''w''\<rparr>)] = map row_of_evaluation es \<and>
     sql_mark_succeeded 9 12 ''w'' 70 [] [row_of_evaluation (demo_evaluation\<lparr>e_status := ERunning, e_worker_id := Some ''w''\<rparr>)] =
       rows_of (mark_succeeded 9 12 ''w'' 70 [] \<lparr>evals = es, sched = None\<rparr>) \<and>
     (\<exists>r rs. rows_of (mark_succeeded 9 12 ''w'' 70 [] \<lparr>evals = es, sched = None\<rparr>) = (Some r, rs) \<and> rv_status r = ''succeeded'')"
proof -
  let ?e = "demo_evaluation\<lparr>e_status := ERunning, e_worker_id := Some ''w''\<rparr>"
  have s: "list_all submission_check [row_of_submission demo_row]"
    by (simp add: submission_check_def row_of_submission_def demo_row_def)
  have e: "list_all evaluation_row_check [row_of_evaluation ?e]"
    by (simp add: evaluation_row_check_def row_of_evaluation_def demo_evaluation_def)
  from statements_refine [OF s e] obtain es where es: "[row_of_evaluation ?e] = map row_of_evaluation es"
    "\<And>q. evals q = es \<Longrightarrow> sql_mark_succeeded 9 12 ''w'' 70 [] [row_of_evaluation ?e] = rows_of (mark_succeeded 9 12 ''w'' 70 [] q)"
    by metis
  have "rows_of (mark_succeeded 9 12 ''w'' 70 [] \<lparr>evals = es, sched = None\<rparr>) =
      sql_mark_succeeded 9 12 ''w'' 70 [] [row_of_evaluation ?e]"
    by (rule es(2) [symmetric]) simp
  moreover have "fst (sql_mark_succeeded 9 12 ''w'' 70 [] [row_of_evaluation ?e]) \<noteq> None \<and>
      rv_status (the (fst (sql_mark_succeeded 9 12 ''w'' 70 [] [row_of_evaluation ?e]))) = ''succeeded''"
    by (simp add: sql_mark_succeeded_def update_returning_def sql_owned_def row_of_evaluation_def demo_evaluation_def)
  ultimately show ?thesis using es(1) by (intro exI [of _ es] conjI) (auto simp: prod_eq_iff)
qed

end
