(* ===== verification/Ingest_Worker.thy ===== *)
theory Ingest_Worker
  imports Ingest_Queue Keys
begin

text \<open>
  The ingestion stages (\<^verbatim>\<open>ingestion/processor.py\<close>) and the worker (\<^verbatim>\<open>ingestion/worker.py\<close>).
  \<open>ingest_once\<close> is \<open>run_once\<close> as the composition of its transactions; the step function \<open>act\<close> runs
  the same parts one at a time, so that several workers, crashes between and within the parts,
  recoveries and uploads can interleave. SHA-256 and UTF-8 decoding are the fields of \<open>codec\<close>.
\<close>

section \<open>Processing an artifact\<close>

record codec =
  co_sha :: "string \<Rightarrow> string"
  co_decode :: "string \<Rightarrow> string option"

datatype ingest_error =
    Deterministic (err_code: string) (err_message: string)
  | Transient (err_code: string) (err_message: string)
  | Unexpected (err_message: string)

definition POISON_PREFIX :: string where "POISON_PREFIX = ''cf_ingest_poison''"
definition TRANSIENT_PREFIX :: string where "TRANSIENT_PREFIX = ''cf_ingest_transient''"

record ingest_result =
  ir_result_key :: string
  ir_canonical_key :: string
  ir_parser_version :: string
  ir_chunker_version :: string
  ir_canonical_chars :: nat
  ir_canonical_sha256 :: string
  ir_content_kind :: string
  ir_chunk_count :: nat
  ir_max_chunk_chars :: int
  ir_chunks :: "chunk_draft list"

definition result_key_for :: "uuid \<Rightarrow> string" where
  "result_key_for job_id = ''ingestion/'' @ uuid_str job_id @ ''/result.json''"

definition canonical_key_for :: "uuid \<Rightarrow> string" where
  "canonical_key_for job_id = ''ingestion/'' @ uuid_str job_id @ ''/canonical.txt''"

fun content_kind_value :: "content_kind \<Rightarrow> string" where
  "content_kind_value MARKDOWN = ''markdown''"
| "content_kind_value CODE_KIND = ''code''"
| "content_kind_value PROSE = ''prose''"
| "content_kind_value EMPTY_KIND = ''empty''"

text \<open>\<open>json.dumps(payload, sort_keys=True)\<close> with the default separators, on values without floats.\<close>

fun json_spaced :: "json \<Rightarrow> string" where
  "json_spaced (JList xs) = ''['' @ join '', '' (map json_spaced xs) @ '']''"
| "json_spaced (JObj d) =
     ''{'' @ join '', '' (map snd (sort_key fst
        (map (\<lambda>kv. (fst kv, json_string True (fst kv) @ '': '' @ json_spaced (snd kv))) d))) @ ''}''"
| "json_spaced v = json_dumps (\<lambda>r. []) True True v"

definition manifest_payload ::
  "uuid \<Rightarrow> string \<Rightarrow> string \<Rightarrow> int \<Rightarrow> int \<Rightarrow> canonical_document \<Rightarrow> chunk_draft list \<Rightarrow> dict" where
  "manifest_payload job_id artifact_key chunker_version max_chunk_chars attempt_count doc chunks =
     [(''stage'', JStr ''CHUNKED''),
      (''job_id'', JStr (uuid_str job_id)),
      (''artifact_key'', JStr artifact_key),
      (''parser_version'', JStr PARSER_VERSION),
      (''chunker_version'', JStr chunker_version),
      (''content_kind'', JStr (content_kind_value (cd_kind doc))),
      (''canonical_key'', JStr (canonical_key_for job_id)),
      (''canonical_chars'', JInt (int (length (cd_text doc)))),
      (''canonical_sha256'', JStr (cd_sha256 doc)),
      (''canonical_line_count'', JInt (int (cd_line_count doc))),
      (''chunk_count'', JInt (int (length chunks))),
      (''max_chunk_chars'', JInt max_chunk_chars),
      (''attempt_count'', JInt attempt_count),
      (''chunk_ordinals'', JList (map (\<lambda>c. JInt (int (ch_ordinal c))) chunks)),
      (''chunk_content_sha256'', JList (map (\<lambda>c. JStr (ch_sha256 c)) chunks))]"

text \<open>Write a staging file, then publish it under its key.\<close>

definition publish_text ::
  "real \<Rightarrow> string \<Rightarrow> string \<Rightarrow> string \<Rightarrow> string \<Rightarrow> files \<Rightarrow> (exn + string) \<times> files" where
  "publish_text now key staging content_type text fs =
     (case run_steps now [WriteFile (incoming_root @ [staging]) (utf8 text)] fs of
        (False, fs') \<Rightarrow> (Inl OSError, fs')
      | (True, fs') \<Rightarrow> put_from_path now key (incoming_root @ [staging]) content_type fs')"

definition canonical_staging :: "uuid \<Rightarrow> string" where
  "canonical_staging i = ''ingest-canonical-'' @ uuid_str i"

definition result_staging :: "uuid \<Rightarrow> string" where
  "result_staging i = ''ingest-result-'' @ uuid_str i"

text \<open>The two publications, and the result.\<close>

definition publish_outputs ::
  "real \<Rightarrow> uuid \<Rightarrow> string \<Rightarrow> int \<Rightarrow> int \<Rightarrow> string \<Rightarrow> canonical_document \<Rightarrow> chunk_draft list \<Rightarrow> files
     \<Rightarrow> (ingest_error + ingest_result) \<times> files" where
  "publish_outputs now job_id artifact_key attempt_count max_chunk_chars chunker_version doc chunks fs =
     (case publish_text now (canonical_key_for job_id) (canonical_staging job_id)
             ''text/plain; charset=utf-8'' (cd_text doc) fs of
        (Inl e, fs1) \<Rightarrow> (Inl (Unexpected (exn_text e)), fs1)
      | (Inr ckey, fs1) \<Rightarrow>
          (case publish_text now (result_key_for job_id) (result_staging job_id) ''application/json''
                  (json_spaced (JObj (manifest_payload job_id artifact_key chunker_version max_chunk_chars
                     attempt_count doc chunks))) fs1 of
             (Inl e, fs2) \<Rightarrow> (Inl (Unexpected (exn_text e)), fs2)
           | (Inr rkey, fs2) \<Rightarrow>
               (Inr \<lparr>ir_result_key = result_key_for job_id, ir_canonical_key = canonical_key_for job_id,
                  ir_parser_version = PARSER_VERSION, ir_chunker_version = chunker_version,
                  ir_canonical_chars = length (cd_text doc), ir_canonical_sha256 = cd_sha256 doc,
                  ir_content_kind = content_kind_value (cd_kind doc), ir_chunk_count = length chunks,
                  ir_max_chunk_chars = max_chunk_chars, ir_chunks = chunks\<rparr>, fs2)))"

text \<open>Reading and parsing: everything before the first write.\<close>

definition parse_artifact ::
  "codec \<Rightarrow> string \<Rightarrow> int \<Rightarrow> int \<Rightarrow> files \<Rightarrow> ingest_error + canonical_document \<times> chunk_draft list" where
  "parse_artifact co artifact_key attempt_count max_chunk_chars fs =
     (case get_blob artifact_key fs of
        Inl FileNotFoundError \<Rightarrow>
          Inl (Deterministic ''missing_artifact'' (''Artifact blob missing: '' @ artifact_key))
      | Inl e \<Rightarrow> Inl (Unexpected (exn_text e))
      | Inr raw \<Rightarrow>
          if starts_with POISON_PREFIX raw then
            Inl (Deterministic ''malformed_artifact'' ''Synthetic poison artifact (deterministic).'')
          else if starts_with TRANSIENT_PREFIX raw \<and> attempt_count < 2 then
            Inl (Transient ''transient_backend'' ''Synthetic transient failure (retryable until attempt>=2).'')
          else case co_decode co raw of
            None \<Rightarrow> Inl (Deterministic ''invalid_encoding'' ''Artifact is not valid UTF-8.'')
          | Some text \<Rightarrow>
              let doc = normalize_to_canonical (co_sha co) text
              in case chunk_hybrid (co_sha co) max_chunk_chars doc of
                   Inl e \<Rightarrow> Inl (Unexpected (exn_text e))
                 | Inr chunks \<Rightarrow> Inr (doc, chunks))"

definition process_artifact ::
  "codec \<Rightarrow> real \<Rightarrow> uuid \<Rightarrow> string \<Rightarrow> int \<Rightarrow> int \<Rightarrow> string \<Rightarrow> files
     \<Rightarrow> (ingest_error + ingest_result) \<times> files" where
  "process_artifact co now job_id artifact_key attempt_count max_chunk_chars chunker_version fs =
     (case parse_artifact co artifact_key attempt_count max_chunk_chars fs of
        Inl e \<Rightarrow> (Inl e, fs)
      | Inr (doc, chunks) \<Rightarrow>
          publish_outputs now job_id artifact_key attempt_count max_chunk_chars chunker_version doc chunks fs)"

definition ingest_staging :: "uuid \<Rightarrow> string" where
  "ingest_staging i = ''ingest-'' @ uuid_str i"

definition cleanup_partial_result :: "uuid \<Rightarrow> files \<Rightarrow> files" where
  "cleanup_partial_result job_id fs =
     fold (\<lambda>nm. AList.delete (incoming_root @ [nm]))
       [result_staging job_id, canonical_staging job_id, ingest_staging job_id]
       (snd (delete_blob (canonical_key_for job_id) (snd (delete_blob (result_key_for job_id) fs))))"

section \<open>The worker\<close>

record ingest_db =
  db_jobs :: "ingestion_job list"
  db_chunks :: "chunk_row list"

record counters =
  n_claims :: int
  n_succeeded :: int
  n_failed :: int
  n_retried :: int

text \<open>
  The transaction after a successful processing. An exception (a violated constraint) rolls it
  back and leaves \<open>run_once\<close>; the flag says whether the job was still owned.
\<close>

definition commit_success ::
  "datetime \<Rightarrow> (nat \<Rightarrow> uuid) \<Rightarrow> worker_id \<Rightarrow> ingestion_job \<Rightarrow> ingest_result \<Rightarrow> ingest_db
     \<Rightarrow> exn + bool \<times> ingest_db" where
  "commit_success now fresh w claimed result db =
     (case replace_for_job now fresh (j_id claimed) (j_submission_id claimed) (j_artifact_key claimed)
             (ir_parser_version result) (ir_chunker_version result) (ir_chunks result) (db_chunks db) of
        Inl e \<Rightarrow> Inl e
      | Inr (_, chunks) \<Rightarrow>
          (let (done, jobs) = succeed_job now (j_id claimed) w (ir_result_key result) (db_jobs db)
           in Inr (done \<noteq> None, \<lparr>db_jobs = jobs, db_chunks = chunks\<rparr>)))"

text \<open>The test hook \<open>crash_after_chunk_persist\<close>: the chunks are committed, the success is not.\<close>

definition persist_chunks_only ::
  "datetime \<Rightarrow> (nat \<Rightarrow> uuid) \<Rightarrow> ingestion_job \<Rightarrow> ingest_result \<Rightarrow> ingest_db \<Rightarrow> ingest_db" where
  "persist_chunks_only now fresh claimed result db =
     (case replace_for_job now fresh (j_id claimed) (j_submission_id claimed) (j_artifact_key claimed)
             (ir_parser_version result) (ir_chunker_version result) (ir_chunks result) (db_chunks db) of
        Inl e \<Rightarrow> db
      | Inr (_, chunks) \<Rightarrow> db\<lparr>db_chunks := chunks\<rparr>)"

definition commit_failed ::
  "datetime \<Rightarrow> worker_id \<Rightarrow> ingestion_job \<Rightarrow> string \<Rightarrow> string \<Rightarrow> ingest_db \<Rightarrow> ingest_db" where
  "commit_failed now w claimed code message db =
     \<lparr>db_jobs = snd (fail_job now (j_id claimed) w code message (db_jobs db)),
      db_chunks = snd (delete_for_job (j_id claimed) (db_chunks db))\<rparr>"

definition commit_retry ::
  "datetime \<Rightarrow> worker_id \<Rightarrow> ingestion_job \<Rightarrow> string \<Rightarrow> string \<Rightarrow> real \<Rightarrow> ingest_db \<Rightarrow> ingest_db" where
  "commit_retry now w claimed code message delay db =
     \<lparr>db_jobs = snd (retry_job now (j_id claimed) w code message delay (db_jobs db)),
      db_chunks = snd (delete_for_job (j_id claimed) (db_chunks db))\<rparr>"

text \<open>The transaction after a failed processing, and the counter it increments.\<close>

definition commit_error ::
  "settings \<Rightarrow> datetime \<Rightarrow> worker_id \<Rightarrow> ingestion_job \<Rightarrow> ingest_error \<Rightarrow> ingest_db \<times> counters
     \<Rightarrow> ingest_db \<times> counters" where
  "commit_error st now w claimed err acc =
     (let (db, n) = acc;
          code = (case err of Unexpected m \<Rightarrow> ''executor_error'' | _ \<Rightarrow> err_code err);
          msg = err_message err
      in case err of
           Deterministic c m \<Rightarrow> (commit_failed now w claimed c m db, n\<lparr>n_failed := n_failed n + 1\<rparr>)
         | _ \<Rightarrow>
             if j_attempt_count claimed \<ge> ingestion_max_attempts st
             then (commit_failed now w claimed code (msg @ '' (attempts exhausted)'') db,
                   n\<lparr>n_failed := n_failed n + 1\<rparr>)
             else (commit_retry now w claimed code msg (ingestion_retry_delay_seconds st) db,
                   n\<lparr>n_retried := n_retried n + 1\<rparr>))"

definition process_claimed ::
  "codec \<Rightarrow> settings \<Rightarrow> real \<Rightarrow> ingestion_job \<Rightarrow> files \<Rightarrow> (ingest_error + ingest_result) \<times> files" where
  "process_claimed co st now claimed fs =
     process_artifact co now (j_id claimed) (j_artifact_key claimed) (j_attempt_count claimed)
       (ingestion_chunk_max_chars st) CHUNKER_VERSION fs"

text \<open>\<open>run_once\<close> without interference; the times are those of claim, processing and commit.\<close>

definition ingest_once ::
  "codec \<Rightarrow> settings \<Rightarrow> datetime \<times> real \<times> datetime \<Rightarrow> (nat \<Rightarrow> uuid) \<Rightarrow> worker_id
     \<Rightarrow> ingest_db \<Rightarrow> counters \<Rightarrow> files \<Rightarrow> (exn + bool) \<times> ingest_db \<times> counters \<times> files" where
  "ingest_once co st clock fresh w db n fs =
     (let (t0, t1, t2) = clock
      in case claim_next_job t0 w (db_jobs db) of
           (None, jobs) \<Rightarrow> (Inr False, db\<lparr>db_jobs := jobs\<rparr>, n, fs)
         | (Some claimed, jobs) \<Rightarrow>
             (let db = db\<lparr>db_jobs := jobs\<rparr>;
                  n = n\<lparr>n_claims := n_claims n + 1\<rparr>
              in case process_claimed co st t1 claimed fs of
                   (Inl err, fs1) \<Rightarrow>
                     (let (db, n) = commit_error st t2 w claimed err (db, n)
                      in (Inr True, db, n, cleanup_partial_result (j_id claimed) fs1))
                 | (Inr result, fs1) \<Rightarrow>
                     (case commit_success t2 fresh w claimed result db of
                        Inl e \<Rightarrow> (Inl e, db, n, fs1)
                      | Inr (done, db') \<Rightarrow>
                          (Inr True, db', if done then n\<lparr>n_succeeded := n_succeeded n + 1\<rparr> else n, fs1))))"

definition recover_tx :: "settings \<Rightarrow> datetime \<Rightarrow> ingest_db \<Rightarrow> ingestion_job list \<times> ingest_db" where
  "recover_tx st now db =
     (let (recovered, jobs) = recover_stale_jobs now (now - ingestion_stale_after_seconds st * 1000000)
            (ingestion_max_attempts st) (db_jobs db)
      in (recovered, db\<lparr>db_jobs := jobs\<rparr>))"

text \<open>\<open>_cleanup_job_outputs\<close>: the blobs first, then the chunk rows in a transaction of their own.\<close>

definition cleanup_job_outputs :: "uuid \<Rightarrow> ingest_db \<times> files \<Rightarrow> ingest_db \<times> files" where
  "cleanup_job_outputs job_id s =
     ((fst s)\<lparr>db_chunks := snd (delete_for_job job_id (db_chunks (fst s)))\<rparr>,
      cleanup_partial_result job_id (snd s))"

definition requeued_ids :: "ingestion_job list \<Rightarrow> uuid list" where
  "requeued_ids recovered = map j_id (filter (\<lambda>j. j_status j = IQueued) recovered)"

definition ingest_recover ::
  "settings \<Rightarrow> datetime \<Rightarrow> ingest_db \<Rightarrow> files \<Rightarrow> int \<times> ingest_db \<times> files" where
  "ingest_recover st now db fs =
     (let (recovered, db) = recover_tx st now db;
          (db, fs) = fold cleanup_job_outputs (requeued_ids recovered) (db, fs)
      in (int (length recovered), db, fs))"


section \<open>Outputs and their paths\<close>

definition canonical_path :: "uuid \<Rightarrow> path" where
  "canonical_path i = [''ingestion'', uuid_str i, ''canonical.txt'']"

definition result_path :: "uuid \<Rightarrow> path" where
  "result_path i = [''ingestion'', uuid_str i, ''result.json'']"

lemma plain_output: "plain_path [''ingestion'', uuid_str i, ''canonical.txt'']"
  "plain_path [''ingestion'', uuid_str i, ''result.json'']"
  using uuid_str_plain by (simp_all add: plain_path_def)

lemma resolve_outputs [simp]:
  "resolve (canonical_key_for i) = Inr (canonical_path i)"
  "resolve (result_key_for i) = Inr (result_path i)"
  using resolve_as_posix [OF plain_output(1), of i] resolve_as_posix [OF plain_output(2), of i]
  by (simp_all add: canonical_key_for_def result_key_for_def canonical_path_def result_path_def as_posix_def)

text \<open>The paths the processing of a job may write.\<close>

definition own_path :: "uuid \<Rightarrow> path \<Rightarrow> bool" where
  "own_path i q \<longleftrightarrow> \<not> apart q (canonical_path i) \<or> \<not> apart q (result_path i) \<or>
     q \<in> {incoming_root @ [result_staging i], incoming_root @ [canonical_staging i], incoming_root @ [ingest_staging i]}"

lemmas output_path_defs = canonical_path_def result_path_def apart_def tmp_of_def sidecar_def add_suffix_def
  incoming_root_def

lemma outputs_not_own:
  assumes "uuid_ok i" and "uuid_ok k" and "i \<noteq> k"
  shows "\<not> own_path i (canonical_path k)" and "\<not> own_path i (result_path k)"
  using uuid_str_inj [OF assms(1,2)] assms(3) by (auto simp: own_path_def output_path_defs)

lemma outputs_own: "own_path i (canonical_path i)" "own_path i (result_path i)"
  by (simp_all add: own_path_def apart_def)

lemma submissions_not_own: "hd q = ''submissions'' \<Longrightarrow> \<not> own_path i q"
  by (auto simp: own_path_def output_path_defs)

lemma publish_text_read:
  assumes "publish_text now key staging ct text fs = (r, fs')" and "resolve key = Inr p"
    and "hd p \<noteq> ''.incoming''" and "p \<noteq> []"
  shows "(\<forall>k. r = Inr k \<longrightarrow> read_file fs' p = Some (utf8 text)) \<and>
    (apart q p \<and> q \<noteq> incoming_root @ [staging] \<longrightarrow> read_file fs' q = read_file fs q)"
proof -
  let ?src = "incoming_root @ [staging]"
  have src: "?src \<noteq> tmp_of p"
    using assms(3,4) by (cases p) (auto simp: incoming_root_def tmp_of_def add_suffix_def split: if_splits)
  show ?thesis
  proof (cases "creatable fs ?src")
    case False
    then show ?thesis using assms(1) by (auto simp: publish_text_def)
  next
    case True
    let ?w = "AList.update ?src \<lparr>f_bytes = utf8 text, f_mtime = now\<rparr> fs"
    obtain ok fs2 where m: "run_steps now (move_steps ?w ?src p ct) ?w = (ok, fs2)" by force
    have "r = fst (finish_put key (ok, fs2))" "fs' = fs2"
      using assms(1,2,4) True m
      by (simp_all add: publish_text_def put_from_path_def finish_put_def)
    then show ?thesis using move_steps_read [OF m src, of q] by (auto simp: finish_put_def)
  qed
qed

lemma publish_outputs_read:
  assumes "publish_outputs now i key att mx cv doc ds fs = (r, fs')"
  shows "(\<not> own_path i q \<longrightarrow> read_file fs' q = read_file fs q) \<and>
    (\<forall>res. r = Inr res \<longrightarrow> ir_chunks res = ds \<and> ir_result_key res = result_key_for i \<and>
      read_file fs' (canonical_path i) = Some (utf8 (cd_text doc)) \<and>
      read_file fs' (result_path i) = Some (utf8 (json_spaced (JObj (manifest_payload i key cv mx att doc ds)))))"
proof -
  obtain r1 fs1 where p1: "publish_text now (canonical_key_for i) (canonical_staging i)
      ''text/plain; charset=utf-8'' (cd_text doc) fs = (r1, fs1)" by force
  have c: "hd (canonical_path i) \<noteq> ''.incoming''" "canonical_path i \<noteq> []"
    "hd (result_path i) \<noteq> ''.incoming''" "result_path i \<noteq> []"
    by (simp_all add: canonical_path_def result_path_def)
  note t1 = publish_text_read [OF p1 resolve_outputs(1) c(1,2)]
  show ?thesis
  proof (cases r1)
    case (Inl e)
    then show ?thesis using assms p1 t1 [of q] by (auto simp: publish_outputs_def own_path_def)
  next
    case (Inr k)
    obtain r2 fs2 where p2: "publish_text now (result_key_for i) (result_staging i) ''application/json''
        (json_spaced (JObj (manifest_payload i key cv mx att doc ds))) fs1 = (r2, fs2)" by force
    note t2 = publish_text_read [OF p2 resolve_outputs(2) c(3,4)]
    have "apart (canonical_path i) (result_path i)" "canonical_path i \<noteq> incoming_root @ [result_staging i]"
      by (simp_all add: output_path_defs)
    with t1 [of q] t2 [of q] t2 [of "canonical_path i"] Inr assms p1 p2 show ?thesis
      by (cases r2) (auto simp: publish_outputs_def own_path_def)
  qed
qed

lemma delete_outputs [simp]:
  "snd (delete_blob (canonical_key_for i) fs) = remove_file (canonical_path i) fs"
  "snd (delete_blob (result_key_for i) fs) = remove_file (result_path i) fs"
  by (simp_all add: delete_blob_def canonical_path_def result_path_def)

lemma cleanup_frame: "\<not> own_path i q \<Longrightarrow> read_file (cleanup_partial_result i fs) q = read_file fs q"
  by (simp add: cleanup_partial_result_def own_path_def remove_file_def apart_def)

lemma cleanup_removes:
  "read_file (cleanup_partial_result i fs) (canonical_path i) = None"
  "read_file (cleanup_partial_result i fs) (result_path i) = None"
  by (simp_all add: cleanup_partial_result_def remove_file_def)

section \<open>Interleaving\<close>

datatype phase =
    PIdle
  | PClaimed ingestion_job
  | PResult ingestion_job ingest_result
  | PError ingestion_job ingest_error
  | PCleanup uuid
  | PRecover "uuid list"
  | PRecoverRows uuid "uuid list"

text \<open>
  \<open>ActTorn\<close> is a crash in the middle of the processing: the tree may have changed anywhere on the
  job's own paths. \<open>ActEnqueue\<close> and \<open>ActUpload\<close> are done by the application, not by a worker.
\<close>

datatype action =
    ActClaim datetime
  | ActProcess real
  | ActCommit datetime "nat \<Rightarrow> uuid"
  | ActPersistCrash datetime "nat \<Rightarrow> uuid"
  | ActCleanup
  | ActRecover datetime
  | ActCrash
  | ActTorn files
  | ActEnqueue datetime uuid uuid string
  | ActUpload path "string option" real

record isys =
  is_db :: ingest_db
  is_files :: files
  is_phase :: "worker_id \<Rightarrow> phase"

definition goto_phase :: "worker_id \<Rightarrow> phase \<Rightarrow> isys \<Rightarrow> isys" where
  "goto_phase w ph s = s\<lparr>is_phase := (is_phase s)(w := ph)\<rparr>"

definition no_counters :: counters where
  "no_counters = \<lparr>n_claims = 0, n_succeeded = 0, n_failed = 0, n_retried = 0\<rparr>"

definition same_elsewhere :: "uuid \<Rightarrow> files \<Rightarrow> files \<Rightarrow> bool" where
  "same_elsewhere i fs fs' \<longleftrightarrow>
     list_all (\<lambda>q. own_path i q \<or> read_file fs' q = read_file fs q) (map fst fs @ map fst fs')"

definition act_idle :: "settings \<Rightarrow> worker_id \<Rightarrow> action \<Rightarrow> isys \<Rightarrow> isys option" where
  "act_idle st w a s =
     (case a of
        ActClaim now \<Rightarrow>
          (let (c, jobs) = claim_next_job now w (db_jobs (is_db s));
               s = s\<lparr>is_db := (is_db s)\<lparr>db_jobs := jobs\<rparr>\<rparr>
           in Some (goto_phase w (case c of None \<Rightarrow> PIdle | Some j \<Rightarrow> PClaimed j) s))
      | ActRecover now \<Rightarrow>
          (let (recovered, db) = recover_tx st now (is_db s)
           in Some (goto_phase w (PRecover (requeued_ids recovered)) (s\<lparr>is_db := db\<rparr>)))
      | _ \<Rightarrow> None)"

definition act_claimed :: "codec \<Rightarrow> settings \<Rightarrow> worker_id \<Rightarrow> ingestion_job \<Rightarrow> action \<Rightarrow> isys \<Rightarrow> isys option" where
  "act_claimed co st w j a s =
     (case a of
        ActProcess now \<Rightarrow>
          (let (r, fs) = process_claimed co st now j (is_files s)
           in Some (goto_phase w (case r of Inl e \<Rightarrow> PError j e | Inr res \<Rightarrow> PResult j res) (s\<lparr>is_files := fs\<rparr>)))
      | ActTorn fs \<Rightarrow>
          if same_elsewhere (j_id j) (is_files s) fs then Some (goto_phase w PIdle (s\<lparr>is_files := fs\<rparr>)) else None
      | _ \<Rightarrow> None)"

definition act_result :: "worker_id \<Rightarrow> ingestion_job \<Rightarrow> ingest_result \<Rightarrow> action \<Rightarrow> isys \<Rightarrow> isys option" where
  "act_result w j res a s =
     (case a of
        ActCommit now fresh \<Rightarrow>
          (case commit_success now fresh w j res (is_db s) of
             Inl e \<Rightarrow> Some (goto_phase w PIdle s)
           | Inr (done, db) \<Rightarrow> Some (goto_phase w PIdle (s\<lparr>is_db := db\<rparr>)))
      | ActPersistCrash now fresh \<Rightarrow>
          Some (goto_phase w PIdle (s\<lparr>is_db := persist_chunks_only now fresh j res (is_db s)\<rparr>))
      | _ \<Rightarrow> None)"

text \<open>The remaining phases: commit of an error, and the clean-ups.\<close>

definition act_after :: "settings \<Rightarrow> worker_id \<Rightarrow> action \<Rightarrow> isys \<Rightarrow> isys option" where
  "act_after st w a s =
     (case (is_phase s w, a) of
        (PError j e, ActCommit now fresh) \<Rightarrow>
          Some (goto_phase w (PCleanup (j_id j))
            (s\<lparr>is_db := fst (commit_error st now w j e (is_db s, no_counters))\<rparr>))
      | (PCleanup i, ActCleanup) \<Rightarrow>
          Some (goto_phase w PIdle (s\<lparr>is_files := cleanup_partial_result i (is_files s)\<rparr>))
      | (PRecover [], ActCleanup) \<Rightarrow> Some (goto_phase w PIdle s)
      | (PRecover (i # js), ActCleanup) \<Rightarrow>
          Some (goto_phase w (PRecoverRows i js) (s\<lparr>is_files := cleanup_partial_result i (is_files s)\<rparr>))
      | (PRecoverRows i js, ActCleanup) \<Rightarrow>
          Some (goto_phase w (PRecover js)
            (s\<lparr>is_db := (is_db s)\<lparr>db_chunks := snd (delete_for_job i (db_chunks (is_db s)))\<rparr>\<rparr>))
      | _ \<Rightarrow> None)"

definition act_app :: "action \<Rightarrow> isys \<Rightarrow> isys option" where
  "act_app a s =
     (case a of
        ActEnqueue now fresh sid key \<Rightarrow>
          if \<not> uuid_ok fresh then None
          else (case enqueue now fresh sid key (db_jobs (is_db s)) of
             Inl e \<Rightarrow> None
           | Inr (j, jobs) \<Rightarrow> Some (s\<lparr>is_db := (is_db s)\<lparr>db_jobs := jobs\<rparr>\<rparr>))
      | ActUpload p d now \<Rightarrow>
          if p = [] \<or> hd p \<noteq> ''submissions'' then None
          else Some (s\<lparr>is_files := (case d of None \<Rightarrow> AList.delete p (is_files s)
                 | Some b \<Rightarrow> AList.update p \<lparr>f_bytes = b, f_mtime = now\<rparr> (is_files s))\<rparr>)
      | _ \<Rightarrow> None)"

definition act :: "codec \<Rightarrow> settings \<Rightarrow> worker_id \<Rightarrow> action \<Rightarrow> isys \<Rightarrow> isys option" where
  "act co st w a s =
     (case a of
        ActEnqueue now fresh sid key \<Rightarrow> act_app a s
      | ActUpload p d now \<Rightarrow> act_app a s
      | ActCrash \<Rightarrow> Some (goto_phase w PIdle s)
      | _ \<Rightarrow>
          (case is_phase s w of
             PIdle \<Rightarrow> act_idle st w a s
           | PClaimed j \<Rightarrow> act_claimed co st w j a s
           | PResult j res \<Rightarrow> act_result w j res a s
           | _ \<Rightarrow> act_after st w a s))"

fun run_acts :: "codec \<Rightarrow> settings \<Rightarrow> (worker_id \<times> action) list \<Rightarrow> isys \<Rightarrow> isys option" where
  "run_acts co st [] s = Some s"
| "run_acts co st ((w, a) # acts) s =
     (case act co st w a s of None \<Rightarrow> None | Some s' \<Rightarrow> run_acts co st acts s')"

definition empty_isys :: isys where
  "empty_isys = \<lparr>is_db = \<lparr>db_jobs = [], db_chunks = []\<rparr>, is_files = [], is_phase = (\<lambda>w. PIdle)\<rparr>"


section \<open>Complete outputs\<close>

text \<open>
  The outputs of a job agree with each other: one canonical document whose text is the canonical
  blob, whose chunks are the chunk rows, and which the manifest describes.
\<close>

definition outputs_for :: "codec \<Rightarrow> ingestion_job \<Rightarrow> chunk_draft list \<Rightarrow> files \<Rightarrow> bool" where
  "outputs_for co j ds fs \<longleftrightarrow> (\<exists>text mx att doc. doc = normalize_to_canonical (co_sha co) text \<and>
     chunk_hybrid (co_sha co) mx doc = Inr ds \<and> 1 \<le> mx \<and>
     read_file fs (canonical_path (j_id j)) = Some (utf8 (cd_text doc)) \<and>
     read_file fs (result_path (j_id j)) = Some (utf8 (json_spaced (JObj
       (manifest_payload (j_id j) (j_artifact_key j) CHUNKER_VERSION mx att doc ds)))))"

definition job_chunks :: "uuid \<Rightarrow> chunk_row list \<Rightarrow> chunk_draft list" where
  "job_chunks i rows = map cw_draft (filter (\<lambda>r. cw_job_id r = i) rows)"

definition outputs_complete :: "codec \<Rightarrow> ingest_db \<Rightarrow> files \<Rightarrow> ingestion_job \<Rightarrow> bool" where
  "outputs_complete co db fs j \<longleftrightarrow> outputs_for co j (job_chunks (j_id j) (db_chunks db)) fs"

definition succeeded_complete :: "codec \<Rightarrow> isys \<Rightarrow> bool" where
  "succeeded_complete co s \<longleftrightarrow>
     (\<forall>j\<in>set (db_jobs (is_db s)). j_status j = ISucceeded \<longrightarrow> outputs_complete co (is_db s) (is_files s) j)"

lemma outputs_for_cong:
  assumes "read_file fs' (canonical_path (j_id j)) = read_file fs (canonical_path (j_id j))"
    and "read_file fs' (result_path (j_id j)) = read_file fs (result_path (j_id j))"
  shows "outputs_for co j ds fs' = outputs_for co j ds fs"
  by (simp add: outputs_for_def assms)

lemma process_claimed_effect:
  assumes "process_claimed co st now j fs = (r, fs')" and "1 \<le> ingestion_chunk_max_chars st"
  shows "(\<not> own_path (j_id j) q \<longrightarrow> read_file fs' q = read_file fs q) \<and>
    (\<forall>res. r = Inr res \<longrightarrow> outputs_for co j (ir_chunks res) fs' \<and> ir_result_key res = result_key_for (j_id j))"
proof (cases "parse_artifact co (j_artifact_key j) (j_attempt_count j) (ingestion_chunk_max_chars st) fs")
  case (Inl e)
  then show ?thesis using assms(1) by (auto simp: process_claimed_def process_artifact_def)
next
  case (Inr dd)
  obtain doc ds where dd: "dd = (doc, ds)" by force
  obtain body where body: "doc = normalize_to_canonical (co_sha co) body"
      "chunk_hybrid (co_sha co) (ingestion_chunk_max_chars st) doc = Inr ds"
    using Inr dd by (auto simp: parse_artifact_def Let_def split: sum.splits exn.splits if_splits option.splits)
  have p: "publish_outputs now (j_id j) (j_artifact_key j) (j_attempt_count j) (ingestion_chunk_max_chars st)
      CHUNKER_VERSION doc ds fs = (r, fs')"
    using assms(1) Inr dd by (simp add: process_claimed_def process_artifact_def)
  show ?thesis
    using publish_outputs_read [OF p, of q] body assms(2) by (auto simp: outputs_for_def)
qed

text \<open>The chunks of a processed job can be stored: the commit after a success never fails.\<close>

lemma commit_processed:
  assumes "outputs_for co j (ir_chunks res) fs" and "chunk_unique (db_chunks db)"
  shows "\<exists>done rows. commit_success now fresh w j res db =
      Inr (done, \<lparr>db_jobs = snd (succeed_job now (j_id j) w (ir_result_key res) (db_jobs db)), db_chunks = rows\<rparr>) \<and>
    job_chunks (j_id j) rows = ir_chunks res \<and> (\<forall>k. k \<noteq> j_id j \<longrightarrow> job_chunks k rows = job_chunks k (db_chunks db)) \<and>
    chunk_unique rows \<and> done = (fst (succeed_job now (j_id j) w (ir_result_key res) (db_jobs db)) \<noteq> None)"
proof -
  from assms(1) obtain body mx where h: "chunk_hybrid (co_sha co) mx (normalize_to_canonical (co_sha co) body) = Inr (ir_chunks res)"
      "1 \<le> mx" unfolding outputs_for_def by blast
  let ?s = "cd_text (normalize_to_canonical (co_sha co) text)"
  note ok = chunk_hybrid_lines [OF h]
  obtain new rows where r: "replace_for_job now fresh (j_id j) (j_submission_id j) (j_artifact_key j)
      (ir_parser_version res) (ir_chunker_version res) (ir_chunks res) (db_chunks db) = Inr (new, rows)"
    using hybrid_chunks_storable [OF ok assms(2)] by blast
  from replaced_chunks [OF r] r show ?thesis
    by (auto simp: commit_success_def job_chunks_def split_def Let_def)
qed


text \<open>
  In a tidy tree no publication of an output can fail: staging files are directly below
  the staging root and outputs are at depth three.
\<close>

definition tidy_path :: "path \<Rightarrow> bool" where
  "tidy_path p \<longleftrightarrow> p \<noteq> [] \<and> (hd p = ''.incoming'' \<longrightarrow> length p = 2) \<and> (hd p = ''ingestion'' \<longrightarrow> length p = 3)"

definition tidy_tree :: "files \<Rightarrow> bool" where
  "tidy_tree fs \<longleftrightarrow> (\<forall>p\<in>set (map fst fs). tidy_path p)"

definition tidy_target :: "path \<Rightarrow> bool" where
  "tidy_target p \<longleftrightarrow> tidy_path p \<and> (hd p = ''.incoming'' \<or> hd p = ''ingestion'')"

lemma tidy_creatable: "tidy_tree fs \<Longrightarrow> tidy_target p \<Longrightarrow> creatable fs p"
proof -
  assume t: "tidy_tree fs" "tidy_target p"
  have "\<not> strict_prefix p q \<and> \<not> strict_prefix q p" if "tidy_path q" for q
  proof -
    have "length p = length q" if "hd p = hd q"
      using t(2) \<open>tidy_path q\<close> that by (auto simp: tidy_target_def tidy_path_def)
    moreover have "hd p = hd q" if "strict_prefix p q \<or> strict_prefix q p"
      using that t(2) \<open>tidy_path q\<close>
      by (cases p; cases q) (auto simp: strict_prefix_def tidy_target_def tidy_path_def)
    ultimately show ?thesis using prefix_length_less [of p q] prefix_length_less [of q p] by auto
  qed
  then show ?thesis using t by (auto simp: creatable_def is_dir_def tidy_tree_def tidy_target_def tidy_path_def)
qed

lemma tidy_update: "tidy_tree fs \<Longrightarrow> tidy_path p \<Longrightarrow> tidy_tree (AList.update p f fs)"
  by (auto simp: tidy_tree_def update_keys image_iff dest!: arg_cong [of _ _ set] simp flip: set_map)

lemma tidy_delete: "tidy_tree fs \<Longrightarrow> tidy_tree (AList.delete p fs)"
  by (auto simp: tidy_tree_def delete_keys simp flip: set_map)

lemma tidy_run:
  assumes "tidy_tree fs" and "tidy_target p" and "tidy_target (tmp_of p)" and "tidy_target (sidecar p)"
    and "is_file fs src" and "src \<noteq> tmp_of p"
  shows "\<exists>fs'. run_steps now (move_steps fs src p ct) fs = (True, fs') \<and> tidy_tree fs'"
proof -
  have path: "tidy_path p" "tidy_path (tmp_of p)" "tidy_path (sidecar p)"
    using assms(2-4) by (simp_all add: tidy_target_def)
  let ?f1 = "if is_file fs (tmp_of p) then AList.delete (tmp_of p) fs else fs"
  have t1: "tidy_tree ?f1" and src: "is_file ?f1 src" using assms tidy_delete by auto
  then obtain f where f: "map_of ?f1 src = Some f" by (auto simp: is_file_def)
  let ?f2 = "AList.update (tmp_of p) f (AList.delete src ?f1)"
  have t2: "tidy_tree ?f2" by (intro tidy_update tidy_delete t1 path)
  let ?f3 = "AList.update p f (AList.delete (tmp_of p) ?f2)"
  have t3: "tidy_tree ?f3" by (intro tidy_update tidy_delete t2 path)
  have c: "creatable ?f1 (tmp_of p)" "creatable ?f2 p" "creatable ?f3 (sidecar p)"
    using tidy_creatable t1 t2 t3 assms(2-4) by blast+
  have m: "map_of ?f2 (tmp_of p) = Some f" by (simp add: update_conv')
  have "run_steps now [Rename src (tmp_of p), Rename (tmp_of p) p, WriteFile (sidecar p) d] ?f1 =
      (True, AList.update (sidecar p) \<lparr>f_bytes = d, f_mtime = now\<rparr> ?f3)" for d
    using f m c by (simp del: update_conv')
  moreover have "run_steps now (move_steps fs src p ct) fs =
      run_steps now [Rename src (tmp_of p), Rename (tmp_of p) p,
        WriteFile (sidecar p) (if ct = [] then ''application/octet-stream'' else ct)] ?f1"
    by (simp add: move_steps_def)
  ultimately show ?thesis using tidy_update [OF t3 path(3)] by simp
qed

lemma tidy_outputs:
  "tidy_target (canonical_path i)" "tidy_target (tmp_of (canonical_path i))" "tidy_target (sidecar (canonical_path i))"
  "tidy_target (result_path i)" "tidy_target (tmp_of (result_path i))" "tidy_target (sidecar (result_path i))"
  by (simp_all add: tidy_target_def tidy_path_def output_path_defs)

lemma publish_text_succeeds:
  assumes "tidy_tree fs" and "resolve key = Inr p" and "hd p = ''ingestion''"
    and "tidy_target p" and "tidy_target (tmp_of p)" and "tidy_target (sidecar p)"
  shows "\<exists>fs'. publish_text now key nm ct body fs = (Inr key, fs') \<and> tidy_tree fs'"
proof -
  let ?src = "incoming_root @ [nm]"
  have s: "tidy_target ?src" by (simp add: tidy_target_def tidy_path_def incoming_root_def)
  have ne: "p \<noteq> []" using assms(4) by (simp add: tidy_target_def tidy_path_def)
  then have src: "?src \<noteq> tmp_of p"
    using assms(3) by (cases p) (auto simp: incoming_root_def tmp_of_def add_suffix_def split: if_splits)
  let ?w = "AList.update ?src \<lparr>f_bytes = utf8 body, f_mtime = now\<rparr> fs"
  have "tidy_tree ?w" using tidy_update assms(1) s by (simp add: tidy_target_def)
  from tidy_run [OF this assms(4-6) _ src] obtain fs' where
    "run_steps now (move_steps ?w ?src p ct) ?w = (True, fs')" "tidy_tree fs'" by auto
  then show ?thesis
    using tidy_creatable [OF assms(1) s] assms(2) ne
    by (auto simp: publish_text_def put_from_path_def finish_put_def)
qed

text \<open>An artifact that parses is processed successfully.\<close>

lemma process_succeeds:
  assumes "parse_artifact co (j_artifact_key j) (j_attempt_count j) (ingestion_chunk_max_chars st) fs = Inr (doc, ds)"
    and "tidy_tree fs"
  shows "\<exists>res fs'. process_claimed co st now j fs = (Inr res, fs') \<and> ir_chunks res = ds \<and> tidy_tree fs'"
proof -
  obtain fs1 where p1: "publish_text now (canonical_key_for (j_id j)) (canonical_staging (j_id j))
      ''text/plain; charset=utf-8'' (cd_text doc) fs = (Inr (canonical_key_for (j_id j)), fs1)" "tidy_tree fs1"
    using publish_text_succeeds [OF assms(2) resolve_outputs(1) _ tidy_outputs(1-3)] canonical_path_def
    by (metis list.sel(1))
  obtain fs2 where p2: "publish_text now (result_key_for (j_id j)) (result_staging (j_id j)) ''application/json''
      (json_spaced (JObj (manifest_payload (j_id j) (j_artifact_key j) CHUNKER_VERSION (ingestion_chunk_max_chars st)
         (j_attempt_count j) doc ds))) fs1 = (Inr (result_key_for (j_id j)), fs2)" "tidy_tree fs2"
    using publish_text_succeeds [OF p1(2) resolve_outputs(2) _ tidy_outputs(4-6)] result_path_def
    by (metis list.sel(1))
  show ?thesis
    using assms(1) p1 p2 by (simp add: process_claimed_def process_artifact_def publish_outputs_def)
qed

section \<open>One worker\<close>

text \<open>
  The invariant with a single worker \<open>w\<close>: what it holds in each phase. A job that waits for
  clean-up has not succeeded.
\<close>

definition not_succeeded :: "uuid \<Rightarrow> ingestion_job list \<Rightarrow> bool" where
  "not_succeeded i jobs \<longleftrightarrow> uuid_ok i \<and> (\<forall>j\<in>set jobs. j_id j = i \<longrightarrow> j_status j \<noteq> ISucceeded) \<and> i \<in> j_id ` set jobs"

definition held_job :: "worker_id \<Rightarrow> ingestion_job \<Rightarrow> ingestion_job list \<Rightarrow> bool" where
  "held_job w j jobs \<longleftrightarrow> j \<in> set jobs \<and> j_status j = IRunning \<and> j_worker_id j = Some w"

fun phase_ok :: "codec \<Rightarrow> worker_id \<Rightarrow> phase \<Rightarrow> ingestion_job list \<Rightarrow> files \<Rightarrow> bool" where
  "phase_ok co w PIdle jobs fs = True"
| "phase_ok co w (PClaimed j) jobs fs = held_job w j jobs"
| "phase_ok co w (PResult j res) jobs fs =
     (held_job w j jobs \<and> outputs_for co j (ir_chunks res) fs \<and> ir_result_key res = result_key_for (j_id j))"
| "phase_ok co w (PError j e) jobs fs = held_job w j jobs"
| "phase_ok co w (PCleanup i) jobs fs = not_succeeded i jobs"
| "phase_ok co w (PRecover js) jobs fs = (\<forall>i\<in>set js. not_succeeded i jobs)"
| "phase_ok co w (PRecoverRows i js) jobs fs = (\<forall>k\<in>set (i # js). not_succeeded k jobs)"

definition isys_inv :: "codec \<Rightarrow> worker_id \<Rightarrow> isys \<Rightarrow> bool" where
  "isys_inv co w s \<longleftrightarrow> job_ids_unique (db_jobs (is_db s)) \<and> (\<forall>j\<in>set (db_jobs (is_db s)). uuid_ok (j_id j)) \<and>
     chunk_unique (db_chunks (is_db s)) \<and> succeeded_complete co s \<and>
     phase_ok co w (is_phase s w) (db_jobs (is_db s)) (is_files s)"

lemma job_chunks_delete [simp]:
  "job_chunks k (snd (delete_for_job i rows)) = (if k = i then [] else job_chunks k rows)"
proof -
  have "filter (\<lambda>r. cw_job_id r = k) (filter (\<lambda>r. cw_job_id r \<noteq> i) rows) =
      (if k = i then [] else filter (\<lambda>r. cw_job_id r = k) rows)"
    by (induction rows) auto
  then show ?thesis by (simp add: job_chunks_def delete_for_job_def)
qed

lemma chunk_unique_delete [simp]: "chunk_unique rows \<Longrightarrow> chunk_unique (snd (delete_for_job i rows))"
  by (simp add: chunk_unique_def delete_for_job_def distinct_map_filter)

text \<open>When the succeeded jobs after a step were succeeded before, and their outputs are untouched.\<close>

lemma complete_mono:
  assumes "succeeded_complete co s"
    and "\<And>j. j \<in> set (db_jobs (is_db s')) \<Longrightarrow> j_status j = ISucceeded \<Longrightarrow> j \<in> set (db_jobs (is_db s)) \<and>
      job_chunks (j_id j) (db_chunks (is_db s')) = job_chunks (j_id j) (db_chunks (is_db s)) \<and>
      read_file (is_files s') (canonical_path (j_id j)) = read_file (is_files s) (canonical_path (j_id j)) \<and>
      read_file (is_files s') (result_path (j_id j)) = read_file (is_files s) (result_path (j_id j))"
  shows "succeeded_complete co s'"
  unfolding succeeded_complete_def outputs_complete_def
proof (intro ballI impI)
  fix j assume j: "j \<in> set (db_jobs (is_db s'))" "j_status j = ISucceeded"
  note k = assms(2) [OF j]
  have "outputs_for co j (job_chunks (j_id j) (db_chunks (is_db s))) (is_files s)"
    using assms(1) k j(2) by (simp add: succeeded_complete_def outputs_complete_def)
  then show "outputs_for co j (job_chunks (j_id j) (db_chunks (is_db s'))) (is_files s')"
    using k outputs_for_cong [of "is_files s'" j "is_files s"] by simp
qed

text \<open>Files that change on the own paths of one job that has not succeeded.\<close>

lemma complete_files:
  assumes "succeeded_complete co s" and "not_succeeded i (db_jobs (is_db s))"
    and "\<forall>j\<in>set (db_jobs (is_db s)). uuid_ok (j_id j)"
    and "\<And>q. \<not> own_path i q \<Longrightarrow> read_file fs q = read_file (is_files s) q"
    and "db_jobs (is_db s') = db_jobs (is_db s)" and "is_files s' = fs"
    and "\<And>k. k \<noteq> i \<Longrightarrow> job_chunks k (db_chunks (is_db s')) = job_chunks k (db_chunks (is_db s))"
  shows "succeeded_complete co s'"
proof (rule complete_mono [OF assms(1)])
  fix j assume j: "j \<in> set (db_jobs (is_db s'))" "j_status j = ISucceeded"
  then have ne: "j_id j \<noteq> i" using assms(2,5) by (auto simp: not_succeeded_def)
  have "uuid_ok i" "uuid_ok (j_id j)" using assms(2,3,5) j by (auto simp: not_succeeded_def)
  with ne have "\<not> own_path i (canonical_path (j_id j))" "\<not> own_path i (result_path (j_id j))"
    using outputs_not_own by metis+
  then show "j \<in> set (db_jobs (is_db s)) \<and>
      job_chunks (j_id j) (db_chunks (is_db s')) = job_chunks (j_id j) (db_chunks (is_db s)) \<and>
      read_file (is_files s') (canonical_path (j_id j)) = read_file (is_files s) (canonical_path (j_id j)) \<and>
      read_file (is_files s') (result_path (j_id j)) = read_file (is_files s) (result_path (j_id j))"
    using assms(4,5,6,7) j ne by simp
qed

lemma held_not_succeeded:
  assumes "held_job w j jobs" and "job_ids_unique jobs" and "\<forall>j\<in>set jobs. uuid_ok (j_id j)"
  shows "not_succeeded (j_id j) jobs"
proof -
  have "x = j" if "x \<in> set jobs" "j_id x = j_id j" for x
    using assms(1,2) that by (auto simp: job_ids_unique_def held_job_def intro: distinct_key_eq)
  moreover have "j \<in> set jobs" "j_status j = IRunning" using assms(1) by (simp_all add: held_job_def)
  ultimately show ?thesis using assms(3) unfolding not_succeeded_def
    by (metis image_eqI ingestion_status.distinct(7))
qed

lemma held_owned:
  assumes "held_job w j jobs" and "job_ids_unique jobs" and "x \<in> set jobs"
  shows "owned_job (j_id j) w x \<longleftrightarrow> x = j"
proof
  assume "owned_job (j_id j) w x"
  then have "j_id x = j_id j" by (simp add: owned_job_def)
  then show "x = j" using assms by (auto simp: job_ids_unique_def held_job_def intro: distinct_key_eq)
qed (use assms(1) in \<open>simp add: held_job_def owned_job_def\<close>)

lemma goto_phase_sel [simp]:
  "is_db (goto_phase w ph s) = is_db s" "is_files (goto_phase w ph s) = is_files s"
  "is_phase (goto_phase w ph s) = (is_phase s)(w := ph)"
  by (simp_all add: goto_phase_def)

lemma complete_goto [simp]: "succeeded_complete co (goto_phase w ph s) = succeeded_complete co s"
  by (simp add: succeeded_complete_def outputs_complete_def)

lemma inv_goto_idle: "isys_inv co w s \<Longrightarrow> isys_inv co w (goto_phase w PIdle s)"
  by (simp add: isys_inv_def)

lemma claim_set:
  assumes "claim_next_job now w jobs = (Some c, jobs')" and "job_ids_unique jobs"
  shows "job_ids_unique jobs' \<and> held_job w c jobs' \<and> j_id ` set jobs' = j_id ` set jobs \<and>
    (\<forall>x\<in>set jobs'. j_status x = ISucceeded \<longrightarrow> x \<in> set jobs)"
proof -
  from claim_job_spec [OF assms(1)] obtain j where j: "j \<in> set jobs" "c = claim_job now w j"
      "jobs' = update_where (\<lambda>x. j_id x = j_id j) (claim_job now w) jobs" by auto
  have "job_ids_unique jobs'" using assms(2) by (simp add: j(3) job_ids_unique_def map_update_where)
  moreover have "j_id ` set jobs' = j_id ` set jobs"
  proof -
    have "map j_id jobs' = map j_id jobs" by (simp add: j(3) map_update_where)
    then show ?thesis by (metis set_map)
  qed
  ultimately show ?thesis
    using j by (auto simp: held_job_def set_update_where claim_job_def)
qed

lemma act_idle_inv:
  assumes "act_idle st w a s = Some s'" and "isys_inv co w s"
  shows "isys_inv co w s'"
proof (cases a)
  case (ActClaim now)
  obtain c jobs where cl: "claim_next_job now w (db_jobs (is_db s)) = (c, jobs)" by force
  show ?thesis
  proof (cases c)
    case None
    then have "jobs = db_jobs (is_db s)" using claim_job_spec [OF cl] by simp
    then have "s' = goto_phase w PIdle s" using assms(1) ActClaim cl None by (simp add: act_idle_def)
    then show ?thesis using assms(2) inv_goto_idle by simp
  next
    case (Some j)
    have u: "job_ids_unique (db_jobs (is_db s))" using assms(2) by (simp add: isys_inv_def)
    note cs = claim_set [OF cl [unfolded Some] u]
    have s': "s' = goto_phase w (PClaimed j) (s\<lparr>is_db := (is_db s)\<lparr>db_jobs := jobs\<rparr>\<rparr>)"
      using assms(1) ActClaim cl Some by (simp add: act_idle_def)
    have "succeeded_complete co (s\<lparr>is_db := (is_db s)\<lparr>db_jobs := jobs\<rparr>\<rparr>)"
      by (rule complete_mono [of co s]) (use assms(2) cs in \<open>auto simp: isys_inv_def\<close>)
    moreover have "\<forall>x\<in>set jobs. uuid_ok (j_id x)"
    proof
      fix x assume "x \<in> set jobs"
      then have "j_id x \<in> j_id ` set (db_jobs (is_db s))" using cs by blast
      then show "uuid_ok (j_id x)" using assms(2) by (auto simp: isys_inv_def)
    qed
    ultimately show ?thesis using assms(2) cs by (simp add: s' isys_inv_def)
  qed
next
  case (ActRecover now)
  let ?before = "now - ingestion_stale_after_seconds st * 1000000" and ?mx = "ingestion_max_attempts st"
  let ?old = "db_jobs (is_db s)"
  let ?jobs = "update_where (stale_job ?before) (recover_job now ?mx) ?old"
  let ?rec = "fst (recover_stale_jobs now ?before ?mx ?old)"
  have s': "s' = goto_phase w (PRecover (requeued_ids ?rec)) (s\<lparr>is_db := (is_db s)\<lparr>db_jobs := ?jobs\<rparr>\<rparr>)"
    using assms(1) ActRecover by (simp add: act_idle_def recover_tx_def recover_stale_jobs_def)
  have u: "job_ids_unique ?old" "\<forall>j\<in>set ?old. uuid_ok (j_id j)" using assms(2) by (simp_all add: isys_inv_def)
  have ids: "map j_id ?jobs = map j_id ?old" by (simp add: map_update_where)
  have keep: "x \<in> set ?old" if "x \<in> set ?jobs" "j_status x = ISucceeded" for x
  proof -
    from that(1) obtain y where y: "y \<in> set ?old" "x = (if stale_job ?before y then recover_job now ?mx y else y)"
      by (auto simp: set_update_where)
    have "j_status (recover_job now ?mx y) \<noteq> ISucceeded" by (simp add: recover_job_def)
    with y that(2) show ?thesis by (cases "stale_job ?before y") simp_all
  qed
  have "succeeded_complete co (s\<lparr>is_db := (is_db s)\<lparr>db_jobs := ?jobs\<rparr>\<rparr>)"
    by (rule complete_mono [of co s]) (use assms(2) keep in \<open>auto simp: isys_inv_def\<close>)
  moreover have "job_ids_unique ?jobs" using u(1) by (simp add: job_ids_unique_def ids)
  moreover have "\<forall>j\<in>set ?jobs. uuid_ok (j_id j)" using u(2) ids by (metis (no_types, lifting) image_iff set_map)
  moreover have "not_succeeded i ?jobs" if "i \<in> set (requeued_ids ?rec)" for i
  proof -
    from that obtain j where j: "j \<in> set ?old" "stale_job ?before j" "i = j_id j"
      by (auto simp: requeued_ids_def recover_stale_jobs_def)
    have "x = j" if "x \<in> set ?old" "j_id x = j_id j" for x
      using u(1) j(1) that by (auto simp: job_ids_unique_def intro: distinct_key_eq)
    then have "x = j" if "x \<in> set ?jobs" "j_id x = i" "j_status x = ISucceeded" for x
      using keep [OF that(1,3)] that(2) j(3) by simp
    then have "j_status x \<noteq> ISucceeded" if "x \<in> set ?jobs" "j_id x = i" for x
      using that j(2) by (metis ingestion_status.distinct(7) stale_job_def)
    moreover have "i \<in> j_id ` set ?jobs" using j ids by (metis image_eqI image_set)
    ultimately show ?thesis using j(1,3) u(2) by (simp add: not_succeeded_def)
  qed
  ultimately show ?thesis using assms(2) by (simp add: s' isys_inv_def)
qed (use assms(1) in \<open>simp_all add: act_idle_def\<close>)


lemma act_claimed_inv:
  assumes "act_claimed co st w j a s = Some s'" and "isys_inv co w s" and "is_phase s w = PClaimed j"
    and "1 \<le> ingestion_chunk_max_chars st"
  shows "isys_inv co w s'"
proof -
  have h: "held_job w j (db_jobs (is_db s))" and u: "job_ids_unique (db_jobs (is_db s))"
    and ok: "\<forall>j\<in>set (db_jobs (is_db s)). uuid_ok (j_id j)" and sc: "succeeded_complete co s"
    using assms(2,3) by (simp_all add: isys_inv_def)
  note n = held_not_succeeded [OF h u ok]
  show ?thesis
  proof (cases a)
    case (ActProcess now)
    obtain r fs where p: "process_claimed co st now j (is_files s) = (r, fs)" by force
    note e = process_claimed_effect [OF p assms(4)]
    have s': "s' = goto_phase w (case r of Inl e \<Rightarrow> PError j e | Inr res \<Rightarrow> PResult j res) (s\<lparr>is_files := fs\<rparr>)"
      using assms(1) ActProcess p by (simp add: act_claimed_def)
    have "succeeded_complete co (s\<lparr>is_files := fs\<rparr>)"
      by (rule complete_files [OF sc n ok, of fs]) (use e in simp_all)
    then show ?thesis
      using assms(2) h e by (cases r) (simp_all add: s' isys_inv_def)
  next
    case (ActTorn fs)
    then have same: "same_elsewhere (j_id j) (is_files s) fs" and s': "s' = goto_phase w PIdle (s\<lparr>is_files := fs\<rparr>)"
      using assms(1) by (auto simp: act_claimed_def split: if_splits)
    have "read_file fs q = read_file (is_files s) q" if "\<not> own_path (j_id j) q" for q
    proof (cases "q \<in> set (map fst (is_files s) @ map fst fs)")
      case True
      then show ?thesis using same that by (auto simp: same_elsewhere_def list_all_iff)
    next
      case False
      then have "map_of fs q = None" "map_of (is_files s) q = None" by (simp_all add: map_of_eq_None_iff)
      then show ?thesis by (simp add: read_file_def)
    qed
    then have "succeeded_complete co (s\<lparr>is_files := fs\<rparr>)"
      by (intro complete_files [OF sc n ok, of fs]) simp_all
    then show ?thesis using assms(2) by (simp add: s' isys_inv_def)
  qed (use assms(1) in \<open>simp_all add: act_claimed_def\<close>)
qed

lemma succeed_set:
  assumes "held_job w j jobs" and "job_ids_unique jobs" and "jobs' = snd (succeed_job now (j_id j) w key jobs)"
  shows "job_ids_unique jobs' \<and> j_id ` set jobs' = j_id ` set jobs \<and>
    (\<forall>x\<in>set jobs'. j_status x = ISucceeded \<longrightarrow> x \<in> set jobs \<and> j_id x \<noteq> j_id j \<or>
       j_id x = j_id j \<and> j_artifact_key x = j_artifact_key j)"
proof -
  define f where "f = (\<lambda>j :: ingestion_job. j\<lparr>j_status := ISucceeded, j_result_key := Some key, j_completed_at := Some now,
            j_updated_at := now, j_error_code := None, j_error_message := None\<rparr>)"
  have e: "jobs' = update_where (owned_job (j_id j) w) f jobs"
    using assms(3) by (simp add: succeed_job_def f_def update_returning_rows)
  have ids: "map j_id jobs' = map j_id jobs" by (simp add: e map_update_where f_def)
  have "x \<in> set jobs \<and> j_id x \<noteq> j_id j \<or> j_id x = j_id j \<and> j_artifact_key x = j_artifact_key j"
    if "x \<in> set jobs'" for x
  proof -
    from that obtain y where y: "y \<in> set jobs" "x = (if owned_job (j_id j) w y then f y else y)"
      by (auto simp: e set_update_where)
    show ?thesis
    proof (cases "y = j")
      case True
      then show ?thesis using y held_owned [OF assms(1,2) y(1)] by (simp add: f_def)
    next
      case False
      then have "j_id y \<noteq> j_id j"
        using assms(1,2) y(1) by (auto simp: job_ids_unique_def held_job_def intro: distinct_key_eq)
      then show ?thesis using y False held_owned [OF assms(1,2) y(1)] by simp
    qed
  qed
  moreover have "job_ids_unique jobs'" using assms(2) by (simp add: job_ids_unique_def ids)
  ultimately show ?thesis using ids by (metis set_map)
qed

lemma act_result_inv:
  assumes "act_result w j res a s = Some s'" and "isys_inv co w s" and "is_phase s w = PResult j res"
  shows "isys_inv co w s'"
proof -
  let ?jobs = "db_jobs (is_db s)"
  have h: "held_job w j ?jobs" and u: "job_ids_unique ?jobs" and ok: "\<forall>j\<in>set ?jobs. uuid_ok (j_id j)"
    and sc: "succeeded_complete co s" and o: "outputs_for co j (ir_chunks res) (is_files s)"
    and cu: "chunk_unique (db_chunks (is_db s))"
    using assms(2,3) by (simp_all add: isys_inv_def)
  note n = held_not_succeeded [OF h u ok]
  show ?thesis
  proof (cases a)
    case (ActCommit now fresh)
    from commit_processed [OF o cu, of now fresh w] obtain dn rows where c:
        "commit_success now fresh w j res (is_db s) = Inr (dn, \<lparr>db_jobs = snd (succeed_job now (j_id j) w (ir_result_key res) ?jobs), db_chunks = rows\<rparr>)"
        "job_chunks (j_id j) rows = ir_chunks res" "chunk_unique rows"
        "\<forall>k. k \<noteq> j_id j \<longrightarrow> job_chunks k rows = job_chunks k (db_chunks (is_db s))" by blast
    let ?db = "\<lparr>db_jobs = snd (succeed_job now (j_id j) w (ir_result_key res) ?jobs), db_chunks = rows\<rparr>"
    note ss = succeed_set [OF h u refl, of now "ir_result_key res"]
    have s': "s' = goto_phase w PIdle (s\<lparr>is_db := ?db\<rparr>)" using assms(1) ActCommit c(1) by (simp add: act_result_def)
    have "outputs_complete co ?db (is_files s) x" if "x \<in> set (db_jobs ?db)" "j_status x = ISucceeded" for x
    proof (cases "j_id x = j_id j")
      case True
      moreover have "j_artifact_key x = j_artifact_key j" using ss that True by auto
      ultimately show ?thesis using o c(2) by (simp add: outputs_complete_def outputs_for_def)
    next
      case False
      then have "x \<in> set ?jobs" using ss that by auto
      then show ?thesis using sc that False c(4) by (simp add: succeeded_complete_def outputs_complete_def)
    qed
    then have "succeeded_complete co (s\<lparr>is_db := ?db\<rparr>)" by (simp add: succeeded_complete_def)
    moreover have "\<forall>x\<in>set (db_jobs ?db). uuid_ok (j_id x)"
    proof
      fix x assume "x \<in> set (db_jobs ?db)"
      then have "j_id x \<in> j_id ` set ?jobs" using ss by auto
      then show "uuid_ok (j_id x)" using ok by auto
    qed
    ultimately show ?thesis using ss c(3) by (simp add: s' isys_inv_def)
  next
    case (ActPersistCrash now fresh)
    from commit_processed [OF o cu, of now fresh w] obtain dn rows where c:
        "commit_success now fresh w j res (is_db s) = Inr (dn, \<lparr>db_jobs = snd (succeed_job now (j_id j) w (ir_result_key res) ?jobs), db_chunks = rows\<rparr>)"
        "chunk_unique rows" "\<forall>k. k \<noteq> j_id j \<longrightarrow> job_chunks k rows = job_chunks k (db_chunks (is_db s))" by blast
    then have "persist_chunks_only now fresh j res (is_db s) = (is_db s)\<lparr>db_chunks := rows\<rparr>"
      by (auto simp: commit_success_def persist_chunks_only_def Let_def split_def split: sum.splits)
    then have s': "s' = goto_phase w PIdle (s\<lparr>is_db := (is_db s)\<lparr>db_chunks := rows\<rparr>\<rparr>)"
      using assms(1) ActPersistCrash by (simp add: act_result_def)
    have "succeeded_complete co (s\<lparr>is_db := (is_db s)\<lparr>db_chunks := rows\<rparr>\<rparr>)"
      by (rule complete_files [OF sc n ok, of "is_files s"]) (use c in simp_all)
    then show ?thesis using assms(2) c by (simp add: s' isys_inv_def)
  qed (use assms(1) in \<open>simp_all add: act_result_def\<close>)
qed

text \<open>The commit of an error: chunk rows of the job are gone, and it has not succeeded.\<close>

lemma guarded_not_succeeded:
  assumes "update_returning (owned_job i w) f jobs = (r, jobs')" and "\<And>x. j_id (f x) = j_id x"
    and "\<And>x. j_status (f x) \<noteq> ISucceeded"
  shows "map j_id jobs' = map j_id jobs \<and> (\<forall>x\<in>set jobs'. j_status x = ISucceeded \<longrightarrow> x \<in> set jobs)"
  using update_returning_snd [OF assms(1)] assms(2,3) by (auto simp: map_update_where set_update_where)

lemma commit_error_effect:
  assumes "fst (commit_error st now w j e (db, n)) = db'"
  shows "db_chunks db' = snd (delete_for_job (j_id j) (db_chunks db)) \<and>
    map j_id (db_jobs db') = map j_id (db_jobs db) \<and>
    (\<forall>x\<in>set (db_jobs db'). j_status x = ISucceeded \<longrightarrow> x \<in> set (db_jobs db))"
proof -
  have f: "map j_id (snd (fail_job now (j_id j) w c m jobs)) = map j_id jobs \<and>
      (\<forall>x\<in>set (snd (fail_job now (j_id j) w c m jobs)). j_status x = ISucceeded \<longrightarrow> x \<in> set jobs)" for c m jobs
    unfolding fail_job_def by (rule guarded_not_succeeded [OF surjective_pairing]) simp_all
  have r: "map j_id (snd (retry_job now (j_id j) w c m dl jobs)) = map j_id jobs \<and>
      (\<forall>x\<in>set (snd (retry_job now (j_id j) w c m dl jobs)). j_status x = ISucceeded \<longrightarrow> x \<in> set jobs)" for c m dl jobs
    unfolding retry_job_def by (rule guarded_not_succeeded [OF surjective_pairing]) simp_all
  define P where "P = (\<lambda>db' :: ingest_db. db_chunks db' = snd (delete_for_job (j_id j) (db_chunks db)) \<and>
    map j_id (db_jobs db') = map j_id (db_jobs db) \<and>
    (\<forall>x\<in>set (db_jobs db'). j_status x = ISucceeded \<longrightarrow> x \<in> set (db_jobs db)))"
  have F: "P (commit_failed now w j c m db)" for c m
    unfolding P_def commit_failed_def using f [of c m "db_jobs db"] by (intro conjI) simp_all
  have R: "P (commit_retry now w j c m dl db)" for c m dl
    unfolding P_def commit_retry_def using r [of c m dl "db_jobs db"] by (intro conjI) simp_all
  have "P (fst (commit_error st now w j e (db, n)))"
    by (cases e) (simp_all add: commit_error_def Let_def F R)
  then show ?thesis unfolding assms P_def .
qed

lemma not_succeeded_mono:
  assumes "not_succeeded i jobs" and "j_id ` set jobs \<subseteq> j_id ` set jobs'"
    and "\<forall>x\<in>set jobs'. j_status x = ISucceeded \<longrightarrow> x \<in> set jobs"
  shows "not_succeeded i jobs'"
  using assms unfolding not_succeeded_def by blast

lemma complete_rows:
  assumes "succeeded_complete co s" and "\<forall>x\<in>set (db_jobs db). j_status x = ISucceeded \<longrightarrow> x \<in> set (db_jobs (is_db s))"
    and "not_succeeded i (db_jobs (is_db s))" and "db_chunks db = snd (delete_for_job i (db_chunks (is_db s)))"
  shows "succeeded_complete co (s\<lparr>is_db := db\<rparr>)"
  by (rule complete_mono [OF assms(1)]) (use assms(2-4) in \<open>auto simp: not_succeeded_def\<close>)

lemma act_after_inv:
  assumes "act_after st w a s = Some s'" and "isys_inv co w s"
  shows "isys_inv co w s'"
proof -
  let ?jobs = "db_jobs (is_db s)"
  have u: "job_ids_unique ?jobs" and ok: "\<forall>j\<in>set ?jobs. uuid_ok (j_id j)"
    and sc: "succeeded_complete co s" and cu: "chunk_unique (db_chunks (is_db s))"
    and ph: "phase_ok co w (is_phase s w) ?jobs (is_files s)"
    using assms(2) by (simp_all add: isys_inv_def)
  have files: "succeeded_complete co (s\<lparr>is_files := cleanup_partial_result i (is_files s)\<rparr>)"
    if "not_succeeded i ?jobs" for i
    by (rule complete_files [OF sc that ok, of "cleanup_partial_result i (is_files s)"])
      (simp_all add: cleanup_frame)
  show ?thesis
  proof (cases "is_phase s w")
    case (PError j e)
    then obtain now fresh where a: "a = ActCommit now fresh"
      using assms(1) by (cases a) (simp_all add: act_after_def)
    define db where "db = fst (commit_error st now w j e (is_db s, no_counters))"
    note ce = commit_error_effect [OF db_def [symmetric]]
    have s': "s' = goto_phase w (PCleanup (j_id j)) (s\<lparr>is_db := db\<rparr>)"
      using assms(1) PError a by (simp add: act_after_def db_def)
    have n: "not_succeeded (j_id j) ?jobs" using held_not_succeeded [OF _ u ok] ph PError by simp
    have ids: "j_id ` set (db_jobs db) = j_id ` set ?jobs" using ce by (metis set_map)
    have "succeeded_complete co (s\<lparr>is_db := db\<rparr>)" using complete_rows [OF sc _ n] ce by blast
    moreover have "not_succeeded (j_id j) (db_jobs db)" using not_succeeded_mono [OF n] ids ce by blast
    moreover have "job_ids_unique (db_jobs db)" using u ce by (simp add: job_ids_unique_def)
    moreover have "\<forall>x\<in>set (db_jobs db). uuid_ok (j_id x)" using ok ids by (metis (no_types, lifting) image_iff)
    ultimately show ?thesis using cu ce by (simp add: s' isys_inv_def)
  next
    case (PCleanup i)
    then have s': "s' = goto_phase w PIdle (s\<lparr>is_files := cleanup_partial_result i (is_files s)\<rparr>)"
      using assms(1) by (cases a) (simp_all add: act_after_def)
    then show ?thesis using files [of i] ph PCleanup u ok cu by (simp add: isys_inv_def)
  next
    case (PRecover js)
    then have a: "a = ActCleanup" using assms(1) by (cases a; cases js) (simp_all add: act_after_def)
    show ?thesis
    proof (cases js)
      case Nil
      then have "s' = goto_phase w PIdle s" using assms(1) PRecover a by (simp add: act_after_def)
      then show ?thesis using inv_goto_idle [OF assms(2)] by simp
    next
      case (Cons i js')
      then have "s' = goto_phase w (PRecoverRows i js') (s\<lparr>is_files := cleanup_partial_result i (is_files s)\<rparr>)"
        using assms(1) PRecover a by (simp add: act_after_def)
      then show ?thesis using files [of i] ph PRecover Cons u ok cu by (simp add: isys_inv_def)
    qed
  next
    case (PRecoverRows i js)
    then have s': "s' = goto_phase w (PRecover js)
        (s\<lparr>is_db := (is_db s)\<lparr>db_chunks := snd (delete_for_job i (db_chunks (is_db s)))\<rparr>\<rparr>)"
      using assms(1) by (cases a) (simp_all add: act_after_def)
    have "succeeded_complete co (s\<lparr>is_db := (is_db s)\<lparr>db_chunks := snd (delete_for_job i (db_chunks (is_db s)))\<rparr>\<rparr>)"
      by (rule complete_rows [OF sc, of _ i]) (use ph PRecoverRows in simp_all)
    then show ?thesis using ph PRecoverRows u ok cu by (simp add: s' isys_inv_def)
  qed (use assms(1) in \<open>cases a; simp add: act_after_def\<close>)+
qed


lemma act_app_inv:
  assumes "act_app a s = Some s'" and "isys_inv co w s"
  shows "isys_inv co w s'"
proof (cases a)
  case (ActEnqueue now fresh sid key)
  obtain r where e: "enqueue now fresh sid key (db_jobs (is_db s)) = Inr r"
    using assms(1) ActEnqueue by (auto simp: act_app_def split: if_splits sum.splits)
  then have r: "j_id (fst r) = fresh" "j_status (fst r) = IQueued" "snd r = db_jobs (is_db s) @ [fst r]"
      "fresh \<notin> j_id ` set (db_jobs (is_db s))"
    by (auto simp: enqueue_def Let_def split: if_splits)
  have s': "s' = s\<lparr>is_db := (is_db s)\<lparr>db_jobs := snd r\<rparr>\<rparr>" and f: "uuid_ok fresh"
    using assms(1) ActEnqueue e by (auto simp: act_app_def split: if_splits prod.splits)
  have "succeeded_complete co s'"
    unfolding s' by (rule complete_mono [of co s]) (use assms(2) r in \<open>auto simp: isys_inv_def\<close>)
  moreover have "not_succeeded i (snd r)" if "not_succeeded i (db_jobs (is_db s))" for i
    by (rule not_succeeded_mono [OF that]) (use r in auto)
  moreover have "held_job w j (snd r)" if "held_job w j (db_jobs (is_db s))" for j
    using that r(3) by (simp add: held_job_def)
  ultimately show ?thesis
    using assms(2) r f by (cases "is_phase s w") (auto simp: s' isys_inv_def job_ids_unique_def)
next
  case (ActUpload p d now)
  then have p: "hd p = ''submissions''" using assms(1) by (auto simp: act_app_def split: if_splits)
  obtain fs where s': "s' = s\<lparr>is_files := fs\<rparr>" and fs: "\<And>q. q \<noteq> p \<Longrightarrow> read_file fs q = read_file (is_files s) q"
    using assms(1) ActUpload by (auto simp: act_app_def split: if_splits option.splits)
  have ne: "canonical_path i \<noteq> p" "result_path i \<noteq> p" for i
    using p by (auto simp: canonical_path_def result_path_def)
  have o: "outputs_for co j ds fs = outputs_for co j ds (is_files s)" for j ds
    by (rule outputs_for_cong) (use fs ne in simp_all)
  then have "succeeded_complete co s'"
    using assms(2) by (simp add: s' isys_inv_def succeeded_complete_def outputs_complete_def)
  then show ?thesis using assms(2) o by (cases "is_phase s w") (simp_all add: s' isys_inv_def)
qed (use assms(1) in \<open>simp_all add: act_app_def\<close>)

lemma act_inv:
  assumes "act co st w a s = Some s'" and "isys_inv co w s" and "1 \<le> ingestion_chunk_max_chars st"
  shows "isys_inv co w s'"
proof -
  have ph: "isys_inv co w s'" if "(case is_phase s w of PIdle \<Rightarrow> act_idle st w a s
      | PClaimed j \<Rightarrow> act_claimed co st w j a s | PResult j res \<Rightarrow> act_result w j res a s
      | _ \<Rightarrow> act_after st w a s) = Some s'"
    using that act_idle_inv [OF _ assms(2)] act_claimed_inv [OF _ assms(2) _ assms(3)]
      act_result_inv [OF _ assms(2)] act_after_inv [OF _ assms(2)]
    by (cases "is_phase s w") simp_all
  show ?thesis
    using assms(1) ph act_app_inv [OF _ assms(2)] inv_goto_idle [OF assms(2)]
    by (cases a) (auto simp: act_def)
qed

lemma run_acts_inv:
  assumes "run_acts co st acts s = Some s'" and "\<forall>(v, a)\<in>set acts. v = w" and "isys_inv co w s"
    and "1 \<le> ingestion_chunk_max_chars st"
  shows "isys_inv co w s'"
  using assms
proof (induction acts arbitrary: s)
  case (Cons va acts)
  obtain a where va: "va = (w, a)" using Cons.prems(2) by (cases va) auto
  then obtain m where m: "act co st w a s = Some m" "run_acts co st acts m = Some s'"
    using Cons.prems(1) by (auto split: option.splits)
  have "isys_inv co w m" by (rule act_inv [OF m(1) Cons.prems(3,4)])
  with Cons.IH [OF m(2)] Cons.prems(2,4) show ?case by simp
qed simp

text \<open>
  C8. One ingestion worker, with any crashes (also in the middle of the processing or between the
  storing of the chunks and the success), restarts, recoveries, new jobs and changing
  uploads: every job marked as succeeded has complete outputs, which agree with each other. One
  canonical document is its canonical blob, is described by its manifest, and its hybrid chunks
  are the chunk rows of the job, in order.
\<close>

theorem ingestion_outputs_complete:
  assumes "run_acts co st acts empty_isys = Some s" and "\<forall>(v, a)\<in>set acts. v = w"
    and "1 \<le> ingestion_chunk_max_chars st"
    and "j \<in> set (db_jobs (is_db s))" and "j_status j = ISucceeded"
  shows "\<exists>body mx att ds. let doc = normalize_to_canonical (co_sha co) body in
     chunk_hybrid (co_sha co) mx doc = Inr ds \<and>
     map cw_draft (filter (\<lambda>r. cw_job_id r = j_id j) (db_chunks (is_db s))) = ds \<and>
     read_file (is_files s) (canonical_path (j_id j)) = Some (utf8 (cd_text doc)) \<and>
     read_file (is_files s) (result_path (j_id j)) = Some (utf8 (json_spaced (JObj
       (manifest_payload (j_id j) (j_artifact_key j) CHUNKER_VERSION mx att doc ds))))"
proof -
  have "isys_inv co w empty_isys"
    by (simp add: isys_inv_def empty_isys_def job_ids_unique_def chunk_unique_def succeeded_complete_def)
  from run_acts_inv [OF assms(1,2) this assms(3)] assms(4,5)
  have "outputs_for co j (map cw_draft (filter (\<lambda>r. cw_job_id r = j_id j) (db_chunks (is_db s)))) (is_files s)"
    by (simp add: isys_inv_def succeeded_complete_def outputs_complete_def job_chunks_def)
  then show ?thesis unfolding outputs_for_def Let_def by blast
qed

text \<open>What a worker does with one job, from claim to success.\<close>

definition finish_job :: "worker_id \<Rightarrow> datetime \<Rightarrow> (worker_id \<times> action) list" where
  "finish_job w t = [(w, ActClaim t), (w, ActProcess 1), (w, ActCommit t id)]"

lemma run_acts_append:
  "run_acts co st (xs @ ys) s = (case run_acts co st xs s of None \<Rightarrow> None | Some m \<Rightarrow> run_acts co st ys m)"
  by (induction xs arbitrary: s) (auto split: option.splits)

lemma finish_run:
  assumes "is_phase s w = PIdle" and "claim_next_job t w (db_jobs (is_db s)) = (Some j, jobs)"
    and "parse_artifact co (j_artifact_key j) (j_attempt_count j) (ingestion_chunk_max_chars st) (is_files s) = Inr (doc, ds)"
    and "tidy_tree (is_files s)" and "chunk_unique (db_chunks (is_db s))" and "1 \<le> ingestion_chunk_max_chars st"
  shows "\<exists>s'. run_acts co st (finish_job w t) s = Some s' \<and>
    db_jobs (is_db s') = snd (succeed_job t (j_id j) w (result_key_for (j_id j)) jobs) \<and>
    job_chunks (j_id j) (db_chunks (is_db s')) = ds \<and> outputs_for co j ds (is_files s') \<and>
    (\<forall>q. \<not> own_path (j_id j) q \<longrightarrow> read_file (is_files s') q = read_file (is_files s) q) \<and>
    is_phase s' = (is_phase s)(w := PIdle)"
proof -
  let ?s1 = "goto_phase w (PClaimed j) (s\<lparr>is_db := (is_db s)\<lparr>db_jobs := jobs\<rparr>\<rparr>)"
  have a1: "act co st w (ActClaim t) s = Some ?s1" using assms(1,2) by (simp add: act_def act_idle_def)
  obtain res fs where p: "process_claimed co st 1 j (is_files s) = (Inr res, fs)" "ir_chunks res = ds"
    using process_succeeds [OF assms(3,4)] by blast
  note e = process_claimed_effect [OF p(1) assms(6)]
  let ?s2 = "goto_phase w (PResult j res) (?s1\<lparr>is_files := fs\<rparr>)"
  have a2: "act co st w (ActProcess 1) ?s1 = Some ?s2" using p by (simp add: act_def act_claimed_def)
  have o: "outputs_for co j (ir_chunks res) fs" "ir_result_key res = result_key_for (j_id j)" using e by simp_all
  obtain dn rows where c: "commit_success t id w j res \<lparr>db_jobs = jobs, db_chunks = db_chunks (is_db s)\<rparr> =
      Inr (dn, \<lparr>db_jobs = snd (succeed_job t (j_id j) w (ir_result_key res) jobs), db_chunks = rows\<rparr>)"
      "job_chunks (j_id j) rows = ir_chunks res"
    using commit_processed [OF o(1), of "\<lparr>db_jobs = jobs, db_chunks = db_chunks (is_db s)\<rparr>" t id w] assms(5) by auto
  have db: "(is_db s)\<lparr>db_jobs := jobs\<rparr> = \<lparr>db_jobs = jobs, db_chunks = db_chunks (is_db s)\<rparr>" by simp
  let ?s3 = "goto_phase w PIdle (?s2\<lparr>is_db := \<lparr>db_jobs = snd (succeed_job t (j_id j) w (ir_result_key res) jobs), db_chunks = rows\<rparr>\<rparr>)"
  have a3: "act co st w (ActCommit t id) ?s2 = Some ?s3" using c by (simp add: act_def act_result_def db)
  have "run_acts co st (finish_job w t) s = Some ?s3" by (simp add: finish_job_def a1 a2 a3)
  then show ?thesis using c o e p by auto
qed

definition plain_codec :: codec where
  "plain_codec = \<lparr>co_sha = (\<lambda>s. ''h''), co_decode = Some\<rparr>"

definition one_job :: "string \<Rightarrow> (worker_id \<times> action) list" where
  "one_job body = [(''a'', ActUpload [''submissions'', ''x''] (Some body) 0), (''a'', ActEnqueue 0 1 9 ''submissions/x'')]"

definition one_file :: "string \<Rightarrow> files" where
  "one_file body = [([''submissions'', ''x''], \<lparr>f_bytes = body, f_mtime = 0\<rparr>)]"

definition row_of :: "worker_id option \<Rightarrow> int \<Rightarrow> ingestion_status \<Rightarrow> ingestion_job" where
  "row_of w n s = (example_job 1 0)\<lparr>j_submission_id := 9, j_artifact_key := ''submissions/x'', j_status := s,
     j_worker_id := w, j_attempt_count := n, j_started_at := (if s = IRunning then Some 0 else None)\<rparr>"

text \<open>The state of a run as far as it matters here.\<close>

definition observe :: "isys \<Rightarrow> ingestion_job list \<times> chunk_row list \<times> files \<times> phase list" where
  "observe s = (db_jobs (is_db s), db_chunks (is_db s), is_files s, map (is_phase s) [''a'', ''b'', ''c''])"

text \<open>What is left of job 1: its status, the number of chunk rows and whether its blobs are there.\<close>

definition job_summary :: "isys \<Rightarrow> ingestion_status option \<times> nat \<times> bool \<times> bool" where
  "job_summary s = (map_option j_status (job_get 1 (db_jobs (is_db s))), count_for_job 1 (db_chunks (is_db s)),
     is_file (is_files s) (canonical_path 1), is_file (is_files s) (result_path 1))"

lemma run_one_job:
  "map_option observe (run_acts plain_codec default_settings (one_job body) empty_isys) =
     Some ([row_of None 0 IQueued], [], one_file body, [PIdle, PIdle, PIdle])"
  by (simp add: one_job_def act_def act_app_def uuid_ok_def enqueue_def Let_def empty_isys_def observe_def
      row_of_def example_job_def one_file_def)

lemma cleanup_one_file: "cleanup_partial_result 1 (one_file body) = one_file body"
  by (simp add: cleanup_partial_result_def one_file_def remove_file_def canonical_path_def result_path_def
      incoming_root_def sidecar_def add_suffix_def)

lemmas trace_simps = one_job_def act_def act_app_def uuid_ok_def enqueue_def Let_def empty_isys_def observe_def
  act_idle_def goto_phase_def claim_next_job_def claimable_def claim_job_def recover_tx_def recover_stale_jobs_def
  default_settings_def update_where_def stale_job_def recover_job_def requeued_ids_def act_after_def
  cleanup_one_file [unfolded one_file_def One_nat_def] row_of_def example_job_def one_file_def delete_for_job_def

lemma stale_prefix:
  "map_option observe (run_acts plain_codec default_settings (one_job body @
      [(''a'', ActClaim 0), (''b'', ActRecover 60000000), (''b'', ActCleanup), (''b'', ActCleanup), (''b'', ActCleanup)])
     empty_isys) =
   Some ([recover_job 60000000 3 (claim_job 0 ''a'' (row_of None 0 IQueued))], [], one_file body,
     [PClaimed (claim_job 0 ''a'' (row_of None 0 IQueued)), PIdle, PIdle])"
  by (simp add: trace_simps)

lemma submission_key: "resolve ''submissions/x'' = Inr [''submissions'', ''x'']"
  by code_simp

lemma is_file_read: "is_file fs p \<longleftrightarrow> read_file fs p \<noteq> None"
  by (simp add: is_file_def read_file_def)

definition erased :: "ingestion_job \<Rightarrow> worker_id \<Rightarrow> isys \<Rightarrow> isys" where
  "erased j w s =
     s\<lparr>is_db := (is_db s)\<lparr>db_chunks := snd (delete_for_job (j_id j) (db_chunks (is_db s)))\<rparr>,
       is_files := cleanup_partial_result (j_id j) (is_files s), is_phase := (is_phase s)(w := PIdle)\<rparr>"

lemma job_summary_erased:
  assumes "j_id j = 1"
  shows "job_summary (erased j w s) = (map_option j_status (job_get 1 (db_jobs (is_db s))), 0, False, False)"
  using cleanup_removes [of 1 "is_files s"]
  by (simp add: job_summary_def erased_def assms delete_for_job_def count_for_job_def is_file_read)

text \<open>A worker that loses its job to another and then fails with a transient error.\<close>

lemma late_failure_run:
  assumes "is_phase s w = PClaimed j" and "db_jobs (is_db s) = [r]" and "j_status r \<noteq> IRunning"
    and "parse_artifact co (j_artifact_key j) (j_attempt_count j) (ingestion_chunk_max_chars st) (is_files s) =
      Inl (Transient code msg)"
    and "j_attempt_count j < ingestion_max_attempts st"
  shows "run_acts co st [(w, ActProcess now), (w, ActCommit t fresh), (w, ActCleanup)] s =
    Some (erased j w s)"
proof -
  have p: "process_claimed co st now j (is_files s) = (Inl (Transient code msg), is_files s)"
    using assms(4) by (simp add: process_claimed_def process_artifact_def)
  have "db_jobs (fst (commit_error st t w j (Transient code msg) (is_db s, no_counters))) = [r]"
    "db_chunks (fst (commit_error st t w j (Transient code msg) (is_db s, no_counters))) =
      snd (delete_for_job (j_id j) (db_chunks (is_db s)))"
    using assms(2,3,5)
    by (simp_all add: commit_error_def commit_retry_def retry_job_def update_returning_def owned_job_def)
  then have c: "fst (commit_error st t w j (Transient code msg) (is_db s, no_counters)) =
      (is_db s)\<lparr>db_chunks := snd (delete_for_job (j_id j) (db_chunks (is_db s)))\<rparr>"
    using assms(2) by simp
  show ?thesis
    using assms(1) by (simp add: act_def act_claimed_def act_after_def goto_phase_def erased_def p c del: fst_conv)
qed

lemma parse_first_attempt:
  "\<exists>c m. parse_artifact plain_codec ''submissions/x'' 1 1200 (one_file ''cf_ingest_transient'') = Inl (Transient c m)"
proof -
  have "case parse_artifact plain_codec ''submissions/x'' 1 1200 (one_file ''cf_ingest_transient'') of
      Inl (Transient c m) \<Rightarrow> True | _ \<Rightarrow> False" by code_simp
  then show ?thesis by (auto split: sum.splits ingest_error.splits)
qed

lemma parse_second_attempt:
  "\<exists>doc d. parse_artifact plain_codec ''submissions/x'' 2 1200 (one_file ''cf_ingest_transient'') = Inr (doc, [d])"
proof -
  have "case parse_artifact plain_codec ''submissions/x'' 2 1200 (one_file ''cf_ingest_transient'') of
      Inr (doc, [d]) \<Rightarrow> True | _ \<Rightarrow> False" by code_simp
  then show ?thesis by (auto split: sum.splits prod.splits list.splits)
qed

definition requeued_row :: ingestion_job where
  "requeued_row = recover_job 60000000 3 (claim_job 0 ''a'' (row_of None 0 IQueued))"

text \<open>The second attempt of the job, by any idle worker.\<close>

lemma second_attempt:
  assumes "db_jobs (is_db m) = [requeued_row]" and "db_chunks (is_db m) = []"
    and "is_files m = one_file ''cf_ingest_transient''" and "is_phase m w = PIdle"
  shows "\<exists>s r. run_acts plain_codec default_settings (finish_job w 60000001) m = Some s \<and>
    db_jobs (is_db s) = [r] \<and> j_status r = ISucceeded \<and> job_summary s = (Some ISucceeded, 1, True, True) \<and>
    read_file (is_files s) [''submissions'', ''x''] = Some ''cf_ingest_transient'' \<and>
    is_phase s = (is_phase m)(w := PIdle)"
proof -
  let ?j = "claim_job 60000001 w requeued_row"
  have sel: "j_id requeued_row = 1" "j_status requeued_row = IQueued" "j_available_at requeued_row = 60000000"
      "j_artifact_key ?j = ''submissions/x''" "j_attempt_count ?j = 2" "j_id ?j = 1" "j_status ?j = IRunning"
      "j_worker_id ?j = Some w"
    by (simp_all add: requeued_row_def recover_job_def claim_job_def row_of_def example_job_def)
  have c: "claim_next_job 60000001 w (db_jobs (is_db m)) = (Some ?j, [?j])"
    using sel by (simp add: assms(1) claim_next_job_def claimable_def update_where_def)
  obtain doc d where p: "parse_artifact plain_codec (j_artifact_key ?j) (j_attempt_count ?j)
      (ingestion_chunk_max_chars default_settings) (is_files m) = Inr (doc, [d])"
    using parse_second_attempt assms(3) sel by (auto simp: default_settings_def)
  have t: "tidy_tree (is_files m)" by (simp add: assms(3) one_file_def tidy_tree_def tidy_path_def)
  have u: "chunk_unique (db_chunks (is_db m))" by (simp add: assms(2) chunk_unique_def)
  have mx: "1 \<le> ingestion_chunk_max_chars default_settings" by (simp add: default_settings_def)
  obtain s where s: "run_acts plain_codec default_settings (finish_job w 60000001) m = Some s"
      "db_jobs (is_db s) = snd (succeed_job 60000001 (j_id ?j) w (result_key_for (j_id ?j)) [?j])"
      "job_chunks (j_id ?j) (db_chunks (is_db s)) = [d]" "outputs_for plain_codec ?j [d] (is_files s)"
      "\<forall>q. \<not> own_path (j_id ?j) q \<longrightarrow> read_file (is_files s) q = read_file (is_files m) q"
      "is_phase s = (is_phase m)(w := PIdle)"
    using finish_run [OF assms(4) c p t u mx] by blast
  obtain r where r: "db_jobs (is_db s) = [r]" "j_status r = ISucceeded" "j_id r = 1"
    using s(2) sel by (simp add: succeed_job_def update_returning_def update_where_def owned_job_def)
  have "\<not> own_path 1 [''submissions'', ''x'']" by (simp add: submissions_not_own)
  then have f: "read_file (is_files s) [''submissions'', ''x''] = Some ''cf_ingest_transient''"
    using s(5) sel by (simp add: assms(3) one_file_def read_file_def)
  have "length (job_chunks 1 (db_chunks (is_db s))) = 1" using s(3) sel by simp
  then have n: "count_for_job 1 (db_chunks (is_db s)) = 1" by (simp add: job_chunks_def count_for_job_def)
  have "job_summary s = (Some ISucceeded, 1, True, True)"
    using s(4) sel r n by (auto simp: job_summary_def job_get_def outputs_for_def is_file_def read_file_def)
  then show ?thesis using s r f by blast
qed

theorem ingestion_outputs_complete_witness:
  "\<exists>s j. run_acts plain_codec default_settings
      (one_job ''cf_ingest_transient'' @ [(''a'', ActClaim 0), (''a'', ActCrash), (''a'', ActRecover 60000000),
         (''a'', ActCleanup), (''a'', ActCleanup), (''a'', ActCleanup)] @ finish_job ''a'' 60000001) empty_isys = Some s \<and>
     j \<in> set (db_jobs (is_db s)) \<and> j_status j = ISucceeded \<and>
     (\<exists>body. read_file (is_files s) (canonical_path (j_id j)) =
       Some (utf8 (cd_text (normalize_to_canonical (co_sha plain_codec) body))))"
proof -
  let ?pre = "one_job ''cf_ingest_transient'' @ [(''a'', ActClaim 0), (''a'', ActCrash), (''a'', ActRecover 60000000),
         (''a'', ActCleanup), (''a'', ActCleanup), (''a'', ActCleanup)]"
  have "map_option observe (run_acts plain_codec default_settings ?pre empty_isys) =
      Some ([requeued_row], [], one_file ''cf_ingest_transient'', [PIdle, PIdle, PIdle])"
    by (simp add: trace_simps requeued_row_def)
  then obtain m where m: "run_acts plain_codec default_settings ?pre empty_isys = Some m"
      "db_jobs (is_db m) = [requeued_row]" "db_chunks (is_db m) = []" "is_files m = one_file ''cf_ingest_transient''"
      "is_phase m ''a'' = PIdle"
    by (auto simp: observe_def)
  obtain s r where s: "run_acts plain_codec default_settings (finish_job ''a'' 60000001) m = Some s"
      "db_jobs (is_db s) = [r]" "j_status r = ISucceeded"
    using second_attempt [OF m(2-5)] by blast
  have r: "run_acts plain_codec default_settings (?pre @ finish_job ''a'' 60000001) empty_isys = Some s"
    using m(1) s(1) by (simp only: run_acts_append option.case)
  have a: "\<forall>(v, a)\<in>set (?pre @ finish_job ''a'' 60000001). v = ''a''"
    by (simp add: one_job_def finish_job_def)
  have mx: "1 \<le> ingestion_chunk_max_chars default_settings" by (simp add: default_settings_def)
  have j: "r \<in> set (db_jobs (is_db s))" using s(2) by simp
  from ingestion_outputs_complete [OF r a mx j s(3)] r j s(3) show ?thesis
    unfolding Let_def append_assoc by blast
qed

section \<open>Several workers\<close>

text \<open>
  With several workers a stale one erases the outputs of a succeeded job. Worker \<open>a\<close> claims
  a job and stalls; \<open>b\<close> recovers it, claims it again and succeeds; then \<open>a\<close>
  goes on and fails. Its error transaction is guarded for the job row, but deletes the chunk
  rows of the job without any guard, and then deletes its blobs: the job stays marked
  as succeeded with no chunk and no output.
\<close>

theorem stale_worker_erases_outputs:
  "\<exists>s1 s2. run_acts plain_codec default_settings
      (one_job ''cf_ingest_transient'' @ [(''a'', ActClaim 0), (''b'', ActRecover 60000000), (''b'', ActCleanup),
         (''b'', ActCleanup), (''b'', ActCleanup)] @ finish_job ''b'' 60000001) empty_isys = Some s1 \<and>
    job_summary s1 = (Some ISucceeded, 1, True, True) \<and>
    run_acts plain_codec default_settings
      [(''a'', ActProcess 2), (''a'', ActCommit 60000002 id), (''a'', ActCleanup)] s1 = Some s2 \<and>
    job_summary s2 = (Some ISucceeded, 0, False, False)"
proof -
  let ?pre = "one_job ''cf_ingest_transient'' @ [(''a'', ActClaim 0), (''b'', ActRecover 60000000),
         (''b'', ActCleanup), (''b'', ActCleanup), (''b'', ActCleanup)]"
  let ?ja = "claim_job 0 ''a'' (row_of None 0 IQueued)"
  obtain m where m: "run_acts plain_codec default_settings ?pre empty_isys = Some m"
      "db_jobs (is_db m) = [requeued_row]" "db_chunks (is_db m) = []" "is_files m = one_file ''cf_ingest_transient''"
      "is_phase m ''b'' = PIdle" "is_phase m ''a'' = PClaimed ?ja"
    using stale_prefix [of "''cf_ingest_transient''"] by (auto simp: observe_def requeued_row_def)
  obtain s r where s: "run_acts plain_codec default_settings (finish_job ''b'' 60000001) m = Some s"
      "db_jobs (is_db s) = [r]" "j_status r = ISucceeded" "job_summary s = (Some ISucceeded, 1, True, True)"
      "read_file (is_files s) [''submissions'', ''x''] = Some ''cf_ingest_transient''"
      "is_phase s = (is_phase m)(''b'' := PIdle)"
    using second_attempt [OF m(2-5)] by blast
  have ja: "j_artifact_key ?ja = ''submissions/x''" "j_attempt_count ?ja = 1" "j_id ?ja = 1"
    by (simp_all add: claim_job_def row_of_def example_job_def)
  have g: "get_blob ''submissions/x'' (is_files s) = get_blob ''submissions/x'' (one_file ''cf_ingest_transient'')"
    using s(5) by (auto simp: get_blob_def one_file_def read_file_def submission_key)
  obtain c e where p: "parse_artifact plain_codec (j_artifact_key ?ja) (j_attempt_count ?ja)
      (ingestion_chunk_max_chars default_settings) (is_files s) = Inl (Transient c e)"
    using parse_first_attempt g by (auto simp: ja parse_artifact_def default_settings_def)
  have w: "is_phase s ''a'' = PClaimed ?ja" and nr: "j_status r \<noteq> IRunning"
      and at: "j_attempt_count ?ja < ingestion_max_attempts default_settings"
    using m s ja by (simp_all add: default_settings_def)
  have "job_get 1 (db_jobs (is_db s)) = Some r"
    using s(2-4) by (auto simp: job_summary_def job_get_def split: if_splits)
  then have e: "job_summary (erased (?ja) ''a'' s) = (Some ISucceeded, 0, False, False)"
    using s(2,3) ja by (simp add: job_summary_erased)
  have "run_acts plain_codec default_settings (?pre @ finish_job ''b'' 60000001) empty_isys = Some s"
    using m(1) s(1) by (simp only: run_acts_append option.case)
  with s(4) e late_failure_run [OF w s(2) nr p at, of 2 60000002 id] show ?thesis
    unfolding append_assoc by blast
qed

text \<open>
  The clean-up after a recovery comes too late. The recovery commits the requeued job first and
  deletes its outputs afterwards; when another worker claims the job and succeeds in between,
  the outputs of the succeeded job are deleted.
\<close>

theorem recovery_cleanup_erases_outputs:
  "\<exists>s1 s2. run_acts plain_codec default_settings
      (one_job ''cf_ingest_transient'' @ [(''a'', ActClaim 0), (''a'', ActCrash), (''b'', ActRecover 60000000)] @
       finish_job ''c'' 60000001) empty_isys = Some s1 \<and>
    job_summary s1 = (Some ISucceeded, 1, True, True) \<and>
    run_acts plain_codec default_settings [(''b'', ActCleanup), (''b'', ActCleanup)] s1 = Some s2 \<and>
    job_summary s2 = (Some ISucceeded, 0, False, False)"
proof -
  let ?pre = "one_job ''cf_ingest_transient'' @ [(''a'', ActClaim 0), (''a'', ActCrash), (''b'', ActRecover 60000000)]"
  have "map_option observe (run_acts plain_codec default_settings ?pre empty_isys) =
      Some ([requeued_row], [], one_file ''cf_ingest_transient'', [PIdle, PRecover [1], PIdle])"
    by (simp add: trace_simps requeued_row_def)
  then obtain m where m: "run_acts plain_codec default_settings ?pre empty_isys = Some m"
      "db_jobs (is_db m) = [requeued_row]" "db_chunks (is_db m) = []" "is_files m = one_file ''cf_ingest_transient''"
      "is_phase m ''c'' = PIdle" "is_phase m ''b'' = PRecover [1]"
    by (auto simp: observe_def)
  obtain s r where s: "run_acts plain_codec default_settings (finish_job ''c'' 60000001) m = Some s"
      "db_jobs (is_db s) = [r]" "job_summary s = (Some ISucceeded, 1, True, True)"
      "is_phase s = (is_phase m)(''c'' := PIdle)"
    using second_attempt [OF m(2-5)] by blast
  have "job_get 1 (db_jobs (is_db s)) = Some r" "j_status r = ISucceeded"
    using s(2,3) by (auto simp: job_summary_def job_get_def split: if_splits)
  then have e: "job_summary (erased r ''b'' s) = (Some ISucceeded, 0, False, False)"
    using s(2,3) by (simp add: job_summary_erased job_get_def split: if_splits)
  have "j_id r = 1" using \<open>job_get 1 (db_jobs (is_db s)) = Some r\<close> s(2) by (simp add: job_get_def split: if_splits)
  then have "\<exists>s2. run_acts plain_codec default_settings [(''b'', ActCleanup), (''b'', ActCleanup)] s = Some s2 \<and>
      job_summary s2 = job_summary (erased r ''b'' s)"
    using m(6) s(4) by (simp add: act_def act_after_def goto_phase_def erased_def job_summary_def)
  moreover have "run_acts plain_codec default_settings (?pre @ finish_job ''c'' 60000001) empty_isys = Some s"
    using m(1) s(1) by (simp only: run_acts_append option.case)
  ultimately show ?thesis using s(3) e unfolding append_assoc by metis
qed

end
