(* ===== verification/Retrieval.thy ===== *)
theory Retrieval
  imports Ingest_Worker "HOL-Library.Product_Lexorder"
begin

text \<open>
  \<open>retrieval/lexical.py\<close> and \<open>retrieval/metrics.py\<close>: the three versions of lexical search over the chunk rows, and
  the metrics of their ranked lists. What PostgreSQL's full-text search matches and ranks is a parameter; \<open>LIKE\<close> is
  modelled, with its wildcards.
\<close>

section \<open>Queries\<close>

text \<open>Python's \<open>str.split()\<close>, with the word read so far in reverse.\<close>

fun split_ws :: "string \<Rightarrow> string \<Rightarrow> string list" where
  "split_ws word [] = (if word = [] then [] else [rev word])"
| "split_ws word (c # t) =
     (if is_space c then (if word = [] then split_ws [] t else rev word # split_ws [] t)
      else split_ws (c # word) t)"

definition normalize_query :: "string \<Rightarrow> string" where
  "normalize_query query = join '' '' (split_ws [] (strip query))"

record retrieval_filters =
  rf_submission_id :: "uuid option"
  rf_artifact_key :: "string option"
  rf_ingestion_job_id :: "uuid option"

record retrieved_chunk =
  rc_row :: chunk_row
  rc_score :: real
  rc_retrieval_version :: string

text \<open>
  PostgreSQL: \<open>search_tsv @@ websearch_to_tsquery('english', q)\<close> with its \<open>ts_rank_cd\<close>, the same of the \<open>simple\<close>
  dictionary with \<open>plainto_tsquery\<close>, and the text of a JSON list.
\<close>

record fts =
  fts_english :: "string \<Rightarrow> chunk_row \<Rightarrow> bool"
  fts_english_rank :: "string \<Rightarrow> chunk_row \<Rightarrow> real"
  fts_simple :: "string \<Rightarrow> chunk_row \<Rightarrow> bool"
  fts_simple_rank :: "string \<Rightarrow> chunk_row \<Rightarrow> real"
  fts_json_text :: "string list \<Rightarrow> string"

definition RETRIEVAL_VERSION_FTS :: string where "RETRIEVAL_VERSION_FTS = ''cf-lex-fts-1''"
definition RETRIEVAL_VERSION_SIMPLE :: string where "RETRIEVAL_VERSION_SIMPLE = ''cf-lex-fts-simple-1''"
definition RETRIEVAL_VERSION_STRUCT :: string where "RETRIEVAL_VERSION_STRUCT = ''cf-lex-fts-struct-1''"

text \<open>SQL \<open>LIKE\<close> with the default escape character; a pattern that ends in it is an error, here no match.\<close>

function (sequential) like :: "string \<Rightarrow> string \<Rightarrow> bool" where
  "like [] t = (t = [])"
| "like (c # p) t =
     (if c = CHR ''%'' then like p t \<or> (case t of [] \<Rightarrow> False | x # t' \<Rightarrow> like (c # p) t')
      else if c = CHR ''_'' then (case t of [] \<Rightarrow> False | x # t' \<Rightarrow> like p t')
      else if c = CHR 0x5C then (case (p, t) of (d # p', x # t') \<Rightarrow> x = d \<and> like p' t' | _ \<Rightarrow> False)
      else (case t of [] \<Rightarrow> False | x # t' \<Rightarrow> x = c \<and> like p t'))"
  by pat_completeness auto
termination by (relation "measures [\<lambda>(p, t). length p + length t]") (auto split: list.splits)

definition ilike :: "string \<Rightarrow> string \<Rightarrow> bool" where
  "ilike t pattern = like (lower pattern) (lower t)"

text \<open>\<open>t ILIKE ('%%' || q || '%%')\<close>.\<close>

definition ilike_within :: "string \<Rightarrow> string \<Rightarrow> bool" where
  "ilike_within t q = ilike t (''%%'' @ q @ ''%%'')"

section \<open>Searching\<close>

definition passes :: "retrieval_filters \<Rightarrow> chunk_row \<Rightarrow> bool" where
  "passes f c \<longleftrightarrow>
     (case rf_submission_id f of None \<Rightarrow> True | Some i \<Rightarrow> cw_submission_id c = i) \<and>
     (case rf_artifact_key f of None \<Rightarrow> True | Some k \<Rightarrow> cw_artifact_key c = k) \<and>
     (case rf_ingestion_job_id f of None \<Rightarrow> True | Some i \<Rightarrow> cw_job_id c = i)"

text \<open>The join with the job of the chunk, which must have succeeded.\<close>

definition of_succeeded :: "ingest_db \<Rightarrow> chunk_row \<Rightarrow> bool" where
  "of_succeeded db c \<longleftrightarrow> list_ex (\<lambda>j. j_id j = cw_job_id c \<and> j_status j = ISucceeded) (db_jobs db)"

definition search ::
  "string \<Rightarrow> (chunk_row \<Rightarrow> bool) \<Rightarrow> (chunk_row \<Rightarrow> real) \<Rightarrow> retrieval_filters \<Rightarrow> nat \<Rightarrow> ingest_db \<Rightarrow> retrieved_chunk list" where
  "search version matches score f top_k db =
     map (\<lambda>c. \<lparr>rc_row = c, rc_score = score c, rc_retrieval_version = version\<rparr>)
       (take top_k (sort_key (\<lambda>c. (- score c, cw_id c))
          (filter (\<lambda>c. of_succeeded db c \<and> matches c \<and> passes f c) (db_chunks db))))"

definition retrieve_fts :: "fts \<Rightarrow> string \<Rightarrow> nat \<Rightarrow> retrieval_filters \<Rightarrow> ingest_db \<Rightarrow> retrieved_chunk list" where
  "retrieve_fts ft q top_k f db =
     search RETRIEVAL_VERSION_FTS (fts_english ft q) (fts_english_rank ft q) f top_k db"

definition retrieve_simple :: "fts \<Rightarrow> string \<Rightarrow> nat \<Rightarrow> retrieval_filters \<Rightarrow> ingest_db \<Rightarrow> retrieved_chunk list" where
  "retrieve_simple ft q top_k f db =
     search RETRIEVAL_VERSION_SIMPLE (fts_simple ft q) (fts_simple_rank ft q) f top_k db"

definition struct_score :: "fts \<Rightarrow> string \<Rightarrow> chunk_row \<Rightarrow> real" where
  "struct_score ft q c =
     fts_english_rank ft q c
     + (if ilike_within (fts_json_text ft (ch_path (cw_draft c))) q then 15 / 100 else 0)
     + (if ilike_within (ch_content (cw_draft c)) q then 10 / 100 else 0)
     + (if ch_block_type (cw_draft c) \<in> {''code'', ''code_fence''} \<and> ilike_within (ch_content (cw_draft c)) q
        then 5 / 100 else 0)"

definition struct_matches :: "fts \<Rightarrow> string \<Rightarrow> chunk_row \<Rightarrow> bool" where
  "struct_matches ft q c \<longleftrightarrow>
     fts_english ft q c \<or> ilike_within (ch_content (cw_draft c)) q \<or>
     ilike_within (fts_json_text ft (ch_path (cw_draft c))) q"

definition retrieve_struct :: "fts \<Rightarrow> string \<Rightarrow> nat \<Rightarrow> retrieval_filters \<Rightarrow> ingest_db \<Rightarrow> retrieved_chunk list" where
  "retrieve_struct ft q top_k f db =
     search RETRIEVAL_VERSION_STRUCT (struct_matches ft q) (struct_score ft q) f top_k db"

definition retrieve ::
  "fts \<Rightarrow> string \<Rightarrow> int \<Rightarrow> retrieval_filters \<Rightarrow> string \<Rightarrow> ingest_db \<Rightarrow> exn + retrieved_chunk list" where
  "retrieve ft query top_k f version db =
     (if top_k < 1 then Inl (ValueError ''top_k must be >= 1'')
      else let q = normalize_query query
           in if q = [] then Inr []
              else if version = RETRIEVAL_VERSION_SIMPLE then Inr (retrieve_simple ft q (nat top_k) f db)
              else if version = RETRIEVAL_VERSION_STRUCT then Inr (retrieve_struct ft q (nat top_k) f db)
              else if version = RETRIEVAL_VERSION_FTS then Inr (retrieve_fts ft q (nat top_k) f db)
              else Inl (ValueError (''Unknown retrieval_version: '' @ version)))"

section \<open>Metrics\<close>

record 'a query_metrics =
  qm_query_id :: string
  qm_recall_at :: "(int \<times> real) list"
  qm_precision_at :: "(int \<times> real) list"
  qm_mrr :: real
  qm_first_relevant_rank :: "nat option"
  qm_zero_hit :: bool
  qm_retrieved_relevant :: nat

text \<open>Python's \<open>xs[:k]\<close>, also for a negative \<open>k\<close>.\<close>

definition upto :: "int \<Rightarrow> 'a list \<Rightarrow> 'a list" where
  "upto k xs = (if k \<ge> 0 then take (nat k) xs else take (length xs - nat (- k)) xs)"

definition recall_at_k :: "'a list \<Rightarrow> 'a set \<Rightarrow> int \<Rightarrow> exn + real" where
  "recall_at_k ranked relevant k =
     (if relevant = {} then Inl (ValueError ''relevant set must be non-empty for Recall@K'')
      else Inr (real (card (set (upto k ranked) \<inter> relevant)) / real (card relevant)))"

definition precision_at_k :: "'a list \<Rightarrow> 'a set \<Rightarrow> int \<Rightarrow> exn + real" where
  "precision_at_k ranked relevant k =
     (if k < 1 then Inl (ValueError ''k must be >= 1'')
      else Inr (real (length (filter (\<lambda>x. x \<in> relevant) (upto k ranked))) / of_int k))"

fun rank_loop :: "nat \<Rightarrow> 'a list \<Rightarrow> 'a set \<Rightarrow> nat option" where
  "rank_loop i [] relevant = None"
| "rank_loop i (x # xs) relevant = (if x \<in> relevant then Some i else rank_loop (i + 1) xs relevant)"

definition first_relevant_rank :: "'a list \<Rightarrow> 'a set \<Rightarrow> nat option" where
  "first_relevant_rank ranked relevant = rank_loop 1 ranked relevant"

fun rr_loop :: "nat \<Rightarrow> 'a list \<Rightarrow> 'a set \<Rightarrow> real" where
  "rr_loop i [] relevant = 0"
| "rr_loop i (x # xs) relevant = (if x \<in> relevant then 1 / real i else rr_loop (i + 1) xs relevant)"

definition reciprocal_rank :: "'a list \<Rightarrow> 'a set \<Rightarrow> real" where
  "reciprocal_rank ranked relevant = rr_loop 1 ranked relevant"

text \<open>A dict comprehension over the cut-offs; the first exception ends it.\<close>

fun at_each :: "(int \<Rightarrow> exn + real) \<Rightarrow> int list \<Rightarrow> exn + (int \<times> real) list" where
  "at_each f [] = Inr []"
| "at_each f (k # ks) =
     (case f k of Inl e \<Rightarrow> Inl e | Inr v \<Rightarrow> map_sum id ((#) (k, v)) (at_each f ks))"

definition evaluate_query :: "string \<Rightarrow> 'a list \<Rightarrow> 'a set \<Rightarrow> int list \<Rightarrow> exn + 'a query_metrics" where
  "evaluate_query query_id ranked relevant ks =
     (if relevant = {} then Inl (ValueError (''query '' @ query_id @ '' has empty relevant set''))
      else case at_each (recall_at_k ranked relevant) ks of
        Inl e \<Rightarrow> Inl e
      | Inr recall \<Rightarrow>
          (case at_each (precision_at_k ranked relevant) ks of
             Inl e \<Rightarrow> Inl e
           | Inr precision \<Rightarrow>
               Inr \<lparr>qm_query_id = query_id, qm_recall_at = recall, qm_precision_at = precision,
                    qm_mrr = reciprocal_rank ranked relevant,
                    qm_first_relevant_rank = first_relevant_rank ranked relevant,
                    qm_zero_hit = (first_relevant_rank ranked relevant = None),
                    qm_retrieved_relevant = card (set ranked \<inter> relevant)\<rparr>))"

record macro =
  ma_n_queries :: nat
  ma_recall_at :: "(int \<times> real option) list"
  ma_precision_at :: "(int \<times> real option) list"
  ma_mrr :: "real option"
  ma_zero_hit_rate :: "real option"

text \<open>\<open>m.recall_at[k]\<close> raises a \<open>KeyError\<close> for a cut-off that was not evaluated, here \<open>None\<close>.\<close>

definition mean_at :: "('a query_metrics \<Rightarrow> (int \<times> real) list) \<Rightarrow> 'a query_metrics list \<Rightarrow> int \<Rightarrow> real option" where
  "mean_at sel ms k =
     (if list_all (\<lambda>m. map_of (sel m) k \<noteq> None) ms
      then Some (py_round 4 (sum_list (map (\<lambda>m. the (map_of (sel m) k)) ms) / real (length ms))) else None)"

definition macro_average :: "'a query_metrics list \<Rightarrow> int list \<Rightarrow> macro option" where
  "macro_average ms ks =
     (if ms = [] then Some \<lparr>ma_n_queries = 0, ma_recall_at = map (\<lambda>k. (k, None)) ks,
         ma_precision_at = map (\<lambda>k. (k, None)) ks, ma_mrr = None, ma_zero_hit_rate = None\<rparr>
      else if list_all (\<lambda>k. mean_at qm_recall_at ms k \<noteq> None \<and> mean_at qm_precision_at ms k \<noteq> None) ks
      then Some \<lparr>ma_n_queries = length ms,
         ma_recall_at = map (\<lambda>k. (k, mean_at qm_recall_at ms k)) ks,
         ma_precision_at = map (\<lambda>k. (k, mean_at qm_precision_at ms k)) ks,
         ma_mrr = Some (py_round 4 (sum_list (map qm_mrr ms) / real (length ms))),
         ma_zero_hit_rate = Some (py_round 4 (real (length (filter qm_zero_hit ms)) / real (length ms)))\<rparr>
      else None)"

section \<open>What a search returns\<close>

text \<open>Which rows match and how they score, by version.\<close>

definition matches_of :: "fts \<Rightarrow> string \<Rightarrow> string \<Rightarrow> chunk_row \<Rightarrow> bool" where
  "matches_of ft version q =
     (if version = RETRIEVAL_VERSION_SIMPLE then fts_simple ft q
      else if version = RETRIEVAL_VERSION_STRUCT then struct_matches ft q else fts_english ft q)"

definition score_of :: "fts \<Rightarrow> string \<Rightarrow> string \<Rightarrow> chunk_row \<Rightarrow> real" where
  "score_of ft version q =
     (if version = RETRIEVAL_VERSION_SIMPLE then fts_simple_rank ft q
      else if version = RETRIEVAL_VERSION_STRUCT then struct_score ft q else fts_english_rank ft q)"

lemma versions_differ [simp]:
  "RETRIEVAL_VERSION_SIMPLE \<noteq> RETRIEVAL_VERSION_STRUCT" "RETRIEVAL_VERSION_SIMPLE \<noteq> RETRIEVAL_VERSION_FTS"
  "RETRIEVAL_VERSION_STRUCT \<noteq> RETRIEVAL_VERSION_FTS" "RETRIEVAL_VERSION_STRUCT \<noteq> RETRIEVAL_VERSION_SIMPLE"
  "RETRIEVAL_VERSION_FTS \<noteq> RETRIEVAL_VERSION_SIMPLE" "RETRIEVAL_VERSION_FTS \<noteq> RETRIEVAL_VERSION_STRUCT"
  by (simp_all add: RETRIEVAL_VERSION_SIMPLE_def RETRIEVAL_VERSION_STRUCT_def RETRIEVAL_VERSION_FTS_def)

lemma retrieve_Inr:
  assumes "retrieve ft query top_k f version db = Inr rs"
  shows "1 \<le> top_k \<and> (normalize_query query = [] \<and> rs = [] \<or>
    normalize_query query \<noteq> [] \<and> rs = search version (matches_of ft version (normalize_query query))
      (score_of ft version (normalize_query query)) f (nat top_k) db)"
  using assms
  by (auto simp: retrieve_def Let_def retrieve_simple_def retrieve_struct_def retrieve_fts_def matches_of_def score_of_def
      split: if_splits)

lemma take_sorted_least:
  assumes "sorted (map key xs)" and "x \<in> set (take k xs)" and "y \<in> set xs" and "y \<notin> set (take k xs)"
  shows "key x \<le> key y"
proof -
  have "y \<in> set (drop k xs)" using assms(3,4) by (metis Un_iff append_take_drop_id set_append)
  moreover have "sorted (map key (take k xs) @ map key (drop k xs))"
    using assms(1) by (simp flip: map_append)
  ultimately show ?thesis using assms(2) by (simp add: sorted_append)
qed

lemma search_spec:
  fixes version :: string and matches :: "chunk_row \<Rightarrow> bool" and score :: "chunk_row \<Rightarrow> real"
    and f :: retrieval_filters and k :: nat
  assumes "distinct (map cw_id (db_chunks db))"
  defines "rs \<equiv> search version matches score f k db" and "ok \<equiv> \<lambda>c. of_succeeded db c \<and> matches c \<and> passes f c"
  shows "length rs \<le> k" and "distinct (map rc_row rs)"
    and "sorted (map (\<lambda>r. (- rc_score r, cw_id (rc_row r))) rs)"
    and "r \<in> set rs \<Longrightarrow> rc_row r \<in> set (db_chunks db) \<and> ok (rc_row r) \<and> rc_score r = score (rc_row r) \<and> rc_retrieval_version r = version"
    and "c \<in> set (db_chunks db) \<Longrightarrow> ok c \<Longrightarrow> c \<notin> rc_row ` set rs \<Longrightarrow>
      length rs = k \<and> (\<forall>r\<in>set rs. (- rc_score r, cw_id (rc_row r)) \<le> (- score c, cw_id c))"
proof -
  define key where "key = (\<lambda>c. (- score c, cw_id c))"
  define xs where "xs = sort_key key (filter ok (db_chunks db))"
  have rs: "rs = map (\<lambda>c. \<lparr>rc_row = c, rc_score = score c, rc_retrieval_version = version\<rparr>) (take k xs)"
    by (simp add: rs_def search_def xs_def key_def ok_def)
  have keys: "map (\<lambda>r. (- rc_score r, cw_id (rc_row r))) rs = map key (take k xs)" and rows: "map rc_row rs = take k xs"
    by (simp_all add: rs key_def comp_def)
  have sorted: "sorted (map key xs)" by (simp add: xs_def)
  have dist: "distinct xs" using assms(1) by (simp add: xs_def distinct_map)
  show "length rs \<le> k" by (simp add: rs)
  show "distinct (map rc_row rs)" unfolding rows using dist by (rule distinct_take)
  show "sorted (map (\<lambda>r. (- rc_score r, cw_id (rc_row r))) rs)"
    unfolding keys using sorted by (simp flip: take_map add: sorted_wrt_take)
  show "rc_row r \<in> set (db_chunks db) \<and> ok (rc_row r) \<and> rc_score r = score (rc_row r) \<and> rc_retrieval_version r = version"
    if "r \<in> set rs"
    using that by (auto simp: rs xs_def dest!: in_set_takeD)
  show "length rs = k \<and> (\<forall>r\<in>set rs. (- rc_score r, cw_id (rc_row r)) \<le> (- score c, cw_id c))"
    if c: "c \<in> set (db_chunks db)" "ok c" "c \<notin> rc_row ` set rs"
  proof -
    have x: "c \<in> set xs" using c(1,2) by (simp add: xs_def)
    have n: "c \<notin> set (take k xs)" using c(3) by (simp flip: rows)
    then have "k < length xs" using x by (metis not_le take_all)
    moreover have "(- rc_score r, cw_id (rc_row r)) \<le> key c" if "r \<in> set rs" for r
    proof -
      have "(- rc_score r, cw_id (rc_row r)) = key (rc_row r)" "rc_row r \<in> set (take k xs)"
        using that by (auto simp: rs key_def)
      then show ?thesis using take_sorted_least [OF sorted _ x n] by simp
    qed
    ultimately show ?thesis by (simp add: rs key_def)
  qed
qed

text \<open>
  C28. A search returns at most \<open>top_k\<close> different chunks, best first with ties by identifier; each
  matches, passes the filters and belongs to a succeeded job; and a matching chunk that was
  left out comes after all of the full list.
\<close>

theorem retrieve_top_k:
  assumes "retrieve ft query top_k f version db = Inr rs" and "distinct (map cw_id (db_chunks db))"
  shows "int (length rs) \<le> top_k \<and> distinct (map rc_row rs) \<and>
    sorted (map (\<lambda>r. (- rc_score r, cw_id (rc_row r))) rs) \<and>
    (\<forall>r\<in>set rs. rc_row r \<in> set (db_chunks db) \<and> of_succeeded db (rc_row r) \<and> passes f (rc_row r) \<and>
       matches_of ft version (normalize_query query) (rc_row r)) \<and>
    (normalize_query query \<noteq> [] \<longrightarrow> (\<forall>c\<in>set (db_chunks db) - rc_row ` set rs.
       of_succeeded db c \<longrightarrow> passes f c \<longrightarrow> matches_of ft version (normalize_query query) c \<longrightarrow>
       int (length rs) = top_k \<and>
       (\<forall>r\<in>set rs. (- rc_score r, cw_id (rc_row r)) \<le> (- score_of ft version (normalize_query query) c, cw_id c))))"
proof (cases "normalize_query query = []")
  case True
  then show ?thesis using retrieve_Inr [OF assms(1)] by auto
next
  case False
  then have rs: "rs = search version (matches_of ft version (normalize_query query))
      (score_of ft version (normalize_query query)) f (nat top_k) db" and k: "1 \<le> top_k"
    using retrieve_Inr [OF assms(1)] by auto
  note spec = search_spec [OF assms(2), where version = version and matches = "matches_of ft version (normalize_query query)"
      and score = "score_of ft version (normalize_query query)" and f = f and k = "nat top_k", folded rs]
  have "int (length rs) \<le> top_k" using spec(1) k by linarith
  moreover have "int (length rs) = top_k \<and> (\<forall>r\<in>set rs. (- rc_score r, cw_id (rc_row r)) \<le>
      (- score_of ft version (normalize_query query) c, cw_id c))"
    if "c \<in> set (db_chunks db)" "c \<notin> rc_row ` set rs" "of_succeeded db c" "passes f c"
      "matches_of ft version (normalize_query query) c" for c
    using spec(5) [OF that(1) _ that(2)] that(3-5) k by simp
  ultimately show ?thesis using spec(2,3) spec(4) by auto
qed

section \<open>Search over what was ingested\<close>

lemma succeeded_chunk:
  assumes "isys_inv co w s" and "of_succeeded (is_db s) c" and "c \<in> set (db_chunks (is_db s))"
  shows "\<exists>body. let d = cw_draft c; doc = cd_text (normalize_to_canonical (co_sha co) body) in
    read_file (is_files s) (canonical_path (cw_job_id c)) = Some (utf8 doc) \<and>
    ch_start d < ch_end d \<and> ch_end d \<le> length doc \<and> ch_content d = slice doc (ch_start d) (ch_end d) \<and>
    ch_line_start d = Suc (count_list (take (ch_start d) doc) LF)"
proof -
  obtain j where j: "j \<in> set (db_jobs (is_db s))" "j_id j = cw_job_id c" "j_status j = ISucceeded"
    using assms(2) by (auto simp: of_succeeded_def list_ex_iff)
  have "outputs_complete co (is_db s) (is_files s) j"
    using assms(1) j(1,3) by (simp add: isys_inv_def succeeded_complete_def)
  then obtain body mx where o: "1 \<le> mx"
      "chunk_hybrid (co_sha co) mx (normalize_to_canonical (co_sha co) body) = Inr (job_chunks (j_id j) (db_chunks (is_db s)))"
      "read_file (is_files s) (canonical_path (j_id j)) = Some (utf8 (cd_text (normalize_to_canonical (co_sha co) body)))"
    unfolding outputs_complete_def outputs_for_def by blast
  have "cw_draft c \<in> set (job_chunks (j_id j) (db_chunks (is_db s)))"
    using assms(3) j(2) by (simp add: job_chunks_def)
  then obtain i where "i < length (job_chunks (j_id j) (db_chunks (is_db s)))"
      "job_chunks (j_id j) (db_chunks (is_db s)) ! i = cw_draft c"
    by (auto simp: in_set_conv_nth)
  then show ?thesis
    using chunk_hybrid_correct [OF o(1), of "co_sha co" body] o(2,3) j(2) by (intro exI [of _ body]) (auto simp: Let_def)
qed


section \<open>Wildcards\<close>

lemma like_literal:
  assumes "set p \<inter> {CHR ''%'', CHR ''_'', CHR 0x5C} = {}"
  shows "like (p @ ''%%'') t \<longleftrightarrow> starts_with p t"
  using assms
proof (induction p arbitrary: t)
  case Nil
  have "like ''%'' t" for t by (induction t) simp_all
  then have "like ''%%'' t" by (cases t) simp_all
  then show ?case by (simp add: starts_with_def)
next
  case (Cons c p)
  then show ?case by (cases t) (auto simp: starts_with_def)
qed

lemma like_percent: "like (CHR ''%'' # p) t \<longleftrightarrow> (\<exists>n\<le>length t. like p (drop n t))"
proof (induction t)
  case (Cons x t)
  have "(\<exists>n\<le>length (x # t). like p (drop n (x # t))) \<longleftrightarrow> like p (x # t) \<or> (\<exists>n\<le>length t. like p (drop n t))"
    by (metis (no_types, lifting) Suc_le_mono drop0 drop_Suc_Cons le0 length_Cons not0_implies_Suc)
  then show ?case using Cons.IH by simp
qed simp

lemma contains_drop: "contains p t \<longleftrightarrow> (\<exists>n\<le>length t. starts_with p (drop n t))"
proof (induction t)
  case Nil
  then show ?case by (auto simp: starts_with_def)
next
  case (Cons x t)
  have "(\<exists>n\<le>length (x # t). starts_with p (drop n (x # t))) \<longleftrightarrow>
      starts_with p (x # t) \<or> (\<exists>n\<le>length t. starts_with p (drop n t))"
    by (metis (no_types, lifting) Suc_le_mono drop0 drop_Suc_Cons le0 length_Cons not0_implies_Suc)
  then show ?case using Cons.IH by simp
qed

lemma like_two_percents: "like (''%%'' @ p) t \<longleftrightarrow> (\<exists>n\<le>length t. like p (drop n t))"
proof -
  have "like (''%%'' @ p) t \<longleftrightarrow> (\<exists>n\<le>length t. \<exists>m\<le>length t - n. like p (drop m (drop n t)))"
    unfolding append.simps like_percent length_drop by (rule refl)
  also have "\<dots> \<longleftrightarrow> (\<exists>n\<le>length t. like p (drop n t))"
    by (metis diff_zero drop_0 drop_drop le0 le_diff_conv2)
  finally show ?thesis .
qed

lemma lower_char_fixed:
  assumes "of_char d \<notin> {65..90 :: nat}" and "of_char d \<notin> {97..122 :: nat}"
  shows "lower_char c = d \<longleftrightarrow> c = d"
proof -
  have "of_char (lower_char c) = (of_char d :: nat) \<longleftrightarrow> of_char c = (of_char d :: nat)"
    using assms by (auto simp: lower_char_def Let_def)
  then show ?thesis by simp
qed

lemma lower_mem:
  assumes "of_char d \<notin> {65..90 :: nat}" and "of_char d \<notin> {97..122 :: nat}"
  shows "d \<in> set (lower q) \<longleftrightarrow> d \<in> set q"
proof -
  have "d \<in> lower_char ` set q \<longleftrightarrow> (\<exists>c\<in>set q. lower_char c = d)" by (auto simp: image_iff)
  then show ?thesis by (simp add: lower_def lower_char_fixed [OF assms])
qed

lemma lower_wildcards: "set (lower q) \<inter> {CHR ''%'', CHR ''_'', CHR 0x5C} = set q \<inter> {CHR ''%'', CHR ''_'', CHR 0x5C}"
  using lower_mem [of "CHR ''%''" q] lower_mem [of "CHR ''_''" q] lower_mem [of "CHR 0x5C" q] by auto

lemma lower_append [simp]: "lower (s @ t) = lower s @ lower t" "lower [] = []"
  by (simp_all add: lower_def)

lemma lower_percent [simp]: "lower ''%%'' = ''%%''"
proof -
  have "lower_char (CHR ''%'') = CHR ''%''" by (subst lower_char_fixed) simp_all
  then show ?thesis by (simp add: lower_def)
qed

text \<open>
  A query without wildcards is found exactly where it occurs, whatever its case.
\<close>

theorem ilike_plain_query:
  assumes "set q \<inter> {CHR ''%'', CHR ''_'', CHR 0x5C} = {}"
  shows "ilike_within t q \<longleftrightarrow> contains (lower q) (lower t)"
proof -
  have q: "set (lower q) \<inter> {CHR ''%'', CHR ''_'', CHR 0x5C} = {}" using assms lower_wildcards by simp
  show ?thesis
    unfolding ilike_within_def ilike_def lower_append lower_percent like_two_percents contains_drop like_literal [OF q] ..
qed

text \<open>
  The characters \<open>%\<close> and \<open>_\<close> of a query are not escaped: an identifier such as \<open>user_id\<close> also matches
  \<open>user-id\<close>, and the query \<open>_\<close> matches every chunk with some content, with the boost of an exact match.
\<close>

theorem wildcards_not_escaped:
  "ilike_within ''user-id'' ''user_id'' \<and> \<not> contains ''user_id'' ''user-id'' \<and> normalize_query ''_'' = ''_'' \<and>
   (ch_content (cw_draft c) \<noteq> [] \<longrightarrow>
      struct_matches ft ''_'' c \<and> fts_english_rank ft ''_'' c + 10 / 100 \<le> struct_score ft ''_'' c)"
proof -
  have l: "lower ''_'' = ''_''" by (simp add: lower_def lower_char_def)
  have any: "ilike_within (x # t) ''_''" for x t
  proof -
    have "like ''%%'' (lower t)" using like_literal [of "[]"] by (simp add: starts_with_def)
    then have "like (''_'' @ ''%%'') (drop 0 (lower (x # t)))" by (simp add: lower_def)
    then show ?thesis unfolding ilike_within_def ilike_def lower_append lower_percent l like_two_percents by blast
  qed
  have "ilike_within ''user-id'' ''user_id''" by code_simp
  moreover have "\<not> contains ''user_id'' ''user-id''" by (simp add: starts_with_def)
  moreover have "normalize_query ''_'' = ''_''" by (simp add: normalize_query_def strip_def strip_by_def rstrip_by_def is_space_def)
  moreover have "ilike_within (ch_content (cw_draft c)) ''_''" if "ch_content (cw_draft c) \<noteq> []"
    using that any by (cases "ch_content (cw_draft c)") simp_all
  ultimately show ?thesis by (simp add: struct_matches_def struct_score_def)
qed

section \<open>Ranked lists\<close>

lemma upto_pos [simp]: "1 \<le> k \<Longrightarrow> upto k xs = take (nat k) xs"
  by (simp add: upto_def)

lemma at_each_Inr: "at_each f ks = Inr vs \<longleftrightarrow> map fst vs = ks \<and> (\<forall>(k, v)\<in>set vs. f k = Inr v)"
proof (induction ks arbitrary: vs)
  case (Cons k ks)
  then show ?case by (cases vs; cases "at_each f ks") (auto split: sum.splits)
qed auto

lemma at_each_total: "(\<forall>k\<in>set ks. \<exists>v. f k = Inr v) \<Longrightarrow> \<exists>vs. at_each f ks = Inr vs"
  by (induction ks) auto

lemma rank_loop_spec:
  "case rank_loop i xs R of None \<Rightarrow> set xs \<inter> R = {} \<and> rr_loop i xs R = 0
   | Some n \<Rightarrow> i \<le> n \<and> n < i + length xs \<and> xs ! (n - i) \<in> R \<and> set (take (n - i) xs) \<inter> R = {} \<and> rr_loop i xs R = 1 / real n"
proof (induction xs arbitrary: i)
  case (Cons x xs)
  show ?case
  proof (cases "x \<in> R")
    case False
    show ?thesis using Cons.IH [of "Suc i"] False
      by (auto simp: nth_Cons' take_Cons' Suc_le_eq split: option.splits)
  qed simp
qed simp

lemma card_top_le:
  assumes "finite R"
  shows "card (set (take n xs) \<inter> R) \<le> card R" and "length (filter (\<lambda>x. x \<in> R) (take n xs)) \<le> n"
proof -
  show "card (set (take n xs) \<inter> R) \<le> card R" using assms by (simp add: card_mono)
  have "length (filter (\<lambda>x. x \<in> R) (take n xs)) \<le> length (take n xs)" by (rule length_filter_le)
  then show "length (filter (\<lambda>x. x \<in> R) (take n xs)) \<le> n" by simp
qed

lemma evaluate_query_Inr:
  assumes "evaluate_query query_id ranked R ks = Inr m"
  shows "R \<noteq> {}" and "at_each (recall_at_k ranked R) ks = Inr (qm_recall_at m)"
    and "at_each (precision_at_k ranked R) ks = Inr (qm_precision_at m)"
    and "qm_mrr m = reciprocal_rank ranked R" and "qm_first_relevant_rank m = first_relevant_rank ranked R"
    and "qm_zero_hit m \<longleftrightarrow> first_relevant_rank ranked R = None"
  using assms by (auto simp: evaluate_query_def split: if_splits sum.splits)

lemma cutoffs_positive:
  assumes "evaluate_query query_id ranked R ks = Inr m" and "k \<in> set ks"
  shows "1 \<le> k"
proof -
  have p: "map fst (qm_precision_at m) = ks \<and> (\<forall>(k, v)\<in>set (qm_precision_at m). precision_at_k ranked R k = Inr v)"
    using evaluate_query_Inr(3) [OF assms(1)] unfolding at_each_Inr .
  then obtain v where "(k, v) \<in> set (qm_precision_at m)" using assms(2) by force
  then have "precision_at_k ranked R k = Inr v" using p by blast
  then show ?thesis by (simp add: precision_at_k_def split: if_splits)
qed

text \<open>
  The metrics of a query are defined exactly for a non-empty relevant set and cut-offs from 1 on.
\<close>

theorem evaluate_query_errors:
  "(\<exists>e. evaluate_query query_id ranked R ks = Inl e) \<longleftrightarrow> R = {} \<or> (\<exists>k\<in>set ks. k < 1)"
proof (cases "R = {} \<or> (\<exists>k\<in>set ks. k < 1)")
  case True
  have "\<not> (\<exists>m. evaluate_query query_id ranked R ks = Inr m)"
    using True evaluate_query_Inr(1) cutoffs_positive by (metis not_le)
  then show ?thesis using True by (cases "evaluate_query query_id ranked R ks") auto
next
  case False
  then obtain rs where "at_each (recall_at_k ranked R) ks = Inr rs"
    using at_each_total [of ks "recall_at_k ranked R"] by (auto simp: recall_at_k_def)
  moreover obtain ps where "at_each (precision_at_k ranked R) ks = Inr ps"
    using False at_each_total [of ks "precision_at_k ranked R"] by (fastforce simp: precision_at_k_def)
  ultimately show ?thesis using False by (auto simp: evaluate_query_def)
qed

lemma query_values:
  assumes "evaluate_query query_id ranked R ks = Inr m"
  shows "(k, v) \<in> set (qm_recall_at m) \<Longrightarrow> v = real (card (set (take (nat k) ranked) \<inter> R)) / real (card R)"
    and "(k, v) \<in> set (qm_precision_at m) \<Longrightarrow> v = real (length (filter (\<lambda>x. x \<in> R) (take (nat k) ranked))) / of_int k"
    and "map fst (qm_recall_at m) = ks" and "map fst (qm_precision_at m) = ks"
proof -
  note e = evaluate_query_Inr(1-3) [OF assms, unfolded at_each_Inr]
  show ks: "map fst (qm_recall_at m) = ks" "map fst (qm_precision_at m) = ks" using e by simp_all
  show "v = real (card (set (take (nat k) ranked) \<inter> R)) / real (card R)" if kv: "(k, v) \<in> set (qm_recall_at m)"
  proof -
    have "k \<in> set ks" using kv ks(1) by force
    moreover have "recall_at_k ranked R k = Inr v" using e(2) kv by blast
    ultimately show ?thesis using e(1) cutoffs_positive [OF assms] by (simp add: recall_at_k_def)
  qed
  show "v = real (length (filter (\<lambda>x. x \<in> R) (take (nat k) ranked))) / of_int k" if kv: "(k, v) \<in> set (qm_precision_at m)"
  proof -
    have "k \<in> set ks" using kv ks(2) by force
    moreover have "precision_at_k ranked R k = Inr v" using e(3) kv by blast
    ultimately show ?thesis using cutoffs_positive [OF assms] by (simp add: precision_at_k_def split: if_splits)
  qed
qed

lemma share_in_unit: "a \<le> b \<Longrightarrow> 0 \<le> a \<Longrightarrow> 0 \<le> a / b \<and> a / b \<le> (1 :: real)"
  by (auto simp: divide_le_eq_1)

text \<open>
  Every recall, precision and reciprocal rank is between 0 and 1, for each cut-off asked for; the reciprocal rank is the inverse of the
  first rank that holds a relevant identifier, and 0 exactly when the list has none.
\<close>

theorem query_metrics_bounds:
  assumes "evaluate_query query_id ranked R ks = Inr m" and "finite R"
  shows "map fst (qm_recall_at m) = ks \<and> map fst (qm_precision_at m) = ks \<and>
    (\<forall>(k, v)\<in>set (qm_recall_at m) \<union> set (qm_precision_at m). 0 \<le> v \<and> v \<le> 1) \<and>
    0 \<le> qm_mrr m \<and> qm_mrr m \<le> 1 \<and> (qm_mrr m = 0 \<longleftrightarrow> set ranked \<inter> R = {}) \<and>
    (qm_zero_hit m \<longleftrightarrow> set ranked \<inter> R = {}) \<and>
    (case qm_first_relevant_rank m of None \<Rightarrow> set ranked \<inter> R = {}
     | Some n \<Rightarrow> 1 \<le> n \<and> n \<le> length ranked \<and> ranked ! (n - 1) \<in> R \<and> set (take (n - 1) ranked) \<inter> R = {} \<and>
         qm_mrr m = 1 / real n)"
proof -
  note e = evaluate_query_Inr [OF assms(1)] and vals = query_values [OF assms(1)]
  have "0 \<le> v \<and> v \<le> 1" if "(k, v) \<in> set (qm_recall_at m)" for k v
    using vals(1) [OF that] card_top_le(1) [OF assms(2), of "nat k" ranked] by (simp add: share_in_unit)
  moreover have "0 \<le> v \<and> v \<le> 1" if kv: "(k, v) \<in> set (qm_precision_at m)" for k v
  proof -
    have "k \<in> set ks" using kv vals(4) by force
    then have "1 \<le> k" by (rule cutoffs_positive [OF assms(1)])
    then have "real (length (filter (\<lambda>x. x \<in> R) (take (nat k) ranked))) \<le> of_int k"
      using card_top_le(2) [OF assms(2), of "nat k" ranked] by linarith
    then show ?thesis using vals(2) [OF kv] by (simp add: share_in_unit)
  qed
  moreover have "0 \<le> qm_mrr m \<and> qm_mrr m \<le> 1 \<and> (qm_mrr m = 0 \<longleftrightarrow> set ranked \<inter> R = {}) \<and>
    (qm_zero_hit m \<longleftrightarrow> set ranked \<inter> R = {}) \<and>
    (case qm_first_relevant_rank m of None \<Rightarrow> set ranked \<inter> R = {}
     | Some n \<Rightarrow> 1 \<le> n \<and> n \<le> length ranked \<and> ranked ! (n - 1) \<in> R \<and> set (take (n - 1) ranked) \<inter> R = {} \<and>
         qm_mrr m = 1 / real n)"
  proof (cases "first_relevant_rank ranked R")
    case None
    then show ?thesis
      using rank_loop_spec [where i = 1 and xs = ranked and R = R] e(4-6) by (simp add: first_relevant_rank_def reciprocal_rank_def)
  next
    case (Some n)
    then have n: "1 \<le> n" "n \<le> length ranked" "ranked ! (n - 1) \<in> R" "set (take (n - 1) ranked) \<inter> R = {}" "qm_mrr m = 1 / real n"
      using rank_loop_spec [where i = 1 and xs = ranked and R = R] e(4) by (simp_all add: first_relevant_rank_def reciprocal_rank_def)
    then have "ranked ! (n - 1) \<in> set ranked \<inter> R" by simp
    then have "set ranked \<inter> R \<noteq> {}" by blast
    then show ?thesis using n Some e(5,6) by simp
  qed
  ultimately show ?thesis using vals(3,4) by auto
qed

text \<open>
  For a ranked list without repetitions, as a search returns, recall and precision count the
  same hits at each cut-off, and recall never falls as the cut-off grows.
\<close>

theorem recall_precision_consistent:
  assumes "evaluate_query query_id ranked R ks = Inr m" and "finite R" and "distinct ranked"
    and "(k, r) \<in> set (qm_recall_at m)"
  shows "((k, p) \<in> set (qm_precision_at m) \<longrightarrow> r * real (card R) = p * of_int k) \<and>
    ((k', r') \<in> set (qm_recall_at m) \<longrightarrow> k \<le> k' \<longrightarrow> r \<le> r')"
proof -
  note vals = query_values [OF assms(1)]
  have R: "card R \<noteq> 0" using evaluate_query_Inr(1) [OF assms(1)] assms(2) by simp
  have "k \<in> set ks" using assms(4) vals(3) by force
  then have k: "1 \<le> k" by (rule cutoffs_positive [OF assms(1)])
  have "card (set (take (nat k) ranked) \<inter> R) = length (filter (\<lambda>x. x \<in> R) (take (nat k) ranked))"
    using distinct_card [of "filter (\<lambda>x. x \<in> R) (take (nat k) ranked)"] assms(3) by (simp add: Int_def)
  then have "r * real (card R) = p * of_int k" if "(k, p) \<in> set (qm_precision_at m)"
    using vals(1) [OF assms(4)] vals(2) [OF that] R k by simp
  moreover have "r \<le> r'" if "(k', r') \<in> set (qm_recall_at m)" "k \<le> k'"
  proof -
    have "set (take (nat k) ranked) \<inter> R \<subseteq> set (take (nat k') ranked) \<inter> R"
      using that(2) set_take_subset_set_take [of "nat k" "nat k'" ranked] by (auto simp: nat_mono)
    then have "card (set (take (nat k) ranked) \<inter> R) \<le> card (set (take (nat k') ranked) \<inter> R)"
      using assms(2) by (intro card_mono) auto
    then show ?thesis using vals(1) [OF assms(4)] vals(1) [OF that(1)] by (simp add: divide_right_mono)
  qed
  ultimately show ?thesis by blast
qed

section \<open>Witnesses\<close>

text \<open>A full-text search in which every chunk matches every query.\<close>

definition find_all :: fts where
  "find_all = \<lparr>fts_english = \<lambda>q c. True, fts_english_rank = \<lambda>q c. 1, fts_simple = \<lambda>q c. True, fts_simple_rank = \<lambda>q c. 1,
     fts_json_text = concat\<rparr>"

abbreviation no_filters :: retrieval_filters where
  "no_filters \<equiv> \<lparr>rf_submission_id = None, rf_artifact_key = None, rf_ingestion_job_id = None\<rparr>"

lemma find_all_finds:
  assumes "c \<in> set (db_chunks db)" and "of_succeeded db c"
  shows "\<exists>r. retrieve find_all ''retry'' 1 no_filters RETRIEVAL_VERSION_SIMPLE db = Inr [r]"
proof -
  have q: "normalize_query ''retry'' = ''retry''" by code_simp
  have "c \<in> set (filter (of_succeeded db) (db_chunks db))" using assms by simp
  then obtain d ds where "sort_key (\<lambda>c. (- 1 :: real, cw_id c)) (filter (of_succeeded db) (db_chunks db)) = d # ds"
    by (metis empty_iff list.exhaust list.set(1) set_sort)
  then show ?thesis
    by (simp add: retrieve_def q retrieve_simple_def search_def find_all_def passes_def)
qed


theorem retrieve_top_k_witness:
  "\<exists>c rs. retrieve find_all ''retry'' 1 no_filters RETRIEVAL_VERSION_SIMPLE
      \<lparr>db_jobs = [(row_of None 1 ISucceeded)\<lparr>j_id := 1\<rparr>], db_chunks = [c, c\<lparr>cw_id := 2\<rparr>]\<rparr> = Inr rs \<and>
    cw_id c = 1 \<and> rc_row ` set rs = {c} \<and> distinct (map rc_row rs)"
proof -
  define d :: chunk_draft where "d = \<lparr>ch_ordinal = 0, ch_content = ''retry'', ch_sha256 = [], ch_start = 0, ch_end = 5,
    ch_line_start = 1, ch_line_end = 1, ch_block_type = ''paragraph'', ch_path = [], ch_oversized = False\<rparr>"
  define c where "c = \<lparr>cw_id = 1, cw_job_id = 1, cw_submission_id = 7, cw_artifact_key = ''submissions/x'',
    cw_parser_version = [], cw_chunker_version = [], cw_draft = d, cw_created_at = 0\<rparr>"
  let ?db = "\<lparr>db_jobs = [(row_of None 1 ISucceeded)\<lparr>j_id := 1\<rparr>], db_chunks = [c, c\<lparr>cw_id := 2\<rparr>]\<rparr>"
  have q: "normalize_query ''retry'' = ''retry''" by code_simp
  obtain rs where rs: "retrieve find_all ''retry'' 1 no_filters RETRIEVAL_VERSION_SIMPLE ?db = Inr rs" "rc_row ` set rs = {c}"
    by (simp add: retrieve_def q retrieve_simple_def search_def find_all_def passes_def of_succeeded_def c_def row_of_def example_job_def)
  have ids: "distinct (map cw_id (db_chunks ?db))" by (simp add: c_def)
  have "distinct (map rc_row rs)" by (rule retrieve_top_k [OF rs(1) ids, THEN conjunct2, THEN conjunct1])
  moreover have "cw_id c = 1" by (simp add: c_def)
  ultimately show ?thesis using rs by blast
qed

theorem query_metrics_bounds_witness:
  "\<exists>m. evaluate_query ''q1'' [4, 2, 3] {2, 3, 9 :: nat} [1, 2] = Inr m \<and> qm_zero_hit m = False \<and>
    (\<forall>(k, v)\<in>set (qm_recall_at m) \<union> set (qm_precision_at m). 0 \<le> v \<and> v \<le> 1) \<and> qm_mrr m \<le> 1"
proof -
  obtain m where m: "evaluate_query ''q1'' [4, 2, 3] {2, 3, 9 :: nat} [1, 2] = Inr m"
    by (simp add: evaluate_query_def recall_at_k_def precision_at_k_def)
  show ?thesis using query_metrics_bounds [OF m] m by auto
qed

theorem recall_precision_consistent_witness:
  "\<exists>m r p. evaluate_query ''q1'' [4, 2, 3] {2, 3, 9 :: nat} [1, 2] = Inr m \<and> (2, r) \<in> set (qm_recall_at m) \<and>
    (2, p) \<in> set (qm_precision_at m) \<and> r * 3 = p * 2"
proof -
  obtain m where m: "evaluate_query ''q1'' [4, 2, 3] {2, 3, 9 :: nat} [1, 2] = Inr m"
    by (simp add: evaluate_query_def recall_at_k_def precision_at_k_def)
  obtain r where r: "(2, r) \<in> set (qm_recall_at m)" using query_values(3) [OF m] by force
  obtain p where p: "(2, p) \<in> set (qm_precision_at m)" using query_values(4) [OF m] by force
  note rp = r p
  have "r * real (card {2, 3, 9 :: nat}) = p * of_int 2"
    using recall_precision_consistent [OF m _ _ rp(1), of p] rp(2) by simp
  then show ?thesis using m rp by auto
qed

theorem ilike_plain_query_witness:
  "ilike_within ''The Retry Policy'' ''retry'' \<and> \<not> ilike_within ''The Retry Policy'' ''rety''"
proof -
  have "contains (lower ''retry'') (lower ''The Retry Policy'')" "\<not> contains (lower ''rety'') (lower ''The Retry Policy'')"
    by code_simp+
  then show ?thesis
    using ilike_plain_query [of "''retry''" "''The Retry Policy''"] ilike_plain_query [of "''rety''" "''The Retry Policy''"] by simp
qed

end
