(* ===== verification/Api_Guarantees.thy ===== *)
theory Api_Guarantees
  imports Api
begin

text \<open>
  What the HTTP interface guarantees, composed from the services: errors are opaque and leave
  the tables as they were, nobody changes or reads anything without an identity, submissions are shown to their
  authors and organizers only, and the author of a submitted submission always gets its evaluation.
\<close>

section \<open>Errors of the services\<close>

lemma enqueue_artifact_Inl:
  "enqueue_artifact st fault now fresh i key a = (Inl e, a') \<Longrightarrow> a' = a \<and> http_status e = 500"
  by (auto simp: enqueue_artifact_def enqueue_def Let_def split: option.splits if_splits)

lemma create_submission_Inl:
  "create_submission env st faults clock fresh actor ch md key art s = (Inl e, s') \<Longrightarrow>
     fst s' = fst s \<or> http_status e = 500"
  by (auto simp: create_submission_def Let_def split: prod.splits sum.splits dest!: enqueue_artifact_Inl)

lemma finish_replace_Inl:
  "finish_replace st faults now fresh row md key s = (Inl e, s') \<Longrightarrow> http_status e = 500"
  by (auto simp: finish_replace_def Let_def reread_def split: prod.splits sum.splits if_splits option.splits
      dest!: enqueue_artifact_Inl)

lemma update_created_Inl:
  "update_created env st faults clock fresh actor i md art s = (Inl e, s') \<Longrightarrow> fst s' = fst s \<or> http_status e = 500"
  by (auto simp: update_created_def split: prod.splits sum.splits dest!: finish_replace_Inl)

lemma attach_artifact_Inl:
  "attach_artifact env st faults clock fresh actor i content ct fname expected s = (Inl e, s') \<Longrightarrow>
     fst s' = fst s \<or> http_status e = 500"
  by (auto simp: attach_artifact_def attach_incoming_def Let_def split: prod.splits sum.splits dest!: finish_replace_Inl)

lemma service_errors:
  "create_hackathon now u actor ti d c = (Inl e, c') \<Longrightarrow> c' = c"
  "publish_hackathon now actor i c = (Inl e, c') \<Longrightarrow> c' = c"
  "create_challenge now u fc actor i ti d cs spec criteria c = (Inl e, c') \<Longrightarrow> c' = c"
  "publish_challenge now actor i c = (Inl e, c') \<Longrightarrow> c' = c"
  "close_challenge now actor i c = (Inl e, c') \<Longrightarrow> c' = c"
  "submit_submission env st fault now u actor i a = (Inl e, a') \<Longrightarrow> a' = a"
  "cancel_submission fault now actor i a = (Inl e, a') \<Longrightarrow> a' = a"
  unfolding create_hackathon_def publish_hackathon_def create_challenge_def publish_challenge_def close_challenge_def
    submit_submission_def cancel_submission_def
  by (blast dest: commit_or_keep_Inl)+

lemma on_catalog_Inl:
  assumes "fst (on_catalog n f x s) = Inl e" and "\<And>c'. x = (Inl e, c') \<Longrightarrow> c' = ap_catalog (fst s)"
  shows "fst (snd (on_catalog n f x s)) = fst s"
  using assms by (cases x; cases "fst x") (auto simp: on_catalog_def reply_def)

lemma on_app_Inl:
  assumes "fst (on_app n f x s) = Inl e" and "\<And>a'. x = (Inl e, a') \<Longrightarrow> a' = fst s"
  shows "fst (snd (on_app n f x s)) = fst s"
  using assms by (cases x; cases "fst x") (auto simp: on_app_def reply_def)

lemma on_state_Inl:
  assumes "fst (on_state n f x) = Inl e" and "\<And>s'. x = (Inl e, s') \<Longrightarrow> fst s' = fst s \<or> http_status e = 500"
  shows "fst (snd (on_state n f x)) = fst s \<or> http_status e = 500"
  using assms by (cases x; cases "fst x") (auto simp: on_state_def)

lemma reading_sel [simp]: "fst (reading r s) = r" "snd (reading r s) = s"
  by (simp_all add: reading_def)

text \<open>An error that is not an internal one leaves the tables as they were.\<close>

lemma handle_route_Inl:
  assumes "fst (handle_route env st ce actor rt s) = Inl e"
  shows "fst (snd (handle_route env st ce actor rt s)) = fst s \<or> http_status e = 500"
  using assms
proof (cases rt)
  case (RtCreateSubmission i md key)
  from assms show ?thesis unfolding RtCreateSubmission handle_route.simps
    by (rule on_state_Inl) (rule create_submission_Inl)
next
  case (RtUpdateSubmission i md)
  from assms show ?thesis unfolding RtUpdateSubmission handle_route.simps
    by (rule on_state_Inl) (rule update_created_Inl)
next
  case (RtAttach i content ct fname expected)
  from assms show ?thesis unfolding RtAttach handle_route.simps
    by (rule on_state_Inl) (rule attach_artifact_Inl)
next
  case (RtSubmit i)
  from assms have "fst (snd (handle_route env st ce actor rt s)) = fst s"
    unfolding RtSubmit handle_route.simps Let_def by (rule on_app_Inl) (rule service_errors)
  then show ?thesis ..
next
  case (RtCancel i)
  from assms have "fst (snd (handle_route env st ce actor rt s)) = fst s"
    unfolding RtCancel handle_route.simps by (rule on_app_Inl) (rule service_errors)
  then show ?thesis ..
qed (use assms in \<open>auto intro!: on_catalog_Inl dest: service_errors\<close>)

section \<open>Responses\<close>

fun is_error :: "body \<Rightarrow> bool" where
  "is_error (BError r) = True"
| "is_error _ = False"

lemma reply_Inr: "reply n f r = Inr x \<longleftrightarrow> (\<exists>y. r = Inr y \<and> x = (n, f y))"
  by (cases r) (auto simp: reply_def)

lemma on_catalog_Inr: "fst (on_catalog n f x s) = Inr y \<longleftrightarrow> (\<exists>z. fst x = Inr z \<and> y = (n, f z))"
  by (auto simp: on_catalog_def reply_Inr)

lemma on_app_Inr: "fst (on_app n f x s) = Inr y \<longleftrightarrow> (\<exists>z. fst x = Inr z \<and> y = (n, f z))"
  by (auto simp: on_app_def reply_Inr)

lemma on_state_Inr: "fst (on_state n f x) = Inr y \<longleftrightarrow> (\<exists>z. fst x = Inr z \<and> y = (n z, f z))"
  by (cases "fst x") (auto simp: on_state_def)

lemmas answer_Inr = reply_Inr on_catalog_Inr on_app_Inr on_state_Inr

lemma handle_route_Inr:
  assumes "fst (handle_route env st ce actor rt s) = Inr (n, b)"
  shows "n \<in> {200, 201} \<and> \<not> is_error b"
  using assms by (cases rt) (auto simp: answer_Inr Let_def split: prod.splits if_splits)

lemma http_status_range: "http_status e \<in> {400, 401, 403, 404, 409, 422, 500}"
  by (cases e) simp_all

lemma internal_error: "http_status e = 500 \<Longrightarrow> error_code e = ''internal_error'' \<and> error_message e = ''An unexpected error occurred.''"
  by (cases e) simp_all


section \<open>Identities and methods\<close>

text \<open>The routes of a \<open>GET\<close> request.\<close>

fun is_get :: "route \<Rightarrow> bool" where
  "is_get (RtCreateHackathon ti d) = False"
| "is_get (RtPublishHackathon i) = False"
| "is_get (RtCreateChallenge i ti d cs spec criteria) = False"
| "is_get (RtPublishChallenge i) = False"
| "is_get (RtCloseChallenge i) = False"
| "is_get (RtCreateSubmission i md key) = False"
| "is_get (RtUpdateSubmission i md) = False"
| "is_get (RtAttach i content ct fname expected) = False"
| "is_get (RtSubmit i) = False"
| "is_get (RtCancel i) = False"
| "is_get _ = True"


section \<open>Who reads what\<close>

definition may_read :: "current_user \<Rightarrow> uuid \<Rightarrow> uuid \<Rightarrow> catalog \<Rightarrow> bool" where
  "may_read actor participant ch c \<longleftrightarrow> participant = cu_id actor \<or>
     (\<exists>r\<in>set (ct_challenges c). c_id r = ch \<and> organizes actor (c_hackathon_id r) c)"

fun submissions_in :: "body \<Rightarrow> submission_response list" where
  "submissions_in (BSubmissions xs) = xs"
| "submissions_in (BSubmission x) = [x]"
| "submissions_in _ = []"

lemma serialize_submission_sel [simp]:
  "sr_participant_id (serialize_submission rep e b s) = s_participant_id s"
  "sr_challenge_id (serialize_submission rep e b s) = s_challenge_id s"
  "sr_id (serialize_submission rep e b s) = s_id s"
  by (simp_all add: serialize_submission_def)

text \<open>What a service returns to an author is the author's.\<close>

lemma create_begin_own:
  "create_begin env st actor ch md idem art subs = Inr (Inl x) \<Longrightarrow> s_participant_id x = cu_id actor"
  "create_begin env st actor ch md idem art subs = Inr (Inr rq) \<Longrightarrow> cq_actor rq = cu_id actor"
  by (auto simp: create_begin_def try_in_def Let_def replay_or_conflict_def find_by_idempotency_def
      dest!: find_SomeD split: sum.splits option.splits if_splits)

lemma create_resolve_own:
  "create_resolve env e rq subs = Inr x \<Longrightarrow> s_participant_id x = cq_actor rq"
  by (auto simp: create_resolve_def replay_or_conflict_def find_by_idempotency_def Let_def
      dest!: find_SomeD split: option.splits if_splits)

lemma create_submission_own:
  assumes "fst (create_submission env st faults clock fresh actor ch md key art s) = Inr (x, rep)"
  shows "s_participant_id x = cu_id actor"
proof -
  have i: "create_insert f now u rq k a = Inr (row, a') \<Longrightarrow> s_participant_id row = cq_actor rq" for f now u rq k a row a'
    by (auto simp: create_insert_def submission_add_def Let_def split: if_splits)
  have m: "map_sum id (\<lambda>y. (y, True)) r = Inr (x, rep) \<Longrightarrow> r = Inr x" for r :: "exn + submission"
    by (cases r) auto
  show ?thesis using assms
    by (auto simp: create_submission_def Let_def split: prod.splits sum.splits
        dest!: m create_resolve_own i dest: create_begin_own)
qed

lemma find_update_where:
  assumes "\<And>x. key (f x) = key x"
  shows "find (\<lambda>x. key x = k) (update_where p f xs) = map_option (\<lambda>x. if p x then f x else x) (find (\<lambda>x. key x = k) xs)"
  using assms by (induction xs) (auto simp: update_where_def)

lemma update_begin_own:
  "update_begin actor i subs = Inr row \<Longrightarrow> submission_get (s_id row) subs = Some row \<and> s_participant_id row = cu_id actor"
  by (auto simp: update_begin_def submission_get_def dest: find_SomeD split: option.splits if_splits)

lemma finish_replace_own:
  assumes "fst (finish_replace st faults now fresh row md key s) = Inr x"
    and "submission_get (s_id row) (ap_subs (fst s)) = Some row"
  shows "s_participant_id x = s_participant_id row"
proof -
  have "submission_get (s_id row) (ap_subs (replace_commit now row md key a)) =
      map_option (\<lambda>y. if s_id y = s_id row then y\<lparr>s_metadata := (case md of None \<Rightarrow> s_metadata y | Some d \<Rightarrow> d),
        s_artifact_key := (case key of None \<Rightarrow> s_artifact_key y | Some k \<Rightarrow> Some k), s_updated_at := now\<rparr> else y)
        (submission_get (s_id row) (ap_subs a))" for a
    unfolding replace_commit_def submission_get_def by (simp add: find_update_where [where key = s_id])
  then show ?thesis
    using assms by (auto simp: finish_replace_def reread_def Let_def split: prod.splits sum.splits if_splits option.splits
        dest!: enqueue_artifact_rows)
qed

lemma update_created_own:
  "fst (update_created env st faults clock fresh actor i md art s) = Inr x \<Longrightarrow> s_participant_id x = cu_id actor"
  by (auto simp: update_created_def split: sum.splits prod.splits dest!: update_begin_own finish_replace_own)

lemma attach_artifact_own:
  assumes "fst (attach_artifact env st faults clock fresh actor i content ct fname expected s) = Inr x"
  shows "s_participant_id x = cu_id actor"
proof -
  have f: "finish_replace st faults now u row md key (a, fs) = (Inr x, s') \<Longrightarrow>
      submission_get (s_id row) (ap_subs a) = Some row \<and> s_participant_id row = cu_id actor \<Longrightarrow> s_participant_id x = cu_id actor"
    for now u row md key a fs s'
    using finish_replace_own [of st faults now u row md key "(a, fs)" x] by simp
  show ?thesis using assms
    by (auto simp: attach_artifact_def attach_incoming_def Let_def split: sum.splits prod.splits
        dest!: update_begin_own dest: f)
qed

lemma not_transitioned_own:
  "not_transitioned actor i target subs = Inr x \<Longrightarrow> s_participant_id x = cu_id actor"
  by (auto simp: not_transitioned_def split: option.splits if_splits)

lemma transitioned_own:
  "transition_if_created now i w target subs = (Some x, subs') \<Longrightarrow> s_participant_id x = w"
  by (auto simp: transition_if_created_def update_returning_def created_by_def dest!: find_SomeD split: option.splits)

lemma submit_submission_own:
  "fst (submit_submission env st fault now u actor i a) = Inr (x, e) \<Longrightarrow> s_participant_id x = cu_id actor"
  by (auto simp: submit_submission_def try_in_def commit_or_keep_def Let_def
      split: sum.splits prod.splits option.splits if_splits dest!: not_transitioned_own transitioned_own)

lemma cancel_submission_own:
  "fst (cancel_submission fault now actor i a) = Inr x \<Longrightarrow> s_participant_id x = cu_id actor"
  by (auto simp: cancel_submission_def try_in_def commit_or_keep_def
      split: sum.splits prod.splits option.splits if_splits dest!: not_transitioned_own transitioned_own)

lemma organizer_may_view_read:
  assumes "organizer_may_view msg actor x c = Inr ()" and "is_organizer actor"
  shows "may_read actor (s_participant_id x) (s_challenge_id x) c"
  using assms by (fastforce simp: organizer_may_view_def may_read_def challenge_get_def challenge_row_def hackathon_get_def
      organizes_def dest!: find_SomeD split: option.splits if_splits)

lemma get_submission_read:
  "get_submission actor i a = Inr x \<Longrightarrow> may_read actor (s_participant_id x) (s_challenge_id x) (ap_catalog a)"
  by (auto simp: get_submission_def try_in_Inr may_read_def split: option.splits if_splits
      dest: organizer_may_view_read [unfolded may_read_def])

lemma list_submissions_read:
  "list_submissions actor i a = Inr xs \<Longrightarrow> x \<in> set xs \<Longrightarrow> may_read actor (s_participant_id x) (s_challenge_id x) (ap_catalog a)"
  by (auto simp: list_submissions_def try_in_Inr list_for_challenge_def may_read_def dest!: owned_challengeD)

lemma list_for_user_read:
  "list_for_user actor u a = Inr xs \<Longrightarrow> x \<in> set xs \<Longrightarrow> s_participant_id x = u \<and> (u = cu_id actor \<or> is_organizer actor)"
  by (auto simp: list_for_user_def list_for_participant_def split: if_splits)

lemma participant_view_read:
  assumes "get_participant_view actor i a = Inr v"
  shows "\<exists>y\<in>set (ap_subs a). s_id y = pv_submission_id v \<and> may_read actor (s_participant_id y) (s_challenge_id y) (ap_catalog a)"
proof -
  obtain y e where y: "submission_get i (ap_subs a) = Some y" "authorize_view actor y (ap_catalog a) = Inr ()"
      "get_by_submission (ap_queue a) i = Some e" "v = to_participant_view (ap_queue a) e"
    using assms by (auto simp: get_participant_view_def get_for_submission_def try_in_def split: option.splits sum.splits)
  have "pv_submission_id v = i" using y(3,4) find_SomeD
    by (fastforce simp: get_by_submission_def to_participant_view_def)
  moreover have "may_read actor (s_participant_id y) (s_challenge_id y) (ap_catalog a)"
    using y(2) organizer_may_view_read [of "''You cannot view this evaluation.''" actor y "ap_catalog a"]
    by (auto simp: authorize_view_def may_read_def split: if_splits)
  ultimately show ?thesis using y(1) find_SomeD by (fastforce simp: submission_get_def)
qed

lemma handle_request_identified:
  assumes "get_current_user (rq_user_header rq) (rq_user_cookie rq) (ap_catalog (fst s)) = Inr actor"
    and "x \<in> set (submissions_in (rp_body (fst (handle_request env st ce rq s)))) \<or>
      rp_body (fst (handle_request env st ce rq s)) = BEvaluation v"
  shows "\<exists>n. fst (handle_route env st ce actor (rq_route rq) s) = Inr (n, rp_body (fst (handle_request env st ce rq s)))"
proof (cases "handle_public (rq_route rq) (ap_catalog (fst s))")
  case (Some r)
  then have "rp_body (fst (handle_request env st ce rq s)) = snd r"
    by (simp add: handle_request_def respond_def split: prod.splits)
  moreover have "submissions_in (snd r) = [] \<and> snd r \<noteq> BEvaluation v" using Some by (cases "rq_route rq") auto
  ultimately show ?thesis using assms(2) by auto
next
  case None
  then show ?thesis using assms
    by (auto simp: handle_request_def respond_def error_response_def split: prod.splits sum.splits if_splits)
qed

text \<open>
  C7. Confidentiality: whatever an identified user asks, every submission in the response is the user's own
  or belongs to a challenge of a hackathon the user organizes, except for the list of one user's
  submissions, which any organizer gets; and an evaluation is shown to those two only.
\<close>

theorem submissions_confidential:
  assumes "get_current_user (rq_user_header rq) (rq_user_cookie rq) (ap_catalog (fst s)) = Inr actor"
    and "b = rp_body (fst (handle_request env st ce rq s))"
  shows "(\<forall>x\<in>set (submissions_in b). may_read actor (sr_participant_id x) (sr_challenge_id x) (ap_catalog (fst s)) \<or>
      is_organizer actor \<and> rq_route rq = RtUserSubmissions (sr_participant_id x)) \<and>
    (\<forall>v. b = BEvaluation v \<longrightarrow> (\<exists>y\<in>set (ap_subs (fst s)). s_id y = vr_submission_id v \<and>
      may_read actor (s_participant_id y) (s_challenge_id y) (ap_catalog (fst s))))"
proof -
  have own: "may_read actor (cu_id actor) ch c" for ch c by (simp add: may_read_def)
  have subs: "may_read actor (sr_participant_id x) (sr_challenge_id x) (ap_catalog (fst s)) \<or>
      is_organizer actor \<and> rt = RtUserSubmissions (sr_participant_id x)"
    if r: "fst (handle_route env st ce actor rt s) = Inr (n, b)" and x: "x \<in> set (submissions_in b)" for rt n x
  proof (cases rt)
    case (RtListSubmissions i)
    then show ?thesis using r x list_submissions_read by (fastforce simp: answer_Inr)
  next
    case (RtCreateSubmission i md key)
    then show ?thesis using r x own by (auto simp: answer_Inr dest!: create_submission_own)
  next
    case (RtGetSubmission i)
    then show ?thesis using r x get_submission_read by (fastforce simp: answer_Inr)
  next
    case (RtUpdateSubmission i md)
    then show ?thesis using r x own by (auto simp: answer_Inr dest!: update_created_own)
  next
    case (RtAttach i content ct fname expected)
    then show ?thesis using r x own by (auto simp: answer_Inr dest!: attach_artifact_own)
  next
    case (RtSubmit i)
    then show ?thesis using r x own by (auto simp: answer_Inr Let_def dest!: submit_submission_own)
  next
    case (RtCancel i)
    then show ?thesis using r x own by (auto simp: answer_Inr dest!: cancel_submission_own)
  next
    case (RtUserSubmissions u)
    then show ?thesis using r x own list_for_user_read by (fastforce simp: answer_Inr)
  qed (use r x in \<open>auto simp: answer_Inr\<close>)
  moreover have "\<exists>y\<in>set (ap_subs (fst s)). s_id y = vr_submission_id v \<and>
      may_read actor (s_participant_id y) (s_challenge_id y) (ap_catalog (fst s))"
    if r: "fst (handle_route env st ce actor rt s) = Inr (n, BEvaluation v)" for rt n v
  proof -
    obtain i w where "rt = RtEvaluation i" "get_participant_view actor i (fst s) = Inr w" "v = serialize_evaluation w"
      using r by (cases rt) (auto simp: answer_Inr Let_def split: prod.splits)
    then show ?thesis using participant_view_read by (fastforce simp: serialize_evaluation_def)
  qed
  moreover have "\<exists>n. fst (handle_route env st ce actor (rq_route rq) s) = Inr (n, b)"
    if "x \<in> set (submissions_in b) \<or> b = BEvaluation v" for x v
    using handle_request_identified [OF assms(1), of x env st ce v] that by (simp add: assms(2))
  ultimately show ?thesis by metis
qed

text \<open>
  The exception at work: an organizer of another hackathon is refused a submission, but
  reads it in the list of its author.
\<close>

theorem organizer_lists_foreign_submissions:
  assumes "is_organizer actor" and "submission_get (s_id x) (ap_subs (fst s)) = Some x"
    and "user_get (s_participant_id x) (ap_catalog (fst s)) \<noteq> None" and "s_participant_id x \<noteq> cu_id actor"
    and "challenge_get (s_challenge_id x) (ap_catalog (fst s)) = Some r"
    and "hackathon_get (c_hackathon_id r) (ap_catalog (fst s)) = Some h" and "h_organizer_id h \<noteq> cu_id actor"
  shows "fst (handle_route env st ce actor (RtGetSubmission (s_id x)) s) =
      Inl (PermissionDenied ''You cannot view this submission.'') \<and>
    (\<exists>xs. fst (handle_route env st ce actor (RtUserSubmissions (s_participant_id x)) s) = Inr (200, BSubmissions xs) \<and>
       serialize_submission None None None x \<in> set xs)"
proof -
  have "x \<in> set (ap_subs (fst s))" using assms(2) find_SomeD by (fastforce simp: submission_get_def)
  then show ?thesis
    using assms by (auto simp: reply_def get_submission_def organizer_may_view_def list_for_user_def list_for_participant_def)
qed

section \<open>The evaluation of a submitted submission\<close>

text \<open>
  C6. In every reachable state of the platform, whatever interleaved, the author of a submitted submission who
  asks for its evaluation gets it: with a score only once it succeeded, and with a number of
  jobs ahead exactly while it is queued, which is its index in the FIFO order.
\<close>

theorem author_gets_evaluation:
  assumes "initial p0" and "(platform_step env st)\<^sup>*\<^sup>* p0 p" and "x \<in> set (ap_subs (pf_app p))"
    and "s_status x = SSubmitted" and "s_participant_id x = cu_id actor"
    and "get_current_user (rq_user_header rq) (rq_user_cookie rq) (ap_catalog (pf_app p)) = Inr actor"
    and "rq_route rq = RtEvaluation (s_id x)"
  shows "\<exists>v. handle_request env st ce rq (pf_app p, pf_files p) =
      (\<lparr>rp_status = 200, rp_body = BEvaluation v\<rparr>, pf_app p, pf_files p) \<and>
    vr_submission_id v = s_id x \<and> vr_submission_accepted v \<and>
    (vr_score v \<noteq> None \<longrightarrow> vr_status v = ''succeeded'') \<and>
    (vr_estimated_jobs_ahead v \<noteq> None \<longleftrightarrow> vr_status v = ''queued'') \<and>
    (\<forall>k. vr_estimated_jobs_ahead v = Some k \<longrightarrow> k < length (queued_fifo (ap_queue (pf_app p))) \<and>
       e_submission_id (queued_fifo (ap_queue (pf_app p)) ! k) = s_id x)"
proof -
  let ?a = "pf_app p" and ?q = "ap_queue (pf_app p)"
  have l: "tables_linked ?a" using reachable_linked [OF assms(2)] initial_linked [OF assms(1)] .
  have get: "submission_get (s_id x) (ap_subs ?a) = Some x"
    using l assms(3) unfolding tables_linked_def submission_get_def by (intro find_distinct_key) blast+
  have "s_id x \<in> e_submission_id ` set (evals ?q)" using l assms(3,4) by (simp add: tables_linked_def)
  then obtain e where e: "e \<in> set (evals ?q)" "e_submission_id e = s_id x" by auto
  have "find (\<lambda>y. e_submission_id y = e_submission_id e) (evals ?q) = Some e"
    using l e(1) unfolding tables_linked_def by (intro find_distinct_key) blast+
  then have by_sub: "get_by_submission ?q (s_id x) = Some e" by (simp add: get_by_submission_def e(2))
  let ?v = "to_participant_view ?q e"
  have view: "get_participant_view actor (s_id x) ?a = Inr ?v"
    using get by_sub assms(5) by (simp add: get_participant_view_def get_for_submission_def authorize_view_def)
  have ids: "ids_unique ?q" using l by (simp add: tables_linked_def ids_unique_def)
  have pos: "\<exists>k<length (queued_fifo ?q). queue_position ?q (e_id e) = Some k \<and> queued_fifo ?q ! k = e" if "e_status e = EQueued"
  proof -
    have "e \<in> set (queued_fifo ?q)" using e(1) that by (simp add: queued_fifo_def is_queued_def)
    then obtain k where "k < length (queued_fifo ?q)" "queued_fifo ?q ! k = e" unfolding in_set_conv_nth by blast
    then show ?thesis using queue_position_is_fifo_index [OF ids] by blast
  qed
  let ?r = "serialize_evaluation ?v"
  have "handle_request env st ce rq (?a, pf_files p) = (\<lparr>rp_status = 200, rp_body = BEvaluation ?r\<rparr>, ?a, pf_files p)"
    using assms(6,7) view by (simp add: handle_request_def reading_def reply_def respond_def)
  moreover have "vr_submission_id ?r = s_id x \<and> vr_submission_accepted ?r \<and>
      (vr_score ?r \<noteq> None \<longrightarrow> vr_status ?r = ''succeeded'')"
    using e(2) by (simp add: serialize_evaluation_def to_participant_view_def)
  moreover have "vr_estimated_jobs_ahead ?r \<noteq> None \<longleftrightarrow> vr_status ?r = ''queued''"
    using pos by (cases "e_status e") (auto simp: serialize_evaluation_def to_participant_view_def)
  moreover have "k < length (queued_fifo ?q) \<and> e_submission_id (queued_fifo ?q ! k) = s_id x"
    if "vr_estimated_jobs_ahead ?r = Some k" for k
    using that pos e(2) by (auto simp: serialize_evaluation_def to_participant_view_def split: if_splits)
  ultimately show ?thesis by blast
qed

section \<open>Witnesses\<close>

definition demo_call :: call_env where
  "demo_call = \<lparr>ce_now = 7, ce_time = 0, ce_uuids = (21, 22, 23), ce_criterion = id, ce_faults = (False, False),
     ce_schema_errors = []\<rparr>"

definition request_of :: "uuid \<Rightarrow> route \<Rightarrow> http_request" where
  "request_of i rt = \<lparr>rq_user_header = Some (uuid_str i), rq_user_cookie = None, rq_request_id = ''r1'', rq_route = rt\<rparr>"

definition demo_submitted_app :: app where
  "demo_submitted_app = (pf_app demo_platform)\<lparr>ap_subs := [demo_row\<lparr>s_status := SSubmitted\<rparr>],
     ap_queue := \<lparr>evals = [demo_evaluation], sched = None\<rparr>\<rparr>"

lemma demo_user:
  "get_current_user (Some (uuid_str 2)) cookie (ap_catalog (pf_app demo_platform)) = Inr participant_two"
proof -
  have "uuid_str 2 \<noteq> []" using uuid_str_plain by blast
  moreover have "parse_uuid (uuid_str 2) = Some 2" by (rule parse_uuid_str) (simp add: uuid_ok_def)
  ultimately show ?thesis
    by (simp add: get_current_user_def demo_platform_def demo_catalog_def user_get_def from_user_def participant_two_def)
qed

lemma demo_submitted_reachable:
  "\<exists>p. (platform_step demo_env default_settings)\<^sup>*\<^sup>* demo_platform p \<and> pf_app p = demo_submitted_app"
proof -
  obtain s1 s2 where s: "(platform_step demo_env default_settings)\<^sup>*\<^sup>* demo_platform s2"
      "s2 = enter 0 (QEnqueue 11 (Some demo_key)) (s1\<lparr>pf_app := (pf_app demo_platform)\<lparr>ap_subs := [demo_row]\<rparr>\<rparr>)"
    by (rule demo_submitted)
  have "submit_submission demo_env default_settings False 0 12 participant_two 11 (pf_app s2) =
      (Inr (demo_row\<lparr>s_status := SSubmitted\<rparr>, demo_evaluation), demo_submitted_app)"
    using demo_submit by (simp add: s(2) demo_submitted_app_def)
  then have "(platform_step demo_env default_settings)\<^sup>*\<^sup>* demo_platform (s2\<lparr>pf_app := demo_submitted_app\<rparr>)"
    using s(1) step_submit by (metis rtranclp.rtrancl_into_rtrancl)
  then show ?thesis by (intro exI [of _ "s2\<lparr>pf_app := demo_submitted_app\<rparr>"]) simp
qed

theorem author_gets_evaluation_witness:
  "\<exists>p v. (platform_step demo_env default_settings)\<^sup>*\<^sup>* demo_platform p \<and>
     handle_request demo_env default_settings demo_call (request_of 2 (RtEvaluation 11)) (pf_app p, pf_files p) =
       (\<lparr>rp_status = 200, rp_body = BEvaluation v\<rparr>, pf_app p, pf_files p) \<and> vr_submission_id v = 11"
proof -
  obtain p where p: "(platform_step demo_env default_settings)\<^sup>*\<^sup>* demo_platform p" "pf_app p = demo_submitted_app"
    using demo_submitted_reachable by blast
  have x: "demo_row\<lparr>s_status := SSubmitted\<rparr> \<in> set (ap_subs (pf_app p))" "s_status (demo_row\<lparr>s_status := SSubmitted\<rparr>) = SSubmitted"
      "s_participant_id (demo_row\<lparr>s_status := SSubmitted\<rparr>) = cu_id participant_two"
    by (simp_all add: p(2) demo_submitted_app_def demo_row_def participant_two_def)
  have u: "get_current_user (rq_user_header (request_of 2 (RtEvaluation 11))) (rq_user_cookie (request_of 2 (RtEvaluation 11)))
      (ap_catalog (pf_app p)) = Inr participant_two"
    using demo_user by (simp add: p(2) demo_submitted_app_def request_of_def)
  have "rq_route (request_of 2 (RtEvaluation 11)) = RtEvaluation (s_id (demo_row\<lparr>s_status := SSubmitted\<rparr>))"
    by (simp add: request_of_def demo_row_def)
  from author_gets_evaluation [OF demo_initial p(1) x u this, where ce = demo_call] show ?thesis
    using p(1) by (auto simp: demo_row_def)
qed


theorem submissions_confidential_witness:
  "\<exists>x. submissions_in (rp_body (fst (handle_request demo_env default_settings demo_call (request_of 2 (RtGetSubmission 11))
      (demo_submitted_app, [])))) = [x] \<and>
     (may_read participant_two (sr_participant_id x) (sr_challenge_id x) demo_catalog \<or> is_organizer participant_two)"
proof -
  have u: "get_current_user (rq_user_header (request_of 2 (RtGetSubmission 11))) (rq_user_cookie (request_of 2 (RtGetSubmission 11)))
      (ap_catalog (fst (demo_submitted_app, []))) = Inr participant_two"
    using demo_user by (simp add: demo_submitted_app_def request_of_def)
  have "get_submission participant_two 11 demo_submitted_app = Inr (demo_row\<lparr>s_status := SSubmitted\<rparr>)"
    by (simp add: get_submission_def submission_get_def demo_submitted_app_def demo_row_def participant_two_def)
  then have b: "submissions_in (rp_body (fst (handle_request demo_env default_settings demo_call (request_of 2 (RtGetSubmission 11))
      (demo_submitted_app, [])))) = [serialize_submission None None None (demo_row\<lparr>s_status := SSubmitted\<rparr>)]"
    using u by (simp add: handle_request_def request_of_def reply_def reading_def respond_def)
  have "ap_catalog demo_submitted_app = demo_catalog" by (simp add: demo_submitted_app_def demo_platform_def)
  then show ?thesis using submissions_confidential [OF u refl, of demo_env default_settings demo_call] b by auto
qed

theorem organizer_lists_foreign_submissions_witness:
  "\<exists>xs. fst (handle_route demo_env default_settings demo_call \<lparr>cu_id = 9, cu_name = ''Eve'', cu_role = ORGANIZER\<rparr>
      (RtUserSubmissions 2) (demo_submitted_app, [])) = Inr (200, BSubmissions xs) \<and> xs \<noteq> []"
proof -
  let ?e = "\<lparr>cu_id = 9, cu_name = ''Eve'', cu_role = ORGANIZER\<rparr>" and ?x = "demo_row\<lparr>s_status := SSubmitted\<rparr>"
  have "\<exists>xs. fst (handle_route demo_env default_settings demo_call ?e (RtUserSubmissions (s_participant_id ?x)) (demo_submitted_app, [])) =
      Inr (200, BSubmissions xs) \<and> serialize_submission None None None ?x \<in> set xs"
    by (rule organizer_lists_foreign_submissions [
          where r = "challenge_to_domain (draft_challenge\<lparr>c_status := CPublished\<rparr>)"
            and h = "\<lparr>h_id = 3, h_title = ''t'', h_description = ''d'', h_status = HPublished, h_organizer_id = 1,
              h_created_at = 0, h_updated_at = 0\<rparr>", THEN conjunct2])
      (simp_all add: is_organizer_def submission_get_def demo_submitted_app_def demo_platform_def demo_catalog_def
        example_catalog_def user_get_def demo_row_def challenge_get_def challenge_row_def draft_challenge_def hackathon_get_def)
  then obtain xs where "fst (handle_route demo_env default_settings demo_call ?e (RtUserSubmissions (s_participant_id ?x)) (demo_submitted_app, [])) =
      Inr (200, BSubmissions xs)" "serialize_submission None None None ?x \<in> set xs" by blast
  then show ?thesis by (intro exI [of _ xs]) (auto simp: demo_row_def)
qed

end
