(* ===== verification/Coalescing.thy ===== *)
theory Coalescing
  imports Prelude
begin

text \<open>
  \<open>runtime/coalescing.py\<close>: one computation in flight per key, shared by the tasks that ask for it. The
  state holds the futures by number, the in-flight table and the statistics; a task is in the phase its
  coroutine waits in. \<open>do_begin\<close> is \<open>do\<close> up to its first suspension, \<open>do_finish\<close> what follows the
  computation of the leader, \<open>do_resume\<close> what follows the shielded wait of a joiner.
\<close>

section \<open>The coalescer\<close>

datatype ('v, 'e) future = Pending | Resolved 'v | Broken 'e

text \<open>How a coroutine ends. \<open>Cancelled\<close> is Python's \<open>CancelledError\<close>, which is no \<open>Exception\<close>.\<close>

datatype ('v, 'e) ending = Returned 'v | Raised 'e | Cancelled

datatype ('v, 'e) task = Idle | Leading string nat | Joining nat | Finished "('v, 'e) ending"

record coalescing_stats =
  cs_submissions :: nat
  cs_computations :: nat
  cs_joins :: nat
  cs_failures :: nat

record ('v, 'e) coalescer =
  co_inflight :: "string \<Rightarrow> nat option"
  co_futures :: "('v, 'e) future list"
  co_stats :: coalescing_stats
  co_tasks :: "nat \<Rightarrow> ('v, 'e) task"

definition new_coalescer :: "('v, 'e) coalescer" where
  "new_coalescer = \<lparr>co_inflight = (\<lambda>k. None), co_futures = [],
     co_stats = \<lparr>cs_submissions = 0, cs_computations = 0, cs_joins = 0, cs_failures = 0\<rparr>, co_tasks = (\<lambda>t. Idle)\<rparr>"

definition do_begin :: "nat \<Rightarrow> string \<Rightarrow> ('v, 'e) coalescer \<Rightarrow> ('v, 'e) coalescer" where
  "do_begin t key s =
     (let s = s\<lparr>co_stats := (co_stats s)\<lparr>cs_submissions := cs_submissions (co_stats s) + 1\<rparr>\<rparr>
      in case co_inflight s key of
           Some f \<Rightarrow>
             s\<lparr>co_stats := (co_stats s)\<lparr>cs_joins := cs_joins (co_stats s) + 1\<rparr>,
               co_tasks := (co_tasks s)(t := Joining f)\<rparr>
         | None \<Rightarrow>
             (let f = length (co_futures s)
              in s\<lparr>co_futures := co_futures s @ [Pending],
                   co_inflight := (co_inflight s)(key := Some f),
                   co_stats := (co_stats s)\<lparr>cs_computations := cs_computations (co_stats s) + 1\<rparr>,
                   co_tasks := (co_tasks s)(t := Leading key f)\<rparr>))"

text \<open>\<open>except Exception\<close> does not see a cancellation; \<open>finally\<close> removes the key in every case.\<close>

definition do_finish :: "nat \<Rightarrow> string \<Rightarrow> nat \<Rightarrow> ('v, 'e) ending \<Rightarrow> ('v, 'e) coalescer \<Rightarrow> ('v, 'e) coalescer" where
  "do_finish t key f out s =
     (let s = (case out of
          Returned v \<Rightarrow> s\<lparr>co_futures := (co_futures s)[f := Resolved v]\<rparr>
        | Raised e \<Rightarrow> s\<lparr>co_futures := (co_futures s)[f := Broken e],
            co_stats := (co_stats s)\<lparr>cs_failures := cs_failures (co_stats s) + 1\<rparr>\<rparr>
        | Cancelled \<Rightarrow> s)
      in s\<lparr>co_inflight := (co_inflight s)(key := None), co_tasks := (co_tasks s)(t := Finished out)\<rparr>)"

fun outcome_of :: "('v, 'e) future \<Rightarrow> ('v, 'e) ending option" where
  "outcome_of Pending = None"
| "outcome_of (Resolved v) = Some (Returned v)"
| "outcome_of (Broken e) = Some (Raised e)"

definition do_resume :: "nat \<Rightarrow> nat \<Rightarrow> ('v, 'e) coalescer \<Rightarrow> ('v, 'e) coalescer option" where
  "do_resume t f s =
     map_option (\<lambda>out. s\<lparr>co_tasks := (co_tasks s)(t := Finished out)\<rparr>) (outcome_of (co_futures s ! f))"

text \<open>Cancelling a joiner cancels its wait only: the future is shielded.\<close>

definition cancel_join :: "nat \<Rightarrow> ('v, 'e) coalescer \<Rightarrow> ('v, 'e) coalescer" where
  "cancel_join t s = s\<lparr>co_tasks := (co_tasks s)(t := Finished Cancelled)\<rparr>"

text \<open>The steps of the event loop. The flag says whether a leader may be cancelled.\<close>

inductive loop_step :: "bool \<Rightarrow> ('v, 'e) coalescer \<Rightarrow> ('v, 'e) coalescer \<Rightarrow> bool" for cancels where
  loop_begin: "co_tasks s t = Idle \<Longrightarrow> loop_step cancels s (do_begin t key s)"
| loop_finish: "co_tasks s t = Leading key f \<Longrightarrow> out = Cancelled \<Longrightarrow> cancels \<Longrightarrow>
    loop_step cancels s (do_finish t key f out s)"
| loop_compute: "co_tasks s t = Leading key f \<Longrightarrow> out \<noteq> Cancelled \<Longrightarrow>
    loop_step cancels s (do_finish t key f out s)"
| loop_resume: "co_tasks s t = Joining f \<Longrightarrow> do_resume t f s = Some s' \<Longrightarrow> loop_step cancels s s'"
| loop_cancel_join: "co_tasks s t = Joining f \<Longrightarrow> loop_step cancels s (cancel_join t s)"

section \<open>One computation per key\<close>

definition flights_ok :: "('v, 'e) coalescer \<Rightarrow> bool" where
  "flights_ok s \<longleftrightarrow>
     (\<forall>t key f. co_tasks s t = Leading key f \<longrightarrow> co_inflight s key = Some f \<and> co_futures s ! f = Pending) \<and>
     (\<forall>key f. co_inflight s key = Some f \<longrightarrow> f < length (co_futures s) \<and> (\<exists>t. co_tasks s t = Leading key f)) \<and>
     (\<forall>t u key key' f. co_tasks s t = Leading key f \<longrightarrow> co_tasks s u = Leading key' f \<longrightarrow> t = u) \<and>
     (\<forall>t f. co_tasks s t = Joining f \<longrightarrow> f < length (co_futures s)) \<and>
     cs_submissions (co_stats s) = cs_computations (co_stats s) + cs_joins (co_stats s) \<and>
     cs_computations (co_stats s) = length (co_futures s)"

lemma flights_okD:
  assumes "flights_ok s" and "co_tasks s t = Leading key f"
  shows "co_inflight s key = Some f" and "co_futures s ! f = Pending" and "f < length (co_futures s)"
  using assms unfolding flights_ok_def by blast+

lemma flights_leader: "flights_ok s \<Longrightarrow> co_tasks s t = Leading key f \<Longrightarrow> co_tasks s u = Leading key' f \<Longrightarrow> t = u"
  unfolding flights_ok_def by blast

lemma flights_inflight:
  assumes "flights_ok s" and "co_inflight s key = Some f"
  obtains t where "co_tasks s t = Leading key f" and "f < length (co_futures s)"
  using assms unfolding flights_ok_def by metis

lemma flights_distinct:
  assumes "flights_ok s" and "co_inflight s key = Some f" and "co_inflight s key' = Some f"
  shows "key = key'"
proof -
  obtain t where t: "co_tasks s t = Leading key f" by (rule flights_inflight [OF assms(1,2)])
  obtain u where u: "co_tasks s u = Leading key' f" by (rule flights_inflight [OF assms(1,3)])
  show ?thesis using flights_leader [OF assms(1) t u] t u by simp
qed

lemma do_finish_sel [simp]:
  "co_inflight (do_finish t key f out s) = (co_inflight s)(key := None)"
  "co_tasks (do_finish t key f out s) = (co_tasks s)(t := Finished out)"
  "length (co_futures (do_finish t key f out s)) = length (co_futures s)"
  "g \<noteq> f \<Longrightarrow> co_futures (do_finish t key f out s) ! g = co_futures s ! g"
  "cs_submissions (co_stats (do_finish t key f out s)) = cs_submissions (co_stats s)"
  "cs_computations (co_stats (do_finish t key f out s)) = cs_computations (co_stats s)"
  "cs_joins (co_stats (do_finish t key f out s)) = cs_joins (co_stats s)"
  by (simp_all add: do_finish_def Let_def split: ending.splits)

lemma do_finish_future:
  "f < length (co_futures s) \<Longrightarrow> outcome_of (co_futures s ! f) = None \<Longrightarrow>
     outcome_of (co_futures (do_finish t key f out s) ! f) = (if out = Cancelled then None else Some out)"
  by (cases out) (simp_all add: do_finish_def)

lemma flights_ok_finish:
  assumes "flights_ok s" and "co_tasks s t = Leading key f"
  shows "flights_ok (do_finish t key f out s)"
proof -
  note f = flights_okD [OF assms]
  have other: "key' \<noteq> key \<and> g \<noteq> f" if "u \<noteq> t" "co_tasks s u = Leading key' g" for u key' g
  proof -
    have "g \<noteq> f" using flights_leader [OF assms] that by blast
    moreover have "co_inflight s key' = Some g" using flights_okD(1) [OF assms(1) that(2)] .
    ultimately show ?thesis using f(1) by auto
  qed
  have kept: "\<exists>u. u \<noteq> t \<and> co_tasks s u = Leading key' g" if k: "key' \<noteq> key" "co_inflight s key' = Some g" for key' g
  proof -
    obtain u where u: "co_tasks s u = Leading key' g" by (rule flights_inflight [OF assms(1) k(2)])
    then have "u \<noteq> t" using k(1) assms(2) by auto
    then show ?thesis using u by blast
  qed
  show ?thesis
    using assms(1) other kept unfolding flights_ok_def by (simp, metis)
qed

lemma flights_ok_begin:
  assumes "flights_ok s" and "co_tasks s t = Idle"
  shows "flights_ok (do_begin t key s)"
proof (cases "co_inflight s key")
  case None
  have lead: "f < length (co_futures s) \<and> key' \<noteq> key \<and> u \<noteq> t" if "co_tasks s u = Leading key' f" for u key' f
    using flights_okD [OF assms(1) that] None assms(2) that by auto
  have kept: "\<exists>u. u \<noteq> t \<and> co_tasks s u = Leading key' f" if "co_inflight s key' = Some f" for key' f
    using flights_inflight [OF assms(1) that] lead by metis
  have join: "f < length (co_futures s)" if "co_tasks s u = Joining f" for u f
    using assms(1) that unfolding flights_ok_def by blast
  have count: "cs_submissions (co_stats s) = cs_computations (co_stats s) + cs_joins (co_stats s)"
      "cs_computations (co_stats s) = length (co_futures s)"
    using assms(1) unfolding flights_ok_def by blast+
  have sel: "co_tasks (do_begin t key s) = (co_tasks s)(t := Leading key (length (co_futures s)))"
      "co_inflight (do_begin t key s) = (co_inflight s)(key := Some (length (co_futures s)))"
      "co_futures (do_begin t key s) = co_futures s @ [Pending]"
      "cs_submissions (co_stats (do_begin t key s)) = cs_submissions (co_stats s) + 1"
      "cs_computations (co_stats (do_begin t key s)) = cs_computations (co_stats s) + 1"
      "cs_joins (co_stats (do_begin t key s)) = cs_joins (co_stats s)"
    using None by (simp_all add: do_begin_def Let_def)
  show ?thesis
    unfolding flights_ok_def sel
  proof (intro conjI allI impI)
    fix u key' f assume "((co_tasks s)(t := Leading key (length (co_futures s)))) u = Leading key' f"
    then show "((co_inflight s)(key := Some (length (co_futures s)))) key' = Some f"
        and "(co_futures s @ [Pending]) ! f = Pending"
      using flights_okD [OF assms(1), of u key' f] lead [of u key' f] by (auto simp: nth_append split: if_splits)
  next
    fix key' f assume "((co_inflight s)(key := Some (length (co_futures s)))) key' = Some f"
    then show "f < length (co_futures s @ [Pending])"
        and "\<exists>u. ((co_tasks s)(t := Leading key (length (co_futures s)))) u = Leading key' f"
      using kept [of key' f] lead by (fastforce split: if_splits)+
  next
    fix u v key1 key2 f
    assume "((co_tasks s)(t := Leading key (length (co_futures s)))) u = Leading key1 f"
      and "((co_tasks s)(t := Leading key (length (co_futures s)))) v = Leading key2 f"
    then show "u = v"
      using flights_leader [OF assms(1), of u key1 f v key2] lead [of u key1 f] lead [of v key2 f]
      by (auto split: if_splits)
  next
    fix u f assume "((co_tasks s)(t := Leading key (length (co_futures s)))) u = Joining f"
    then show "f < length (co_futures s @ [Pending])" using join by (fastforce split: if_splits)
  qed (use count in simp_all)
next
  case (Some g)
  have "\<exists>u. u \<noteq> t \<and> co_tasks s u = Leading key' f" if "co_inflight s key' = Some f" for key' f
    using assms that unfolding flights_ok_def by (metis task.distinct(1))
  moreover have "co_tasks (do_begin t key s) = (co_tasks s)(t := Joining g)" "co_inflight (do_begin t key s) = co_inflight s"
      "co_futures (do_begin t key s) = co_futures s" "g < length (co_futures s)"
      "cs_submissions (co_stats (do_begin t key s)) = cs_submissions (co_stats s) + 1"
      "cs_computations (co_stats (do_begin t key s)) = cs_computations (co_stats s)"
      "cs_joins (co_stats (do_begin t key s)) = cs_joins (co_stats s) + 1"
    using Some flights_inflight [OF assms(1) Some] by (simp_all add: do_begin_def Let_def)
  ultimately show ?thesis using assms(1) unfolding flights_ok_def by (simp, metis)
qed

lemma flights_ok_end:
  assumes "flights_ok s" and "co_tasks s t = Joining f"
  shows "flights_ok (s\<lparr>co_tasks := (co_tasks s)(t := Finished out)\<rparr>)"
proof -
  have "\<exists>u. u \<noteq> t \<and> co_tasks s u = Leading key' g" if "co_inflight s key' = Some g" for key' g
    using assms that unfolding flights_ok_def by (metis task.distinct(7))
  then show ?thesis using assms unfolding flights_ok_def by (simp, metis)
qed

lemma loop_step_ok:
  assumes "loop_step c s s'" and "flights_ok s"
  shows "flights_ok s'"
  using assms(1)
proof cases
  case loop_begin
  then show ?thesis using flights_ok_begin [OF assms(2)] by simp
next
  case loop_finish
  then show ?thesis using flights_ok_finish [OF assms(2)] by simp
next
  case loop_compute
  then show ?thesis using flights_ok_finish [OF assms(2)] by simp
next
  case loop_resume
  then show ?thesis using flights_ok_end [OF assms(2)] by (auto simp: do_resume_def)
next
  case loop_cancel_join
  then show ?thesis using flights_ok_end [OF assms(2)] by (simp add: cancel_join_def)
qed

lemma new_coalescer_ok: "flights_ok new_coalescer"
  by (simp add: flights_ok_def new_coalescer_def)

lemma reachable_flights: "(loop_step c)\<^sup>*\<^sup>* s s' \<Longrightarrow> flights_ok s \<Longrightarrow> flights_ok s'"
  by (induction rule: rtranclp_induct) (auto intro: loop_step_ok)

text \<open>
  At any time a key has at most one computation in flight, the table of keys lists exactly the
  running ones, and every call is counted as a computation or as a join.
\<close>

theorem one_flight_per_key:
  assumes "(loop_step c)\<^sup>*\<^sup>* new_coalescer s"
  shows "card {t. \<exists>f. co_tasks s t = Leading key f} = (if co_inflight s key = None then 0 else 1) \<and>
    cs_submissions (co_stats s) = cs_computations (co_stats s) + cs_joins (co_stats s)"
proof -
  have ok: "flights_ok s" using reachable_flights [OF assms new_coalescer_ok] .
  have "{t. \<exists>f. co_tasks s t = Leading key f} = {}" if "co_inflight s key = None"
    using flights_okD(1) [OF ok] that by fastforce
  moreover have "\<exists>t. {t. \<exists>f. co_tasks s t = Leading key f} = {t}" if f: "co_inflight s key = Some f" for f
  proof -
    obtain t where t: "co_tasks s t = Leading key f" by (rule flights_inflight [OF ok f])
    have "u = t" if "co_tasks s u = Leading key g" for u g
      using flights_okD(1) [OF ok that] f that flights_leader [OF ok _ t, of u key] by simp
    then show ?thesis using t by blast
  qed
  ultimately have "card {t. \<exists>f. co_tasks s t = Leading key f} = (if co_inflight s key = None then 0 else 1)"
    by (cases "co_inflight s key") fastforce+
  then show ?thesis using ok by (simp add: flights_ok_def)
qed

section \<open>What joiners get\<close>

text \<open>A future whose leader is gone changes no more, and a task that ended stays so.\<close>

lemma settled_step:
  assumes "loop_step c s s'" and "flights_ok s" and "f < length (co_futures s)" and "\<And>t key. co_tasks s t \<noteq> Leading key f"
  shows "co_futures s' ! f = co_futures s ! f \<and> f < length (co_futures s') \<and> (\<forall>t key. co_tasks s' t \<noteq> Leading key f)"
  using assms(1)
proof cases
  case (loop_begin t key)
  then show ?thesis
    using assms(3,4) by (auto simp: do_begin_def Let_def nth_append split: option.splits)
next
  case (loop_finish t key g out)
  then show ?thesis using assms(3,4) by (metis do_finish_sel(2,3,4) fun_upd_apply task.distinct(9))
next
  case (loop_compute t key g out)
  then show ?thesis using assms(3,4) by (metis do_finish_sel(2,3,4) fun_upd_apply task.distinct(9))
next
  case loop_resume
  then show ?thesis using assms(3,4) by (auto simp: do_resume_def split: if_splits)
next
  case loop_cancel_join
  then show ?thesis using assms(3,4) by (auto simp: cancel_join_def split: if_splits)
qed

lemma finished_step: "loop_step c s s' \<Longrightarrow> co_tasks s t = Finished out \<Longrightarrow> co_tasks s' t = Finished out"
  by (erule loop_step.cases) (auto simp: do_begin_def Let_def do_resume_def cancel_join_def split: option.splits)

lemma joining_step:
  assumes "loop_step c s s'" and "co_tasks s t = Joining f"
  shows "co_tasks s' t = Joining f \<or> (\<exists>out. co_tasks s' t = Finished out \<and> (out = Cancelled \<or> outcome_of (co_futures s ! f) = Some out))"
  using assms by cases (auto simp: do_begin_def Let_def do_resume_def cancel_join_def split: option.splits)

lemma leading_step:
  assumes "loop_step c s s'" and "flights_ok s" and "co_tasks s t = Leading key f"
  shows "co_tasks s' t = Leading key f \<or>
    (\<exists>out. co_tasks s' t = Finished out \<and> (out = Cancelled \<longrightarrow> c) \<and> outcome_of (co_futures s' ! f) = (if out = Cancelled then None else Some out))"
proof -
  note f = flights_okD [OF assms(2,3)]
  note fut = do_finish_future [of f s t key, OF f(3)]
  show ?thesis
    using assms(1) by cases (use assms(3) f(2) fut in \<open>auto simp: do_begin_def Let_def do_resume_def cancel_join_def split: option.splits\<close>)
qed

text \<open>When a leader stops leading, nobody else leads its future.\<close>

lemma leading_before:
  "loop_step c s s' \<Longrightarrow> co_tasks s' t = Leading key f \<Longrightarrow> co_tasks s t = Leading key f \<or> f = length (co_futures s)"
  by (erule loop_step.cases)
    (auto simp: do_begin_def Let_def do_resume_def cancel_join_def split: option.splits if_splits)

lemma futures_grow: "loop_step c s s' \<Longrightarrow> length (co_futures s) \<le> length (co_futures s')"
  by (erule loop_step.cases)
    (auto simp: do_begin_def Let_def do_resume_def cancel_join_def split: option.splits)

lemma lost_leader:
  assumes "loop_step c s s'" and "flights_ok s" and "co_tasks s a = Leading key f" and "co_tasks s' a \<noteq> Leading key f"
  shows "co_tasks s' t \<noteq> Leading key' f" and "f < length (co_futures s')"
proof -
  have f: "f < length (co_futures s)" using flights_okD(3) [OF assms(2,3)] .
  show "f < length (co_futures s')" using f futures_grow [OF assms(1)] by simp
  show "co_tasks s' t \<noteq> Leading key' f"
  proof
    assume t: "co_tasks s' t = Leading key' f"
    then have "co_tasks s t = Leading key' f" using leading_before [OF assms(1)] f by blast
    then have "t = a" "key' = key" using flights_leader [OF assms(2) _ assms(3)] assms(3) by fastforce+
    then show False using t assms(4) by simp
  qed
qed

text \<open>A joiner and its leader: the leader computes and the future is pending, or it ended and the future says how.\<close>

definition shared :: "nat \<Rightarrow> nat \<Rightarrow> nat \<Rightarrow> ('v, 'e) coalescer \<Rightarrow> bool" where
  "shared a b f s \<longleftrightarrow>
     (\<exists>key. co_tasks s a = Leading key f) \<and> co_tasks s b \<in> {Joining f, Finished Cancelled} \<or>
     (\<exists>out. co_tasks s a = Finished out \<and> f < length (co_futures s) \<and> (\<forall>t key. co_tasks s t \<noteq> Leading key f) \<and>
        outcome_of (co_futures s ! f) = (if out = Cancelled then None else Some out) \<and>
        co_tasks s b \<in> {Joining f, Finished Cancelled, Finished out})"

lemma shared_step:
  assumes "loop_step c s s'" and "flights_ok s" and "shared a b f s"
  shows "shared a b f s'"
  using assms(3) unfolding shared_def [of a b f s]
proof (elim disjE exE conjE)
  fix key assume a: "co_tasks s a = Leading key f" and b: "co_tasks s b \<in> {Joining f, Finished Cancelled}"
  note fl = flights_okD [OF assms(2) a]
  have b': "co_tasks s' b \<in> {Joining f, Finished Cancelled}"
    using b joining_step [OF assms(1), of b f] finished_step [OF assms(1), of b Cancelled] fl(2) by auto
  show ?thesis
    using leading_step [OF assms(1,2) a]
  proof
    assume "co_tasks s' a = Leading key f"
    then show ?thesis using b' by (auto simp: shared_def)
  next
    assume "\<exists>out. co_tasks s' a = Finished out \<and> (out = Cancelled \<longrightarrow> c) \<and>
      outcome_of (co_futures s' ! f) = (if out = Cancelled then None else Some out)"
    moreover from this have "co_tasks s' a \<noteq> Leading key f" by auto
    then have "\<And>t key'. co_tasks s' t \<noteq> Leading key' f" and "f < length (co_futures s')"
      using lost_leader [OF assms(1,2) a] by blast+
    ultimately show ?thesis using b' by (auto simp: shared_def)
  qed
next
  fix out assume a: "co_tasks s a = Finished out" "f < length (co_futures s)" "\<forall>t key. co_tasks s t \<noteq> Leading key f"
    and o: "outcome_of (co_futures s ! f) = (if out = Cancelled then None else Some out)"
    and b: "co_tasks s b \<in> {Joining f, Finished Cancelled, Finished out}"
  have "co_tasks s' b \<in> {Joining f, Finished Cancelled, Finished out}"
    using b joining_step [OF assms(1), of b f] finished_step [OF assms(1), of b] o by (auto split: if_splits)
  then show ?thesis
    using settled_step [OF assms(1,2) a(2)] a(3) finished_step [OF assms(1) a(1)] o
    by (auto simp: shared_def)
qed

lemma reachable_shared:
  assumes "(loop_step c)\<^sup>*\<^sup>* s s'" and "flights_ok s" and "shared a b f s"
  shows "shared a b f s' \<and> flights_ok s'"
  using assms by (induction rule: rtranclp_induct) (auto intro: shared_step loop_step_ok)

text \<open>
  A task that joined a computation gets exactly what its leader got, a value or an exception, or was
  cancelled itself: once the leader has returned or raised, the joiner has ended or can go on to end so.
\<close>

theorem joiners_share_the_outcome:
  assumes "(loop_step c)\<^sup>*\<^sup>* new_coalescer s" and "co_tasks s a = Leading key f" and "co_tasks s b = Joining f"
    and "(loop_step c)\<^sup>*\<^sup>* s s'" and "co_tasks s' a = Finished out" and "out \<noteq> Cancelled"
  shows "co_tasks s' b \<in> {Finished out, Finished Cancelled} \<or>
    co_tasks s' b = Joining f \<and> (\<exists>t. do_resume b f s' = Some t \<and> loop_step c s' t \<and> co_tasks t b = Finished out)"
proof -
  have ok: "flights_ok s" using reachable_flights [OF assms(1) new_coalescer_ok] .
  have "shared a b f s" using assms(2,3) by (auto simp: shared_def)
  then have "shared a b f s'" using reachable_shared [OF assms(4) ok] by blast
  then have o: "outcome_of (co_futures s' ! f) = Some out" and b: "co_tasks s' b \<in> {Joining f, Finished Cancelled, Finished out}"
    using assms(5,6) by (auto simp: shared_def)
  have "do_resume b f s' = Some (s'\<lparr>co_tasks := (co_tasks s')(b := Finished out)\<rparr>)" using o by (simp add: do_resume_def)
  then show ?thesis using b loop_resume [of s' b f] by fastforce
qed

definition awaited :: "('v, 'e) coalescer \<Rightarrow> bool" where
  "awaited s \<longleftrightarrow> (\<forall>f<length (co_futures s). co_futures s ! f = Pending \<longrightarrow> (\<exists>t key. co_tasks s t = Leading key f))"

lemma outcome_None [simp]: "outcome_of x = None \<longleftrightarrow> x = Pending"
  by (cases x) simp_all

lemma awaited_step:
  assumes "loop_step False s s'" and "flights_ok s" and "awaited s"
  shows "awaited s'"
  unfolding awaited_def
proof (intro allI impI)
  fix f assume f: "f < length (co_futures s')" "co_futures s' ! f = Pending"
  show "\<exists>t key. co_tasks s' t = Leading key f"
  proof (cases "f < length (co_futures s)")
    case True
    show ?thesis
    proof (cases "\<exists>t key. co_tasks s t = Leading key f")
      case lead: True
      then obtain t key where "co_tasks s t = Leading key f" by blast
      then show ?thesis using leading_step [OF assms(1,2)] f(2) by (fastforce split: if_splits)
    next
      case False
      then have "co_futures s' ! f = co_futures s ! f" using settled_step [OF assms(1,2) True] by blast
      then show ?thesis using False f(2) True assms(3) by (auto simp: awaited_def)
    qed
  next
    case False
    with assms(1) f(1) show ?thesis
      by cases (auto simp: do_begin_def Let_def do_resume_def cancel_join_def less_Suc_eq split: option.splits)
  qed
qed

lemma reachable_awaited:
  assumes "(loop_step False)\<^sup>*\<^sup>* s s'" and "flights_ok s" and "awaited s"
  shows "awaited s' \<and> flights_ok s'"
  using assms by (induction rule: rtranclp_induct) (auto intro: awaited_step loop_step_ok)


text \<open>
  A cancelled leader strands its joiners: whatever happens afterwards, a task that had joined
  gets neither a value nor an exception, it waits for ever unless it is cancelled too.
\<close>

theorem cancelled_leader_strands_joiners:
  assumes "(loop_step True)\<^sup>*\<^sup>* new_coalescer s" and "co_tasks s a = Leading key f" and "co_tasks s b = Joining f"
    and "(loop_step True)\<^sup>*\<^sup>* (do_finish a key f Cancelled s) s'"
  shows "co_tasks s' b = Joining f \<and> do_resume b f s' = None \<or> co_tasks s' b = Finished Cancelled"
proof -
  have ok: "flights_ok s" using reachable_flights [OF assms(1) new_coalescer_ok] .
  have step: "loop_step True s (do_finish a key f Cancelled s)" using loop_finish [OF assms(2) refl] by simp
  have "shared a b f s" using assms(2,3) by (auto simp: shared_def)
  then have "shared a b f (do_finish a key f Cancelled s)" using shared_step [OF step ok] by blast
  moreover have ok1: "flights_ok (do_finish a key f Cancelled s)" using loop_step_ok [OF step ok] .
  ultimately have "shared a b f s'" using reachable_shared [OF assms(4)] by blast
  moreover have "co_tasks s' a = Finished Cancelled"
    using assms(4) by (induction rule: rtranclp_induct) (auto intro: finished_step)
  ultimately show ?thesis by (auto simp: shared_def do_resume_def)
qed

section \<open>Two tasks and one key\<close>

definition two_tasks :: "(nat, nat) coalescer" where
  "two_tasks = do_begin 1 ''k'' (do_begin 0 ''k'' new_coalescer)"

lemma two_tasks_reached: "(loop_step c)\<^sup>*\<^sup>* new_coalescer two_tasks"
proof -
  have "loop_step c new_coalescer (do_begin 0 ''k'' new_coalescer)"
    by (rule loop_begin) (simp add: new_coalescer_def)
  moreover have "loop_step c (do_begin 0 ''k'' new_coalescer) two_tasks"
    unfolding two_tasks_def by (rule loop_begin) (simp add: new_coalescer_def do_begin_def Let_def)
  ultimately show ?thesis by (rule rtranclp.rtrancl_into_rtrancl [OF r_into_rtranclp])
qed

lemma two_tasks_phases [simp]: "co_tasks two_tasks 0 = Leading ''k'' 0" "co_tasks two_tasks 1 = Joining 0"
  by (simp_all add: two_tasks_def do_begin_def new_coalescer_def Let_def)

theorem one_flight_per_key_witness:
  "card {t. \<exists>f. co_tasks two_tasks t = Leading ''k'' f} = 1 \<and> cs_submissions (co_stats two_tasks) = 2"
  using one_flight_per_key [OF two_tasks_reached [of True], of "''k''"]
  by (simp add: two_tasks_def do_begin_def new_coalescer_def Let_def)

theorem joiners_share_the_outcome_witness:
  "\<exists>t. do_resume 1 0 (do_finish 0 ''k'' 0 (Returned 7) two_tasks) = Some t \<and> co_tasks t 1 = Finished (Returned 7)"
proof -
  have "(loop_step True)\<^sup>*\<^sup>* two_tasks (do_finish 0 ''k'' 0 (Returned 7) two_tasks)"
    using loop_compute [of two_tasks 0 "''k''" 0 "Returned 7" True] by (intro r_into_rtranclp) simp
  from joiners_share_the_outcome [OF two_tasks_reached two_tasks_phases this, of "Returned 7"]
  show ?thesis using two_tasks_phases by fastforce
qed


theorem cancelled_leader_strands_joiners_witness:
  "co_tasks (do_finish 0 ''k'' 0 Cancelled two_tasks) 1 = Joining 0 \<and>
   do_resume 1 0 (do_finish 0 ''k'' 0 Cancelled two_tasks) = None"
  using cancelled_leader_strands_joiners [OF two_tasks_reached two_tasks_phases rtranclp.rtrancl_refl]
    two_tasks_phases(2) by simp

end
