(* ===== verification/Hint_Publisher.thy ===== *)
theory Hint_Publisher
  imports Eval_Queue Interactive_Signal
begin

text \<open>
  \<open>api/interactive_metrics.py\<close> and the part of \<open>api/middleware.py\<close> that feeds it: the windows of the API
  process, the publisher that copies their percentiles into the scheduler row, and the requests that record.
  \<open>persist_now\<close> is cut where its coroutine waits: before the transaction, at its commit, and
  after it. The database is a parameter of the interleaving, with the laws of \<open>hint_store\<close>; the evaluation
  repository provides them.
\<close>

section \<open>The publisher\<close>

datatype publish_mode = Sync | Async

record hint_snapshot =
  hs_wall :: window_snapshot
  hs_pool :: window_snapshot
  hs_in_flight :: int
  hs_peak_in_flight :: int
  hs_generation :: nat
  hs_dirty :: bool
  hs_writes :: nat
  hs_failures :: nat
  hs_mode :: publish_mode

record publisher =
  pb_window :: window
  pb_pool_wait_window :: window
  pb_publish_mode :: publish_mode
  pb_publish_interval_ms :: real
  pb_publish_min_delta_ms :: real
  pb_persist_every_samples :: int
  pb_dirty :: bool
  pb_generation :: nat
  pb_samples_since_sync :: int
  pb_in_flight :: int
  pb_peak_in_flight :: int
  pb_publish_writes :: nat
  pb_publish_failures :: nat
  pb_last_published :: "hint_snapshot option"

text \<open>\<open>get_or_create_publisher\<close> for the settings of the interactive signal.\<close>

definition new_window :: "real \<Rightarrow> window" where
  "new_window secs = \<lparr>window_seconds = secs, max_samples = 2000, samples = []\<rparr>"

definition new_publisher :: "settings \<Rightarrow> publisher" where
  "new_publisher st = \<lparr>
     pb_window = new_window (resource_interactive_window_seconds st),
     pb_pool_wait_window = new_window (resource_interactive_window_seconds st),
     pb_publish_mode = (if resource_interactive_publish_mode st = ''sync'' then Sync else Async),
     pb_publish_interval_ms = resource_interactive_publish_interval_ms st,
     pb_publish_min_delta_ms = resource_interactive_publish_min_delta_ms st,
     pb_persist_every_samples = resource_interactive_persist_every_samples st,
     pb_dirty = False, pb_generation = 0, pb_samples_since_sync = 0, pb_in_flight = 0, pb_peak_in_flight = 0,
     pb_publish_writes = 0, pb_publish_failures = 0, pb_last_published = None\<rparr>"

definition pb_snapshot :: "real \<Rightarrow> publisher \<Rightarrow> hint_snapshot \<times> publisher" where
  "pb_snapshot now p =
     (let (wall, w) = window_snapshot now (pb_window p);
          (pool, pw) = window_snapshot now (pb_pool_wait_window p);
          p = p\<lparr>pb_window := w, pb_pool_wait_window := pw\<rparr>
      in (\<lparr>hs_wall = wall, hs_pool = pool, hs_in_flight = pb_in_flight p, hs_peak_in_flight = pb_peak_in_flight p,
           hs_generation = pb_generation p, hs_dirty = pb_dirty p, hs_writes = pb_publish_writes p,
           hs_failures = pb_publish_failures p, hs_mode = pb_publish_mode p\<rparr>, p))"

definition record_wall :: "real \<Rightarrow> real \<Rightarrow> real option \<Rightarrow> publisher \<Rightarrow> hint_snapshot \<times> publisher" where
  "record_wall now latency_ms pool_wait_ms p =
     (let p = p\<lparr>pb_window := record_sample latency_ms now (pb_window p)\<rparr>;
          p = (case pool_wait_ms of
                 Some x \<Rightarrow> if x \<ge> 0 then p\<lparr>pb_pool_wait_window := record_sample x now (pb_pool_wait_window p)\<rparr> else p
               | None \<Rightarrow> p)
      in pb_snapshot now (p\<lparr>pb_dirty := True, pb_generation := pb_generation p + 1,
           pb_samples_since_sync := pb_samples_since_sync p + 1\<rparr>))"

definition begin_request :: "publisher \<Rightarrow> publisher" where
  "begin_request p =
     (let n = pb_in_flight p + 1
      in p\<lparr>pb_in_flight := n, pb_peak_in_flight := (if n > pb_peak_in_flight p then n else pb_peak_in_flight p)\<rparr>)"

definition end_request :: "publisher \<Rightarrow> publisher" where
  "end_request p = p\<lparr>pb_in_flight := max 0 (pb_in_flight p - 1)\<rparr>"

definition should_persist_sync :: "publisher \<Rightarrow> bool" where
  "should_persist_sync p \<longleftrightarrow> pb_samples_since_sync p \<ge> max 1 (pb_persist_every_samples p)"

definition material_change :: "hint_snapshot \<Rightarrow> publisher \<Rightarrow> bool" where
  "material_change snap p =
     (case pb_last_published p of
        None \<Rightarrow> True
      | Some prior \<Rightarrow>
          (case (ws_p95 (hs_wall prior), ws_p95 (hs_wall snap)) of
             (None, Some cur) \<Rightarrow> True
           | (None, None) \<Rightarrow> False
           | (Some prev, None) \<Rightarrow> False
           | (Some prev, Some cur) \<Rightarrow>
               if \<bar>cur - prev\<bar> \<ge> pb_publish_min_delta_ms p then True
               else (case (ws_p95 (hs_pool prior), ws_p95 (hs_pool snap)) of
                       (None, Some cur_pw) \<Rightarrow> True
                     | (Some prev_pw, Some cur_pw) \<Rightarrow> \<bar>cur_pw - prev_pw\<bar> \<ge> pb_publish_min_delta_ms p
                     | _ \<Rightarrow> False)))"

text \<open>\<open>persist_now\<close> up to its transaction: a snapshot to write, or nothing to do.\<close>

definition persist_begin :: "real \<Rightarrow> publisher \<Rightarrow> hint_snapshot option \<times> publisher" where
  "persist_begin now p =
     (let (snap, p) = pb_snapshot now p
      in if \<not> pb_dirty p \<and> pb_last_published p \<noteq> None then (None, p)
         else if pb_last_published p \<noteq> None \<and> \<not> material_change snap p
         then (None, p\<lparr>pb_dirty := False, pb_samples_since_sync := 0\<rparr>)
         else (Some snap, p))"

definition persist_done :: "hint_snapshot \<Rightarrow> publisher \<Rightarrow> publisher" where
  "persist_done snap p =
     p\<lparr>pb_last_published := Some snap, pb_dirty := False, pb_samples_since_sync := 0,
       pb_publish_writes := pb_publish_writes p + 1\<rparr>"

definition persist_failed :: "publisher \<Rightarrow> publisher" where
  "persist_failed p = p\<lparr>pb_publish_failures := pb_publish_failures p + 1\<rparr>"

text \<open>The middleware observes a request when feedback or profiling is on and the path is interactive.\<close>

definition track_interactive :: "settings \<Rightarrow> string \<Rightarrow> string \<Rightarrow> bool" where
  "track_interactive st method path \<longleftrightarrow>
     ((resource_interactive_p95_warn_ms st > 0 \<and> resource_interactive_p95_critical_ms st > 0) \<or>
      request_profiling_enabled st) \<and>
     is_interactive_control_path method path"

section \<open>Requests and the publisher loop\<close>

datatype request_state = RAway | RServed | RWriting hint_snapshot | RWritten hint_snapshot

datatype loop_state = LWaiting | LWriting bool hint_snapshot | LWritten bool hint_snapshot | LStopped

record 'q api_process =
  proc_pub :: publisher
  proc_db :: 'q
  proc_requests :: "nat \<Rightarrow> request_state"
  proc_loop :: loop_state

text \<open>\<open>_record_interactive\<close> up to the transaction it may wait for.\<close>

definition record_interactive :: "real \<Rightarrow> real \<Rightarrow> real option \<Rightarrow> publisher \<Rightarrow> hint_snapshot option \<times> publisher" where
  "record_interactive now total_ms pool_wait_ms p =
     (let p = snd (record_wall now total_ms pool_wait_ms p)
      in if pb_publish_mode p = Sync \<and> should_persist_sync p then persist_begin now p else (None, p))"

definition request_goes :: "nat \<Rightarrow> request_state \<Rightarrow> 'q api_process \<Rightarrow> 'q api_process" where
  "request_goes r ph s = s\<lparr>proc_requests := (proc_requests s)(r := ph)\<rparr>"

definition write_hint ::
  "(real option \<Rightarrow> int \<Rightarrow> real option \<Rightarrow> 'q \<Rightarrow> 'q) \<Rightarrow> hint_snapshot \<Rightarrow> 'q \<Rightarrow> 'q" where
  "write_hint put snap = put (ws_p95 (hs_wall snap)) (int (ws_count (hs_wall snap))) (ws_p95 (hs_pool snap))"

text \<open>The flag of a write of the loop says that the process is stopping.\<close>

inductive api_step ::
  "(real option \<Rightarrow> int \<Rightarrow> real option \<Rightarrow> 'q \<Rightarrow> 'q) \<Rightarrow> ('q \<Rightarrow> 'q \<Rightarrow> bool) \<Rightarrow> 'q api_process \<Rightarrow> 'q api_process \<Rightarrow> bool"
  for put other where
  api_begin: "proc_requests s r = RAway \<Longrightarrow>
    api_step put other s (request_goes r RServed (s\<lparr>proc_pub := begin_request (proc_pub s)\<rparr>))"
| api_end: "proc_requests s r = RServed \<Longrightarrow> record_interactive now ms pw (proc_pub s) = (None, p) \<Longrightarrow>
    api_step put other s (request_goes r RAway (s\<lparr>proc_pub := end_request p\<rparr>))"
| api_sync: "proc_requests s r = RServed \<Longrightarrow> record_interactive now ms pw (proc_pub s) = (Some snap, p) \<Longrightarrow>
    api_step put other s (request_goes r (RWriting snap) (s\<lparr>proc_pub := p\<rparr>))"
| api_sync_commit: "proc_requests s r = RWriting snap \<Longrightarrow>
    api_step put other s (request_goes r (RWritten snap) (s\<lparr>proc_db := write_hint put snap (proc_db s)\<rparr>))"
| api_sync_done: "proc_requests s r = RWritten snap \<Longrightarrow>
    api_step put other s (request_goes r RAway (s\<lparr>proc_pub := end_request (persist_done snap (proc_pub s))\<rparr>))"
| api_sync_failed: "proc_requests s r = RWriting snap \<Longrightarrow>
    api_step put other s (request_goes r RAway (s\<lparr>proc_pub := end_request (persist_failed (proc_pub s))\<rparr>))"
| api_tick: "proc_loop s = LWaiting \<Longrightarrow> (if stopping then pb_dirty (proc_pub s) else pb_publish_mode (proc_pub s) = Async) \<Longrightarrow>
    persist_begin now (proc_pub s) = (w, p) \<Longrightarrow>
    api_step put other s (s\<lparr>proc_pub := p, proc_loop :=
      (case w of Some snap \<Rightarrow> LWriting stopping snap | None \<Rightarrow> if stopping then LStopped else LWaiting)\<rparr>)"
| api_stop: "proc_loop s = LWaiting \<Longrightarrow> \<not> pb_dirty (proc_pub s) \<Longrightarrow> api_step put other s (s\<lparr>proc_loop := LStopped\<rparr>)"
| api_commit: "proc_loop s = LWriting stopping snap \<Longrightarrow>
    api_step put other s (s\<lparr>proc_db := write_hint put snap (proc_db s), proc_loop := LWritten stopping snap\<rparr>)"
| api_done: "proc_loop s = LWritten stopping snap \<Longrightarrow>
    api_step put other s (s\<lparr>proc_pub := persist_done snap (proc_pub s), proc_loop := (if stopping then LStopped else LWaiting)\<rparr>)"
| api_failed: "proc_loop s = LWriting stopping snap \<Longrightarrow>
    api_step put other s (s\<lparr>proc_pub := persist_failed (proc_pub s), proc_loop := (if stopping then LStopped else LWaiting)\<rparr>)"
| api_other: "other (proc_db s) q \<Longrightarrow> api_step put other s (s\<lparr>proc_db := q\<rparr>)"

lemma pb_snapshot_sel [simp]:
  "pb_in_flight (snd (pb_snapshot now p)) = pb_in_flight p"
  "pb_peak_in_flight (snd (pb_snapshot now p)) = pb_peak_in_flight p"
  "pb_publish_mode (snd (pb_snapshot now p)) = pb_publish_mode p"
  "pb_last_published (snd (pb_snapshot now p)) = pb_last_published p"
  "pb_dirty (snd (pb_snapshot now p)) = pb_dirty p"
  "hs_wall (fst (pb_snapshot now p)) = fst (window_snapshot now (pb_window p))"
  by (simp_all add: pb_snapshot_def split_def Let_def)

lemma persist_begin_sel [simp]:
  "pb_in_flight (snd (persist_begin now p)) = pb_in_flight p"
  "pb_peak_in_flight (snd (persist_begin now p)) = pb_peak_in_flight p"
  "pb_publish_mode (snd (persist_begin now p)) = pb_publish_mode p"
  "pb_last_published (snd (persist_begin now p)) = pb_last_published p"
  by (simp_all add: persist_begin_def split_def Let_def)

lemma record_wall_sel [simp]:
  "pb_in_flight (snd (record_wall now ms pw p)) = pb_in_flight p"
  "pb_peak_in_flight (snd (record_wall now ms pw p)) = pb_peak_in_flight p"
  "pb_publish_mode (snd (record_wall now ms pw p)) = pb_publish_mode p"
  "pb_last_published (snd (record_wall now ms pw p)) = pb_last_published p"
  "pb_dirty (snd (record_wall now ms pw p)) = True"
  by (simp_all add: record_wall_def Let_def split: option.splits)

lemma record_interactive_sel:
  assumes "record_interactive now ms pw p = (w, p')"
  shows "pb_in_flight p' = pb_in_flight p" and "pb_peak_in_flight p' = pb_peak_in_flight p"
    and "pb_publish_mode p' = pb_publish_mode p" and "pb_last_published p' = pb_last_published p"
    and "pb_publish_mode p = Async \<Longrightarrow> w = None"
proof -
  have p': "p' = snd (record_interactive now ms pw p)" and w: "w = fst (record_interactive now ms pw p)"
    using assms by simp_all
  show "pb_in_flight p' = pb_in_flight p" "pb_peak_in_flight p' = pb_peak_in_flight p"
      "pb_publish_mode p' = pb_publish_mode p" "pb_last_published p' = pb_last_published p"
    unfolding p' by (simp_all add: record_interactive_def Let_def)
  show "w = None" if "pb_publish_mode p = Async"
    unfolding w using that by (simp add: record_interactive_def Let_def)
qed

section \<open>Requests in flight\<close>

definition active :: "'q api_process \<Rightarrow> nat set" where
  "active s = {r. proc_requests s r \<noteq> RAway}"

definition in_flight_ok :: "'q api_process \<Rightarrow> bool" where
  "in_flight_ok s \<longleftrightarrow> finite (active s) \<and>
     pb_in_flight (proc_pub s) = int (card (active s)) \<and>
     pb_in_flight (proc_pub s) \<le> pb_peak_in_flight (proc_pub s)"

lemma request_goes_sel [simp]:
  "proc_pub (request_goes r ph s) = proc_pub s" "proc_db (request_goes r ph s) = proc_db s"
  "proc_loop (request_goes r ph s) = proc_loop s" "proc_requests (request_goes r ph s) = (proc_requests s)(r := ph)"
  by (simp_all add: request_goes_def)

lemma active_goes [simp]:
  "active (request_goes r ph s) = (if ph = RAway then active s - {r} else insert r (active s))"
  by (auto simp: active_def)

lemma active_pub [simp]: "active (s\<lparr>proc_pub := p\<rparr>) = active s"
  by (simp add: active_def)

lemma active_iff: "r \<in> active s \<longleftrightarrow> proc_requests s r \<noteq> RAway"
  by (simp add: active_def)

text \<open>What a request does to the count: it enters, it leaves, or it stays.\<close>

lemma in_flight_enter:
  assumes "in_flight_ok s" and "proc_requests s r = RAway" and "ph \<noteq> RAway"
  shows "in_flight_ok (request_goes r ph (s\<lparr>proc_pub := begin_request (proc_pub s)\<rparr>))"
  using assms by (auto simp: in_flight_ok_def begin_request_def Let_def active_iff)

lemma in_flight_leave:
  assumes "in_flight_ok s" and "proc_requests s r \<noteq> RAway"
    and "pb_in_flight p = pb_in_flight (proc_pub s)" and "pb_peak_in_flight p = pb_peak_in_flight (proc_pub s)"
  shows "in_flight_ok (request_goes r RAway (s\<lparr>proc_pub := end_request p\<rparr>))"
proof -
  have "card (active s - {r}) = card (active s) - 1"
      "0 < card (active s)"
    using assms(1,2) by (auto simp: in_flight_ok_def card_gt_0_iff active_iff card_Diff_singleton)
  then show ?thesis using assms by (auto simp: in_flight_ok_def end_request_def)
qed

lemma in_flight_stay:
  assumes "in_flight_ok s" and "active t = active s"
    and "pb_in_flight (proc_pub t) = pb_in_flight (proc_pub s)"
    and "pb_peak_in_flight (proc_pub t) = pb_peak_in_flight (proc_pub s)"
  shows "in_flight_ok t"
  using assms by (simp add: in_flight_ok_def)

lemma persist_sel [simp]:
  "pb_in_flight (persist_done snap p) = pb_in_flight p" "pb_in_flight (persist_failed p) = pb_in_flight p"
  "pb_peak_in_flight (persist_done snap p) = pb_peak_in_flight p"
  "pb_peak_in_flight (persist_failed p) = pb_peak_in_flight p"
  "pb_publish_mode (persist_done snap p) = pb_publish_mode p" "pb_publish_mode (persist_failed p) = pb_publish_mode p"
  "pb_last_published (persist_done snap p) = Some snap" "pb_last_published (persist_failed p) = pb_last_published p"
  "pb_publish_mode (begin_request p) = pb_publish_mode p" "pb_publish_mode (end_request p) = pb_publish_mode p"
  "pb_last_published (begin_request p) = pb_last_published p" "pb_last_published (end_request p) = pb_last_published p"
  by (simp_all add: persist_done_def persist_failed_def begin_request_def end_request_def Let_def)

lemma api_step_in_flight:
  assumes "api_step put other s t" and "in_flight_ok s"
  shows "in_flight_ok t"
  using assms(1)
proof cases
  case api_begin
  then show ?thesis using in_flight_enter [OF assms(2)] by simp
next
  case (api_end r now ms pw p)
  then show ?thesis using in_flight_leave [OF assms(2)] record_interactive_sel(1,2) [OF api_end(3)] by simp
next
  case (api_sync r now ms pw snap p)
  then show ?thesis
    using record_interactive_sel(1,2) [OF api_sync(3)] by (intro in_flight_stay [OF assms(2)]) (auto simp: active_def)
next
  case api_sync_commit
  then show ?thesis by (intro in_flight_stay [OF assms(2)]) (auto simp: active_def)
next
  case api_sync_done
  then show ?thesis using in_flight_leave [OF assms(2)] by simp
next
  case api_sync_failed
  then show ?thesis using in_flight_leave [OF assms(2)] by simp
next
  case (api_tick stopping now w p)
  then show ?thesis
    using persist_begin_sel(1,2) [of now "proc_pub s"] by (intro in_flight_stay [OF assms(2)]) (auto simp: active_def)
qed (auto intro!: in_flight_stay [OF assms(2)] simp: active_def)

text \<open>
  The counter of requests in flight is exactly the number of observed requests that have begun and not
  ended, whatever errors and writes happen, and the peak is never below it.
\<close>

theorem in_flight_exact:
  assumes "(api_step put other)\<^sup>*\<^sup>* \<lparr>proc_pub = new_publisher st, proc_db = q, proc_requests = (\<lambda>r. RAway), proc_loop = LWaiting\<rparr> s"
  shows "pb_in_flight (proc_pub s) = int (card (active s)) \<and>
    pb_in_flight (proc_pub s) \<le> pb_peak_in_flight (proc_pub s)"
proof -
  have "in_flight_ok \<lparr>proc_pub = new_publisher st, proc_db = q, proc_requests = (\<lambda>r. RAway), proc_loop = LWaiting\<rparr>"
    by (simp add: in_flight_ok_def active_def new_publisher_def)
  with assms have "in_flight_ok s"
    by (induction rule: rtranclp_induct) (auto intro: api_step_in_flight)
  then show ?thesis by (simp add: in_flight_ok_def)
qed

section \<open>The published hint\<close>

text \<open>What the publisher needs of the database.\<close>

type_synonym hint = "real option \<times> int \<times> real option"

definition hint_of :: "hint_snapshot \<Rightarrow> hint" where
  "hint_of snap = (ws_p95 (hs_wall snap), int (ws_count (hs_wall snap)), ws_p95 (hs_pool snap))"

definition published :: "('q \<Rightarrow> hint) \<Rightarrow> 'q api_process \<Rightarrow> bool" where
  "published get s \<longleftrightarrow> pb_publish_mode (proc_pub s) = Async \<and> (\<forall>r. proc_requests s r \<in> {RAway, RServed}) \<and>
     (case proc_loop s of
        LWritten stopping snap \<Rightarrow> get (proc_db s) = hint_of snap
      | _ \<Rightarrow> (\<forall>snap. pb_last_published (proc_pub s) = Some snap \<longrightarrow> get (proc_db s) = hint_of snap))"

lemma published_request: "published get s \<Longrightarrow> proc_requests s r = RAway \<or> proc_requests s r = RServed"
  by (simp add: published_def)

locale hint_store =
  fixes put :: "real option \<Rightarrow> int \<Rightarrow> real option \<Rightarrow> 'q \<Rightarrow> 'q"
    and get :: "'q \<Rightarrow> real option \<times> int \<times> real option"
    and other :: "'q \<Rightarrow> 'q \<Rightarrow> bool"
  assumes get_put: "get (put p95 n pw q) = (p95, max 0 n, pw)"
    and other_keeps: "other q q' \<Longrightarrow> get q' = get q"
begin

lemma get_write_hint: "get (write_hint put snap q) = hint_of snap"
  by (simp add: write_hint_def get_put hint_of_def)

lemma published_step:
  assumes "api_step put other s t" and "published get s"
  shows "published get t"
  using assms(1)
proof cases
  case api_begin
  then show ?thesis using assms(2) by (auto simp: published_def split: loop_state.splits)
next
  case (api_sync_commit r snap)
  then show ?thesis using published_request [OF assms(2), of r] by simp
next
  case (api_sync_done r snap)
  then show ?thesis using published_request [OF assms(2), of r] by simp
next
  case (api_sync_failed r snap)
  then show ?thesis using published_request [OF assms(2), of r] by simp
next
  case (api_end r now ms pw p)
  then show ?thesis
    using assms(2) record_interactive_sel(3,4) [OF api_end(3)] by (auto simp: published_def split: loop_state.splits)
next
  case (api_sync r now ms pw snap p)
  then show ?thesis using assms(2) record_interactive_sel(5) [OF api_sync(3)] by (simp add: published_def)
next
  case (api_tick stopping now w p)
  then show ?thesis
    using assms(2) persist_begin_sel(3,4) [of now "proc_pub s"]
    by (auto simp: published_def split: option.splits)
next
  case api_other
  then show ?thesis using assms(2) other_keeps by (auto simp: published_def split: loop_state.splits)
qed (use assms(2) get_write_hint in \<open>auto simp: published_def split: loop_state.splits\<close>)

lemma published_run:
  assumes "(api_step put other)\<^sup>*\<^sup>* s t" and "published get s"
  shows "published get t"
  using assms by (induction rule: rtranclp_induct) (auto intro: published_step)

end

text \<open>The evaluation repository as the store of the hint; the transactions of the workers are the others.\<close>

definition stored_hint :: "equeue \<Rightarrow> hint" where
  "stored_hint q =
     (let r = read_runtime_state q
      in (rs_interactive_p95_ms r, rs_interactive_sample_count r, rs_pool_wait_p95_ms r))"

inductive worker_tx :: "equeue \<Rightarrow> equeue \<Rightarrow> bool" where
  tx_rows: "sched q' = sched q \<Longrightarrow> worker_tx q q'"
| tx_claim: "claim_next now w pol mw hl bl q = (r, q') \<Longrightarrow> worker_tx q q'"
| tx_pressure: "worker_tx q (persist_runtime_state pressure n q)"

definition sched_hint :: "scheduler option \<Rightarrow> hint" where
  "sched_hint row = (case row of None \<Rightarrow> (None, 0, None)
     | Some st \<Rightarrow> (sch_interactive_p95_ms st, sch_interactive_sample_count st, sch_pool_wait_p95_ms st))"

lemma stored_hint_sched: "stored_hint q = sched_hint (sched q)"
  by (simp add: stored_hint_def sched_hint_def read_runtime_state_def split: option.splits)

lemma ensure_scheduler_hint: "sched_hint (Some (ensure_scheduler initial_scheduler q)) = sched_hint (sched q)"
  by (auto simp: sched_hint_def ensure_scheduler_def initial_scheduler_def split: option.splits)

lemma sched_hint_upd [simp]:
  "sched_hint (Some (st\<lparr>blocked_heavy_id := h\<rparr>)) = sched_hint (Some st)"
  "sched_hint (Some (st\<lparr>light_bypass_count := n\<rparr>)) = sched_hint (Some st)"
  by (simp_all add: sched_hint_def)

lemma claim_next_hint: "sched_hint (sched (snd (claim_next now w pol mw hl bl q))) = sched_hint (sched q)"
proof -
  define st where "st = ensure_scheduler initial_scheduler q"
  have "sched_hint (sched (snd (claim_next now w pol mw hl bl q))) = sched_hint (Some st)"
    unfolding claim_next_def Let_def st_def [symmetric]
    by (simp add: take_row_def unblock_def del: max.bounded_iff split: list.split)
  then show ?thesis using ensure_scheduler_hint [of q] by (simp add: st_def)
qed

interpretation hint_row: hint_store persist_interactive_hint stored_hint worker_tx
proof unfold_locales
  fix p95 n pw q
  show "stored_hint (persist_interactive_hint p95 n pw q) = (p95, max 0 n, pw)"
    by (simp add: stored_hint_sched sched_hint_def persist_interactive_hint_def)
next
  fix q q' assume "worker_tx q q'"
  then show "stored_hint q' = stored_hint q"
  proof cases
    case tx_rows
    then show ?thesis by (simp add: stored_hint_sched)
  next
    case (tx_claim now w pol mw hl bl r)
    then show ?thesis using claim_next_hint [of now w pol mw hl bl q] by (simp add: stored_hint_sched)
  next
    case tx_pressure
    then show ?thesis
      by (cases "sched q") (simp_all add: stored_hint_sched sched_hint_def persist_runtime_state_def ensure_scheduler_def
          initial_scheduler_def)
  qed
qed

definition started :: "settings \<Rightarrow> equeue \<Rightarrow> equeue api_process" where
  "started st q = \<lparr>proc_pub = new_publisher st, proc_db = q, proc_requests = (\<lambda>r. RAway), proc_loop = LWaiting\<rparr>"

lemma persist_begin_skips:
  assumes "persist_begin now p = (None, p')" and "pb_dirty p" and "pb_last_published p = Some snap"
  shows "case (ws_p95 (hs_wall snap), fst (p95_ms now (pb_window p))) of
      (Some prev, Some cur) \<Rightarrow> \<bar>cur - prev\<bar> < pb_publish_min_delta_ms p | (_, cur) \<Rightarrow> cur = None"
proof -
  obtain s1 p1 where s1: "pb_snapshot now p = (s1, p1)" by force
  then have sel: "pb_dirty p1" "pb_last_published p1 = Some snap" "pb_publish_min_delta_ms p1 = pb_publish_min_delta_ms p"
      "ws_p95 (hs_wall s1) = fst (p95_ms now (pb_window p))"
    using assms(2,3) by (auto simp: pb_snapshot_def split_def Let_def window_snapshot_def p95_ms_def)
  have "\<not> material_change s1 p1" using assms(1) s1 sel by (auto simp: persist_begin_def split: if_splits)
  then show ?thesis using sel by (auto simp: material_change_def split: option.splits if_splits)
qed

text \<open>
  In the asynchronous mode the scheduler row always holds the snapshot that was published last, whatever
  the requests, the failing writes and the workers do; and a cycle that finds new samples and writes
  nothing leaves a hint that differs from the current p95 by less than the configured delta.
\<close>

theorem published_hint_current:
  assumes "resource_interactive_publish_mode st = ''async''"
    and "(api_step persist_interactive_hint worker_tx)\<^sup>*\<^sup>* (started st q) s"
    and "proc_loop s = LWaiting" and "pb_last_published (proc_pub s) = Some snap"
  shows "stored_hint (proc_db s) = hint_of snap \<and>
    (\<forall>now p'. pb_dirty (proc_pub s) \<longrightarrow> persist_begin now (proc_pub s) = (None, p') \<longrightarrow>
       (case (fst (stored_hint (proc_db s)), fst (p95_ms now (pb_window (proc_pub s)))) of
          (Some prev, Some cur) \<Rightarrow> \<bar>cur - prev\<bar> < pb_publish_min_delta_ms (proc_pub s) | (_, cur) \<Rightarrow> cur = None))"
proof -
  have "published stored_hint (started st q)"
    using assms(1) by (simp add: published_def started_def new_publisher_def)
  then have "published stored_hint s" using hint_row.published_run [OF assms(2)] by blast
  then have h: "stored_hint (proc_db s) = hint_of snap" using assms(3,4) by (simp add: published_def)
  then have "fst (stored_hint (proc_db s)) = ws_p95 (hs_wall snap)" by (simp add: hint_of_def)
  then show ?thesis using h persist_begin_skips [OF _ _ assms(4)] by auto
qed

text \<open>
  A sample recorded while a write is under way is never published on its own: the end of the write clears the
  mark, so no later cycle and not the final flush write it, until another sample comes.
\<close>

theorem sample_during_write_lost:
  assumes "persist_begin t0 p = (Some snap, p1)" and "p2 = snd (record_wall t1 ms pw p1)"
  shows "\<not> pb_dirty (persist_done snap p2) \<and> hs_generation snap < pb_generation (persist_done snap p2) \<and>
    (\<forall>now. fst (persist_begin now (persist_done snap p2)) = None)"
proof -
  have "hs_generation snap = pb_generation p1"
    using assms(1) by (auto simp: persist_begin_def pb_snapshot_def split_def Let_def split: if_splits)
  moreover have "pb_generation p2 = Suc (pb_generation p1)"
    unfolding assms(2) by (simp add: record_wall_def pb_snapshot_def split_def Let_def split: option.splits)
  moreover have "fst (persist_begin now x) = None" if "\<not> pb_dirty x" "pb_last_published x \<noteq> None" for now x
    using that by (simp add: persist_begin_def pb_snapshot_def split_def Let_def)
  ultimately show ?thesis by (simp add: persist_done_def)
qed

section \<open>The first cycle\<close>

text \<open>Before anything is published the first cycle writes, even without a sample.\<close>

lemma first_cycle:
  obtains snap p where "persist_begin 0 (new_publisher default_settings) = (Some snap, p)"
    and "pb_publish_mode p = Async"
proof -
  obtain w p where wp: "persist_begin 0 (new_publisher default_settings) = (w, p)" by force
  then have "w \<noteq> None" by (auto simp: persist_begin_def pb_snapshot_def split_def Let_def new_publisher_def)
  moreover have "pb_publish_mode p = Async"
    using arg_cong [OF wp, of "\<lambda>x. pb_publish_mode (snd x)"] by (simp add: new_publisher_def default_settings_def)
  ultimately show thesis using that wp by blast
qed

theorem published_hint_current_witness:
  "\<exists>s snap. (api_step persist_interactive_hint worker_tx)\<^sup>*\<^sup>* (started default_settings blocked_queue) s \<and>
     pb_last_published (proc_pub s) = Some snap \<and> stored_hint (proc_db s) = hint_of snap"
proof -
  obtain snap p where p: "persist_begin 0 (new_publisher default_settings) = (Some snap, p)" "pb_publish_mode p = Async"
    by (rule first_cycle)
  let ?R = "api_step persist_interactive_hint worker_tx" and ?s0 = "started default_settings blocked_queue"
  let ?s1 = "?s0\<lparr>proc_pub := p, proc_loop := LWriting False snap\<rparr>"
  let ?s2 = "?s1\<lparr>proc_db := write_hint persist_interactive_hint snap (proc_db ?s1), proc_loop := LWritten False snap\<rparr>"
  let ?s3 = "?s2\<lparr>proc_pub := persist_done snap (proc_pub ?s2), proc_loop := LWaiting\<rparr>"
  have "?R ?s0 ?s1"
    using api_tick [of ?s0 False 0 "Some snap" p persist_interactive_hint worker_tx] p(1)
    by (simp add: started_def new_publisher_def default_settings_def)
  moreover have "?R ?s1 ?s2" by (rule api_commit) simp
  moreover have "?R ?s2 ?s3" using api_done [of ?s2 False snap persist_interactive_hint worker_tx] by simp
  ultimately have run: "?R\<^sup>*\<^sup>* ?s0 ?s3"
    by (blast intro: rtranclp.rtrancl_into_rtrancl rtranclp.rtrancl_refl)
  have mode: "resource_interactive_publish_mode default_settings = ''async''" by (simp add: default_settings_def)
  have "proc_loop ?s3 = LWaiting" "pb_last_published (proc_pub ?s3) = Some snap" by simp_all
  with published_hint_current [OF mode run this] show ?thesis using run by blast
qed

theorem in_flight_exact_witness:
  "\<exists>s. (api_step persist_interactive_hint worker_tx)\<^sup>*\<^sup>* (started default_settings blocked_queue) s \<and>
     pb_in_flight (proc_pub s) = int (card (active s)) \<and> 3 \<in> active s"
proof -
  let ?R = "api_step persist_interactive_hint worker_tx" and ?s0 = "started default_settings blocked_queue"
  let ?s1 = "request_goes 3 RServed (?s0\<lparr>proc_pub := begin_request (proc_pub ?s0)\<rparr>)"
  have "?R ?s0 ?s1" by (rule api_begin) (simp add: started_def)
  then have run: "?R\<^sup>*\<^sup>* ?s0 ?s1" by (rule r_into_rtranclp)
  from in_flight_exact [OF run [unfolded started_def]] run show ?thesis
    by (intro exI [of _ ?s1]) (simp add: started_def)
qed

theorem sample_during_write_lost_witness:
  "\<exists>snap p1. persist_begin 0 (new_publisher default_settings) = (Some snap, p1) \<and>
     fst (persist_begin 9 (persist_done snap (snd (record_wall 1 500 None p1)))) = None"
proof -
  obtain snap p where p: "persist_begin 0 (new_publisher default_settings) = (Some snap, p)" by (rule first_cycle)
  show ?thesis using sample_during_write_lost [OF p refl, of 1 500 None] p by blast
qed

end
