(* ===== verification/Request_Profile.thy ===== *)
theory Request_Profile
  imports Retrieval
begin

text \<open>
  \<^verbatim>\<open>request_profile.py\<close>: the timings of one request, as the cursor listeners, the stages and the session
  dependency record them, and the summary sent in the \<^verbatim>\<open>X-CF-Profile\<close> header. Every function takes the value
  of \<open>time.perf_counter()\<close>, in seconds, that it reads. The context variable holds the profile of the current
  request, so a request has its own run here.
\<close>

section \<open>Recording\<close>

record sql_sample =
  sq_category :: string
  sq_duration_ms :: real
  sq_rowcount :: "int option"

record request_profile =
  pr_started_at :: real
  pr_pool_wait_ms :: real
  pr_identity_ms :: real
  pr_app_ms :: real
  pr_serialize_ms :: real
  pr_queue_position_ms :: real
  pr_sql_samples :: "sql_sample list"
  pr_sql_started :: "real option"
  pr_sql_category :: string

definition start_profile :: "real \<Rightarrow> request_profile" where
  "start_profile t = \<lparr>pr_started_at = t, pr_pool_wait_ms = 0, pr_identity_ms = 0, pr_app_ms = 0,
     pr_serialize_ms = 0, pr_queue_position_ms = 0, pr_sql_samples = [], pr_sql_started = None,
     pr_sql_category = ''sql''\<rparr>"

definition category_of :: "string \<Rightarrow> string" where
  "category_of statement =
     (let text = lower (join '' '' (split_ws [] statement))
      in if contains ''from users'' text then ''identity''
         else if contains ''from evaluations'' text \<and> contains ''count('' text then ''queue_position''
         else if contains ''from evaluations'' text then ''evaluation''
         else if contains ''from submissions'' text then ''submission''
         else if contains ''from challenges'' text then ''challenge''
         else if contains ''from hackathons'' text then ''hackathon''
         else ''sql'')"

definition mark_sql_start :: "real \<Rightarrow> string \<Rightarrow> request_profile \<Rightarrow> request_profile" where
  "mark_sql_start t statement p = p\<lparr>pr_sql_started := Some t, pr_sql_category := category_of statement\<rparr>"

definition mark_sql_end :: "real \<Rightarrow> int option \<Rightarrow> request_profile \<Rightarrow> request_profile" where
  "mark_sql_end t rowcount p =
     (case pr_sql_started p of
        None \<Rightarrow> p
      | Some started \<Rightarrow>
          p\<lparr>pr_sql_samples := pr_sql_samples p @ [\<lparr>sq_category = pr_sql_category p,
               sq_duration_ms = py_round 3 ((t - started) * 1000), sq_rowcount = rowcount\<rparr>],
            pr_sql_started := None\<rparr>)"

definition timed_stage :: "string \<Rightarrow> real \<Rightarrow> real \<Rightarrow> request_profile \<Rightarrow> request_profile" where
  "timed_stage stage started finished p =
     (let elapsed = (finished - started) * 1000
      in if stage = ''identity'' then p\<lparr>pr_identity_ms := pr_identity_ms p + elapsed\<rparr>
         else if stage = ''serialize'' then p\<lparr>pr_serialize_ms := pr_serialize_ms p + elapsed\<rparr>
         else if stage = ''queue_position'' then p\<lparr>pr_queue_position_ms := pr_queue_position_ms p + elapsed\<rparr>
         else p\<lparr>pr_app_ms := pr_app_ms p + elapsed\<rparr>)"

text \<open>The wait for a connection that \<open>get_db_session\<close> of \<^verbatim>\<open>api/deps.py\<close> adds.\<close>

definition add_pool_wait :: "real \<Rightarrow> real \<Rightarrow> request_profile \<Rightarrow> request_profile" where
  "add_pool_wait started acquired p = p\<lparr>pr_pool_wait_ms := pr_pool_wait_ms p + (acquired - started) * 1000\<rparr>"

section \<open>The summary\<close>

text \<open>\<open>by_category\<close> is a dict in the order of its first samples; an entry is a count and a total.\<close>

fun add_entry :: "sql_sample \<Rightarrow> (string \<times> nat \<times> real) list \<Rightarrow> (string \<times> nat \<times> real) list" where
  "add_entry s [] = [(sq_category s, 1, py_round 3 (0 + sq_duration_ms s))]"
| "add_entry s ((c, n, ms) # rest) =
     (if c = sq_category s then (c, n + 1, py_round 3 (ms + sq_duration_ms s)) # rest
      else (c, n, ms) # add_entry s rest)"

definition by_category :: "sql_sample list \<Rightarrow> (string \<times> nat \<times> real) list" where
  "by_category samples = fold add_entry samples []"

record profile_summary =
  sm_total_ms :: real
  sm_pool_wait_ms :: real
  sm_sql_ms :: real
  sm_query_count :: nat
  sm_sql_by_category :: "(string \<times> nat \<times> real) list"
  sm_identity_ms :: real
  sm_queue_position_ms :: real
  sm_app_ms :: real
  sm_serialize_ms :: real
  sm_non_db_ms :: real

definition summary :: "real \<Rightarrow> request_profile \<Rightarrow> profile_summary" where
  "summary t p =
     (let sql_ms = sum_list (map sq_duration_ms (pr_sql_samples p));
          total_ms = (t - pr_started_at p) * 1000;
          exclusive = pr_pool_wait_ms p + sql_ms
      in \<lparr>sm_total_ms = py_round 3 total_ms, sm_pool_wait_ms = py_round 3 (pr_pool_wait_ms p),
           sm_sql_ms = py_round 3 sql_ms, sm_query_count = length (pr_sql_samples p),
           sm_sql_by_category = by_category (pr_sql_samples p), sm_identity_ms = py_round 3 (pr_identity_ms p),
           sm_queue_position_ms = py_round 3 (pr_queue_position_ms p), sm_app_ms = py_round 3 (pr_app_ms p),
           sm_serialize_ms = py_round 3 (pr_serialize_ms p), sm_non_db_ms = py_round 3 (max 0 (total_ms - exclusive))\<rparr>)"

text \<open>What happens to the profile of a request, in order.\<close>

datatype profile_event =
    SqlStart real string
  | SqlEnd real "int option"
  | StageDone string real real
  | PoolWait real real

fun on_event :: "profile_event \<Rightarrow> request_profile \<Rightarrow> request_profile" where
  "on_event (SqlStart t statement) = mark_sql_start t statement"
| "on_event (SqlEnd t n) = mark_sql_end t n"
| "on_event (StageDone stage t t') = timed_stage stage t t'"
| "on_event (PoolWait t t') = add_pool_wait t t'"

section \<open>Rounding\<close>

definition thousandths :: "real \<Rightarrow> bool" where
  "thousandths x \<longleftrightarrow> (\<exists>k :: int. x = of_int k / 1000)"

lemma round_half_even_close: "\<bar>of_int (round_half_even x) - x\<bar> \<le> 1 / 2"
proof -
  have "of_int \<lfloor>x\<rfloor> \<le> x" "x < of_int \<lfloor>x\<rfloor> + 1" by linarith+
  then show ?thesis by (auto simp: round_half_even_def Let_def abs_le_iff)
qed

lemma py_round_thousandths [intro]: "thousandths (py_round 3 x)"
  by (auto simp: thousandths_def py_round_def)

lemma py_round_id: "thousandths x \<Longrightarrow> py_round 3 x = x"
  by (auto simp: thousandths_def py_round_def round_half_even_int)

lemma py_round_close: "\<bar>py_round 3 x - x\<bar> \<le> 1 / 2000"
  using round_half_even_close [of "x * 1000"] by (simp add: py_round_def abs_le_iff field_simps)

lemma thousandths_0 [intro, simp]: "thousandths 0"
  unfolding thousandths_def by (rule exI [of _ 0]) simp

lemma thousandths_add [intro]: "thousandths x \<Longrightarrow> thousandths y \<Longrightarrow> thousandths (x + y)"
  unfolding thousandths_def by (metis add_divide_distrib of_int_add)

lemma thousandths_sum: "list_all thousandths xs \<Longrightarrow> thousandths (sum_list xs)"
  by (induction xs) auto

section \<open>The accounts add up\<close>

definition of_category :: "string \<Rightarrow> sql_sample list \<Rightarrow> sql_sample list" where
  "of_category c = filter (\<lambda>s. sq_category s = c)"

text \<open>What an entry of the dict says of the samples.\<close>

definition entry_ok :: "sql_sample list \<Rightarrow> string \<times> nat \<times> real \<Rightarrow> bool" where
  "entry_ok samples x \<longleftrightarrow> (case x of (c, n, ms) \<Rightarrow>
     n = length (of_category c samples) \<and> 0 < n \<and> ms = sum_list (map sq_duration_ms (of_category c samples)))"

definition rounded :: "sql_sample list \<Rightarrow> bool" where
  "rounded samples \<longleftrightarrow> list_all (\<lambda>s. thousandths (sq_duration_ms s)) samples"

lemma rounded_category: "rounded samples \<Longrightarrow> thousandths (sum_list (map sq_duration_ms (of_category c samples)))"
  by (intro thousandths_sum) (auto simp: rounded_def of_category_def list_all_iff)

lemma add_entry_keys: "fst ` set (add_entry s es) = insert (sq_category s) (fst ` set es)"
  by (induction s es rule: add_entry.induct) auto

lemma add_entry_distinct: "distinct (map fst es) \<Longrightarrow> distinct (map fst (add_entry s es))"
proof (induction s es rule: add_entry.induct)
  case (2 s c n ms rest)
  have "set (map fst (add_entry s rest)) = insert (sq_category s) (set (map fst rest))"
    using add_entry_keys [of s rest] by simp
  with 2 show ?case by auto
qed simp

lemma add_entry_sums:
  "thousandths (sq_duration_ms s) \<Longrightarrow> list_all (\<lambda>x. thousandths (snd (snd x))) es \<Longrightarrow>
   sum_list (map (\<lambda>x. fst (snd x)) (add_entry s es)) = Suc (sum_list (map (\<lambda>x. fst (snd x)) es)) \<and>
   sum_list (map (\<lambda>x. snd (snd x)) (add_entry s es)) = sq_duration_ms s + sum_list (map (\<lambda>x. snd (snd x)) es)"
  by (induction s es rule: add_entry.induct) (auto simp: py_round_id thousandths_add)

lemma add_entry_ok:
  assumes "rounded (samples @ [s])" and "distinct (map fst es)" and "sq_category s \<notin> fst ` set es \<longrightarrow> of_category (sq_category s) samples = []"
    and "list_all (entry_ok samples) es"
  shows "list_all (entry_ok (samples @ [s])) (add_entry s es)"
  using assms
proof (induction s es rule: add_entry.induct)
  case (1 s)
  then show ?case by (simp add: entry_ok_def of_category_def rounded_def py_round_id)
next
  case (2 s c n ms rest)
  have other: "entry_ok (samples @ [s]) x = entry_ok samples x" if "fst x \<noteq> sq_category s" for x
    using that by (auto simp: entry_ok_def of_category_def split: prod.split)
  show ?case
  proof (cases "c = sq_category s")
    case True
    have "thousandths ms" using "2.prems"(1,4) rounded_category [of samples c]
      by (simp add: entry_ok_def rounded_def)
    moreover have "thousandths (sq_duration_ms s)" using "2.prems"(1) by (simp add: rounded_def)
    ultimately have round: "py_round 3 (ms + sq_duration_ms s) = ms + sq_duration_ms s"
      by (intro py_round_id thousandths_add)
    have rest: "list_all (entry_ok (samples @ [s])) rest"
      unfolding list_all_iff
    proof (intro ballI)
      fix x assume x: "x \<in> set rest"
      then have "fst x \<in> fst ` set rest" by simp
      moreover have "c \<notin> fst ` set rest" using "2.prems"(2) by simp
      ultimately have "fst x \<noteq> sq_category s" using True by metis
      then show "entry_ok (samples @ [s]) x" using other "2.prems"(4) x by (simp add: list_all_iff)
    qed
    have "entry_ok samples (c, n, ms)" using "2.prems"(4) by simp
    then have "entry_ok (samples @ [s]) (c, n + 1, ms + sq_duration_ms s)"
      unfolding entry_ok_def of_category_def True by simp
    with rest show ?thesis by (simp add: True round)
  next
    case False
    then have "list_all (entry_ok (samples @ [s])) (add_entry s rest)"
      using "2.prems" by (intro "2.IH") auto
    then show ?thesis using False "2.prems"(4) other [of "(c, n, ms)"] by simp
  qed
qed

lemma by_category_snoc: "by_category (samples @ [s]) = add_entry s (by_category samples)"
  by (simp add: by_category_def)

lemma by_category_ok:
  "rounded samples \<Longrightarrow> distinct (map fst (by_category samples)) \<and> list_all (entry_ok samples) (by_category samples) \<and>
     fst ` set (by_category samples) = sq_category ` set samples"
proof (induction samples rule: rev_induct)
  case (snoc s samples)
  then have IH: "distinct (map fst (by_category samples))" "list_all (entry_ok samples) (by_category samples)"
      "fst ` set (by_category samples) = sq_category ` set samples"
    by (simp_all add: rounded_def)
  have "sq_category s \<notin> fst ` set (by_category samples) \<longrightarrow> of_category (sq_category s) samples = []"
    unfolding IH(3) unfolding of_category_def filter_empty_conv by (metis imageI)
  with snoc.prems IH show ?case
    by (simp add: by_category_snoc add_entry_distinct add_entry_ok add_entry_keys)
qed (simp add: by_category_def rounded_def)

lemma by_category_sums:
  "rounded samples \<Longrightarrow> sum_list (map (\<lambda>x. fst (snd x)) (by_category samples)) = length samples \<and>
     sum_list (map (\<lambda>x. snd (snd x)) (by_category samples)) = sum_list (map sq_duration_ms samples)"
proof (induction samples rule: rev_induct)
  case (snoc s samples)
  then have r: "rounded samples" "thousandths (sq_duration_ms s)" by (simp_all add: rounded_def)
  have "thousandths (snd (snd x))" if "entry_ok samples x" for x
    using that rounded_category [OF r(1)] by (auto simp: entry_ok_def)
  then have "list_all (\<lambda>x. thousandths (snd (snd x))) (by_category samples)"
    using by_category_ok [OF r(1)] by (auto simp: list_all_iff)
  then show ?case using snoc.IH [OF r(1)] add_entry_sums [OF r(2)] by (simp add: by_category_snoc)
qed (simp add: by_category_def)

text \<open>The statements that were measured: an end is counted when the last cursor event before it is a start.\<close>

fun measured :: "bool \<Rightarrow> profile_event list \<Rightarrow> nat" where
  "measured running [] = 0"
| "measured running (SqlStart t s # es) = measured True es"
| "measured running (SqlEnd t n # es) = (if running then 1 else 0) + measured False es"
| "measured running (e # es) = measured running es"

lemma run_profile:
  "rounded (pr_sql_samples p) \<Longrightarrow> rounded (pr_sql_samples (fold on_event es p)) \<and>
     length (pr_sql_samples (fold on_event es p)) = length (pr_sql_samples p) + measured (pr_sql_started p \<noteq> None) es"
proof (induction es arbitrary: p)
  case (Cons e es)
  show ?case
  proof (cases e)
    case (SqlEnd t n)
    show ?thesis
    proof (cases "pr_sql_started p")
      case (Some t0)
      with SqlEnd Cons.prems Cons.IH [of "on_event e p"] show ?thesis
        by (simp add: mark_sql_end_def rounded_def py_round_thousandths)
    qed (use SqlEnd Cons in \<open>simp add: mark_sql_end_def\<close>)
  qed (use Cons.prems Cons.IH [of "on_event e p"] in
      \<open>simp_all add: mark_sql_start_def timed_stage_def add_pool_wait_def Let_def\<close>)
qed simp

text \<open>
  Whatever happens during a request, the profile it sends adds up: the number of queries is the number of
  measured statements and the sum of the counts of the categories, the SQL time is the sum of the category totals exactly,
  in spite of the rounding at every step, each category is listed once with the count and the time of its samples, and the total
  time is never more than pool wait, SQL and the rest together, up to the rounding of three numbers.
\<close>

theorem profile_accounts:
  fixes t0 t :: real and es :: "profile_event list"
  defines "s \<equiv> summary t (fold on_event es (start_profile t0))"
  shows "sm_query_count s = measured False es \<and>
    sm_query_count s = sum_list (map (\<lambda>x. fst (snd x)) (sm_sql_by_category s)) \<and>
    sm_sql_ms s = sum_list (map (\<lambda>x. snd (snd x)) (sm_sql_by_category s)) \<and>
    distinct (map fst (sm_sql_by_category s)) \<and>
    list_all (entry_ok (pr_sql_samples (fold on_event es (start_profile t0)))) (sm_sql_by_category s) \<and>
    sm_total_ms s \<le> sm_pool_wait_ms s + sm_sql_ms s + sm_non_db_ms s + 3 / 2000"
proof -
  let ?p = "fold on_event es (start_profile t0)" let ?sql = "sum_list (map sq_duration_ms (pr_sql_samples ?p))"
  let ?total = "(t - pr_started_at ?p) * 1000"
  have r: "rounded (pr_sql_samples ?p)" "length (pr_sql_samples ?p) = measured False es"
    using run_profile [of "start_profile t0" es] by (simp_all add: start_profile_def rounded_def)
  have "thousandths ?sql" using r(1) by (intro thousandths_sum) (simp add: rounded_def list_all_iff)
  then have sql: "py_round 3 ?sql = ?sql" by (rule py_round_id)
  have "?total \<le> pr_pool_wait_ms ?p + ?sql + max 0 (?total - (pr_pool_wait_ms ?p + ?sql))" by linarith
  then have "py_round 3 ?total \<le> py_round 3 (pr_pool_wait_ms ?p) + ?sql +
      py_round 3 (max 0 (?total - (pr_pool_wait_ms ?p + ?sql))) + 3 / 2000"
    using py_round_close [of ?total] py_round_close [of "pr_pool_wait_ms ?p"]
      py_round_close [of "max 0 (?total - (pr_pool_wait_ms ?p + ?sql))"]
    unfolding abs_le_iff by linarith
  then show ?thesis
    using by_category_sums [OF r(1)] by_category_ok [OF r(1)] r(2) by (simp add: s_def summary_def Let_def sql)
qed

end
