(* ===== verification/Schema.thy ===== *)
theory Schema
  imports Prelude
begin

text \<open>
  Relational schemas and the data definition statements that the migrations send. A statement acts on
  the schema and on the rows; it fails where PostgreSQL refuses it. A row is a map from column names to values,
  a \<open>CHECK\<close> is evaluated in three-valued logic and admits a row unless it is false. What the database computes
  for a generated column is an argument. The main lemmas say which statements keep a valid database valid and which
  pairs of statements undo each other.
\<close>

section \<open>Schemas\<close>

datatype sql_type = UuidT | TextT | IntegerT | FloatT | BooleanT | TimestampT | JsonbT | TsvectorT

datatype sql_value = VNull | VUuid uuid | VText string | VInt int | VFloat real | VBool bool | VTime datetime
  | VJson json | VTsv string

datatype sql_check =
    In string "string list"
  | Ge string int
  | Le string int
  | Equals string int
  | GeCol string string
  | IsNull string
  | NotNull string
  | AndC sql_check sql_check
  | OrC sql_check sql_check

datatype sql_constraint =
    Check string sql_check
  | PrimaryKey "string list"
  | Unique "string option" "string list"
  | ForeignKey "string list" string "string list" "string option"

record column =
  cl_name :: string
  cl_type :: sql_type
  cl_nullable :: bool
  cl_default :: "sql_value option"
  cl_generated :: "string option"

record table =
  tb_name :: string
  tb_columns :: "column list"
  tb_constraints :: "sql_constraint list"

record index =
  ix_name :: string
  ix_table :: string
  ix_columns :: "string list"
  ix_unique :: bool
  ix_where :: "sql_check option"
  ix_using :: "string option"

record schema =
  sc_tables :: "table list"
  sc_indexes :: "index list"

type_synonym row = "string \<rightharpoonup> sql_value"

definition column_names :: "table \<Rightarrow> string list" where
  "column_names t = map cl_name (tb_columns t)"

fun check_columns :: "sql_check \<Rightarrow> string list" where
  "check_columns (In c vs) = [c]"
| "check_columns (Ge c n) = [c]"
| "check_columns (Le c n) = [c]"
| "check_columns (Equals c n) = [c]"
| "check_columns (GeCol c d) = [c, d]"
| "check_columns (IsNull c) = [c]"
| "check_columns (NotNull c) = [c]"
| "check_columns (AndC a b) = check_columns a @ check_columns b"
| "check_columns (OrC a b) = check_columns a @ check_columns b"

fun constraint_columns :: "sql_constraint \<Rightarrow> string list" where
  "constraint_columns (Check n e) = check_columns e"
| "constraint_columns (PrimaryKey cs) = cs"
| "constraint_columns (Unique n cs) = cs"
| "constraint_columns (ForeignKey cs t rs d) = cs"

fun constraint_name :: "sql_constraint \<Rightarrow> string option" where
  "constraint_name (Check n e) = Some n"
| "constraint_name (Unique n cs) = n"
| "constraint_name _ = None"

text \<open>The tables a constraint refers to.\<close>

fun refers_to :: "sql_constraint \<Rightarrow> string option" where
  "refers_to (ForeignKey cs t rs d) = Some t"
| "refers_to _ = None"

section \<open>Checks and rows\<close>

definition value_of :: "row \<Rightarrow> string \<Rightarrow> sql_value" where
  "value_of r c = (case r c of None \<Rightarrow> VNull | Some v \<Rightarrow> v)"

fun and3 :: "bool option \<Rightarrow> bool option \<Rightarrow> bool option" where
  "and3 (Some False) b = Some False"
| "and3 a (Some False) = Some False"
| "and3 (Some True) (Some True) = Some True"
| "and3 a b = None"

fun or3 :: "bool option \<Rightarrow> bool option \<Rightarrow> bool option" where
  "or3 (Some True) b = Some True"
| "or3 a (Some True) = Some True"
| "or3 (Some False) (Some False) = Some False"
| "or3 a b = None"

fun int_test :: "(int \<Rightarrow> bool) \<Rightarrow> sql_value \<Rightarrow> bool option" where
  "int_test p VNull = None"
| "int_test p (VInt i) = Some (p i)"
| "int_test p v = Some False"

fun eval_check :: "sql_check \<Rightarrow> row \<Rightarrow> bool option" where
  "eval_check (In c vs) r = (case value_of r c of VNull \<Rightarrow> None | VText t \<Rightarrow> Some (t \<in> set vs) | _ \<Rightarrow> Some False)"
| "eval_check (Ge c n) r = int_test (\<lambda>i. n \<le> i) (value_of r c)"
| "eval_check (Le c n) r = int_test (\<lambda>i. i \<le> n) (value_of r c)"
| "eval_check (Equals c n) r = int_test (\<lambda>i. i = n) (value_of r c)"
| "eval_check (GeCol c d) r =
     (case value_of r d of VNull \<Rightarrow> None | VInt j \<Rightarrow> int_test (\<lambda>i. j \<le> i) (value_of r c) | _ \<Rightarrow> Some False)"
| "eval_check (IsNull c) r = Some (value_of r c = VNull)"
| "eval_check (NotNull c) r = Some (value_of r c \<noteq> VNull)"
| "eval_check (AndC a b) r = and3 (eval_check a r) (eval_check b r)"
| "eval_check (OrC a b) r = or3 (eval_check a r) (eval_check b r)"

definition passes_check :: "sql_check \<Rightarrow> row \<Rightarrow> bool" where
  "passes_check e r \<longleftrightarrow> eval_check e r \<noteq> Some False"

definition key_of :: "string list \<Rightarrow> row \<Rightarrow> sql_value list" where
  "key_of cs r = map (value_of r) cs"

definition full_keys :: "string list \<Rightarrow> row list \<Rightarrow> sql_value list list" where
  "full_keys cs rows = filter (\<lambda>k. VNull \<notin> set k) (map (key_of cs) rows)"

text \<open>A constraint on the rows of its table, and on those of all tables for a foreign key.\<close>

fun constraint_holds :: "(string \<Rightarrow> row list) \<Rightarrow> row list \<Rightarrow> sql_constraint \<Rightarrow> bool" where
  "constraint_holds all rows (Check n e) = list_all (passes_check e) rows"
| "constraint_holds all rows (PrimaryKey cs) =
     (distinct (map (key_of cs) rows) \<and> list_all (\<lambda>r. VNull \<notin> set (key_of cs r)) rows)"
| "constraint_holds all rows (Unique n cs) = distinct (full_keys cs rows)"
| "constraint_holds all rows (ForeignKey cs t rs d) = (set (full_keys cs rows) \<subseteq> set (map (key_of rs) (all t)))"

definition index_holds :: "(string \<Rightarrow> row list) \<Rightarrow> index \<Rightarrow> bool" where
  "index_holds all i \<longleftrightarrow> \<not> ix_unique i \<or>
     distinct (full_keys (ix_columns i)
       (case ix_where i of None \<Rightarrow> all (ix_table i) | Some e \<Rightarrow> filter (\<lambda>r. eval_check e r = Some True) (all (ix_table i))))"

text \<open>A row of a table: exactly its columns, and no \<open>NULL\<close> where the column is \<open>NOT NULL\<close>.\<close>

definition row_ok :: "table \<Rightarrow> row \<Rightarrow> bool" where
  "row_ok t r \<longleftrightarrow> dom r = set (column_names t) \<and>
     list_all (\<lambda>c. cl_nullable c \<or> value_of r (cl_name c) \<noteq> VNull) (tb_columns t)"

record database =
  db_schema :: schema
  db_rows :: "string \<Rightarrow> row list"

definition table_names :: "schema \<Rightarrow> string list" where
  "table_names s = map tb_name (sc_tables s)"

text \<open>A schema whose names are consistent.\<close>

definition table_ok :: "table \<Rightarrow> bool" where
  "table_ok t \<longleftrightarrow> distinct (column_names t) \<and>
     list_all (\<lambda>c. set (constraint_columns c) \<subseteq> set (column_names t)) (tb_constraints t)"

definition index_ok :: "table list \<Rightarrow> index \<Rightarrow> bool" where
  "index_ok ts i \<longleftrightarrow> list_ex (\<lambda>t. tb_name t = ix_table i \<and>
     set (ix_columns i) \<union> (case ix_where i of None \<Rightarrow> {} | Some e \<Rightarrow> set (check_columns e)) \<subseteq> set (column_names t)) ts"

definition references_ok :: "table list \<Rightarrow> sql_constraint \<Rightarrow> bool" where
  "references_ok ts c \<longleftrightarrow> (case c of
     ForeignKey cs t rs d \<Rightarrow> list_ex (\<lambda>x. tb_name x = t \<and> set rs \<subseteq> set (column_names x)) ts | _ \<Rightarrow> True)"

definition schema_ok :: "schema \<Rightarrow> bool" where
  "schema_ok s \<longleftrightarrow> distinct (table_names s) \<and> list_all table_ok (sc_tables s) \<and>
     list_all (\<lambda>t. list_all (references_ok (sc_tables s)) (tb_constraints t)) (sc_tables s) \<and>
     distinct (map ix_name (sc_indexes s)) \<and> list_all (index_ok (sc_tables s)) (sc_indexes s)"

text \<open>What the database checks after a statement; \<open>db_valid\<close> adds that tables that do not exist have no rows.\<close>

definition tables_valid :: "database \<Rightarrow> bool" where
  "tables_valid d \<longleftrightarrow>
     list_all (\<lambda>t. list_all (row_ok t) (db_rows d (tb_name t)) \<and>
         list_all (constraint_holds (db_rows d) (db_rows d (tb_name t))) (tb_constraints t)) (sc_tables (db_schema d)) \<and>
     list_all (index_holds (db_rows d)) (sc_indexes (db_schema d))"

definition db_valid :: "database \<Rightarrow> bool" where
  "db_valid d \<longleftrightarrow> tables_valid d \<and> (\<forall>n. n \<notin> set (table_names (db_schema d)) \<longrightarrow> db_rows d n = [])"

section \<open>Statements\<close>

datatype sql_error = DuplicateTable | UndefinedTable | DuplicateColumn | UndefinedColumn | DuplicateObject
  | UndefinedObject | DependentObjects | ConstraintViolation

datatype ddl =
    CreateTable table
  | DropTable string
  | CreateIndex index
  | DropIndex string
  | AddColumn string column
  | DropColumn string string
  | CreateCheck string string sql_check
  | DropConstraint string string
  | InsertRow string "(string \<times> sql_value) list"
  | UpdateRows string "row \<Rightarrow> bool" "row \<Rightarrow> row"
  | DropIndexIfExists string
  | DropColumnIfExists string string

definition alter_table :: "string \<Rightarrow> (table \<Rightarrow> table) \<Rightarrow> schema \<Rightarrow> schema" where
  "alter_table n f s = s\<lparr>sc_tables := map (\<lambda>t. if tb_name t = n then f t else t) (sc_tables s)\<rparr>"

definition find_table :: "string \<Rightarrow> schema \<Rightarrow> table option" where
  "find_table n s = find (\<lambda>t. tb_name t = n) (sc_tables s)"

definition index_mentions :: "string \<Rightarrow> string \<Rightarrow> index \<Rightarrow> bool" where
  "index_mentions n c i \<longleftrightarrow> ix_table i = n \<and>
     (c \<in> set (ix_columns i) \<or> (case ix_where i of None \<Rightarrow> False | Some e \<Rightarrow> c \<in> set (check_columns e)))"

text \<open>A foreign key of any table that needs the column.\<close>

fun needs_column :: "string \<Rightarrow> string \<Rightarrow> sql_constraint \<Rightarrow> bool" where
  "needs_column n c (ForeignKey cs t rs d) = (t = n \<and> c \<in> set rs)"
| "needs_column n c _ = False"

definition drop_table :: "string \<Rightarrow> schema \<Rightarrow> schema" where
  "drop_table n s = \<lparr>sc_tables = filter (\<lambda>t. tb_name t \<noteq> n) (sc_tables s),
     sc_indexes = filter (\<lambda>i. ix_table i \<noteq> n) (sc_indexes s)\<rparr>"

definition drop_column :: "string \<Rightarrow> string \<Rightarrow> schema \<Rightarrow> schema" where
  "drop_column n c s = (alter_table n (\<lambda>t. t\<lparr>tb_columns := filter (\<lambda>x. cl_name x \<noteq> c) (tb_columns t),
       tb_constraints := filter (\<lambda>x. c \<notin> set (constraint_columns x)) (tb_constraints t)\<rparr>) s)
     \<lparr>sc_indexes := filter (\<lambda>i. \<not> index_mentions n c i) (sc_indexes s)\<rparr>"

fun schema_step :: "ddl \<Rightarrow> schema \<Rightarrow> sql_error + schema" where
  "schema_step (CreateTable t) s =
     (if tb_name t \<in> set (table_names s) then Inl DuplicateTable
      else if \<not> table_ok t then Inl UndefinedColumn
      else if \<not> list_all (references_ok (sc_tables s @ [t])) (tb_constraints t) then Inl UndefinedTable
      else Inr (s\<lparr>sc_tables := sc_tables s @ [t]\<rparr>))"
| "schema_step (DropTable n) s =
     (if n \<notin> set (table_names s) then Inl UndefinedTable
      else if list_ex (\<lambda>t. tb_name t \<noteq> n \<and> Some n \<in> refers_to ` set (tb_constraints t)) (sc_tables s) then Inl DependentObjects
      else Inr (drop_table n s))"
| "schema_step (CreateIndex i) s =
     (if ix_name i \<in> ix_name ` set (sc_indexes s) then Inl DuplicateObject
      else if \<not> index_ok (sc_tables s) i then Inl UndefinedColumn
      else Inr (s\<lparr>sc_indexes := sc_indexes s @ [i]\<rparr>))"
| "schema_step (DropIndex n) s =
     (if n \<notin> ix_name ` set (sc_indexes s) then Inl UndefinedObject
      else Inr (s\<lparr>sc_indexes := filter (\<lambda>i. ix_name i \<noteq> n) (sc_indexes s)\<rparr>))"
| "schema_step (AddColumn n c) s =
     (case find_table n s of
        None \<Rightarrow> Inl UndefinedTable
      | Some t \<Rightarrow> if cl_name c \<in> set (column_names t) then Inl DuplicateColumn
          else Inr (alter_table n (\<lambda>t. t\<lparr>tb_columns := tb_columns t @ [c]\<rparr>) s))"
| "schema_step (DropColumn n c) s =
     (case find_table n s of
        None \<Rightarrow> Inl UndefinedTable
      | Some t \<Rightarrow> if c \<notin> set (column_names t) then Inl UndefinedColumn
          else if list_ex (\<lambda>x. list_ex (needs_column n c) (tb_constraints x)) (sc_tables s) then Inl DependentObjects
          else Inr (drop_column n c s))"
| "schema_step (CreateCheck nm n e) s =
     (case find_table n s of
        None \<Rightarrow> Inl UndefinedTable
      | Some t \<Rightarrow> if Some nm \<in> constraint_name ` set (tb_constraints t) then Inl DuplicateObject
          else if \<not> set (check_columns e) \<subseteq> set (column_names t) then Inl UndefinedColumn
          else Inr (alter_table n (\<lambda>t. t\<lparr>tb_constraints := tb_constraints t @ [Check nm e]\<rparr>) s))"
| "schema_step (DropConstraint nm n) s =
     (case find_table n s of
        None \<Rightarrow> Inl UndefinedTable
      | Some t \<Rightarrow> if Some nm \<notin> constraint_name ` set (tb_constraints t) then Inl UndefinedObject
          else Inr (alter_table n (\<lambda>t. t\<lparr>tb_constraints := filter (\<lambda>x. constraint_name x \<noteq> Some nm) (tb_constraints t)\<rparr>) s))"
| "schema_step (InsertRow n vs) s =
     (case find_table n s of
        None \<Rightarrow> Inl UndefinedTable
      | Some t \<Rightarrow> if fst ` set vs \<subseteq> set (column_names t) then Inr s else Inl UndefinedColumn)"
| "schema_step (UpdateRows n p f) s = (if n \<in> set (table_names s) then Inr s else Inl UndefinedTable)"
| "schema_step (DropIndexIfExists n) s = Inr (s\<lparr>sc_indexes := filter (\<lambda>i. ix_name i \<noteq> n) (sc_indexes s)\<rparr>)"
| "schema_step (DropColumnIfExists n c) s =
     (case find_table n s of
        None \<Rightarrow> Inl UndefinedTable
      | Some t \<Rightarrow> if c \<notin> set (column_names t) then Inr s
          else if list_ex (\<lambda>x. list_ex (needs_column n c) (tb_constraints x)) (sc_tables s) then Inl DependentObjects
          else Inr (drop_column n c s))"

text \<open>The value of a column that is not given, and the row of an insert.\<close>

type_synonym generator = "string \<Rightarrow> row \<Rightarrow> sql_value"

definition fill_value :: "generator \<Rightarrow> column \<Rightarrow> row \<Rightarrow> sql_value" where
  "fill_value gen c r = (case cl_generated c of Some e \<Rightarrow> gen e r
     | None \<Rightarrow> (case cl_default c of Some v \<Rightarrow> v | None \<Rightarrow> VNull))"

definition new_row :: "generator \<Rightarrow> table \<Rightarrow> (string \<times> sql_value) list \<Rightarrow> row" where
  "new_row gen t vs = fold (\<lambda>c r. case map_of vs (cl_name c) of Some v \<Rightarrow> r(cl_name c \<mapsto> v)
     | None \<Rightarrow> r(cl_name c \<mapsto> fill_value gen c r)) (tb_columns t) Map.empty"

fun rows_step :: "generator \<Rightarrow> ddl \<Rightarrow> schema \<Rightarrow> (string \<Rightarrow> row list) \<Rightarrow> string \<Rightarrow> row list" where
  "rows_step gen (CreateTable t) s rows = rows(tb_name t := [])"
| "rows_step gen (DropTable n) s rows = rows(n := [])"
| "rows_step gen (AddColumn n c) s rows = rows(n := map (\<lambda>r. r(cl_name c \<mapsto> fill_value gen c r)) (rows n))"
| "rows_step gen (DropColumn n c) s rows = rows(n := map (\<lambda>r. r(c := None)) (rows n))"
| "rows_step gen (DropColumnIfExists n c) s rows =
     (case find_table n s of None \<Rightarrow> rows
      | Some t \<Rightarrow> if c \<in> set (column_names t) then rows(n := map (\<lambda>r. r(c := None)) (rows n)) else rows)"
| "rows_step gen (InsertRow n vs) s rows =
     (case find_table n s of None \<Rightarrow> rows | Some t \<Rightarrow> rows(n := rows n @ [new_row gen t vs]))"
| "rows_step gen (UpdateRows n p f) s rows = rows(n := map (\<lambda>r. if p r then f r else r) (rows n))"
| "rows_step gen _ s rows = rows"

definition exec_ddl :: "generator \<Rightarrow> ddl \<Rightarrow> database \<Rightarrow> sql_error + database" where
  "exec_ddl gen op d = (case schema_step op (db_schema d) of
     Inl e \<Rightarrow> Inl e
   | Inr s \<Rightarrow>
       (let d' = \<lparr>db_schema = s, db_rows = rows_step gen op (db_schema d) (db_rows d)\<rparr>
        in if tables_valid d' then Inr d' else Inl ConstraintViolation))"

fun run_ddl :: "generator \<Rightarrow> ddl list \<Rightarrow> database \<Rightarrow> sql_error + database" where
  "run_ddl gen [] d = Inr d"
| "run_ddl gen (op # ops) d = (case exec_ddl gen op d of Inl e \<Rightarrow> Inl e | Inr d' \<Rightarrow> run_ddl gen ops d')"

fun run_schema :: "ddl list \<Rightarrow> schema \<Rightarrow> sql_error + schema" where
  "run_schema [] s = Inr s"
| "run_schema (op # ops) s = (case schema_step op s of Inl e \<Rightarrow> Inl e | Inr s' \<Rightarrow> run_schema ops s')"

fun run_rows :: "generator \<Rightarrow> ddl list \<Rightarrow> schema \<Rightarrow> (string \<Rightarrow> row list) \<Rightarrow> string \<Rightarrow> row list" where
  "run_rows gen [] s rows = rows"
| "run_rows gen (op # ops) s rows =
     (case schema_step op s of Inl e \<Rightarrow> rows | Inr s' \<Rightarrow> run_rows gen ops s' (rows_step gen op s rows))"

section \<open>What a constraint depends on\<close>

definition same_on :: "string list \<Rightarrow> row \<Rightarrow> row \<Rightarrow> bool" where
  "same_on cs r r' \<longleftrightarrow> (\<forall>c\<in>set cs. r c = r' c)"

lemma same_on_mono: "same_on ds r r' \<Longrightarrow> set cs \<subseteq> set ds \<Longrightarrow> same_on cs r r'"
  by (auto simp: same_on_def)

lemma same_on_refl [simp]: "same_on cs r r"
  by (simp add: same_on_def)

lemma value_of_same: "same_on cs r r' \<Longrightarrow> c \<in> set cs \<Longrightarrow> value_of r' c = value_of r c"
  by (simp add: same_on_def value_of_def)

lemma key_of_same: "same_on cs r r' \<Longrightarrow> key_of cs r' = key_of cs r"
  by (simp add: key_of_def value_of_same)

lemma value_of_eq: "r c = r' c \<Longrightarrow> value_of r c = value_of r' c"
  by (simp add: value_of_def)

lemma eval_check_same: "same_on (check_columns e) r r' \<Longrightarrow> eval_check e r' = eval_check e r"
proof (induction e)
  case (GeCol c d)
  then have "value_of r' c = value_of r c" "value_of r' d = value_of r d"
    by (simp_all add: same_on_def value_of_def)
  then show ?case by (simp split: sql_value.split)
qed (simp_all add: same_on_def value_of_def ball_Un)

lemma keys_map: "(\<And>r. r \<in> set rows \<Longrightarrow> same_on cs r (f r)) \<Longrightarrow> map (key_of cs) (map f rows) = map (key_of cs) rows"
  by (auto intro: key_of_same)

lemma full_keys_map: "(\<And>r. r \<in> set rows \<Longrightarrow> same_on cs r (f r)) \<Longrightarrow> full_keys cs (map f rows) = full_keys cs rows"
  unfolding full_keys_def by (simp only: keys_map)

text \<open>Rewriting the rows of every table outside the columns of a constraint does not change whether it holds.\<close>

lemma constraint_holds_map:
  assumes "\<And>r. r \<in> set rows \<Longrightarrow> same_on (constraint_columns c) r (f r)"
    and "\<And>cs t rs d. c = ForeignKey cs t rs d \<Longrightarrow> all' t = map (g t) (all t) \<and> (\<forall>r\<in>set (all t). same_on rs r (g t r))"
  shows "constraint_holds all' (map f rows) c = constraint_holds all rows c"
proof (cases c)
  case (Check n e)
  then have "eval_check e (f r) = eval_check e r" if "r \<in> set rows" for r
    using assms(1) [OF that] eval_check_same by simp
  then show ?thesis using Check by (simp add: list_all_iff passes_check_def)
next
  case (PrimaryKey cs)
  then have "key_of cs (f r) = key_of cs r" if "r \<in> set rows" for r
    using assms(1) [OF that] key_of_same by simp
  moreover from this have "map (key_of cs) (map f rows) = map (key_of cs) rows" by simp
  ultimately show ?thesis using PrimaryKey by (simp add: list_all_iff del: map_map)
next
  case (Unique n cs)
  then show ?thesis using assms(1) by (simp add: full_keys_map)
next
  case (ForeignKey cs t rs d)
  then have "full_keys cs (map f rows) = full_keys cs rows" "map (key_of rs) (all' t) = map (key_of rs) (all t)"
    using assms full_keys_map [of rows cs f] keys_map [of "all t" rs "g t"] by auto
  then show ?thesis using ForeignKey by (simp del: set_map)
qed

lemma index_holds_map:
  assumes "all' (ix_table i) = map f (all (ix_table i))"
    and "\<And>r. r \<in> set (all (ix_table i)) \<Longrightarrow> same_on (ix_columns i) r (f r)"
    and "\<And>r e. r \<in> set (all (ix_table i)) \<Longrightarrow> ix_where i = Some e \<Longrightarrow> same_on (check_columns e) r (f r)"
  shows "index_holds all' i = index_holds all i"
proof -
  have w: "filter (\<lambda>r. eval_check e r = Some True) (map f rows) = map f (filter (\<lambda>r. eval_check e r = Some True) rows)"
    if "\<And>r. r \<in> set rows \<Longrightarrow> same_on (check_columns e) r (f r)" for e rows
    using that
  proof (induction rows)
    case (Cons a rows)
    then have "eval_check e (f a) = eval_check e a" by (intro eval_check_same) simp
    then show ?case using Cons by simp
  qed simp
  show ?thesis
  proof (cases "ix_where i")
    case None
    then show ?thesis using assms(1) full_keys_map [OF assms(2)] by (simp add: index_holds_def)
  next
    case (Some e)
    have "full_keys (ix_columns i) (map f (filter (\<lambda>r. eval_check e r = Some True) (all (ix_table i)))) =
        full_keys (ix_columns i) (filter (\<lambda>r. eval_check e r = Some True) (all (ix_table i)))"
      using assms(2) by (intro full_keys_map) simp
    then show ?thesis using Some assms(1) w [OF assms(3) [OF _ Some]] by (simp add: index_holds_def)
  qed
qed

section \<open>Statements keep a schema consistent\<close>

lemma find_table_Some: "find_table n s = Some t \<Longrightarrow> t \<in> set (sc_tables s) \<and> tb_name t = n"
  unfolding find_table_def by (auto simp: find_Some_iff)

lemma find_table_name: "find_table n s = Some t \<Longrightarrow> n \<in> set (table_names s)"
  using find_table_Some by (fastforce simp: table_names_def)

lemma find_table_None: "find_table n s = None \<longleftrightarrow> n \<notin> set (table_names s)"
  by (auto simp: find_table_def table_names_def find_None_iff)

text \<open>One table of each name.\<close>

lemma table_unique: "schema_ok s \<Longrightarrow> t \<in> set (sc_tables s) \<Longrightarrow> t' \<in> set (sc_tables s) \<Longrightarrow> tb_name t = tb_name t' \<Longrightarrow> t = t'"
  unfolding schema_ok_def table_names_def by (meson distinct_map inj_onD)

lemma references_ok_mono:
  assumes "references_ok ts c" and "\<And>t. t \<in> set ts \<Longrightarrow> \<exists>t'\<in>set ts'. tb_name t' = tb_name t \<and> set (column_names t) \<subseteq> set (column_names t')"
  shows "references_ok ts' c"
proof (cases c)
  case (ForeignKey cs n rs d)
  then obtain t where "t \<in> set ts" "tb_name t = n" "set rs \<subseteq> set (column_names t)"
    using assms(1) by (auto simp: references_ok_def list_ex_iff)
  then obtain t' where "t' \<in> set ts'" "tb_name t' = n" "set rs \<subseteq> set (column_names t')"
    using assms(2) by fastforce
  then show ?thesis using ForeignKey by (auto simp: references_ok_def list_ex_iff)
qed (simp_all add: references_ok_def)

lemma index_ok_mono:
  assumes "index_ok ts i" and "\<And>t. t \<in> set ts \<Longrightarrow> \<exists>t'\<in>set ts'. tb_name t' = tb_name t \<and> set (column_names t) \<subseteq> set (column_names t')"
  shows "index_ok ts' i"
proof -
  obtain t where t: "t \<in> set ts" "tb_name t = ix_table i"
    "set (ix_columns i) \<union> (case ix_where i of None \<Rightarrow> {} | Some e \<Rightarrow> set (check_columns e)) \<subseteq> set (column_names t)"
    using assms(1) by (auto simp: index_ok_def list_ex_iff)
  obtain t' where "t' \<in> set ts'" "tb_name t' = tb_name t" "set (column_names t) \<subseteq> set (column_names t')"
    using assms(2) [OF t(1)] by blast
  then show ?thesis using t by (auto simp: index_ok_def list_ex_iff)
qed

lemma names_alter [simp]: "(\<And>t. tb_name (f t) = tb_name t) \<Longrightarrow> table_names (alter_table n f s) = table_names s"
  by (auto simp: table_names_def alter_table_def)

text \<open>A change of one table that keeps its name and adds columns at most.\<close>

lemma schema_ok_alter:
  assumes "schema_ok s" and "\<And>t. tb_name (f t) = tb_name t"
    and "\<And>t. t \<in> set (sc_tables s) \<Longrightarrow> tb_name t = n \<Longrightarrow> table_ok (f t) \<and> set (column_names t) \<subseteq> set (column_names (f t)) \<and>
       (\<forall>c\<in>set (tb_constraints (f t)). c \<in> set (tb_constraints t) \<or> (\<exists>nm e. c = Check nm e))"
  shows "schema_ok (alter_table n f s)"
proof -
  let ?ts = "sc_tables (alter_table n f s)"
  have grow: "\<exists>t'\<in>set ?ts. tb_name t' = tb_name t \<and> set (column_names t) \<subseteq> set (column_names t')" if "t \<in> set (sc_tables s)" for t
    using that assms(2,3) by (intro bexI [of _ "if tb_name t = n then f t else t"]) (auto simp: alter_table_def)
  have refs: "references_ok ?ts c" if "t \<in> set ?ts" "c \<in> set (tb_constraints t)" for t c
  proof -
    have "t \<in> (\<lambda>t. if tb_name t = n then f t else t) ` set (sc_tables s)" using that(1) by (simp add: alter_table_def)
    then obtain t0 where t0: "t = (if tb_name t0 = n then f t0 else t0)" "t0 \<in> set (sc_tables s)" by (rule imageE)
    show ?thesis
    proof (cases "c \<in> set (tb_constraints t0)")
      case True
      then have "references_ok (sc_tables s) c" using assms(1) t0(2) by (auto simp: schema_ok_def list_all_iff)
      then show ?thesis using grow by (rule references_ok_mono)
    next
      case False
      then have "\<exists>nm e. c = Check nm e" using assms(3) [OF t0(2)] t0(1) that(2) by (cases "tb_name t0 = n") auto
      then show ?thesis by (auto simp: references_ok_def)
    qed
  qed
  have "table_ok t" if "t \<in> set ?ts" for t
    using that assms(1,3) by (auto simp: alter_table_def schema_ok_def list_all_iff)
  moreover have "index_ok ?ts i" if "i \<in> set (sc_indexes s)" for i
    using index_ok_mono [OF _ grow] that assms(1) by (auto simp: schema_ok_def list_all_iff)
  ultimately show ?thesis
    using assms(1,2) refs by (simp add: schema_ok_def list_all_iff) (simp add: alter_table_def)
qed

lemma list_ex_mapI: "y \<in> set ys \<Longrightarrow> P (g y) \<Longrightarrow> list_ex P (map g ys)"
  by (auto simp: list_ex_iff)

lemma schema_ok_filter_indexes:
  assumes "schema_ok s" shows "schema_ok (s\<lparr>sc_indexes := filter P (sc_indexes s)\<rparr>)"
  using assms by (auto simp: schema_ok_def table_names_def list_all_iff distinct_map inj_on_def)

lemma schema_ok_create_table:
  assumes "schema_ok s" and "tb_name t \<notin> set (table_names s)" and "table_ok t"
    and "list_all (references_ok (sc_tables s @ [t])) (tb_constraints t)"
  shows "schema_ok (s\<lparr>sc_tables := sc_tables s @ [t]\<rparr>)"
proof -
  have grow: "\<exists>t'\<in>set (sc_tables s @ [t]). tb_name t' = tb_name x \<and> set (column_names x) \<subseteq> set (column_names t')"
    if "x \<in> set (sc_tables s)" for x using that by auto
  have "references_ok (sc_tables s @ [t]) c" if "x \<in> set (sc_tables s)" "c \<in> set (tb_constraints x)" for x c
  proof -
    have "references_ok (sc_tables s) c" using assms(1) that by (auto simp: schema_ok_def list_all_iff)
    then show ?thesis using grow by (rule references_ok_mono)
  qed
  moreover have "index_ok (sc_tables s @ [t]) i" if "i \<in> set (sc_indexes s)" for i
  proof -
    have "index_ok (sc_tables s) i" using assms(1) that by (auto simp: schema_ok_def list_all_iff)
    then show ?thesis using grow by (rule index_ok_mono)
  qed
  ultimately show ?thesis using assms by (auto simp: schema_ok_def table_names_def list_all_iff)
qed

lemma schema_ok_drop_table:
  assumes "schema_ok s" and "\<not> list_ex (\<lambda>t. tb_name t \<noteq> n \<and> Some n \<in> refers_to ` set (tb_constraints t)) (sc_tables s)"
  shows "schema_ok (drop_table n s)"
proof -
  let ?ts = "filter (\<lambda>t. tb_name t \<noteq> n) (sc_tables s)"
  have "references_ok ?ts c" if x: "x \<in> set ?ts" "c \<in> set (tb_constraints x)" for x c
  proof (cases c)
    case (ForeignKey cs m rs d)
    then have "m \<noteq> n" using assms(2) x by (force simp: list_ex_iff)
    moreover have "references_ok (sc_tables s) c" using assms(1) x by (auto simp: schema_ok_def list_all_iff)
    ultimately show ?thesis using ForeignKey by (auto simp: references_ok_def list_ex_iff)
  qed (simp_all add: references_ok_def)
  moreover have "index_ok ?ts i" if "i \<in> set (sc_indexes s)" "ix_table i \<noteq> n" for i
  proof -
    have "index_ok (sc_tables s) i" using assms(1) that by (auto simp: schema_ok_def list_all_iff)
    then show ?thesis using that(2) by (auto simp: index_ok_def list_ex_iff)
  qed
  ultimately show ?thesis
    using assms(1) by (auto simp: schema_ok_def drop_table_def table_names_def list_all_iff distinct_map inj_on_def)
qed

lemma schema_ok_drop_column:
  assumes "schema_ok s" and "\<not> list_ex (\<lambda>x. list_ex (needs_column n c) (tb_constraints x)) (sc_tables s)"
  shows "schema_ok (drop_column n c s)"
proof -
  let ?f = "\<lambda>t. t\<lparr>tb_columns := filter (\<lambda>x. cl_name x \<noteq> c) (tb_columns t),
       tb_constraints := filter (\<lambda>x. c \<notin> set (constraint_columns x)) (tb_constraints t)\<rparr>"
  let ?g = "\<lambda>t. if tb_name t = n then ?f t else t"
  have tables: "sc_tables (drop_column n c s) = map ?g (sc_tables s)" by (simp add: drop_column_def alter_table_def)
  have cols: "set (column_names (?g t)) = set (column_names t) - (if tb_name t = n then {c} else {})" for t
    by (auto simp: column_names_def)
  have "table_ok (?g t)" if "t \<in> set (sc_tables s)" for t
  proof -
    have t: "distinct (column_names t)" "list_all (\<lambda>x. set (constraint_columns x) \<subseteq> set (column_names t)) (tb_constraints t)"
      using assms(1) that by (auto simp: schema_ok_def table_ok_def list_all_iff)
    have "distinct (column_names (?g t))" using t(1) by (simp add: column_names_def distinct_map inj_on_def)
    then show ?thesis using t(2) cols [of t] by (auto simp: table_ok_def list_all_iff)
  qed
  moreover have "references_ok (map ?g (sc_tables s)) x" if "t \<in> set (sc_tables s)" "x \<in> set (tb_constraints t)" for t x
  proof (cases x)
    case (ForeignKey cs m rs d)
    have "references_ok (sc_tables s) x" using assms(1) that by (auto simp: schema_ok_def list_all_iff)
    then obtain y where y: "y \<in> set (sc_tables s)" "tb_name y = m" "set rs \<subseteq> set (column_names y)"
      using ForeignKey by (auto simp: references_ok_def list_ex_iff)
    have "\<not> (m = n \<and> c \<in> set rs)" using assms(2) that ForeignKey by (force simp: list_ex_iff)
    then have "tb_name (?g y) = m \<and> set rs \<subseteq> set (column_names (?g y))" using y cols [of y] by auto
    with y(1) show ?thesis unfolding references_ok_def ForeignKey sql_constraint.case by (rule list_ex_mapI)
  qed (simp_all add: references_ok_def)
  moreover have "index_ok (map ?g (sc_tables s)) i" if i: "i \<in> set (sc_indexes s)" "\<not> index_mentions n c i" for i
  proof -
    obtain y where y: "y \<in> set (sc_tables s)" "tb_name y = ix_table i"
      "set (ix_columns i) \<union> (case ix_where i of None \<Rightarrow> {} | Some e \<Rightarrow> set (check_columns e)) \<subseteq> set (column_names y)"
      using assms(1) i(1) by (auto simp: schema_ok_def list_all_iff index_ok_def list_ex_iff)
    have "tb_name (?g y) = ix_table i \<and>
        set (ix_columns i) \<union> (case ix_where i of None \<Rightarrow> {} | Some e \<Rightarrow> set (check_columns e)) \<subseteq> set (column_names (?g y))"
      using y i(2) cols [of y] by (auto simp: index_mentions_def split: option.splits if_splits)
    with y(1) show ?thesis unfolding index_ok_def by (rule list_ex_mapI)
  qed
  moreover have "map tb_name (map ?g (sc_tables s)) = map tb_name (sc_tables s)" by simp
  moreover have "set (tb_constraints (?g t)) \<subseteq> set (tb_constraints t)" for t by auto
  ultimately have "list_all table_ok (map ?g (sc_tables s))" "distinct (map tb_name (map ?g (sc_tables s)))"
    "list_all (\<lambda>t. list_all (references_ok (map ?g (sc_tables s))) (tb_constraints t)) (map ?g (sc_tables s))"
    "list_all (index_ok (map ?g (sc_tables s))) (filter (\<lambda>i. \<not> index_mentions n c i) (sc_indexes s))"
    using assms(1) unfolding list_all_iff schema_ok_def table_names_def by (simp_all only: set_map set_filter) blast+
  moreover have "distinct (map ix_name (filter (\<lambda>i. \<not> index_mentions n c i) (sc_indexes s)))"
    using assms(1) by (simp add: schema_ok_def distinct_map_filter)
  ultimately show ?thesis unfolding schema_ok_def table_names_def tables by (simp add: drop_column_def)
qed

lemma schema_step_ok:
  assumes "schema_step op s = Inr s'" and "schema_ok s"
  shows "schema_ok s'"
proof (cases op)
  case (CreateTable t)
  then show ?thesis using assms schema_ok_create_table by (auto split: if_splits)
next
  case (DropTable n)
  then show ?thesis using assms schema_ok_drop_table by (auto split: if_splits)
next
  case (CreateIndex i)
  then show ?thesis using assms by (auto simp: schema_ok_def table_names_def split: if_splits)
next
  case (DropIndex n)
  then show ?thesis using assms schema_ok_filter_indexes by (auto split: if_splits)
next
  case (DropIndexIfExists n)
  then show ?thesis using assms schema_ok_filter_indexes by auto
next
  case (AddColumn n c)
  then obtain t where t: "find_table n s = Some t" "cl_name c \<notin> set (column_names t)"
      "s' = alter_table n (\<lambda>t. t\<lparr>tb_columns := tb_columns t @ [c]\<rparr>) s"
    using assms(1) by (auto split: option.splits if_splits)
  have only: "x = t" if "x \<in> set (sc_tables s)" "tb_name x = n" for x
    using find_table_Some [OF t(1)] table_unique [OF assms(2)] that by blast
  show ?thesis
    unfolding t(3)
  proof (rule schema_ok_alter [OF assms(2)])
    fix x assume x: "x \<in> set (sc_tables s)" "tb_name x = n"
    then have "table_ok x" using assms(2) by (auto simp: schema_ok_def list_all_iff)
    then show "table_ok (x\<lparr>tb_columns := tb_columns x @ [c]\<rparr>) \<and>
        set (column_names x) \<subseteq> set (column_names (x\<lparr>tb_columns := tb_columns x @ [c]\<rparr>)) \<and>
        (\<forall>c'\<in>set (tb_constraints (x\<lparr>tb_columns := tb_columns x @ [c]\<rparr>)). c' \<in> set (tb_constraints x) \<or> (\<exists>nm e. c' = Check nm e))"
      using t(2) only [OF x] by (auto simp: table_ok_def column_names_def list_all_iff)
  qed simp
next
  case (DropColumn n c)
  then show ?thesis using assms schema_ok_drop_column by (auto split: option.splits if_splits)
next
  case (DropColumnIfExists n c)
  then show ?thesis using assms schema_ok_drop_column by (auto split: option.splits if_splits)
next
  case (CreateCheck nm n e)
  then obtain t where t: "find_table n s = Some t" "set (check_columns e) \<subseteq> set (column_names t)"
      "s' = alter_table n (\<lambda>t. t\<lparr>tb_constraints := tb_constraints t @ [Check nm e]\<rparr>) s"
    using assms(1) by (auto split: option.splits if_splits)
  have only: "x = t" if "x \<in> set (sc_tables s)" "tb_name x = n" for x
    using find_table_Some [OF t(1)] table_unique [OF assms(2)] that by blast
  show ?thesis
    unfolding t(3)
  proof (rule schema_ok_alter [OF assms(2)])
    fix x assume x: "x \<in> set (sc_tables s)" "tb_name x = n"
    then have "table_ok x" using assms(2) by (auto simp: schema_ok_def list_all_iff)
    then show "table_ok (x\<lparr>tb_constraints := tb_constraints x @ [Check nm e]\<rparr>) \<and>
        set (column_names x) \<subseteq> set (column_names (x\<lparr>tb_constraints := tb_constraints x @ [Check nm e]\<rparr>)) \<and>
        (\<forall>c'\<in>set (tb_constraints (x\<lparr>tb_constraints := tb_constraints x @ [Check nm e]\<rparr>)).
           c' \<in> set (tb_constraints x) \<or> (\<exists>nm e. c' = Check nm e))"
      using t(2) only [OF x] by (auto simp: table_ok_def column_names_def)
  qed simp
next
  case (DropConstraint nm n)
  then obtain t where t: "s' = alter_table n (\<lambda>t. t\<lparr>tb_constraints := filter (\<lambda>x. constraint_name x \<noteq> Some nm) (tb_constraints t)\<rparr>) s"
    using assms(1) by (auto split: option.splits if_splits)
  have "table_ok x" if "x \<in> set (sc_tables s)" for x using assms(2) that by (auto simp: schema_ok_def list_all_iff)
  then show ?thesis
    unfolding t by (intro schema_ok_alter [OF assms(2)]) (auto simp: table_ok_def column_names_def list_all_iff)
next
  case (InsertRow n vs)
  then show ?thesis using assms by (auto split: option.splits if_splits)
next
  case (UpdateRows n p f)
  then show ?thesis using assms by (auto split: if_splits)
qed

section \<open>Statements on valid data\<close>

text \<open>What a statement needs of the rows; the other statements succeed on any valid data.\<close>

fun data_ok :: "generator \<Rightarrow> ddl \<Rightarrow> database \<Rightarrow> bool" where
  "data_ok gen (AddColumn n c) d = (cl_nullable c \<or> list_all (\<lambda>r. fill_value gen c r \<noteq> VNull) (db_rows d n))"
| "data_ok gen (CreateCheck nm n e) d = list_all (passes_check e) (db_rows d n)"
| "data_ok gen (CreateIndex i) d = index_holds (db_rows d) i"
| "data_ok gen (InsertRow n vs) d = tables_valid (d\<lparr>db_rows := rows_step gen (InsertRow n vs) (db_schema d) (db_rows d)\<rparr>)"
| "data_ok gen (UpdateRows n p f) d = tables_valid (d\<lparr>db_rows := rows_step gen (UpdateRows n p f) (db_schema d) (db_rows d)\<rparr>)"
| "data_ok gen _ d = True"

text \<open>The rows are rewritten outside the columns of every constraint that is kept; what is new holds.\<close>

lemma tables_valid_step:
  assumes "tables_valid d" and "schema_ok (db_schema d')"
    and rows: "\<And>m. m \<in> set (table_names (db_schema d')) \<Longrightarrow> db_rows d' m = map (g m) (db_rows d m)"
    and tables: "\<And>t'. t' \<in> set (sc_tables (db_schema d')) \<Longrightarrow> db_rows d' (tb_name t') = [] \<or>
       (\<exists>t\<in>set (sc_tables (db_schema d)). tb_name t = tb_name t' \<and>
          (\<forall>r\<in>set (db_rows d (tb_name t)). row_ok t r \<longrightarrow> row_ok t' (g (tb_name t) r)) \<and>
          (\<forall>c\<in>set (tb_constraints t'). c \<in> set (tb_constraints t) \<and> (\<forall>r. same_on (constraint_columns c) r (g (tb_name t) r)) \<or>
             (\<exists>nm e. c = Check nm e \<and> list_all (passes_check e) (db_rows d' (tb_name t')))))"
    and refs: "\<And>t' cs m rs a r. t' \<in> set (sc_tables (db_schema d')) \<Longrightarrow> ForeignKey cs m rs a \<in> set (tb_constraints t') \<Longrightarrow>
       same_on rs r (g m r)"
    and idx: "\<And>i. i \<in> set (sc_indexes (db_schema d')) \<Longrightarrow> index_holds (db_rows d') i \<or>
       (i \<in> set (sc_indexes (db_schema d)) \<and> (\<forall>r. same_on (ix_columns i) r (g (ix_table i) r) \<and>
          (\<forall>e. ix_where i = Some e \<longrightarrow> same_on (check_columns e) r (g (ix_table i) r))))"
  shows "tables_valid d'"
proof -
  have t: "list_all (row_ok t') (db_rows d' (tb_name t')) \<and>
      list_all (constraint_holds (db_rows d') (db_rows d' (tb_name t'))) (tb_constraints t')"
    if t': "t' \<in> set (sc_tables (db_schema d'))" for t'
  proof (cases "db_rows d' (tb_name t') = []")
    case True
    have "constraint_holds (db_rows d') [] c" for c by (cases c) (simp_all add: full_keys_def)
    then show ?thesis using True by (simp add: list_all_iff)
  next
    case False
    then obtain t where t: "t \<in> set (sc_tables (db_schema d))" "tb_name t = tb_name t'"
        "\<forall>r\<in>set (db_rows d (tb_name t)). row_ok t r \<longrightarrow> row_ok t' (g (tb_name t) r)"
        and c: "\<forall>c\<in>set (tb_constraints t'). c \<in> set (tb_constraints t) \<and> (\<forall>r. same_on (constraint_columns c) r (g (tb_name t) r)) \<or>
             (\<exists>nm e. c = Check nm e \<and> list_all (passes_check e) (db_rows d' (tb_name t')))"
      using tables [OF t'] by blast
    have r': "db_rows d' (tb_name t') = map (g (tb_name t)) (db_rows d (tb_name t))"
      using rows [of "tb_name t'"] t' t(2) by (simp add: table_names_def)
    have v: "list_all (row_ok t) (db_rows d (tb_name t))"
        "list_all (constraint_holds (db_rows d) (db_rows d (tb_name t))) (tb_constraints t)"
      using assms(1) t(1) by (auto simp: tables_valid_def list_all_iff)
    have "constraint_holds (db_rows d') (db_rows d' (tb_name t')) c" if ct': "c \<in> set (tb_constraints t')" for c
    proof (cases "c \<in> set (tb_constraints t) \<and> (\<forall>r. same_on (constraint_columns c) r (g (tb_name t) r))")
      case True
      have "constraint_holds (db_rows d') (map (g (tb_name t)) (db_rows d (tb_name t))) c =
          constraint_holds (db_rows d) (db_rows d (tb_name t)) c"
      proof (rule constraint_holds_map)
        fix cs m rs a assume fk: "c = ForeignKey cs m rs a"
        then have "references_ok (sc_tables (db_schema d')) c"
          using assms(2) t' ct' by (auto simp: schema_ok_def list_all_iff)
        then have "m \<in> set (table_names (db_schema d'))" using fk by (auto simp: references_ok_def list_ex_iff table_names_def)
        then show "db_rows d' m = map (g m) (db_rows d m) \<and> (\<forall>r\<in>set (db_rows d m). same_on rs r (g m r))"
          using rows refs [OF t'] ct' fk by blast
      qed (use True in blast)
      then show ?thesis using True v(2) r' by (simp add: list_all_iff)
    next
      case False
      then show ?thesis using c ct' by auto
    qed
    moreover have "list_all (row_ok t') (db_rows d' (tb_name t'))"
      using v(1) t(3) r' by (auto simp: list_all_iff)
    ultimately show ?thesis by (simp add: list_all_iff)
  qed
  have i: "index_holds (db_rows d') i" if i: "i \<in> set (sc_indexes (db_schema d'))" for i
  proof (cases "index_holds (db_rows d') i")
    case False
    have "index_ok (sc_tables (db_schema d')) i" using assms(2) i by (auto simp: schema_ok_def list_all_iff)
    then have "ix_table i \<in> set (table_names (db_schema d'))" by (auto simp: index_ok_def list_ex_iff table_names_def intro: rev_image_eqI)
    then have "index_holds (db_rows d') i = index_holds (db_rows d) i"
      using idx [OF i] False rows by (intro index_holds_map) auto
    then show ?thesis using idx [OF i] assms(1) False by (auto simp: tables_valid_def list_all_iff)
  qed
  show ?thesis using t i unfolding tables_valid_def list_all_iff by blast
qed

lemma same_on_upd [simp]: "same_on cs r (r(c := v)) \<longleftrightarrow> c \<notin> set cs \<or> r c = v"
  by (auto simp: same_on_def)

lemma table_columns_ok:
  assumes "schema_ok s" and "t \<in> set (sc_tables s)" and "c \<in> set (tb_constraints t)"
  shows "set (constraint_columns c) \<subseteq> set (column_names t)" and "references_ok (sc_tables s) c"
  using assms by (auto simp: schema_ok_def table_ok_def list_all_iff)

text \<open>A reference or an index of a table whose columns it may use.\<close>

lemma reference_columns:
  assumes "schema_ok s" and "t \<in> set (sc_tables s)" and "ForeignKey cs m rs a \<in> set (tb_constraints t)" and "find_table m s = Some x"
  shows "set rs \<subseteq> set (column_names x)"
  using table_columns_ok(2) [OF assms(1-3)] find_table_Some [OF assms(4)] table_unique [OF assms(1)]
  by (auto simp: references_ok_def list_ex_iff)

lemma index_columns:
  assumes "schema_ok s" and "i \<in> set (sc_indexes s)" and "find_table (ix_table i) s = Some x"
  shows "set (ix_columns i) \<subseteq> set (column_names x)" and "ix_where i = Some e \<Longrightarrow> set (check_columns e) \<subseteq> set (column_names x)"
proof -
  have "index_ok (sc_tables s) i" using assms(1,2) by (auto simp: schema_ok_def list_all_iff)
  then obtain t where "t \<in> set (sc_tables s)" "tb_name t = ix_table i"
    "set (ix_columns i) \<union> (case ix_where i of None \<Rightarrow> {} | Some e \<Rightarrow> set (check_columns e)) \<subseteq> set (column_names t)"
    by (auto simp: index_ok_def list_ex_iff)
  moreover from this have "t = x" using find_table_Some [OF assms(3)] table_unique [OF assms(1)] by simp
  ultimately show "set (ix_columns i) \<subseteq> set (column_names x)" "ix_where i = Some e \<Longrightarrow> set (check_columns e) \<subseteq> set (column_names x)"
    by auto
qed

text \<open>A new column, whatever its values are.\<close>

lemma valid_add_column:
  assumes "tables_valid d" and "schema_ok (db_schema d)" and "find_table n (db_schema d) = Some t" and "cl_name c \<notin> set (column_names t)"
    and "cl_nullable c \<or> list_all (\<lambda>r. v r \<noteq> VNull) (db_rows d n)"
    and "schema_ok s'" and s': "s' = alter_table n (\<lambda>t. t\<lparr>tb_columns := tb_columns t @ [c]\<rparr>) (db_schema d)"
  shows "tables_valid \<lparr>db_schema = s', db_rows = (db_rows d)(n := map (\<lambda>r. r(cl_name c \<mapsto> v r)) (db_rows d n))\<rparr>"
proof -
  let ?g = "\<lambda>m r. if m = n then r(cl_name c \<mapsto> v r) else r"
  let ?s = "db_schema d" let ?f = "\<lambda>t. t\<lparr>tb_columns := tb_columns t @ [c]\<rparr>"
  let ?d' = "\<lparr>db_schema = s', db_rows = (db_rows d)(n := map (\<lambda>r. r(cl_name c \<mapsto> v r)) (db_rows d n))\<rparr>"
  have only: "x = t" if "x \<in> set (sc_tables ?s)" "tb_name x = n" for x
    using find_table_Some [OF assms(3)] table_unique [OF assms(2)] that by blast
  have old: "same_on cs r (?g m r)" if "m = n \<Longrightarrow> set cs \<subseteq> set (column_names t)" for m cs r
    using that assms(4) by auto
  show ?thesis
  proof (rule tables_valid_step [OF assms(1), of ?d' ?g])
    show "schema_ok (db_schema ?d')" using assms(6) by simp
    show "db_rows ?d' m = map (?g m) (db_rows d m)" for m by simp
  next
    fix t' assume "t' \<in> set (sc_tables (db_schema ?d'))"
    then have "t' \<in> (\<lambda>t. if tb_name t = n then ?f t else t) ` set (sc_tables ?s)" by (simp add: s' alter_table_def)
    then obtain x where x: "t' = (if tb_name x = n then ?f x else x)" "x \<in> set (sc_tables ?s)" by (rule imageE)
    have ne: "cl_name k \<noteq> cl_name c" if "k \<in> set (tb_columns t)" for k
      using assms(4) that by (metis column_names_def image_eqI set_map)
    have row: "row_ok t' (?g (tb_name x) r)" if "r \<in> set (db_rows d (tb_name x))" "row_ok x r" for r
      using that x(1) assms(5) only [OF x(2)] assms(4)
      by (auto simp: row_ok_def column_names_def list_all_iff value_of_def dest: ne)
    have "same_on (constraint_columns k) r (?g (tb_name x) r)" if "k \<in> set (tb_constraints x)" for k r
      using only [OF x(2)] table_columns_ok(1) [OF assms(2) x(2) that] by (intro old) simp
    then show "db_rows ?d' (tb_name t') = [] \<or> (\<exists>y\<in>set (sc_tables ?s). tb_name y = tb_name t' \<and>
          (\<forall>r\<in>set (db_rows d (tb_name y)). row_ok y r \<longrightarrow> row_ok t' (?g (tb_name y) r)) \<and>
          (\<forall>k\<in>set (tb_constraints t'). k \<in> set (tb_constraints y) \<and> (\<forall>r. same_on (constraint_columns k) r (?g (tb_name y) r)) \<or>
             (\<exists>nm e. k = Check nm e \<and> list_all (passes_check e) (db_rows ?d' (tb_name t')))))"
      using x row by (intro disjI2 bexI [of _ x]) auto
  next
    fix t' cs m rs a r assume t': "t' \<in> set (sc_tables (db_schema ?d'))" "ForeignKey cs m rs a \<in> set (tb_constraints t')"
    then obtain x where "x \<in> set (sc_tables ?s)" "ForeignKey cs m rs a \<in> set (tb_constraints x)"
      by (auto simp: s' alter_table_def split: if_splits)
    then show "same_on rs r (?g m r)" using reference_columns [OF assms(2)] assms(3) by (intro old) simp
  next
    fix i assume "i \<in> set (sc_indexes (db_schema ?d'))"
    then have i: "i \<in> set (sc_indexes ?s)" by (simp add: s' alter_table_def)
    then show "index_holds (db_rows ?d') i \<or> (i \<in> set (sc_indexes ?s) \<and> (\<forall>r. same_on (ix_columns i) r (?g (ix_table i) r) \<and>
          (\<forall>e. ix_where i = Some e \<longrightarrow> same_on (check_columns e) r (?g (ix_table i) r))))"
      using i index_columns [OF assms(2) i] assms(3) by (intro disjI2 conjI allI impI) (assumption, (rule old, simp)+)
  qed
qed

lemma valid_drop_column:
  assumes "tables_valid d" and "schema_ok (db_schema d)" and "find_table n (db_schema d) = Some t"
    and dep: "\<not> list_ex (\<lambda>x. list_ex (needs_column n c) (tb_constraints x)) (sc_tables (db_schema d))"
    and "schema_ok s'" and s': "s' = drop_column n c (db_schema d)"
  shows "tables_valid \<lparr>db_schema = s', db_rows = (db_rows d)(n := map (\<lambda>r. r(c := None)) (db_rows d n))\<rparr>"
proof -
  let ?g = "\<lambda>m r. if m = n then r(c := None) else r"
  let ?s = "db_schema d"
  let ?f = "\<lambda>t. t\<lparr>tb_columns := filter (\<lambda>x. cl_name x \<noteq> c) (tb_columns t),
       tb_constraints := filter (\<lambda>x. c \<notin> set (constraint_columns x)) (tb_constraints t)\<rparr>"
  let ?d' = "\<lparr>db_schema = s', db_rows = (db_rows d)(n := map (\<lambda>r. r(c := None)) (db_rows d n))\<rparr>"
  show ?thesis
  proof (rule tables_valid_step [OF assms(1), of ?d' ?g])
    show "schema_ok (db_schema ?d')" using assms(5) by simp
    show "db_rows ?d' m = map (?g m) (db_rows d m)" for m by simp
  next
    fix t' assume "t' \<in> set (sc_tables (db_schema ?d'))"
    then have "t' \<in> (\<lambda>t. if tb_name t = n then ?f t else t) ` set (sc_tables ?s)" by (simp add: s' drop_column_def alter_table_def)
    then obtain x where x: "t' = (if tb_name x = n then ?f x else x)" "x \<in> set (sc_tables ?s)" by (rule imageE)
    have row: "row_ok t' (?g (tb_name x) r)" if "row_ok x r" for r
      using that x(1) by (auto simp: row_ok_def column_names_def list_all_iff value_of_def)
    show "db_rows ?d' (tb_name t') = [] \<or> (\<exists>y\<in>set (sc_tables ?s). tb_name y = tb_name t' \<and>
          (\<forall>r\<in>set (db_rows d (tb_name y)). row_ok y r \<longrightarrow> row_ok t' (?g (tb_name y) r)) \<and>
          (\<forall>k\<in>set (tb_constraints t'). k \<in> set (tb_constraints y) \<and> (\<forall>r. same_on (constraint_columns k) r (?g (tb_name y) r)) \<or>
             (\<exists>nm e. k = Check nm e \<and> list_all (passes_check e) (db_rows ?d' (tb_name t')))))"
      using x row by (intro disjI2 bexI [of _ x]) auto
  next
    fix t' cs m rs a r assume "t' \<in> set (sc_tables (db_schema ?d'))" "ForeignKey cs m rs a \<in> set (tb_constraints t')"
    then obtain x where "x \<in> set (sc_tables ?s)" "ForeignKey cs m rs a \<in> set (tb_constraints x)"
      by (auto simp: s' drop_column_def alter_table_def split: if_splits)
    then have "\<not> (m = n \<and> c \<in> set rs)" using dep by (force simp: list_ex_iff)
    then show "same_on rs r (?g m r)" by auto
  next
    fix i assume "i \<in> set (sc_indexes (db_schema ?d'))"
    then have "i \<in> set (sc_indexes ?s)" "\<not> index_mentions n c i" by (simp_all add: s' drop_column_def)
    then show "index_holds (db_rows ?d') i \<or> (i \<in> set (sc_indexes ?s) \<and> (\<forall>r. same_on (ix_columns i) r (?g (ix_table i) r) \<and>
          (\<forall>e. ix_where i = Some e \<longrightarrow> same_on (check_columns e) r (?g (ix_table i) r))))"
      by (auto simp: index_mentions_def)
  qed
qed

text \<open>Statements that leave the rows of all remaining tables alone.\<close>

lemma valid_same_rows:
  assumes "tables_valid d" and "schema_ok s'" and "\<And>m. m \<in> set (table_names s') \<Longrightarrow> rows m = db_rows d m"
    and "\<And>t'. t' \<in> set (sc_tables s') \<Longrightarrow> db_rows d (tb_name t') = [] \<or>
      (\<exists>t\<in>set (sc_tables (db_schema d)). tb_name t = tb_name t' \<and> tb_columns t' = tb_columns t \<and>
         (\<forall>c\<in>set (tb_constraints t'). c \<in> set (tb_constraints t) \<or>
            (\<exists>nm e. c = Check nm e \<and> list_all (passes_check e) (db_rows d (tb_name t')))))"
    and "\<And>i. i \<in> set (sc_indexes s') \<Longrightarrow> i \<in> set (sc_indexes (db_schema d)) \<or> index_holds rows i"
  shows "tables_valid \<lparr>db_schema = s', db_rows = rows\<rparr>"
proof (rule tables_valid_step [OF assms(1), of "\<lparr>db_schema = s', db_rows = rows\<rparr>" "\<lambda>m r. r"])
  fix t' assume t': "t' \<in> set (sc_tables (db_schema \<lparr>db_schema = s', db_rows = rows\<rparr>))"
  then have "rows (tb_name t') = db_rows d (tb_name t')" using assms(3) by (simp add: table_names_def)
  then have rows: "db_rows \<lparr>db_schema = s', db_rows = rows\<rparr> (tb_name t') = db_rows d (tb_name t')" by simp
  show "db_rows \<lparr>db_schema = s', db_rows = rows\<rparr> (tb_name t') = [] \<or>
      (\<exists>t\<in>set (sc_tables (db_schema d)). tb_name t = tb_name t' \<and>
          (\<forall>r\<in>set (db_rows d (tb_name t)). row_ok t r \<longrightarrow> row_ok t' r) \<and>
          (\<forall>c\<in>set (tb_constraints t'). c \<in> set (tb_constraints t) \<and> (\<forall>r. same_on (constraint_columns c) r r) \<or>
             (\<exists>nm e. c = Check nm e \<and> list_all (passes_check e) (db_rows \<lparr>db_schema = s', db_rows = rows\<rparr> (tb_name t')))))"
    unfolding rows
  proof (cases "db_rows d (tb_name t') = []")
    case False
    then obtain t where t: "t \<in> set (sc_tables (db_schema d))" "tb_name t = tb_name t'" "tb_columns t' = tb_columns t"
        "\<forall>c\<in>set (tb_constraints t'). c \<in> set (tb_constraints t) \<or>
            (\<exists>nm e. c = Check nm e \<and> list_all (passes_check e) (db_rows d (tb_name t')))"
      using assms(4) [of t'] t' by auto
    have "row_ok t = row_ok t'" using t(3) by (auto simp: row_ok_def column_names_def)
    then show "db_rows d (tb_name t') = [] \<or>
      (\<exists>t\<in>set (sc_tables (db_schema d)). tb_name t = tb_name t' \<and>
          (\<forall>r\<in>set (db_rows d (tb_name t)). row_ok t r \<longrightarrow> row_ok t' r) \<and>
          (\<forall>c\<in>set (tb_constraints t'). c \<in> set (tb_constraints t) \<and> (\<forall>r. same_on (constraint_columns c) r r) \<or>
             (\<exists>nm e. c = Check nm e \<and> list_all (passes_check e) (db_rows d (tb_name t')))))"
      using t by (intro disjI2 bexI [of _ t]) simp_all
  qed simp
qed (use assms(2,3,5) in auto)

lemma table_names_simps [simp]:
  "table_names (s\<lparr>sc_indexes := x\<rparr>) = table_names s"
  "table_names (drop_column n c s) = table_names s"
  "table_names (s\<lparr>sc_tables := sc_tables s @ [t]\<rparr>) = table_names s @ [tb_name t]"
  "set (table_names (drop_table n s)) = set (table_names s) - {n}"
  by (auto simp: table_names_def drop_table_def drop_column_def alter_table_def)

lemma step_names:
  "schema_step op s = Inr s' \<Longrightarrow> set (table_names s') =
     (case op of CreateTable t \<Rightarrow> insert (tb_name t) (set (table_names s)) | DropTable n \<Rightarrow> set (table_names s) - {n}
      | _ \<Rightarrow> set (table_names s))"
  by (cases op) (auto split: if_splits option.splits)

lemma step_rows_elsewhere:
  assumes "schema_step op s = Inr s'" and "m \<notin> set (table_names s')" and "\<And>n. n \<notin> set (table_names s) \<Longrightarrow> rows n = []"
  shows "rows_step gen op s rows m = []"
proof (cases "m \<in> set (table_names s)")
  case True
  then have "op = DropTable m" using assms(2) step_names [OF assms(1)] by (cases op) auto
  then show ?thesis by simp
next
  case False
  note rows = assms(3) [OF False]
  show ?thesis
    using rows False by (cases op) (auto simp: find_table_None dest: find_table_name split: option.splits)
qed

lemma valid_alter:
  assumes "tables_valid d" and "schema_ok (alter_table n f (db_schema d))" and "\<And>t. tb_name (f t) = tb_name t"
    and "\<And>t. tb_columns (f t) = tb_columns t"
    and "\<And>t c. c \<in> set (tb_constraints (f t)) \<Longrightarrow> c \<in> set (tb_constraints t) \<or>
      (\<exists>nm e. c = Check nm e \<and> list_all (passes_check e) (db_rows d n))"
  shows "tables_valid \<lparr>db_schema = alter_table n f (db_schema d), db_rows = db_rows d\<rparr>"
proof (rule valid_same_rows [OF assms(1,2)])
  fix t' assume "t' \<in> set (sc_tables (alter_table n f (db_schema d)))"
  then have "t' \<in> (\<lambda>t. if tb_name t = n then f t else t) ` set (sc_tables (db_schema d))" by (simp add: alter_table_def)
  then obtain x where x: "t' = (if tb_name x = n then f x else x)" "x \<in> set (sc_tables (db_schema d))" by (rule imageE)
  have "tb_name x = tb_name t'" "tb_columns t' = tb_columns x" using x(1) assms(3,4) by simp_all
  moreover have "c \<in> set (tb_constraints x) \<or> (\<exists>nm e. c = Check nm e \<and> list_all (passes_check e) (db_rows d (tb_name t')))"
    if "c \<in> set (tb_constraints t')" for c
    using that x(1) assms(3,5) by (auto split: if_splits)
  ultimately show "db_rows d (tb_name t') = [] \<or> (\<exists>t\<in>set (sc_tables (db_schema d)). tb_name t = tb_name t' \<and> tb_columns t' = tb_columns t \<and>
         (\<forall>c\<in>set (tb_constraints t'). c \<in> set (tb_constraints t) \<or>
            (\<exists>nm e. c = Check nm e \<and> list_all (passes_check e) (db_rows d (tb_name t')))))"
    using x(2) by blast
qed (simp_all add: alter_table_def)

lemma exec_tables_valid:
  assumes "db_valid d" and "schema_ok (db_schema d)" and "schema_step op (db_schema d) = Inr s'" and "data_ok gen op d"
  shows "tables_valid \<lparr>db_schema = s', db_rows = rows_step gen op (db_schema d) (db_rows d)\<rparr>"
proof -
  have v: "tables_valid d" and empty: "\<And>n. n \<notin> set (table_names (db_schema d)) \<Longrightarrow> db_rows d n = []"
    using assms(1) by (auto simp: db_valid_def)
  have ok': "schema_ok s'" using schema_step_ok [OF assms(3,2)] .
  have same: "\<lparr>db_schema = db_schema d, db_rows = rows\<rparr> = d\<lparr>db_rows := rows\<rparr>" for rows by simp
  have keep: "\<exists>x\<in>set (sc_tables (db_schema d)). tb_name x = tb_name t \<and> tb_columns t = tb_columns x \<and>
      (\<forall>c\<in>set (tb_constraints t). c \<in> set (tb_constraints x) \<or> P c)" if "t \<in> set (sc_tables (db_schema d))" for t P
    using that by blast
  show ?thesis
  proof (cases op)
    case (CreateTable t)
    then have s': "s' = (db_schema d)\<lparr>sc_tables := sc_tables (db_schema d) @ [t]\<rparr>" "tb_name t \<notin> set (table_names (db_schema d))"
      using assms(3) by (auto split: if_splits)
    show ?thesis
      using s' empty keep CreateTable by (intro valid_same_rows [OF v ok']) (auto simp: table_names_def)
  next
    case (DropTable n)
    then have s': "s' = drop_table n (db_schema d)" using assms(3) by (auto split: if_splits)
    show ?thesis
      using s' keep DropTable by (intro valid_same_rows [OF v ok']) (auto simp: drop_table_def table_names_def)
  next
    case (CreateIndex i)
    then have s': "s' = (db_schema d)\<lparr>sc_indexes := sc_indexes (db_schema d) @ [i]\<rparr>" using assms(3) by (auto split: if_splits)
    show ?thesis
      using s' keep CreateIndex assms(4) by (intro valid_same_rows [OF v ok']) auto
  next
    case (DropIndex n)
    then have s': "s' = (db_schema d)\<lparr>sc_indexes := filter (\<lambda>i. ix_name i \<noteq> n) (sc_indexes (db_schema d))\<rparr>"
      using assms(3) by (auto split: if_splits)
    show ?thesis using s' keep DropIndex by (intro valid_same_rows [OF v ok']) auto
  next
    case (DropIndexIfExists n)
    then show ?thesis using assms(3) keep by (intro valid_same_rows [OF v ok']) auto
  next
    case (AddColumn n c)
    then show ?thesis using assms(3,4) valid_add_column [OF v assms(2) _ _ _ ok'] by (auto split: option.splits if_splits)
  next
    case (DropColumn n c)
    then show ?thesis using assms(3) valid_drop_column [OF v assms(2) _ _ ok'] by (auto split: option.splits if_splits)
  next
    case (DropColumnIfExists n c)
    then obtain t where t: "find_table n (db_schema d) = Some t" using assms(3) by (auto split: option.splits)
    show ?thesis
    proof (cases "c \<in> set (column_names t)")
      case True
      then show ?thesis using t DropColumnIfExists assms(3) valid_drop_column [OF v assms(2) t _ ok'] by (auto split: if_splits)
    next
      case False
      then show ?thesis using t DropColumnIfExists assms(3) v by (simp add: tables_valid_def)
    qed
  next
    case (CreateCheck nm n e)
    then show ?thesis using assms(3,4) ok'
      by (auto split: option.splits if_splits intro!: valid_alter [OF v])
  next
    case (DropConstraint nm n)
    then show ?thesis using assms(3) ok' by (auto split: option.splits if_splits intro!: valid_alter [OF v])
  next
    case (InsertRow n vs)
    then have "s' = db_schema d" using assms(3) by (auto split: option.splits if_splits)
    then show ?thesis using assms(4) InsertRow by (simp only: data_ok.simps same)
  next
    case (UpdateRows n p f)
    then have "s' = db_schema d" using assms(3) by (auto split: if_splits)
    then show ?thesis using assms(4) UpdateRows by (simp only: data_ok.simps same)
  qed
qed

text \<open>A statement whose schema part and whose data condition are met succeeds and leaves a valid database.\<close>

lemma exec_ok:
  assumes "db_valid d" and "schema_ok (db_schema d)" and "schema_step op (db_schema d) = Inr s'" and "data_ok gen op d"
  shows "exec_ddl gen op d = Inr \<lparr>db_schema = s', db_rows = rows_step gen op (db_schema d) (db_rows d)\<rparr>"
    and "db_valid \<lparr>db_schema = s', db_rows = rows_step gen op (db_schema d) (db_rows d)\<rparr>" and "schema_ok s'"
proof -
  note v = exec_tables_valid [OF assms]
  then show "exec_ddl gen op d = Inr \<lparr>db_schema = s', db_rows = rows_step gen op (db_schema d) (db_rows d)\<rparr>"
    using assms(3) by (simp add: exec_ddl_def Let_def)
  have "rows_step gen op (db_schema d) (db_rows d) n = []" if "n \<notin> set (table_names s')" for n
    using assms(1) that by (intro step_rows_elsewhere [OF assms(3)]) (auto simp: db_valid_def)
  with v show "db_valid \<lparr>db_schema = s', db_rows = rows_step gen op (db_schema d) (db_rows d)\<rparr>"
    by (simp add: db_valid_def)
  show "schema_ok s'" using assms(3,2) by (rule schema_step_ok)
qed

text \<open>Whatever succeeded was a valid step.\<close>

lemma exec_Inr:
  assumes "exec_ddl gen op d = Inr d'"
  shows "schema_step op (db_schema d) = Inr (db_schema d')" and "db_rows d' = rows_step gen op (db_schema d) (db_rows d)"
    and "tables_valid d'"
  using assms by (auto simp: exec_ddl_def Let_def split: sum.splits if_splits)

lemma run_ddl_append:
  "run_ddl gen (xs @ ys) d = (case run_ddl gen xs d of Inl e \<Rightarrow> Inl e | Inr d' \<Rightarrow> run_ddl gen ys d')"
  by (induction xs arbitrary: d) (auto split: sum.splits)

lemma run_schema_append:
  "run_schema (xs @ ys) s = (case run_schema xs s of Inl e \<Rightarrow> Inl e | Inr s' \<Rightarrow> run_schema ys s')"
  by (induction xs arbitrary: s) (auto split: sum.splits)

end
