(* ===== verification/Migrations.thy ===== *)
theory Migrations
  imports Schema Submissions
begin

text \<open>
  The migrations of \<^verbatim>\<open>alembic/versions/\<close> as lists of statements, the schema \<^verbatim>\<open>persistence/models.py\<close> declares, and the
  statements of \<^verbatim>\<open>retrieval/schema.py\<close>. The expressions of the generated columns are kept as texts; what PostgreSQL
  computes for them is an argument where statements are run.
\<close>

section \<open>Columns\<close>

definition required :: "string \<Rightarrow> sql_type \<Rightarrow> column" where
  "required n t = \<lparr>cl_name = n, cl_type = t, cl_nullable = False, cl_default = None, cl_generated = None\<rparr>"

definition optional :: "string \<Rightarrow> sql_type \<Rightarrow> column" where
  "optional n t = \<lparr>cl_name = n, cl_type = t, cl_nullable = True, cl_default = None, cl_generated = None\<rparr>"

definition defaulted :: "string \<Rightarrow> sql_type \<Rightarrow> sql_value \<Rightarrow> column" where
  "defaulted n t v = \<lparr>cl_name = n, cl_type = t, cl_nullable = False, cl_default = Some v, cl_generated = None\<rparr>"

definition generated :: "string \<Rightarrow> sql_type \<Rightarrow> string \<Rightarrow> column" where
  "generated n t e = \<lparr>cl_name = n, cl_type = t, cl_nullable = True, cl_default = None, cl_generated = Some e\<rparr>"

definition plain_index :: "string \<Rightarrow> string \<Rightarrow> string list \<Rightarrow> index" where
  "plain_index n t cs = \<lparr>ix_name = n, ix_table = t, ix_columns = cs, ix_unique = False, ix_where = None, ix_using = None\<rparr>"

definition gin_index :: "string \<Rightarrow> string \<Rightarrow> string list \<Rightarrow> index" where
  "gin_index n t cs = \<lparr>ix_name = n, ix_table = t, ix_columns = cs, ix_unique = False, ix_where = None, ix_using = Some ''gin''\<rparr>"

section \<open>The tables\<close>

definition users_table :: table where
  "users_table = \<lparr>tb_name = ''users'',
     tb_columns = [required ''id'' UuidT,
       required ''display_name'' TextT,
       required ''role'' TextT,
       required ''created_at'' TimestampT],
     tb_constraints = [Check ''ck_users_role'' (In ''role'' [''organizer'', ''participant'']),
       PrimaryKey [''id'']]\<rparr>"

definition hackathons_table :: table where
  "hackathons_table = \<lparr>tb_name = ''hackathons'',
     tb_columns = [required ''id'' UuidT,
       required ''title'' TextT,
       required ''description'' TextT,
       required ''status'' TextT,
       required ''organizer_id'' UuidT,
       required ''created_at'' TimestampT,
       required ''updated_at'' TimestampT],
     tb_constraints = [Check ''ck_hackathons_status'' (In ''status'' [''draft'', ''published'', ''closed'']),
       ForeignKey [''organizer_id''] ''users'' [''id''] None,
       PrimaryKey [''id'']]\<rparr>"

definition challenges_table :: table where
  "challenges_table = \<lparr>tb_name = ''challenges'',
     tb_columns = [required ''id'' UuidT,
       required ''hackathon_id'' UuidT,
       required ''title'' TextT,
       required ''description'' TextT,
       required ''constraints'' TextT,
       required ''status'' TextT,
       required ''created_at'' TimestampT,
       required ''updated_at'' TimestampT],
     tb_constraints = [Check ''ck_challenges_status'' (In ''status'' [''draft'', ''published'', ''closed'']),
       ForeignKey [''hackathon_id''] ''hackathons'' [''id''] (Some ''CASCADE''),
       PrimaryKey [''id'']]\<rparr>"

definition challenge_specifications_table :: table where
  "challenge_specifications_table = \<lparr>tb_name = ''challenge_specifications'',
     tb_columns = [required ''challenge_id'' UuidT,
       required ''body'' TextT,
       required ''created_at'' TimestampT,
       required ''updated_at'' TimestampT],
     tb_constraints = [ForeignKey [''challenge_id''] ''challenges'' [''id''] (Some ''CASCADE''),
       PrimaryKey [''challenge_id'']]\<rparr>"

definition evaluation_criteria_table :: table where
  "evaluation_criteria_table = \<lparr>tb_name = ''evaluation_criteria'',
     tb_columns = [required ''id'' UuidT,
       required ''challenge_id'' UuidT,
       required ''name'' TextT,
       required ''description'' TextT,
       required ''weight'' IntegerT],
     tb_constraints = [Check ''ck_evaluation_criteria_weight'' (Ge ''weight'' 1),
       ForeignKey [''challenge_id''] ''challenges'' [''id''] (Some ''CASCADE''),
       PrimaryKey [''id'']]\<rparr>"

definition submissions_table :: table where
  "submissions_table = \<lparr>tb_name = ''submissions'',
     tb_columns = [required ''id'' UuidT,
       required ''challenge_id'' UuidT,
       required ''participant_id'' UuidT,
       required ''status'' TextT,
       defaulted ''metadata'' JsonbT (VJson (JObj [])),
       optional ''artifact_key'' TextT,
       optional ''idempotency_key'' TextT,
       optional ''failure_reason'' TextT,
       required ''created_at'' TimestampT,
       required ''updated_at'' TimestampT],
     tb_constraints = [Check ''ck_submissions_status'' (In ''status'' [''created'', ''submitted'', ''cancelled'', ''failed'']),
       ForeignKey [''challenge_id''] ''challenges'' [''id''] (Some ''CASCADE''),
       ForeignKey [''participant_id''] ''users'' [''id''] None,
       PrimaryKey [''id'']]\<rparr>"

definition evaluations_table :: table where
  "evaluations_table = \<lparr>tb_name = ''evaluations'',
     tb_columns = [required ''id'' UuidT,
       required ''submission_id'' UuidT,
       required ''status'' TextT,
       required ''created_at'' TimestampT,
       optional ''started_at'' TimestampT,
       optional ''completed_at'' TimestampT,
       defaulted ''attempt_count'' IntegerT (VInt 0),
       optional ''failure_reason'' TextT,
       optional ''score'' IntegerT,
       defaulted ''result_metadata'' JsonbT (VJson (JObj [])),
       optional ''worker_id'' TextT],
     tb_constraints = [Check ''ck_evaluations_status'' (In ''status'' [''queued'', ''running'', ''succeeded'', ''failed'']),
       Check ''ck_evaluations_attempt_count'' (Ge ''attempt_count'' 0),
       Check ''ck_evaluations_score'' (OrC (IsNull ''score'') (AndC (Ge ''score'' 0) (Le ''score'' 100))),
       ForeignKey [''submission_id''] ''submissions'' [''id''] (Some ''CASCADE''),
       PrimaryKey [''id''],
       Unique None [''submission_id'']]\<rparr>"

definition scheduler_table :: table where
  "scheduler_table = \<lparr>tb_name = ''evaluation_scheduler_state'',
     tb_columns = [required ''id'' IntegerT,
       optional ''blocked_heavy_id'' UuidT,
       defaulted ''light_bypass_count'' IntegerT (VInt 0)],
     tb_constraints = [Check ''ck_evaluation_scheduler_state_singleton'' (Equals ''id'' 1),
       Check ''ck_evaluation_scheduler_state_bypass_count'' (Ge ''light_bypass_count'' 0),
       ForeignKey [''blocked_heavy_id''] ''evaluations'' [''id''] (Some ''SET NULL''),
       PrimaryKey [''id'']]\<rparr>"

definition ingestion_jobs_table :: table where
  "ingestion_jobs_table = \<lparr>tb_name = ''ingestion_jobs'',
     tb_columns = [required ''id'' UuidT,
       required ''submission_id'' UuidT,
       required ''artifact_key'' TextT,
       required ''status'' TextT,
       defaulted ''attempt_count'' IntegerT (VInt 0),
       optional ''worker_id'' TextT,
       required ''available_at'' TimestampT,
       optional ''started_at'' TimestampT,
       optional ''completed_at'' TimestampT,
       optional ''error_code'' TextT,
       optional ''error_message'' TextT,
       optional ''result_key'' TextT,
       required ''created_at'' TimestampT,
       required ''updated_at'' TimestampT],
     tb_constraints = [PrimaryKey [''id''],
       ForeignKey [''submission_id''] ''submissions'' [''id''] (Some ''CASCADE''),
       Check ''ck_ingestion_jobs_status'' (In ''status'' [''queued'', ''running'', ''succeeded'', ''failed'']),
       Check ''ck_ingestion_jobs_attempts'' (Ge ''attempt_count'' 0)]\<rparr>"

definition document_chunks_table :: table where
  "document_chunks_table = \<lparr>tb_name = ''document_chunks'',
     tb_columns = [required ''id'' UuidT,
       required ''ingestion_job_id'' UuidT,
       required ''submission_id'' UuidT,
       required ''artifact_key'' TextT,
       required ''parser_version'' TextT,
       required ''chunker_version'' TextT,
       required ''ordinal'' IntegerT,
       required ''content'' TextT,
       required ''content_sha256'' TextT,
       required ''char_start'' IntegerT,
       required ''char_end'' IntegerT,
       required ''line_start'' IntegerT,
       required ''line_end'' IntegerT,
       required ''block_type'' TextT,
       defaulted ''heading_path'' JsonbT (VJson (JList [])),
       defaulted ''oversized_split'' BooleanT (VBool False),
       required ''created_at'' TimestampT],
     tb_constraints = [PrimaryKey [''id''],
       ForeignKey [''ingestion_job_id''] ''ingestion_jobs'' [''id''] (Some ''CASCADE''),
       ForeignKey [''submission_id''] ''submissions'' [''id''] (Some ''CASCADE''),
       Check ''ck_document_chunks_ordinal'' (Ge ''ordinal'' 0),
       Check ''ck_document_chunks_chars'' (AndC (Ge ''char_start'' 0) (GeCol ''char_end'' ''char_start'')),
       Check ''ck_document_chunks_lines'' (AndC (Ge ''line_start'' 1) (GeCol ''line_end'' ''line_start'')),
       Unique (Some ''uq_document_chunks_job_ordinal'') [''ingestion_job_id'', ''ordinal'']]\<rparr>"

definition idempotency_index :: index where
  "idempotency_index = \<lparr>ix_name = ''uq_submissions_participant_idempotency'', ix_table = ''submissions'',
     ix_columns = [''participant_id'', ''idempotency_key''], ix_unique = True, ix_where = Some (NotNull ''idempotency_key''), ix_using = None\<rparr>"

definition fingerprint_check :: sql_check where
  "fingerprint_check = OrC (AndC (IsNull ''idempotency_key'') (IsNull ''request_fingerprint''))
     (AndC (NotNull ''idempotency_key'') (NotNull ''request_fingerprint''))"

definition modes_check :: "bool \<Rightarrow> sql_check" where
  "modes_check synthetic = In ''evaluation_mode'' ([''legacy'', ''always_expensive'', ''fixed_progressive'',
     ''resource_aware_adaptive''] @ (if synthetic then [''synthetic_execution''] else []))"

section \<open>The migrations\<close>

record revision =
  mg_id :: string
  mg_down :: "string option"
  mg_upgrade :: "ddl list"
  mg_downgrade :: "ddl list"

definition rev_0001 :: "revision" where
  "rev_0001 = \<lparr>mg_id = ''0001_initial'', mg_down = None,
     mg_upgrade = [CreateTable users_table,
       CreateTable hackathons_table,
       CreateIndex (plain_index ''ix_hackathons_organizer_id'' ''hackathons'' [''organizer_id'']),
       CreateTable challenges_table,
       CreateIndex (plain_index ''ix_challenges_hackathon_id'' ''challenges'' [''hackathon_id'']),
       CreateTable challenge_specifications_table,
       CreateTable evaluation_criteria_table,
       CreateIndex (plain_index ''ix_evaluation_criteria_challenge_id'' ''evaluation_criteria'' [''challenge_id'']),
       CreateTable submissions_table,
       CreateIndex (plain_index ''ix_submissions_participant_created'' ''submissions'' [''participant_id'', ''created_at'']),
       CreateIndex (plain_index ''ix_submissions_challenge_created'' ''submissions'' [''challenge_id'', ''created_at'']),
       CreateIndex idempotency_index],
     mg_downgrade = [DropIndex ''uq_submissions_participant_idempotency'',
       DropIndex ''ix_submissions_challenge_created'',
       DropIndex ''ix_submissions_participant_created'',
       DropTable ''submissions'',
       DropIndex ''ix_evaluation_criteria_challenge_id'',
       DropTable ''evaluation_criteria'',
       DropTable ''challenge_specifications'',
       DropIndex ''ix_challenges_hackathon_id'',
       DropTable ''challenges'',
       DropIndex ''ix_hackathons_organizer_id'',
       DropTable ''hackathons'',
       DropTable ''users'']\<rparr>"

text \<open>
  Revision 0002 computes a fingerprint for every row with a key, from the columns it reads back, and updates the row by
  its id. Identifiers are unique, so this is one update of each such row.
\<close>

definition fingerprint_0002 :: "app_env \<Rightarrow> sql_value \<Rightarrow> sql_value \<Rightarrow> string" where
  "fingerprint_0002 env challenge_id md =
     ae_sha env (utf8 (json_dumps (ae_repr env) False True
       (JObj [(''challenge_id'', JStr (case challenge_id of VUuid u \<Rightarrow> uuid_str u | _ \<Rightarrow> [])),
              (''metadata'', (case md of VJson j \<Rightarrow> if truthy j then j else JObj [] | _ \<Rightarrow> JObj []))])))"

definition backfill_0002 :: "app_env \<Rightarrow> ddl" where
  "backfill_0002 env = UpdateRows ''submissions'' (\<lambda>r. value_of r ''idempotency_key'' \<noteq> VNull)
     (\<lambda>r. r(''request_fingerprint'' \<mapsto>
        VText (fingerprint_0002 env (value_of r ''challenge_id'') (value_of r ''metadata''))))"

definition rev_0002 :: "app_env \<Rightarrow> revision" where
  "rev_0002 env = \<lparr>mg_id = ''0002_concurrency_correctness'', mg_down = Some ''0001_initial'',
     mg_upgrade = [AddColumn ''submissions'' (optional ''request_fingerprint'' TextT),
       backfill_0002 env,
       CreateCheck ''ck_submissions_idempotency_fingerprint'' ''submissions'' (fingerprint_check)],
     mg_downgrade = [DropConstraint ''ck_submissions_idempotency_fingerprint'' ''submissions'',
       DropColumn ''submissions'' ''request_fingerprint'']\<rparr>"

definition rev_0003 :: "revision" where
  "rev_0003 = \<lparr>mg_id = ''0003_evaluation_pipeline'', mg_down = Some ''0002_concurrency_correctness'',
     mg_upgrade = [CreateTable evaluations_table,
       CreateIndex (plain_index ''ix_evaluations_status_created'' ''evaluations'' [''status'', ''created_at'']),
       CreateIndex (plain_index ''ix_evaluations_running_started'' ''evaluations'' [''status'', ''started_at''])],
     mg_downgrade = [DropIndex ''ix_evaluations_running_started'',
       DropIndex ''ix_evaluations_status_created'',
       DropTable ''evaluations'']\<rparr>"

definition rev_0004 :: "revision" where
  "rev_0004 = \<lparr>mg_id = ''0004_evaluation_workload_class'', mg_down = Some ''0003_evaluation_pipeline'',
     mg_upgrade = [AddColumn ''evaluations'' (defaulted ''workload_class'' TextT (VText ''light'')),
       CreateCheck ''ck_evaluations_workload_class'' ''evaluations'' (In ''workload_class'' [''light'', ''medium'', ''heavy''])],
     mg_downgrade = [DropConstraint ''ck_evaluations_workload_class'' ''evaluations'',
       DropColumn ''evaluations'' ''workload_class'']\<rparr>"

definition rev_0005 :: "revision" where
  "rev_0005 = \<lparr>mg_id = ''0005_bounded_light_bypass'', mg_down = Some ''0004_evaluation_workload_class'',
     mg_upgrade = [CreateTable scheduler_table,
       InsertRow ''evaluation_scheduler_state'' [(''id'', VInt 1), (''blocked_heavy_id'', VNull), (''light_bypass_count'', VInt 0)]],
     mg_downgrade = [DropTable ''evaluation_scheduler_state'']\<rparr>"

definition rev_0006 :: "revision" where
  "rev_0006 = \<lparr>mg_id = ''0006_resource_aware_runtime'', mg_down = Some ''0005_bounded_light_bypass'',
     mg_upgrade = [AddColumn ''evaluation_scheduler_state'' (defaulted ''pressure_state'' TextT (VText ''normal'')),
       AddColumn ''evaluation_scheduler_state'' (optional ''adaptive_max_workers'' IntegerT)],
     mg_downgrade = [DropColumn ''evaluation_scheduler_state'' ''adaptive_max_workers'',
       DropColumn ''evaluation_scheduler_state'' ''pressure_state'']\<rparr>"

definition rev_0007 :: "revision" where
  "rev_0007 = \<lparr>mg_id = ''0007_adaptive_evaluation_v2'', mg_down = Some ''0006_resource_aware_runtime'',
     mg_upgrade = [AddColumn ''evaluations'' (defaulted ''current_stage'' IntegerT (VInt 0)),
       AddColumn ''evaluations'' (defaulted ''evaluation_mode'' TextT (VText ''legacy'')),
       AddColumn ''evaluations'' (optional ''deadline_at'' TimestampT),
       CreateCheck ''ck_evaluations_current_stage'' ''evaluations'' (Ge ''current_stage'' 0),
       CreateCheck ''ck_evaluations_evaluation_mode'' ''evaluations'' (modes_check False)],
     mg_downgrade = [DropConstraint ''ck_evaluations_evaluation_mode'' ''evaluations'',
       DropConstraint ''ck_evaluations_current_stage'' ''evaluations'',
       DropColumn ''evaluations'' ''deadline_at'',
       DropColumn ''evaluations'' ''evaluation_mode'',
       DropColumn ''evaluations'' ''current_stage'']\<rparr>"

definition rev_0008 :: "revision" where
  "rev_0008 = \<lparr>mg_id = ''0008_interactive_feedback'', mg_down = Some ''0007_adaptive_evaluation_v2'',
     mg_upgrade = [AddColumn ''evaluation_scheduler_state'' (optional ''interactive_p95_ms'' FloatT),
       AddColumn ''evaluation_scheduler_state'' (defaulted ''interactive_sample_count'' IntegerT (VInt 0))],
     mg_downgrade = [DropColumn ''evaluation_scheduler_state'' ''interactive_sample_count'',
       DropColumn ''evaluation_scheduler_state'' ''interactive_p95_ms'']\<rparr>"

definition rev_0009 :: "revision" where
  "rev_0009 = \<lparr>mg_id = ''0009_interactive_hint_pool_wait'', mg_down = Some ''0008_interactive_feedback'',
     mg_upgrade = [AddColumn ''evaluation_scheduler_state'' (optional ''pool_wait_p95_ms'' FloatT)],
     mg_downgrade = [DropColumn ''evaluation_scheduler_state'' ''pool_wait_p95_ms'']\<rparr>"

definition rev_0010 :: "revision" where
  "rev_0010 = \<lparr>mg_id = ''0010_synthetic_execution_mode'', mg_down = Some ''0009_interactive_hint_pool_wait'',
     mg_upgrade = [DropConstraint ''ck_evaluations_evaluation_mode'' ''evaluations'',
       CreateCheck ''ck_evaluations_evaluation_mode'' ''evaluations'' (modes_check True)],
     mg_downgrade = [DropConstraint ''ck_evaluations_evaluation_mode'' ''evaluations'',
       CreateCheck ''ck_evaluations_evaluation_mode'' ''evaluations'' (modes_check False)]\<rparr>"

definition rev_0011 :: "revision" where
  "rev_0011 = \<lparr>mg_id = ''0011_ingestion_jobs'', mg_down = Some ''0010_synthetic_execution_mode'',
     mg_upgrade = [CreateTable ingestion_jobs_table,
       CreateIndex (plain_index ''ix_ingestion_jobs_claim'' ''ingestion_jobs'' [''status'', ''available_at'', ''created_at'']),
       CreateIndex (plain_index ''ix_ingestion_jobs_submission_id'' ''ingestion_jobs'' [''submission_id''])],
     mg_downgrade = [DropIndex ''ix_ingestion_jobs_submission_id'',
       DropIndex ''ix_ingestion_jobs_claim'',
       DropTable ''ingestion_jobs'']\<rparr>"

definition rev_0012 :: "revision" where
  "rev_0012 = \<lparr>mg_id = ''0012_document_chunks'', mg_down = Some ''0011_ingestion_jobs'',
     mg_upgrade = [CreateTable document_chunks_table,
       CreateIndex (plain_index ''ix_document_chunks_artifact_key'' ''document_chunks'' [''artifact_key'']),
       CreateIndex (plain_index ''ix_document_chunks_job'' ''document_chunks'' [''ingestion_job_id'']),
       CreateIndex (plain_index ''ix_document_chunks_versions'' ''document_chunks'' [''parser_version'', ''chunker_version''])],
     mg_downgrade = [DropIndex ''ix_document_chunks_versions'',
       DropIndex ''ix_document_chunks_job'',
       DropIndex ''ix_document_chunks_artifact_key'',
       DropTable ''document_chunks'']\<rparr>"

definition search_tsv :: column where
  "search_tsv = generated ''search_tsv'' TsvectorT
     ''setweight(to_tsvector(english, coalesce(heading_path::text)), A) || setweight(to_tsvector(english, coalesce(content)), B)''"

definition search_tsv_simple :: column where
  "search_tsv_simple = generated ''search_tsv_simple'' TsvectorT ''to_tsvector(simple, coalesce(content))''"

definition rev_0013 :: "revision" where
  "rev_0013 = \<lparr>mg_id = ''0013_lexical_retrieval'', mg_down = Some ''0012_document_chunks'',
     mg_upgrade = [AddColumn ''document_chunks'' (search_tsv),
       CreateIndex (gin_index ''ix_document_chunks_search_tsv'' ''document_chunks'' [''search_tsv'']),
       AddColumn ''document_chunks'' (search_tsv_simple),
       CreateIndex (gin_index ''ix_document_chunks_search_tsv_simple'' ''document_chunks'' [''search_tsv_simple''])],
     mg_downgrade = [DropIndexIfExists ''ix_document_chunks_search_tsv_simple'',
       DropColumnIfExists ''document_chunks'' ''search_tsv_simple'',
       DropIndexIfExists ''ix_document_chunks_search_tsv'',
       DropColumnIfExists ''document_chunks'' ''search_tsv'']\<rparr>"

definition revisions :: "app_env \<Rightarrow> revision list" where
  "revisions env = [rev_0001, rev_0002 env, rev_0003, rev_0004, rev_0005, rev_0006, rev_0007, rev_0008, rev_0009,
     rev_0010, rev_0011, rev_0012, rev_0013]"

section \<open>The models\<close>

text \<open>What \<open>Base.metadata.create_all\<close> creates; an \<open>index=True\<close> column has an index named after it.\<close>

definition submissions_model :: table where
  "submissions_model = \<lparr>tb_name = ''submissions'',
     tb_columns = [required ''id'' UuidT,
       required ''challenge_id'' UuidT,
       required ''participant_id'' UuidT,
       required ''status'' TextT,
       defaulted ''metadata'' JsonbT (VJson (JObj [])),
       optional ''artifact_key'' TextT,
       optional ''idempotency_key'' TextT,
       optional ''request_fingerprint'' TextT,
       optional ''failure_reason'' TextT,
       required ''created_at'' TimestampT,
       required ''updated_at'' TimestampT],
     tb_constraints = [Check ''ck_submissions_status'' (In ''status'' [''created'', ''submitted'', ''cancelled'', ''failed'']),
       Check ''ck_submissions_idempotency_fingerprint'' (fingerprint_check),
       PrimaryKey [''id''],
       ForeignKey [''challenge_id''] ''challenges'' [''id''] (Some ''CASCADE''),
       ForeignKey [''participant_id''] ''users'' [''id''] None]\<rparr>"

definition evaluations_model :: table where
  "evaluations_model = \<lparr>tb_name = ''evaluations'',
     tb_columns = [required ''id'' UuidT,
       required ''submission_id'' UuidT,
       required ''status'' TextT,
       defaulted ''workload_class'' TextT (VText ''light''),
       defaulted ''current_stage'' IntegerT (VInt 0),
       defaulted ''evaluation_mode'' TextT (VText ''legacy''),
       optional ''deadline_at'' TimestampT,
       required ''created_at'' TimestampT,
       optional ''started_at'' TimestampT,
       optional ''completed_at'' TimestampT,
       required ''attempt_count'' IntegerT,
       optional ''failure_reason'' TextT,
       optional ''score'' IntegerT,
       defaulted ''result_metadata'' JsonbT (VJson (JObj [])),
       optional ''worker_id'' TextT],
     tb_constraints = [Check ''ck_evaluations_status'' (In ''status'' [''queued'', ''running'', ''succeeded'', ''failed'']),
       Check ''ck_evaluations_attempt_count'' (Ge ''attempt_count'' 0),
       Check ''ck_evaluations_score'' (OrC (IsNull ''score'') (AndC (Ge ''score'' 0) (Le ''score'' 100))),
       Check ''ck_evaluations_workload_class'' (In ''workload_class'' [''light'', ''medium'', ''heavy'']),
       Check ''ck_evaluations_current_stage'' (Ge ''current_stage'' 0),
       Check ''ck_evaluations_evaluation_mode'' (modes_check True),
       PrimaryKey [''id''],
       ForeignKey [''submission_id''] ''submissions'' [''id''] (Some ''CASCADE''),
       Unique None [''submission_id'']]\<rparr>"

definition scheduler_model :: table where
  "scheduler_model = \<lparr>tb_name = ''evaluation_scheduler_state'',
     tb_columns = [required ''id'' IntegerT,
       optional ''blocked_heavy_id'' UuidT,
       defaulted ''light_bypass_count'' IntegerT (VInt 0),
       defaulted ''pressure_state'' TextT (VText ''normal''),
       optional ''adaptive_max_workers'' IntegerT,
       optional ''interactive_p95_ms'' FloatT,
       defaulted ''interactive_sample_count'' IntegerT (VInt 0),
       optional ''pool_wait_p95_ms'' FloatT],
     tb_constraints = [Check ''ck_evaluation_scheduler_state_singleton'' (Equals ''id'' 1),
       Check ''ck_evaluation_scheduler_state_bypass_count'' (Ge ''light_bypass_count'' 0),
       ForeignKey [''blocked_heavy_id''] ''evaluations'' [''id''] (Some ''SET NULL''),
       PrimaryKey [''id'']]\<rparr>"

definition models_create_all :: "ddl list" where
  "models_create_all = [CreateTable users_table, CreateTable hackathons_table, CreateTable challenges_table,
     CreateTable challenge_specifications_table, CreateTable evaluation_criteria_table, CreateTable submissions_model,
     CreateTable evaluations_model, CreateTable scheduler_model, CreateTable ingestion_jobs_table,
     CreateTable document_chunks_table,
     CreateIndex (plain_index ''ix_hackathons_organizer_id'' ''hackathons'' [''organizer_id'']),
     CreateIndex (plain_index ''ix_challenges_hackathon_id'' ''challenges'' [''hackathon_id'']),
     CreateIndex (plain_index ''ix_evaluation_criteria_challenge_id'' ''evaluation_criteria'' [''challenge_id'']),
     CreateIndex (plain_index ''ix_submissions_participant_created'' ''submissions'' [''participant_id'', ''created_at'']),
     CreateIndex (plain_index ''ix_submissions_challenge_created'' ''submissions'' [''challenge_id'', ''created_at'']),
     CreateIndex idempotency_index,
     CreateIndex (plain_index ''ix_evaluations_status_created'' ''evaluations'' [''status'', ''created_at'']),
     CreateIndex (plain_index ''ix_evaluations_running_started'' ''evaluations'' [''status'', ''started_at'']),
     CreateIndex (plain_index ''ix_ingestion_jobs_claim'' ''ingestion_jobs'' [''status'', ''available_at'', ''created_at'']),
     CreateIndex (plain_index ''ix_ingestion_jobs_submission_id'' ''ingestion_jobs'' [''submission_id'']),
     CreateIndex (plain_index ''ix_document_chunks_artifact_key'' ''document_chunks'' [''artifact_key'']),
     CreateIndex (plain_index ''ix_document_chunks_job'' ''document_chunks'' [''ingestion_job_id'']),
     CreateIndex (plain_index ''ix_document_chunks_versions'' ''document_chunks'' [''parser_version'', ''chunker_version''])]"

text \<open>\<open>ensure_lexical_search_schema\<close>: each search column and index is added unless it exists.\<close>

definition column_missing :: "string \<Rightarrow> string \<Rightarrow> schema \<Rightarrow> bool" where
  "column_missing n c s \<longleftrightarrow> (case find_table n s of None \<Rightarrow> True | Some t \<Rightarrow> c \<notin> set (column_names t))"

definition ensure_column :: "column \<Rightarrow> generator \<Rightarrow> database \<Rightarrow> sql_error + database" where
  "ensure_column c gen d = (if column_missing ''document_chunks'' (cl_name c) (db_schema d)
     then exec_ddl gen (AddColumn ''document_chunks'' c) d else Inr d)"

definition ensure_index :: "index \<Rightarrow> generator \<Rightarrow> database \<Rightarrow> sql_error + database" where
  "ensure_index i gen d = (if ix_name i \<notin> ix_name ` set (sc_indexes (db_schema d)) then exec_ddl gen (CreateIndex i) d else Inr d)"

fun and_then :: "'e + 'a \<Rightarrow> ('a \<Rightarrow> 'e + 'b) \<Rightarrow> 'e + 'b" where
  "and_then (Inl e) f = Inl e"
| "and_then (Inr x) f = f x"

definition ensure_lexical_search_schema :: "generator \<Rightarrow> database \<Rightarrow> sql_error + database" where
  "ensure_lexical_search_schema gen d =
     and_then (ensure_column search_tsv gen d) (\<lambda>d.
     and_then (ensure_index (gin_index ''ix_document_chunks_search_tsv'' ''document_chunks'' [''search_tsv'']) gen d) (\<lambda>d.
     and_then (ensure_column search_tsv_simple gen d) (\<lambda>d.
     ensure_index (gin_index ''ix_document_chunks_search_tsv_simple'' ''document_chunks'' [''search_tsv_simple'']) gen d)))"

section \<open>Before the first revision\<close>

definition empty_schema :: schema where
  "empty_schema = \<lparr>sc_tables = [], sc_indexes = []\<rparr>"

end
