(* ===== verification/Schema_Runs.thy ===== *)
theory Schema_Runs
  imports Schema
begin

text \<open>
  Sequences of statements. \<open>plain\<close> is an executable check under which a sequence succeeds on every valid database:
  it tracks the tables that are known to be empty and the columns that are known to hold one value. \<open>keeps\<close> says that
  all rows and all old columns are still there.
\<close>

section \<open>Plain sequences\<close>

text \<open>What is known of the rows: a table, a column and the value every row has there.\<close>

type_synonym known = "(string \<times> string \<times> sql_value) list"

definition known_row :: "string \<Rightarrow> known \<Rightarrow> row" where
  "known_row n kn = map_of (map snd (filter (\<lambda>x. fst x = n) kn))"

fun op_plain :: "string list \<Rightarrow> known \<Rightarrow> ddl \<Rightarrow> bool" where
  "op_plain ns kn (CreateIndex i) = (\<not> ix_unique i \<or> ix_table i \<in> set ns)"
| "op_plain ns kn (AddColumn n c) = (cl_nullable c \<or>
     cl_generated c = None \<and> (case cl_default c of None \<Rightarrow> False | Some v \<Rightarrow> v \<noteq> VNull))"
| "op_plain ns kn (CreateCheck nm n e) =
     (list_all (\<lambda>c. known_row n kn c \<noteq> None) (check_columns e) \<and> passes_check e (known_row n kn))"
| "op_plain ns kn (InsertRow n vs) = False"
| "op_plain ns kn (UpdateRows n p f) = False"
| "op_plain ns kn _ = True"

fun next_empty :: "ddl \<Rightarrow> string list \<Rightarrow> string list" where
  "next_empty (CreateTable t) ns = tb_name t # ns"
| "next_empty _ ns = ns"

definition forget :: "string \<Rightarrow> string \<Rightarrow> known \<Rightarrow> known" where
  "forget n c kn = filter (\<lambda>x. \<not> (fst x = n \<and> fst (snd x) = c)) kn"

fun next_known :: "ddl \<Rightarrow> known \<Rightarrow> known" where
  "next_known (AddColumn n c) kn =
     (case (cl_generated c, cl_default c) of (None, Some v) \<Rightarrow> (n, cl_name c, v) # forget n (cl_name c) kn
      | _ \<Rightarrow> forget n (cl_name c) kn)"
| "next_known (DropColumn n c) kn = forget n c kn"
| "next_known (DropColumnIfExists n c) kn = forget n c kn"
| "next_known _ kn = kn"

fun plain :: "string list \<Rightarrow> known \<Rightarrow> ddl list \<Rightarrow> bool" where
  "plain ns kn [] = True"
| "plain ns kn (op # ops) = (op_plain ns kn op \<and> plain (next_empty op ns) (next_known op kn) ops)"

definition known_of :: "string list \<Rightarrow> known \<Rightarrow> (string \<Rightarrow> row list) \<Rightarrow> bool" where
  "known_of ns kn rows \<longleftrightarrow> (\<forall>n\<in>set ns. rows n = []) \<and> (\<forall>(n, c, v)\<in>set kn. \<forall>r\<in>set (rows n). r c = Some v)"

lemma known_of_Nil [simp]: "known_of [] [] rows"
  by (simp add: known_of_def)

lemma known_row_agrees:
  assumes "known_of ns kn rows" and "r \<in> set (rows n)" and "known_row n kn c = Some v"
  shows "r c = Some v"
proof -
  have "(c, v) \<in> snd ` set (filter (\<lambda>x. fst x = n) kn)" using map_of_SomeD [OF assms(3) [unfolded known_row_def]] by simp
  then have "(n, c, v) \<in> set kn" by force
  then show ?thesis using assms(1,2) by (fastforce simp: known_of_def)
qed

lemma known_step:
  assumes "known_of ns kn rows" and "op_plain ns kn op"
  shows "known_of (next_empty op ns) (next_known op kn) (rows_step gen op s rows)"
proof -
  have empty: "\<And>n. n \<in> set ns \<Longrightarrow> rows n = []" and kn: "\<And>n c v r. (n, c, v) \<in> set kn \<Longrightarrow> r \<in> set (rows n) \<Longrightarrow> r c = Some v"
    using assms(1) by (fastforce simp: known_of_def)+
  have other: "known_of ns (forget n c kn) (rows(n := map (\<lambda>r. r(c := v r)) (rows n)))" for n c v
    using empty kn by (auto simp: known_of_def forget_def)
  have fill: "known_of ns ((n, c, v) # forget n c kn) (rows(n := map (\<lambda>r. r(c \<mapsto> v)) (rows n)))" for n c v
    using empty kn by (auto simp: known_of_def forget_def)
  have sub: "known_of ns (forget n c kn) rows" for n c
    using empty kn by (auto simp: known_of_def forget_def)
  show ?thesis
  proof (cases op)
    case (AddColumn n c)
    then show ?thesis using other [of n "cl_name c" "\<lambda>r. Some (fill_value gen c r)"] fill [of n "cl_name c"]
      by (auto simp: fill_value_def split: option.splits)
  next
    case (DropColumn n c)
    then show ?thesis using other [of n c "\<lambda>r. None"] by simp
  next
    case (DropColumnIfExists n c)
    then show ?thesis using other [of n c "\<lambda>r. None"] sub [of n c] by (simp split: option.split)
  next
    case (CreateTable t)
    then show ?thesis using empty by (auto simp: known_of_def split: if_splits dest: kn)
  next
    case (DropTable n)
    then show ?thesis using empty by (auto simp: known_of_def split: if_splits dest: kn)
  qed (use assms in simp_all)
qed

lemma plain_data:
  assumes "known_of ns kn (db_rows d)" and "op_plain ns kn op"
  shows "data_ok gen op d"
proof (cases op)
  case (CreateIndex i)
  then have "\<not> ix_unique i \<or> db_rows d (ix_table i) = []" using assms by (auto simp: known_of_def)
  then show ?thesis using CreateIndex by (auto simp: index_holds_def full_keys_def split: option.split)
next
  case (AddColumn n c)
  then show ?thesis using assms(2) by (auto simp: fill_value_def list_all_iff split: option.splits)
next
  case (CreateCheck nm n e)
  have "passes_check e r" if r: "r \<in> set (db_rows d n)" for r
  proof -
    have "known_row n kn c = r c" if "c \<in> set (check_columns e)" for c
    proof -
      have "known_row n kn c \<noteq> None" using assms(2) CreateCheck that by (auto simp: list_all_iff)
      then show ?thesis using known_row_agrees [OF assms(1) r] by (cases "known_row n kn c") simp_all
    qed
    then have "same_on (check_columns e) (known_row n kn) r" by (simp add: same_on_def)
    then have "eval_check e r = eval_check e (known_row n kn)" by (rule eval_check_same)
    then show ?thesis using assms(2) CreateCheck by (simp add: passes_check_def)
  qed
  then show ?thesis using CreateCheck by (simp add: list_all_iff)
qed (use assms(2) in simp_all)

text \<open>A plain sequence whose schema part succeeds succeeds on valid data.\<close>

lemma plain_run:
  assumes "db_valid d" and "schema_ok (db_schema d)" and "run_schema ops (db_schema d) = Inr s'"
    and "plain ns kn ops" and "known_of ns kn (db_rows d)"
  shows "\<exists>d'. run_ddl gen ops d = Inr d' \<and> db_schema d' = s' \<and> db_valid d' \<and> schema_ok s' \<and>
    db_rows d' = run_rows gen ops (db_schema d) (db_rows d)"
  using assms
proof (induction ops arbitrary: d ns kn)
  case (Cons op ops)
  obtain s where s: "schema_step op (db_schema d) = Inr s" "run_schema ops s = Inr s'"
    using Cons.prems(3) by (auto split: sum.splits)
  have p: "op_plain ns kn op" "plain (next_empty op ns) (next_known op kn) ops" using Cons.prems(4) by simp_all
  let ?d = "\<lparr>db_schema = s, db_rows = rows_step gen op (db_schema d) (db_rows d)\<rparr>"
  note e = exec_ok [OF Cons.prems(1,2) s(1) plain_data [OF Cons.prems(5) p(1)]]
  have "known_of (next_empty op ns) (next_known op kn) (db_rows ?d)" using known_step [OF Cons.prems(5) p(1)] by simp
  then show ?case using Cons.IH [OF e(2) _ _ p(2)] e s by simp
qed simp

section \<open>Rows that are kept\<close>

definition keeps :: "schema \<Rightarrow> (string \<Rightarrow> row list) \<Rightarrow> (string \<Rightarrow> row list) \<Rightarrow> bool" where
  "keeps s rows rows' \<longleftrightarrow>
     (\<forall>t\<in>set (sc_tables s). list_all2 (same_on (column_names t)) (rows (tb_name t)) (rows' (tb_name t)))"

definition extends :: "schema \<Rightarrow> schema \<Rightarrow> bool" where
  "extends s s' \<longleftrightarrow> (\<forall>t\<in>set (sc_tables s). \<exists>t'\<in>set (sc_tables s'). tb_name t' = tb_name t \<and>
     set (column_names t) \<subseteq> set (column_names t'))"

lemma keeps_refl [simp]: "keeps s rows rows"
  by (simp add: keeps_def list_all2_same)

lemma extends_refl [simp]: "extends s s"
  by (auto simp: extends_def)

lemma extends_trans:
  assumes "extends s s'" and "extends s' s''"
  shows "extends s s''"
  unfolding extends_def
proof
  fix t assume "t \<in> set (sc_tables s)"
  then obtain t' where t': "t' \<in> set (sc_tables s')" "tb_name t' = tb_name t" "set (column_names t) \<subseteq> set (column_names t')"
    using assms(1) unfolding extends_def by blast
  then obtain u where "u \<in> set (sc_tables s'')" "tb_name u = tb_name t'" "set (column_names t') \<subseteq> set (column_names u)"
    using assms(2) unfolding extends_def by blast
  with t' show "\<exists>u\<in>set (sc_tables s''). tb_name u = tb_name t \<and> set (column_names t) \<subseteq> set (column_names u)"
    by (intro bexI [of _ u]) auto
qed

lemma keeps_trans:
  assumes "keeps s rows rows'" and "keeps s' rows' rows''" and "extends s s'"
  shows "keeps s rows rows''"
  unfolding keeps_def
proof
  fix t assume t: "t \<in> set (sc_tables s)"
  then obtain t' where t': "t' \<in> set (sc_tables s')" "tb_name t' = tb_name t" "set (column_names t) \<subseteq> set (column_names t')"
    using assms(3) by (auto simp: extends_def)
  have "list_all2 (same_on (column_names t)) (rows (tb_name t)) (rows' (tb_name t))" using assms(1) t by (simp add: keeps_def)
  moreover have "list_all2 (same_on (column_names t')) (rows' (tb_name t)) (rows'' (tb_name t))"
    using assms(2) t'(1,2) by (auto simp: keeps_def)
  ultimately show "list_all2 (same_on (column_names t)) (rows (tb_name t)) (rows'' (tb_name t))"
    by (rule list_all2_trans [rotated]) (use t'(3) in \<open>auto simp: same_on_def\<close>)
qed

fun additive :: "ddl \<Rightarrow> bool" where
  "additive (CreateTable t) = True"
| "additive (CreateIndex i) = True"
| "additive (AddColumn n c) = True"
| "additive (CreateCheck nm n e) = True"
| "additive (DropConstraint nm n) = True"
| "additive (DropIndex n) = True"
| "additive _ = False"

lemma extends_alter:
  "(\<And>t. tb_name (f t) = tb_name t) \<Longrightarrow> (\<And>t. set (column_names t) \<subseteq> set (column_names (f t))) \<Longrightarrow> extends s (alter_table n f s)"
  unfolding extends_def by (rule ballI, rule_tac x = "if tb_name t = n then f t else t" in bexI) (auto simp: alter_table_def)

lemma additive_step:
  assumes "schema_step op s = Inr s'" and "additive op" and "schema_ok s"
  shows "extends s s' \<and> keeps s rows (rows_step gen op s rows)"
proof (cases op)
  case (CreateTable t)
  then have s': "s' = s\<lparr>sc_tables := sc_tables s @ [t]\<rparr>" "tb_name t \<notin> tb_name ` set (sc_tables s)"
    using assms(1) by (auto simp: table_names_def split: if_splits)
  have "extends s s'" using s'(1) by (auto simp: extends_def)
  moreover have "tb_name x \<noteq> tb_name t" if "x \<in> set (sc_tables s)" for x using s'(2) that by (metis imageI)
  ultimately show ?thesis using CreateTable by (auto simp: keeps_def list_all2_same)
next
  case (AddColumn n c)
  then obtain t where t: "find_table n s = Some t" "cl_name c \<notin> set (column_names t)"
      "s' = alter_table n (\<lambda>t. t\<lparr>tb_columns := tb_columns t @ [c]\<rparr>) s"
    using assms(1) by (auto split: option.splits if_splits)
  have "same_on (column_names x) r (r(cl_name c \<mapsto> v))" if "x \<in> set (sc_tables s)" "tb_name x = n" for x r v
    using find_table_Some [OF t(1)] table_unique [OF assms(3)] that t(2) by auto
  then have "keeps s rows (rows_step gen op s rows)"
    using AddColumn by (auto simp: keeps_def list_all2_same list_all2_map2)
  moreover have "extends s s'" unfolding t(3) by (rule extends_alter) (auto simp: column_names_def)
  ultimately show ?thesis by blast
next
  case (CreateCheck nm n e)
  then obtain t where "s' = alter_table n (\<lambda>t. t\<lparr>tb_constraints := tb_constraints t @ [Check nm e]\<rparr>) s"
    using assms(1) by (auto split: option.splits if_splits)
  moreover from this have "extends s s'" by (simp add: extends_alter column_names_def)
  ultimately show ?thesis using CreateCheck by simp
next
  case (DropConstraint nm n)
  then have "s' = alter_table n (\<lambda>t. t\<lparr>tb_constraints := filter (\<lambda>x. constraint_name x \<noteq> Some nm) (tb_constraints t)\<rparr>) s"
    using assms(1) by (auto split: option.splits if_splits)
  moreover from this have "extends s s'" by (simp add: extends_alter column_names_def)
  ultimately show ?thesis using DropConstraint by simp
qed (use assms in \<open>auto simp: extends_def split: if_splits\<close>)

lemma additive_run:
  "run_schema ops s = Inr s' \<Longrightarrow> list_all additive ops \<Longrightarrow> schema_ok s \<Longrightarrow> extends s s' \<and> keeps s rows (run_rows gen ops s rows)"
proof (induction ops arbitrary: s rows)
  case (Cons op ops)
  obtain t where t: "schema_step op s = Inr t" "run_schema ops t = Inr s'" using Cons.prems(1) by (auto split: sum.splits)
  have "schema_ok t" using schema_step_ok [OF t(1) Cons.prems(3)] .
  then have "extends t s' \<and> keeps t (rows_step gen op s rows) (run_rows gen ops t (rows_step gen op s rows))"
    using Cons.IH [OF t(2)] Cons.prems(2) by simp
  moreover have "extends s t \<and> keeps s rows (rows_step gen op s rows)"
    using additive_step [OF t(1)] Cons.prems(2,3) by simp
  ultimately show ?case using t(1) extends_trans keeps_trans by (simp, blast)
qed simp

end
