(* ===== verification/Schema_Undo.thy ===== *)
theory Schema_Undo
  imports Schema_Runs
begin

text \<open>
  What drops what a statement created. A sequence of creating statements followed by the drops in reverse order gives
  back the same database, the schema, the rows and their order included.
\<close>

section \<open>One statement\<close>

fun undoes :: "ddl \<Rightarrow> ddl \<Rightarrow> bool" where
  "undoes (CreateTable t) (DropTable n) = (n = tb_name t)"
| "undoes (CreateIndex i) (DropIndex n) = (n = ix_name i)"
| "undoes (CreateIndex i) (DropIndexIfExists n) = (n = ix_name i)"
| "undoes (AddColumn n c) (DropColumn m c') = (m = n \<and> c' = cl_name c)"
| "undoes (AddColumn n c) (DropColumnIfExists m c') = (m = n \<and> c' = cl_name c)"
| "undoes (CreateCheck nm n e) (DropConstraint nm' m) = (nm' = nm \<and> m = n)"
| "undoes _ _ = False"

lemma filter_other: "k \<notin> f ` set xs \<Longrightarrow> filter (\<lambda>x. f x \<noteq> k) xs = xs"
  by (induction xs) auto

lemma map_tables_id: "(\<And>t. t \<in> set ts \<Longrightarrow> f t = t) \<Longrightarrow> map f ts = ts"
  by (induction ts) simp_all

lemma find_altered:
  assumes "find_table n s = Some t" and "\<And>t. tb_name (f t) = tb_name t"
  shows "find_table n (alter_table n f s) = Some (f t)"
proof -
  have "find (\<lambda>x. tb_name x = n) (map (\<lambda>x. if tb_name x = n then f x else x) ts) = map_option f (find (\<lambda>x. tb_name x = n) ts)" for ts
    using assms(2) by (induction ts) auto
  then show ?thesis using assms(1) by (simp add: find_table_def alter_table_def)
qed

lemma schema_tables:
  assumes "schema_ok s" and "t \<in> set (sc_tables s)"
  shows "table_ok t" and "c \<in> set (tb_constraints t) \<Longrightarrow> references_ok (sc_tables s) c"
    and "c \<in> set (tb_constraints t) \<Longrightarrow> set (constraint_columns c) \<subseteq> set (column_names t)"
  using assms by (auto simp: schema_ok_def table_ok_def list_all_iff)

lemma schema_indexes:
  assumes "schema_ok s" and "i \<in> set (sc_indexes s)"
  shows "index_ok (sc_tables s) i" and "ix_table i \<in> set (table_names s)"
proof -
  show "index_ok (sc_tables s) i" using assms by (simp add: schema_ok_def list_all_iff)
  then show "ix_table i \<in> set (table_names s)" by (auto simp: index_ok_def list_ex_iff table_names_def intro: rev_image_eqI)
qed

text \<open>A name that no table has is not referred to.\<close>

lemma no_references:
  assumes "schema_ok s" and "n \<notin> set (table_names s)" and "t \<in> set (sc_tables s)"
  shows "Some n \<notin> refers_to ` set (tb_constraints t)"
proof
  assume "Some n \<in> refers_to ` set (tb_constraints t)"
  then obtain c where c: "c \<in> set (tb_constraints t)" "refers_to c = Some n" by force
  from c(2) obtain cs rs a where "c = ForeignKey cs n rs a" by (cases c) auto
  then have "n \<in> set (table_names s)"
    using schema_tables(2) [OF assms(1,3) c(1)] by (auto simp: references_ok_def list_ex_iff table_names_def)
  then show False using assms(2) by simp
qed

lemma undo_create_table:
  assumes "schema_ok s" and "schema_step (CreateTable t) s = Inr s1"
  shows "schema_step (DropTable (tb_name t)) s1 = Inr s"
proof -
  have t: "tb_name t \<notin> set (table_names s)" and s1: "s1 = s\<lparr>sc_tables := sc_tables s @ [t]\<rparr>"
    using assms(2) by (auto split: if_splits)
  have "\<not> list_ex (\<lambda>x. tb_name x \<noteq> tb_name t \<and> Some (tb_name t) \<in> refers_to ` set (tb_constraints x)) (sc_tables s)"
    using no_references [OF assms(1) t] by (auto simp: list_ex_iff)
  moreover have "filter (\<lambda>x. tb_name x \<noteq> tb_name t) (sc_tables s) = sc_tables s"
    using t by (simp add: table_names_def filter_other)
  moreover have "filter (\<lambda>i. ix_table i \<noteq> tb_name t) (sc_indexes s) = sc_indexes s"
    using t schema_indexes(2) [OF assms(1)] by (intro filter_other) (metis imageE)
  ultimately show ?thesis by (simp add: s1 drop_table_def)
qed

lemma undo_create_index:
  assumes "schema_step (CreateIndex i) s = Inr s1"
  shows "schema_step (DropIndex (ix_name i)) s1 = Inr s" and "schema_step (DropIndexIfExists (ix_name i)) s1 = Inr s"
proof -
  have i: "ix_name i \<notin> ix_name ` set (sc_indexes s)" and s1: "s1 = s\<lparr>sc_indexes := sc_indexes s @ [i]\<rparr>"
    using assms by (auto split: if_splits)
  have "filter (\<lambda>x. ix_name x \<noteq> ix_name i) (sc_indexes s) = sc_indexes s" using i by (rule filter_other)
  then show "schema_step (DropIndex (ix_name i)) s1 = Inr s" "schema_step (DropIndexIfExists (ix_name i)) s1 = Inr s"
    by (simp_all add: s1)
qed

lemma undo_add_column:
  assumes "schema_ok s" and "schema_step (AddColumn n c) s = Inr s1"
  shows "schema_step (DropColumn n (cl_name c)) s1 = Inr s" and "schema_step (DropColumnIfExists n (cl_name c)) s1 = Inr s"
    and "\<exists>t. find_table n s1 = Some t \<and> cl_name c \<in> set (column_names t)"
proof -
  let ?add = "\<lambda>t. t\<lparr>tb_columns := tb_columns t @ [c]\<rparr>"
  obtain t where t: "find_table n s = Some t" "cl_name c \<notin> set (column_names t)" and s1: "s1 = alter_table n ?add s"
    using assms(2) by (auto split: option.splits if_splits)
  have only: "x = t" if "x \<in> set (sc_tables s)" "tb_name x = n" for x
    using find_table_Some [OF t(1)] table_unique [OF assms(1)] that by blast
  have f: "find_table n s1 = Some (?add t)" unfolding s1 using t(1) by (rule find_altered) simp
  then show "\<exists>t. find_table n s1 = Some t \<and> cl_name c \<in> set (column_names t)" by (simp add: column_names_def)
  have "\<not> needs_column n (cl_name c) k" if x: "x \<in> set (sc_tables s)" "k \<in> set (tb_constraints x)" for x k
  proof
    assume "needs_column n (cl_name c) k"
    then obtain cs rs a where "k = ForeignKey cs n rs a" "cl_name c \<in> set rs" by (cases k) auto
    then show False using reference_columns [OF assms(1) x(1) _ t(1)] x(2) t(2) by blast
  qed
  then have dep: "\<not> list_ex (\<lambda>x. list_ex (needs_column n (cl_name c)) (tb_constraints x)) (sc_tables s1)"
    by (auto simp: s1 alter_table_def list_ex_iff split: if_splits)
  have cols: "filter (\<lambda>x. cl_name x \<noteq> cl_name c) (tb_columns t @ [c]) = tb_columns t"
    using t(2) by (simp add: column_names_def filter_other)
  have cons: "filter (\<lambda>x. cl_name c \<notin> set (constraint_columns x)) (tb_constraints t) = tb_constraints t"
    using schema_tables(3) [OF assms(1)] find_table_Some [OF t(1)] t(2) by (force simp: filter_id_conv)
  have "(if tb_name x = n then ?add x\<lparr>tb_columns := filter (\<lambda>x. cl_name x \<noteq> cl_name c) (tb_columns (?add x)),
      tb_constraints := filter (\<lambda>x. cl_name c \<notin> set (constraint_columns x)) (tb_constraints (?add x))\<rparr> else x) = x"
    if "x \<in> set (sc_tables s)" for x
    using cols cons by (cases "tb_name x = n") (simp_all add: only [OF that])
  then have "map (\<lambda>x. if tb_name x = n then ?add x\<lparr>tb_columns := filter (\<lambda>x. cl_name x \<noteq> cl_name c) (tb_columns (?add x)),
      tb_constraints := filter (\<lambda>x. cl_name c \<notin> set (constraint_columns x)) (tb_constraints (?add x))\<rparr> else x) (sc_tables s) = sc_tables s"
    by (rule map_tables_id)
  moreover have "filter (\<lambda>i. \<not> index_mentions n (cl_name c) i) (sc_indexes s) = sc_indexes s"
    using index_columns [OF assms(1)] t by (fastforce simp: filter_id_conv index_mentions_def split: option.splits)
  ultimately have "drop_column n (cl_name c) s1 = s"
    by (simp add: s1 drop_column_def alter_table_def comp_def if_distrib cong: if_cong)
  then show "schema_step (DropColumn n (cl_name c)) s1 = Inr s" "schema_step (DropColumnIfExists n (cl_name c)) s1 = Inr s"
    using f dep by (simp_all add: column_names_def)
qed

lemma undo_create_check:
  assumes "schema_ok s" and "schema_step (CreateCheck nm n e) s = Inr s1"
  shows "schema_step (DropConstraint nm n) s1 = Inr s"
proof -
  let ?add = "\<lambda>t. t\<lparr>tb_constraints := tb_constraints t @ [Check nm e]\<rparr>"
  obtain t where t: "find_table n s = Some t" "Some nm \<notin> constraint_name ` set (tb_constraints t)" and s1: "s1 = alter_table n ?add s"
    using assms(2) by (auto split: option.splits if_splits)
  have only: "x = t" if "x \<in> set (sc_tables s)" "tb_name x = n" for x
    using find_table_Some [OF t(1)] table_unique [OF assms(1)] that by blast
  have f: "find_table n s1 = Some (?add t)" unfolding s1 using t(1) by (rule find_altered) simp
  have "filter (\<lambda>x. constraint_name x \<noteq> Some nm) (tb_constraints t) = tb_constraints t"
    using t(2) by (rule filter_other)
  then have "(if tb_name x = n then ?add x\<lparr>tb_constraints := filter (\<lambda>x. constraint_name x \<noteq> Some nm) (tb_constraints (?add x))\<rparr> else x) = x"
    if "x \<in> set (sc_tables s)" for x
    by (cases "tb_name x = n") (simp_all add: only [OF that])
  then have "map (\<lambda>x. if tb_name x = n then ?add x\<lparr>tb_constraints := filter (\<lambda>x. constraint_name x \<noteq> Some nm) (tb_constraints (?add x))\<rparr>
      else x) (sc_tables s) = sc_tables s"
    by (rule map_tables_id)
  then show ?thesis using f by (simp add: s1 alter_table_def comp_def if_distrib cong: if_cong)
qed

text \<open>The rows: a new column is not in the old rows, a new table had none.\<close>

lemma new_column_absent:
  assumes "tables_valid d" and "schema_step (AddColumn n c) (db_schema d) = Inr s1" and "r \<in> set (db_rows d n)"
  shows "r (cl_name c) = None"
proof -
  obtain t where t: "find_table n (db_schema d) = Some t" "cl_name c \<notin> set (column_names t)"
    using assms(2) by (auto split: option.splits if_splits)
  then have "row_ok t r" using assms(1,3) find_table_Some [OF t(1)] by (auto simp: tables_valid_def list_all_iff)
  then show ?thesis using t(2) by (auto simp: row_ok_def)
qed

lemma dropped_column_rows:
  assumes "tables_valid d" and "schema_step (AddColumn n c) (db_schema d) = Inr s1"
    and "\<And>r. r \<in> set (db_rows d n) \<Longrightarrow> (f r)(cl_name c := None) = r(cl_name c := None)"
  shows "map (\<lambda>r. (f r)(cl_name c := None)) (db_rows d n) = db_rows d n"
proof (rule map_idI)
  fix r assume r: "r \<in> set (db_rows d n)"
  then have "r(cl_name c := None) = r" using new_column_absent [OF assms(1,2)] by (simp add: fun_upd_idem)
  then show "(f r)(cl_name c := None) = r" using assms(3) [OF r] by simp
qed

lemma exec_valid:
  assumes "exec_ddl gen op d = Inr d'" and "db_valid d" and "schema_ok (db_schema d)"
  shows "db_valid d'" and "schema_ok (db_schema d')"
proof -
  note e = exec_Inr [OF assms(1)]
  have "db_rows d' n = []" if "n \<notin> set (table_names (db_schema d'))" for n
    unfolding e(2) using assms(2) that by (intro step_rows_elsewhere [OF e(1)]) (auto simp: db_valid_def)
  then show "db_valid d'" using e(3) by (simp add: db_valid_def)
  show "schema_ok (db_schema d')" using schema_step_ok [OF e(1) assms(3)] .
qed

lemma undo_schema_step:
  assumes "schema_ok s" and "schema_step op s = Inr s1" and "undoes op un"
  shows "schema_step un s1 = Inr s"
proof (cases op)
  case (CreateTable t)
  moreover from this have "un = DropTable (tb_name t)" using assms(3) by (cases un) auto
  ultimately show ?thesis using undo_create_table assms(1,2) by blast
next
  case (CreateIndex i)
  moreover from this have "un = DropIndex (ix_name i) \<or> un = DropIndexIfExists (ix_name i)" using assms(3) by (cases un) auto
  ultimately show ?thesis using undo_create_index assms(2) by blast
next
  case (AddColumn n c)
  moreover from this have "un = DropColumn n (cl_name c) \<or> un = DropColumnIfExists n (cl_name c)" using assms(3) by (cases un) auto
  ultimately show ?thesis using undo_add_column assms(1,2) by blast
next
  case (CreateCheck nm n e)
  moreover from this have "un = DropConstraint nm n" using assms(3) by (cases un) auto
  ultimately show ?thesis using undo_create_check assms(1,2) by blast
qed (use assms(3) in simp_all)

lemma undo_step:
  assumes "db_valid d" and "schema_ok (db_schema d)" and "exec_ddl gen op d = Inr d1" and "undoes op un"
  shows "exec_ddl gen un d1 = Inr d"
proof -
  note e = exec_Inr [OF assms(3)]
  have v: "tables_valid d" using assms(1) by (simp add: db_valid_def)
  have "rows_step gen un (db_schema d1) (db_rows d1) = db_rows d"
  proof (cases op)
    case (CreateTable t)
    then have "tb_name t \<notin> set (table_names (db_schema d))" using e(1) by (auto split: if_splits)
    then have "db_rows d (tb_name t) = []" using assms(1) by (simp add: db_valid_def)
    then show ?thesis using CreateTable e(2) assms(4) by (cases un) (simp_all add: fun_upd_idem)
  next
    case (CreateIndex i)
    then show ?thesis using e(2) assms(4) by (cases un) simp_all
  next
    case (AddColumn n c)
    note u = undo_add_column(3) [OF assms(2) e(1) [unfolded AddColumn]]
    have "map (\<lambda>r. (r(cl_name c \<mapsto> fill_value gen c r))(cl_name c := None)) (db_rows d n) = db_rows d n"
      using dropped_column_rows [OF v e(1) [unfolded AddColumn]] by simp
    then show ?thesis using u AddColumn e(2) assms(4) by (cases un) (auto simp: comp_def)
  next
    case (CreateCheck nm n e)
    then show ?thesis using exec_Inr(2) [OF assms(3)] assms(4) by (cases un) simp_all
  qed (use assms(4) in simp_all)
  then show ?thesis
    using v undo_schema_step [OF assms(2) e(1) assms(4)] by (cases d) (simp add: exec_ddl_def Let_def)
qed

section \<open>Sequences\<close>

lemma undo_run:
  assumes "db_valid d" and "schema_ok (db_schema d)" and "run_ddl gen ops d = Inr d'" and "list_all2 undoes ops (rev uns)"
  shows "run_ddl gen uns d' = Inr d"
  using assms
proof (induction ops arbitrary: d uns)
  case (Cons op ops)
  obtain d1 where d1: "exec_ddl gen op d = Inr d1" "run_ddl gen ops d1 = Inr d'" using Cons.prems(3) by (auto split: sum.splits)
  obtain un rest where i: "rev uns = un # rest" "undoes op un" "list_all2 undoes ops rest" using Cons.prems(4) by (auto simp: list_all2_Cons1)
  then have uns: "uns = rev rest @ [un]" by (metis rev.simps(2) rev_rev_ident)
  have "run_ddl gen (rev rest) d' = Inr d1"
    using Cons.IH [OF exec_valid [OF d1(1) Cons.prems(1,2)] d1(2)] i(3) by simp
  then show ?case using undo_step [OF Cons.prems(1,2) d1(1) i(2)] by (simp add: uns run_ddl_append)
qed simp

lemma undo_schema_run:
  assumes "schema_ok s" and "run_schema ops s = Inr s'" and "list_all2 undoes ops (rev uns)"
  shows "run_schema uns s' = Inr s"
  using assms
proof (induction ops arbitrary: s uns)
  case (Cons op ops)
  obtain s1 where s1: "schema_step op s = Inr s1" "run_schema ops s1 = Inr s'" using Cons.prems(2) by (auto split: sum.splits)
  obtain un rest where i: "rev uns = un # rest" "undoes op un" "list_all2 undoes ops rest"
    using Cons.prems(3) by (auto simp: list_all2_Cons1)
  then have uns: "uns = rev rest @ [un]" by (metis rev.simps(2) rev_rev_ident)
  have "run_schema (rev rest) s' = Inr s1"
    using Cons.IH [OF schema_step_ok [OF s1(1) Cons.prems(1)] s1(2)] i(3) by simp
  then show ?case using undo_schema_step [OF Cons.prems(1) s1(1) i(2)] by (simp add: uns run_schema_append)
qed simp

text \<open>Statements that only change rows play no part for the schema; rows do not depend on the schema otherwise.\<close>

fun structural :: "ddl \<Rightarrow> bool" where
  "structural (InsertRow n vs) = False"
| "structural (UpdateRows n p f) = False"
| "structural _ = True"

lemma run_schema_structural: "run_schema ops s = Inr s' \<Longrightarrow> run_schema (filter structural ops) s = Inr s'"
proof (induction ops arbitrary: s)
  case (Cons op ops)
  obtain s1 where s1: "schema_step op s = Inr s1" "run_schema ops s1 = Inr s'" using Cons.prems by (auto split: sum.splits)
  moreover have "s1 = s" if "\<not> structural op" using that s1(1) by (cases op) (auto split: option.splits if_splits)
  ultimately show ?case using Cons.IH by auto
qed simp

fun schema_free :: "ddl \<Rightarrow> bool" where
  "schema_free (InsertRow n vs) = False"
| "schema_free (DropColumnIfExists n c) = False"
| "schema_free _ = True"

lemma run_rows_free:
  "run_schema ops s = Inr s' \<Longrightarrow> list_all schema_free ops \<Longrightarrow>
     run_rows gen ops s rows = fold (\<lambda>op. rows_step gen op s0) ops rows"
proof (induction ops arbitrary: s rows)
  case (Cons op ops)
  have "rows_step gen op s rows = rows_step gen op s0 rows" using Cons.prems(2) by (cases op) simp_all
  then show ?case using Cons by (auto split: sum.splits)
qed simp

end
