(* ===== verification/Migration_Runs.thy ===== *)
theory Migration_Runs
  imports Migrations Schema_Undo
begin

text \<open>
  Running the migrations. Every revision but three only creates objects that no existing row can contradict; the back-fill
  of 0002, the row 0005 inserts and the constraint 0010 replaces are treated one by one.
\<close>

section \<open>The schema at each revision\<close>

definition schema_at :: "app_env \<Rightarrow> nat \<Rightarrow> schema" where
  "schema_at env k = (case run_schema (concat (map mg_upgrade (take k (revisions env)))) empty_schema of
     Inr s \<Rightarrow> s | Inl e \<Rightarrow> empty_schema)"

lemma run_schema_ok: "run_schema ops s = Inr s' \<Longrightarrow> schema_ok s \<Longrightarrow> schema_ok s'"
proof (induction ops arbitrary: s)
  case (Cons op ops)
  then show ?case using schema_step_ok by (auto split: sum.splits)
qed simp

lemma head_reached: "(case run_schema (concat (map mg_upgrade (revisions env))) empty_schema of Inr s \<Rightarrow> True | Inl e \<Rightarrow> False)"
  by code_simp

lemma length_revisions [simp]: "length (revisions env) = 13"
  by (simp add: revisions_def)

lemma revision_reached: "run_schema (concat (map mg_upgrade (take k (revisions env)))) empty_schema = Inr (schema_at env k)"
proof -
  have "run_schema (concat (map mg_upgrade (revisions env))) empty_schema =
      (case run_schema (concat (map mg_upgrade (take k (revisions env)))) empty_schema of
         Inl e \<Rightarrow> Inl e | Inr s \<Rightarrow> run_schema (concat (map mg_upgrade (drop k (revisions env)))) s)"
    using run_schema_append by (metis append_take_drop_id concat_append map_append)
  then show ?thesis using head_reached [of env] by (auto simp: schema_at_def split: sum.splits)
qed

lemma schema_at_0: "schema_at env 0 = empty_schema"
  by (simp add: schema_at_def)

lemma schema_at_Suc:
  "k < 13 \<Longrightarrow> run_schema (mg_upgrade (revisions env ! k)) (schema_at env k) = Inr (schema_at env (Suc k))"
  using revision_reached [of "Suc k" env] revision_reached [of k env]
  by (simp add: take_Suc_conv_app_nth run_schema_append)

lemma schema_at_ok: "schema_ok (schema_at env k)"
proof -
  have "schema_ok empty_schema" by (simp add: schema_ok_def empty_schema_def table_names_def)
  then show ?thesis using run_schema_ok [OF revision_reached] by simp
qed

section \<open>Single revisions\<close>

definition at_revision :: "app_env \<Rightarrow> nat \<Rightarrow> database \<Rightarrow> bool" where
  "at_revision env k d \<longleftrightarrow> db_valid d \<and> db_schema d = schema_at env k"

lemmas revision_defs = rev_0001_def rev_0002_def rev_0003_def rev_0004_def rev_0005_def rev_0006_def rev_0007_def
  rev_0008_def rev_0009_def rev_0010_def rev_0011_def rev_0012_def rev_0013_def

lemmas revision_nth = revisions_def nth_Cons_numeral nth_Cons_0 nth_Cons_Suc

lemma nat_cases_13:
  "k < 13 \<longleftrightarrow> k = 0 \<or> k = 1 \<or> k = 2 \<or> k = 3 \<or> k = 4 \<or> k = 5 \<or> k = 6 \<or> k = 7 \<or> k = 8 \<or> k = 9 \<or> k = 10 \<or> k = 11 \<or> k = (12::nat)"
  by arith

lemma additive_upgrades:
  "k < 13 \<Longrightarrow> k \<noteq> 1 \<Longrightarrow> k \<noteq> 4 \<Longrightarrow> k \<noteq> 9 \<Longrightarrow> list_all additive (mg_upgrade (revisions env ! k))"
  by (auto simp: nat_cases_13 revision_nth revision_defs)

lemmas schema_objects = users_table_def hackathons_table_def challenges_table_def challenge_specifications_table_def
  evaluation_criteria_table_def submissions_table_def evaluations_table_def scheduler_table_def ingestion_jobs_table_def
  document_chunks_table_def idempotency_index_def plain_index_def gin_index_def required_def optional_def defaulted_def
  generated_def search_tsv_def search_tsv_simple_def

lemma plain_upgrades:
  "k < 13 \<Longrightarrow> k \<noteq> 1 \<Longrightarrow> k \<noteq> 4 \<Longrightarrow> k \<noteq> 9 \<Longrightarrow> plain [] [] (mg_upgrade (revisions env ! k))"
  by (auto simp: nat_cases_13 revision_nth revision_defs schema_objects known_row_def forget_def modes_check_def
      passes_check_def value_of_def)

lemma plain_upgrade:
  assumes "at_revision env k d" and "k < 13" "k \<noteq> 1" "k \<noteq> 4" "k \<noteq> 9"
  shows "\<exists>d'. run_ddl gen (mg_upgrade (revisions env ! k)) d = Inr d' \<and> at_revision env (Suc k) d' \<and>
    keeps (db_schema d) (db_rows d) (db_rows d') \<and> extends (db_schema d) (db_schema d')"
proof -
  have d: "db_valid d" "schema_ok (db_schema d)" "run_schema (mg_upgrade (revisions env ! k)) (db_schema d) = Inr (schema_at env (Suc k))"
    using assms(1) schema_at_ok schema_at_Suc [OF assms(2)] by (simp_all add: at_revision_def)
  show ?thesis
    using plain_run [OF d plain_upgrades [OF assms(2-5)] known_of_Nil] additive_run [OF d(3) additive_upgrades [OF assms(2-5)] d(2)]
    by (fastforce simp: at_revision_def)
qed

text \<open>Revision 0002: a new column of \<open>submissions\<close>, filled for the rows with a key, and the check that ties the two.\<close>

lemma fill_new_column:
  assumes "db_valid d" and "schema_ok (db_schema d)" and s1: "schema_step (AddColumn n c) (db_schema d) = Inr s1" and "cl_nullable c"
    and v: "\<And>r. r \<in> set (db_rows d n) \<Longrightarrow>
      (let x = r(cl_name c \<mapsto> fill_value gen c r) in if p x then f x else x) = r(cl_name c \<mapsto> v r)"
  shows "run_ddl gen [AddColumn n c, UpdateRows n p f] d =
      Inr \<lparr>db_schema = s1, db_rows = (db_rows d)(n := map (\<lambda>r. r(cl_name c \<mapsto> v r)) (db_rows d n))\<rparr>"
    and "db_valid \<lparr>db_schema = s1, db_rows = (db_rows d)(n := map (\<lambda>r. r(cl_name c \<mapsto> v r)) (db_rows d n))\<rparr>"
proof -
  let ?rows = "(db_rows d)(n := map (\<lambda>r. r(cl_name c \<mapsto> v r)) (db_rows d n))"
  obtain t where t: "find_table n (db_schema d) = Some t" "cl_name c \<notin> set (column_names t)"
      "s1 = alter_table n (\<lambda>t. t\<lparr>tb_columns := tb_columns t @ [c]\<rparr>) (db_schema d)"
    using s1 by (auto split: option.splits if_splits)
  note e = exec_ok [OF assms(1,2) s1, of gen]
  have tv: "tables_valid \<lparr>db_schema = s1, db_rows = ?rows\<rparr>"
    using valid_add_column [OF _ assms(2) t(1,2) _ schema_step_ok [OF s1 assms(2)] t(3), of v] assms(1,4) by (simp add: db_valid_def)
  have n: "n \<in> set (table_names s1)" using step_names [OF s1] find_table_name [OF t(1)] by simp
  have "map (\<lambda>x. if p x then f x else x) (map (\<lambda>r. r(cl_name c \<mapsto> fill_value gen c r)) (db_rows d n)) =
      map (\<lambda>r. r(cl_name c \<mapsto> v r)) (db_rows d n)"
    using v by (simp add: Let_def)
  then have "rows_step gen (UpdateRows n p f) s1 (rows_step gen (AddColumn n c) (db_schema d) (db_rows d)) = ?rows"
    by (simp del: map_map)
  then show "run_ddl gen [AddColumn n c, UpdateRows n p f] d = Inr \<lparr>db_schema = s1, db_rows = ?rows\<rparr>"
    using e(1) assms(4) n tv by (simp add: exec_ddl_def [of gen "UpdateRows n p f"] Let_def)
  show "db_valid \<lparr>db_schema = s1, db_rows = ?rows\<rparr>"
    using tv assms(1) step_names [OF s1] by (auto simp: db_valid_def)
qed

definition backfilled :: "app_env \<Rightarrow> row \<Rightarrow> sql_value" where
  "backfilled env r = (if value_of r ''idempotency_key'' \<noteq> VNull
     then VText (fingerprint_0002 env (value_of r ''challenge_id'') (value_of r ''metadata'')) else VNull)"

lemma upgrade_0002:
  assumes "at_revision env 1 d"
  shows "run_ddl gen (mg_upgrade (revisions env ! 1)) d = Inr \<lparr>db_schema = schema_at env 2,
      db_rows = (db_rows d)(''submissions'' := map (\<lambda>r. r(''request_fingerprint'' \<mapsto> backfilled env r)) (db_rows d ''submissions''))\<rparr>"
    and "db_valid \<lparr>db_schema = schema_at env 2,
      db_rows = (db_rows d)(''submissions'' := map (\<lambda>r. r(''request_fingerprint'' \<mapsto> backfilled env r)) (db_rows d ''submissions''))\<rparr>"
    and "extends (schema_at env 1) (schema_at env 2)"
    and "\<exists>t. find_table ''submissions'' (schema_at env 1) = Some t \<and> ''request_fingerprint'' \<notin> set (column_names t)"
proof -
  let ?c = "optional ''request_fingerprint'' TextT"
  let ?rows = "(db_rows d)(''submissions'' := map (\<lambda>r. r(''request_fingerprint'' \<mapsto> backfilled env r)) (db_rows d ''submissions''))"
  have d: "db_valid d" "db_schema d = schema_at env 1" using assms by (simp_all add: at_revision_def)
  have ops: "mg_upgrade (revisions env ! 1) = [AddColumn ''submissions'' ?c, backfill_0002 env] @
      [CreateCheck ''ck_submissions_idempotency_fingerprint'' ''submissions'' fingerprint_check]"
    by (simp add: revisions_def rev_0002_def)
  obtain s1 where s1: "schema_step (AddColumn ''submissions'' ?c) (schema_at env 1) = Inr s1"
      "schema_step (CreateCheck ''ck_submissions_idempotency_fingerprint'' ''submissions'' fingerprint_check) s1 = Inr (schema_at env 2)"
    using schema_at_Suc [of 1 env] unfolding ops by (auto simp: numeral_2_eq_2 backfill_0002_def split: sum.splits if_splits)
  have c: "cl_name ?c = ''request_fingerprint''" "cl_nullable ?c" "fill_value gen ?c r = VNull" for r
    by (simp_all add: optional_def fill_value_def)
  have fill: "(let x = r(cl_name ?c \<mapsto> fill_value gen ?c r) in if value_of x ''idempotency_key'' \<noteq> VNull
      then x(''request_fingerprint'' \<mapsto> VText (fingerprint_0002 env (value_of x ''challenge_id'') (value_of x ''metadata''))) else x) =
      r(cl_name ?c \<mapsto> backfilled env r)" for r
    by (simp add: c Let_def backfilled_def value_of_def)
  have ok: "schema_ok (db_schema d)" by (simp add: d(2) schema_at_ok)
  note f = fill_new_column [OF d(1) ok s1(1) [folded d(2)] c(2) fill, unfolded c(1), folded backfill_0002_def]
  note run = f(1) and v = f(2)
  have "list_all (passes_check fingerprint_check) (?rows ''submissions'')"
    by (auto simp: list_all_iff passes_check_def fingerprint_check_def value_of_def backfilled_def split: option.splits)
  then have data: "data_ok gen (CreateCheck ''ck_submissions_idempotency_fingerprint'' ''submissions'' fingerprint_check)
      \<lparr>db_schema = s1, db_rows = ?rows\<rparr>"
    by simp
  have "schema_ok s1" using schema_step_ok [OF s1(1) schema_at_ok] .
  note e = exec_ok [OF v _ _ data, simplified database.simps, OF this s1(2)]
  show "run_ddl gen (mg_upgrade (revisions env ! 1)) d = Inr \<lparr>db_schema = schema_at env 2, db_rows = ?rows\<rparr>"
    unfolding ops run_ddl_append run using e(1) by simp
  show "db_valid \<lparr>db_schema = schema_at env 2, db_rows = ?rows\<rparr>" using e(2) by simp
  show "extends (schema_at env 1) (schema_at env 2)"
    using additive_step [OF s1(1) _ schema_at_ok, THEN conjunct1]
      additive_step [OF s1(2) _ \<open>schema_ok s1\<close>, THEN conjunct1] by (rule extends_trans) simp_all
  show "\<exists>t. find_table ''submissions'' (schema_at env 1) = Some t \<and> ''request_fingerprint'' \<notin> set (column_names t)"
    using s1(1) by (auto simp: c(1) split: option.splits if_splits)
qed

text \<open>Revision 0005: the one row of the scheduler table.\<close>

lemma valid_first_row:
  assumes "tables_valid d" and "schema_ok (db_schema d)" and "find_table n (db_schema d) = Some t" and "db_rows d n = []"
    and "row_ok t r" and "list_all (constraint_holds ((db_rows d)(n := [r])) [r]) (tb_constraints t)"
  shows "tables_valid (d\<lparr>db_rows := (db_rows d)(n := [r])\<rparr>)"
proof -
  let ?rows = "(db_rows d)(n := [r])"
  have "list_all (row_ok x) (?rows (tb_name x)) \<and> list_all (constraint_holds ?rows (?rows (tb_name x))) (tb_constraints x)"
    if x: "x \<in> set (sc_tables (db_schema d))" for x
  proof (cases "tb_name x = n")
    case True
    then have "x = t" using find_table_Some [OF assms(3)] table_unique [OF assms(2)] x by simp
    then show ?thesis using True assms(5,6) by simp
  next
    case False
    have "list_all (row_ok x) (db_rows d (tb_name x))" and c: "list_all (constraint_holds (db_rows d) (db_rows d (tb_name x))) (tb_constraints x)"
      using assms(1) x by (auto simp: tables_valid_def list_all_iff)
    moreover have "constraint_holds ?rows (db_rows d (tb_name x)) k" if "constraint_holds (db_rows d) (db_rows d (tb_name x)) k" for k
      using that assms(4) by (cases k) (auto split: if_splits)
    ultimately show ?thesis using False by (simp add: list_all_iff)
  qed
  moreover have "index_holds ?rows i" if "i \<in> set (sc_indexes (db_schema d))" for i
    using assms(1) that by (cases "ix_table i = n") (auto simp: tables_valid_def list_all_iff index_holds_def full_keys_def split: option.splits)
  ultimately show ?thesis by (simp add: tables_valid_def list_all_iff)
qed

definition scheduler_row :: row where
  "scheduler_row = [''id'' \<mapsto> VInt 1, ''blocked_heavy_id'' \<mapsto> VNull, ''light_bypass_count'' \<mapsto> VInt 0]"

lemma upgrade_0005:
  assumes "at_revision env 4 d"
  shows "run_ddl gen (mg_upgrade (revisions env ! 4)) d = Inr \<lparr>db_schema = schema_at env 5,
      db_rows = (db_rows d)(''evaluation_scheduler_state'' := [scheduler_row])\<rparr>"
    and "db_valid \<lparr>db_schema = schema_at env 5, db_rows = (db_rows d)(''evaluation_scheduler_state'' := [scheduler_row])\<rparr>"
    and "extends (schema_at env 4) (schema_at env 5)" and "''evaluation_scheduler_state'' \<notin> set (table_names (schema_at env 4))"
proof -
  let ?n = "''evaluation_scheduler_state''"
  let ?vs = "[(''id'', VInt 1), (''blocked_heavy_id'', VNull), (''light_bypass_count'', VInt 0)]"
  have d: "db_valid d" "db_schema d = schema_at env 4" using assms by (simp_all add: at_revision_def)
  have ops: "mg_upgrade (revisions env ! 4) = [CreateTable scheduler_table, InsertRow ?n ?vs]"
    by (simp add: revisions_def rev_0005_def)
  have name: "tb_name scheduler_table = ?n" by (simp add: scheduler_table_def)
  have five: "Suc 4 = (5::nat)" by simp
  have s1: "schema_step (CreateTable scheduler_table) (schema_at env 4) = Inr (schema_at env 5)"
    using schema_at_Suc [of 4 env] unfolding ops five by (auto split: sum.splits option.splits if_splits)
  then have fresh: "?n \<notin> set (table_names (schema_at env 4))"
    and s5: "schema_at env 5 = (schema_at env 4)\<lparr>sc_tables := sc_tables (schema_at env 4) @ [scheduler_table]\<rparr>"
    by (auto simp: name split: if_splits)
  show "?n \<notin> set (table_names (schema_at env 4))" by (rule fresh)
  have "find (\<lambda>t. tb_name t = ?n) (ts @ [scheduler_table]) = Some scheduler_table" if "?n \<notin> tb_name ` set ts" for ts
    using that by (induction ts) (auto simp: name)
  then have f: "find_table ?n (schema_at env 5) = Some scheduler_table"
    using fresh by (simp add: s5 find_table_def table_names_def)
  have rows: "db_rows d ?n = []" using d fresh by (simp add: db_valid_def)
  let ?d1 = "\<lparr>db_schema = schema_at env 5, db_rows = db_rows d\<rparr>"
  have ok: "schema_ok (db_schema d)" by (simp add: d(2) schema_at_ok)
  have step: "exec_ddl gen (CreateTable scheduler_table) d = Inr ?d1" and v1: "db_valid ?d1"
    using exec_ok [OF d(1) ok s1 [folded d(2)], of gen] rows by (simp_all add: name fun_upd_idem)
  have row: "new_row gen scheduler_table ?vs = scheduler_row"
    by (simp add: new_row_def scheduler_table_def scheduler_row_def required_def optional_def defaulted_def)
  have "row_ok scheduler_table scheduler_row"
    by (auto simp: row_ok_def column_names_def scheduler_table_def scheduler_row_def required_def optional_def defaulted_def value_of_def)
  moreover have "list_all (constraint_holds ((db_rows d)(?n := [scheduler_row])) [scheduler_row]) (tb_constraints scheduler_table)"
    by (simp add: scheduler_table_def scheduler_row_def passes_check_def value_of_def full_keys_def key_of_def)
  ultimately have "tables_valid (?d1\<lparr>db_rows := (db_rows ?d1)(?n := [scheduler_row])\<rparr>)"
    using v1 schema_at_ok f rows by (intro valid_first_row) (simp_all add: db_valid_def)
  then have data: "data_ok gen (InsertRow ?n ?vs) ?d1" using f rows by (simp add: row)
  have "schema_step (InsertRow ?n ?vs) (schema_at env 5) = Inr (schema_at env 5)"
    using f by (simp add: column_names_def scheduler_table_def required_def optional_def defaulted_def)
  note e = exec_ok [OF v1 _ _ data, simplified database.simps, OF schema_at_ok this]
  show "run_ddl gen (mg_upgrade (revisions env ! 4)) d = Inr \<lparr>db_schema = schema_at env 5, db_rows = (db_rows d)(?n := [scheduler_row])\<rparr>"
    unfolding ops using step e(1) f rows by (simp add: row)
  show "db_valid \<lparr>db_schema = schema_at env 5, db_rows = (db_rows d)(?n := [scheduler_row])\<rparr>"
    using e(2) f rows by (simp add: row)
  show "extends (schema_at env 4) (schema_at env 5)" using additive_step [OF s1 _ schema_at_ok] by simp
qed

text \<open>Revision 0010: the check of the mode admits one more.\<close>

abbreviation mode_check_name :: string where
  "mode_check_name \<equiv> ''ck_evaluations_evaluation_mode''"

definition has_mode_check :: "bool \<Rightarrow> schema \<Rightarrow> bool" where
  "has_mode_check synthetic s = (case find_table ''evaluations'' s of None \<Rightarrow> False
     | Some t \<Rightarrow> Check mode_check_name (modes_check synthetic) \<in> set (tb_constraints t))"

lemma mode_checks: "has_mode_check False (schema_at env 9) \<and> has_mode_check True (schema_at env 10)"
  by code_simp

lemma mode_check_back: "run_schema (mg_downgrade rev_0010) (schema_at env 10) = Inr (schema_at env 9)"
  by code_simp

lemma has_mode_check_rows:
  assumes "has_mode_check b (db_schema d)" and "tables_valid d"
  shows "list_all (passes_check (modes_check b)) (db_rows d ''evaluations'')"
proof -
  obtain t where t: "find_table ''evaluations'' (db_schema d) = Some t" "Check mode_check_name (modes_check b) \<in> set (tb_constraints t)"
    using assms(1) by (auto simp: has_mode_check_def split: option.splits)
  then have "list_all (constraint_holds (db_rows d) (db_rows d ''evaluations'')) (tb_constraints t)"
    using assms(2) find_table_Some [OF t(1)] by (auto simp: tables_valid_def list_all_iff)
  then show ?thesis using t(2) by (auto simp: list_all_iff)
qed

lemma passes_modes:
  "passes_check (modes_check False) r \<longleftrightarrow>
     passes_check (modes_check True) r \<and> value_of r ''evaluation_mode'' \<noteq> VText ''synthetic_execution''"
  by (auto simp: passes_check_def modes_check_def split: sql_value.splits)

text \<open>Replacing the check of the mode.\<close>

lemma replace_mode_check:
  assumes "db_valid d" and "schema_ok (db_schema d)"
    and "run_schema [DropConstraint mode_check_name ''evaluations'', CreateCheck mode_check_name ''evaluations'' (modes_check b)]
      (db_schema d) = Inr s'" and "has_mode_check b s'"
  shows "run_ddl gen [DropConstraint mode_check_name ''evaluations'', CreateCheck mode_check_name ''evaluations'' (modes_check b)] d =
      (if list_all (passes_check (modes_check b)) (db_rows d ''evaluations'') then Inr \<lparr>db_schema = s', db_rows = db_rows d\<rparr>
       else Inl ConstraintViolation)"
    and "list_all (passes_check (modes_check b)) (db_rows d ''evaluations'') \<Longrightarrow> db_valid \<lparr>db_schema = s', db_rows = db_rows d\<rparr>"
proof -
  obtain s1 where s1: "schema_step (DropConstraint mode_check_name ''evaluations'') (db_schema d) = Inr s1"
      "schema_step (CreateCheck mode_check_name ''evaluations'' (modes_check b)) s1 = Inr s'"
    using assms(3) by (auto simp del: schema_step.simps split: sum.splits)
  note e = exec_ok [OF assms(1,2) s1(1), of gen, simplified rows_step.simps data_ok.simps, OF TrueI]
  show "list_all (passes_check (modes_check b)) (db_rows d ''evaluations'') \<Longrightarrow> db_valid \<lparr>db_schema = s', db_rows = db_rows d\<rparr>"
    using exec_ok(2) [OF e(2), of "CreateCheck mode_check_name ''evaluations'' (modes_check b)" s' gen] e(3) s1(2)
    by (simp del: schema_step.simps)
  moreover have "\<not> tables_valid \<lparr>db_schema = s', db_rows = db_rows d\<rparr>"
    if "\<not> list_all (passes_check (modes_check b)) (db_rows d ''evaluations'')"
    using has_mode_check_rows [of b "\<lparr>db_schema = s', db_rows = db_rows d\<rparr>"] assms(4) that by auto
  ultimately show "run_ddl gen [DropConstraint mode_check_name ''evaluations'', CreateCheck mode_check_name ''evaluations'' (modes_check b)] d =
      (if list_all (passes_check (modes_check b)) (db_rows d ''evaluations'') then Inr \<lparr>db_schema = s', db_rows = db_rows d\<rparr>
       else Inl ConstraintViolation)"
    using e(1) s1(2) by (simp add: exec_ddl_def [of _ "CreateCheck mode_check_name ''evaluations'' (modes_check b)"] Let_def db_valid_def
        del: schema_step.simps)
qed

lemma upgrade_0010:
  assumes "at_revision env 9 d"
  shows "run_ddl gen (mg_upgrade (revisions env ! 9)) d = Inr \<lparr>db_schema = schema_at env 10, db_rows = db_rows d\<rparr>"
    and "db_valid \<lparr>db_schema = schema_at env 10, db_rows = db_rows d\<rparr>" and "extends (schema_at env 9) (schema_at env 10)"
proof -
  have d: "db_valid d" "db_schema d = schema_at env 9" using assms by (simp_all add: at_revision_def)
  have ops: "mg_upgrade (revisions env ! 9) =
      [DropConstraint mode_check_name ''evaluations'', CreateCheck mode_check_name ''evaluations'' (modes_check True)]"
    by (simp add: revisions_def rev_0010_def)
  have run: "run_schema (mg_upgrade (revisions env ! 9)) (schema_at env 9) = Inr (schema_at env 10)"
    using schema_at_Suc [of 9 env] by simp
  have ok: "schema_ok (db_schema d)" by (simp add: d(2) schema_at_ok)
  have "list_all (passes_check (modes_check False)) (db_rows d ''evaluations'')"
    using has_mode_check_rows [of False d] mode_checks [of env] d by (simp add: db_valid_def)
  then have p: "list_all (passes_check (modes_check True)) (db_rows d ''evaluations'')" by (simp add: list_all_iff passes_modes)
  note r = replace_mode_check [OF d(1) ok run [unfolded ops, folded d(2)] conjunct2 [OF mode_checks]]
  show "run_ddl gen (mg_upgrade (revisions env ! 9)) d = Inr \<lparr>db_schema = schema_at env 10, db_rows = db_rows d\<rparr>"
    unfolding ops r(1) using p by simp
  show "db_valid \<lparr>db_schema = schema_at env 10, db_rows = db_rows d\<rparr>" using r(2) p by simp
  show "extends (schema_at env 9) (schema_at env 10)"
    using additive_run [OF run _ schema_at_ok, where gen = gen] by (simp add: ops)
qed

section \<open>All revisions\<close>

lemma upgrade_step:
  assumes "at_revision env k d" and "k < 13"
  shows "\<exists>d'. run_ddl gen (mg_upgrade (revisions env ! k)) d = Inr d' \<and> at_revision env (Suc k) d' \<and>
    keeps (db_schema d) (db_rows d) (db_rows d') \<and> extends (db_schema d) (db_schema d')"
proof -
  have s: "db_schema d = schema_at env k" using assms(1) by (simp add: at_revision_def)
  consider "k = 1" | "k = 4" | "k = 9" | "k \<noteq> 1" "k \<noteq> 4" "k \<noteq> 9" by blast
  then show ?thesis
  proof cases
    case 1
    note u = upgrade_0002 [OF assms(1) [unfolded 1]]
    obtain t where t: "find_table ''submissions'' (schema_at env 1) = Some t" "''request_fingerprint'' \<notin> set (column_names t)"
      using u(4) by blast
    have "x = t" if "x \<in> set (sc_tables (schema_at env 1))" "tb_name x = ''submissions''" for x
      using find_table_Some [OF t(1)] that by (intro table_unique [OF schema_at_ok that(1)]) simp_all
    then have "keeps (schema_at env 1) (db_rows d) ((db_rows d)(''submissions'' :=
        map (\<lambda>r. r(''request_fingerprint'' \<mapsto> backfilled env r)) (db_rows d ''submissions'')))"
      using t(2) by (auto simp: keeps_def list_all2_same list_all2_map2)
    then show ?thesis using u(1,2) u(3) s by (simp add: 1 at_revision_def numeral_2_eq_2)
  next
    case 2
    note u = upgrade_0005 [OF assms(1) [unfolded 2]]
    have five: "Suc 4 = (5::nat)" by simp
    have "tb_name x \<noteq> ''evaluation_scheduler_state''" if "x \<in> set (sc_tables (schema_at env 4))" for x
      using u(4) that unfolding table_names_def set_map by (metis imageI)
    then have "keeps (schema_at env 4) (db_rows d) ((db_rows d)(''evaluation_scheduler_state'' := [scheduler_row]))"
      by (auto simp: keeps_def list_all2_same)
    then show ?thesis using u(1,2,3) s by (simp add: 2 at_revision_def five)
  next
    case 3
    have ten: "Suc 9 = (10::nat)" by simp
    show ?thesis using upgrade_0010 [OF assms(1) [unfolded 3]] s by (simp add: 3 at_revision_def ten)
  next
    case 4
    then show ?thesis using plain_upgrade [OF assms] by blast
  qed
qed

lemma upgrade_run:
  assumes "at_revision env k d" and "k \<le> 13"
  shows "\<exists>d'. run_ddl gen (concat (map mg_upgrade (drop k (revisions env)))) d = Inr d' \<and> at_revision env 13 d' \<and>
    keeps (db_schema d) (db_rows d) (db_rows d') \<and> extends (db_schema d) (db_schema d')"
  using assms
proof (induction "13 - k" arbitrary: k d)
  case 0
  then show ?case by simp
next
  case (Suc m)
  then have k: "k < 13" by simp
  obtain d1 where d1: "run_ddl gen (mg_upgrade (revisions env ! k)) d = Inr d1" "at_revision env (Suc k) d1"
      "keeps (db_schema d) (db_rows d) (db_rows d1)" "extends (db_schema d) (db_schema d1)"
    using upgrade_step [OF Suc.prems(1) k] by blast
  obtain d' where d': "run_ddl gen (concat (map mg_upgrade (drop (Suc k) (revisions env)))) d1 = Inr d'" "at_revision env 13 d'"
      "keeps (db_schema d1) (db_rows d1) (db_rows d')" "extends (db_schema d1) (db_schema d')"
    using Suc.hyps(1) [OF _ d1(2)] Suc.hyps(2) k by fastforce
  have "drop k (revisions env) = revisions env ! k # drop (Suc k) (revisions env)"
    using k by (simp add: Cons_nth_drop_Suc)
  then show ?case
    using d1 d' keeps_trans [OF d1(3) d'(3) d1(4)] extends_trans [OF d1(4) d'(4)] by (simp add: run_ddl_append)
qed

section \<open>Downgrades\<close>

lemma undone_upgrades:
  "k < 13 \<Longrightarrow> k \<noteq> 9 \<Longrightarrow> list_all2 undoes (filter structural (mg_upgrade (revisions env ! k))) (rev (mg_downgrade (revisions env ! k)))"
  by (auto simp: nat_cases_13 revision_nth revision_defs schema_objects backfill_0002_def)

lemma structural_upgrades:
  "k < 13 \<Longrightarrow> k \<noteq> 1 \<Longrightarrow> k \<noteq> 4 \<Longrightarrow> filter structural (mg_upgrade (revisions env ! k)) = mg_upgrade (revisions env ! k)"
  by (auto simp: nat_cases_13 revision_nth revision_defs)

lemma plain_downgrades: "k < 13 \<Longrightarrow> k \<noteq> 9 \<Longrightarrow> plain [] [] (mg_downgrade (revisions env ! k))"
  by (auto simp: nat_cases_13 revision_nth revision_defs)

lemma downgrade_schema:
  assumes "k < 13"
  shows "run_schema (mg_downgrade (revisions env ! k)) (schema_at env (Suc k)) = Inr (schema_at env k)"
proof (cases "k = 9")
  case True
  then show ?thesis using mode_check_back [of env] by (simp add: revisions_def)
next
  case False
  show ?thesis
    using undo_schema_run [OF schema_at_ok run_schema_structural [OF schema_at_Suc [OF assms]] undone_upgrades [OF assms False]] .
qed

lemma downgrade_run:
  assumes "at_revision env (Suc k) d" and "k < 13" and "k \<noteq> 9"
  shows "\<exists>d'. run_ddl gen (mg_downgrade (revisions env ! k)) d = Inr d' \<and> at_revision env k d' \<and>
    db_rows d' = run_rows gen (mg_downgrade (revisions env ! k)) (schema_at env (Suc k)) (db_rows d)"
proof -
  have d: "db_valid d" "schema_ok (db_schema d)" "run_schema (mg_downgrade (revisions env ! k)) (db_schema d) = Inr (schema_at env k)"
    and s: "db_schema d = schema_at env (Suc k)"
    using assms(1) schema_at_ok downgrade_schema [OF assms(2)] by (simp_all add: at_revision_def)
  show ?thesis using plain_run [OF d plain_downgrades [OF assms(2,3)] known_of_Nil] s by (fastforce simp: at_revision_def)
qed

lemma downgrade_0002:
  assumes "at_revision env 1 d" and "run_ddl gen (mg_upgrade (revisions env ! 1)) d = Inr d'"
  shows "run_ddl gen (mg_downgrade (revisions env ! 1)) d' = Inr d"
proof -
  note u = upgrade_0002 [OF assms(1)]
  have d': "d' = \<lparr>db_schema = schema_at env 2, db_rows = (db_rows d)(''submissions'' :=
      map (\<lambda>r. r(''request_fingerprint'' \<mapsto> backfilled env r)) (db_rows d ''submissions''))\<rparr>"
    using u(1) [of gen] assms(2) by simp
  have "at_revision env (Suc 1) d'" using u(2) by (simp add: d' at_revision_def numeral_2_eq_2)
  then obtain e where e: "run_ddl gen (mg_downgrade (revisions env ! 1)) d' = Inr e" "db_schema e = schema_at env 1"
      "db_rows e = run_rows gen (mg_downgrade (revisions env ! 1)) (schema_at env (Suc 1)) (db_rows d')"
    using downgrade_run [of env 1 d' gen] by (auto simp: at_revision_def)
  have "r ''request_fingerprint'' = None" if r: "r \<in> set (db_rows d ''submissions'')" for r
  proof -
    obtain t where t: "find_table ''submissions'' (schema_at env 1) = Some t" "''request_fingerprint'' \<notin> set (column_names t)"
      using u(4) by blast
    have "row_ok t r" using assms(1) r find_table_Some [OF t(1)]
      by (auto simp: at_revision_def db_valid_def tables_valid_def list_all_iff)
    then show ?thesis using t(2) by (auto simp: row_ok_def)
  qed
  then have same: "map (\<lambda>r. r(''request_fingerprint'' := None)) (db_rows d ''submissions'') = db_rows d ''submissions''"
    by (intro map_idI) (simp add: fun_upd_idem)
  have "db_rows e = fold (\<lambda>op. rows_step gen op empty_schema) (mg_downgrade (revisions env ! 1)) (db_rows d')"
    unfolding e(3) by (rule run_rows_free [OF downgrade_schema]) (simp_all add: revisions_def rev_0002_def)
  also have "\<dots> = db_rows d"
    using same by (simp add: d' revisions_def rev_0002_def comp_def fun_upd_idem)
  finally have "e = d" using e(2) assms(1) by (simp add: at_revision_def)
  then show ?thesis using e(1) by simp
qed

lemma downgrade_0005:
  assumes "at_revision env 4 d" and "run_ddl gen (mg_upgrade (revisions env ! 4)) d = Inr d'"
  shows "run_ddl gen (mg_downgrade (revisions env ! 4)) d' = Inr d"
proof -
  note u = upgrade_0005 [OF assms(1)]
  have five: "Suc 4 = (5::nat)" by simp
  have d': "d' = \<lparr>db_schema = schema_at env 5, db_rows = (db_rows d)(''evaluation_scheduler_state'' := [scheduler_row])\<rparr>"
    using u(1) [of gen] assms(2) by simp
  have "at_revision env (Suc 4) d'" using u(2) by (simp add: d' at_revision_def five)
  then obtain e where e: "run_ddl gen (mg_downgrade (revisions env ! 4)) d' = Inr e" "db_schema e = schema_at env 4"
      "db_rows e = run_rows gen (mg_downgrade (revisions env ! 4)) (schema_at env (Suc 4)) (db_rows d')"
    using downgrade_run [of env 4 d' gen] by (auto simp: at_revision_def)
  have empty: "db_rows d ''evaluation_scheduler_state'' = []" using assms(1) u(4) by (simp add: at_revision_def db_valid_def)
  have "db_rows e = fold (\<lambda>op. rows_step gen op empty_schema) (mg_downgrade (revisions env ! 4)) (db_rows d')"
    unfolding e(3) by (rule run_rows_free [OF downgrade_schema]) (simp_all add: revisions_def rev_0005_def)
  also have "\<dots> = db_rows d"
    using empty by (simp add: d' revisions_def rev_0005_def fun_upd_idem)
  finally have "e = d" using e(2) assms(1) by (simp add: at_revision_def)
  then show ?thesis using e(1) by simp
qed

lemma downgrade_0010:
  assumes "at_revision env 10 d"
  shows "run_ddl gen (mg_downgrade rev_0010) d =
      (if list_ex (\<lambda>r. value_of r ''evaluation_mode'' = VText ''synthetic_execution'') (db_rows d ''evaluations'')
       then Inl ConstraintViolation else Inr \<lparr>db_schema = schema_at env 9, db_rows = db_rows d\<rparr>)"
    and "\<not> list_ex (\<lambda>r. value_of r ''evaluation_mode'' = VText ''synthetic_execution'') (db_rows d ''evaluations'') \<Longrightarrow>
      db_valid \<lparr>db_schema = schema_at env 9, db_rows = db_rows d\<rparr>"
proof -
  have d: "db_valid d" "db_schema d = schema_at env 10" using assms by (simp_all add: at_revision_def)
  have ops: "mg_downgrade rev_0010 =
      [DropConstraint mode_check_name ''evaluations'', CreateCheck mode_check_name ''evaluations'' (modes_check False)]"
    by (simp add: rev_0010_def)
  have ok: "schema_ok (db_schema d)" by (simp add: d(2) schema_at_ok)
  have "list_all (passes_check (modes_check True)) (db_rows d ''evaluations'')"
    using has_mode_check_rows [of True d] mode_checks [of env] d by (simp add: db_valid_def)
  then have p: "list_all (passes_check (modes_check False)) (db_rows d ''evaluations'') \<longleftrightarrow>
      \<not> list_ex (\<lambda>r. value_of r ''evaluation_mode'' = VText ''synthetic_execution'') (db_rows d ''evaluations'')"
    by (auto simp: list_all_iff list_ex_iff passes_modes)
  note r = replace_mode_check [OF d(1) ok mode_check_back [of env, unfolded ops, folded d(2)] conjunct1 [OF mode_checks]]
  show "run_ddl gen (mg_downgrade rev_0010) d =
      (if list_ex (\<lambda>r. value_of r ''evaluation_mode'' = VText ''synthetic_execution'') (db_rows d ''evaluations'')
       then Inl ConstraintViolation else Inr \<lparr>db_schema = schema_at env 9, db_rows = db_rows d\<rparr>)"
    unfolding ops r(1) p by simp
  show "\<not> list_ex (\<lambda>r. value_of r ''evaluation_mode'' = VText ''synthetic_execution'') (db_rows d ''evaluations'') \<Longrightarrow>
      db_valid \<lparr>db_schema = schema_at env 9, db_rows = db_rows d\<rparr>"
    using r(2) p by simp
qed

lemma undone_0010:
  assumes "at_revision env 9 d" and "run_ddl gen (mg_upgrade (revisions env ! 9)) d = Inr d'"
  shows "run_ddl gen (mg_downgrade (revisions env ! 9)) d' = Inr d"
proof -
  note u = upgrade_0010 [OF assms(1)]
  have d': "d' = \<lparr>db_schema = schema_at env 10, db_rows = db_rows d\<rparr>" using u(1) [of gen] assms(2) by simp
  have "list_all (passes_check (modes_check False)) (db_rows d ''evaluations'')"
    using has_mode_check_rows [of False d] mode_checks [of env] assms(1) by (simp add: db_valid_def at_revision_def)
  then have "\<not> list_ex (\<lambda>r. value_of r ''evaluation_mode'' = VText ''synthetic_execution'') (db_rows d' ''evaluations'')"
    by (auto simp: d' list_all_iff list_ex_iff passes_modes)
  moreover have "at_revision env 10 d'" using u(2) by (simp add: d' at_revision_def)
  ultimately have "run_ddl gen (mg_downgrade rev_0010) d' = Inr \<lparr>db_schema = schema_at env 9, db_rows = db_rows d'\<rparr>"
    by (simp add: downgrade_0010)
  moreover have "\<lparr>db_schema = schema_at env 9, db_rows = db_rows d'\<rparr> = d"
    using assms(1) by (simp add: at_revision_def d')
  ultimately show ?thesis by (simp add: revisions_def)
qed

end
