(* ===== verification/Migration_Guarantees.thy ===== *)
theory Migration_Guarantees
  imports Migration_Runs
begin

text \<open>
  The properties of the migrations, with the databases at which they are applied.
\<close>

section \<open>The models and the head\<close>

text \<open>\<open>create_all\<close> skips the tables that exist, with their indexes.\<close>

fun about_table :: "ddl \<Rightarrow> string" where
  "about_table (CreateTable t) = tb_name t"
| "about_table (CreateIndex i) = ix_table i"
| "about_table _ = []"

definition create_all :: "schema \<Rightarrow> ddl list" where
  "create_all s = filter (\<lambda>op. about_table op \<notin> set (table_names s)) models_create_all"

definition same_table :: "table \<Rightarrow> table \<Rightarrow> bool" where
  "same_table t t' \<longleftrightarrow> tb_name t = tb_name t' \<and> set (tb_columns t) = set (tb_columns t') \<and>
     set (tb_constraints t) = set (tb_constraints t')"

text \<open>Equal up to the order of the tables, of their columns and constraints, and of the indexes.\<close>

definition same_schema :: "schema \<Rightarrow> schema \<Rightarrow> bool" where
  "same_schema s s' \<longleftrightarrow> list_all (\<lambda>t. list_ex (same_table t) (sc_tables s')) (sc_tables s) \<and>
     list_all (\<lambda>t. list_ex (same_table t) (sc_tables s)) (sc_tables s') \<and> set (sc_indexes s) = set (sc_indexes s')"

definition without_default :: "string \<Rightarrow> string \<Rightarrow> schema \<Rightarrow> schema" where
  "without_default n c = alter_table n (\<lambda>t. t\<lparr>tb_columns :=
     map (\<lambda>x. if cl_name x = c then x\<lparr>cl_default := None\<rparr> else x) (tb_columns t)\<rparr>)"

definition search_missing :: "schema \<Rightarrow> bool" where
  "search_missing s \<longleftrightarrow> column_missing ''document_chunks'' ''search_tsv'' s \<and>
     column_missing ''document_chunks'' ''search_tsv_simple'' s \<and>
     ''ix_document_chunks_search_tsv'' \<notin> ix_name ` set (sc_indexes s) \<and>
     ''ix_document_chunks_search_tsv_simple'' \<notin> ix_name ` set (sc_indexes s)"

definition search_present :: "schema \<Rightarrow> bool" where
  "search_present s \<longleftrightarrow> \<not> column_missing ''document_chunks'' ''search_tsv'' s \<and>
     \<not> column_missing ''document_chunks'' ''search_tsv_simple'' s \<and>
     ''ix_document_chunks_search_tsv'' \<in> ix_name ` set (sc_indexes s) \<and>
     ''ix_document_chunks_search_tsv_simple'' \<in> ix_name ` set (sc_indexes s)"

lemma models_missing: "case run_schema models_create_all empty_schema of Inl e \<Rightarrow> False | Inr s \<Rightarrow> search_missing s"
  by code_simp

lemma search_at_revisions: "search_missing (schema_at env 12) \<and> search_present (schema_at env 13)"
  by code_simp

lemma ensure_present:
  "search_present (db_schema d) \<Longrightarrow> ensure_lexical_search_schema gen d = Inr d"
  by (simp add: ensure_lexical_search_schema_def ensure_column_def ensure_index_def search_present_def search_tsv_def
      search_tsv_simple_def generated_def gin_index_def)

text \<open>Adding a column or an index leaves what is missing otherwise missing.\<close>

lemma missing_after_column:
  assumes "schema_step (AddColumn n c) s = Inr s1"
  shows "x \<noteq> cl_name c \<Longrightarrow> column_missing n x s1 = column_missing n x s" and "sc_indexes s1 = sc_indexes s"
proof -
  let ?f = "\<lambda>t. t\<lparr>tb_columns := tb_columns t @ [c]\<rparr>"
  obtain t where t: "find_table n s = Some t" and s1: "s1 = alter_table n ?f s" using assms by (auto split: option.splits if_splits)
  have "find_table n s1 = Some (?f t)" unfolding s1 using t by (rule find_altered) simp
  then show "x \<noteq> cl_name c \<Longrightarrow> column_missing n x s1 = column_missing n x s"
    using t by (auto simp: column_missing_def column_names_def)
  show "sc_indexes s1 = sc_indexes s" by (simp add: s1 alter_table_def)
qed

lemma missing_after_index:
  assumes "schema_step (CreateIndex i) s = Inr s1"
  shows "column_missing n x s1 = column_missing n x s" and "ix_name ` set (sc_indexes s1) = insert (ix_name i) (ix_name ` set (sc_indexes s))"
  using assms by (auto simp: column_missing_def find_table_def split: if_splits)

lemma ensure_missing:
  assumes "search_missing (db_schema d)" and "run_ddl gen (mg_upgrade rev_0013) d = Inr d'"
  shows "ensure_lexical_search_schema gen d = Inr d'"
proof -
  let ?n = "''document_chunks''"
  let ?i = "gin_index ''ix_document_chunks_search_tsv'' ?n [''search_tsv'']"
  let ?j = "gin_index ''ix_document_chunks_search_tsv_simple'' ?n [''search_tsv_simple'']"
  obtain a b c where e: "exec_ddl gen (AddColumn ?n search_tsv) d = Inr a" "exec_ddl gen (CreateIndex ?i) a = Inr b"
      "exec_ddl gen (AddColumn ?n search_tsv_simple) b = Inr c" "exec_ddl gen (CreateIndex ?j) c = Inr d'"
    using assms(2) by (auto simp: rev_0013_def split: sum.splits)
  note names = search_tsv_def search_tsv_simple_def generated_def gin_index_def
  note m = missing_after_column [OF exec_Inr(1) [OF e(1)]] missing_after_index [OF exec_Inr(1) [OF e(2)]]
    missing_after_column [OF exec_Inr(1) [OF e(3)]]
  have "column_missing ?n (cl_name search_tsv) (db_schema d)" "ix_name ?i \<notin> ix_name ` set (sc_indexes (db_schema a))"
    using assms(1) m(2) by (simp_all add: search_missing_def names)
  moreover have "column_missing ?n (cl_name search_tsv_simple) (db_schema b)"
    using assms(1) m(1,3) by (simp add: search_missing_def names)
  moreover have "ix_name ?j \<notin> ix_name ` set (sc_indexes (db_schema c))"
    using assms(1) m(2,4,6) by (simp add: search_missing_def names)
  ultimately show ?thesis
    by (simp add: ensure_lexical_search_schema_def ensure_column_def ensure_index_def e)
qed

section \<open>Sample databases\<close>

definition sample_env :: app_env where
  "sample_env = \<lparr>ae_sha = (\<lambda>s. s), ae_repr = (\<lambda>x. ''0''), ae_float = (\<lambda>s. None)\<rparr>"

definition sample_gen :: generator where
  "sample_gen e r = VTsv e"

definition sample_rows :: "string \<Rightarrow> row list" where
  "sample_rows n =
     (if n = ''users'' then [[''id'' \<mapsto> VUuid 1, ''display_name'' \<mapsto> VText ''Ann'', ''role'' \<mapsto> VText ''participant'', ''created_at'' \<mapsto> VTime 0]]
      else if n = ''hackathons'' then [[''id'' \<mapsto> VUuid 2, ''title'' \<mapsto> VText ''h'', ''description'' \<mapsto> VText ''d'',
        ''status'' \<mapsto> VText ''published'', ''organizer_id'' \<mapsto> VUuid 1, ''created_at'' \<mapsto> VTime 0, ''updated_at'' \<mapsto> VTime 0]]
      else if n = ''challenges'' then [[''id'' \<mapsto> VUuid 3, ''hackathon_id'' \<mapsto> VUuid 2, ''title'' \<mapsto> VText ''c'',
        ''description'' \<mapsto> VText ''d'', ''constraints'' \<mapsto> VText ''k'', ''status'' \<mapsto> VText ''published'',
        ''created_at'' \<mapsto> VTime 0, ''updated_at'' \<mapsto> VTime 0]]
      else if n = ''submissions'' then [[''id'' \<mapsto> VUuid 4, ''challenge_id'' \<mapsto> VUuid 3, ''participant_id'' \<mapsto> VUuid 1,
        ''status'' \<mapsto> VText ''created'', ''metadata'' \<mapsto> VJson (JObj []), ''artifact_key'' \<mapsto> VNull,
        ''idempotency_key'' \<mapsto> VText ''k1'', ''failure_reason'' \<mapsto> VNull, ''created_at'' \<mapsto> VTime 0, ''updated_at'' \<mapsto> VTime 0]]
      else [])"

definition sample_1 :: database where
  "sample_1 = \<lparr>db_schema = schema_at sample_env 1, db_rows = sample_rows\<rparr>"

lemma schema_at_1:
  "schema_at env 1 = \<lparr>sc_tables = [users_table, hackathons_table, challenges_table, challenge_specifications_table,
       evaluation_criteria_table, submissions_table],
     sc_indexes = [plain_index ''ix_hackathons_organizer_id'' ''hackathons'' [''organizer_id''],
       plain_index ''ix_challenges_hackathon_id'' ''challenges'' [''hackathon_id''],
       plain_index ''ix_evaluation_criteria_challenge_id'' ''evaluation_criteria'' [''challenge_id''],
       plain_index ''ix_submissions_participant_created'' ''submissions'' [''participant_id'', ''created_at''],
       plain_index ''ix_submissions_challenge_created'' ''submissions'' [''challenge_id'', ''created_at''],
       idempotency_index]\<rparr>"
  by code_simp

lemma sample_1_valid: "at_revision sample_env 1 sample_1"
proof -
  have "tables_valid sample_1"
    unfolding tables_valid_def sample_1_def schema_at_1
    by (simp add: sample_rows_def schema_objects row_ok_def column_names_def value_of_def passes_check_def full_keys_def
        key_of_def index_holds_def insert_commute)
  moreover have "sample_rows n = []" if "n \<notin> set (table_names (schema_at sample_env 1))" for n
    using that unfolding schema_at_1 by (auto simp: sample_rows_def table_names_def schema_objects)
  ultimately show ?thesis by (simp add: at_revision_def db_valid_def sample_1_def)
qed

text \<open>Revision 0010 with one evaluation of each kind of mode.\<close>

definition submissions_0002 :: table where
  "submissions_0002 = submissions_table\<lparr>tb_columns := tb_columns submissions_table @ [optional ''request_fingerprint'' TextT],
     tb_constraints := tb_constraints submissions_table @ [Check ''ck_submissions_idempotency_fingerprint'' fingerprint_check]\<rparr>"

definition evaluations_0010 :: table where
  "evaluations_0010 = evaluations_table\<lparr>tb_columns := tb_columns evaluations_table @
       [defaulted ''workload_class'' TextT (VText ''light''), defaulted ''current_stage'' IntegerT (VInt 0),
        defaulted ''evaluation_mode'' TextT (VText ''legacy''), optional ''deadline_at'' TimestampT],
     tb_constraints := tb_constraints evaluations_table @
       [Check ''ck_evaluations_workload_class'' (In ''workload_class'' [''light'', ''medium'', ''heavy'']),
        Check ''ck_evaluations_current_stage'' (Ge ''current_stage'' 0), Check mode_check_name (modes_check True)]\<rparr>"

definition scheduler_0009 :: table where
  "scheduler_0009 = scheduler_table\<lparr>tb_columns := tb_columns scheduler_table @
       [defaulted ''pressure_state'' TextT (VText ''normal''), optional ''adaptive_max_workers'' IntegerT,
        optional ''interactive_p95_ms'' FloatT, defaulted ''interactive_sample_count'' IntegerT (VInt 0),
        optional ''pool_wait_p95_ms'' FloatT]\<rparr>"

lemma schema_at_10:
  "schema_at env 10 = \<lparr>sc_tables = [users_table, hackathons_table, challenges_table, challenge_specifications_table,
       evaluation_criteria_table, submissions_0002, evaluations_0010, scheduler_0009],
     sc_indexes = sc_indexes (schema_at env 1) @
       [plain_index ''ix_evaluations_status_created'' ''evaluations'' [''status'', ''created_at''],
        plain_index ''ix_evaluations_running_started'' ''evaluations'' [''status'', ''started_at'']]\<rparr>"
  by code_simp

definition sample_evaluation :: "uuid \<Rightarrow> uuid \<Rightarrow> string \<Rightarrow> row" where
  "sample_evaluation i s mode = [''id'' \<mapsto> VUuid i, ''submission_id'' \<mapsto> VUuid s, ''status'' \<mapsto> VText ''queued'',
     ''created_at'' \<mapsto> VTime 0, ''started_at'' \<mapsto> VNull, ''completed_at'' \<mapsto> VNull, ''attempt_count'' \<mapsto> VInt 0,
     ''failure_reason'' \<mapsto> VNull, ''score'' \<mapsto> VNull, ''result_metadata'' \<mapsto> VJson (JObj []), ''worker_id'' \<mapsto> VNull,
     ''workload_class'' \<mapsto> VText ''light'', ''current_stage'' \<mapsto> VInt 0, ''evaluation_mode'' \<mapsto> VText mode, ''deadline_at'' \<mapsto> VNull]"

definition sample_rows_10 :: "string list \<Rightarrow> string \<Rightarrow> row list" where
  "sample_rows_10 modes n =
     (if n = ''submissions'' then map (\<lambda>r. r(''request_fingerprint'' \<mapsto> VText ''f'')) (sample_rows n)
      else if n = ''evaluations'' then map (sample_evaluation 5 4) modes
      else sample_rows n)"

definition sample_10 :: "string list \<Rightarrow> database" where
  "sample_10 modes = \<lparr>db_schema = schema_at sample_env 10, db_rows = sample_rows_10 modes\<rparr>"

lemma sample_10_valid:
  assumes "passes_check (modes_check True) (sample_evaluation 5 4 mode)"
  shows "at_revision sample_env 10 (sample_10 [mode])"
proof -
  have "tables_valid (sample_10 [mode])"
    using assms unfolding tables_valid_def sample_10_def schema_at_10 schema_at_1
    by (simp add: sample_rows_10_def sample_evaluation_def sample_rows_def submissions_0002_def evaluations_0010_def
        scheduler_0009_def schema_objects row_ok_def column_names_def value_of_def passes_check_def full_keys_def
        key_of_def index_holds_def insert_commute fingerprint_check_def)
  moreover have "sample_rows_10 [mode] n = []" if "n \<notin> set (table_names (schema_at sample_env 10))" for n
    using that unfolding schema_at_10
    by (auto simp: sample_rows_10_def sample_rows_def table_names_def schema_objects submissions_0002_def evaluations_0010_def
        scheduler_0009_def)
  ultimately show ?thesis by (simp add: at_revision_def db_valid_def sample_10_def)
qed

section \<open>Properties\<close>

text \<open>
  C18. From any valid database at any revision the remaining upgrades succeed, whatever its data are: no statement is refused,
  the result is a valid database at the head, and every row of every table is still there with all its old columns.
\<close>

theorem upgrade_head_safe:
  assumes "at_revision env k d" and "k \<le> 13"
  shows "\<exists>d'. run_ddl gen (concat (map mg_upgrade (drop k (revisions env)))) d = Inr d' \<and> at_revision env 13 d' \<and>
    keeps (schema_at env k) (db_rows d) (db_rows d')"
  using upgrade_run [OF assms, of gen] assms(1) by (auto simp: at_revision_def)

theorem upgrade_head_safe_witness:
  "\<exists>d'. run_ddl sample_gen (concat (map mg_upgrade (drop 1 (revisions sample_env)))) sample_1 = Inr d' \<and>
    at_revision sample_env 13 d' \<and> keeps (schema_at sample_env 1) (db_rows sample_1) (db_rows d')"
  by (rule upgrade_head_safe [OF sample_1_valid]) simp

text \<open>
  C19. Every upgrade followed by its downgrade gives back the same database: schema, rows and their order.
\<close>

theorem downgrade_undoes_upgrade:
  assumes "at_revision env k d" and "k < 13" and "run_ddl gen (mg_upgrade (revisions env ! k)) d = Inr d'"
  shows "run_ddl gen (mg_downgrade (revisions env ! k)) d' = Inr d"
proof -
  consider "k = 1" | "k = 4" | "k = 9" | "k \<noteq> 1" "k \<noteq> 4" "k \<noteq> 9" by blast
  then show ?thesis
  proof cases
    case 3
    then show ?thesis using undone_0010 [of env d gen d'] assms(1,3) by simp
  next
    case 4
    have "list_all2 undoes (mg_upgrade (revisions env ! k)) (rev (mg_downgrade (revisions env ! k)))"
      using undone_upgrades [OF assms(2) 4(3), of env] structural_upgrades [OF assms(2) 4(1,2), of env] by simp
    then show ?thesis using undo_run [OF _ _ assms(3)] assms(1) schema_at_ok by (simp add: at_revision_def)
  qed (use downgrade_0002 downgrade_0005 assms in auto)
qed

theorem downgrade_undoes_upgrade_witness:
  "\<exists>d'. run_ddl sample_gen (mg_upgrade (revisions sample_env ! 1)) sample_1 = Inr d' \<and>
    run_ddl sample_gen (mg_downgrade (revisions sample_env ! 1)) d' = Inr sample_1"
  using upgrade_step [OF sample_1_valid, of sample_gen] downgrade_undoes_upgrade [OF sample_1_valid, of sample_gen] by fastforce

text \<open>
  C31. A downgrade of a valid database succeeds and leaves a valid database, with one exception: revision 0010 cannot be
  downgraded once there is an evaluation in mode \<open>synthetic_execution\<close>; the old check is then refused.
\<close>

theorem downgrade_refused_0010:
  assumes "at_revision env (Suc k) d" and "k < 13"
  shows "if k = 9 \<and> list_ex (\<lambda>r. value_of r ''evaluation_mode'' = VText ''synthetic_execution'') (db_rows d ''evaluations'')
    then run_ddl gen (mg_downgrade (revisions env ! k)) d = Inl ConstraintViolation
    else \<exists>d'. run_ddl gen (mg_downgrade (revisions env ! k)) d = Inr d' \<and> at_revision env k d'"
proof (cases "k = 9")
  case True
  then show ?thesis using downgrade_0010(1) [of env d gen] downgrade_0010(2) [of env d] assms(1) by (simp add: revisions_def at_revision_def)
next
  case False
  then show ?thesis using downgrade_run [OF assms False, of gen] by auto
qed

theorem downgrade_refused_0010_witness:
  "run_ddl sample_gen (mg_downgrade (revisions sample_env ! 9)) (sample_10 [''synthetic_execution'']) = Inl ConstraintViolation \<and>
   (\<exists>d'. run_ddl sample_gen (mg_downgrade (revisions sample_env ! 9)) (sample_10 [''legacy'']) = Inr d' \<and> at_revision sample_env 9 d')"
proof -
  have "at_revision sample_env (Suc 9) (sample_10 [''synthetic_execution''])" "at_revision sample_env (Suc 9) (sample_10 [''legacy''])"
    using sample_10_valid by (simp_all add: passes_check_def modes_check_def sample_evaluation_def value_of_def)
  from this [THEN downgrade_refused_0010, of sample_gen] show ?thesis
    by (simp add: sample_10_def sample_rows_10_def sample_evaluation_def value_of_def)
qed

text \<open>
  C27. The fingerprint that revision 0002 stores is the one the API computes for the same challenge and metadata, so a client that
  repeats its request with its old key after the upgrade gets its submission back and not a conflict.
\<close>

theorem migrated_keys_replay:
  assumes "at_revision env 1 d" and "run_ddl gen (mg_upgrade (rev_0002 env)) d = Inr d'"
    and "r \<in> set (db_rows d' ''submissions'')" and "value_of r ''idempotency_key'' \<noteq> VNull"
    and "value_of r ''challenge_id'' = VUuid u" and "value_of r ''metadata'' = VJson (JObj md)"
  shows "\<exists>f. value_of r ''request_fingerprint'' = VText f \<and> f = submission_request_fingerprint env u md \<and>
    (\<forall>s. s_challenge_id s = u \<longrightarrow> s_metadata s = md \<longrightarrow> s_request_fingerprint s = Some f \<longrightarrow>
       replay_or_conflict env s (submission_request_fingerprint env u md) = Inr s)"
proof -
  have "rev_0002 env = revisions env ! 1" by (simp add: revisions_def)
  then obtain q where q: "r = q(''request_fingerprint'' \<mapsto> backfilled env q)"
    using assms(2,3) upgrade_0002(1) [OF assms(1), of gen] by auto
  then have "value_of q x = value_of r x" if "x \<noteq> ''request_fingerprint''" for x using that by (simp add: value_of_def)
  then have "backfilled env q = VText (submission_request_fingerprint env u md)"
    using assms(4-6) by (simp add: backfilled_def fingerprint_0002_def submission_request_fingerprint_def)
  then have "value_of r ''request_fingerprint'' = VText (submission_request_fingerprint env u md)" by (simp add: q value_of_def)
  then show ?thesis by (simp add: replay_or_conflict_def Let_def)
qed

theorem migrated_keys_replay_witness:
  "\<exists>d' r. run_ddl sample_gen (mg_upgrade (rev_0002 sample_env)) sample_1 = Inr d' \<and> r \<in> set (db_rows d' ''submissions'') \<and>
     value_of r ''request_fingerprint'' = VText (submission_request_fingerprint sample_env 3 [])"
proof -
  let ?r = "(hd (sample_rows ''submissions''))(''request_fingerprint'' \<mapsto> backfilled sample_env (hd (sample_rows ''submissions'')))"
  have "revisions sample_env ! 1 = rev_0002 sample_env" by (simp add: revisions_def)
  then obtain d' where d': "run_ddl sample_gen (mg_upgrade (rev_0002 sample_env)) sample_1 = Inr d'"
      "?r \<in> set (db_rows d' ''submissions'')"
    using upgrade_0002(1) [OF sample_1_valid, of sample_gen] by (auto simp: sample_1_def sample_rows_def)
  have "value_of ?r ''idempotency_key'' \<noteq> VNull" "value_of ?r ''challenge_id'' = VUuid 3" "value_of ?r ''metadata'' = VJson (JObj [])"
    by (simp_all add: sample_rows_def value_of_def)
  from migrated_keys_replay [OF sample_1_valid d' this] d' show ?thesis by blast
qed

definition empty_database :: database where
  "empty_database = \<lparr>db_schema = empty_schema, db_rows = (\<lambda>n. [])\<rparr>"

lemma empty_database_valid: "at_revision env 0 empty_database"
  by (simp add: at_revision_def db_valid_def tables_valid_def empty_database_def empty_schema_def schema_at_0)

lemma create_all_schema:
  "case run_schema models_create_all empty_schema of Inl e \<Rightarrow> False
   | Inr s \<Rightarrow> ''users'' \<in> set (table_names s) \<and> (case run_schema (mg_upgrade rev_0013) s of Inl e \<Rightarrow> False
       | Inr s' \<Rightarrow> same_schema s' (without_default ''evaluations'' ''attempt_count'' (schema_at env 13)))"
  by code_simp

lemma create_all_head: "create_all (schema_at env 13) = []"
  by code_simp

lemma create_all_plain: "plain [] [] models_create_all"
  by code_simp

lemma create_all_empty: "create_all empty_schema = models_create_all"
  by (simp add: create_all_def empty_schema_def table_names_def)

text \<open>
  C32. \<open>create_all\<close> on an empty database and then the search columns give the schema of the head, up to order and to one
  thing: the migrations give \<open>evaluations.attempt_count\<close> a default in the database and the models do not. On a database at
  the head \<open>create_all\<close> does nothing. Without the search columns the schema is not the head, and on a database that
  \<open>create_all\<close> made the migrations cannot be run: the first one finds its tables.
\<close>

theorem models_match_head:
  "\<exists>m m'. run_ddl gen (create_all empty_schema) empty_database = Inr m \<and> search_missing (db_schema m) \<and>
     ensure_lexical_search_schema gen m = Inr m' \<and> db_valid m' \<and>
     same_schema (db_schema m') (without_default ''evaluations'' ''attempt_count'' (schema_at env 13)) \<and>
     create_all (schema_at env 13) = [] \<and> run_ddl gen (mg_upgrade rev_0001) m = Inl DuplicateTable"
proof -
  obtain s s' where s: "run_schema models_create_all empty_schema = Inr s" "''users'' \<in> set (table_names s)"
      "run_schema (mg_upgrade rev_0013) s = Inr s'"
      "same_schema s' (without_default ''evaluations'' ''attempt_count'' (schema_at env 13))"
    using create_all_schema [of env] by (auto split: sum.splits)
  have e: "db_valid empty_database" "schema_ok (db_schema empty_database)"
      "run_schema models_create_all (db_schema empty_database) = Inr s"
    using empty_database_valid schema_at_ok [of _ 0] s(1)
    by (simp_all add: at_revision_def schema_at_0 empty_database_def)
  obtain m where m: "run_ddl gen models_create_all empty_database = Inr m" "db_schema m = s" "db_valid m" "schema_ok s"
    using plain_run [OF e create_all_plain known_of_Nil] by blast
  have p: "plain [] [] (mg_upgrade rev_0013)" using plain_upgrades [of 12 undefined] by (simp add: revisions_def)
  obtain m' where m': "run_ddl gen (mg_upgrade rev_0013) m = Inr m'" "db_schema m' = s'" "db_valid m'"
    using plain_run [OF m(3) _ _ p known_of_Nil, of s'] m(2,4) s(3) by blast
  have missing: "search_missing (db_schema m)" using models_missing s(1) m(2) by simp
  have "exec_ddl gen (CreateTable users_table) m = Inl DuplicateTable"
    using s(2) m(2) by (simp add: exec_ddl_def users_table_def)
  then have "run_ddl gen (mg_upgrade rev_0001) m = Inl DuplicateTable" by (simp add: rev_0001_def)
  then show ?thesis
    using m(1) missing ensure_missing [OF missing m'(1)] m'(2,3) s(4) create_all_head create_all_empty by metis
qed

text \<open>
  \<open>ensure_lexical_search_schema\<close> on a database at revision 0012 does what the upgrade to 0013 does, and doing it again, or on a
  database at the head, changes nothing.
\<close>

theorem ensure_is_upgrade_0013:
  assumes "at_revision env 12 d"
  shows "\<exists>d'. ensure_lexical_search_schema gen d = Inr d' \<and> run_ddl gen (mg_upgrade rev_0013) d = Inr d' \<and> at_revision env 13 d' \<and>
    (\<forall>h. at_revision env 13 h \<longrightarrow> ensure_lexical_search_schema gen h = Inr h)"
proof -
  have r: "revisions env ! 12 = rev_0013" and n: "Suc 12 = 13" by (simp_all add: revisions_def)
  obtain d' where d': "run_ddl gen (mg_upgrade rev_0013) d = Inr d'" "at_revision env 13 d'"
    using upgrade_step [OF assms, of gen] by (auto simp: r n)
  have "search_missing (db_schema d)" using search_at_revisions [of env] assms by (simp add: at_revision_def)
  then show ?thesis
    using d' ensure_missing [OF _ d'(1)] ensure_present search_at_revisions [of env] by (auto simp: at_revision_def)
qed

theorem ensure_is_upgrade_0013_witness:
  "\<exists>d d'. at_revision sample_env 12 d \<and> ensure_lexical_search_schema sample_gen d = Inr d' \<and>
     ensure_lexical_search_schema sample_gen d' = Inr d'"
proof -
  have n: "Suc 10 = 11" "Suc 11 = 12" by simp_all
  have "at_revision sample_env 10 (sample_10 [''legacy''])"
    using sample_10_valid by (simp add: passes_check_def modes_check_def sample_evaluation_def value_of_def)
  from upgrade_step [OF this, of sample_gen] obtain d11 where d11: "at_revision sample_env 11 d11" by (auto simp: n)
  from upgrade_step [OF this, of sample_gen] obtain d where d: "at_revision sample_env 12 d" by (auto simp: n)
  from ensure_is_upgrade_0013 [OF d, of sample_gen] d show ?thesis by blast
qed

end
