(* ===== verification/Job_Object.thy ===== *)
theory Job_Object
  imports Execution "HOL-Library.Word" "HOL-Library.Multiset"
begin

unbundle bit_operations_syntax

text \<open>
  \<^verbatim>\<open>execution/job_object.py\<close> and the part of \<^verbatim>\<open>execution/process_executor.py\<close> that owns a job: the structures handed to
  Windows at their machine widths, and the calls of kernel32 as a trace. What kernel32 answers is an argument that may
  depend on all earlier calls. Shown: the structures say what was asked for, within the ranges of their
  fields, and every handle that is opened is closed again on every path the code handles.
\<close>

section \<open>The structures\<close>

definition JOB_OBJECT_LIMIT_JOB_TIME :: "32 word" where "JOB_OBJECT_LIMIT_JOB_TIME = 0x4"
definition JOB_OBJECT_LIMIT_ACTIVE_PROCESS :: "32 word" where "JOB_OBJECT_LIMIT_ACTIVE_PROCESS = 0x8"
definition JOB_OBJECT_LIMIT_JOB_MEMORY :: "32 word" where "JOB_OBJECT_LIMIT_JOB_MEMORY = 0x200"
definition JOB_OBJECT_LIMIT_KILL_ON_JOB_CLOSE :: "32 word" where "JOB_OBJECT_LIMIT_KILL_ON_JOB_CLOSE = 0x2000"
definition JOB_OBJECT_CPU_RATE_CONTROL_ENABLE :: "32 word" where "JOB_OBJECT_CPU_RATE_CONTROL_ENABLE = 0x1"
definition JOB_OBJECT_CPU_RATE_CONTROL_HARD_CAP :: "32 word" where "JOB_OBJECT_CPU_RATE_CONTROL_HARD_CAP = 0x4"

lemmas job_flags = JOB_OBJECT_LIMIT_JOB_TIME_def JOB_OBJECT_LIMIT_ACTIVE_PROCESS_def JOB_OBJECT_LIMIT_JOB_MEMORY_def
  JOB_OBJECT_LIMIT_KILL_ON_JOB_CLOSE_def JOB_OBJECT_CPU_RATE_CONTROL_ENABLE_def JOB_OBJECT_CPU_RATE_CONTROL_HARD_CAP_def

record basic_limit_information =
  PerProcessUserTimeLimit :: "64 word"
  PerJobUserTimeLimit :: "64 word"
  LimitFlags :: "32 word"
  MinimumWorkingSetSize :: "64 word"
  MaximumWorkingSetSize :: "64 word"
  ActiveProcessLimit :: "32 word"
  Affinity :: "64 word"
  PriorityClass :: "32 word"
  SchedulingClass :: "32 word"

record extended_limit_information =
  BasicLimitInformation :: basic_limit_information
  IoInfo :: "64 word list"
  ProcessMemoryLimit :: "64 word"
  JobMemoryLimit :: "64 word"
  PeakProcessMemoryUsed :: "64 word"
  PeakJobMemoryUsed :: "64 word"

record cpu_rate_control_information =
  ControlFlags :: "32 word"
  CpuRate :: "32 word"

text \<open>A structure of ctypes starts out as zeros; an assignment to a field keeps the low bits of the number.\<close>

definition zero_limits :: extended_limit_information where
  "zero_limits = \<lparr>BasicLimitInformation = \<lparr>PerProcessUserTimeLimit = 0, PerJobUserTimeLimit = 0, LimitFlags = 0,
       MinimumWorkingSetSize = 0, MaximumWorkingSetSize = 0, ActiveProcessLimit = 0, Affinity = 0, PriorityClass = 0,
       SchedulingClass = 0\<rparr>,
     IoInfo = replicate 6 0, ProcessMemoryLimit = 0, JobMemoryLimit = 0, PeakProcessMemoryUsed = 0, PeakJobMemoryUsed = 0\<rparr>"

record job_resources =
  max_active_processes :: "int option"
  max_job_memory_bytes :: "int option"
  job_cpu_seconds :: "real option"
  job_cpu_rate_percent :: "real option"

definition no_resources :: job_resources where
  "no_resources = \<lparr>max_active_processes = None, max_job_memory_bytes = None, job_cpu_seconds = None, job_cpu_rate_percent = None\<rparr>"

definition positive :: "'a::{zero,ord} option \<Rightarrow> bool" where
  "positive x = (case x of None \<Rightarrow> False | Some v \<Rightarrow> 0 < v)"

definition extended_limits :: "job_resources \<Rightarrow> extended_limit_information \<times> dict" where
  "extended_limits rs =
     (let flags = JOB_OBJECT_LIMIT_KILL_ON_JOB_CLOSE; info = zero_limits; basic = BasicLimitInformation info;
          applied = [(''kill_on_job_close'', JBool True)];
          (flags, basic, applied) =
            (if positive (max_active_processes rs)
             then (flags OR JOB_OBJECT_LIMIT_ACTIVE_PROCESS,
                   basic\<lparr>ActiveProcessLimit := word_of_int (the (max_active_processes rs))\<rparr>,
                   applied @ [(''max_active_processes'', JInt (the (max_active_processes rs)))])
             else (flags, basic, applied));
          (flags, info, applied) =
            (if positive (max_job_memory_bytes rs)
             then (flags OR JOB_OBJECT_LIMIT_JOB_MEMORY,
                   info\<lparr>JobMemoryLimit := word_of_int (the (max_job_memory_bytes rs))\<rparr>,
                   applied @ [(''max_job_memory_bytes'', JInt (the (max_job_memory_bytes rs)))])
             else (flags, info, applied));
          (flags, basic, applied) =
            (if positive (job_cpu_seconds rs)
             then (flags OR JOB_OBJECT_LIMIT_JOB_TIME,
                   basic\<lparr>PerJobUserTimeLimit := word_of_int (py_int (the (job_cpu_seconds rs) * 10000000))\<rparr>,
                   applied @ [(''max_cpu_seconds'', JFloat (the (job_cpu_seconds rs)))])
             else (flags, basic, applied))
      in (info\<lparr>BasicLimitInformation := basic\<lparr>LimitFlags := flags\<rparr>\<rparr>, applied))"

definition cpu_rate :: "real \<Rightarrow> real" where
  "cpu_rate p = max 1 (min 100 p)"

definition cpu_rate_information :: "real \<Rightarrow> cpu_rate_control_information" where
  "cpu_rate_information rate =
     \<lparr>ControlFlags = JOB_OBJECT_CPU_RATE_CONTROL_ENABLE OR JOB_OBJECT_CPU_RATE_CONTROL_HARD_CAP,
      CpuRate = word_of_int (py_int (rate * 100))\<rparr>"

section \<open>The calls\<close>

type_synonym handle = nat

datatype win_call =
    CreateJobObjectW "string option"
  | SetExtendedLimits handle extended_limit_information
  | SetCpuRate handle cpu_rate_control_information
  | OpenProcess int
  | AssignProcessToJobObject handle handle
  | QueryExtendedLimits handle
  | CloseHandle handle
  | IsProcessInJob

type_synonym call_trace = "(win_call \<times> nat) list"

text \<open>
  The host: its operating system and what kernel32 returns. \<open>ho_peak\<close> is the peak memory a query reads, \<open>ho_flag\<close>
  what \<open>IsProcessInJob\<close> writes.
\<close>

record host_os =
  ho_nt :: bool
  ho_job_api :: bool
  ho_killpg :: bool
  ho_getpgid :: bool
  ho_kernel32 :: "call_trace \<Rightarrow> win_call \<Rightarrow> nat"
  ho_last_error :: "call_trace \<Rightarrow> int"
  ho_peak :: "call_trace \<Rightarrow> nat"
  ho_flag :: "call_trace \<Rightarrow> int"

definition invoke :: "host_os \<Rightarrow> win_call \<Rightarrow> call_trace \<Rightarrow> nat \<times> call_trace" where
  "invoke h c tr = (ho_kernel32 h tr c, tr @ [(c, ho_kernel32 h tr c)])"

datatype job_error = RuntimeError string | WinError string

record job_handle =
  jh_handle :: handle
  jh_name :: "string option"
  jh_applied :: dict
  jh_closed :: bool

definition job_objects_available :: "host_os \<Rightarrow> bool" where
  "job_objects_available h = (ho_nt h \<and> ho_job_api h)"

definition ownership_mechanism :: "host_os \<Rightarrow> string" where
  "ownership_mechanism h = (if job_objects_available h then ''windows_job_object_kill_on_close''
     else if ho_killpg h \<and> ho_getpgid h then ''posix_process_group'' else ''pid_tracking_only'')"

definition failed :: "string \<Rightarrow> host_os \<Rightarrow> call_trace \<Rightarrow> string" where
  "failed what h tr = (what @ '' failed: '' @ dec_int (ho_last_error h tr))"

definition job_assign :: "host_os \<Rightarrow> job_handle \<Rightarrow> int \<Rightarrow> call_trace \<Rightarrow> (job_error + unit) \<times> call_trace" where
  "job_assign h j pid tr =
     (if jh_closed j then (Inl (RuntimeError ''job already closed''), tr)
      else let (p, tr) = invoke h (OpenProcess pid) tr
        in if p = 0 then (Inl (WinError (failed (''OpenProcess('' @ dec_int pid @ '')'') h tr)), tr)
           else let (ok, tr) = invoke h (AssignProcessToJobObject (jh_handle j) p) tr;
                    r = (if ok = 0 then Inl (WinError (failed ''AssignProcessToJobObject'' h tr)) else Inr ())
             in (r, snd (invoke h (CloseHandle p) tr)))"

definition query_peak_job_memory :: "host_os \<Rightarrow> job_handle \<Rightarrow> call_trace \<Rightarrow> nat option \<times> call_trace" where
  "query_peak_job_memory h j tr =
     (if jh_closed j then (None, tr)
      else let (ok, tr) = invoke h (QueryExtendedLimits (jh_handle j)) tr
        in if ok = 0 then (None, tr) else (Some (ho_peak h tr), tr))"

definition job_close :: "host_os \<Rightarrow> job_handle \<Rightarrow> call_trace \<Rightarrow> job_handle \<times> call_trace" where
  "job_close h j tr = (if jh_closed j then (j, tr)
     else (j\<lparr>jh_closed := True\<rparr>, snd (invoke h (CloseHandle (jh_handle j)) tr)))"

definition set_cpu_rate :: "host_os \<Rightarrow> job_resources \<Rightarrow> handle \<Rightarrow> dict \<Rightarrow> call_trace \<Rightarrow> dict \<times> call_trace" where
  "set_cpu_rate h rs j applied tr =
     (if positive (job_cpu_rate_percent rs) then
        let rate = cpu_rate (the (job_cpu_rate_percent rs));
            (ok, tr) = invoke h (SetCpuRate j (cpu_rate_information rate)) tr
        in (applied @ [if ok = 0 then (''cpu_rate_error'', JInt (ho_last_error h tr)) else (''cpu_rate_percent'', JFloat rate)], tr)
      else (applied, tr))"

definition create_job ::
  "host_os \<Rightarrow> job_resources option \<Rightarrow> string option \<Rightarrow> call_trace \<Rightarrow> (string + job_handle option) \<times> call_trace" where
  "create_job h resources name tr =
     (if \<not> job_objects_available h then (Inr None, tr)
      else
        let rs = (case resources of None \<Rightarrow> no_resources | Some r \<Rightarrow> r);
            (j, tr) = invoke h (CreateJobObjectW name) tr
        in if j = 0 then (Inl (failed ''CreateJobObjectW'' h tr), tr)
           else
             let (info, applied) = extended_limits rs;
                 (ok, tr) = invoke h (SetExtendedLimits j info) tr
             in if ok = 0 then (Inl (failed ''SetInformationJobObject(extended)'' h tr), snd (invoke h (CloseHandle j) tr))
                else
                  let (applied, tr) = set_cpu_rate h rs j applied tr
                  in (Inr (Some \<lparr>jh_handle = j, jh_name = name, jh_applied = applied, jh_closed = False\<rparr>), tr))"

definition create_kill_on_close_job ::
  "host_os \<Rightarrow> string option \<Rightarrow> call_trace \<Rightarrow> (string + job_handle option) \<times> call_trace" where
  "create_kill_on_close_job h name tr = create_job h (Some no_resources) name tr"

definition process_already_in_job :: "host_os \<Rightarrow> call_trace \<Rightarrow> bool option \<times> call_trace" where
  "process_already_in_job h tr =
     (if \<not> job_objects_available h then (None, tr)
      else let (ok, tr) = invoke h IsProcessInJob tr
        in if ok = 0 then (None, tr) else (Some (ho_flag h tr \<noteq> 0), tr))"

text \<open>\<open>budget_labels\<close>: what this host enforces, in the order the documents expect.\<close>

fun enforcement_label :: "enforcement \<Rightarrow> string" where
  "enforcement_label Enforced = ''ENFORCED''"
| "enforcement_label Observed = ''OBSERVED''"
| "enforcement_label NotEnforced = ''NOT_ENFORCED''"
| "enforcement_label EnforcedThrottle = ''ENFORCED_THROTTLE''"

definition budget_labels :: "host_os \<Rightarrow> dict" where
  "budget_labels h =
     (let matrix = budget_enforcement_matrix (job_objects_available h)
      in map (\<lambda>k. (k, JStr (enforcement_label (the (map_of matrix k)))))
           [''wall_timeout'', ''stdout_cap'', ''stderr_cap'', ''process_tree_cleanup'', ''workspace_cleanup'', ''scrubbed_env'',
            ''peak_rss'', ''process_count'', ''job_memory'', ''cpu_user_time'', ''cpu_rate'', ''cpu_accounting'', ''workspace_bytes'',
            ''kill_on_job_close''] @
         map (\<lambda>k. (k, JStr ''NOT ENFORCED'')) [''network_deny'', ''cgroup_cpu_quota'', ''cgroup_memory'', ''filesystem_jail''])"

section \<open>The job of one execution\<close>

definition resources_of :: "execution_limits \<Rightarrow> job_resources" where
  "resources_of lm = \<lparr>max_active_processes = max_process_count lm,
     max_job_memory_bytes = map_option (\<lambda>mb. py_int (mb * 1024 * 1024)) (max_job_memory_mb lm),
     job_cpu_seconds = max_cpu_seconds lm, job_cpu_rate_percent = cpu_rate_percent lm\<rparr>"

definition start_job ::
  "host_os \<Rightarrow> execution_limits \<Rightarrow> bool \<Rightarrow> call_trace \<Rightarrow> (job_handle option \<times> string \<times> dict) \<times> call_trace" where
  "start_job h lm use tr =
     (if use \<and> job_objects_available h then
        (case create_job h (Some (resources_of lm)) None tr of
           (Inr None, tr) \<Rightarrow> ((None, ownership_mechanism h, []), tr)
         | (Inr (Some j), tr) \<Rightarrow> ((Some j, ownership_mechanism h, jh_applied j), tr)
         | (Inl e, tr) \<Rightarrow> ((None, ''pid_tracking_only'', [(''create_error'', JStr e)]), tr))
      else ((None, if use then ownership_mechanism h else ''pid_tracking_only'', []), tr))"

definition close_job :: "host_os \<Rightarrow> job_handle option \<Rightarrow> call_trace \<Rightarrow> call_trace" where
  "close_job h job tr = (case job of None \<Rightarrow> tr | Some j \<Rightarrow> snd (job_close h j tr))"

text \<open>The job is new here, so the only error is an \<open>OSError\<close>.\<close>

definition adopt_child ::
  "host_os \<Rightarrow> job_handle option \<Rightarrow> string \<Rightarrow> int \<Rightarrow> call_trace \<Rightarrow> (job_handle option \<times> string \<times> job_error option) \<times> call_trace" where
  "adopt_child h job ownership pid tr =
     (case job of None \<Rightarrow> ((None, ownership, None), tr)
      | Some j \<Rightarrow> (case job_assign h j pid tr of
          (Inr _, tr) \<Rightarrow> ((job, ownership, None), tr)
        | (Inl e, tr) \<Rightarrow> ((None, ''pid_tracking_only'', Some e), snd (job_close h j tr))))"

datatype job_run_end = NotStarted | NoSuchProcess | Finished "nat option"

text \<open>
  The life of the job in \<open>run\<close>: created before the child, closed when the child cannot be started or assigned, and
  queried and closed in the \<open>finally\<close> block. \<open>found\<close> is whether \<open>psutil.Process(proc.pid)\<close> finds the child; the call is
  before the \<open>try\<close>.
\<close>

definition run_job ::
  "host_os \<Rightarrow> execution_limits \<Rightarrow> bool \<Rightarrow> bool \<Rightarrow> int \<Rightarrow> bool \<Rightarrow> call_trace \<Rightarrow> (job_run_end \<times> string \<times> dict) \<times> call_trace" where
  "run_job h lm use popen_error pid found tr =
     (let ((job, ownership, applied), tr) = start_job h lm use tr
      in if popen_error then ((NotStarted, ownership, applied), close_job h job tr)
         else
           let ((job, ownership, e), tr) = adopt_child h job ownership pid tr
           in if \<not> found then ((NoSuchProcess, ownership, applied), tr)
              else case job of None \<Rightarrow> ((Finished None, ownership, applied), tr)
                | Some j \<Rightarrow> (let (peak, tr) = query_peak_job_memory h j tr
                    in ((Finished peak, ownership, applied), close_job h job tr)))"

section \<open>The structures say what was asked for\<close>

lemma limit_flags:
  "LimitFlags (BasicLimitInformation (fst (extended_limits rs))) AND JOB_OBJECT_LIMIT_KILL_ON_JOB_CLOSE \<noteq> 0"
  "(LimitFlags (BasicLimitInformation (fst (extended_limits rs))) AND JOB_OBJECT_LIMIT_ACTIVE_PROCESS \<noteq> 0) =
     positive (max_active_processes rs)"
  "(LimitFlags (BasicLimitInformation (fst (extended_limits rs))) AND JOB_OBJECT_LIMIT_JOB_MEMORY \<noteq> 0) =
     positive (max_job_memory_bytes rs)"
  "(LimitFlags (BasicLimitInformation (fst (extended_limits rs))) AND JOB_OBJECT_LIMIT_JOB_TIME \<noteq> 0) = positive (job_cpu_seconds rs)"
  by (auto simp: extended_limits_def Let_def zero_limits_def job_flags)

lemma limit_fields:
  "ActiveProcessLimit (BasicLimitInformation (fst (extended_limits rs))) =
     (if positive (max_active_processes rs) then word_of_int (the (max_active_processes rs)) else 0)"
  "JobMemoryLimit (fst (extended_limits rs)) =
     (if positive (max_job_memory_bytes rs) then word_of_int (the (max_job_memory_bytes rs)) else 0)"
  "PerJobUserTimeLimit (BasicLimitInformation (fst (extended_limits rs))) =
     (if positive (job_cpu_seconds rs) then word_of_int (py_int (the (job_cpu_seconds rs) * 10000000)) else 0)"
  by (auto simp: extended_limits_def Let_def zero_limits_def)

lemma uint_small: "0 \<le> n \<Longrightarrow> n < 2 ^ LENGTH('a::len) \<Longrightarrow> uint (word_of_int n :: 'a word) = n"
  by (simp add: uint_word_of_int)

lemma sint_small:
  assumes "0 \<le> n" and "n < 2 ^ (LENGTH('a::len) - 1)"
  shows "sint (word_of_int n :: 'a word) = n"
  using assms by (simp add: sint_sbintrunc' signed_take_bit_int_eq_self)

lemma cpu_rate_bounds: "uint (CpuRate (cpu_rate_information (cpu_rate p))) \<in> {100..10000}"
proof -
  have "1 \<le> cpu_rate p" "cpu_rate p \<le> 100" by (simp_all add: cpu_rate_def)
  then have "100 \<le> py_int (cpu_rate p * 100)" "py_int (cpu_rate p * 100) \<le> 10000"
    by (simp_all add: py_int_def le_floor_iff floor_le_iff)
  then show ?thesis by (simp add: cpu_rate_information_def uint_small)
qed

text \<open>
  C37. Each limit is switched on exactly when it was asked for, the job always kills its members when it is closed, and the
  fields hold the requested numbers as long as these fit; the CPU rate is always between one and a hundred percent.
\<close>

theorem job_limits_exact:
  "let info = fst (extended_limits rs); basic = BasicLimitInformation info; flags = LimitFlags basic
   in flags AND JOB_OBJECT_LIMIT_KILL_ON_JOB_CLOSE \<noteq> 0 \<and>
      (flags AND JOB_OBJECT_LIMIT_ACTIVE_PROCESS \<noteq> 0) = positive (max_active_processes rs) \<and>
      (flags AND JOB_OBJECT_LIMIT_JOB_MEMORY \<noteq> 0) = positive (max_job_memory_bytes rs) \<and>
      (flags AND JOB_OBJECT_LIMIT_JOB_TIME \<noteq> 0) = positive (job_cpu_seconds rs) \<and>
      (\<forall>n. max_active_processes rs = Some n \<longrightarrow> 0 < n \<longrightarrow> n < 2 ^ 32 \<longrightarrow> uint (ActiveProcessLimit basic) = n) \<and>
      (\<forall>n. max_job_memory_bytes rs = Some n \<longrightarrow> 0 < n \<longrightarrow> n < 2 ^ 64 \<longrightarrow> uint (JobMemoryLimit info) = n) \<and>
      (\<forall>t. job_cpu_seconds rs = Some t \<longrightarrow> 0 < t \<longrightarrow> t * 10000000 < 2 ^ 63 \<longrightarrow>
         sint (PerJobUserTimeLimit basic) = \<lfloor>t * 10000000\<rfloor>) \<and>
      (\<forall>p. uint (CpuRate (cpu_rate_information (cpu_rate p))) \<in> {100..10000})"
proof -
  have "sint (word_of_int (py_int (t * 10000000)) :: 64 word) = \<lfloor>t * 10000000\<rfloor>" if "0 < t" "t * 10000000 < 2 ^ 63" for t :: real
  proof -
    have "\<lfloor>t * 10000000\<rfloor> < 2 ^ 63" using that(2) by (simp add: floor_less_iff)
    then show ?thesis using that(1) by (subst sint_small) (simp_all add: py_int_def)
  qed
  then show ?thesis
    unfolding Let_def limit_fields limit_flags(2-4)
    using limit_flags(1) [of rs] cpu_rate_bounds by (auto simp: positive_def uint_small)
qed

definition sample_resources :: job_resources where
  "sample_resources = \<lparr>max_active_processes = Some 4, max_job_memory_bytes = Some 67108864, job_cpu_seconds = Some 2,
     job_cpu_rate_percent = Some 250\<rparr>"

theorem job_limits_exact_witness:
  "uint (ActiveProcessLimit (BasicLimitInformation (fst (extended_limits sample_resources)))) = 4 \<and>
   uint (JobMemoryLimit (fst (extended_limits sample_resources))) = 67108864 \<and>
   sint (PerJobUserTimeLimit (BasicLimitInformation (fst (extended_limits sample_resources)))) = 20000000"
  using job_limits_exact [of sample_resources] by (simp add: sample_resources_def Let_def)

section \<open>Every handle is closed\<close>

fun handle_effect :: "win_call \<times> nat \<Rightarrow> handle multiset \<Rightarrow> handle multiset" where
  "handle_effect (CreateJobObjectW n, r) hs = (if r = 0 then hs else add_mset r hs)"
| "handle_effect (OpenProcess p, r) hs = (if r = 0 then hs else add_mset r hs)"
| "handle_effect (CloseHandle j, r) hs = hs - {#j#}"
| "handle_effect _ hs = hs"

definition open_handles :: "call_trace \<Rightarrow> handle multiset" where
  "open_handles tr = fold handle_effect tr {#}"

lemma handles_invoke: "invoke h c tr = (r, tr') \<Longrightarrow> open_handles tr' = handle_effect (c, r) (open_handles tr)"
  by (auto simp: open_handles_def invoke_def)

lemma handles_snd_invoke [simp]: "open_handles (snd (invoke h (CloseHandle j) tr)) = open_handles tr - {#j#}"
  using handles_invoke [of h "CloseHandle j" tr] by (cases "invoke h (CloseHandle j) tr") simp

lemma assign_handles: "job_assign h j pid tr = (r, tr') \<Longrightarrow> open_handles tr' = open_handles tr"
  by (auto simp: job_assign_def dest!: handles_invoke split: prod.splits if_splits)

lemma query_handles: "query_peak_job_memory h j tr = (r, tr') \<Longrightarrow> open_handles tr' = open_handles tr"
  by (auto simp: query_peak_job_memory_def dest!: handles_invoke split: prod.splits if_splits)

lemma cpu_handles: "set_cpu_rate h rs j applied tr = (r, tr') \<Longrightarrow> open_handles tr' = open_handles tr"
  by (auto simp: set_cpu_rate_def Let_def dest!: handles_invoke split: prod.splits if_splits)

lemma close_handles: "\<not> jh_closed j \<Longrightarrow> open_handles (snd (job_close h j tr)) = open_handles tr - {#jh_handle j#}"
  by (simp add: job_close_def)

text \<open>A job is returned open, with its handle; on an error or where there are no jobs nothing is left open.\<close>

lemma create_handles:
  assumes "create_job h resources name tr = (r, tr')"
  shows "(case r of Inr (Some j) \<Rightarrow> \<not> jh_closed j \<and> jh_handle j \<noteq> 0 \<and> open_handles tr' = add_mset (jh_handle j) (open_handles tr)
    | _ \<Rightarrow> open_handles tr' = open_handles tr)"
  using assms
  by (auto simp: create_job_def Let_def dest!: handles_invoke cpu_handles split: prod.splits if_splits)

lemma start_handles:
  assumes "start_job h lm use tr = ((job, ow, applied), tr')"
  shows "(case job of None \<Rightarrow> open_handles tr' = open_handles tr
    | Some j \<Rightarrow> \<not> jh_closed j \<and> open_handles tr' = add_mset (jh_handle j) (open_handles tr))"
  using assms create_handles [of h "Some (resources_of lm)" None tr]
  by (auto simp: start_job_def split: if_splits prod.splits sum.splits option.splits)

lemma adopt_handles:
  assumes "adopt_child h job ow pid tr = ((job', ow', e), tr')"
    and "case job of None \<Rightarrow> open_handles tr = hs | Some j \<Rightarrow> \<not> jh_closed j \<and> open_handles tr = add_mset (jh_handle j) hs"
  shows "case job' of None \<Rightarrow> open_handles tr' = hs | Some j \<Rightarrow> \<not> jh_closed j \<and> open_handles tr' = add_mset (jh_handle j) hs"
  using assms
  by (auto simp: adopt_child_def close_handles dest!: assign_handles split: option.splits prod.splits sum.splits)

text \<open>
  C38. Whatever kernel32 answers, an execution leaves open exactly the handles that were open before it: the job is closed
  when it cannot be set up, when the child cannot be started or assigned, and at the end; the handle of the
  child is closed in each case. The one exception is a child that \<open>psutil\<close> does not find any more: the job then stays open.
\<close>

theorem job_handles_closed:
  assumes "run_job h lm use popen_error pid found tr = ((e, ow, applied), tr')"
  shows "(if e = NoSuchProcess then \<exists>j. open_handles tr' = open_handles tr + j \<and> size j \<le> 1 else open_handles tr' = open_handles tr) \<and>
    (e = NoSuchProcess) = (\<not> popen_error \<and> \<not> found)"
proof -
  obtain job ow0 ap tr1 where s: "start_job h lm use tr = ((job, ow0, ap), tr1)" by (metis prod_cases3 surj_pair)
  obtain job' ow1 e1 tr2 where c: "adopt_child h job ow0 pid tr1 = ((job', ow1, e1), tr2)" by (metis prod_cases3 surj_pair)
  note sh = start_handles [OF s]
  note ch = adopt_handles [OF c sh]
  have extra: "\<exists>j. M = N + j \<and> size j \<le> 1" if "M = N \<or> M = add_mset x N" for M N :: "handle multiset" and x
    using that by (metis add_mset_add_single empty_not_add_mset add.right_neutral le_numeral_extra(4) size_empty size_single zero_le_one)
  show ?thesis
    using assms sh ch extra
    by (auto simp: run_job_def s c close_job_def close_handles dest!: query_handles split: if_splits option.splits prod.splits)
qed

definition sample_host :: host_os where
  "sample_host = \<lparr>ho_nt = True, ho_job_api = True, ho_killpg = False, ho_getpgid = False, ho_kernel32 = (\<lambda>tr c. 7 + length tr),
     ho_last_error = (\<lambda>tr. 0), ho_peak = (\<lambda>tr. 4096), ho_flag = (\<lambda>tr. 0)\<rparr>"

theorem job_handles_closed_witness:
  "open_handles (snd (run_job sample_host default_limits True False 42 True [])) = {#} \<and>
   open_handles (snd (run_job sample_host default_limits True False 42 False [])) = {#7#} \<and>
   fst (fst (run_job sample_host default_limits True True 42 True [])) = NotStarted \<and>
   open_handles (snd (run_job sample_host default_limits True True 42 True [])) = {#}"
proof -
  have "open_handles (snd (run_job sample_host default_limits True False 42 False [])) = {#7#}"
    by (simp add: run_job_def start_job_def adopt_child_def create_job_def job_assign_def job_objects_available_def
        sample_host_def invoke_def set_cpu_rate_def resources_of_def default_limits_def positive_def open_handles_def Let_def
        split: prod.splits)
  moreover have "fst (fst (run_job sample_host default_limits True True 42 True [])) = NotStarted"
    by (simp add: run_job_def split: prod.splits)
  moreover have "open_handles (snd (run_job sample_host default_limits True b 42 True [])) = {#}" for b
    using job_handles_closed [of sample_host default_limits True b 42 True "[]"]
    by (cases "run_job sample_host default_limits True b 42 True []") (auto simp: open_handles_def split: if_splits)
  ultimately show ?thesis by blast
qed

text \<open>Every label is read from the matrix; none is missing there.\<close>

lemma labels_defined: "list_all (\<lambda>(k, v). k \<in> fst ` set (budget_enforcement_matrix b)) (budget_labels h)"
  by (simp add: budget_labels_def budget_enforcement_matrix_def Let_def)

text \<open>Closing is idempotent: a second \<open>close\<close> makes no call.\<close>

lemma close_once: "job_close h (fst (job_close h j tr)) tr' = (fst (job_close h j tr), tr')"
  by (simp add: job_close_def)

end
