(* ===== verification/Process_Tree.thy ===== *)
theory Process_Tree
  imports Execution
begin

text \<open>
  The operating-system side of \<^verbatim>\<open>execution/process_executor.py\<close>: \<open>_terminate_tree\<close> step by step on a table of
  processes, the memory of a tree and the size of a directory. Which signals are effective, what \<open>psutil\<close> can see and what
  it lists are arguments. Shown: what is reported as leaked is exactly what still runs of the listed tree, nothing
  else is touched, and a process whose parent has exited is not in the tree.
\<close>

section \<open>Terminating a tree\<close>

datatype proc_state = PRunning | PZombie | PGone

type_synonym procs = "int \<Rightarrow> proc_state"

text \<open>
  \<open>ka_kill k p\<close>: whether the \<open>k\<close>-th round of kills ends \<open>p\<close>; \<open>ka_reaped p\<close>: whether a dead \<open>p\<close> is reaped at once;
  \<open>ka_visible p\<close>: whether \<open>psutil\<close> can inspect \<open>p\<close> without an error.
\<close>

record kill_answers =
  ka_nt :: bool
  ka_children :: "int list option"
  ka_term :: "int \<Rightarrow> bool"
  ka_taskkill :: "int list"
  ka_kill :: "nat \<Rightarrow> int \<Rightarrow> bool"
  ka_reaped :: "int \<Rightarrow> bool"
  ka_visible :: "int \<Rightarrow> bool"

definition die :: "kill_answers \<Rightarrow> (int \<Rightarrow> bool) \<Rightarrow> int \<Rightarrow> procs \<Rightarrow> procs" where
  "die a hit p tb = (if hit p \<and> tb p = PRunning then tb(p := if ka_reaped a p then PGone else PZombie) else tb)"

fun sweep_leaked :: "kill_answers \<Rightarrow> int list \<Rightarrow> procs \<Rightarrow> int list \<times> procs" where
  "sweep_leaked a [] tb = ([], tb)"
| "sweep_leaked a (p # ps) tb =
     (if tb p = PGone \<or> \<not> ka_visible a p \<or> tb p = PZombie then sweep_leaked a ps tb
      else
        let tb = die a (ka_kill a 3) p tb; (leaked, tb') = sweep_leaked a ps tb
        in (if tb p = PRunning then p # leaked else leaked, tb'))"

definition tree_targets :: "kill_answers \<Rightarrow> int \<Rightarrow> int list" where
  "tree_targets a leader = (case ka_children a of None \<Rightarrow> [] | Some cs \<Rightarrow> cs) @ [leader]"

definition terminate_processes :: "kill_answers \<Rightarrow> int \<Rightarrow> procs \<Rightarrow> int list \<times> procs" where
  "terminate_processes a leader tb =
     (let targets = tree_targets a leader;
          tb = fold (die a (ka_term a)) targets tb;
          tb = (if ka_nt a then fold (die a (\<lambda>p. True)) (ka_taskkill a) tb else tb);
          alive = filter (\<lambda>p. tb p \<noteq> PGone) targets;
          tb = fold (die a (ka_kill a 1)) alive tb;
          tb = (if tb leader = PZombie then tb(leader := PGone) else die a (ka_kill a 2) leader tb)
      in sweep_leaked a targets tb)"

lemma die_other [simp]: "q \<noteq> p \<Longrightarrow> die a hit p tb q = tb q"
  by (simp add: die_def)

lemma fold_die_other: "q \<notin> set ps \<Longrightarrow> fold (die a hit) ps tb q = tb q"
  by (induction ps arbitrary: tb) auto

lemma sweep_Cons:
  "sweep_leaked a (p # ps) tb =
     (if tb p \<noteq> PRunning \<or> \<not> ka_visible a p then sweep_leaked a ps tb
      else let t = die a (ka_kill a 3) p tb; r = sweep_leaked a ps t in (if t p = PRunning then p # fst r else fst r, snd r))"
  by (cases "tb p") (auto simp: Let_def split: prod.split)

lemma sweep_other: "q \<notin> set ps \<Longrightarrow> snd (sweep_leaked a ps tb) q = tb q"
  by (induction ps arbitrary: tb) (auto simp: sweep_Cons Let_def simp del: sweep_leaked.simps(2))

lemma sweep_sub: "set (fst (sweep_leaked a ps tb)) \<subseteq> set ps"
proof (induction ps arbitrary: tb)
  case (Cons p ps)
  show ?case
    using Cons.IH [of tb] Cons.IH [of "die a (ka_kill a 3) p tb"]
    by (auto simp: sweep_Cons Let_def simp del: sweep_leaked.simps(2))
qed simp

lemma sweep_spec:
  "distinct ps \<Longrightarrow> fst (sweep_leaked a ps tb) = filter (\<lambda>p. ka_visible a p \<and> snd (sweep_leaked a ps tb) p = PRunning) ps"
proof (induction ps arbitrary: tb)
  case (Cons p ps)
  have p: "snd (sweep_leaked a ps x) p = x p" for x using Cons.prems by (simp add: sweep_other)
  show ?case
    using Cons p by (auto simp: sweep_Cons Let_def simp del: sweep_leaked.simps(2))
qed simp

text \<open>
  The reported leak is exact: of the listed tree, the processes that can be inspected and still run are the ones that
  are reported, in order, and no process outside of the tree is touched (on Windows, \<open>taskkill\<close> apart).
\<close>

theorem leaked_exact:
  assumes "terminate_processes a leader tb = (leaked, tb')" and "distinct (tree_targets a leader)"
  shows "leaked = filter (\<lambda>p. ka_visible a p \<and> tb' p = PRunning) (tree_targets a leader) \<and>
    (\<forall>q. q \<notin> set (tree_targets a leader) \<longrightarrow> (ka_nt a \<longrightarrow> q \<notin> set (ka_taskkill a)) \<longrightarrow> tb' q = tb q \<and> q \<notin> set leaked)"
proof -
  let ?ts = "tree_targets a leader"
  have leader: "leader \<in> set ?ts" by (simp add: tree_targets_def)
  obtain tb1 where tb1: "sweep_leaked a ?ts tb1 = (leaked, tb')"
      "\<And>q. q \<notin> set ?ts \<Longrightarrow> (ka_nt a \<longrightarrow> q \<notin> set (ka_taskkill a)) \<Longrightarrow> tb1 q = tb q"
  proof -
    let ?t1 = "fold (die a (ka_term a)) ?ts tb"
    let ?t2 = "if ka_nt a then fold (die a (\<lambda>p. True)) (ka_taskkill a) ?t1 else ?t1"
    let ?t3 = "fold (die a (ka_kill a 1)) (filter (\<lambda>p. ?t2 p \<noteq> PGone) ?ts) ?t2"
    let ?t4 = "if ?t3 leader = PZombie then ?t3(leader := PGone) else die a (ka_kill a 2) leader ?t3"
    have "?t4 q = tb q" if "q \<notin> set ?ts" "ka_nt a \<longrightarrow> q \<notin> set (ka_taskkill a)" for q
    proof -
      have "q \<noteq> leader" using that(1) leader by blast
      then have "?t4 q = ?t3 q" by simp
      also have "\<dots> = ?t2 q" using that(1) by (intro fold_die_other) simp
      also have "\<dots> = ?t1 q" using that(2) by (simp add: fold_die_other)
      also have "\<dots> = tb q" using that(1) by (rule fold_die_other)
      finally show ?thesis .
    qed
    moreover have "sweep_leaked a ?ts ?t4 = (leaked, tb')" using assms(1) unfolding terminate_processes_def Let_def .
    ultimately show thesis using that by blast
  qed
  have "tb' q = tb1 q" if "q \<notin> set ?ts" for q using sweep_other [OF that, of a tb1] tb1(1) by simp
  moreover have "set leaked \<subseteq> set ?ts" using sweep_sub [of a ?ts tb1] tb1(1) by simp
  ultimately show ?thesis using sweep_spec [OF assms(2), of a tb1] tb1 by auto
qed

definition stubborn :: kill_answers where
  "stubborn = \<lparr>ka_nt = False, ka_children = Some [11, 12], ka_term = (\<lambda>p. p = 10), ka_taskkill = [], ka_kill = (\<lambda>k p. p = 11),
     ka_reaped = (\<lambda>p. p \<noteq> 10), ka_visible = (\<lambda>p. True)\<rparr>"

theorem leaked_exact_witness:
  "fst (terminate_processes stubborn 10 (\<lambda>p. PRunning)) = [12] \<and>
   snd (terminate_processes stubborn 10 (\<lambda>p. PRunning)) 13 = PRunning"
proof -
  have "fst (terminate_processes stubborn 10 (\<lambda>p. PRunning)) = [12]"
    by (simp add: terminate_processes_def tree_targets_def stubborn_def die_def)
  then show ?thesis
    using leaked_exact [of stubborn 10 "\<lambda>p. PRunning"]
    by (cases "terminate_processes stubborn 10 (\<lambda>p. PRunning)") (simp add: tree_targets_def stubborn_def)
qed

text \<open>The summary of the tree that \<open>executor_run\<close> works with.\<close>

lemma terminate_tree_summary:
  assumes "terminate_processes a (xw_pid w) tb = (leaked, tb')" and "distinct (tree_targets a (xw_pid w))"
    and "xw_tree w = (case ka_children a of None \<Rightarrow> [] | Some cs \<Rightarrow> cs)"
    and "xw_alive_at_end w = (\<lambda>p. ka_visible a p \<and> tb' p = PRunning)"
  shows "terminate_tree w = leaked"
  using leaked_exact [OF assms(1,2)] assms(3,4) by (simp add: terminate_tree_def tree_targets_def)

section \<open>Orphans\<close>

text \<open>
  Who started whom. When a process exits its children are handed to process 1, and \<open>psutil\<close> lists the
  descendants of a process.
\<close>

definition hand_over :: "int \<Rightarrow> (int \<times> int) set \<Rightarrow> (int \<times> int) set" where
  "hand_over p parents = (\<lambda>(x, q). (if x = p then 1 else x, q)) ` parents"

lemma no_descendants:
  assumes "p \<noteq> 1"
  shows "(p, q) \<notin> (hand_over p parents)\<^sup>+"
proof
  assume "(p, q) \<in> (hand_over p parents)\<^sup>+"
  then obtain r where "(p, r) \<in> hand_over p parents" by (meson tranclD)
  then show False using assms by (auto simp: hand_over_def split: if_splits)
qed

text \<open>
  C39. A child that outlives the workload is neither signalled nor reported outside of Windows: once the workload has exited, the
  child is not its descendant any more, so the tree that is terminated is the workload alone and no leak is found. The
  process group in which both run is never used.
\<close>

theorem orphan_survives:
  assumes "\<not> ka_nt a" and "leader \<noteq> 1" and "\<And>cs. ka_children a = Some cs \<Longrightarrow> set cs \<subseteq> {q. (leader, q) \<in> (hand_over leader parents)\<^sup>+}"
    and "tb leader \<noteq> PRunning" and "q \<noteq> leader" and "tb q = PRunning"
    and "terminate_processes a leader tb = (leaked, tb')"
  shows "tb' q = PRunning \<and> leaked = []"
proof -
  have "cs = []" if "ka_children a = Some cs" for cs using assms(3) [OF that] no_descendants [OF assms(2)] by (cases cs) auto
  then have ts: "tree_targets a leader = [leader]" by (auto simp: tree_targets_def split: option.splits)
  note l = leaked_exact [OF assms(7), unfolded ts, simplified]
  have "tb' leader \<noteq> PRunning"
    using assms(1,4,7) by (auto simp: terminate_processes_def ts die_def Let_def split: if_splits)
  then show ?thesis using l assms(1,5,6) by auto
qed

definition forked :: kill_answers where
  "forked = \<lparr>ka_nt = False, ka_children = Some [], ka_term = (\<lambda>p. True), ka_taskkill = [], ka_kill = (\<lambda>k p. True),
     ka_reaped = (\<lambda>p. p \<noteq> 10), ka_visible = (\<lambda>p. True)\<rparr>"

theorem orphan_survives_witness:
  "snd (terminate_processes forked 10 (\<lambda>p. if p = 10 then PZombie else PRunning)) 11 = PRunning \<and>
   fst (terminate_processes forked 10 (\<lambda>p. if p = 10 then PZombie else PRunning)) = []"
  using orphan_survives [of forked 10 "{(10, 11)}" "\<lambda>p. if p = 10 then PZombie else PRunning" 11]
  by (cases "terminate_processes forked 10 (\<lambda>p. if p = 10 then PZombie else PRunning)") (simp add: forked_def)

section \<open>Measurements\<close>

text \<open>A directory as \<open>os.walk\<close> reads it: files with their size unless \<open>stat\<close> fails, and directories that may be unreadable.\<close>

datatype dir_entry = FileEntry "nat option" | DirEntry bool "dir_entry list"

fun dir_size_bytes :: "dir_entry \<Rightarrow> nat" where
  "dir_size_bytes (FileEntry s) = (case s of None \<Rightarrow> 0 | Some n \<Rightarrow> n)"
| "dir_size_bytes (DirEntry readable es) = (if readable then sum_list (map dir_size_bytes es) else 0)"

text \<open>The resident bytes of the workload and of its descendants; \<open>None\<close> where \<open>psutil\<close> raises.\<close>

definition tree_rss_mb :: "nat option \<Rightarrow> nat option list option \<Rightarrow> real option" where
  "tree_rss_mb own children = (case (own, children) of
     (Some n, Some cs) \<Rightarrow> Some (real (n + sum_list (map (\<lambda>c. case c of None \<Rightarrow> 0 | Some m \<Rightarrow> m) cs)) / (1024 * 1024))
   | _ \<Rightarrow> None)"

lemma tree_rss_counts_all:
  "tree_rss_mb (Some n) (Some cs) = Some r \<Longrightarrow> real n / (1024 * 1024) \<le> r"
  by (auto simp: tree_rss_mb_def divide_right_mono)

end
