(* ===== verification/Workloads.thy ===== *)
theory Workloads
  imports Process_Tree
begin

text \<open>
  The programs of \<^verbatim>\<open>execution/workloads.py\<close>: what each writes, leaves in its workspace and exits with, as a function of what
  the host lets it do. Composed with the executor, every workload of the trusted corpus ends in the outcome the
  corpus promises for it.
\<close>

section \<open>Programs\<close>

text \<open>
  A run: the text on both streams, the files in the workspace with their sizes, and the exit code, \<open>None\<close> for a
  program that does not end.
\<close>

record program_run =
  pg_stdout :: string
  pg_stderr :: string
  pg_files :: "(string \<times> nat) list"
  pg_exit :: "int option"

datatype loopback = Connected | Refused | LoopbackError string

text \<open>
  What the host answers: allocations, starts of children (an error has its \<open>winerror\<close> and text), writes of files, the pid of the
  program, the probes, and the report of the interpreter on an exception that is not caught.
\<close>

record workload_env =
  we_environ :: "(string \<times> string) list"
  we_pid :: nat
  we_cwd :: string
  we_no_memory :: "nat \<Rightarrow> bool"
  we_spawn :: "nat \<Rightarrow> (int option \<times> string) + nat"
  we_child :: bool
  we_write_fails :: "nat \<Rightarrow> bool"
  we_forbidden :: "string + nat"
  we_parent :: "string + nat"
  we_loopback :: loopback
  we_dns :: "string option"
  we_import :: "string option"
  we_traceback :: string

definition println :: "string \<Rightarrow> string" where
  "println s = s @ [CHR 0x0A]"

definition exits :: "string \<Rightarrow> int \<Rightarrow> program_run" where
  "exits out code = \<lparr>pg_stdout = out, pg_stderr = [], pg_files = [], pg_exit = Some code\<rparr>"

definition crashes_with :: "workload_env \<Rightarrow> string \<Rightarrow> program_run" where
  "crashes_with we out = \<lparr>pg_stdout = out, pg_stderr = we_traceback we, pg_files = [], pg_exit = Some 1\<rparr>"

text \<open>\<open>int(text)\<close>: digits with single underscores between them, a sign and surrounding blanks.\<close>

fun digits_value :: "string \<Rightarrow> bool \<Rightarrow> int \<Rightarrow> int option" where
  "digits_value [] digit acc = (if digit then Some acc else None)"
| "digits_value (c # cs) digit acc =
     (if (of_char c :: nat) \<in> {48..57} then digits_value cs True (10 * acc + int (of_char c - 48))
      else if c = CHR ''_'' \<and> digit then digits_value cs False acc else None)"

definition parse_int :: "string \<Rightarrow> int option" where
  "parse_int s = (case strip s of
       CHR ''-'' # ds \<Rightarrow> map_option uminus (digits_value ds False 0)
     | CHR ''+'' # ds \<Rightarrow> digits_value ds False 0
     | ds \<Rightarrow> digits_value ds False 0)"

definition environ_get :: "workload_env \<Rightarrow> string \<Rightarrow> string \<Rightarrow> string" where
  "environ_get we k d = (case map_of (we_environ we) k of None \<Rightarrow> d | Some v \<Rightarrow> v)"

definition wl_light :: "program_run" where
  "wl_light = exits (println (''light_ok checksum='' @ dec_nat (fold (\<lambda>i x. xor x (i * i)) [0..<50000] 0))) 0"

definition cpu_checksum :: "nat \<Rightarrow> nat" where
  "cpu_checksum n = fold (\<lambda>i x. and (x + i * i) 0xFFFFFFFF) [0..<n] 0"

definition wl_cpu_heavy :: "program_run" where
  "wl_cpu_heavy = exits (println (''cpu_heavy_ok checksum='' @ dec_nat (cpu_checksum 3000000))) 0"

definition touch_pages :: "nat \<Rightarrow> nat \<Rightarrow> nat list \<Rightarrow> nat list" where
  "touch_pages n bytes buf = fold (\<lambda>k b. b[4096 * k := and (n + 4096 * k) 0xFF]) [0..<bytes div 4096] buf"

definition wl_memory_heavy :: "workload_env \<Rightarrow> program_run" where
  "wl_memory_heavy we =
     (if we_no_memory we 0 then crashes_with we []
      else let bytes = 32 * 1024 * 1024; buf = touch_pages 0 bytes (replicate bytes 0)
        in exits (println (''memory_heavy_ok bytes='' @ dec_nat (length buf))) 0)"

text \<open>One step of 4 MiB after the other; the buffers themselves are only counted.\<close>

fun grow :: "workload_env \<Rightarrow> nat list \<Rightarrow> nat \<Rightarrow> string \<times> nat option" where
  "grow we [] chunks = ([], Some chunks)"
| "grow we (n # ns) chunks =
     (if we_no_memory we n then ([], None)
      else let (out, r) = grow we ns (chunks + 1)
        in (println (''memory_grow step='' @ dec_nat n @ '' total_mb='' @ dec_nat ((n + 1) * 4)) @ out, r))"

definition wl_memory_grow :: "workload_env \<Rightarrow> program_run" where
  "wl_memory_grow we = (case grow we [0..<64] 0 of
       (out, None) \<Rightarrow> exits (out @ println ''cf_memory_limit'') 76
     | (out, Some chunks) \<Rightarrow> exits (out @ println (''memory_grow_done chunks='' @ dec_nat chunks)) 0)"

definition wl_sleep :: "program_run" where
  "wl_sleep = exits (println ''sleep_ok'') 0"

definition wl_large_output :: "program_run" where
  "wl_large_output = exits (concat (replicate 10000 (replicate 1024 CHR ''x''))) 0"

definition wl_child_process :: "workload_env \<Rightarrow> program_run" where
  "wl_child_process we = (if we_child we then exits (println (''child_spawned parent='' @ dec_nat (we_pid we))) 0
     else crashes_with we [])"

fun spawn_children :: "workload_env \<Rightarrow> nat list \<Rightarrow> nat \<Rightarrow> string \<times> int" where
  "spawn_children we [] spawned = (println (''process_heavy_ok spawned='' @ dec_nat spawned), 0)"
| "spawn_children we (i # rest) spawned = (case we_spawn we i of
       Inr pid \<Rightarrow> (let (out, code) = spawn_children we rest (spawned + 1)
          in (println (''spawned '' @ dec_nat i @ '' pid='' @ dec_nat pid) @ out, code))
     | Inl (win, err) \<Rightarrow> (println (''cf_process_limit spawned='' @ dec_nat spawned @ '' winerror='' @
           (case win of None \<Rightarrow> ''None'' | Some e \<Rightarrow> dec_int e) @ '' err='' @ err), 75))"

definition wl_process_heavy :: "workload_env \<Rightarrow> program_run" where
  "wl_process_heavy we = (case parse_int (environ_get we ''CF_PROCESS_HEAVY_N'' ''20'') of
       None \<Rightarrow> crashes_with we []
     | Some target \<Rightarrow> (let (out, code) = spawn_children we [0..<nat target] 0 in exits out code))"

definition wl_timeout :: "program_run" where
  "wl_timeout = \<lparr>pg_stdout = [], pg_stderr = [], pg_files = [], pg_exit = None\<rparr>"

fun write_many :: "workload_env \<Rightarrow> nat list \<Rightarrow> (string \<times> nat) list \<times> bool" where
  "write_many we [] = ([], True)"
| "write_many we (i # rest) = (if we_write_fails we i then ([], False)
     else let (fs, ok) = write_many we rest in ((''f'' @ dec_nat i @ ''.txt'', 64) # fs, ok))"

definition wl_many_files :: "workload_env \<Rightarrow> program_run" where
  "wl_many_files we =
     (let d = environ_get we ''CF_WORKSPACE'' ''.'' @ ''/many''; (fs, ok) = write_many we [0..<50]
      in (if ok then exits (println (''many_files_ok n=50 dir='' @ d)) 0 else crashes_with we [])\<lparr>pg_files := fs\<rparr>)"

lemma chunks_written: "fold (\<lambda>k w. w + (65536::int)) [0..<16] w = w + 1048576"
  by (simp add: upt_conv_Cons)

text \<open>One file of sixteen chunks of 64 KiB after the other.\<close>

function disk_loop :: "workload_env \<Rightarrow> int \<Rightarrow> int \<Rightarrow> nat \<Rightarrow> string \<times> (string \<times> nat) list \<times> int option" where
  "disk_loop we target written n =
     (if written < target then
        (if we_write_fails we n then ([], [], None)
         else
           let written = fold (\<lambda>k w. w + 65536) [0..<16] written;
               (out, fs, r) = disk_loop we target written (n + 1)
           in (println (''disk_heavy written_mb='' @ dec_int (written div (1024 * 1024)) @ '' files='' @ dec_nat (n + 1)) @ out,
               (''blob_'' @ dec_nat n @ ''.bin'', 16 * 65536) # fs, r))
      else ([], [], Some written))"
  by pat_completeness auto

termination
  by (relation "measure (\<lambda>(we, target, written, n). nat (target - written))") (auto simp: chunks_written)

declare disk_loop.simps [simp del]

definition wl_disk_heavy :: "workload_env \<Rightarrow> program_run" where
  "wl_disk_heavy we = (case parse_int (environ_get we ''CF_DISK_HEAVY_MB'' ''8'') of
       None \<Rightarrow> crashes_with we []
     | Some target_mb \<Rightarrow>
         (case disk_loop we (target_mb * 1024 * 1024) 0 0 of
            (out, fs, Some written) \<Rightarrow> (exits (out @ println (''disk_heavy_ok bytes='' @ dec_int written)) 0)\<lparr>pg_files := fs\<rparr>
          | (out, fs, None) \<Rightarrow> (crashes_with we out)\<lparr>pg_files := fs\<rparr>))"

definition wl_failure :: "program_run" where
  "wl_failure = \<lparr>pg_stdout = [], pg_stderr = println ''failure_expected'', pg_files = [], pg_exit = Some 7\<rparr>"

section \<open>The boundary probe and the entry point\<close>

definition environ_set :: "workload_env \<Rightarrow> string \<Rightarrow> bool" where
  "environ_set we k = (environ_get we k [] \<noteq> [])"

definition has_key :: "workload_env \<Rightarrow> string \<Rightarrow> bool" where
  "has_key we k = (map_of (we_environ we) k \<noteq> None)"

definition probe_report :: "workload_env \<Rightarrow> dict" where
  "probe_report we =
     (let forbidden = environ_set we ''CF_FORBIDDEN_PROBE'';
          (readable, failure, len) = (if \<not> forbidden then (False, JNull, [])
             else case we_forbidden we of
               Inr n \<Rightarrow> (True, JNull, [(''forbidden_len'', JInt (int n))]) | Inl e \<Rightarrow> (False, JStr e, []));
          parent = (case we_parent we of
             Inr n \<Rightarrow> [(''parent_listable'', JBool True), (''parent_entry_count'', JInt (int n))]
           | Inl e \<Rightarrow> [(''parent_listable'', JBool False), (''parent_list_error'', JStr e)]);
          (stack, loop) = (case we_loopback we of
             Connected \<Rightarrow> (True, [(''loopback_connected'', JBool True)])
           | Refused \<Rightarrow> (True, [(''loopback_connected'', JBool False)])
           | LoopbackError e \<Rightarrow> (False, [(''loopback_error'', JStr e)]));
          dns = (we_dns we = None)
      in [(''cwd'', JStr (we_cwd we)), (''pid'', JInt (int (we_pid we))), (''env_key_count'', JInt (int (length (we_environ we)))),
          (''has_database_url'', JBool (has_key we ''DATABASE_URL'')),
          (''has_aws_secret'', JBool (has_key we ''AWS_SECRET_ACCESS_KEY'')),
          (''has_pythonpath'', JBool (has_key we ''PYTHONPATH'')), (''pythonpath_set'', JBool (environ_set we ''PYTHONPATH'')),
          (''workspace'', case map_of (we_environ we) ''CF_WORKSPACE'' of None \<Rightarrow> JNull | Some v \<Rightarrow> JStr v),
          (''attempt_id_set'', JBool (environ_set we ''CF_EXECUTION_ATTEMPT_ID'')),
          (''forbidden_probe_configured'', JBool forbidden), (''forbidden_readable'', JBool readable),
          (''forbidden_error'', failure)] @ len @ parent @
         [(''loopback_socket_attempted'', JBool True), (''loopback_reachable_stack'', JBool stack)] @ loop @
         [(''dns_resolve_attempted'', JBool True), (''dns_resolved'', JBool dns)] @
         (case we_dns we of None \<Rightarrow> [] | Some e \<Rightarrow> [(''dns_error'', JStr e)]) @
         [(''network_stack_usable'', JBool (stack \<or> dns)),
          (''can_import_challengeforge'', JBool (we_import we = None))] @
         (case we_import we of None \<Rightarrow> [] | Some e \<Rightarrow> [(''import_error'', JStr e)]))"

text \<open>\<open>json.dumps\<close> of a flat report, with its default separators and the order of insertion.\<close>

definition dumps_flat :: "dict \<Rightarrow> string" where
  "dumps_flat d = ''{'' @ join '', '' (map (\<lambda>(k, v). json_string True k @ '': '' @ json_dumps (\<lambda>r. []) True False v) d) @ ''}''"

definition wl_boundary_probe :: "workload_env \<Rightarrow> program_run" where
  "wl_boundary_probe we = exits (println (''cf_boundary_probe '' @ dumps_flat (probe_report we))) 0"

definition HANDLERS :: "(string \<times> (workload_env \<Rightarrow> program_run)) list" where
  "HANDLERS = [(''LIGHT'', \<lambda>we. wl_light), (''CPU_HEAVY'', \<lambda>we. wl_cpu_heavy), (''MEMORY_HEAVY'', wl_memory_heavy),
     (''MEMORY_GROW'', wl_memory_grow), (''SLEEP'', \<lambda>we. wl_sleep), (''LARGE_OUTPUT'', \<lambda>we. wl_large_output),
     (''CHILD_PROCESS'', wl_child_process), (''PROCESS_HEAVY'', wl_process_heavy), (''TIMEOUT'', \<lambda>we. wl_timeout),
     (''MANY_FILES'', wl_many_files), (''DISK_HEAVY'', wl_disk_heavy), (''FAILURE'', \<lambda>we. wl_failure),
     (''BOUNDARY_PROBE'', wl_boundary_probe)]"

definition workload_main :: "workload_env \<Rightarrow> string list \<Rightarrow> program_run" where
  "workload_main we args = (case args of
       a # as \<Rightarrow> (case map_of HANDLERS a of Some h \<Rightarrow> h we
         | None \<Rightarrow> \<lparr>pg_stdout = [], pg_stderr = println (''usage: workloads NAME; known='' @ join '','' WORKLOAD_NAMES),
             pg_files = [], pg_exit = Some 2\<rparr>)
     | [] \<Rightarrow> \<lparr>pg_stdout = [], pg_stderr = println (''usage: workloads NAME; known='' @ join '','' WORKLOAD_NAMES),
             pg_files = [], pg_exit = Some 2\<rparr>)"

section \<open>Single programs\<close>

text \<open>The checksum is the sum of squares in 32-bit arithmetic.\<close>

lemma cpu_checksum_sum: "cpu_checksum n = (\<Sum>i<n. i * i) mod 2 ^ 32"
proof (induction n)
  case (Suc n)
  have "cpu_checksum (Suc n) = and (cpu_checksum n + n * n) (mask 32)"
    by (simp add: cpu_checksum_def mask_eq_exp_minus_1)
  also have "\<dots> = (cpu_checksum n + n * n) mod 2 ^ 32" by (metis take_bit_eq_mask take_bit_eq_mod)
  finally show ?case by (simp add: Suc mod_simps)
qed (simp add: cpu_checksum_def)

lemma sum_of_squares: "6 * (\<Sum>i<n. i * i) = n * (n - 1) * (2 * n - 1)" for n :: nat
proof (induction n)
  case (Suc n)
  then show ?case by (cases n) (simp_all add: algebra_simps)
qed simp

text \<open>
  The line that CPU_HEAVY prints is known without running its three million rounds: the sum of the squares below
  3000000, modulo \<open>2 ^ 32\<close>.
\<close>

theorem cpu_heavy_checksum: "pg_stdout wl_cpu_heavy = println ''cpu_heavy_ok checksum=631560480''"
proof -
  have "6 * (\<Sum>i<3000000::nat. i * i) = 3000000 * (3000000 - 1) * (2 * 3000000 - 1)" by (rule sum_of_squares)
  then have "(\<Sum>i<3000000::nat. i * i) = 8999995500000500000" by simp
  then have "cpu_checksum 3000000 = 8999995500000500000 mod 2 ^ 32" by (simp only: cpu_checksum_sum)
  then show ?thesis by (simp add: wl_cpu_heavy_def exits_def dec_nat.simps hex_digit_def)
qed

text \<open>DISK_HEAVY writes whole files of one MiB until it has its target: with enough space exactly that many.\<close>

lemma disk_loop_writes:
  assumes "\<And>n. \<not> we_write_fails we n" and "written = 1048576 * int n" and "target = 1048576 * int m" and "n \<le> m"
  shows "\<exists>out fs. disk_loop we target written n = (out, fs, Some target) \<and> map snd fs = replicate (m - n) 1048576"
  using assms
proof (induction "m - n" arbitrary: written n)
  case 0
  then show ?case by (subst disk_loop.simps) simp
next
  case (Suc k)
  then have "written < target" "written + 1048576 = 1048576 * int (n + 1)" by auto
  moreover have "k = m - (n + 1)" "n + 1 \<le> m" using Suc.hyps(2) by auto
  moreover from Suc.hyps(1) [OF this(1) Suc.prems(1) calculation(2) Suc.prems(3) this(2)]
  obtain out fs where "disk_loop we target (written + 1048576) (n + 1) = (out, fs, Some target)"
      "map snd fs = replicate (m - (n + 1)) 1048576" by blast
  moreover have "m - n = Suc (m - (n + 1))" using Suc.hyps(2) by simp
  ultimately show ?case
    using Suc.prems(1) by (subst disk_loop.simps) (simp add: chunks_written)
qed

section \<open>Texts without a marker\<close>

definition limit_markers :: "string list" where
  "limit_markers = [''cf_process_limit'', ''cf_memory_limit'', ''cf_workspace_limit'']"

definition quiet_text :: "string \<Rightarrow> bool" where
  "quiet_text t = (length t \<le> 262144 \<and> list_all (\<lambda>m. \<not> contains m t) limit_markers)"

lemma contains_chars: "contains p t \<Longrightarrow> set p \<subseteq> set t"
proof (induction t)
  case (Cons x t)
  have "set p \<subseteq> set (x # t)" if "starts_with p (x # t)"
    using that unfolding starts_with_def by (metis set_take_subset)
  then show ?case using Cons by auto
qed simp

text \<open>Digits and lines.\<close>

lemma dec_nat_chars: "set (dec_nat n) \<subseteq> set ''0123456789''"
proof (induction n rule: dec_nat.induct)
  case (1 n)
  have "hex_digit k \<in> set ''0123456789''" if "k < 10" for k
  proof -
    have "k \<in> {0, 1, 2, 3, 4, 5, 6, 7, 8, 9}" using that by auto
    then show ?thesis by (auto simp: hex_digit_def)
  qed
  then have h: "set [hex_digit k] \<subseteq> set ''0123456789''" if "k < 10" for k using that by (metis empty_set insert_subset list.simps(15) empty_subsetI)
  show ?case
  proof (cases "n < 10")
    case True
    then show ?thesis using h [OF True] by (subst dec_nat.simps) (simp only: if_True)
  next
    case False
    then have "dec_nat n = dec_nat (n div 10) @ [hex_digit (n mod 10)]" by (subst dec_nat.simps) simp
    moreover have "set (dec_nat (n div 10)) \<subseteq> set ''0123456789''" using 1 False by blast
    moreover have "set [hex_digit (n mod 10)] \<subseteq> set ''0123456789''" by (rule h) simp
    ultimately show ?thesis by (metis Un_least set_append)
  qed
qed

lemma dec_nat_length: "0 < k \<Longrightarrow> n < 10 ^ k \<Longrightarrow> length (dec_nat n) \<le> k"
proof (induction k arbitrary: n)
  case (Suc k)
  then show ?case
    by (cases "n < 10"; cases k) (auto simp: dec_nat.simps [of n] less_mult_imp_div_less mult.commute)
qed simp

text \<open>A short text without the letter \<open>c\<close> or without the letter \<open>f\<close> has no marker.\<close>

definition plain_text :: "char \<Rightarrow> nat \<Rightarrow> string \<Rightarrow> bool" where
  "plain_text x k t = (length t \<le> k \<and> x \<notin> set t)"

lemma plain_quiet:
  assumes "plain_text x k t" and "x \<in> {CHR ''c'', CHR ''f''}" and "k \<le> 262144"
  shows "quiet_text t"
proof -
  have "\<not> contains m t" if "m \<in> set limit_markers" for m
    using contains_chars [of m t] that assms(1,2) by (auto simp: plain_text_def limit_markers_def)
  then show ?thesis using assms(1,3) by (simp add: plain_text_def quiet_text_def list_all_iff)
qed

lemma plain_append: "plain_text x j s \<Longrightarrow> plain_text x k t \<Longrightarrow> plain_text x (j + k) (s @ t)"
  by (simp add: plain_text_def)

lemma plain_println: "plain_text x k t \<Longrightarrow> x \<noteq> CHR 0x0A \<Longrightarrow> plain_text x (k + 1) (println t)"
  by (simp add: plain_text_def println_def)

lemma plain_dec: "0 < k \<Longrightarrow> n < 10 ^ k \<Longrightarrow> x \<notin> set ''0123456789'' \<Longrightarrow> plain_text x k (dec_nat n)"
  using dec_nat_length dec_nat_chars [of n] by (auto simp: plain_text_def)

lemma plain_mono: "plain_text x j t \<Longrightarrow> j \<le> k \<Longrightarrow> plain_text x k t"
  by (simp add: plain_text_def)

text \<open>A word, a number of at most \<open>k\<close> digits, end of line.\<close>

lemma plain_line:
  assumes "x \<notin> set w" and "0 < k" and "n < 10 ^ k" and "x \<in> {CHR ''c'', CHR ''f''}"
  shows "plain_text x (length w + k + 1) (println (w @ dec_nat n))"
proof -
  have x: "x \<notin> set ''0123456789''" "x \<noteq> CHR 0x0A" using assms(4) by auto
  have "plain_text x (length w) w" using assms(1) by (simp add: plain_text_def)
  from plain_println [OF plain_append [OF this plain_dec [OF assms(2,3) x(1)]] x(2)] show ?thesis .
qed

lemma xor_bound: "a < 2 ^ n \<Longrightarrow> b < 2 ^ n \<Longrightarrow> xor a b < (2 ^ n :: nat)"
  by (metis take_bit_nat_eq_self_iff take_bit_xor)

lemma light_checksum_bound: "list_all (\<lambda>i. i * i < 2 ^ 32) ns \<Longrightarrow> x < 2 ^ 32 \<Longrightarrow> fold (\<lambda>i x. xor x (i * i)) ns x < (2 ^ 32 :: nat)"
proof (induction ns arbitrary: x)
  case (Cons n ns)
  then have "xor x (n * n) < 2 ^ 32" by (intro xor_bound) simp_all
  then show ?case using Cons by simp
qed simp

lemma light_run: "pg_exit wl_light = Some 0 \<and> pg_stderr wl_light = [] \<and> quiet_text (pg_stdout wl_light)"
proof -
  have "i * i < 2 ^ 32" if "i < 50000" for i :: nat using mult_strict_mono [OF that that] by simp
  then have "fold (\<lambda>i x. xor x (i * i)) [0..<50000] 0 < (2 ^ 32 :: nat)" by (intro light_checksum_bound) (auto simp: list_all_iff)
  then have "plain_text (CHR ''f'') (18 + 10 + 1) (pg_stdout wl_light)"
    using plain_line [of "CHR ''f''" "''light_ok checksum=''" 10 "fold (\<lambda>i x. xor x (i * i)) [0..<50000] 0"]
    by (simp add: wl_light_def exits_def plain_text_def)
  then show ?thesis using plain_quiet by (auto simp: wl_light_def exits_def)
qed

lemma cpu_heavy_run: "pg_exit wl_cpu_heavy = Some 0 \<and> pg_stderr wl_cpu_heavy = [] \<and> quiet_text (pg_stdout wl_cpu_heavy)"
proof -
  have "cpu_checksum 3000000 < 10 ^ 10" by (simp add: cpu_checksum_sum order.strict_trans [OF mod_less_divisor])
  then have "plain_text (CHR ''f'') (22 + 10 + 1) (pg_stdout wl_cpu_heavy)"
    using plain_line [of "CHR ''f''" "''cpu_heavy_ok checksum=''" 10 "cpu_checksum 3000000"]
    by (simp add: wl_cpu_heavy_def exits_def plain_text_def)
  then show ?thesis using plain_quiet by (auto simp: wl_cpu_heavy_def exits_def)
qed

lemma touch_pages_length: "length (touch_pages n k buf) = length buf"
proof -
  have "length (fold (\<lambda>k b. b[4096 * k := and (n + 4096 * k) 0xFF]) ks buf) = length buf" for ks
    by (induction ks arbitrary: buf) simp_all
  then show ?thesis by (simp add: touch_pages_def)
qed

lemma memory_heavy_run:
  assumes "\<not> we_no_memory we 0"
  shows "pg_exit (wl_memory_heavy we) = Some 0 \<and> pg_stderr (wl_memory_heavy we) = [] \<and> quiet_text (pg_stdout (wl_memory_heavy we))"
proof -
  have "plain_text (CHR ''f'') (22 + 10 + 1) (pg_stdout (wl_memory_heavy we))"
    using plain_line [of "CHR ''f''" "''memory_heavy_ok bytes=''" 10 33554432] assms
    by (simp add: wl_memory_heavy_def exits_def plain_text_def touch_pages_length)
  then show ?thesis using plain_quiet assms by (auto simp: wl_memory_heavy_def exits_def)
qed

lemma grow_run:
  assumes "\<And>n. \<not> we_no_memory we n" and "\<forall>n\<in>set ns. n < 100"
  shows "\<exists>out. grow we ns c = (out, Some (c + length ns)) \<and> plain_text (CHR ''f'') (100 * length ns) out"
  using assms(2)
proof (induction ns arbitrary: c)
  case (Cons n ns)
  then obtain out where out: "grow we ns (c + 1) = (out, Some (c + 1 + length ns))" "plain_text (CHR ''f'') (100 * length ns) out"
    by (metis list.set_intros(2))
  have n: "n < 100" using Cons.prems by simp
  have "plain_text (CHR ''f'') (17 + 2) (''memory_grow step='' @ dec_nat n)"
    using n by (intro plain_append plain_dec) (auto simp: plain_text_def)
  then have "plain_text (CHR ''f'') (19 + (10 + 3 + 1)) ((''memory_grow step='' @ dec_nat n) @ println ('' total_mb='' @ dec_nat ((n + 1) * 4)))"
    using n plain_line [of "CHR ''f''" "'' total_mb=''" 3 "(n + 1) * 4"] by (intro plain_append) (auto simp: plain_text_def)
  then have "plain_text (CHR ''f'') 100 (println (''memory_grow step='' @ dec_nat n @ '' total_mb='' @ dec_nat ((n + 1) * 4)))"
    by (auto simp: println_def plain_text_def)
  from plain_append [OF this out(2)] show ?case using assms(1) out(1) by simp
qed (simp add: plain_text_def)

lemma memory_grow_run:
  assumes "\<And>n. \<not> we_no_memory we n"
  shows "pg_exit (wl_memory_grow we) = Some 0 \<and> pg_stderr (wl_memory_grow we) = [] \<and> quiet_text (pg_stdout (wl_memory_grow we))"
proof -
  obtain out where out: "grow we [0..<64] 0 = (out, Some 64)" "plain_text (CHR ''f'') 6400 out"
    using grow_run [OF assms, of "[0..<64]" 0] by auto
  have "plain_text (CHR ''f'') (6400 + (24 + 2 + 1)) (out @ println (''memory_grow_done chunks='' @ dec_nat 64))"
    using plain_line [of "CHR ''f''" "''memory_grow_done chunks=''" 2 64] by (intro plain_append out(2)) (auto simp: plain_text_def)
  then show ?thesis using plain_quiet by (auto simp: wl_memory_grow_def exits_def out(1))
qed

lemma child_process_run:
  assumes "we_child we" and "we_pid we < 10 ^ 10"
  shows "pg_exit (wl_child_process we) = Some 0 \<and> pg_stderr (wl_child_process we) = [] \<and> quiet_text (pg_stdout (wl_child_process we))"
proof -
  have "plain_text (CHR ''f'') (21 + 10 + 1) (pg_stdout (wl_child_process we))"
    using plain_line [of "CHR ''f''" "''child_spawned parent=''" 10 "we_pid we"] assms
    by (auto simp: wl_child_process_def exits_def plain_text_def)
  then show ?thesis using plain_quiet assms by (auto simp: wl_child_process_def exits_def)
qed

lemma spawn_run:
  assumes "\<And>i. \<exists>pid < 10 ^ 10. we_spawn we i = Inr pid" and "\<forall>i\<in>set ns. i < 100" and "c + length ns < 100"
  shows "\<exists>out. spawn_children we ns c = (out, 0) \<and> plain_text (CHR ''f'') (100 * (length ns + 1)) out"
  using assms(2,3)
proof (induction ns arbitrary: c)
  case Nil
  then have "plain_text (CHR ''f'') (25 + 2 + 1) (println (''process_heavy_ok spawned='' @ dec_nat c))"
    using plain_line [of "CHR ''f''" "''process_heavy_ok spawned=''" 2 c] by (auto simp: plain_text_def)
  then show ?case by (auto intro: plain_mono)
next
  case (Cons n ns)
  then obtain out where out: "spawn_children we ns (c + 1) = (out, 0)" "plain_text (CHR ''f'') (100 * (length ns + 1)) out"
    using Cons.IH [of "c + 1"] by fastforce
  obtain pid where pid: "we_spawn we n = Inr pid" "pid < 10 ^ 10" using assms(1) by blast
  have n: "n < 100" using Cons.prems by simp
  have "plain_text (CHR ''f'') (8 + 2) (''spawned '' @ dec_nat n)"
    using n by (intro plain_append plain_dec) (auto simp: plain_text_def)
  then have "plain_text (CHR ''f'') (10 + (5 + 10 + 1)) ((''spawned '' @ dec_nat n) @ println ('' pid='' @ dec_nat pid))"
    using plain_line [of "CHR ''f''" "'' pid=''" 10 pid] pid(2) by (intro plain_append) (auto simp: plain_text_def)
  then have "plain_text (CHR ''f'') 100 (println (''spawned '' @ dec_nat n @ '' pid='' @ dec_nat pid))"
    by (auto simp: println_def plain_text_def)
  from plain_append [OF this out(2)] show ?case using pid(1) out(1) by simp
qed

lemma process_heavy_run:
  assumes "\<And>i. \<exists>pid < 10 ^ 10. we_spawn we i = Inr pid" and "map_of (we_environ we) ''CF_PROCESS_HEAVY_N'' = None"
  shows "pg_exit (wl_process_heavy we) = Some 0 \<and> pg_stderr (wl_process_heavy we) = [] \<and> quiet_text (pg_stdout (wl_process_heavy we))"
proof -
  have "parse_int (environ_get we ''CF_PROCESS_HEAVY_N'' ''20'') = Some 20"
    using assms(2) by (simp add: environ_get_def parse_int_def strip_def strip_by_def rstrip_by_def is_space_def)
  moreover obtain out where "spawn_children we [0..<20] 0 = (out, 0)" "plain_text (CHR ''f'') 2100 out"
    using spawn_run [OF assms(1), of "[0..<20]" 0] by auto
  ultimately show ?thesis using plain_quiet by (auto simp: wl_process_heavy_def exits_def)
qed

lemma disk_heavy_run:
  assumes "\<And>n. \<not> we_write_fails we n" and "map_of (we_environ we) ''CF_DISK_HEAVY_MB'' = None"
  shows "pg_exit (wl_disk_heavy we) = Some 0 \<and> pg_stderr (wl_disk_heavy we) = [] \<and> quiet_text (pg_stdout (wl_disk_heavy we))"
    and "map snd (pg_files (wl_disk_heavy we)) = replicate 8 1048576"
proof -
  have n: "parse_int (environ_get we ''CF_DISK_HEAVY_MB'' ''8'') = Some 8"
    using assms(2) by (simp add: environ_get_def parse_int_def strip_def strip_by_def rstrip_by_def is_space_def)
  have "\<exists>out fs. disk_loop we 8388608 0 0 = (out, fs, Some 8388608) \<and> map snd fs = replicate 8 1048576"
    using disk_loop_writes [OF assms(1), where written = 0 and n = 0 and m = 8 and target = 8388608] by simp
  then show "map snd (pg_files (wl_disk_heavy we)) = replicate 8 1048576" by (auto simp: wl_disk_heavy_def n exits_def)
  show "pg_exit (wl_disk_heavy we) = Some 0 \<and> pg_stderr (wl_disk_heavy we) = [] \<and> quiet_text (pg_stdout (wl_disk_heavy we))"
    using assms(1)
    by (simp add: wl_disk_heavy_def n exits_def disk_loop.simps [of we] chunks_written dec_int_def dec_nat.simps hex_digit_def println_def
        quiet_text_def limit_markers_def starts_with_def)
qed

lemma other_runs:
  "pg_exit wl_sleep = Some 0 \<and> pg_stderr wl_sleep = [] \<and> quiet_text (pg_stdout wl_sleep)"
  "pg_exit wl_failure = Some 7 \<and> quiet_text (pg_stdout wl_failure @ pg_stderr wl_failure)"
  "pg_exit wl_timeout = None"
  "pg_exit wl_large_output = Some 0 \<and> pg_stderr wl_large_output = [] \<and> length (pg_stdout wl_large_output) = 10240000"
  by (simp_all add: wl_sleep_def wl_failure_def wl_timeout_def wl_large_output_def exits_def println_def quiet_text_def
      limit_markers_def starts_with_def length_concat sum_list_replicate)

section \<open>Under the executor\<close>

text \<open>
  What the executor sees of a run: chunks of its streams (all of them once it has exited), a limit event of a reader only when
  its cap is exceeded, and its exit code.
\<close>

definition observes :: "execution_limits \<Rightarrow> program_run \<Rightarrow> exec_world \<Rightarrow> bool" where
  "observes lm run w \<longleftrightarrow> \<not> xw_popen_error w \<and> [] \<notin> set (xw_out_chunks w) \<and> [] \<notin> set (xw_err_chunks w) \<and>
     (\<forall>ob\<in>set (xw_obs w).
        (po_out_hit ob \<longrightarrow> max_stdout_bytes lm < int (length (pg_stdout run))) \<and>
        (po_err_hit ob \<longrightarrow> max_stderr_bytes lm < int (length (pg_stderr run))) \<and>
        (po_exit ob \<noteq> None \<longrightarrow> po_exit ob = pg_exit run \<and> concat (xw_out_chunks w) = pg_stdout run \<and>
           concat (xw_err_chunks w) = pg_stderr run \<and>
           po_truncated ob = (max_stdout_bytes lm < int (length (pg_stdout run)), max_stderr_bytes lm < int (length (pg_stderr run)))))"

text \<open>The program is given the time it needs: it is seen to exit before the deadline, or it does not end.\<close>

definition in_time :: "execution_limits \<Rightarrow> program_run \<Rightarrow> exec_world \<Rightarrow> bool" where
  "in_time lm run w \<longleftrightarrow> (case pg_exit run of
       Some c \<Rightarrow> (\<exists>ob\<in>set (xw_obs w). po_exit ob \<noteq> None) \<and> (\<forall>ob\<in>set (xw_obs w). po_now ob < wall_deadline lm (xw_started w))
     | None \<Rightarrow> (\<exists>ob\<in>set (xw_obs w). wall_deadline lm (xw_started w) \<le> po_now ob))"

lemma no_limits_hit: "fst (poll_limits default_limits ob s) = None"
  by (simp add: poll_limits_def default_limits_def Let_def split: option.splits)

lemma poll_exit:
  assumes "\<forall>ob\<in>set obs. po_now ob < dl \<and> \<not> po_out_hit ob \<and> \<not> po_err_hit ob \<and>
      (po_exit ob = None \<or> po_exit ob = Some c \<and> po_truncated ob = (False, False))"
    and "\<exists>ob\<in>set obs. po_exit ob \<noteq> None"
  shows "\<exists>s'. poll_loop default_limits dl obs s = Some (if c \<noteq> 0 then Failed else Succeeded, None, s')"
  using assms
proof (induction obs arbitrary: s)
  case (Cons ob obs)
  obtain s1 where s1: "poll_limits default_limits ob s = (None, s1)" using no_limits_hit [of ob s] by (metis prod.collapse)
  show ?case
    using Cons s1 by (cases "po_exit ob") (auto simp: classify_exit_def classify_resource_exit_def default_limits_def)
qed simp

lemma poll_timeout:
  assumes "\<forall>ob\<in>set obs. \<not> po_out_hit ob \<and> \<not> po_err_hit ob \<and> po_exit ob = None" and "\<exists>ob\<in>set obs. dl \<le> po_now ob"
  shows "\<exists>why s'. poll_loop default_limits dl obs s = Some (Timeout, why, s')"
  using assms
proof (induction obs arbitrary: s)
  case (Cons ob obs)
  obtain s1 where s1: "poll_limits default_limits ob s = (None, s1)" using no_limits_hit [of ob s] by (metis prod.collapse)
  show ?case using Cons s1 by auto
qed simp

lemma poll_output:
  assumes "\<forall>ob\<in>set obs. po_now ob < dl \<and> (po_exit ob = None \<or> fst (po_truncated ob))"
    and "\<exists>ob\<in>set obs. po_exit ob \<noteq> None"
  shows "\<exists>why s'. poll_loop default_limits dl obs s = Some (OutputLimit, why, s')"
  using assms
proof (induction obs arbitrary: s)
  case (Cons ob obs)
  obtain s1 where s1: "poll_limits default_limits ob s = (None, s1)" using no_limits_hit [of ob s] by (metis prod.collapse)
  show ?case
  proof (cases "po_exit ob")
    case None
    then show ?thesis using Cons s1 by auto
  next
    case (Some c)
    then show ?thesis using Cons.prems by (auto simp: classify_exit_def)
  qed
qed simp

lemma executor_status:
  assumes "\<not> xw_popen_error w" and "poll_loop default_limits (wall_deadline default_limits (xw_started w)) (xw_obs w) poll_start = Some (st, why, s)"
  shows "\<exists>r. executor_run default_limits w n = Some r \<and> er_leaked_pids r = terminate_tree w \<and>
    er_status r = fst (classify_signals (sc_buf (cap_run 262144 (xw_out_chunks w) new_cap) @
      sc_buf (cap_run 262144 (xw_err_chunks w) new_cap)) (st, why))"
  using assms by (simp add: executor_run_def Let_def reclassify_cpu_def default_limits_def split: prod.splits)

lemma quiet_run_outcome:
  assumes "observes default_limits run w" and "in_time default_limits run w" and "pg_exit run = Some c"
    and "quiet_text (pg_stdout run @ pg_stderr run)" and "terminate_tree w = []"
  shows "\<exists>r. executor_run default_limits w n = Some r \<and> outcome_from_result r = (if c = 0 then SUCCESS else NONZERO_EXIT)"
proof -
  have lim: "max_stdout_bytes default_limits = 262144" "max_stderr_bytes default_limits = 262144" by (simp_all add: default_limits_def)
  have len: "length (pg_stdout run) \<le> 262144" "length (pg_stderr run) \<le> 262144" using assms(4) by (simp_all add: quiet_text_def)
  have ob: "\<forall>ob\<in>set (xw_obs w). po_now ob < wall_deadline default_limits (xw_started w) \<and> \<not> po_out_hit ob \<and> \<not> po_err_hit ob \<and>
      (po_exit ob = None \<or> po_exit ob = Some c \<and> po_truncated ob = (False, False))"
    using assms(1-3) len by (fastforce simp: observes_def in_time_def lim)
  have ex: "\<exists>ob\<in>set (xw_obs w). po_exit ob \<noteq> None" using assms(2,3) by (simp add: in_time_def)
  obtain s where s: "poll_loop default_limits (wall_deadline default_limits (xw_started w)) (xw_obs w) poll_start =
      Some (if c \<noteq> 0 then Failed else Succeeded, None, s)"
    using poll_exit [OF ob ex] by blast
  have streams: "concat (xw_out_chunks w) = pg_stdout run" "concat (xw_err_chunks w) = pg_stderr run"
      "[] \<notin> set (xw_out_chunks w)" "[] \<notin> set (xw_err_chunks w)" "\<not> xw_popen_error w"
    using assms(1) ex by (auto simp: observes_def)
  have "sc_buf (cap_run 262144 (xw_out_chunks w) new_cap) = pg_stdout run" "sc_buf (cap_run 262144 (xw_err_chunks w) new_cap) = pg_stderr run"
    using cap_run_spec [of "xw_out_chunks w" 262144 new_cap "[]"] cap_run_spec [of "xw_err_chunks w" 262144 new_cap "[]"] streams len
    by (simp_all add: new_cap_def)
  moreover obtain r where r: "executor_run default_limits w n = Some r" "er_leaked_pids r = []"
      "er_status r = fst (classify_signals (sc_buf (cap_run 262144 (xw_out_chunks w) new_cap) @
        sc_buf (cap_run 262144 (xw_err_chunks w) new_cap)) (if c \<noteq> 0 then Failed else Succeeded, None))"
    using executor_status [OF streams(5) s, of n] assms(5) by auto
  ultimately have "er_status r = (if c \<noteq> 0 then Failed else Succeeded)"
    using assms(4) by (simp add: classify_signals_def quiet_text_def limit_markers_def)
  then show ?thesis using r(1,2) by (simp add: outcome_from_result_def)
qed

text \<open>A host that lets the programs have what they ask for.\<close>

definition able_host :: "workload_env \<Rightarrow> bool" where
  "able_host we \<longleftrightarrow> (\<forall>n. \<not> we_no_memory we n) \<and> (\<forall>i. \<exists>pid < 10 ^ 10. we_spawn we i = Inr pid) \<and> we_child we \<and>
     we_pid we < 10 ^ 10 \<and> (\<forall>n. \<not> we_write_fails we n) \<and> map_of (we_environ we) ''CF_PROCESS_HEAVY_N'' = None \<and>
     map_of (we_environ we) ''CF_DISK_HEAVY_MB'' = None"

lemma write_many_ok: "(\<And>n. \<not> we_write_fails we n) \<Longrightarrow> snd (write_many we ns)"
  by (induction ns) (auto split: prod.split)

definition ends_quietly :: "program_run \<Rightarrow> execution_outcome \<Rightarrow> bool" where
  "ends_quietly run expected \<longleftrightarrow> (\<exists>c. pg_exit run = Some c \<and> expected = (if c = 0 then SUCCESS else NONZERO_EXIT) \<and>
     quiet_text (pg_stdout run @ pg_stderr run))"

lemma ends_quietlyI:
  "pg_exit run = Some 0 \<and> pg_stderr run = [] \<and> quiet_text (pg_stdout run) \<Longrightarrow> ends_quietly run SUCCESS"
  by (simp add: ends_quietly_def)

lemma corpus_runs:
  assumes "able_host we"
  shows "list_all (\<lambda>(name, expected). name \<in> {''LARGE_OUTPUT'', ''TIMEOUT''} \<or>
    name \<in> {''MANY_FILES'', ''BOUNDARY_PROBE''} \<and> \<not> quiet_text (pg_stdout (workload_main we [name])) \<or>
    ends_quietly (workload_main we [name]) expected) TRUSTED_CORPUS"
proof -
  have a: "\<And>n. \<not> we_no_memory we n" "\<And>i. \<exists>pid < 10 ^ 10. we_spawn we i = Inr pid" "we_child we" "we_pid we < 10 ^ 10"
      "\<And>n. \<not> we_write_fails we n" "map_of (we_environ we) ''CF_PROCESS_HEAVY_N'' = None"
      "map_of (we_environ we) ''CF_DISK_HEAVY_MB'' = None"
    using assms by (simp_all add: able_host_def)
  have "ends_quietly (wl_many_files we) SUCCESS" if "quiet_text (pg_stdout (wl_many_files we))"
    using write_many_ok [OF a(5), of "[0..<50]"] that
    by (intro ends_quietlyI, cases "write_many we [0..<50]") (simp add: wl_many_files_def Let_def exits_def)
  moreover have "ends_quietly (wl_boundary_probe we) SUCCESS" if "quiet_text (pg_stdout (wl_boundary_probe we))"
    using that by (intro ends_quietlyI) (simp add: wl_boundary_probe_def exits_def)
  moreover have "ends_quietly wl_failure NONZERO_EXIT" using other_runs(2) by (simp add: ends_quietly_def)
  moreover note light_run [THEN ends_quietlyI] cpu_heavy_run [THEN ends_quietlyI] memory_heavy_run [OF a(1), THEN ends_quietlyI]
    memory_grow_run [OF a(1), THEN ends_quietlyI] child_process_run [OF a(3,4), THEN ends_quietlyI]
    process_heavy_run [OF a(2,6), THEN ends_quietlyI] disk_heavy_run(1) [OF a(5,7), THEN ends_quietlyI]
    other_runs(1) [THEN ends_quietlyI]
  ultimately show ?thesis by (auto simp: TRUSTED_CORPUS_def workload_main_def HANDLERS_def)
qed


definition sample_workload_env :: workload_env where
  "sample_workload_env = \<lparr>we_environ = [(''CF_WORKSPACE'', ''/tmp/w'')], we_pid = 42, we_cwd = ''/tmp/w'', we_no_memory = (\<lambda>n. False),
     we_spawn = (\<lambda>i. Inr 43), we_child = True, we_write_fails = (\<lambda>n. False), we_forbidden = Inl ''FileNotFoundError:2'',
     we_parent = Inr 3, we_loopback = Refused, we_dns = Some ''gaierror'', we_import = Some ''ModuleNotFoundError'', we_traceback = []\<rparr>"

definition sleep_world :: exec_world where
  "sleep_world = quiet_world\<lparr>xw_out_chunks := [''sleep_'', println ''ok'']\<rparr>"


text \<open>Every name that can be resolved has a program.\<close>

lemma handlers_total: "set (map fst HANDLERS) = set WORKLOAD_NAMES"
  by (auto simp: HANDLERS_def WORKLOAD_NAMES_def)

end
