(* ===== verification/Spec2Isabelle.thy ===== *)
theory Spec2Isabelle
  imports Row_Mapping Retrieval Api_Guarantees Coalescing Hint_Publisher Request_Profile
    Migration_Guarantees Job_Object Workloads
begin

text \<open>
  A verification development for ChallengeForge, the backend under \<^verbatim>\<open>src/src/challengeforge/\<close>: organizers
  publish hackathons and challenges, participants create and submit submissions with artifacts, an
  evaluation worker scores what was submitted, an ingestion worker cuts the artifacts into chunks, and
  a lexical search reads the chunks. PostgreSQL holds the tables, a directory tree the blobs.

  \<^bold>\<open>The parts and how they interact.\<close> The API process runs the services of \<^verbatim>\<open>application/\<close> for HTTP requests and
  keeps latency windows in memory; a publisher copies them into the scheduler row. A submit
  moves a submission to SUBMITTED and inserts its evaluation in one transaction. Evaluation workers
  read the scheduler row, run the resource controller, claim the next evaluation under the scheduling
  rules, evaluate outside of any transaction, and complete, defer or release the claim; a stale claim is
  recovered by any worker. An artifact is published in the store before its key is committed, and an
  ingestion job is then enqueued for it; ingestion workers claim, process, commit and clean up. Search
  reads the chunks of succeeded jobs.

  \<^bold>\<open>Conventions.\<close> A table is a list of records, one transaction is one function from table to table, and a
  result type is \<open>exn + 'a\<close> with an exception on the left. Python integers are \<open>int\<close> or
  \<open>nat\<close>, floats are reals (rounding of arithmetic is left out, \<open>round\<close> is modelled), a UUID is its 128-bit number, a
  datetime a number of microseconds since 1970. What the program does not decide is an argument: clocks, drawn
  identifiers, failing commits, SHA-256, the text of floats, what the operating system reports, the
  answers of kernel32, the matches and ranks of PostgreSQL's full-text search. Loops over data are structural or have a measure; there is no
  fuel. The poll loop of the executor consumes a list of observations, and its termination theorem says how many
  are enough.

  \<^bold>\<open>Which theory models what.\<close>
  \<^item> \<open>Prelude\<close>: shared types, Python strings, JSON and tables. \<open>Domain\<close>: \<^verbatim>\<open>domain/\<close>. \<open>Config\<close>: \<^verbatim>\<open>config.py\<close>.
  \<^item> \<open>Resource_Control\<close>, \<open>Interactive_Signal\<close>, \<open>Runtime\<close>: \<^verbatim>\<open>runtime/budgets.py\<close>, \<^verbatim>\<open>observer.py\<close>,
    \<^verbatim>\<open>pressure.py\<close>, \<^verbatim>\<open>controller.py\<close>, \<^verbatim>\<open>interactive_signal.py\<close>, \<^verbatim>\<open>admission.py\<close>, \<^verbatim>\<open>runtime.py\<close>: from measured load to
    pressure, concurrency and admission. \<open>Coalescing\<close>: \<^verbatim>\<open>runtime/coalescing.py\<close>, cut where its coroutine waits.
  \<^item> \<open>Evaluator\<close>, \<open>Progressive\<close>: \<^verbatim>\<open>evaluation/\<close> and \<^verbatim>\<open>application/evaluator.py\<close>, the stages and their escalation policy.
  \<^item> \<open>Ownership\<close>, \<open>Execution\<close>: \<^verbatim>\<open>execution/\<close> and \<^verbatim>\<open>evaluation/synthetic_execution.py\<close>, child processes and their containment.
    \<open>Process_Tree\<close> is the termination of a process tree, \<open>Job_Object\<close> \<^verbatim>\<open>execution/job_object.py\<close> with words and a trace of
    calls, \<open>Workloads\<close> the programs of \<^verbatim>\<open>execution/workloads.py\<close>.
  \<^item> \<open>Job_Table\<close>, \<open>Eval_Queue\<close>, \<open>Ingest_Queue\<close>: the queues of \<^verbatim>\<open>persistence/repositories.py\<close>. \<open>Lease_Queue\<close> is
    their abstract specification and \<open>Lease_Refinement\<close> the refinement of both.
  \<^item> \<open>Eval_Constraints\<close>, \<open>Row_Mapping\<close>: \<^verbatim>\<open>persistence/models.py\<close>, \<^verbatim>\<open>persistence/mapping.py\<close>: constraints of the tables, rows with
    text columns and their mapping. The other theories keep tables of domain objects, which this mapping justifies.
  \<^item> \<open>Schema\<close>, \<open>Schema_Runs\<close>, \<open>Schema_Undo\<close>: the data definition statements the source uses, as documented for PostgreSQL,
    on schemas and rows. \<open>Migrations\<close>, \<open>Migration_Runs\<close>, \<open>Migration_Guarantees\<close>: the revisions of \<^verbatim>\<open>alembic/versions/\<close>, the
    tables of \<^verbatim>\<open>persistence/models.py\<close>, \<^verbatim>\<open>retrieval/schema.py\<close> and \<open>_prepare_schema\<close> of \<^verbatim>\<open>scripts/run_dev.py\<close>.
  \<^item> \<open>Eval_Worker\<close>: \<^verbatim>\<open>worker/__init__.py\<close>, with \<open>sys_step\<close> for any number of workers.
  \<^item> \<open>Storage\<close>, \<open>Keys\<close>: \<^verbatim>\<open>storage/filesystem.py\<close>, \<^verbatim>\<open>application/uploads.py\<close>, \<^verbatim>\<open>application/artifacts.py\<close>, with a write as
    its sequence of file-system steps and a crash between any two.
  \<^item> \<open>Chunking\<close>, \<open>Ingest_Worker\<close>: \<^verbatim>\<open>ingestion/\<close>. \<open>Retrieval\<close>: \<^verbatim>\<open>retrieval/lexical.py\<close>, \<^verbatim>\<open>retrieval/metrics.py\<close>.
  \<^item> \<open>Catalog\<close>, \<open>Submissions\<close>, \<open>Eval_Views\<close>: the services of \<^verbatim>\<open>application/\<close>. \<open>Platform\<close>, \<open>Platform_Tables\<close>: their
    interleaving with each other, with crashes and with the workers.
  \<^item> \<open>Request_Identity\<close>, \<open>Api\<close>, \<open>Api_Guarantees\<close>: \<^verbatim>\<open>api/\<close> and \<^verbatim>\<open>identity/\<close>, routes over the services.
    \<open>Hint_Publisher\<close>: \<^verbatim>\<open>api/interactive_metrics.py\<close> and its part of \<^verbatim>\<open>api/middleware.py\<close>. \<open>Request_Profile\<close>:
    \<^verbatim>\<open>request_profile.py\<close>, whose accounts add up.

  \<^bold>\<open>Interfaces.\<close> The locales are \<open>transition_table\<close> (status tables), \<open>paced_controller\<close> (changes spaced by a
  cooldown), \<open>stage_runner\<close> (what a stage promises the progressive loop), \<open>blob_store\<close> (what a write promises after a
  crash), \<open>job_table\<close> (rows evolve along a transition table), \<open>lease_provider\<close> (a queue refines the lease queue),
  \<open>hint_store\<close> (the row the publisher writes), \<open>text_enum\<close> (enumerations kept as text) and \<open>row_codec\<close> (rows that hold
  objects); each is interpreted on the definitions of its provider.

  \<^bold>\<open>What is shown.\<close>
  \<^item> Scheduling: claims are exact, within the budgets in every interleaving, with bounded bypass; recovery
    never requeues a live process, and a recovered claim is revoked; results are final; both queues refine the lease
    queue, so a completion is reported once and by the holder.
  \<^item> Tables: every operation of services and workers keeps the constraints of the evaluation tables; rows and
    domain objects correspond one to one, and the guarded updates on texts do what the operations on objects do.
  \<^item> Migrations: upgrades succeed on any valid data and keep it, downgrades undo them, replays survive the
    back-fill of fingerprints, and the models agree with the head revision up to one default.
  \<^item> Evaluation: every run, deferred or not, agrees with the ground truth and accounts each stage once.
  \<^item> Execution: every workload of the corpus ends as promised, job limits are what was asked for, handles are closed,
    and what is reported as leaked is exact for the tree that was listed.
  \<^item> Storage and submissions: a committed artifact can always be read, whatever crashes; a submission is
    submitted exactly when it has one evaluation; creates with a key and submits take effect once.
  \<^item> Ingestion and search: with one worker name outputs of a succeeded job are complete; chunks tile the document, and
    what a search returns can be traced to it.
  \<^item> API: identities are read back, requests without one are refused, errors are opaque and
    change nothing, submissions are confidential, and the author of a submitted submission always gets its evaluation.
  \<^item> Defects the model exposes are theorems too: late ingestion workers that erase outputs, updates that land after a submit,
    lost ingestion jobs, deadlines that overflow, a cancelled leader that strands its joiners, samples
    lost during a hint write, unescaped search wildcards, organizers who list foreign submissions,
    a downgrade that is refused, processes that
    outlive their execution.

  \<^bold>\<open>Not modelled.\<close> The HTML pages (\<^verbatim>\<open>web/\<close>), logging, engine and session wiring, and the parsing
  done by FastAPI and pydantic, which are glue around libraries; \<^verbatim>\<open>alembic/env.py\<close>, which
  connects and calls Alembic; the load generators of \<^verbatim>\<open>scripts/\<close>, which drive the program from outside; text outside 8-bit characters.
\<close>

end
